(* ===== verification/Prelude.thy ===== *)
theory Prelude
  imports Main "HOL-Library.Monad_Syntax" "HOL-Library.Word"
    "HOL-Library.Char_ord" "HOL-Library.List_Lexorder" "HOL-Library.Multiset"
begin

text \<open>
  Shared vocabulary of the development: the outcome convention for C code, the collections of
  rewrite rules the component theories extend, and the generic facts about options, lists and
  association lists that several components use.

  Convention for outcomes.  A C function that can run into undefined behaviour (a NULL or dangling
  pointer, a write past a buffer) or that may not return is modelled by a value of an option type:
  \<open>None\<close> is the fault, \<open>Some r\<close> the normal return.  Error returns of the code (a
  negative status, a NULL result) are ordinary values inside the \<open>Some\<close>.
\<close>

named_theorems cstring_simps \<open>evaluation of the C string functions\<close>
named_theorems heap_simps \<open>reading and writing heap cells\<close>
named_theorems model_defs \<open>definitions of the record-level operations\<close>

section \<open>Options\<close>

lemma bind_Some_iff [simp]:
  "(Option.bind m f = Some y) \<longleftrightarrow> (\<exists>x. m = Some x \<and> f x = Some y)"
  by (cases m) auto

lemma bind_Some_obtain:
  assumes "Option.bind m f = Some y"
  obtains x where "m = Some x" and "f x = Some y"
  using assms by auto

lemma bind_Some_map_option: "Option.bind m (\<lambda>x. Some (f x)) = map_option f m"
  by (cases m) auto

definition guard_opt :: "bool \<Rightarrow> unit option" where
  "guard_opt b = (if b then Some () else None)"

lemma guard_opt_simps [simp]:
  "guard_opt True = Some ()"
  "guard_opt False = None"
  "guard_opt b = Some u \<longleftrightarrow> b"
  by (auto simp: guard_opt_def)

section \<open>Lists\<close>

text \<open>An array element; outside the array there is none.\<close>

definition idx :: "'a list \<Rightarrow> nat \<Rightarrow> 'a option" where
  "idx xs i = (if i < length xs then Some (xs ! i) else None)"

type_synonym byte = "8 word"

lemma takeWhile_all_append:
  "list_all P xs \<Longrightarrow> \<not> P y \<Longrightarrow> takeWhile P (xs @ y # ys) = xs"
  by (induction xs) auto

lemma dropWhile_all_append:
  "list_all P xs \<Longrightarrow> \<not> P y \<Longrightarrow> dropWhile P (xs @ y # ys) = y # ys"
  by (induction xs) auto

lemma takeWhile_all: "list_all P xs \<Longrightarrow> takeWhile P xs = xs"
  by (induction xs) auto

lemma dropWhile_all: "list_all P xs \<Longrightarrow> dropWhile P xs = []"
  by (induction xs) auto

lemma takeWhile_take_le:
  "length (takeWhile P xs) \<le> n \<Longrightarrow> takeWhile P (take n xs) = takeWhile P xs"
proof (induction xs arbitrary: n)
  case Nil
  then show ?case by simp
next
  case (Cons x xs)
  then show ?case by (cases n) (auto split: if_splits)
qed

lemma nth_default_list_cases:
  "(if i < length xs then xs ! i else d) = (case drop i xs of [] \<Rightarrow> d | x # _ \<Rightarrow> x)"
proof (cases "i < length xs")
  case True
  then show ?thesis by (simp add: Cons_nth_drop_Suc [symmetric])
qed simp

section \<open>Association lists with distinct keys\<close>

lemma lookup_filter:
  assumes "distinct (map fst xs)"
  shows "map_of (filter Q xs) a = Option.bind (map_of xs a) (\<lambda>b. if Q (a, b) then Some b else None)"
  using assms
proof (induction xs)
  case (Cons x xs)
  have "a \<noteq> fst x" if "map_of xs a = Some b" for b
    using map_of_SomeD [OF that] Cons.prems by (auto simp: rev_image_eqI)
  with Cons show ?case by (cases x; cases "map_of xs a") auto
qed simp

section \<open>Runs of an event loop\<close>

text \<open>
  The states an event loop reaches: a handler is called for every event that \<open>ok\<close> admits,
  and a handler that faults ends the run.
\<close>

inductive reaches :: "('e \<Rightarrow> 's \<Rightarrow> 's option) \<Rightarrow> ('e \<Rightarrow> bool) \<Rightarrow> 's \<Rightarrow> 's \<Rightarrow> bool"
  for handle ok s where
  reaches_start: "reaches handle ok s s"
| reaches_event: "reaches handle ok s t \<Longrightarrow> ok e \<Longrightarrow> handle e t = Some u \<Longrightarrow> reaches handle ok s u"

inductive_cases reachesE: "reaches handle ok s t"

lemma reaches_mono: "reaches handle ok s t \<Longrightarrow> (\<And>e. ok e \<Longrightarrow> ok' e) \<Longrightarrow> reaches handle ok' s t"
  by (induction rule: reaches.induct) (auto intro: reaches.intros)

text \<open>A property that every admitted event keeps.\<close>

locale event_invariant =
  fixes handle :: "'e \<Rightarrow> 's \<Rightarrow> 's option" and ok :: "'e \<Rightarrow> bool" and inv :: "'s \<Rightarrow> bool"
  assumes keeps: "inv s \<Longrightarrow> ok e \<Longrightarrow> handle e s = Some t \<Longrightarrow> inv t"
begin

lemma run_inv: "reaches handle ok s t \<Longrightarrow> inv s \<Longrightarrow> inv t"
  by (induction rule: reaches.induct) (auto intro: keeps)

lemma run_trans: "reaches handle ok t u \<Longrightarrow> reaches handle ok s t \<Longrightarrow> reaches handle ok s u"
  by (induction rule: reaches.induct) (auto intro: reaches.intros)

end

end
