(* ===== verification/CString.thy ===== *)
theory CString
  imports Prelude
begin

text \<open>
  The parts of the C standard library the program relies on, as executable functions on C strings.
  A C string is a \<open>string\<close> without the NUL character: the characters before the
  terminator.  Characters are bytes, and \<open>strcmp\<close> orders them as unsigned bytes, so it
  is the lexicographic order of the library theory List\_Lexorder over Char\_ord.

  Nothing here is mapped to the sources: these are the C99/POSIX functions the sources call.
\<close>

section \<open>Comparison\<close>

text \<open>The sign of \<open>strcmp\<close>, which is all the callers look at.\<close>

fun strcmp :: "string \<Rightarrow> string \<Rightarrow> int" where
  "strcmp [] [] = 0"
| "strcmp [] (b # bs) = -1"
| "strcmp (a # as) [] = 1"
| "strcmp (a # as) (b # bs) =
     (if a = b then strcmp as bs
      else if (of_char a :: nat) < of_char b then -1 else 1)"

lemma strcmp_eq_0 [simp]: "strcmp a b = 0 \<longleftrightarrow> a = b"
  by (induction a b rule: strcmp.induct) auto

lemma strcmp_less: "strcmp a b < 0 \<longleftrightarrow> a < b"
  by (induction a b rule: strcmp.induct) (auto simp: less_char_def)

lemma strcmp_greater: "strcmp a b > 0 \<longleftrightarrow> b < a"
proof -
  have "strcmp a b > 0 \<longleftrightarrow> \<not> (strcmp a b < 0) \<and> strcmp a b \<noteq> 0" by linarith
  then show ?thesis by (auto simp: strcmp_less)
qed

definition to_lower :: "char \<Rightarrow> char" where
  "to_lower c = (let n = (of_char c :: nat) in if 65 \<le> n \<and> n \<le> 90 then char_of (n + 32) else c)"

definition strcaseeq :: "string \<Rightarrow> string \<Rightarrow> bool" where
  "strcaseeq a b = (map to_lower a = map to_lower b)"

section \<open>Buffers and terminators\<close>

definition nul :: char where "nul = CHR 0x00"
definition newline :: char where "newline = CHR 0x0A"

text \<open>The C string at the start of a byte sequence.\<close>

definition cstr :: "string \<Rightarrow> string" where
  "cstr bs = takeWhile (\<lambda>c. c \<noteq> nul) bs"

text \<open>
  A zeroed buffer of \<open>n\<close> bytes into which \<open>bs\<close> was received: the C string it
  holds, or a fault when no terminator is left inside the buffer, so that every string function
  reads past its end.
\<close>

definition cstr_of_buf :: "nat \<Rightarrow> string \<Rightarrow> string option" where
  "cstr_of_buf n bs =
     (if length bs < n \<or> nul \<in> set bs then Some (cstr bs) else None)"

text \<open>\<open>sprintf\<close> of a string into a buffer of \<open>n\<close> bytes: a fault when it does not fit.\<close>

definition fits :: "nat \<Rightarrow> string \<Rightarrow> string option" where
  "fits n s = (if length s < n then Some s else None)"

lemma fits_Some [simp]: "fits n s = Some t \<longleftrightarrow> t = s \<and> length s < n"
  by (auto simp: fits_def)

section \<open>Searching and tokens\<close>

text \<open>\<open>strrchr\<close>: the suffix that starts at the last occurrence of \<open>c\<close>.\<close>

fun strrchr :: "string \<Rightarrow> char \<Rightarrow> string option" where
  "strrchr [] c = None"
| "strrchr (x # xs) c =
     (case strrchr xs c of
        Some s \<Rightarrow> Some s
      | None \<Rightarrow> if x = c then Some (x # xs) else None)"

lemma strrchr_None: "strrchr s c = None \<longleftrightarrow> c \<notin> set s"
  by (induction s) (auto split: option.splits)

lemma strrchr_append:
  "c \<notin> set t \<Longrightarrow> strrchr (s @ c # t) c = Some (c # t)"
proof (induction s)
  case Nil
  then have "strrchr t c = None" by (simp add: strrchr_None)
  then show ?case by simp
qed simp

text \<open>\<open>strstr\<close> as a test: does the needle occur?\<close>

fun strstr :: "string \<Rightarrow> string \<Rightarrow> bool" where
  "strstr [] needle = (needle = [])"
| "strstr (x # xs) needle =
     (take (length needle) (x # xs) = needle \<or> strstr xs needle)"

text \<open>
  The loop \<open>strtok(buf, d)\<close>, \<open>strtok(NULL, d)\<close>, \<open>...\<close> over one delimiter
  character: the maximal runs without the delimiter, empty runs skipped.
\<close>

fun strtok_all :: "char \<Rightarrow> string \<Rightarrow> string \<Rightarrow> string list" where
  "strtok_all d acc [] = (if acc = [] then [] else [acc])"
| "strtok_all d acc (x # xs) =
     (if x = d then (if acc = [] then strtok_all d [] xs else acc # strtok_all d [] xs)
      else strtok_all d (acc @ [x]) xs)"

definition tokens :: "char \<Rightarrow> string \<Rightarrow> string list" where
  "tokens d s = strtok_all d [] s"

text \<open>
  What a single call of \<open>strtok\<close> leaves in \<open>buf\<close> when its result is ignored: the
  leading delimiters stay, and the first delimiter after the first token becomes the terminator.
  A buffer that holds delimiters only is left as it is.
\<close>

definition strtok_trim :: "char \<Rightarrow> string \<Rightarrow> string" where
  "strtok_trim d s =
     takeWhile (\<lambda>c. c = d) s @ takeWhile (\<lambda>c. c \<noteq> d) (dropWhile (\<lambda>c. c = d) s)"

lemma strtok_all_run:
  "d \<notin> set w \<Longrightarrow> strtok_all d acc (w @ rest) = strtok_all d (acc @ w) rest"
  by (induction w arbitrary: acc) auto

lemma tokens_Nil [simp]: "tokens d [] = []"
  by (simp add: tokens_def)

lemma tokens_line:
  assumes "d \<notin> set w" and "w \<noteq> []"
  shows "tokens d (w @ d # rest) = w # tokens d rest"
  using assms by (simp add: tokens_def strtok_all_run)

lemma tokens_concat_lines:
  "(\<And>w. w \<in> set ws \<Longrightarrow> d \<notin> set w \<and> w \<noteq> []) \<Longrightarrow>
   tokens d (concat (map (\<lambda>w. w @ [d]) ws)) = ws"
proof (induction ws)
  case (Cons w ws)
  then have "tokens d (w @ d # concat (map (\<lambda>w. w @ [d]) ws)) = w # ws"
    by (subst tokens_line) auto
  then show ?case by simp
qed simp

text \<open>\<open>fgets\<close> with a buffer of \<open>n\<close> bytes: the line read, or \<open>None\<close> at end of file.\<close>

fun line_upto :: "nat \<Rightarrow> string \<Rightarrow> string" where
  "line_upto 0 s = []"
| "line_upto (Suc n) [] = []"
| "line_upto (Suc n) (x # xs) = (if x = newline then [x] else x # line_upto n xs)"

definition fgets :: "nat \<Rightarrow> string \<Rightarrow> (string \<times> string) option" where
  "fgets n s = (if s = [] then None
     else let l = line_upto (n - 1) s in Some (l, drop (length l) s))"

section \<open>Numbers\<close>

definition isspace :: "char \<Rightarrow> bool" where
  "isspace c = (let n = (of_char c :: nat) in n = 32 \<or> (9 \<le> n \<and> n \<le> 13))"

definition digit_val :: "char \<Rightarrow> nat option" where
  "digit_val c = (let n = (of_char c :: nat) in
     if 48 \<le> n \<and> n \<le> 57 then Some (n - 48)
     else if 97 \<le> n \<and> n \<le> 102 then Some (n - 87)
     else if 65 \<le> n \<and> n \<le> 70 then Some (n - 55) else None)"

fun digits_val :: "nat \<Rightarrow> nat \<Rightarrow> string \<Rightarrow> nat" where
  "digits_val b acc [] = acc"
| "digits_val b acc (c # cs) =
     (case digit_val c of
        None \<Rightarrow> acc
      | Some d \<Rightarrow> if d < b then digits_val b (acc * b + d) cs else acc)"

text \<open>A 64-bit \<open>long\<close> saturates in \<open>strtol\<close>; the conversion to \<open>int\<close> keeps 32 bits.\<close>

definition clamp_long :: "int \<Rightarrow> int" where
  "clamp_long x = max (-(2 ^ 63)) (min (2 ^ 63 - 1) x)"

definition to_int32 :: "int \<Rightarrow> int" where
  "to_int32 x = (x + 2 ^ 31) mod 2 ^ 32 - 2 ^ 31"

definition strip_sign :: "string \<Rightarrow> bool \<times> string" where
  "strip_sign s =
     (case s of
        [] \<Rightarrow> (False, [])
      | c # cs \<Rightarrow> if c = CHR ''-'' then (True, cs) else if c = CHR ''+'' then (False, cs) else (False, s))"

definition strtol10 :: "string \<Rightarrow> int" where
  "strtol10 s = (let (neg, r) = strip_sign (dropWhile isspace s); v = int (digits_val 10 0 r)
     in clamp_long (if neg then - v else v))"

definition strip_0x :: "string \<Rightarrow> string" where
  "strip_0x s =
     (case s of
        a # x # d # r \<Rightarrow>
          if a = CHR ''0'' \<and> (x = CHR ''x'' \<or> x = CHR ''X'') \<and> digit_val d \<noteq> None then d # r else s
      | _ \<Rightarrow> s)"

definition strtol16 :: "string \<Rightarrow> int" where
  "strtol16 s = (let (neg, r) = strip_sign (dropWhile isspace s);
                     v = int (digits_val 16 0 (strip_0x r))
     in clamp_long (if neg then - v else v))"

definition atoi :: "string \<Rightarrow> int" where
  "atoi s = to_int32 (strtol10 s)"

definition hex_digit :: "nat \<Rightarrow> char" where
  "hex_digit d = (if d < 10 then char_of (48 + d) else char_of (55 + d))"

fun nat_base :: "nat \<Rightarrow> nat \<Rightarrow> string" where
  "nat_base b n = (if b < 2 \<or> n < b then [hex_digit n] else nat_base b (n div b) @ [hex_digit (n mod b)])"

declare nat_base.simps [simp del]

text \<open>\<open>%d\<close> of an int, and \<open>%X\<close>, which prints the 32-bit pattern of its argument.\<close>

definition sprintf_d :: "int \<Rightarrow> string" where
  "sprintf_d x = (if x < 0 then CHR ''-'' # nat_base 10 (nat (- x)) else nat_base 10 (nat x))"

definition sprintf_X :: "int \<Rightarrow> string" where
  "sprintf_X x = nat_base 16 (nat (x mod 2 ^ 32))"

lemma digit_val_hex_digit: "d < 16 \<Longrightarrow> digit_val (hex_digit d) = Some d"
  by (auto simp: digit_val_def hex_digit_def Let_def)

lemma digits_val_append_all:
  "(\<And>c. c \<in> set s \<Longrightarrow> \<exists>d. digit_val c = Some d \<and> d < b) \<Longrightarrow>
   digits_val b acc (s @ t) = digits_val b (digits_val b acc s) t"
  by (induction s arbitrary: acc) fastforce+

lemma nat_base_digits:
  assumes "2 \<le> b" and "b \<le> 16" and "c \<in> set (nat_base b n)"
  shows "\<exists>d. digit_val c = Some d \<and> d < b"
  using assms
proof (induction b n rule: nat_base.induct)
  case (1 b n)
  show ?case
  proof (cases "n < b")
    case True
    with "1.prems" show ?thesis
      by (subst (asm) nat_base.simps) (auto simp: digit_val_hex_digit)
  next
    case False
    with "1.prems" have "c \<in> set (nat_base b (n div b)) \<or> c = hex_digit (n mod b)"
      by (subst (asm) nat_base.simps) auto
    with False "1.prems" show ?thesis
      using "1.IH" digit_val_hex_digit [of "n mod b"] mod_less_divisor [of b n]
      by (metis gr_implies_not0 less_le_trans linorder_not_le
          not_less_eq_eq numeral_2_eq_2)
  qed
qed

lemma digits_val_nat_base:
  assumes "2 \<le> b" and "b \<le> 16"
  shows "digits_val b 0 (nat_base b n) = n"
  using assms
proof (induction b n rule: nat_base.induct)
  case (1 b n)
  show ?case
  proof (cases "n < b")
    case True
    with "1.prems" show ?thesis
      by (subst nat_base.simps) (simp add: digit_val_hex_digit)
  next
    case False
    with "1.prems" have "digits_val b 0 (nat_base b n) =
        digits_val b (n div b) [hex_digit (n mod b)]"
      using "1.IH" nat_base_digits [of b _ "n div b"]
      by (subst nat_base.simps) (simp add: digits_val_append_all)
    also have "\<dots> = n div b * b + n mod b"
    proof -
      have "n mod b < b" using "1.prems" by (simp add: mod_less_divisor)
      moreover from this have "digit_val (hex_digit (n mod b)) = Some (n mod b)"
        using "1.prems" by (intro digit_val_hex_digit) linarith
      ultimately show ?thesis by simp
    qed
    also have "\<dots> = n" by simp
    finally show ?thesis .
  qed
qed

lemma length_nat_base: "2 \<le> b \<Longrightarrow> n < b ^ Suc k \<Longrightarrow> length (nat_base b n) \<le> Suc k"
proof (induction k arbitrary: n)
  case 0
  then show ?case by (subst nat_base.simps) simp
next
  case (Suc k)
  show ?case
  proof (cases "n < b")
    case True
    then show ?thesis by (subst nat_base.simps) simp
  next
    case False
    have "n div b < b ^ Suc k" using Suc.prems by (simp add: less_mult_imp_div_less mult.commute)
    then have "length (nat_base b (n div b)) \<le> Suc k" using Suc by simp
    then show ?thesis using False Suc.prems(1) by (subst nat_base.simps) simp
  qed
qed

lemma nat_base_nonempty [simp]: "nat_base b n \<noteq> []"
  by (subst nat_base.simps) simp

lemma hd_nat_base_digit:
  assumes "2 \<le> b" and "b \<le> 16"
  shows "\<exists>d. digit_val (hd (nat_base b n)) = Some d \<and> d < b"
  using assms by (intro nat_base_digits [of b "hd (nat_base b n)" n]) auto

lemma digit_val_not_sign: "digit_val c = Some d \<Longrightarrow> c \<noteq> CHR ''-'' \<and> c \<noteq> CHR ''+'' \<and> \<not> isspace c"
  by (auto simp: digit_val_def isspace_def Let_def split: if_splits)

text \<open>Printing a 32-bit value with \<open>%d\<close> and reading it with \<open>atoi\<close> gives it back.\<close>

lemma strtol10_nat:
  assumes "int n < 2 ^ 63"
  shows "strtol10 (nat_base 10 n) = int n"
proof -
  obtain c cs where c: "nat_base 10 n = c # cs" by (cases "nat_base 10 n") auto
  obtain d where "digit_val c = Some d" using hd_nat_base_digit [of 10 n] c by auto
  then have nc: "c \<noteq> CHR ''-''" "c \<noteq> CHR ''+''" "\<not> isspace c" by (auto dest: digit_val_not_sign)
  then have "strip_sign (dropWhile isspace (nat_base 10 n)) = (False, nat_base 10 n)"
    by (simp add: strip_sign_def c)
  then show ?thesis
    using assms by (simp add: strtol10_def digits_val_nat_base clamp_long_def)
qed

lemma atoi_sprintf_d_nat:
  assumes "n < 2 ^ 31"
  shows "atoi (sprintf_d (int n)) = int n"
  using assms by (simp add: atoi_def sprintf_d_def strtol10_nat to_int32_def)

section \<open>Scanning\<close>

text \<open>
  \<open>sscanf\<close> for the directives of the sources: \<open>%n[set]\<close>, \<open>%ns\<close> and literal characters
  that are not white space.  The result is the return value (\<open>-1\<close> for EOF, which is an
  input failure before the first conversion) and the strings assigned so far.
\<close>

datatype conv = Scan_set nat "char \<Rightarrow> bool" | Scan_str nat | Lit char

definition scan_eof :: "string list \<Rightarrow> int \<times> string list" where
  "scan_eof acc = (if acc = [] then -1 else int (length acc), acc)"

fun sscanf :: "conv list \<Rightarrow> string \<Rightarrow> string list \<Rightarrow> int \<times> string list" where
  "sscanf [] s acc = (int (length acc), acc)"
| "sscanf (Lit c # cs) s acc =
     (case s of
        [] \<Rightarrow> scan_eof acc
      | x # xs \<Rightarrow> if x = c then sscanf cs xs acc else (int (length acc), acc))"
| "sscanf (Scan_set n P # cs) s acc =
     (if s = [] then scan_eof acc
      else let w = takeWhile P (take n s) in
        if w = [] then (int (length acc), acc)
        else sscanf cs (drop (length w) s) (acc @ [w]))"
| "sscanf (Scan_str n # cs) s acc =
     (let r = dropWhile isspace s in
      if r = [] then scan_eof acc
      else let w = takeWhile (\<lambda>c. \<not> isspace c) (take n r) in
        sscanf cs (drop (length w) r) (acc @ [w]))"

text \<open>The \<open>i\<close>th assigned string; a conversion that did not happen leaves the zeroed field empty.\<close>

definition scanned :: "string list \<Rightarrow> nat \<Rightarrow> string" where
  "scanned vs i = (if i < length vs then vs ! i else [])"

text \<open>A scan set followed by its delimiter reads exactly one field.\<close>

lemma sscanf_field:
  assumes "list_all P w" and "w \<noteq> []" and "length w \<le> n" and "\<not> P d"
  shows "sscanf (Scan_set n P # Lit d # cs) (w @ d # rest) acc = sscanf cs rest (acc @ [w])"
proof -
  have "takeWhile P (w @ d # rest) = w"
    using assms by (simp add: takeWhile_all_append)
  then have "takeWhile P (take n (w @ d # rest)) = w"
    using assms(3) by (metis takeWhile_take_le)
  then show ?thesis using assms(2) by (simp del: take_append)
qed

lemma sscanf_last_word:
  assumes "list_all (\<lambda>c. \<not> isspace c) w" and "w \<noteq> []" and "length w \<le> n"
  shows "sscanf [Scan_str n] w acc = (int (length acc) + 1, acc @ [w])"
proof -
  have "dropWhile isspace w = w"
    using assms(1,2) by (cases w) auto
  moreover have "takeWhile (\<lambda>c. \<not> isspace c) (take n w) = w"
    using assms(1,3) by (simp add: takeWhile_all)
  ultimately show ?thesis using assms(2) by (simp add: Let_def)
qed

lemma sscanf_last_missing:
  assumes "acc \<noteq> []"
  shows "sscanf [Scan_str n] [] acc = (int (length acc), acc)"
  using assms by (simp add: scan_eof_def)

fun conv_width :: "conv \<Rightarrow> nat" where
  "conv_width (Scan_set n P) = n"
| "conv_width (Scan_str n) = n"
| "conv_width (Lit c) = 0"

lemma scan_eof_snd [simp]: "snd (scan_eof acc) = acc"
  by (simp add: scan_eof_def)

lemma length_takeWhile_take: "length (takeWhile P (take n s)) \<le> n"
  by (metis length_takeWhile_le length_take min.cobounded2 order_trans)

text \<open>No assigned string is longer than the widest directive.\<close>

lemma sscanf_bound:
  assumes "\<forall>w \<in> set acc. length w \<le> m" and "\<forall>c \<in> set cs. conv_width c \<le> m"
  shows "\<forall>w \<in> set (snd (sscanf cs s acc)). length w \<le> m"
  using assms
proof (induction cs s acc rule: sscanf.induct)
  case (2 c cs s acc)
  then show ?case by (cases s) auto
next
  case (3 n P cs s acc)
  let ?w = "takeWhile P (take n s)"
  have "length ?w \<le> m"
    using length_takeWhile_take [of P n s] "3.prems"(2) by simp
  with 3 show ?case by (simp add: Let_def)
next
  case (4 n cs s acc)
  let ?w = "takeWhile (\<lambda>c. \<not> isspace c) (take n (dropWhile isspace s))"
  have "length ?w \<le> m"
    using length_takeWhile_take [of _ n "dropWhile isspace s"] "4.prems"(2)
    by (simp add: order_trans [OF length_takeWhile_take])
  with 4 show ?case by (simp add: Let_def)
qed auto

lemma scanned_bound:
  assumes "\<forall>w \<in> set vs. length w \<le> m"
  shows "length (scanned vs i) \<le> m"
  using assms by (simp add: scanned_def)

end
