(* ===== verification/Elem.thy ===== *)
theory Elem
  imports CString
begin

text \<open>
  The element list of \<open>src/src/libs/elem.c\<close>: a doubly linked list threaded through heap
  cells, with a root cell whose key is NULL, kept sorted by key.  Topology nodes (topo) and watched
  processes (k8smgr) both live in such a list.

  The model is an explicit heap: addresses are numbers, a cell is a \<open>struct element\<close>, a
  freed cell is absent, and every access to an absent cell is a fault (\<open>None\<close>).  A cell owns
  its \<open>key\<close> string and its \<open>data\<close> block (the code copies both), so the two pointers
  are modelled by their contents.  \<open>insque\<close> and \<open>remque\<close> are the POSIX functions of
  \<open>search.h\<close>.

  The second half gives the abstract view: a list segment predicate, the sorted association list a
  heap represents, and the refinement of each operation to it.
\<close>

section \<open>State\<close>

type_synonym addr = nat

record 'd element =
  forward :: "addr option"
  backward :: "addr option"
  key :: "string option"
  data :: "'d option"

text \<open>
  \<open>brk\<close> is the next unused address, so \<open>calloc\<close> never hands out a live cell;
  \<open>oom\<close> says that the allocator has no memory left.
\<close>

record 'd heap =
  cells :: "addr \<Rightarrow> 'd element option"
  brk :: addr
  oom :: bool

definition empty_heap :: "'d heap" where
  "empty_heap = \<lparr>cells = (\<lambda>_. None), brk = 1, oom = False\<rparr>"

definition deref :: "'d heap \<Rightarrow> addr \<Rightarrow> 'd element option" where
  "deref h a = cells h a"

definition store :: "'d heap \<Rightarrow> addr \<Rightarrow> 'd element \<Rightarrow> 'd heap option" where
  "store h a e = (case cells h a of None \<Rightarrow> None | Some _ \<Rightarrow> Some (h\<lparr>cells := (cells h)(a := Some e)\<rparr>))"

definition free_cell :: "'d heap \<Rightarrow> addr \<Rightarrow> 'd heap option" where
  "free_cell h a = (case cells h a of None \<Rightarrow> None | Some _ \<Rightarrow> Some (h\<lparr>cells := (cells h)(a := None)\<rparr>))"

text \<open>Writing through \<open>elem->data\<close>.\<close>

definition set_data :: "'d heap \<Rightarrow> addr \<Rightarrow> 'd \<Rightarrow> 'd heap option" where
  "set_data h a d = do { e \<leftarrow> deref h a; store h a (e\<lparr>data := Some d\<rparr>) }"

section \<open>The operations of elem.c\<close>

definition new_element :: "'d heap \<Rightarrow> string option \<Rightarrow> 'd option \<Rightarrow> addr option \<times> 'd heap" where
  "new_element h ky dt =
     (if oom h then (None, h)
      else (Some (brk h),
            h\<lparr>cells := (cells h)(brk h \<mapsto> \<lparr>forward = None, backward = None, key = ky, data = dt\<rparr>),
              brk := Suc (brk h)\<rparr>))"

definition insque :: "'d heap \<Rightarrow> addr \<Rightarrow> addr \<Rightarrow> 'd heap option" where
  "insque h item prev = do {
     p \<leftarrow> deref h prev;
     let next = forward p;
     h1 \<leftarrow> store h prev (p\<lparr>forward := Some item\<rparr>);
     h2 \<leftarrow> (case next of
             None \<Rightarrow> Some h1
           | Some n \<Rightarrow> do { e \<leftarrow> deref h1 n; store h1 n (e\<lparr>backward := Some item\<rparr>) });
     i \<leftarrow> deref h2 item;
     store h2 item (i\<lparr>forward := next, backward := Some prev\<rparr>)
   }"

definition remque :: "'d heap \<Rightarrow> addr \<Rightarrow> 'd heap option" where
  "remque h item = do {
     i \<leftarrow> deref h item;
     h1 \<leftarrow> (case forward i of
             None \<Rightarrow> Some h
           | Some n \<Rightarrow> do { e \<leftarrow> deref h n; store h n (e\<lparr>backward := backward i\<rparr>) });
     (case backward i of
        None \<Rightarrow> Some h1
      | Some p \<Rightarrow> do { e \<leftarrow> deref h1 p; store h1 p (e\<lparr>forward := forward i\<rparr>) })
   }"

text \<open>
  The traversal of \<open>add_element\<close>: \<open>Inl t\<close> is the target after which the item
  goes, \<open>Inr ()\<close> that the key is already there.  A list that never ends, and a dangling
  pointer, have no result.  \<open>strcmp(item->key, ...)\<close> with a NULL item key is a fault.
\<close>

partial_function (option) find_target ::
  "'d heap \<Rightarrow> string option \<Rightarrow> addr \<Rightarrow> addr \<Rightarrow> (addr + unit) option" where
  "find_target h ikey target traverse = do {
     e \<leftarrow> deref h traverse;
     (case key e of
        None \<Rightarrow> (case forward e of None \<Rightarrow> Some (Inl traverse)
                 | Some n \<Rightarrow> find_target h ikey traverse n)
      | Some k \<Rightarrow> (case ikey of
           None \<Rightarrow> None
         | Some ik \<Rightarrow>
             if strcmp ik k > 0 then
               (case forward e of None \<Rightarrow> Some (Inl traverse)
                | Some n \<Rightarrow> find_target h ikey traverse n)
             else if strcmp ik k = 0 then Some (Inr ())
             else Some (Inl target)))
   }"

declare find_target.simps [code]

definition add_element :: "'d heap \<Rightarrow> addr \<Rightarrow> addr \<Rightarrow> (int \<times> 'd heap) option" where
  "add_element h root item = do {
     i \<leftarrow> deref h item;
     r \<leftarrow> find_target h (key i) root root;
     (case r of
        Inr _ \<Rightarrow> Some (-1, h)
      | Inl target \<Rightarrow> do { h' \<leftarrow> insque h item target; Some (0, h') })
   }"

partial_function (option) get_element :: "'d heap \<Rightarrow> addr \<Rightarrow> string \<Rightarrow> addr option option" where
  "get_element h traverse ky = do {
     e \<leftarrow> deref h traverse;
     if key e \<noteq> None \<and> strcmp (the (key e)) ky = 0 then Some (Some traverse)
     else (case forward e of None \<Rightarrow> Some None | Some n \<Rightarrow> get_element h n ky)
   }"

declare get_element.simps [code]

definition rem_element :: "'d heap \<Rightarrow> addr option \<Rightarrow> 'd heap option" where
  "rem_element h item =
     (case item of
        None \<Rightarrow> Some h
      | Some a \<Rightarrow> do { h1 \<leftarrow> remque h a; free_cell h1 a })"

text \<open>
  \<open>list_element\<close>: the successor is read before the callback runs, so the callback may
  free the cell it is given.  The state is the heap with the object the callback argument points
  to; \<open>None\<close> for the callback is the branch that only prints the keys.
\<close>

partial_function (option) list_loop ::
  "('d heap \<times> 's \<Rightarrow> addr \<Rightarrow> ('d heap \<times> 's) option) \<Rightarrow> 'd heap \<times> 's \<Rightarrow> addr \<Rightarrow> ('d heap \<times> 's) option" where
  "list_loop cbfunc st now = do {
     e \<leftarrow> deref (fst st) now;
     st' \<leftarrow> cbfunc st now;
     (case forward e of None \<Rightarrow> Some st' | Some next \<Rightarrow> list_loop cbfunc st' next)
   }"

declare list_loop.simps [code]

definition list_element ::
  "('d heap \<times> 's \<Rightarrow> addr \<Rightarrow> ('d heap \<times> 's) option) option \<Rightarrow> 'd heap \<times> 's \<Rightarrow> addr \<Rightarrow> ('d heap \<times> 's) option" where
  "list_element cbfunc st list =
     (case cbfunc of
        Some cb \<Rightarrow> list_loop cb st list
      | None \<Rightarrow> list_loop (\<lambda>st a. Some st) st list)"

section \<open>List segments\<close>

text \<open>
  \<open>seg h p xs q\<close>: the cells \<open>xs\<close> (address, key, data) are linked in this order, the
  first one's \<open>backward\<close> is \<open>p\<close> and the last one's \<open>forward\<close> is \<open>q\<close>.
\<close>

type_synonym 'd cell = "addr \<times> string option \<times> 'd option"

definition first_addr :: "'d cell list \<Rightarrow> addr option \<Rightarrow> addr option" where
  "first_addr xs q = (case xs of [] \<Rightarrow> q | x # _ \<Rightarrow> Some (fst x))"

definition last_addr :: "addr option \<Rightarrow> 'd cell list \<Rightarrow> addr option" where
  "last_addr p xs = (if xs = [] then p else Some (fst (last xs)))"

fun seg :: "'d heap \<Rightarrow> addr option \<Rightarrow> 'd cell list \<Rightarrow> addr option \<Rightarrow> bool" where
  "seg h p [] q = True"
| "seg h p ((a, k, d) # xs) q =
     (cells h a = Some \<lparr>forward = first_addr xs q, backward = p, key = k, data = d\<rparr>
      \<and> seg h (Some a) xs q)"

lemma first_addr_simps [simp]:
  "first_addr [] q = q"
  "first_addr (x # xs) q = Some (fst x)"
  "first_addr (xs @ ys) q = first_addr xs (first_addr ys q)"
  by (auto simp: first_addr_def split: list.splits)

lemma last_addr_simps [simp]:
  "last_addr p [] = p"
  "last_addr p (x # xs) = last_addr (Some (fst x)) xs"
  "last_addr p (xs @ ys) = last_addr (last_addr p xs) ys"
  by (auto simp: last_addr_def)

lemma seg_append:
  "seg h p (xs @ ys) q \<longleftrightarrow> seg h p xs (first_addr ys q) \<and> seg h (last_addr p xs) ys q"
proof (induction xs arbitrary: p)
  case (Cons x xs)
  then show ?case by (cases x) auto
qed simp

lemma seg_frame:
  "(\<And>a. a \<in> fst ` set xs \<Longrightarrow> cells h' a = cells h a) \<Longrightarrow> seg h' p xs q = seg h p xs q"
proof (induction xs arbitrary: p)
  case (Cons x xs)
  then show ?case by (cases x) simp
qed simp

lemma seg_live: "seg h p xs q \<Longrightarrow> a \<in> fst ` set xs \<Longrightarrow> cells h a \<noteq> None"
proof (induction xs arbitrary: p)
  case (Cons x xs)
  then show ?case by (cases x) auto
qed simp

text \<open>Relinking the right end of a segment is an update of its last cell only.\<close>

lemma seg_snoc:
  "seg h p (xs @ [(a, k, d)]) q \<longleftrightarrow>
   seg h p xs (Some a) \<and>
   cells h a = Some \<lparr>forward = q, backward = last_addr p xs, key = k, data = d\<rparr>"
  by (simp add: seg_append)

section \<open>Effects of the primitives on a segment\<close>

text \<open>\<open>same_outside h h' A\<close>: the heaps agree outside \<open>A\<close> and on the allocator.\<close>

definition same_outside :: "'d heap \<Rightarrow> 'd heap \<Rightarrow> addr set \<Rightarrow> bool" where
  "same_outside h h' A \<longleftrightarrow>
     (\<forall>a. a \<notin> A \<longrightarrow> cells h' a = cells h a) \<and> brk h' = brk h \<and> oom h' = oom h"

lemma same_outside_refl [simp]: "same_outside h h A"
  by (simp add: same_outside_def)

lemma same_outside_trans:
  "same_outside h h1 A \<Longrightarrow> same_outside h1 h2 B \<Longrightarrow> A \<subseteq> C \<Longrightarrow> B \<subseteq> C \<Longrightarrow> same_outside h h2 C"
  unfolding same_outside_def by (metis subsetD)

lemma store_live: "cells h a = Some e \<Longrightarrow> store h a e' = Some (h\<lparr>cells := (cells h)(a \<mapsto> e')\<rparr>)"
  by (simp add: store_def)

lemma deref_live: "cells h a = Some e \<Longrightarrow> deref h a = Some e"
  by (simp add: deref_def)

lemma heap_cells_same [simp]: "h\<lparr>cells := cells h\<rparr> = h"
  by simp

lemma seg_update_outside [simp]:
  "a \<notin> fst ` set xs \<Longrightarrow> seg (h\<lparr>cells := f(a := e)\<rparr>) p xs q = seg (h\<lparr>cells := f\<rparr>) p xs q"
  by (rule seg_frame) auto

lemma set_data_seg:
  assumes "seg h p (pre @ (a, k, d) # post) q" and "distinct (map fst (pre @ (a, k, d) # post))"
  shows "\<exists>h'. set_data h a d' = Some h' \<and> seg h' p (pre @ (a, k, Some d') # post) q
     \<and> same_outside h h' {a} \<and> cells h' a \<noteq> None"
proof -
  let ?e = "\<lparr>forward = first_addr post q, backward = last_addr p pre, key = k, data = Some d'\<rparr>"
  let ?h = "h\<lparr>cells := (cells h)(a \<mapsto> ?e)\<rparr>"
  have "a \<notin> fst ` set pre" "a \<notin> fst ` set post" using assms(2) by auto
  then have "seg ?h p (pre @ (a, k, Some d') # post) q"
    using assms(1) by (simp add: seg_append)
  moreover have "set_data h a d' = Some ?h"
    using assms(1) by (simp add: set_data_def deref_live store_live seg_append)
  ultimately show ?thesis by (auto simp: same_outside_def)
qed

lemma insque_seg:
  assumes s: "seg h p (ys @ (t, tk, td) # zs) None"
    and dist: "distinct (i # map fst (ys @ (t, tk, td) # zs))"
    and item: "cells h i = Some e" "key e = k" "data e = d"
  shows "\<exists>h'. insque h i t = Some h' \<and> seg h' p (ys @ (t, tk, td) # (i, k, d) # zs) None
     \<and> same_outside h h' (insert i (fst ` set (ys @ (t, tk, td) # zs)))
     \<and> dom (cells h') = dom (cells h)"
proof -
  have t: "cells h t = Some \<lparr>forward = first_addr zs None, backward = last_addr p ys, key = tk, data = td\<rparr>"
    using s by (simp add: seg_append)
  obtain f b where e: "e = \<lparr>forward = f, backward = b, key = k, data = d\<rparr>"
    using item(2,3) by (cases e) auto
  show ?thesis
  proof (cases zs)
    case Nil
    then show ?thesis
      using s dist item(1) t e
      by (auto simp: insque_def seg_append deref_def store_def Let_def same_outside_def)
  next
    case (Cons z zs')
    obtain n nk nd where z: "z = (n, nk, nd)" by (cases z) auto
    then show ?thesis
      using s dist item(1) t e Cons
      by (auto simp: insque_def seg_append deref_def store_def Let_def same_outside_def)
  qed
qed

lemma remque_seg:
  assumes s: "seg h None (ys @ (a, k, d) # zs) None"
    and dist: "distinct (map fst (ys @ (a, k, d) # zs))"
    and ys: "ys = ys' @ [(b, bk, bd)]"
  shows "\<exists>h'. rem_element h (Some a) = Some h' \<and> seg h' None (ys @ zs) None
     \<and> same_outside h h' (fst ` set (ys @ (a, k, d) # zs))
     \<and> dom (cells h') = dom (cells h) - {a}"
proof (cases zs)
  case Nil
  then show ?thesis
    using s dist ys
    by (auto simp: rem_element_def remque_def free_cell_def seg_append deref_def store_def same_outside_def)
next
  case (Cons z zs')
  obtain n nk nd where "z = (n, nk, nd)" by (cases z) auto
  with Cons show ?thesis
    using s dist ys
    by (auto simp: rem_element_def remque_def free_cell_def seg_append deref_def store_def same_outside_def)
qed

section \<open>The abstract list\<close>

text \<open>
  A node is an address with its key and data.  \<open>wf_list h root xs\<close>: the heap holds the
  root cell followed by exactly the nodes \<open>xs\<close>, doubly linked, with strictly increasing
  keys, and every live address is below \<open>brk\<close>.
\<close>

type_synonym 'd node = "addr \<times> string \<times> 'd"

definition cell_of :: "'d node \<Rightarrow> 'd cell" where
  "cell_of x = (fst x, Some (fst (snd x)), Some (snd (snd x)))"

abbreviation node_key :: "'p \<times> string \<times> 'd \<Rightarrow> string" where
  "node_key x \<equiv> fst (snd x)"

abbreviation entries :: "('p \<times> string \<times> 'd) list \<Rightarrow> (string \<times> 'd) list" where
  "entries xs \<equiv> map snd xs"

definition wf_list :: "'d heap \<Rightarrow> addr \<Rightarrow> 'd node list \<Rightarrow> bool" where
  "wf_list h root xs \<longleftrightarrow>
     seg h None ((root, None, None) # map cell_of xs) None
     \<and> distinct (root # map fst xs)
     \<and> sorted_wrt (<) (map node_key xs)
     \<and> dom (cells h) \<subseteq> {..<brk h}"

lemma cell_of_simps [simp]:
  "cell_of (a, k, d) = (a, Some k, Some d)"
  "fst (cell_of x) = fst x"
  "map fst (map cell_of xs) = map fst xs"
  "fst \<circ> cell_of = fst"
  "fst ` cell_of ` A = fst ` A"
  "fst ` set (map cell_of xs) = fst ` set xs"
  by (auto simp: cell_of_def image_image)

text \<open>Insertion keeps the keys increasing; removal is by handle.\<close>

definition insert_node :: "'p \<times> string \<times> 'd \<Rightarrow> ('p \<times> string \<times> 'd) list \<Rightarrow> ('p \<times> string \<times> 'd) list" where
  "insert_node x xs =
     takeWhile (\<lambda>y. node_key y < node_key x) xs @ x # dropWhile (\<lambda>y. node_key y < node_key x) xs"

definition remove_node :: "'p \<Rightarrow> ('p \<times> string \<times> 'd) list \<Rightarrow> ('p \<times> string \<times> 'd) list" where
  "remove_node p xs = filter (\<lambda>y. fst y \<noteq> p) xs"

lemma sorted_dropWhile_ge:
  "sorted_wrt (<) (map node_key xs) \<Longrightarrow> y \<in> set (dropWhile (\<lambda>y. node_key y < (k::string)) xs) \<Longrightarrow>
   k \<le> node_key y"
proof (induction xs)
  case (Cons x xs)
  then show ?case by (fastforce split: if_splits)
qed simp

lemma set_insert_node [simp]: "set (insert_node x xs) = insert x (set xs)"
proof -
  have "set xs = set (takeWhile (\<lambda>y. node_key y < node_key x) xs) \<union>
                 set (dropWhile (\<lambda>y. node_key y < node_key x) xs)"
    by (metis set_append takeWhile_dropWhile_id)
  then show ?thesis by (auto simp: insert_node_def)
qed

lemma sorted_wrt_insert:
  assumes "sorted_wrt R (map f xs)" and "sorted_wrt R (map f ys)"
    and "\<forall>a \<in> set xs. R (f a) (f x)" and "\<forall>b \<in> set ys. R (f x) (f b)"
    and "\<forall>a \<in> set xs. \<forall>b \<in> set ys. R (f a) (f b)"
  shows "sorted_wrt R (map f (xs @ x # ys))"
  using assms by (auto simp: sorted_wrt_append)

lemma sorted_insert_node:
  assumes "sorted_wrt (<) (map node_key xs)" and "node_key x \<notin> node_key ` set xs"
  shows "sorted_wrt (<) (map node_key (insert_node x xs))"
proof -
  let ?P = "\<lambda>y. node_key y < node_key x"
  have "sorted_wrt (<) (map node_key (takeWhile ?P xs @ dropWhile ?P xs))"
    using assms(1) by simp
  then have split: "sorted_wrt (<) (map node_key (takeWhile ?P xs))"
    "sorted_wrt (<) (map node_key (dropWhile ?P xs))"
    "\<forall>a \<in> set (takeWhile ?P xs). \<forall>b \<in> set (dropWhile ?P xs). node_key a < node_key b"
    by (auto simp: sorted_wrt_append simp del: takeWhile_dropWhile_id)
  have lower: "\<forall>a \<in> set (takeWhile ?P xs). node_key a < node_key x"
    by (auto dest: set_takeWhileD)
  have upper: "\<forall>b \<in> set (dropWhile ?P xs). node_key x < node_key b"
  proof
    fix b assume b: "b \<in> set (dropWhile ?P xs)"
    have "node_key x \<le> node_key b" by (rule sorted_dropWhile_ge [OF assms(1) b])
    moreover have "b \<in> set xs" using b by (rule set_dropWhileD)
    then have "node_key b \<in> node_key ` set xs" by (rule imageI)
    have "node_key b \<noteq> node_key x"
    proof
      assume "node_key b = node_key x"
      with \<open>node_key b \<in> node_key ` set xs\<close> have "node_key x \<in> node_key ` set xs" by (simp only:)
      with assms(2) show False by contradiction
    qed
    ultimately show "node_key x < node_key b" by simp
  qed
  show ?thesis
    unfolding insert_node_def
    by (rule sorted_wrt_insert [OF split(1,2) lower upper split(3)])
qed

lemma sorted_keys_distinct: "sorted_wrt (<) (map node_key xs) \<Longrightarrow> distinct (map fst (entries xs))"
  by (induction xs) auto

lemma map_of_insert_node:
  assumes "sorted_wrt (<) (map node_key xs)" and "node_key x \<notin> node_key ` set xs"
  shows "map_of (entries (insert_node x xs)) = (map_of (entries xs))(node_key x \<mapsto> snd (snd x))"
proof -
  let ?P = "\<lambda>y. node_key y < node_key x"
  have "map_of (entries (takeWhile ?P xs)) (node_key x) = None"
    using assms(2) set_takeWhileD by (force simp: map_of_eq_None_iff)
  then have "map_of (entries (insert_node x xs)) k =
     ((map_of (entries (takeWhile ?P xs @ dropWhile ?P xs)))(node_key x \<mapsto> snd (snd x))) k" for k
    by (cases "snd x"; cases "k = node_key x")
      (simp_all add: insert_node_def map_add_def del: takeWhile_dropWhile_id split: option.splits)
  then show ?thesis by (simp add: fun_eq_iff)
qed

lemma sorted_filter_nodes:
  "sorted_wrt (<) (map node_key xs) \<Longrightarrow> sorted_wrt (<) (map node_key (filter P xs))"
  by (induction xs) auto

lemma map_of_remove_node:
  assumes "sorted_wrt (<) (map node_key xs)" and "distinct (map fst xs)" and "(p, k, d) \<in> set xs"
  shows "map_of (entries (remove_node p xs)) = (map_of (entries xs))(k := None)"
  using assms
proof (induction xs)
  case (Cons x xs)
  show ?case
  proof (cases "x = (p, k, d)")
    case True
    have "k \<notin> node_key ` set xs" using Cons.prems(1) True by auto
    then have "map_of (entries xs) k = None" by (force simp: map_of_eq_None_iff)
    moreover have "remove_node p xs = xs"
      using Cons.prems(2) True by (force simp: remove_node_def filter_id_conv)
    ultimately show ?thesis using True by (auto simp: remove_node_def)
  next
    case False
    then have mem: "(p, k, d) \<in> set xs" using Cons.prems(3) by auto
    have "p \<in> fst ` set xs" by (rule image_eqI [OF _ mem]) simp
    then have "fst x \<noteq> p" using Cons.prems(2) by auto
    moreover have "k \<in> node_key ` set xs" by (rule image_eqI [OF _ mem]) simp
    then have "node_key x \<noteq> k" using Cons.prems(1) by auto
    ultimately have "fst x \<noteq> p" "node_key x \<noteq> k" by simp_all
    with Cons mem show ?thesis by (cases x) (auto simp: remove_node_def fun_eq_iff)
  qed
qed simp

section \<open>Refinement of the operations\<close>

text \<open>The traversal of \<open>add_element\<close> on the abstract list.\<close>

fun target_of :: "string \<Rightarrow> addr \<Rightarrow> 'd node list \<Rightarrow> addr + unit" where
  "target_of ik t [] = Inl t"
| "target_of ik t ((a, k, d) # xs) =
     (if strcmp ik k > 0 then target_of ik a xs
      else if strcmp ik k = 0 then Inr () else Inl t)"

lemma find_target_nodes:
  "seg h p (map cell_of xs) None \<Longrightarrow> xs \<noteq> [] \<Longrightarrow>
   find_target h (Some ik) t (fst (hd xs)) = Some (target_of ik t xs)"
proof (induction xs arbitrary: p t)
  case (Cons x xs)
  obtain a k d where x: "x = (a, k, d)" by (cases x) auto
  show ?case
  proof (cases xs)
    case Nil
    with Cons.prems x show ?thesis by (subst find_target.simps) (simp add: deref_def)
  next
    case (Cons y ys)
    with Cons.IH Cons.prems x have "find_target h (Some ik) a (fst y) = Some (target_of ik a xs)"
      by auto
    with Cons Cons.prems x show ?thesis
      by (subst find_target.simps) (cases y; simp add: deref_def)
  qed
qed simp

lemma find_target_list:
  assumes "wf_list h root xs"
  shows "find_target h (Some ik) root root = Some (target_of ik root xs)"
proof -
  have root: "cells h root = Some \<lparr>forward = first_addr (map cell_of xs) None, backward = None,
      key = None, data = None\<rparr>" and s: "seg h (Some root) (map cell_of xs) None"
    using assms by (auto simp: wf_list_def)
  show ?thesis
  proof (cases xs)
    case Nil
    with root show ?thesis by (subst find_target.simps) (simp add: deref_def)
  next
    case (Cons y ys)
    with find_target_nodes [OF s] have "find_target h (Some ik) root (fst y) = Some (target_of ik root xs)"
      by simp
    with Cons root show ?thesis by (subst find_target.simps) (simp add: deref_def)
  qed
qed

lemma target_of_dup:
  "sorted_wrt (<) (map node_key xs) \<Longrightarrow> target_of ik t xs = Inr () \<longleftrightarrow> ik \<in> node_key ` set xs"
proof (induction xs arbitrary: t)
  case (Cons x xs)
  obtain a k d where x: "x = (a, k, d)" by (cases x) auto
  have "ik \<notin> node_key ` set xs" if "\<not> k < ik"
    using Cons.prems that x by (auto simp: image_iff)
  with Cons x show ?case by (auto simp: strcmp_greater)
qed simp

lemma target_of_pos:
  "target_of ik t xs = Inl u \<Longrightarrow>
   last_addr (Some t) (map cell_of (takeWhile (\<lambda>y. node_key y < ik) xs)) = Some u"
proof (induction xs arbitrary: t)
  case (Cons x xs)
  then show ?case by (cases x) (auto simp: strcmp_greater split: if_splits)
qed simp

theorem add_element_dup:
  assumes "wf_list h root xs" and "cells h i = Some e" and "key e = Some k" and "k \<in> node_key ` set xs"
  shows "add_element h root i = Some (-1, h)"
proof -
  have "target_of k root xs = Inr ()"
    using assms(1,4) target_of_dup by (auto simp: wf_list_def)
  then show ?thesis
    using assms by (simp add: add_element_def deref_def find_target_list)
qed

theorem add_element_new:
  assumes wf: "wf_list h root xs" and item: "cells h i = Some e" "key e = Some k" "data e = Some d"
    and fresh: "i \<notin> set (root # map fst xs)" and new: "k \<notin> node_key ` set xs"
  shows "\<exists>h'. add_element h root i = Some (0, h') \<and> wf_list h' root (insert_node (i, k, d) xs)
     \<and> dom (cells h') = dom (cells h) \<and> brk h' = brk h \<and> oom h' = oom h"
proof -
  let ?P = "\<lambda>y. node_key y < k"
  let ?ys = "takeWhile ?P xs" and ?zs = "dropWhile ?P xs"
  have srt: "sorted_wrt (<) (map node_key xs)" using wf by (simp add: wf_list_def)
  obtain u where u: "target_of k root xs = Inl u"
    using new target_of_dup [OF srt] by (cases "target_of k root xs") auto
  let ?cs = "(root, None, None) # map cell_of ?ys"
  have lu: "last_addr None ?cs = Some u" using target_of_pos [OF u] by simp
  then obtain cs' uk ud where cs: "?cs = cs' @ [(u, uk, ud)]"
    by (cases ?cs rule: rev_exhaust) (auto simp: last_addr_def)
  have whole: "(root, None, None) # map cell_of xs = cs' @ (u, uk, ud) # map cell_of ?zs"
  proof -
    have "(root, None, None) # map cell_of xs = ?cs @ map cell_of ?zs"
      by (simp flip: map_append)
    then show ?thesis using cs by simp
  qed
  have "seg h None (cs' @ (u, uk, ud) # map cell_of ?zs) None"
    using wf whole by (simp add: wf_list_def)
  moreover have "distinct (i # map fst (cs' @ (u, uk, ud) # map cell_of ?zs))"
    using wf fresh whole [symmetric] by (simp add: wf_list_def)
  ultimately obtain h' where h': "insque h i u = Some h'"
      "seg h' None (cs' @ (u, uk, ud) # (i, Some k, Some d) # map cell_of ?zs) None"
      "same_outside h h' (insert i (fst ` set (cs' @ (u, uk, ud) # map cell_of ?zs)))"
      "dom (cells h') = dom (cells h)"
    using insque_seg [OF _ _ item(1), of None cs' u uk ud "map cell_of ?zs" "Some k" "Some d"] item(2,3)
    by blast
  have new_cells: "cs' @ (u, uk, ud) # (i, Some k, Some d) # map cell_of ?zs =
      (root, None, None) # map cell_of (insert_node (i, k, d) xs)"
    using cs by (simp add: insert_node_def)
  have "distinct (root # map fst (insert_node (i, k, d) xs))"
  proof -
    have "distinct (map fst (?ys @ ?zs))" "root \<notin> fst ` set (?ys @ ?zs)" "i \<notin> fst ` set (?ys @ ?zs)"
      using wf fresh by (simp_all add: wf_list_def)
    moreover have "fst ` set (insert_node (i, k, d) xs) = insert i (fst ` set xs)" by simp
    ultimately show ?thesis
      using fresh wf by (auto simp: insert_node_def wf_list_def simp del: takeWhile_dropWhile_id)
  qed
  moreover have "sorted_wrt (<) (map node_key (insert_node (i, k, d) xs))"
    using sorted_insert_node [OF srt, of "(i, k, d)"] new by simp
  moreover have "dom (cells h') \<subseteq> {..<brk h'}"
    using h'(3,4) wf by (simp add: same_outside_def wf_list_def)
  ultimately have "wf_list h' root (insert_node (i, k, d) xs)"
    using h'(2) new_cells by (simp add: wf_list_def)
  moreover have "add_element h root i = Some (0, h')"
    using h'(1) u find_target_list [OF wf] item by (simp add: add_element_def deref_def)
  ultimately show ?thesis using h'(3,4) by (auto simp: same_outside_def)
qed

definition handle_of :: "('p \<times> string \<times> 'd) list \<Rightarrow> string \<Rightarrow> 'p option" where
  "handle_of xs k = map_of (map (\<lambda>x. (node_key x, fst x)) xs) k"

lemma handle_of_simps [simp]:
  "handle_of [] k = None"
  "handle_of ((p, k', d) # xs) k = (if k = k' then Some p else handle_of xs k)"
  by (auto simp: handle_of_def)

lemma handle_of_None: "handle_of xs k = None \<longleftrightarrow> k \<notin> node_key ` set xs"
  by (induction xs) (auto simp: handle_of_def)

lemma handle_of_Some: "handle_of xs k = Some p \<Longrightarrow> \<exists>d. (p, k, d) \<in> set xs"
  by (induction xs) (auto split: if_splits)

lemma handle_of_map_of:
  "handle_of xs k = Some p \<Longrightarrow> \<exists>d. (p, k, d) \<in> set xs \<and> map_of (entries xs) k = Some d"
  by (induction xs) (auto split: if_splits)

lemma get_element_nodes:
  "seg h p (map cell_of xs) None \<Longrightarrow> xs \<noteq> [] \<Longrightarrow>
   get_element h (fst (hd xs)) ky = Some (handle_of xs ky)"
proof (induction xs arbitrary: p)
  case (Cons x xs)
  obtain a k d where x: "x = (a, k, d)" by (cases x) auto
  show ?case
  proof (cases xs)
    case Nil
    with Cons.prems x show ?thesis by (subst get_element.simps) (simp add: deref_def)
  next
    case (Cons y ys)
    with Cons.IH Cons.prems x have "get_element h (fst y) ky = Some (handle_of xs ky)"
      by auto
    with Cons Cons.prems x show ?thesis
      by (subst get_element.simps) (cases y; simp add: deref_def)
  qed
qed simp

theorem get_element_list:
  assumes "wf_list h root xs"
  shows "get_element h root ky = Some (handle_of xs ky)"
proof -
  have root: "cells h root = Some \<lparr>forward = first_addr (map cell_of xs) None, backward = None,
      key = None, data = None\<rparr>" and s: "seg h (Some root) (map cell_of xs) None"
    using assms by (auto simp: wf_list_def)
  show ?thesis
  proof (cases xs)
    case Nil
    with root show ?thesis by (subst get_element.simps) (simp add: deref_def)
  next
    case (Cons y ys)
    with get_element_nodes [OF s] have "get_element h (fst y) ky = Some (handle_of xs ky)" by simp
    with Cons root show ?thesis by (subst get_element.simps) (cases y; simp add: deref_def)
  qed
qed

lemma remove_node_notin: "a \<notin> fst ` set xs \<Longrightarrow> remove_node a xs = xs"
  by (induction xs) (auto simp: remove_node_def)

lemma remove_node_split:
  "a \<notin> fst ` set ys \<Longrightarrow> a \<notin> fst ` set zs \<Longrightarrow> remove_node a (ys @ (a, kd) # zs) = ys @ zs"
  using remove_node_notin [of a ys] remove_node_notin [of a zs] by (simp add: remove_node_def)

theorem rem_element_list:
  assumes wf: "wf_list h root xs" and mem: "(a, k, d) \<in> set xs"
  shows "\<exists>h'. rem_element h (Some a) = Some h' \<and> wf_list h' root (remove_node a xs)
     \<and> dom (cells h') = dom (cells h) - {a} \<and> brk h' = brk h \<and> oom h' = oom h"
proof -
  from mem obtain ys zs where xs: "xs = ys @ (a, k, d) # zs" by (meson split_list)
  let ?pre = "(root, None, None) # map cell_of ys"
  have s: "seg h None (?pre @ (a, Some k, Some d) # map cell_of zs) None"
    and dist: "distinct (map fst (?pre @ (a, Some k, Some d) # map cell_of zs))"
    using wf xs by (simp_all add: wf_list_def)
  obtain ys' b bk bd where pre: "?pre = ys' @ [(b, bk, bd)]"
    by (cases ?pre rule: rev_exhaust) auto
  obtain h' where h': "rem_element h (Some a) = Some h'" "seg h' None (?pre @ map cell_of zs) None"
      "same_outside h h' (fst ` set (?pre @ (a, Some k, Some d) # map cell_of zs))"
      "dom (cells h') = dom (cells h) - {a}"
    using remque_seg [OF s dist pre] by blast
  have rn: "remove_node a xs = ys @ zs"
    unfolding xs using dist by (intro remove_node_split) auto
  have "sorted_wrt (<) (map node_key (remove_node a xs))"
    using wf by (simp add: wf_list_def remove_node_def sorted_filter_nodes)
  moreover have "distinct (root # map fst (ys @ zs))"
    using dist by auto
  moreover have "dom (cells h') \<subseteq> {..<brk h'}"
    using wf h'(3,4) by (auto simp: wf_list_def same_outside_def)
  ultimately have "wf_list h' root (remove_node a xs)"
    using h'(2) rn by (simp add: wf_list_def)
  with h' show ?thesis by (auto simp: same_outside_def)
qed

theorem set_data_list:
  assumes wf: "wf_list h root xs" and xs: "xs = ys @ (a, k, d) # zs"
  shows "\<exists>h'. set_data h a d' = Some h' \<and> wf_list h' root (ys @ (a, k, d') # zs)
     \<and> dom (cells h') = dom (cells h) \<and> brk h' = brk h \<and> oom h' = oom h"
proof -
  let ?pre = "(root, None, None) # map cell_of ys"
  have s: "seg h None (?pre @ (a, Some k, Some d) # map cell_of zs) None"
    and dist: "distinct (map fst (?pre @ (a, Some k, Some d) # map cell_of zs))"
    using wf xs by (simp_all add: wf_list_def)
  obtain h' where h': "set_data h a d' = Some h'"
      "seg h' None (?pre @ (a, Some k, Some d') # map cell_of zs) None"
      "same_outside h h' {a}" "cells h' a \<noteq> None"
    using set_data_seg [OF s dist, of d'] by blast
  have "cells h a \<noteq> None" using s by (simp add: seg_append)
  with h'(3,4) have "dom (cells h') = dom (cells h)"
    by (auto simp: same_outside_def dom_def)
  with wf h' xs show ?thesis
    by (auto simp: wf_list_def same_outside_def)
qed

text \<open>A new cell is outside every list and does not disturb one.\<close>

lemma new_element_list:
  assumes wf: "wf_list h root xs" and "\<not> oom h"
  shows "\<exists>h'. new_element h (Some k) (Some d) = (Some (brk h), h') \<and> wf_list h' root xs
     \<and> cells h' (brk h) = Some \<lparr>forward = None, backward = None, key = Some k, data = Some d\<rparr>
     \<and> brk h \<notin> set (root # map fst xs)
     \<and> dom (cells h') = insert (brk h) (dom (cells h)) \<and> brk h' = Suc (brk h) \<and> \<not> oom h'"
proof -
  let ?xs = "(root, None, None) # map cell_of xs"
  have live: "fst ` set ?xs \<subseteq> dom (cells h)"
    using wf seg_live [of h None ?xs None] by (auto simp: wf_list_def dom_def)
  then have fresh: "brk h \<notin> fst ` set ?xs" using wf by (auto simp: wf_list_def)
  have "seg h None ?xs None" using wf by (simp add: wf_list_def)
  then have "seg (snd (new_element h (Some k) (Some d))) None ?xs None"
    using fresh assms(2) by (subst seg_frame) (auto simp: new_element_def)
  moreover have "brk h \<noteq> root" "brk h \<notin> fst ` set xs" using fresh by simp_all
  moreover have "dom (cells h) \<subseteq> {..<Suc (brk h)}"
    using wf by (force simp: wf_list_def)
  ultimately show ?thesis
    using wf assms(2) by (simp add: new_element_def wf_list_def)
qed

text \<open>An empty list is a root cell alone (\<open>new_element(NULL, NULL, 0)\<close>).\<close>

lemma wf_list_empty:
  "new_element empty_heap None None = (Some 1, h) \<Longrightarrow> wf_list h 1 [] \<and> \<not> oom h"
  by (auto simp: new_element_def empty_heap_def wf_list_def split: if_splits)

section \<open>Traversals with a callback\<close>

text \<open>A list of one node, for the examples.\<close>

definition one_node :: "string \<Rightarrow> 'd \<Rightarrow> 'd heap" where
  "one_node k d = \<lparr>cells = [1 \<mapsto> \<lparr>forward = Some 2, backward = None, key = None, data = None\<rparr>,
     2 \<mapsto> \<lparr>forward = None, backward = Some 1, key = Some k, data = Some d\<rparr>], brk = 3, oom = False\<rparr>"

lemma one_node_list: "wf_list (one_node k d) 1 [(2, k, d)]" "\<not> oom (one_node k d)"
  by (auto simp: wf_list_def one_node_def split: if_splits)

text \<open>
  The abstract traversal: \<open>step k d s\<close> is what a callback does at a node, a fault
  (\<open>None\<close>), the removal of the node or a new data value, together with the new value of
  the object the callback argument points to.
\<close>

fun walk :: "(string \<Rightarrow> 'd \<Rightarrow> 's \<Rightarrow> ('d option \<times> 's) option) \<Rightarrow>
    ('p \<times> string \<times> 'd) list \<Rightarrow> 's \<Rightarrow> (('p \<times> string \<times> 'd) list \<times> 's) option" where
  "walk step [] s = Some ([], s)"
| "walk step ((a, k, d) # xs) s = do {
     (r, s1) \<leftarrow> step k d s;
     (ys, s2) \<leftarrow> walk step xs s1;
     Some ((case r of None \<Rightarrow> ys | Some d' \<Rightarrow> (a, k, d') # ys), s2)
   }"

lemma walk_handles:
  "walk step xs s = Some (ys, s') \<Longrightarrow> set (map (\<lambda>x. (fst x, node_key x)) ys) \<subseteq> set (map (\<lambda>x. (fst x, node_key x)) xs)"
proof (induction step xs s arbitrary: ys s' rule: walk.induct)
  case (2 step a k d xs s)
  from "2.prems" obtain r s1 zs where z: "step k d s = Some (r, s1)"
      "walk step xs s1 = Some (zs, s')" "ys = (case r of None \<Rightarrow> zs | Some d' \<Rightarrow> (a, k, d') # zs)"
    by auto
  have "set (map (\<lambda>x. (fst x, node_key x)) zs) \<subseteq> set (map (\<lambda>x. (fst x, node_key x)) xs)"
    by (rule "2.IH" [OF z(1) refl z(2)])
  with z(3) show ?case by (cases r) auto
qed simp

lemma walk_sorted:
  "walk step xs s = Some (ys, s') \<Longrightarrow> sorted_wrt (<) (map node_key xs) \<Longrightarrow> sorted_wrt (<) (map node_key ys)"
proof (induction step xs s arbitrary: ys s' rule: walk.induct)
  case (2 step a k d xs s)
  from "2.prems"(1) obtain r s1 zs where z: "step k d s = Some (r, s1)"
      "walk step xs s1 = Some (zs, s')" "ys = (case r of None \<Rightarrow> zs | Some d' \<Rightarrow> (a, k, d') # zs)"
    by auto
  have ih: "sorted_wrt (<) (map node_key zs)"
    using "2.IH" [OF z(1) _ z(2)] "2.prems"(2) by simp
  have "node_key ` set zs \<subseteq> node_key ` set xs" using walk_handles [OF z(2)] by force
  moreover have "node_key ` set xs \<subseteq> {y. k < y}" using "2.prems"(2) by (simp add: image_subset_iff)
  ultimately have "node_key ` set zs \<subseteq> {y. k < y}" by (rule subset_trans)
  then have "\<forall>y \<in> set zs. k < node_key y" by (simp add: image_subset_iff)
  with ih z(3) show ?case by (simp split: option.splits)
qed simp

locale list_callback =
  fixes cb :: "'d heap \<times> 's \<Rightarrow> addr \<Rightarrow> ('d heap \<times> 's) option"
    and root_step :: "'s \<Rightarrow> 's option"
    and step :: "string \<Rightarrow> 'd \<Rightarrow> 's \<Rightarrow> ('d option \<times> 's) option"
  assumes cb_root: "cells h a = Some e \<Longrightarrow> key e = None \<Longrightarrow> cb (h, s) a = map_option (Pair h) (root_step s)"
    and cb_fault: "cells h a = Some e \<Longrightarrow> key e = Some k \<Longrightarrow> data e = Some d \<Longrightarrow>
      step k d s = None \<Longrightarrow> cb (h, s) a = None"
    and cb_remove: "cells h a = Some e \<Longrightarrow> key e = Some k \<Longrightarrow> data e = Some d \<Longrightarrow>
      step k d s = Some (None, s') \<Longrightarrow> cb (h, s) a = map_option (\<lambda>h'. (h', s')) (rem_element h (Some a))"
    and cb_update: "cells h a = Some e \<Longrightarrow> key e = Some k \<Longrightarrow> data e = Some d \<Longrightarrow>
      step k d s = Some (Some d', s') \<Longrightarrow> cb (h, s) a = map_option (\<lambda>h'. (h', s')) (set_data h a d')"
begin

text \<open>
  The loop from a node in the middle: the nodes \<open>pre\<close> behind it stay, the rest is
  replaced by the result of the abstract traversal.
\<close>

lemma loop_nodes:
  "wf_list h root (pre @ xs) \<Longrightarrow> xs \<noteq> [] \<Longrightarrow>
   (case walk step xs s of
      None \<Rightarrow> list_loop cb (h, s) (fst (hd xs)) = None
    | Some (ys, s') \<Rightarrow> \<exists>h'. list_loop cb (h, s) (fst (hd xs)) = Some (h', s')
        \<and> wf_list h' root (pre @ ys) \<and> brk h' = brk h \<and> oom h' = oom h
        \<and> dom (cells h') = dom (cells h) - (fst ` set xs - fst ` set ys))"
proof (induction xs arbitrary: h s pre)
  case (Cons x xs)
  obtain a k d where x: "x = (a, k, d)" by (cases x) auto
  have dist: "a \<notin> fst ` set pre" "a \<notin> fst ` set xs" "distinct (map fst xs)"
    using Cons.prems(1) x by (auto simp: wf_list_def)
  have cell: "cells h a = Some \<lparr>forward = first_addr (map cell_of xs) None,
      backward = last_addr None ((root, None, None) # map cell_of pre), key = Some k, data = Some d\<rparr>"
    using Cons.prems(1) x by (simp add: wf_list_def seg_append)
  note node = cell [THEN cb_remove] cell [THEN cb_update] cell [THEN cb_fault]
  show ?case
  proof (cases "step k d s")
    case None
    then have "cb (h, s) a = None" using node(3) by simp
    with None cell x show ?thesis by (subst list_loop.simps) (simp add: deref_def)
  next
    case (Some rs)
    then obtain r s1 where r: "step k d s = Some (r, s1)" by (cases rs) auto
    let ?keep = "case r of None \<Rightarrow> [] | Some d' \<Rightarrow> [(a, k, d')]"
    obtain h1 where h1: "cb (h, s) a = Some (h1, s1)" "wf_list h1 root ((pre @ ?keep) @ xs)"
        "brk h1 = brk h" "oom h1 = oom h"
        "dom (cells h1) = dom (cells h) - ({a} - fst ` set ?keep)"
    proof (cases r)
      case None
      have "remove_node a (pre @ (a, k, d) # xs) = pre @ xs"
        using dist by (intro remove_node_split)
      moreover have "(a, k, d) \<in> set (pre @ (a, k, d) # xs)" by simp
      ultimately obtain h' where "rem_element h (Some a) = Some h'" "wf_list h' root (pre @ xs)"
          "dom (cells h') = dom (cells h) - {a}" "brk h' = brk h" "oom h' = oom h"
        using rem_element_list [OF Cons.prems(1) [unfolded x]] by metis
      with None r node(1) that show ?thesis by simp
    next
      case (Some d')
      obtain h' where "set_data h a d' = Some h'" "wf_list h' root (pre @ (a, k, d') # xs)"
          "dom (cells h') = dom (cells h)" "brk h' = brk h" "oom h' = oom h"
        using set_data_list [OF Cons.prems(1) [unfolded x] refl] by blast
      with Some r node(2) that show ?thesis by simp
    qed
    have live: "a \<in> dom (cells h)" "fst ` set xs \<subseteq> dom (cells h)"
      using cell Cons.prems(1) x seg_live [of h None "(root, None, None) # map cell_of (pre @ x # xs)" None]
      by (auto simp: wf_list_def dom_def image_Un)
    have unf: "list_loop cb (h, s) a =
        (case first_addr (map cell_of xs) None of None \<Rightarrow> Some (h1, s1) | Some n \<Rightarrow> list_loop cb (h1, s1) n)"
      using cell h1(1) by (subst list_loop.simps) (simp add: deref_def)
    show ?thesis
    proof (cases xs)
      case Nil
      with unf r h1 x dist show ?thesis by (cases r) auto
    next
      case (Cons y ys)
      have ih: "case walk step xs s1 of None \<Rightarrow> list_loop cb (h1, s1) (fst (hd xs)) = None
        | Some (zs, s') \<Rightarrow> \<exists>h'. list_loop cb (h1, s1) (fst (hd xs)) = Some (h', s')
            \<and> wf_list h' root ((pre @ ?keep) @ zs) \<and> brk h' = brk h1 \<and> oom h' = oom h1
            \<and> dom (cells h') = dom (cells h1) - (fst ` set xs - fst ` set zs)"
        using Cons.IH [OF h1(2)] Cons by simp
      have go: "list_loop cb (h, s) a = list_loop cb (h1, s1) (fst (hd xs))"
        using unf Cons by simp
      show ?thesis
      proof (cases "walk step xs s1")
        case None
        with ih go r x show ?thesis by simp
      next
        case (Some p)
        then obtain zs s' where zs: "walk step xs s1 = Some (zs, s')" by (cases p) auto
        have sub: "a \<notin> fst ` set zs" using walk_handles [OF zs] dist(2) by force
        have whole: "walk step ((a, k, d) # xs) s = Some (?keep @ zs, s')"
          using r zs by (cases r) simp_all
        obtain h' where "list_loop cb (h1, s1) (fst (hd xs)) = Some (h', s')"
            "wf_list h' root ((pre @ ?keep) @ zs)" "brk h' = brk h1" "oom h' = oom h1"
            "dom (cells h') = dom (cells h1) - (fst ` set xs - fst ` set zs)"
          using ih zs by auto
        moreover have "dom (cells h) - ({a} - fst ` set ?keep) - (fst ` set xs - fst ` set zs)
            = dom (cells h) - (fst ` set (x # xs) - fst ` set (?keep @ zs))"
          using dist sub x by (cases r) auto
        ultimately show ?thesis using go h1 by (simp add: x whole del: walk.simps)
      qed
    qed
  qed
qed simp

text \<open>
  The whole traversal from the root.  In particular no freed cell is ever read, whatever the
  callback removes.
\<close>

lemma traversal:
  assumes wf: "wf_list h root xs" and s1: "root_step s = Some s1"
  shows "case walk step xs s1 of
      None \<Rightarrow> list_element (Some cb) (h, s) root = None
    | Some (ys, s') \<Rightarrow> \<exists>h'. list_element (Some cb) (h, s) root = Some (h', s')
        \<and> wf_list h' root ys \<and> brk h' = brk h \<and> oom h' = oom h
        \<and> dom (cells h') = dom (cells h) - (fst ` set xs - fst ` set ys)"
proof -
  have cell: "cells h root = Some \<lparr>forward = first_addr (map cell_of xs) None, backward = None,
      key = None, data = None\<rparr>"
    using wf by (simp add: wf_list_def)
  then have cb: "cb (h, s) root = Some (h, s1)" by (simp add: cb_root s1)
  show ?thesis
  proof (cases xs)
    case Nil
    with cell cb wf show ?thesis
      by (simp add: list_element_def list_loop.simps deref_def)
  next
    case (Cons y ys)
    have "list_element (Some cb) (h, s) root = list_loop cb (h, s1) (fst (hd xs))"
      using cell cb Cons by (simp add: list_element_def list_loop.simps [of cb "(h, s)" root] deref_def)
    moreover have "case walk step xs s1 of
        None \<Rightarrow> list_loop cb (h, s1) (fst (hd xs)) = None
      | Some (ys, s') \<Rightarrow> \<exists>h'. list_loop cb (h, s1) (fst (hd xs)) = Some (h', s')
          \<and> wf_list h' root ([] @ ys) \<and> brk h' = brk h \<and> oom h' = oom h
          \<and> dom (cells h') = dom (cells h) - (fst ` set xs - fst ` set ys)"
    proof (rule loop_nodes)
      show "wf_list h root ([] @ xs)" using wf by simp
      show "xs \<noteq> []" using Cons by simp
    qed
    ultimately show ?thesis by (simp split: option.splits prod.splits)
  qed
qed

lemma traversal_Some:
  assumes "wf_list h root xs" and "root_step s = Some s1" and "walk step xs s1 = Some (ys, s')"
  shows "\<exists>h'. list_element (Some cb) (h, s) root = Some (h', s')
        \<and> wf_list h' root ys \<and> brk h' = brk h \<and> oom h' = oom h
        \<and> dom (cells h') = dom (cells h) - (fst ` set xs - fst ` set ys)"
  using traversal [OF assms(1,2)] assms(3) by simp

lemma traversal_None:
  assumes "wf_list h root xs" and "root_step s = Some s1" and "walk step xs s1 = None"
  shows "list_element (Some cb) (h, s) root = None"
  using traversal [OF assms(1,2)] assms(3) by simp

end

section \<open>The list as a keyed store\<close>

text \<open>
  What the clients of elem.c rely on, independent of the heap: a store is represented by nodes
  \<open>(handle, key, data)\<close> with increasing keys; \<open>find\<close> gives the handle of a key,
  \<open>put\<close> inserts under a new key and refuses an old one, \<open>del\<close> removes a handle.
  \<open>ready\<close> says that memory is available.
\<close>

locale element_store =
  fixes rep :: "'s \<Rightarrow> ('p \<times> string \<times> 'd) list \<Rightarrow> bool"
    and ready :: "'s \<Rightarrow> bool"
    and find :: "'s \<Rightarrow> string \<Rightarrow> 'p option option"
    and put :: "'s \<Rightarrow> string \<Rightarrow> 'd \<Rightarrow> (int \<times> 's) option"
    and del :: "'s \<Rightarrow> 'p \<Rightarrow> 's option"
  assumes rep_sorted: "rep s xs \<Longrightarrow> sorted_wrt (<) (map node_key xs)"
    and rep_distinct: "rep s xs \<Longrightarrow> distinct (map fst xs)"
    and find_law: "rep s xs \<Longrightarrow> find s k = Some (handle_of xs k)"
    and put_new_law: "rep s xs \<Longrightarrow> ready s \<Longrightarrow> k \<notin> node_key ` set xs \<Longrightarrow>
      \<exists>s' p. put s k d = Some (0, s') \<and> rep s' (insert_node (p, k, d) xs) \<and> ready s'"
    and put_dup_law: "rep s xs \<Longrightarrow> ready s \<Longrightarrow> k \<in> node_key ` set xs \<Longrightarrow>
      \<exists>s'. put s k d = Some (-1, s') \<and> rep s' xs \<and> ready s'"
    and put_oom_law: "\<not> ready s \<Longrightarrow> put s k d = None"
    and del_law: "rep s xs \<Longrightarrow> (p, k, d) \<in> set xs \<Longrightarrow>
      \<exists>s'. del s p = Some s' \<and> rep s' (remove_node p xs) \<and> ready s' = ready s"
begin

text \<open>The contents as a map; the three operations are lookup, insertion and deletion in it.\<close>

lemma put_new_map:
  assumes "rep s xs" and "ready s" and "map_of (entries xs) k = None"
  shows "\<exists>s' ys. put s k d = Some (0, s') \<and> rep s' ys \<and> ready s'
     \<and> map_of (entries ys) = (map_of (entries xs))(k \<mapsto> d)"
proof -
  have k: "k \<notin> node_key ` set xs" using assms(3) by (force simp: map_of_eq_None_iff)
  then obtain s' p where s': "put s k d = Some (0, s')" "rep s' (insert_node (p, k, d) xs)" "ready s'"
    using put_new_law [OF assms(1,2)] by blast
  moreover have "map_of (entries (insert_node (p, k, d) xs)) = (map_of (entries xs))(k \<mapsto> d)"
    using map_of_insert_node [OF rep_sorted [OF assms(1)], of "(p, k, d)"] k by simp
  ultimately show ?thesis by blast
qed

lemma find_Some:
  assumes "rep s xs" and "find s k = Some (Some p)"
  shows "\<exists>d. (p, k, d) \<in> set xs \<and> map_of (entries xs) k = Some d"
  using assms find_law handle_of_map_of by fastforce

lemma find_None:
  assumes "rep s xs"
  shows "find s k = Some None \<longleftrightarrow> map_of (entries xs) k = None"
  using assms find_law [of s xs k] handle_of_None [of xs k] by (force simp: map_of_eq_None_iff)

text \<open>Replacing an entry, as both node handlers do: remove the old node, insert the new one.\<close>

lemma replace_map:
  assumes "rep s xs" and "ready s" and "(p, k, d) \<in> set xs"
  shows "\<exists>s1 s' ys. del s p = Some s1 \<and> put s1 k d' = Some (0, s') \<and> rep s' ys \<and> ready s'
     \<and> map_of (entries ys) = (map_of (entries xs))(k \<mapsto> d')"
proof -
  obtain s1 where s1: "del s p = Some s1" "rep s1 (remove_node p xs)" "ready s1"
    using del_law [OF assms(1,3)] assms(2) by auto
  have m: "map_of (entries (remove_node p xs)) = (map_of (entries xs))(k := None)"
    by (rule map_of_remove_node [OF rep_sorted [OF assms(1)] rep_distinct [OF assms(1)] assms(3)])
  then obtain s' ys where "put s1 k d' = Some (0, s')" "rep s' ys" "ready s'"
      "map_of (entries ys) = (map_of (entries (remove_node p xs)))(k \<mapsto> d')"
    using put_new_map [OF s1(2,3), of k d'] by auto
  with s1 m show ?thesis by auto
qed

end

text \<open>The pair of calls by which the clients insert: allocate the element, then add it.\<close>

definition put_element :: "'d heap \<times> addr \<Rightarrow> string \<Rightarrow> 'd \<Rightarrow> (int \<times> 'd heap \<times> addr) option" where
  "put_element s k d = (case new_element (fst s) (Some k) (Some d) of
     (None, h) \<Rightarrow> None
   | (Some item, h) \<Rightarrow> do { (r, h') \<leftarrow> add_element h (snd s) item; Some (r, h', snd s) })"

definition del_element :: "'d heap \<times> addr \<Rightarrow> addr \<Rightarrow> ('d heap \<times> addr) option" where
  "del_element s a = map_option (\<lambda>h'. (h', snd s)) (rem_element (fst s) (Some a))"

lemma put_element_new:
  assumes wf: "wf_list h root xs" and "\<not> oom h" and "k \<notin> node_key ` set xs"
  shows "\<exists>h'. put_element (h, root) k d = Some (0, h', root) \<and> wf_list h' root (insert_node (brk h, k, d) xs)
     \<and> \<not> oom h' \<and> dom (cells h') = insert (brk h) (dom (cells h))"
proof -
  obtain h1 where h1: "new_element h (Some k) (Some d) = (Some (brk h), h1)" "wf_list h1 root xs"
      "cells h1 (brk h) = Some \<lparr>forward = None, backward = None, key = Some k, data = Some d\<rparr>"
      "brk h \<notin> set (root # map fst xs)" "dom (cells h1) = insert (brk h) (dom (cells h))" "\<not> oom h1"
    using new_element_list [OF wf assms(2)] by blast
  obtain h' where "add_element h1 root (brk h) = Some (0, h')"
      "wf_list h' root (insert_node (brk h, k, d) xs)" "dom (cells h') = dom (cells h1)" "oom h' = oom h1"
    using add_element_new [OF h1(2,3) _ _ h1(4) assms(3)] by auto
  with h1 show ?thesis by (auto simp: put_element_def)
qed

lemma put_element_dup:
  assumes wf: "wf_list h root xs" and "\<not> oom h" and "k \<in> node_key ` set xs"
  shows "\<exists>h'. put_element (h, root) k d = Some (-1, h', root) \<and> wf_list h' root xs
     \<and> \<not> oom h' \<and> dom (cells h') = insert (brk h) (dom (cells h))"
proof -
  obtain h1 where h1: "new_element h (Some k) (Some d) = (Some (brk h), h1)" "wf_list h1 root xs"
      "cells h1 (brk h) = Some \<lparr>forward = None, backward = None, key = Some k, data = Some d\<rparr>"
      "dom (cells h1) = insert (brk h) (dom (cells h))" "\<not> oom h1"
    using new_element_list [OF wf assms(2)] by blast
  have "add_element h1 root (brk h) = Some (-1, h1)"
    by (rule add_element_dup [OF h1(2,3) _ assms(3)]) simp
  with h1 show ?thesis by (auto simp: put_element_def)
qed

interpretation els: element_store
  "\<lambda>s xs. wf_list (fst s) (snd s) xs" "\<lambda>s. \<not> oom (fst s)"
  "\<lambda>s k. get_element (fst s) (snd s) k" put_element del_element
proof unfold_locales
  fix s :: "'d heap \<times> addr" and xs :: "'d node list" and k p d
  show "wf_list (fst s) (snd s) xs \<Longrightarrow> sorted_wrt (<) (map node_key xs)"
    and "wf_list (fst s) (snd s) xs \<Longrightarrow> distinct (map fst xs)"
    by (simp_all add: wf_list_def)
  show "wf_list (fst s) (snd s) xs \<Longrightarrow> get_element (fst s) (snd s) k = Some (handle_of xs k)"
    by (rule get_element_list)
  show "wf_list (fst s) (snd s) xs \<Longrightarrow> \<not> oom (fst s) \<Longrightarrow> k \<notin> node_key ` set xs \<Longrightarrow>
      \<exists>s' p. put_element s k d = Some (0, s') \<and> wf_list (fst s') (snd s') (insert_node (p, k, d) xs) \<and> \<not> oom (fst s')"
    using put_element_new [of "fst s" "snd s" xs k d] by fastforce
  show "wf_list (fst s) (snd s) xs \<Longrightarrow> \<not> oom (fst s) \<Longrightarrow> k \<in> node_key ` set xs \<Longrightarrow>
      \<exists>s'. put_element s k d = Some (-1, s') \<and> wf_list (fst s') (snd s') xs \<and> \<not> oom (fst s')"
    using put_element_dup [of "fst s" "snd s" xs k d] by fastforce
  show "\<not> \<not> oom (fst s) \<Longrightarrow> put_element s k d = None"
    by (simp add: put_element_def new_element_def)
  show "wf_list (fst s) (snd s) xs \<Longrightarrow> (p, k, d) \<in> set xs \<Longrightarrow>
      \<exists>s'. del_element s p = Some s' \<and> wf_list (fst s') (snd s') (remove_node p xs) \<and> (\<not> oom (fst s')) = (\<not> oom (fst s))"
    using rem_element_list [of "fst s" "snd s" xs p k d] by (fastforce simp: del_element_def)
qed

end
