(* ===== verification/Node.thy ===== *)
theory Node
  imports Elem
begin

text \<open>
  The node list of the topology manager, \<open>src/src/topo/node.c\<close> over the types of
  \<open>src/src/topo/topo.h\<close>: parsing the registration and reply messages, the handlers that
  merge a message into the list, ageing, the mark and sweep of the client, the reply text and the
  sorted copy for printing.  The printing itself is in the theory Topo\_Print.

  A character array of 128 bytes is the C string it holds.  Every callback is a function on the
  heap and the object its argument points to, as \<open>list_element\<close> calls it; each is an
  interpretation of the locale \<open>list_callback\<close>, which gives the effect of the whole traversal.
  Log lines on stderr are not modelled; a side effect inside a log call is.
\<close>

section \<open>State\<close>

definition TOPO_MAX_BUFFER :: nat where "TOPO_MAX_BUFFER = 10240"
definition ASSOC_CLEAR_TM :: int where "ASSOC_CLEAR_TM = 60"
definition TOPO_MAX_LIST :: nat where "TOPO_MAX_LIST = 128"
definition MTYPE_RELOAD_CONFIG_DATA :: int where "MTYPE_RELOAD_CONFIG_DATA = 84"

datatype cluster_role = CR_CLIENT | CR_SERVER
datatype node_proc_res = NP_NONE | NP_ADD | NP_REP | NP_DEL | NP_UPTM

record node_info =
  name :: string
  ntype :: string
  group :: string
  mgnt_pri_ip :: string
  mgnt_sec_ip :: string
  mgnt_port :: string
  serv_pri_ip :: string
  serv_sec_ip :: string
  info_name :: string
  vnfc_id :: string
  node_name :: string
  pod_name :: string
  chk_exist_flag :: int
  heartbeat_tm :: int

definition zero_node :: node_info where
  "zero_node = \<lparr>name = [], ntype = [], group = [], mgnt_pri_ip = [], mgnt_sec_ip = [], mgnt_port = [],
     serv_pri_ip = [], serv_sec_ip = [], info_name = [], vnfc_id = [], node_name = [], pod_name = [],
     chk_exist_flag = 0, heartbeat_tm = 0\<rparr>"

text \<open>\<open>main_ctx_t\<close>; the memory the list lives in is the field \<open>mem\<close>.\<close>

record main_ctx =
  ems_topo_addr :: "string option"
  my_sys_name :: "string option"
  role :: cluster_role
  mp_label :: string
  my_node_name :: "string option"
  my_pod_name :: "string option"
  my_node_ip :: "string option"
  my_pod_ip :: "string option"
  my_mp_index :: int
  my_name :: string
  my_type :: string
  my_group :: string
  my_port :: string
  ixpcQid :: int
  omp_ip :: string
  base_port :: int
  omp_sockfd :: int
  node_list :: addr
  mem :: "node_info heap"

type_synonym 's node_cb = "node_info heap \<times> 's \<Rightarrow> addr \<Rightarrow> (node_info heap \<times> 's) option"

section \<open>Parsing\<close>

definition not_bar :: "char \<Rightarrow> bool" where
  "not_bar c = (c \<noteq> CHR ''|'')"

abbreviation bar_field :: "conv list" where
  "bar_field \<equiv> [Scan_set 127 not_bar, Lit (CHR ''|'')]"

definition fmt_pod :: "conv list" where
  "fmt_pod = bar_field @ bar_field @ bar_field @ bar_field @ bar_field @ bar_field @ bar_field
     @ [Scan_str 127]"

definition fmt_omp :: "conv list" where
  "fmt_omp = bar_field @ bar_field @ bar_field @ bar_field @ bar_field @ bar_field @ bar_field
     @ bar_field @ bar_field @ [Scan_str 127]"

definition assoc_info_get_from_pod :: "string \<Rightarrow> int \<times> node_info" where
  "assoc_info_get_from_pod recv_str =
     (let (scan_res, v) = sscanf fmt_pod recv_str [];
          n = zero_node\<lparr>name := scanned v 0, ntype := scanned v 1, group := scanned v 2,
                mgnt_pri_ip := scanned v 3, serv_pri_ip := scanned v 4, mgnt_port := scanned v 5,
                node_name := scanned v 6, pod_name := scanned v 7,
                mgnt_sec_ip := ''NULL'', serv_sec_ip := ''NULL''\<rparr>
      in if scan_res = -1 \<or> scan_res \<le> 0 then (-1, n) else (0, n))"

definition assoc_info_get_from_omp :: "string \<Rightarrow> int \<times> node_info" where
  "assoc_info_get_from_omp recv_str =
     (let (scan_res, v) = sscanf fmt_omp recv_str [];
          n = zero_node\<lparr>name := scanned v 0, ntype := scanned v 1, group := scanned v 2,
                mgnt_pri_ip := scanned v 3, mgnt_sec_ip := scanned v 4, mgnt_port := scanned v 5,
                serv_pri_ip := scanned v 6, serv_sec_ip := scanned v 7, info_name := scanned v 8,
                vnfc_id := scanned v 9\<rparr>
      in if scan_res = -1 \<or> scan_res \<le> 0 then (-1, n) else (0, n))"

section \<open>Ageing\<close>

record cb_clean_assoc_arg =
  curr_tm :: int
  clear_count :: int

definition assoc_info_clean_cb :: "cb_clean_assoc_arg node_cb" where
  "assoc_info_clean_cb st elem = do {
     let (h, arg) = st;
     e \<leftarrow> deref h elem;
     (case (key e, data e) of
        (Some k, Some n) \<Rightarrow>
          if heartbeat_tm n = 0 then Some (h, arg)
          else if curr_tm arg - heartbeat_tm n \<ge> ASSOC_CLEAR_TM then do {
            let arg = arg\<lparr>clear_count := clear_count arg + 1\<rparr>;
            h' \<leftarrow> rem_element h (Some elem);
            Some (h', arg)
          } else Some (h, arg)
      | _ \<Rightarrow> Some (h, arg))
   }"

definition assoc_info_cleanup :: "main_ctx \<Rightarrow> int \<Rightarrow> (int \<times> main_ctx) option" where
  "assoc_info_cleanup ctx tm = do {
     (h, arg) \<leftarrow> list_element (Some assoc_info_clean_cb)
        (mem ctx, \<lparr>curr_tm = tm, clear_count = 0\<rparr>) (node_list ctx);
     Some (clear_count arg, ctx\<lparr>mem := h\<rparr>)
   }"

section \<open>The reply text\<close>

text \<open>
  The condition \<open>node_info->mgnt_port >= 0\<close> compares the address of an array with 0 and holds
  always, so the branch that prints \<open>NULL\<close> is never taken.  \<open>sprintf\<close> appends to
  the caller's buffer of \<open>TOPO_MAX_BUFFER\<close> bytes without a check.
\<close>

definition reply_line :: "node_info \<Rightarrow> string \<Rightarrow> string" where
  "reply_line n mgnt_port_str =
     name n @ ''|'' @ ntype n @ ''|'' @ group n @ ''|'' @ mgnt_pri_ip n @ ''|'' @ mgnt_sec_ip n @ ''|'' @
     mgnt_port_str @ ''|'' @ serv_pri_ip n @ ''|'' @ serv_sec_ip n @ ''|'' @ info_name n @ ''|'' @
     vnfc_id n @ [newline]"

definition assoc_info_reply_cb :: "string node_cb" where
  "assoc_info_reply_cb st elem = do {
     let (h, buffer) = st;
     e \<leftarrow> deref h elem;
     (case (key e, data e) of
        (Some k, Some n) \<Rightarrow> do {
          mgnt_port_str \<leftarrow> fits 128 (mgnt_port n);
          buffer' \<leftarrow> fits TOPO_MAX_BUFFER (buffer @ reply_line n mgnt_port_str);
          Some (h, buffer')
        }
      | _ \<Rightarrow> Some (h, buffer))
   }"

definition assoc_info_reply_msg :: "main_ctx \<Rightarrow> string \<Rightarrow> string option" where
  "assoc_info_reply_msg ctx buffer = do {
     (h, buffer') \<leftarrow> list_element (Some assoc_info_reply_cb) (mem ctx, buffer) (node_list ctx);
     Some buffer'
   }"

section \<open>Mark and sweep\<close>

definition assoc_info_unset_cb :: "unit node_cb" where
  "assoc_info_unset_cb st elem = do {
     let (h, u) = st;
     e \<leftarrow> deref h elem;
     (case (key e, data e) of
        (Some k, Some n) \<Rightarrow> do {
          h' \<leftarrow> set_data h elem (n\<lparr>chk_exist_flag := 0\<rparr>);
          Some (h', u)
        }
      | _ \<Rightarrow> Some (h, u))
   }"

definition assoc_info_unset_chk_flag :: "main_ctx \<Rightarrow> main_ctx option" where
  "assoc_info_unset_chk_flag ctx = do {
     (h, u) \<leftarrow> list_element (Some assoc_info_unset_cb) (mem ctx, ()) (node_list ctx);
     Some (ctx\<lparr>mem := h\<rparr>)
   }"

definition assoc_info_remove_cb :: "int node_cb" where
  "assoc_info_remove_cb st elem = do {
     let (h, count) = st;
     e \<leftarrow> deref h elem;
     (case (key e, data e) of
        (Some k, Some n) \<Rightarrow>
          if chk_exist_flag n = 0 then do {
            let count = count + 1;
            h' \<leftarrow> rem_element h (Some elem);
            Some (h', count)
          } else Some (h, count)
      | _ \<Rightarrow> Some (h, count))
   }"

definition assoc_info_remove_uncheck_node :: "main_ctx \<Rightarrow> (int \<times> main_ctx) option" where
  "assoc_info_remove_uncheck_node ctx = do {
     (h, count) \<leftarrow> list_element (Some assoc_info_remove_cb) (mem ctx, 0) (node_list ctx);
     Some (count, ctx\<lparr>mem := h\<rparr>)
   }"

section \<open>The sorted copy\<close>

text \<open>\<open>arg_list\<close> holds the \<open>used\<close> first entries of the array of the caller.\<close>

record cb_make_list_arg =
  arg_list :: "node_info list"
  limit :: nat
  used :: nat

definition assoc_info_list_cb :: "cb_make_list_arg node_cb" where
  "assoc_info_list_cb st elem = do {
     let (h, arg) = st;
     e \<leftarrow> deref h elem;
     (case (key e, data e) of
        (Some k, Some n) \<Rightarrow>
          if used arg + 1 \<ge> limit arg then Some (h, arg)
          else Some (h, arg\<lparr>arg_list := arg_list arg @ [n], used := used arg + 1\<rparr>)
      | _ \<Rightarrow> Some (h, arg))
   }"

definition assoc_info_compare :: "node_info \<Rightarrow> node_info \<Rightarrow> int" where
  "assoc_info_compare node1 node2 =
     (let res1 = strcmp (node_name node1) (node_name node2) in
      if res1 < 0 then -1
      else if res1 > 0 then 1
      else let res2 = strcmp (pod_name node1) (pod_name node2) in
        if res2 < 0 then -1
        else if res2 > 0 then 1
        else 0)"

text \<open>\<open>qsort\<close> over a comparison function, as a stable insertion sort.\<close>

fun insert_cmp :: "('a \<Rightarrow> 'a \<Rightarrow> int) \<Rightarrow> 'a \<Rightarrow> 'a list \<Rightarrow> 'a list" where
  "insert_cmp cmp x [] = [x]"
| "insert_cmp cmp x (y # ys) = (if cmp x y \<le> 0 then x # y # ys else y # insert_cmp cmp x ys)"

definition qsort :: "('a \<Rightarrow> 'a \<Rightarrow> int) \<Rightarrow> 'a list \<Rightarrow> 'a list" where
  "qsort cmp xs = foldr (insert_cmp cmp) xs []"

text \<open>\<open>lim\<close> is the size of the caller's array in entries.\<close>

definition assoc_info_make_list :: "main_ctx \<Rightarrow> nat \<Rightarrow> (nat \<times> node_info list) option" where
  "assoc_info_make_list ctx lim = do {
     (h, arg) \<leftarrow> list_element (Some assoc_info_list_cb)
        (mem ctx, \<lparr>arg_list = [], limit = lim, used = 0\<rparr>) (node_list ctx);
     Some (used arg, (if used arg > 0 then qsort assoc_info_compare (arg_list arg) else arg_list arg))
   }"

section \<open>The message handlers\<close>

definition add_new_node :: "main_ctx \<Rightarrow> node_info heap \<Rightarrow> node_info \<Rightarrow> main_ctx option" where
  "add_new_node ctx h n = do {
     (r, h', root) \<leftarrow> put_element (h, node_list ctx) (name n) n;
     Some (ctx\<lparr>mem := h'\<rparr>)
   }"

definition node_proc_omp_send_info :: "main_ctx \<Rightarrow> string \<Rightarrow> (node_proc_res \<times> main_ctx) option" where
  "node_proc_omp_send_info ctx recv_msg =
     (let (res, parsed) = assoc_info_get_from_omp recv_msg in
      if res < 0 then Some (NP_NONE, ctx)
      else do {
        let n = parsed\<lparr>chk_exist_flag := 1\<rparr>;
        elem \<leftarrow> get_element (mem ctx) (node_list ctx) (name n);
        (case elem of
           None \<Rightarrow> do { ctx' \<leftarrow> add_new_node ctx (mem ctx) n; Some (NP_ADD, ctx') }
         | Some a \<Rightarrow> do {
             e \<leftarrow> deref (mem ctx) a;
             (case data e of
                None \<Rightarrow> Some (NP_NONE, ctx)
              | Some already \<Rightarrow>
                  if strcmp (mgnt_pri_ip already) (mgnt_pri_ip n) = 0 \<and>
                     strcmp (serv_pri_ip already) (serv_pri_ip n) = 0
                  then do {
                    h \<leftarrow> set_data (mem ctx) a (already\<lparr>chk_exist_flag := 1\<rparr>);
                    Some (NP_UPTM, ctx\<lparr>mem := h\<rparr>)
                  }
                  else do {
                    h \<leftarrow> rem_element (mem ctx) (Some a);
                    ctx' \<leftarrow> add_new_node ctx h n;
                    Some (NP_REP, ctx')
                  })
           })
      })"

definition pod_info_name :: "node_info \<Rightarrow> node_info" where
  "pod_info_name n = (if length (pod_name n) > 0 then n\<lparr>info_name := pod_name n\<rparr> else n)"

text \<open>\<open>Inl ()\<close> is the return value \<open>-1\<close>; \<open>tm\<close> is the result of \<open>time(NULL)\<close>.\<close>

definition node_proc_pod_send_info ::
  "main_ctx \<Rightarrow> string \<Rightarrow> int \<Rightarrow> ((unit + node_proc_res) \<times> main_ctx) option" where
  "node_proc_pod_send_info ctx recv_msg tm =
     (let (res, parsed) = assoc_info_get_from_pod recv_msg in
      if res < 0 then Some (Inl (), ctx)
      else do {
        let n = parsed\<lparr>heartbeat_tm := tm\<rparr>;
        elem \<leftarrow> get_element (mem ctx) (node_list ctx) (name n);
        (case elem of
           None \<Rightarrow> do {
             ctx' \<leftarrow> add_new_node ctx (mem ctx) (pod_info_name n);
             Some (Inr NP_ADD, ctx')
           }
         | Some a \<Rightarrow> do {
             e \<leftarrow> deref (mem ctx) a;
             (case data e of
                None \<Rightarrow> Some (Inr NP_NONE, ctx)
              | Some already \<Rightarrow>
                  if strcmp (mgnt_pri_ip already) (mgnt_pri_ip n) = 0 \<and>
                     strcmp (serv_pri_ip already) (serv_pri_ip n) = 0
                  then do {
                    h \<leftarrow> set_data (mem ctx) a (already\<lparr>heartbeat_tm := heartbeat_tm n\<rparr>);
                    Some (Inr NP_UPTM, ctx\<lparr>mem := h\<rparr>)
                  }
                  else do {
                    port \<leftarrow> fits 128 (mgnt_port already);
                    let n = pod_info_name (n\<lparr>mgnt_port := port\<rparr>);
                    h \<leftarrow> rem_element (mem ctx) (Some a);
                    ctx' \<leftarrow> add_new_node ctx h n;
                    Some (Inr NP_REP, ctx')
                  })
           })
      })"

section \<open>Traversals of the node list\<close>

lemma set_data_same: "cells h a = Some e \<Longrightarrow> data e = Some d \<Longrightarrow> set_data h a d = Some h"
  by (cases e) (simp add: set_data_def deref_def store_def fun_upd_idem)

definition stale :: "int \<Rightarrow> node_info \<Rightarrow> bool" where
  "stale tm n \<longleftrightarrow> heartbeat_tm n \<noteq> 0 \<and> tm - heartbeat_tm n \<ge> ASSOC_CLEAR_TM"

definition clean_step :: "string \<Rightarrow> node_info \<Rightarrow> cb_clean_assoc_arg \<Rightarrow> (node_info option \<times> cb_clean_assoc_arg) option" where
  "clean_step k n arg = Some (if stale (curr_tm arg) n
     then (None, arg\<lparr>clear_count := clear_count arg + 1\<rparr>) else (Some n, arg))"

interpretation clean: list_callback assoc_info_clean_cb Some clean_step
  by unfold_locales
    (auto simp: bind_Some_map_option assoc_info_clean_cb_def clean_step_def stale_def deref_def set_data_same
      split: if_splits option.splits)

definition reply_step :: "string \<Rightarrow> node_info \<Rightarrow> string \<Rightarrow> (node_info option \<times> string) option" where
  "reply_step k n buffer = do {
     port \<leftarrow> fits 128 (mgnt_port n);
     buffer' \<leftarrow> fits TOPO_MAX_BUFFER (buffer @ reply_line n port);
     Some (Some n, buffer')
   }"

interpretation reply: list_callback assoc_info_reply_cb Some reply_step
  by unfold_locales
    (auto simp: assoc_info_reply_cb_def reply_step_def deref_def set_data_same bind_eq_None_conv
      split: option.splits)

definition unset_step :: "string \<Rightarrow> node_info \<Rightarrow> unit \<Rightarrow> (node_info option \<times> unit) option" where
  "unset_step k n u = Some (Some (n\<lparr>chk_exist_flag := 0\<rparr>), ())"

interpretation unset: list_callback assoc_info_unset_cb Some unset_step
  by unfold_locales
    (auto simp: assoc_info_unset_cb_def unset_step_def deref_def set_data_def store_def split: option.splits)

definition remove_step :: "string \<Rightarrow> node_info \<Rightarrow> int \<Rightarrow> (node_info option \<times> int) option" where
  "remove_step k n c = Some (if chk_exist_flag n = 0 then (None, c + 1) else (Some n, c))"

interpretation sweep: list_callback assoc_info_remove_cb Some remove_step
  by unfold_locales
    (auto simp: bind_Some_map_option assoc_info_remove_cb_def remove_step_def deref_def set_data_same
      split: if_splits option.splits)

definition copy_step :: "string \<Rightarrow> node_info \<Rightarrow> cb_make_list_arg \<Rightarrow> (node_info option \<times> cb_make_list_arg) option" where
  "copy_step k n arg = Some (Some n, if used arg + 1 \<ge> limit arg then arg
     else arg\<lparr>arg_list := arg_list arg @ [n], used := used arg + 1\<rparr>)"

interpretation copy: list_callback assoc_info_list_cb Some copy_step
  by unfold_locales
    (auto simp: assoc_info_list_cb_def copy_step_def deref_def set_data_same split: option.splits)

text \<open>The abstract traversals in closed form.\<close>

lemma walk_clean:
  "walk clean_step xs arg =
     Some (filter (\<lambda>(a, k, n). \<not> stale (curr_tm arg) n) xs,
           arg\<lparr>clear_count := clear_count arg + int (length (filter (\<lambda>(a, k, n). stale (curr_tm arg) n) xs))\<rparr>)"
proof (induction xs arbitrary: arg)
  case (Cons x xs)
  obtain a k n where x: "x = (a, k, n)" by (cases x) auto
  then show ?case by (simp add: clean_step_def [of k n arg] Cons.IH)
qed simp

lemma walk_unset:
  "walk unset_step xs u = Some (map (\<lambda>(a, k, n). (a, k, n\<lparr>chk_exist_flag := 0\<rparr>)) xs, ())"
proof (induction xs arbitrary: u)
  case (Cons x xs)
  obtain a k n where x: "x = (a, k, n)" by (cases x) auto
  then show ?case by (simp add: unset_step_def [of k n "()"] Cons.IH)
qed simp

lemma walk_sweep:
  "walk remove_step xs c =
     Some (filter (\<lambda>(a, k, n). chk_exist_flag n \<noteq> 0) xs,
           c + int (length (filter (\<lambda>(a, k, n). chk_exist_flag n = 0) xs)))"
proof (induction xs arbitrary: c)
  case (Cons x xs)
  obtain a k n where x: "x = (a, k, n)" by (cases x) auto
  then show ?case by (simp add: remove_step_def [of k n c] Cons.IH)
qed simp

lemma walk_copy:
  "walk copy_step xs arg = Some (xs,
     (let new = take (limit arg - 1 - used arg) (map (snd \<circ> snd) xs)
      in arg\<lparr>arg_list := arg_list arg @ new, used := used arg + length new\<rparr>))"
proof (induction xs arbitrary: arg)
  case (Cons x xs)
  obtain a k n where x: "x = (a, k, n)" by (cases x) auto
  show ?case
  proof (cases "used arg + 1 \<ge> limit arg")
    case True
    with x show ?thesis by (simp add: copy_step_def [of k n arg] Cons.IH Let_def)
  next
    case False
    then obtain m where "limit arg - 1 - used arg = Suc m"
      by (metis Suc_diff_Suc diff_diff_left less_diff_conv linorder_not_le plus_1_eq_Suc add.commute)
    moreover from this have "limit arg - 1 - (used arg + 1) = m" by simp
    ultimately show ?thesis using x False by (simp add: copy_step_def [of k n arg] Cons.IH Let_def)
  qed
qed simp

definition reply_text :: "node_info list \<Rightarrow> string" where
  "reply_text ns = concat (map (\<lambda>n. reply_line n (mgnt_port n)) ns)"

lemma walk_reply:
  assumes "\<forall>n \<in> set (map (snd \<circ> snd) xs). length (mgnt_port n) < 128"
  shows "walk reply_step xs b =
     (if xs = [] \<or> length (b @ reply_text (map (snd \<circ> snd) xs)) < TOPO_MAX_BUFFER
      then Some (xs, b @ reply_text (map (snd \<circ> snd) xs)) else None)"
  using assms
proof (induction xs arbitrary: b)
  case Nil
  then show ?case by (simp add: reply_text_def)
next
  case (Cons x xs)
  obtain a k n where x: "x = (a, k, n)" by (cases x) auto
  let ?b = "b @ reply_line n (mgnt_port n)"
  show ?case
  proof (cases "length ?b < TOPO_MAX_BUFFER")
    case True
    then have st: "reply_step k n b = Some (Some n, ?b)"
      using Cons.prems x by (simp add: reply_step_def)
    have rt: "reply_text (map (snd \<circ> snd) (x # xs))
        = reply_line n (mgnt_port n) @ reply_text (map (snd \<circ> snd) xs)"
      using x by (simp add: reply_text_def)
    have ih: "walk reply_step xs ?b =
       (if xs = [] \<or> length (?b @ reply_text (map (snd \<circ> snd) xs)) < TOPO_MAX_BUFFER
        then Some (xs, ?b @ reply_text (map (snd \<circ> snd) xs)) else None)"
      using Cons.prems by (intro Cons.IH) simp
    show ?thesis
    proof (cases "xs = []")
      case nil: True
      with st x True show ?thesis unfolding rt by (simp add: reply_text_def)
    next
      case False
      with st x ih show ?thesis unfolding rt by simp
    qed
  next
    case False
    then have "reply_step k n b = None"
      using Cons.prems x by (simp add: reply_step_def fits_def)
    moreover have "\<not> length (b @ reply_text (map (snd \<circ> snd) (x # xs))) < TOPO_MAX_BUFFER"
      using x False by (simp add: reply_text_def)
    ultimately show ?thesis using x by (simp add: comp_def)
  qed
qed

end
