(* ===== verification/Node_Spec.thy ===== *)
theory Node_Spec
  imports Node
begin

text \<open>
  The contract of the node list: the map from node names to nodes that a context represents, the
  abstract merge of a registration (server) and of a reply line (client), and the proof that every
  operation of the theory Node implements its abstract counterpart on the linked list, without a
  fault.
\<close>

section \<open>The map a context represents\<close>

abbreviation contents :: "node_info node list \<Rightarrow> string \<Rightarrow> node_info option" where
  "contents xs \<equiv> map_of (entries xs)"

abbreviation infos :: "node_info node list \<Rightarrow> node_info list" where
  "infos xs \<equiv> map (snd \<circ> snd) xs"

definition topo_rep :: "main_ctx \<Rightarrow> node_info node list \<Rightarrow> bool" where
  "topo_rep ctx xs \<longleftrightarrow> wf_list (mem ctx) (node_list ctx) xs \<and> \<not> oom (mem ctx)
     \<and> (\<forall>(a, k, n) \<in> set xs. name n = k)"

lemma topo_rep_sorted: "topo_rep ctx xs \<Longrightarrow> sorted_wrt (<) (map node_key xs)"
  by (simp add: topo_rep_def wf_list_def)

lemma topo_rep_distinct: "topo_rep ctx xs \<Longrightarrow> distinct (map node_key xs)"
  using topo_rep_sorted strict_sorted_iff by blast

lemma contents_iff:
  assumes "distinct (map node_key xs)"
  shows "contents xs k = Some n \<longleftrightarrow> (\<exists>a. (a, k, n) \<in> set xs)"
  using assms by (force simp: comp_def)

lemma contents_update:
  assumes "distinct (map node_key (ys @ (a, k, d) # zs))"
  shows "contents (ys @ (a, k, d') # zs) = (contents (ys @ (a, k, d) # zs))(k \<mapsto> d')"
proof
  fix x
  have "contents ys k = None" using assms by (force simp: map_of_eq_None_iff)
  then show "contents (ys @ (a, k, d') # zs) x = ((contents (ys @ (a, k, d) # zs))(k \<mapsto> d')) x"
    by (auto simp: map_add_def split: option.splits)
qed

lemma contents_node:
  assumes "topo_rep ctx xs" and "handle_of xs k = Some a"
  obtains ys d zs where "xs = ys @ (a, k, d) # zs" and "contents xs k = Some d"
proof -
  obtain d where "(a, k, d) \<in> set xs" "contents xs k = Some d"
    using handle_of_map_of [OF assms(2)] by blast
  then show thesis using that by (meson split_list)
qed

lemma contents_filter:
  assumes "distinct (map node_key xs)"
  shows "contents (filter (\<lambda>(a, k, n). P n) xs) =
    (\<lambda>k. case contents xs k of None \<Rightarrow> None | Some n \<Rightarrow> if P n then Some n else None)"
proof
  fix k
  have d: "distinct (map fst (entries xs))" using assms by (simp add: comp_def)
  have "entries (filter (\<lambda>(a, k, n). P n) xs) = filter (\<lambda>(k, n). P n) (entries xs)"
    by (induction xs) auto
  then show "contents (filter (\<lambda>(a, k, n). P n) xs) k =
      (case contents xs k of None \<Rightarrow> None | Some n \<Rightarrow> if P n then Some n else None)"
    using lookup_filter [OF d, of "\<lambda>(k, n). P n" k] by (cases "contents xs k") simp_all
qed

lemma contents_map:
  "contents (map (\<lambda>(a, k, n). (a, k, f n)) xs) = map_option f \<circ> contents xs"
  by (induction xs) auto

section \<open>The traversals\<close>

text \<open>Every whole-list operation keeps the representation and does the abstract traversal.\<close>

lemma topo_rep_subset:
  assumes "topo_rep ctx xs" and "wf_list h (node_list ctx) ys" and "oom h = oom (mem ctx)"
    and "\<forall>(a, k, n) \<in> set ys. name n = k"
  shows "topo_rep (ctx\<lparr>mem := h\<rparr>) ys"
  using assms by (simp add: topo_rep_def)

lemma cleanup_rep:
  assumes "topo_rep ctx xs"
  shows "\<exists>h. assoc_info_cleanup ctx tm =
       Some (int (length (filter (\<lambda>(a, k, n). stale tm n) xs)), ctx\<lparr>mem := h\<rparr>)
     \<and> topo_rep (ctx\<lparr>mem := h\<rparr>) (filter (\<lambda>(a, k, n). \<not> stale tm n) xs)"
proof -
  let ?arg = "\<lparr>curr_tm = tm, clear_count = 0\<rparr>"
  have wf: "wf_list (mem ctx) (node_list ctx) xs" using assms by (simp add: topo_rep_def)
  have w: "walk clean_step xs ?arg = Some (filter (\<lambda>(a, k, n). \<not> stale tm n) xs,
      \<lparr>curr_tm = tm, clear_count = int (length (filter (\<lambda>(a, k, n). stale tm n) xs))\<rparr>)"
    by (simp add: walk_clean)
  obtain h where h: "list_element (Some assoc_info_clean_cb) (mem ctx, ?arg) (node_list ctx) =
      Some (h, \<lparr>curr_tm = tm, clear_count = int (length (filter (\<lambda>(a, k, n). stale tm n) xs))\<rparr>)"
      "wf_list h (node_list ctx) (filter (\<lambda>(a, k, n). \<not> stale tm n) xs)" "oom h = oom (mem ctx)"
    using clean.traversal_Some [OF wf refl w] by blast
  have "topo_rep (ctx\<lparr>mem := h\<rparr>) (filter (\<lambda>(a, k, n). \<not> stale tm n) xs)"
    using assms by (intro topo_rep_subset [OF assms h(2,3)]) (auto simp: topo_rep_def)
  with h(1) show ?thesis by (auto simp: assoc_info_cleanup_def)
qed

lemma unset_rep:
  assumes "topo_rep ctx xs"
  shows "\<exists>h. assoc_info_unset_chk_flag ctx = Some (ctx\<lparr>mem := h\<rparr>)
     \<and> topo_rep (ctx\<lparr>mem := h\<rparr>) (map (\<lambda>(a, k, n). (a, k, n\<lparr>chk_exist_flag := 0\<rparr>)) xs)"
proof -
  have wf: "wf_list (mem ctx) (node_list ctx) xs" using assms by (simp add: topo_rep_def)
  obtain h where h: "list_element (Some assoc_info_unset_cb) (mem ctx, ()) (node_list ctx) = Some (h, ())"
      "wf_list h (node_list ctx) (map (\<lambda>(a, k, n). (a, k, n\<lparr>chk_exist_flag := 0\<rparr>)) xs)"
      "oom h = oom (mem ctx)"
    using unset.traversal_Some [OF wf refl walk_unset] by auto
  have "topo_rep (ctx\<lparr>mem := h\<rparr>) (map (\<lambda>(a, k, n). (a, k, n\<lparr>chk_exist_flag := 0\<rparr>)) xs)"
    using assms by (intro topo_rep_subset [OF assms h(2,3)]) (auto simp: topo_rep_def)
  with h(1) show ?thesis by (auto simp: assoc_info_unset_chk_flag_def)
qed

lemma sweep_rep:
  assumes "topo_rep ctx xs"
  shows "\<exists>h. assoc_info_remove_uncheck_node ctx =
       Some (int (length (filter (\<lambda>(a, k, n). chk_exist_flag n = 0) xs)), ctx\<lparr>mem := h\<rparr>)
     \<and> topo_rep (ctx\<lparr>mem := h\<rparr>) (filter (\<lambda>(a, k, n). chk_exist_flag n \<noteq> 0) xs)"
proof -
  have wf: "wf_list (mem ctx) (node_list ctx) xs" using assms by (simp add: topo_rep_def)
  have w: "walk remove_step xs 0 = Some (filter (\<lambda>(a, k, n). chk_exist_flag n \<noteq> 0) xs,
      int (length (filter (\<lambda>(a, k, n). chk_exist_flag n = 0) xs)))"
    by (simp add: walk_sweep)
  obtain h where h: "list_element (Some assoc_info_remove_cb) (mem ctx, 0) (node_list ctx) =
      Some (h, int (length (filter (\<lambda>(a, k, n). chk_exist_flag n = 0) xs)))"
      "wf_list h (node_list ctx) (filter (\<lambda>(a, k, n). chk_exist_flag n \<noteq> 0) xs)" "oom h = oom (mem ctx)"
    using sweep.traversal_Some [OF wf refl w] by blast
  have "topo_rep (ctx\<lparr>mem := h\<rparr>) (filter (\<lambda>(a, k, n). chk_exist_flag n \<noteq> 0) xs)"
    using assms by (intro topo_rep_subset [OF assms h(2,3)]) (auto simp: topo_rep_def)
  with h(1) show ?thesis by (auto simp: assoc_info_remove_uncheck_node_def)
qed

lemma make_list_rep:
  assumes "topo_rep ctx xs"
  shows "assoc_info_make_list ctx lim =
     Some (min (length xs) (lim - 1), qsort assoc_info_compare (take (lim - 1) (infos xs)))"
proof -
  let ?arg = "\<lparr>arg_list = [], limit = lim, used = 0\<rparr>"
  let ?new = "take (lim - 1) (infos xs)"
  have wf: "wf_list (mem ctx) (node_list ctx) xs" using assms by (simp add: topo_rep_def)
  have w: "walk copy_step xs ?arg = Some (xs, \<lparr>arg_list = ?new, limit = lim, used = length ?new\<rparr>)"
    by (simp add: walk_copy Let_def)
  obtain h where h: "list_element (Some assoc_info_list_cb) (mem ctx, ?arg) (node_list ctx) =
      Some (h, \<lparr>arg_list = ?new, limit = lim, used = length ?new\<rparr>)"
    using copy.traversal_Some [OF wf refl w] by blast
  then show ?thesis
    by (auto simp: assoc_info_make_list_def qsort_def)
qed

lemma reply_rep:
  assumes "topo_rep ctx xs" and "\<forall>n \<in> set (infos xs). length (mgnt_port n) < 128"
  shows "assoc_info_reply_msg ctx [] =
     (if xs = [] \<or> length (reply_text (infos xs)) < TOPO_MAX_BUFFER
      then Some (reply_text (infos xs)) else None)"
proof -
  have wf: "wf_list (mem ctx) (node_list ctx) xs" using assms by (simp add: topo_rep_def)
  note w = walk_reply [OF assms(2), of "[]"]
  show ?thesis
  proof (cases "xs = [] \<or> length (reply_text (infos xs)) < TOPO_MAX_BUFFER")
    case True
    then have "walk reply_step xs [] = Some (xs, reply_text (infos xs))" using w by simp
    from reply.traversal_Some [OF wf refl this] True show ?thesis
      by (auto simp: assoc_info_reply_msg_def)
  next
    case False
    then have "walk reply_step xs [] = None" using w by simp
    from reply.traversal_None [OF wf refl this] False show ?thesis
      by (simp add: assoc_info_reply_msg_def)
  qed
qed

section \<open>The abstract merges\<close>

definition same_addr :: "node_info \<Rightarrow> node_info \<Rightarrow> bool" where
  "same_addr a b \<longleftrightarrow> mgnt_pri_ip a = mgnt_pri_ip b \<and> serv_pri_ip a = serv_pri_ip b"

text \<open>
  The client merges a reply line: a new name is added, a node with the same two primary addresses
  is only marked, any other is replaced.
\<close>

definition merge_omp :: "node_info \<Rightarrow> (string \<Rightarrow> node_info option) \<Rightarrow>
    node_proc_res \<times> (string \<Rightarrow> node_info option)" where
  "merge_omp p m =
     (let n = p\<lparr>chk_exist_flag := 1\<rparr> in
      case m (name n) of
        None \<Rightarrow> (NP_ADD, m(name n \<mapsto> n))
      | Some old \<Rightarrow> if same_addr old n then (NP_UPTM, m(name n \<mapsto> old\<lparr>chk_exist_flag := 1\<rparr>))
          else (NP_REP, m(name n \<mapsto> n)))"

text \<open>
  The server merges a registration: the heartbeat is refreshed, and a replaced node keeps the
  management port it had.
\<close>

definition merge_pod :: "int \<Rightarrow> node_info \<Rightarrow> (string \<Rightarrow> node_info option) \<Rightarrow>
    node_proc_res \<times> (string \<Rightarrow> node_info option)" where
  "merge_pod tm p m =
     (let n = p\<lparr>heartbeat_tm := tm\<rparr> in
      case m (name n) of
        None \<Rightarrow> (NP_ADD, m(name n \<mapsto> pod_info_name n))
      | Some old \<Rightarrow> if same_addr old n then (NP_UPTM, m(name n \<mapsto> old\<lparr>heartbeat_tm := tm\<rparr>))
          else (NP_REP, m(name n \<mapsto> pod_info_name (n\<lparr>mgnt_port := mgnt_port old\<rparr>))))"

lemma name_pod_info_name [simp]: "name (pod_info_name n) = name n"
  by (simp add: pod_info_name_def)

lemma topo_rep_store:
  assumes "wf_list h (node_list ctx) ys" and "\<not> oom h"
    and "\<And>k n. contents ys k = Some n \<Longrightarrow> name n = k"
  shows "topo_rep (ctx\<lparr>mem := h\<rparr>) ys"
proof -
  have d: "distinct (map node_key ys)" using assms(1) strict_sorted_iff by (auto simp: wf_list_def)
  have "name n = k" if "(a, k, n) \<in> set ys" for a k n
  proof (rule assms(3))
    show "contents ys k = Some n" using that contents_iff [OF d] by blast
  qed
  with assms show ?thesis by (auto simp: topo_rep_def)
qed

lemma topo_rep_name:
  assumes "topo_rep ctx xs" and "contents xs k = Some n"
  shows "name n = k"
  using assms contents_iff [OF topo_rep_distinct [OF assms(1)]] by (fastforce simp: topo_rep_def)

lemma put_element_root: "put_element (h, root) k d = Some (r, s') \<Longrightarrow> snd s' = root"
  by (auto simp: put_element_def split: prod.splits option.splits)

text \<open>The three ways a handler writes the list.\<close>

lemma add_new_node_rep:
  assumes "topo_rep ctx xs" and "contents xs (name n) = None"
  shows "\<exists>h ys. add_new_node ctx (mem ctx) n = Some (ctx\<lparr>mem := h\<rparr>)
     \<and> topo_rep (ctx\<lparr>mem := h\<rparr>) ys \<and> contents ys = (contents xs)(name n \<mapsto> n)"
proof -
  let ?s = "(mem ctx, node_list ctx)"
  have wf: "wf_list (fst ?s) (snd ?s) xs" and mem: "\<not> oom (fst ?s)"
    using assms(1) by (auto simp: topo_rep_def)
  obtain s' ys where s': "put_element ?s (name n) n = Some (0, s')" "wf_list (fst s') (snd s') ys"
      "\<not> oom (fst s')" "contents ys = (contents xs)(name n \<mapsto> n)"
    using els.put_new_map [OF wf mem assms(2), of n] by blast
  have root: "snd s' = node_list ctx"
    using put_element_root [OF s'(1)] .
  have "topo_rep (ctx\<lparr>mem := fst s'\<rparr>) ys"
    using s' root topo_rep_name [OF assms(1)]
    by (intro topo_rep_store) (auto split: if_splits)
  moreover have "add_new_node ctx (mem ctx) n = Some (ctx\<lparr>mem := fst s'\<rparr>)"
    using s'(1) by (cases s') (simp add: add_new_node_def)
  ultimately show ?thesis using s'(4) by blast
qed

lemma replace_node_rep:
  assumes "topo_rep ctx xs" and "handle_of xs (name n) = Some a"
  shows "\<exists>h h' ys. rem_element (mem ctx) (Some a) = Some h \<and> add_new_node ctx h n = Some (ctx\<lparr>mem := h'\<rparr>)
     \<and> topo_rep (ctx\<lparr>mem := h'\<rparr>) ys \<and> contents ys = (contents xs)(name n \<mapsto> n)"
proof -
  let ?s = "(mem ctx, node_list ctx)"
  have wf: "wf_list (fst ?s) (snd ?s) xs" and mem: "\<not> oom (fst ?s)"
    using assms(1) by (auto simp: topo_rep_def)
  obtain d where node: "(a, name n, d) \<in> set xs" using handle_of_Some [OF assms(2)] by blast
  obtain s1 s' ys where s1: "del_element ?s a = Some s1" "put_element s1 (name n) n = Some (0, s')"
      "wf_list (fst s') (snd s') ys" "\<not> oom (fst s')" "contents ys = (contents xs)(name n \<mapsto> n)"
    using els.replace_map [OF wf mem node, of n] by blast
  obtain h where h: "rem_element (mem ctx) (Some a) = Some h" "s1 = (h, node_list ctx)"
    using s1(1) by (auto simp: del_element_def)
  have root: "snd s' = node_list ctx"
    by (rule put_element_root [OF s1(2) [unfolded h(2)]])
  have "topo_rep (ctx\<lparr>mem := fst s'\<rparr>) ys"
    using s1 root topo_rep_name [OF assms(1)]
    by (intro topo_rep_store) (auto split: if_splits)
  moreover have "add_new_node ctx h n = Some (ctx\<lparr>mem := fst s'\<rparr>)"
    using s1(2) h(2) by (cases s') (simp add: add_new_node_def)
  ultimately show ?thesis using s1(5) h(1) by blast
qed

lemma write_node_rep:
  assumes "topo_rep ctx xs" and "handle_of xs k = Some a" and "name d' = k"
  shows "\<exists>h ys. set_data (mem ctx) a d' = Some h
     \<and> topo_rep (ctx\<lparr>mem := h\<rparr>) ys \<and> contents ys = (contents xs)(k \<mapsto> d')"
proof -
  obtain ps d zs where xs: "xs = ps @ (a, k, d) # zs"
    using contents_node [OF assms(1,2)] by blast
  have wf: "wf_list (mem ctx) (node_list ctx) xs" using assms(1) by (simp add: topo_rep_def)
  obtain h where h: "set_data (mem ctx) a d' = Some h"
      "wf_list h (node_list ctx) (ps @ (a, k, d') # zs)" "oom h = oom (mem ctx)"
    using set_data_list [OF wf xs] by blast
  have m: "contents (ps @ (a, k, d') # zs) = (contents xs)(k \<mapsto> d')"
    using contents_update [of ps a k d zs d'] topo_rep_distinct [OF assms(1)] unfolding xs by blast
  have "topo_rep (ctx\<lparr>mem := h\<rparr>) (ps @ (a, k, d') # zs)"
  proof (rule topo_rep_store [OF h(2)])
    show "\<not> oom h" using h(3) assms(1) by (simp add: topo_rep_def)
    show "name n = j" if "contents (ps @ (a, k, d') # zs) j = Some n" for j n
      using that topo_rep_name [OF assms(1)] assms(3) unfolding m by (auto split: if_splits)
  qed
  with h(1) m show ?thesis by blast
qed

lemma node_at_handle:
  assumes "topo_rep ctx xs" and "handle_of xs k = Some a"
  obtains e d where "deref (mem ctx) a = Some e" and "data e = Some d" and "contents xs k = Some d"
proof -
  obtain ps d zs where xs: "xs = ps @ (a, k, d) # zs" "contents xs k = Some d"
    using contents_node [OF assms] by blast
  have "cells (mem ctx) a = Some \<lparr>forward = first_addr (map cell_of zs) None,
      backward = last_addr None ((node_list ctx, None, None) # map cell_of ps), key = Some k, data = Some d\<rparr>"
    using assms(1) xs(1) by (simp add: topo_rep_def wf_list_def seg_append)
  then show thesis using that xs(2) by (auto simp: deref_def)
qed

lemma get_element_rep:
  assumes "topo_rep ctx xs"
  shows "get_element (mem ctx) (node_list ctx) k = Some (handle_of xs k)"
    and "handle_of xs k = None \<longleftrightarrow> contents xs k = None"
proof -
  have wf: "wf_list (mem ctx) (node_list ctx) xs" using assms by (simp add: topo_rep_def)
  then show "get_element (mem ctx) (node_list ctx) k = Some (handle_of xs k)" by (rule get_element_list)
  show "handle_of xs k = None \<longleftrightarrow> contents xs k = None"
    by (simp add: handle_of_None map_of_eq_None_iff image_image)
qed

section \<open>The handlers refine the merges\<close>

lemma omp_send_info_rep:
  assumes rep: "topo_rep ctx xs"
    and parse: "assoc_info_get_from_omp msg = (0, p)"
  shows "\<exists>h ys. node_proc_omp_send_info ctx msg = Some (fst (merge_omp p (contents xs)), ctx\<lparr>mem := h\<rparr>)
     \<and> topo_rep (ctx\<lparr>mem := h\<rparr>) ys \<and> contents ys = snd (merge_omp p (contents xs))"
proof (cases "contents xs (name p)")
  case None
  then have "handle_of xs (name p) = None" using get_element_rep(2) [OF rep] by simp
  moreover obtain h ys where "add_new_node ctx (mem ctx) (p\<lparr>chk_exist_flag := 1\<rparr>) = Some (ctx\<lparr>mem := h\<rparr>)"
      "topo_rep (ctx\<lparr>mem := h\<rparr>) ys" "contents ys = (contents xs)(name p \<mapsto> p\<lparr>chk_exist_flag := 1\<rparr>)"
    using add_new_node_rep [OF rep, of "p\<lparr>chk_exist_flag := 1\<rparr>"] None by auto
  ultimately show ?thesis
    using None parse get_element_rep(1) [OF rep]
    by (auto simp: node_proc_omp_send_info_def merge_omp_def Let_def)
next
  case (Some old)
  then obtain a where a: "handle_of xs (name p) = Some a"
    using get_element_rep(2) [OF rep] by fastforce
  obtain e where e: "deref (mem ctx) a = Some e" "data e = Some old"
    by (rule node_at_handle [OF rep a]) (use Some in simp)
  note ev = parse get_element_rep(1) [OF rep] a e Some
  show ?thesis
  proof (cases "same_addr old p")
    case True
    have nm: "name (old\<lparr>chk_exist_flag := 1\<rparr>) = name p" using topo_rep_name [OF rep Some] by simp
    obtain h ys where "set_data (mem ctx) a (old\<lparr>chk_exist_flag := 1\<rparr>) = Some h"
        "topo_rep (ctx\<lparr>mem := h\<rparr>) ys" "contents ys = (contents xs)(name p \<mapsto> old\<lparr>chk_exist_flag := 1\<rparr>)"
      using write_node_rep [OF rep a nm] by blast
    moreover from this(1) have "node_proc_omp_send_info ctx msg = Some (NP_UPTM, ctx\<lparr>mem := h\<rparr>)"
      using ev True by (simp add: node_proc_omp_send_info_def same_addr_def)
    moreover have "merge_omp p (contents xs) = (NP_UPTM, (contents xs)(name p \<mapsto> old\<lparr>chk_exist_flag := 1\<rparr>))"
      using Some True by (simp add: merge_omp_def same_addr_def Let_def)
    ultimately show ?thesis by (simp only: fst_conv snd_conv) blast
  next
    case False
    obtain h h' ys where "rem_element (mem ctx) (Some a) = Some h"
        "add_new_node ctx h (p\<lparr>chk_exist_flag := 1\<rparr>) = Some (ctx\<lparr>mem := h'\<rparr>)"
        "topo_rep (ctx\<lparr>mem := h'\<rparr>) ys" "contents ys = (contents xs)(name p \<mapsto> p\<lparr>chk_exist_flag := 1\<rparr>)"
      using replace_node_rep [OF rep, of "p\<lparr>chk_exist_flag := 1\<rparr>"] a by auto
    moreover from this(1,2) have "node_proc_omp_send_info ctx msg = Some (NP_REP, ctx\<lparr>mem := h'\<rparr>)"
      using ev False by (simp add: node_proc_omp_send_info_def same_addr_def)
    moreover have "merge_omp p (contents xs) = (NP_REP, (contents xs)(name p \<mapsto> p\<lparr>chk_exist_flag := 1\<rparr>))"
      using Some False by (simp add: merge_omp_def same_addr_def Let_def)
    ultimately show ?thesis by (simp only: fst_conv snd_conv) blast
  qed
qed

lemma omp_send_info_bad:
  assumes "fst (assoc_info_get_from_omp msg) < 0"
  shows "node_proc_omp_send_info ctx msg = Some (NP_NONE, ctx)"
  using assms by (cases "assoc_info_get_from_omp msg") (simp add: node_proc_omp_send_info_def)

text \<open>
  The server handler.  The \<open>sprintf\<close> of the old management port needs it to be shorter
  than the field, which every stored port is.
\<close>

lemma pod_send_info_rep:
  assumes rep: "topo_rep ctx xs"
    and ports: "\<And>k n. contents xs k = Some n \<Longrightarrow> length (mgnt_port n) < 128"
    and parse: "assoc_info_get_from_pod msg = (0, p)"
  shows "\<exists>h ys. node_proc_pod_send_info ctx msg tm = Some (Inr (fst (merge_pod tm p (contents xs))), ctx\<lparr>mem := h\<rparr>)
     \<and> topo_rep (ctx\<lparr>mem := h\<rparr>) ys \<and> contents ys = snd (merge_pod tm p (contents xs))"
proof (cases "contents xs (name p)")
  case None
  let ?n = "pod_info_name (p\<lparr>heartbeat_tm := tm\<rparr>)"
  have "handle_of xs (name p) = None" using None get_element_rep(2) [OF rep] by simp
  moreover obtain h ys where "add_new_node ctx (mem ctx) ?n = Some (ctx\<lparr>mem := h\<rparr>)"
      "topo_rep (ctx\<lparr>mem := h\<rparr>) ys" "contents ys = (contents xs)(name p \<mapsto> ?n)"
    using add_new_node_rep [OF rep, of ?n] None by auto
  moreover have "merge_pod tm p (contents xs) = (NP_ADD, (contents xs)(name p \<mapsto> ?n))"
    using None by (simp add: merge_pod_def Let_def)
  ultimately show ?thesis
    using parse get_element_rep(1) [OF rep]
    by (simp only: fst_conv snd_conv) (auto simp: node_proc_pod_send_info_def Let_def)
next
  case (Some old)
  then obtain a where a: "handle_of xs (name p) = Some a"
    using get_element_rep(2) [OF rep] by fastforce
  obtain e where e: "deref (mem ctx) a = Some e" "data e = Some old"
    by (rule node_at_handle [OF rep a]) (use Some in simp)
  note ev = parse get_element_rep(1) [OF rep] a e Some
  show ?thesis
  proof (cases "same_addr old p")
    case True
    have nm: "name (old\<lparr>heartbeat_tm := tm\<rparr>) = name p" using topo_rep_name [OF rep Some] by simp
    obtain h ys where "set_data (mem ctx) a (old\<lparr>heartbeat_tm := tm\<rparr>) = Some h"
        "topo_rep (ctx\<lparr>mem := h\<rparr>) ys" "contents ys = (contents xs)(name p \<mapsto> old\<lparr>heartbeat_tm := tm\<rparr>)"
      using write_node_rep [OF rep a nm] by blast
    moreover from this(1) have "node_proc_pod_send_info ctx msg tm = Some (Inr NP_UPTM, ctx\<lparr>mem := h\<rparr>)"
      using ev True by (simp add: node_proc_pod_send_info_def same_addr_def)
    moreover have "merge_pod tm p (contents xs) = (NP_UPTM, (contents xs)(name p \<mapsto> old\<lparr>heartbeat_tm := tm\<rparr>))"
      using Some True by (simp add: merge_pod_def same_addr_def Let_def)
    ultimately show ?thesis by (simp only: fst_conv snd_conv) blast
  next
    case False
    let ?n = "pod_info_name (p\<lparr>heartbeat_tm := tm, mgnt_port := mgnt_port old\<rparr>)"
    have "handle_of xs (name ?n) = Some a" using a by simp
    then obtain h h' ys where "rem_element (mem ctx) (Some a) = Some h"
        "add_new_node ctx h ?n = Some (ctx\<lparr>mem := h'\<rparr>)"
        "topo_rep (ctx\<lparr>mem := h'\<rparr>) ys" "contents ys = (contents xs)(name ?n \<mapsto> ?n)"
      using replace_node_rep [OF rep] by blast
    moreover from this(1,2) have "node_proc_pod_send_info ctx msg tm = Some (Inr NP_REP, ctx\<lparr>mem := h'\<rparr>)"
      using ev False ports [OF Some] by (simp add: node_proc_pod_send_info_def same_addr_def fits_def Let_def)
    moreover have "merge_pod tm p (contents xs) = (NP_REP, (contents xs)(name ?n \<mapsto> ?n))"
      using Some False by (simp add: merge_pod_def same_addr_def Let_def)
    ultimately show ?thesis by (simp only: fst_conv snd_conv) blast
  qed
qed

lemma pod_send_info_bad:
  assumes "fst (assoc_info_get_from_pod msg) < 0"
  shows "node_proc_pod_send_info ctx msg tm = Some (Inl (), ctx)"
  using assms by (cases "assoc_info_get_from_pod msg") (simp add: node_proc_pod_send_info_def)

section \<open>Parsing a reply line\<close>

definition field_ok :: "string \<Rightarrow> bool" where
  "field_ok s \<longleftrightarrow> s \<noteq> [] \<and> length s \<le> 127 \<and> CHR ''|'' \<notin> set s \<and> newline \<notin> set s \<and> nul \<notin> set s"

definition word_ok :: "string \<Rightarrow> bool" where
  "word_ok s \<longleftrightarrow> length s \<le> 127 \<and> CHR ''|'' \<notin> set s \<and> nul \<notin> set s \<and> list_all (\<lambda>c. \<not> isspace c) s"

text \<open>
  A node whose reply line can be read back: nine non-empty fields without the delimiters and a
  last field without white space, which may be empty.
\<close>

definition wire_ok :: "node_info \<Rightarrow> bool" where
  "wire_ok n \<longleftrightarrow> list_all field_ok [name n, ntype n, group n, mgnt_pri_ip n, mgnt_sec_ip n,
     mgnt_port n, serv_pri_ip n, serv_sec_ip n, info_name n] \<and> word_ok (vnfc_id n)"

text \<open>The ten fields of the association table, which a reply carries.\<close>

definition assoc_fields :: "node_info \<Rightarrow> node_info" where
  "assoc_fields n = n\<lparr>node_name := [], pod_name := [], chk_exist_flag := 0, heartbeat_tm := 0\<rparr>"

lemma not_bar_bar [simp]: "not_bar (CHR ''|'') = False"
  by (simp add: not_bar_def)

lemma sscanf_bar_field:
  assumes "field_ok w"
  shows "sscanf (Scan_set 127 not_bar # Lit (CHR ''|'') # cs) (w @ CHR ''|'' # rest) acc =
    sscanf cs rest (acc @ [w])"
proof -
  have "list_all not_bar w" using assms by (auto simp: field_ok_def not_bar_def list_all_iff)
  then show ?thesis using assms sscanf_field [of not_bar w 127 "CHR ''|''" cs rest acc]
    by (simp add: field_ok_def)
qed

lemma sscanf_word:
  assumes "word_ok w" and "acc \<noteq> []"
  shows "sscanf [Scan_str 127] w acc =
    (int (length acc) + (if w = [] then 0 else 1), if w = [] then acc else acc @ [w])"
  using assms sscanf_last_word [of w 127 acc] sscanf_last_missing [OF assms(2), of 127]
  by (auto simp: word_ok_def)

lemma parse_reply_line:
  assumes "wire_ok n"
  shows "assoc_info_get_from_omp (butlast (reply_line n (mgnt_port n))) = (0, assoc_fields n)"
proof -
  let ?v = "[name n, ntype n, group n, mgnt_pri_ip n, mgnt_sec_ip n,
     mgnt_port n, serv_pri_ip n, serv_sec_ip n, info_name n]"
  have b: "butlast (reply_line n (mgnt_port n)) =
     name n @ ''|'' @ ntype n @ ''|'' @ group n @ ''|'' @ mgnt_pri_ip n @ ''|'' @ mgnt_sec_ip n @ ''|'' @
     mgnt_port n @ ''|'' @ serv_pri_ip n @ ''|'' @ serv_sec_ip n @ ''|'' @ info_name n @ ''|'' @ vnfc_id n"
    by (simp add: reply_line_def butlast_append)
  have "sscanf fmt_omp (butlast (reply_line n (mgnt_port n))) [] = sscanf [Scan_str 127] (vnfc_id n) ?v"
    using assms unfolding b wire_ok_def fmt_omp_def
    by (simp add: sscanf_bar_field del: sscanf.simps)
  also have "\<dots> = (9 + (if vnfc_id n = [] then 0 else 1), if vnfc_id n = [] then ?v else ?v @ [vnfc_id n])"
    using assms by (subst sscanf_word) (simp_all add: wire_ok_def)
  finally show ?thesis
    by (cases "vnfc_id n = []")
      (simp_all add: assoc_info_get_from_omp_def scanned_def assoc_fields_def zero_node_def)
qed

text \<open>The registration message of a client, read by the server.\<close>

definition pod_line :: "string \<Rightarrow> string \<Rightarrow> string \<Rightarrow> string \<Rightarrow> string \<Rightarrow> string \<Rightarrow> string \<Rightarrow> string \<Rightarrow> string" where
  "pod_line nm ty gr node_ip pod_ip port nname pname =
     nm @ ''|'' @ ty @ ''|'' @ gr @ ''|'' @ node_ip @ ''|'' @ pod_ip @ ''|'' @ port @ ''|'' @ nname @ ''|'' @ pname"

lemma parse_pod_line:
  assumes "list_all field_ok [nm, ty, gr, node_ip, pod_ip, port, nname]" and "word_ok pname"
  shows "assoc_info_get_from_pod (pod_line nm ty gr node_ip pod_ip port nname pname) =
    (0, zero_node\<lparr>name := nm, ntype := ty, group := gr, mgnt_pri_ip := node_ip, serv_pri_ip := pod_ip,
          mgnt_port := port, node_name := nname, pod_name := pname,
          mgnt_sec_ip := ''NULL'', serv_sec_ip := ''NULL''\<rparr>)"
proof -
  let ?v = "[nm, ty, gr, node_ip, pod_ip, port, nname]"
  have "sscanf fmt_pod (pod_line nm ty gr node_ip pod_ip port nname pname) [] = sscanf [Scan_str 127] pname ?v"
    using assms unfolding pod_line_def fmt_pod_def
    by (simp add: sscanf_bar_field del: sscanf.simps)
  also have "\<dots> = (7 + (if pname = [] then 0 else 1), if pname = [] then ?v else ?v @ [pname])"
    using assms by (subst sscanf_word) simp_all
  finally show ?thesis
    by (cases "pname = []") (simp_all add: assoc_info_get_from_pod_def scanned_def zero_node_def)
qed

text \<open>What a parse stores is never longer than the field.\<close>

lemma fmt_widths: "\<forall>c \<in> set fmt_pod. conv_width c \<le> 127" "\<forall>c \<in> set fmt_omp. conv_width c \<le> 127"
  by (simp_all add: fmt_pod_def fmt_omp_def)

lemma pod_parse_port_bound:
  assumes "assoc_info_get_from_pod msg = (r, p)"
  shows "length (mgnt_port p) < 128"
proof -
  obtain sr v where v: "sscanf fmt_pod msg [] = (sr, v)" by fastforce
  have "\<forall>w \<in> set v. length w \<le> 127"
    using sscanf_bound [of "[]" 127 fmt_pod msg] fmt_widths(1) v by simp
  then have "length (scanned v 5) \<le> 127" by (rule scanned_bound)
  then show ?thesis
    using assms v by (auto simp: assoc_info_get_from_pod_def Let_def split: if_splits)
qed

lemma omp_parse_port_bound:
  assumes "assoc_info_get_from_omp msg = (r, p)"
  shows "length (mgnt_port p) < 128"
proof -
  obtain sr v where v: "sscanf fmt_omp msg [] = (sr, v)" by fastforce
  have "\<forall>w \<in> set v. length w \<le> 127"
    using sscanf_bound [of "[]" 127 fmt_omp msg] fmt_widths(2) v by simp
  then have "length (scanned v 5) \<le> 127" by (rule scanned_bound)
  then show ?thesis
    using assms v by (auto simp: assoc_info_get_from_omp_def Let_def split: if_splits)
qed

section \<open>A round of the client\<close>

text \<open>Merging the parsed lines one after the other.\<close>

definition merge_omps :: "node_info list \<Rightarrow> (string \<Rightarrow> node_info option) \<Rightarrow> (string \<Rightarrow> node_info option)" where
  "merge_omps ps m = fold (\<lambda>p m. snd (merge_omp p m)) ps m"

definition marked :: "(string \<Rightarrow> node_info option) \<Rightarrow> string \<Rightarrow> bool" where
  "marked m k \<longleftrightarrow> (\<exists>n. m k = Some n \<and> chk_exist_flag n \<noteq> 0)"

lemma merge_omp_other: "k \<noteq> name p \<Longrightarrow> snd (merge_omp p m) k = m k"
  by (simp add: merge_omp_def Let_def split: option.splits)

lemma merge_omp_self:
  "\<exists>n. snd (merge_omp p m) (name p) = Some n \<and> same_addr n p \<and> chk_exist_flag n = 1"
  by (auto simp: merge_omp_def same_addr_def Let_def split: option.splits)

lemma marked_merge_omp: "marked (snd (merge_omp p m)) k \<longleftrightarrow> k = name p \<or> marked m k"
proof (cases "k = name p")
  case True
  then show ?thesis using merge_omp_self [of p m] by (auto simp: marked_def)
next
  case False
  then show ?thesis by (simp add: marked_def merge_omp_other)
qed

lemma marked_merge_omps: "marked (merge_omps ps m) k \<longleftrightarrow> k \<in> name ` set ps \<or> marked m k"
  by (induction ps arbitrary: m) (auto simp: merge_omps_def marked_merge_omp)

lemma merge_omps_other: "k \<notin> name ` set ps \<Longrightarrow> merge_omps ps m k = m k"
  by (induction ps arbitrary: m) (simp_all add: merge_omps_def merge_omp_other)

lemma merge_omps_self:
  "distinct (map name ps) \<Longrightarrow> p \<in> set ps \<Longrightarrow>
   \<exists>n. merge_omps ps m (name p) = Some n \<and> same_addr n p \<and> chk_exist_flag n = 1"
proof (induction ps arbitrary: m)
  case (Cons q qs)
  show ?case
  proof (cases "p = q")
    case True
    then have "merge_omps (q # qs) m (name p) = snd (merge_omp p m) (name p)"
      using Cons.prems merge_omps_other [of "name p" qs "snd (merge_omp q m)"]
      by (simp add: merge_omps_def)
    then show ?thesis using merge_omp_self by simp
  next
    case False
    then show ?thesis using Cons by (simp add: merge_omps_def)
  qed
qed simp

text \<open>The whole round on maps: unmark, merge, sweep.\<close>

definition sync_map :: "node_info list \<Rightarrow> (string \<Rightarrow> node_info option) \<Rightarrow> (string \<Rightarrow> node_info option)" where
  "sync_map ps m = (\<lambda>k. case merge_omps ps (map_option (\<lambda>n. n\<lparr>chk_exist_flag := 0\<rparr>) \<circ> m) k of
     None \<Rightarrow> None | Some n \<Rightarrow> if chk_exist_flag n \<noteq> 0 then Some n else None)"

lemma marked_unset: "\<not> marked (map_option (\<lambda>n. n\<lparr>chk_exist_flag := 0\<rparr>) \<circ> m) k"
  by (auto simp: marked_def)

lemma dom_sync_map: "dom (sync_map ps m) = name ` set ps"
proof -
  have "k \<in> dom (sync_map ps m) \<longleftrightarrow> marked (merge_omps ps (map_option (\<lambda>n. n\<lparr>chk_exist_flag := 0\<rparr>) \<circ> m)) k" for k
    by (auto simp: sync_map_def marked_def split: option.splits if_splits)
  then show ?thesis using marked_merge_omps marked_unset by blast
qed

lemma sync_map_addr:
  assumes "distinct (map name ps)" and "p \<in> set ps"
  shows "\<exists>n. sync_map ps m (name p) = Some n \<and> same_addr n p"
  using merge_omps_self [OF assms, of "map_option (\<lambda>n. n\<lparr>chk_exist_flag := 0\<rparr>) \<circ> m"]
  by (auto simp: sync_map_def)

section \<open>Sorting with a comparison function\<close>

text \<open>
  What \<open>qsort\<close> needs of its comparison function, and what it gives in return: the same
  entries, in an order in which no entry is greater than a later one.
\<close>

locale comparison =
  fixes cmp :: "'a \<Rightarrow> 'a \<Rightarrow> int"
  assumes cmp_total: "cmp x y \<le> 0 \<or> cmp y x \<le> 0"
    and cmp_trans: "cmp x y \<le> 0 \<Longrightarrow> cmp y z \<le> 0 \<Longrightarrow> cmp x z \<le> 0"
begin

lemma insert_mset: "mset (insert_cmp cmp x xs) = add_mset x (mset xs)"
  by (induction xs) auto

lemma insert_sorted:
  "sorted_wrt (\<lambda>a b. cmp a b \<le> 0) xs \<Longrightarrow> sorted_wrt (\<lambda>a b. cmp a b \<le> 0) (insert_cmp cmp x xs)"
proof (induction xs)
  case (Cons y ys)
  show ?case
  proof (cases "cmp x y \<le> 0")
    case True
    with Cons.prems show ?thesis using cmp_trans by fastforce
  next
    case False
    then have "cmp y x \<le> 0" using cmp_total [of x y] by simp
    moreover have "set (insert_cmp cmp x ys) = insert x (set ys)"
      using insert_mset [of x ys] by (metis set_mset_add_mset_insert set_mset_mset)
    ultimately show ?thesis using False Cons by auto
  qed
qed simp

lemma qsort_mset: "mset (qsort cmp xs) = mset xs"
  by (induction xs) (simp_all add: qsort_def insert_mset)

lemma qsort_sorted: "sorted_wrt (\<lambda>a b. cmp a b \<le> 0) (qsort cmp xs)"
  by (induction xs) (simp_all add: qsort_def insert_sorted)

end

lemma assoc_info_compare_le:
  "assoc_info_compare a b \<le> 0 \<longleftrightarrow>
   node_name a < node_name b \<or> node_name a = node_name b \<and> pod_name a \<le> pod_name b"
  using strcmp_less [of "node_name a" "node_name b"] strcmp_greater [of "node_name a" "node_name b"]
    strcmp_less [of "pod_name a" "pod_name b"] strcmp_greater [of "pod_name a" "pod_name b"]
  by (auto simp: assoc_info_compare_def Let_def)

interpretation node_order: comparison assoc_info_compare
proof
  fix x y z
  show "assoc_info_compare x y \<le> 0 \<or> assoc_info_compare y x \<le> 0"
    unfolding assoc_info_compare_le by (meson linear linorder_less_linear)
  show "assoc_info_compare x y \<le> 0 \<Longrightarrow> assoc_info_compare y z \<le> 0 \<Longrightarrow> assoc_info_compare x z \<le> 0"
    unfolding assoc_info_compare_le by (metis less_trans order_trans)
qed

end
