(* ===== verification/Util.thy ===== *)
theory Util
  imports CString
begin

text \<open>
  The operating-system view of the programs and the helpers of \<open>src/src/libs/util.c\<close> over it:
  the first line of a command's output, writing a banner and a body to a file, reading the first
  line of a file into a buffer or into an allocated block.

  The state is the part of the system the helpers and their callers see: environment variables,
  the contents of files, which paths can be opened for writing, what a shell command prints, and
  the text written to the standard error stream by the table printers (log lines are not
  modelled).
\<close>

section \<open>State\<close>

record os =
  env :: "string \<Rightarrow> string option"
  files :: "string \<Rightarrow> string option"
  can_write :: "string \<Rightarrow> bool"
  shell :: "string \<Rightarrow> string option"
  stderr_text :: string

definition getenv :: "os \<Rightarrow> string \<Rightarrow> string option" where
  "getenv w name = env w name"

definition print_stderr :: "os \<Rightarrow> string \<Rightarrow> os" where
  "print_stderr w s = w\<lparr>stderr_text := stderr_text w @ s\<rparr>"

section \<open>Operations\<close>

text \<open>
  \<open>buf\<close> is the C string the buffer holds before the call; the result is the return value
  and the C string it holds afterwards.  \<open>len\<close> is at least 2 in every call.
\<close>

definition popen_cmd :: "os \<Rightarrow> string \<Rightarrow> string \<Rightarrow> nat \<Rightarrow> int \<times> string" where
  "popen_cmd w cmd buf len =
     (case shell w cmd of
        None \<Rightarrow> (-1, buf)
      | Some out \<Rightarrow>
          (let buf' = (case fgets len out of
                         None \<Rightarrow> buf
                       | Some (line, _) \<Rightarrow> strtok_trim newline (cstr line))
           in (int (length buf'), buf')))"

definition fopen_cmd :: "os \<Rightarrow> string \<Rightarrow> string \<Rightarrow> string \<Rightarrow> os" where
  "fopen_cmd w path banner buffer =
     (if \<not> can_write w path then w
      else w\<lparr>files := (files w)(path \<mapsto> banner @ [newline] @ buffer)\<rparr>)"

text \<open>The result is whether the pointer returned is \<open>buffer\<close> or NULL, and the buffer.\<close>

definition fopen_read :: "os \<Rightarrow> string \<Rightarrow> string \<Rightarrow> nat \<Rightarrow> bool \<times> string" where
  "fopen_read w path buffer sz =
     (case files w path of
        None \<Rightarrow> (False, buffer)
      | Some content \<Rightarrow>
          (case fgets sz content of
             None \<Rightarrow> (False, buffer)
           | Some (line, _) \<Rightarrow> (True, strtok_trim newline (cstr line))))"

text \<open>
  \<open>fopen_read_malloc\<close> returns the whole block it allocated, terminator included: a
  caller may index it behind the end of the C string, where the rest of the file still is.
  \<open>strtok\<close> overwrites the delimiter behind the first line.
\<close>

definition strtok_block :: "char \<Rightarrow> string \<Rightarrow> string" where
  "strtok_block d block =
     (let s = cstr block; t = strtok_trim d s
      in if length t < length s then block[length t := nul] else block)"

definition fopen_read_malloc :: "os \<Rightarrow> string \<Rightarrow> string option" where
  "fopen_read_malloc w path =
     (case files w path of
        None \<Rightarrow> None
      | Some content \<Rightarrow> Some (strtok_block newline (content @ [nul])))"

section \<open>Lines\<close>

lemma strtok_trim_no_delim: "d \<notin> set s \<Longrightarrow> strtok_trim d s = s"
proof (cases s)
  case (Cons c cs)
  assume "d \<notin> set s"
  then have "takeWhile (\<lambda>c. c \<noteq> d) s = s"
    by (intro takeWhile_all) (auto simp: list_all_iff)
  with Cons \<open>d \<notin> set s\<close> show ?thesis by (auto simp: strtok_trim_def)
qed (simp add: strtok_trim_def)

lemma strtok_trim_line:
  assumes "d \<notin> set s" and "s \<noteq> []"
  shows "strtok_trim d (s @ d # t) = s"
proof -
  obtain c cs where s: "s = c # cs" using assms(2) by (cases s) auto
  with assms(1) have "takeWhile (\<lambda>x. x = d) (s @ d # t) = []"
    and "dropWhile (\<lambda>x. x = d) (s @ d # t) = s @ d # t" by auto
  moreover have "takeWhile (\<lambda>x. x \<noteq> d) (s @ d # t) = s"
    using assms(1) by (intro takeWhile_all_append) (auto simp: list_all_iff)
  ultimately show ?thesis by (simp add: strtok_trim_def)
qed

lemma line_upto_line:
  "newline \<notin> set s \<Longrightarrow> length s < n \<Longrightarrow> line_upto n (s @ newline # t) = s @ [newline]"
proof (induction s arbitrary: n)
  case Nil
  then show ?case by (cases n) auto
next
  case (Cons c cs)
  then show ?case by (cases n) auto
qed

lemma line_upto_no_newline: "newline \<notin> set s \<Longrightarrow> length s \<le> n \<Longrightarrow> line_upto n s = s"
proof (induction s arbitrary: n)
  case Nil
  then show ?case by (cases n) auto
next
  case (Cons c cs)
  then show ?case by (cases n) auto
qed

lemma length_line_upto: "length (line_upto n s) \<le> n"
  by (induction n s rule: line_upto.induct) auto

lemma cstr_id: "nul \<notin> set s \<Longrightarrow> cstr s = s"
  unfolding cstr_def by (rule takeWhile_all) (auto simp: list_all_iff)

lemma cstr_le: "length (cstr s) \<le> length s"
  by (simp add: cstr_def length_takeWhile_le)

lemma length_strtok_trim: "length (strtok_trim d s) \<le> length s"
proof -
  have "length (takeWhile (\<lambda>c. c \<noteq> d) (dropWhile (\<lambda>c. c = d) s)) \<le> length (dropWhile (\<lambda>c. c = d) s)"
    by (rule length_takeWhile_le)
  moreover have "length (takeWhile (\<lambda>c. c = d) s) + length (dropWhile (\<lambda>c. c = d) s) = length s"
    by (metis length_append takeWhile_dropWhile_id)
  ultimately show ?thesis by (simp add: strtok_trim_def)
qed

text \<open>What the reader returns fits the buffer, whatever the file holds.\<close>

lemma fopen_read_bound:
  assumes "fopen_read w path [] sz = (ok, buf)" and "0 < sz"
  shows "length buf < sz"
proof (cases "files w path")
  case None
  with assms show ?thesis by (simp add: fopen_read_def)
next
  case (Some content)
  have "length (strtok_trim newline (cstr (line_upto (sz - 1) content))) < sz"
    using length_strtok_trim [of newline "cstr (line_upto (sz - 1) content)"]
      cstr_le [of "line_upto (sz - 1) content"] length_line_upto [of "sz - 1" content] assms(2)
    by linarith
  with assms Some show ?thesis
    by (auto simp: fopen_read_def fgets_def Let_def split: if_splits)
qed

text \<open>A banner written by \<open>fopen_cmd\<close> is read back as the first line of the file.\<close>

lemma fopen_read_banner:
  assumes "can_write w path" and "banner \<noteq> []" and "newline \<notin> set banner" and "nul \<notin> set banner"
    and "length banner + 1 < sz"
  shows "fopen_read (fopen_cmd w path banner body) path buffer sz = (True, banner)"
proof -
  have "line_upto (sz - 1) (banner @ newline # body) = banner @ [newline]"
    using assms(3,5) by (intro line_upto_line) auto
  moreover have "cstr (banner @ [newline]) = banner @ [newline]"
    using assms(4) by (intro cstr_id) (auto simp: nul_def newline_def)
  moreover have "strtok_trim newline (banner @ [newline]) = banner"
    using strtok_trim_line [OF assms(3,2)] .
  ultimately show ?thesis
    using assms(1) by (simp add: fopen_cmd_def fopen_read_def fgets_def Let_def)
qed

lemma strtok_block_line:
  assumes "newline \<notin> set s" and "nul \<notin> set s" and "s \<noteq> []"
  shows "cstr (strtok_block newline (s @ newline # t @ [nul])) = s"
proof -
  have run: "takeWhile (\<lambda>c. c \<noteq> nul) (s @ u) = s @ takeWhile (\<lambda>c. c \<noteq> nul) u" for u
    using assms(2) by (induction s) auto
  have c: "cstr (s @ newline # t @ [nul]) = s @ newline # cstr (t @ [nul])"
    by (simp add: cstr_def run) (simp add: newline_def nul_def)
  have "strtok_trim newline (s @ newline # cstr (t @ [nul])) = s"
    by (rule strtok_trim_line [OF assms(1,3)])
  then have "strtok_block newline (s @ newline # t @ [nul]) = s @ nul # t @ [nul]"
    by (simp add: strtok_block_def c list_update_append)
  then show ?thesis by (simp add: cstr_def run)
qed

end
