(* ===== verification/Fort_Vector.thy ===== *)
theory Fort_Vector
  imports Prelude
begin

text \<open>
  The growable vector of libfort (\<open>vector.c\<close> inside \<open>src/src/libfort/fort.c\<close>), at the
  granularity of items: the data block is a list of slots, one per item of capacity, and an
  uninitialised slot is \<open>None\<close>.  A copy outside the block is a fault, and so is a failed
  \<open>assert\<close>, which aborts the process.

  The argument \<open>mem\<close> of an operation says whether the allocator serves the requests made
  during the call; with \<open>mem = False\<close> every request returns NULL.  A vector whose block was
  lost by a failed \<open>realloc\<close> has no slots.
\<close>

section \<open>Return codes\<close>

definition FT_SUCCESS :: int where "FT_SUCCESS = 0"
definition FT_MEMORY_ERROR :: int where "FT_MEMORY_ERROR = -1"
definition FT_EINVAL :: int where "FT_EINVAL = -2"
definition FT_INTERN_ERROR :: int where "FT_INTERN_ERROR = -3"
definition FT_GEN_ERROR :: int where "FT_GEN_ERROR = -4"

lemmas ft_codes [simp] =
  FT_SUCCESS_def FT_MEMORY_ERROR_def FT_EINVAL_def FT_INTERN_ERROR_def FT_GEN_ERROR_def

definition FT_IS_ERROR :: "int \<Rightarrow> bool" where [simp]: "FT_IS_ERROR st = (st < 0)"

section \<open>State\<close>

record 'a f_vector =
  m_size :: nat
  m_data :: "'a option list"
  m_capacity :: nat
  m_item_size :: nat

text \<open>\<open>memcpy\<close> of items into a block, and \<open>memmove\<close> inside one.\<close>

definition copy_in :: "'a option list \<Rightarrow> nat \<Rightarrow> 'a option list \<Rightarrow> 'a option list option" where
  "copy_in block pos items =
     (if pos + length items \<le> length block
      then Some (take pos block @ items @ drop (pos + length items) block) else None)"

definition copy_out :: "'a option list \<Rightarrow> nat \<Rightarrow> nat \<Rightarrow> 'a option list option" where
  "copy_out block pos n = (if pos + n \<le> length block then Some (take n (drop pos block)) else None)"

definition move_items :: "'a option list \<Rightarrow> nat \<Rightarrow> nat \<Rightarrow> nat \<Rightarrow> 'a option list option" where
  "move_items block dst src n = do { items \<leftarrow> copy_out block src n; copy_in block dst items }"

section \<open>Operations\<close>

definition vector_reallocate :: "bool \<Rightarrow> 'a f_vector \<Rightarrow> nat \<Rightarrow> (int \<times> 'a f_vector) option" where
  "vector_reallocate mem v new_capacity =
     (if \<not> new_capacity > m_capacity v then None
      else if \<not> mem then Some (-1, v\<lparr>m_data := []\<rparr>)
      else Some (0, v\<lparr>m_data := take new_capacity (m_data v)
                       @ replicate (new_capacity - length (m_data v)) None\<rparr>))"

definition create_vector :: "bool \<Rightarrow> nat \<Rightarrow> nat \<Rightarrow> 'a f_vector option" where
  "create_vector mem item_size capacity =
     (if \<not> mem then None
      else Some \<lparr>m_size = 0, m_data = replicate capacity None, m_capacity = capacity,
                 m_item_size = item_size\<rparr>)"

definition vector_size :: "'a f_vector \<Rightarrow> nat" where
  "vector_size v = m_size v"

definition vector_capacity :: "'a f_vector \<Rightarrow> nat" where
  "vector_capacity v = m_capacity v"

definition vector_push :: "bool \<Rightarrow> 'a f_vector \<Rightarrow> 'a \<Rightarrow> (int \<times> 'a f_vector) option" where
  "vector_push mem v item = do {
     (st, v1) \<leftarrow>
       (if m_size v = m_capacity v then do {
          (r, w) \<leftarrow> vector_reallocate mem v (m_capacity v * 2);
          if r = -1 then Some (FT_GEN_ERROR, w)
          else Some (FT_SUCCESS, w\<lparr>m_capacity := m_capacity w * 2\<rparr>)
        } else Some (FT_SUCCESS, v));
     if FT_IS_ERROR st then Some (st, v1)
     else do {
       block \<leftarrow> copy_in (m_data v1) (m_size v1) [Some item];
       Some (FT_SUCCESS, v1\<lparr>m_data := block, m_size := m_size v1 + 1\<rparr>)
     }
   }"

definition vector_insert :: "bool \<Rightarrow> 'a f_vector \<Rightarrow> 'a \<Rightarrow> nat \<Rightarrow> (int \<times> 'a f_vector) option" where
  "vector_insert mem v item pos = do {
     let needed_capacity = max (pos + 1) (m_size v + 1);
     (st, v1) \<leftarrow>
       (if m_capacity v < needed_capacity then do {
          (r, w) \<leftarrow> vector_reallocate mem v needed_capacity;
          if r = -1 then Some (FT_GEN_ERROR, w)
          else Some (FT_SUCCESS, w\<lparr>m_capacity := needed_capacity\<rparr>)
        } else Some (FT_SUCCESS, v));
     if FT_IS_ERROR st then Some (st, v1)
     else if pos \<ge> m_size v1 then do {
       block \<leftarrow> copy_in (m_data v1) pos [Some item];
       Some (FT_SUCCESS, v1\<lparr>m_data := block, m_size := pos + 1\<rparr>)
     } else do {
       moved \<leftarrow> move_items (m_data v1) (pos + 1) pos (m_size v1 - pos);
       block \<leftarrow> copy_in moved pos [Some item];
       Some (FT_SUCCESS, v1\<lparr>m_data := block, m_size := m_size v1 + 1\<rparr>)
     }
   }"

text \<open>The result is NULL or the new vector, with the shortened old one.\<close>

definition vector_split :: "bool \<Rightarrow> 'a f_vector \<Rightarrow> nat \<Rightarrow> ('a f_vector option \<times> 'a f_vector) option" where
  "vector_split mem v pos =
     (let trailing_sz = (if m_size v > pos then m_size v - pos else 0) in
      case create_vector mem (m_item_size v) trailing_sz of
        None \<Rightarrow> Some (None, v)
      | Some new_vector \<Rightarrow>
          if m_capacity new_vector < trailing_sz then Some (None, v)
          else if trailing_sz = 0 then Some (Some new_vector, v)
          else do {
            items \<leftarrow> copy_out (m_data v) pos trailing_sz;
            block \<leftarrow> copy_in (m_data new_vector) 0 items;
            Some (Some (new_vector\<lparr>m_data := block, m_size := trailing_sz\<rparr>), v\<lparr>m_size := pos\<rparr>)
          })"

text \<open>
  \<open>vector_at\<close> returns NULL past the size; the macro \<open>VECTOR_AT\<close> dereferences at once,
  so NULL and an uninitialised slot are the same fault.
\<close>

definition vector_at :: "'a f_vector \<Rightarrow> nat \<Rightarrow> 'a option" where
  "vector_at v index = (if index \<ge> m_size v \<or> index \<ge> length (m_data v) then None else m_data v ! index)"

definition vector_at_c :: "'a f_vector \<Rightarrow> nat \<Rightarrow> 'a option" where
  "vector_at_c v index = (if index \<ge> m_size v \<or> index \<ge> length (m_data v) then None else m_data v ! index)"

definition vector_put :: "'a f_vector \<Rightarrow> nat \<Rightarrow> 'a \<Rightarrow> 'a f_vector option" where
  "vector_put v index x =
     (if index \<ge> m_size v \<or> index \<ge> length (m_data v) then None
      else Some (v\<lparr>m_data := (m_data v)[index := Some x]\<rparr>))"

definition vector_swap ::
  "bool \<Rightarrow> 'a f_vector \<Rightarrow> 'a f_vector \<Rightarrow> nat \<Rightarrow> (int \<times> 'a f_vector \<times> 'a f_vector) option" where
  "vector_swap mem cur_vec mv_vec pos =
     (if m_item_size cur_vec \<noteq> m_item_size mv_vec then None
      else let cur_sz = vector_size cur_vec; mv_sz = vector_size mv_vec in
      if mv_sz = 0 then Some (FT_SUCCESS, cur_vec, mv_vec)
      else do {
        let min_targ_size = pos + mv_sz;
        (st, cur1) \<leftarrow>
          (if vector_capacity cur_vec < min_targ_size then do {
             (r, w) \<leftarrow> vector_reallocate mem cur_vec min_targ_size;
             if r = -1 then Some (FT_GEN_ERROR, w)
             else Some (FT_SUCCESS, w\<lparr>m_capacity := min_targ_size\<rparr>)
           } else Some (FT_SUCCESS, cur_vec));
        if FT_IS_ERROR st then Some (st, cur1, mv_vec)
        else if cur_sz > pos \<and> \<not> mem then Some (FT_MEMORY_ERROR, cur1, mv_vec)
        else do {
          let new_mv_sz = (if cur_sz > pos then min (cur_sz - pos) mv_sz else 0);
          tmp \<leftarrow> copy_out (m_data cur1) pos new_mv_sz;
          mv_items \<leftarrow> copy_out (m_data mv_vec) 0 mv_sz;
          cur_block \<leftarrow> copy_in (m_data cur1) pos mv_items;
          mv_block \<leftarrow> copy_in (m_data mv_vec) 0 tmp;
          Some (FT_SUCCESS,
                cur1\<lparr>m_data := cur_block, m_size := max (m_size cur1) min_targ_size\<rparr>,
                mv_vec\<lparr>m_data := mv_block, m_size := new_mv_sz\<rparr>)
        }
      })"

definition vector_clear :: "'a f_vector \<Rightarrow> 'a f_vector" where
  "vector_clear v = v\<lparr>m_size := 0\<rparr>"

definition vector_erase :: "'a f_vector \<Rightarrow> nat \<Rightarrow> (int \<times> 'a f_vector) option" where
  "vector_erase v index =
     (if m_size v = 0 \<or> index \<ge> m_size v then Some (FT_GEN_ERROR, v)
      else do {
        block \<leftarrow> move_items (m_data v) index (index + 1) (m_size v - 1 - index);
        Some (FT_SUCCESS, v\<lparr>m_data := block, m_size := m_size v - 1\<rparr>)
      })"

section \<open>The sequence of slots a vector holds\<close>

text \<open>
  What the rest of the library sees of a vector: its slots, in order.  A slot is \<open>None\<close> when
  it lies inside the size but was never written, which only \<open>vector_insert\<close> and
  \<open>vector_swap\<close> behind the end produce.  The operations on slot lists are those the
  theories above use; each vector operation is shown to implement its list operation.
\<close>

type_synonym 'a slots = "'a option list"

definition slot_at :: "'a slots \<Rightarrow> nat \<Rightarrow> 'a option" where
  "slot_at s i = (if i < length s then s ! i else None)"

definition pad_slots :: "'a slots \<Rightarrow> nat \<Rightarrow> 'a slots" where
  "pad_slots s n = s @ replicate (n - length s) None"

definition seq_push :: "'a slots \<Rightarrow> 'a \<Rightarrow> 'a slots" where
  "seq_push s x = s @ [Some x]"

definition seq_insert :: "'a slots \<Rightarrow> 'a \<Rightarrow> nat \<Rightarrow> 'a slots" where
  "seq_insert s x pos = take pos (pad_slots s pos) @ Some x # drop pos s"

definition seq_split :: "'a slots \<Rightarrow> nat \<Rightarrow> 'a slots \<times> 'a slots" where
  "seq_split s pos = (drop pos s, take pos s)"

definition seq_swap :: "'a slots \<Rightarrow> 'a slots \<Rightarrow> nat \<Rightarrow> 'a slots \<times> 'a slots" where
  "seq_swap cur mv pos =
     (if mv = [] then (cur, mv)
      else (take pos (pad_slots cur pos) @ mv @ drop (pos + length mv) cur,
            take (length mv) (drop pos cur)))"

definition seq_erase :: "'a slots \<Rightarrow> nat \<Rightarrow> int \<times> 'a slots" where
  "seq_erase s i = (if i \<ge> length s then (FT_GEN_ERROR, s)
     else (FT_SUCCESS, take i s @ drop (Suc i) s))"

definition vec_rep :: "'a f_vector \<Rightarrow> 'a slots \<Rightarrow> bool" where
  "vec_rep v s \<longleftrightarrow> length (m_data v) = m_capacity v \<and> m_size v \<le> m_capacity v \<and> 0 < m_capacity v
     \<and> take (m_size v) (m_data v) = s"

lemma vec_repE:
  assumes "vec_rep v s"
  obtains free where "m_data v = s @ free" "m_size v = length s"
    "m_capacity v = length s + length free" "0 < m_capacity v"
proof -
  from assms have len: "m_size v = length s" by (auto simp: vec_rep_def)
  have "m_data v = s @ drop (m_size v) (m_data v)" using assms by (auto simp: vec_rep_def)
  moreover have "m_capacity v = length s + length (drop (m_size v) (m_data v))"
    using assms len by (auto simp: vec_rep_def)
  ultimately show thesis using assms that len by (auto simp: vec_rep_def)
qed

lemma vec_repI:
  "m_data v = s @ free \<Longrightarrow> m_size v = length s \<Longrightarrow>
   length (m_data v) = m_capacity v \<Longrightarrow> 0 < m_capacity v \<Longrightarrow> vec_rep v s"
  by (auto simp: vec_rep_def)

lemma create_vector_rep:
  "0 < c \<Longrightarrow> \<exists>v. create_vector True sz c = Some v \<and> vec_rep v [] \<and> m_item_size v = sz"
  by (auto simp: create_vector_def vec_rep_def)

lemma vector_size_rep [simp]: "vec_rep v s \<Longrightarrow> vector_size v = length s"
  by (auto simp: vector_size_def elim: vec_repE)

lemma vector_at_rep: "vec_rep v s \<Longrightarrow> vector_at v i = slot_at s i"
  by (auto simp: vector_at_def slot_at_def nth_append elim!: vec_repE)

lemma vector_push_rep:
  assumes "vec_rep v s"
  shows "\<exists>v'. vector_push True v x = Some (FT_SUCCESS, v') \<and> vec_rep v' (seq_push s x)"
proof -
  obtain free where v: "m_data v = s @ free" "m_size v = length s"
      "m_capacity v = length s + length free" "0 < m_capacity v"
    using assms by (rule vec_repE)
  show ?thesis
  proof (cases free)
    case Nil
    with v obtain n where n: "length s = Suc n" by (cases s) auto
    with v Nil show ?thesis
      by (auto simp: vector_push_def vector_reallocate_def copy_in_def vec_rep_def seq_push_def)
  next
    case (Cons f fs)
    with v show ?thesis
      by (auto simp: vector_push_def copy_in_def vec_rep_def seq_push_def)
  qed
qed

text \<open>Growing a vector to hold \<open>n\<close> items, as insertion and swapping do first.\<close>

lemma grow_rep:
  assumes "vec_rep v s"
  shows "\<exists>w free. (if m_capacity v < n then do {
          (r, w) \<leftarrow> vector_reallocate True v n;
          if r = -1 then Some (FT_GEN_ERROR, w) else Some (FT_SUCCESS, w\<lparr>m_capacity := n\<rparr>)
        } else Some (FT_SUCCESS, v)) = Some (FT_SUCCESS, w)
     \<and> m_data w = s @ free \<and> m_size w = length s \<and> length s + length free = m_capacity w
     \<and> n \<le> m_capacity w \<and> 0 < m_capacity w \<and> m_item_size w = m_item_size v"
proof -
  obtain free where v: "m_data v = s @ free" "m_size v = length s"
      "m_capacity v = length s + length free" "0 < m_capacity v"
    using assms by (rule vec_repE)
  then show ?thesis
    by (cases "m_capacity v < n") (auto simp: vector_reallocate_def)
qed

lemma seq_insert_end: "length s \<le> pos \<Longrightarrow> seq_insert s x pos = pad_slots s pos @ [Some x]"
  by (simp add: seq_insert_def pad_slots_def)

lemma seq_insert_inside: "pos \<le> length s \<Longrightarrow> seq_insert s x pos = take pos s @ Some x # drop pos s"
  by (simp add: seq_insert_def pad_slots_def)

text \<open>
  Inside the size the implementation is exact.  Behind the end it leaves the slots in between as
  they are in the block, so what they hold is not determined by the sequence.
\<close>

lemma vector_insert_rep:
  assumes "vec_rep v s" and "pos \<le> length s"
  shows "\<exists>v'. vector_insert True v x pos = Some (FT_SUCCESS, v') \<and> vec_rep v' (seq_insert s x pos)"
proof -
  let ?n = "max (pos + 1) (m_size v + 1)"
  have sz: "m_size v = length s" using assms(1) by (auto elim: vec_repE)
  obtain w free where w: "(if m_capacity v < ?n then do {
          (r, w) \<leftarrow> vector_reallocate True v ?n;
          if r = -1 then Some (FT_GEN_ERROR, w) else Some (FT_SUCCESS, w\<lparr>m_capacity := ?n\<rparr>)
        } else Some (FT_SUCCESS, v)) = Some (FT_SUCCESS, w)"
      "m_data w = s @ free" "m_size w = length s" "length s + length free = m_capacity w"
      "?n \<le> m_capacity w" "0 < m_capacity w"
    using grow_rep [OF assms(1), of ?n] by blast
  have room: "Suc (length s) \<le> length s + length free" using w(4,5) assms(2) sz by simp
  then obtain f fs where free: "free = f # fs" by (cases free) auto
  show ?thesis
  proof (cases "pos = length s")
    case True
    then show ?thesis
      using w free unfolding vector_insert_def Let_def
      by (auto simp: copy_in_def vec_rep_def seq_insert_inside)
  next
    case False
    with assms(2) have lt: "pos < length s" by simp
    have "move_items (s @ free) (pos + 1) pos (length s - pos) =
        Some (take (pos + 1) s @ drop pos s @ fs)"
      using lt free by (simp add: move_items_def copy_out_def copy_in_def)
    moreover have "copy_in (take (pos + 1) s @ drop pos s @ fs) pos [Some x] =
        Some (take pos s @ Some x # drop pos s @ fs)"
      using lt by (simp add: copy_in_def min_def) arith
    ultimately show ?thesis
      using w lt free unfolding vector_insert_def Let_def
      by (auto simp: vec_rep_def seq_insert_inside Suc_diff_le)
  qed
qed

lemma vector_split_rep:
  assumes "vec_rep v s" and "pos < length s"
  shows "\<exists>t v'. vector_split True v pos = Some (Some t, v')
     \<and> vec_rep t (fst (seq_split s pos)) \<and> vec_rep v' (snd (seq_split s pos))"
proof -
  obtain free where v: "m_data v = s @ free" "m_size v = length s"
      "m_capacity v = length s + length free" "0 < m_capacity v"
    using assms(1) by (rule vec_repE)
  let ?n = "length s - pos"
  let ?t = "\<lparr>m_size = ?n, m_data = drop pos s, m_capacity = ?n, m_item_size = m_item_size v\<rparr>"
  have "vector_split True v pos = Some (Some ?t, v\<lparr>m_size := pos\<rparr>)"
    using v assms(2) by (simp add: vector_split_def create_vector_def copy_out_def copy_in_def Let_def)
  moreover have "vec_rep ?t (drop pos s)" using assms(2) by (simp add: vec_rep_def)
  moreover have "vec_rep (v\<lparr>m_size := pos\<rparr>) (take pos s)" using v assms(2) by (simp add: vec_rep_def)
  ultimately show ?thesis by (auto simp: seq_split_def)
qed

lemma vector_erase_rep:
  assumes "vec_rep v s"
  shows "\<exists>v'. vector_erase v i = Some (fst (seq_erase s i), v') \<and> vec_rep v' (snd (seq_erase s i))"
proof -
  obtain free where v: "m_data v = s @ free" "m_size v = length s"
      "m_capacity v = length s + length free" "0 < m_capacity v"
    using assms by (rule vec_repE)
  show ?thesis
  proof (cases "i < length s")
    case True
    have "move_items (s @ free) i (i + 1) (length s - 1 - i) =
        Some (take i s @ drop (Suc i) s @ drop (length s - 1) (s @ free))"
      using True by (simp add: move_items_def copy_out_def copy_in_def min_def)
    with v True show ?thesis
      by (auto simp: vector_erase_def seq_erase_def vec_rep_def)
  next
    case False
    with v assms show ?thesis by (auto simp: vector_erase_def seq_erase_def)
  qed
qed

lemma vector_clear_rep: "vec_rep v s \<Longrightarrow> vec_rep (vector_clear v) []"
  by (auto simp: vec_rep_def vector_clear_def)

lemma vector_swap_rep:
  assumes "vec_rep v s" and "vec_rep u t" and "m_item_size v = m_item_size u" and "pos \<le> length s"
  shows "\<exists>v' u'. vector_swap True v u pos = Some (FT_SUCCESS, v', u')
     \<and> vec_rep v' (fst (seq_swap s t pos)) \<and> vec_rep u' (snd (seq_swap s t pos))"
proof (cases "t = []")
  case True
  with assms show ?thesis by (auto simp: vector_swap_def seq_swap_def)
next
  case False
  let ?n = "pos + length t"
  obtain w free where w: "(if m_capacity v < ?n then do {
          (r, w) \<leftarrow> vector_reallocate True v ?n;
          if r = -1 then Some (FT_GEN_ERROR, w) else Some (FT_SUCCESS, w\<lparr>m_capacity := ?n\<rparr>)
        } else Some (FT_SUCCESS, v)) = Some (FT_SUCCESS, w)"
      "m_data w = s @ free" "m_size w = length s" "length s + length free = m_capacity w"
      "?n \<le> m_capacity w" "0 < m_capacity w"
    using grow_rep [OF assms(1), of ?n] by blast
  obtain free' where u: "m_data u = t @ free'" "m_size u = length t"
      "m_capacity u = length t + length free'" "0 < m_capacity u"
    using assms(2) by (rule vec_repE)
  let ?k = "min (length s - pos) (length t)"
  have k: "(if length s > pos then min (length s - pos) (length t) else 0) = ?k" by simp
  have out: "copy_out (s @ free) pos ?k = Some (take (length t) (drop pos s))"
    using w(4,5) by (auto simp: copy_out_def min_def)
  have cur: "copy_in (s @ free) pos t = Some (take pos s @ t @ drop ?n (s @ free))"
    using w(4,5) assms(4) by (simp add: copy_in_def)
  have mv: "copy_in (t @ free') 0 (take (length t) (drop pos s)) =
      Some (take (length t) (drop pos s) @ drop (length (take (length t) (drop pos s))) (t @ free'))"
    by (simp add: copy_in_def)
  have tk: "copy_out (t @ free') 0 (length t) = Some t" by (simp add: copy_out_def)
  let ?v' = "w\<lparr>m_data := take pos s @ t @ drop ?n (s @ free), m_size := max (length s) ?n\<rparr>"
  let ?u' = "u\<lparr>m_data := take (length t) (drop pos s) @ drop (length (take (length t) (drop pos s))) (t @ free'),
      m_size := ?k\<rparr>"
  have "vector_swap True v u pos = Some (FT_SUCCESS, ?v', ?u')"
    using w(1-3) u(1,2) assms False out cur mv tk k
    by (simp add: vector_swap_def vector_capacity_def Let_def split: if_splits)
  moreover have "vec_rep ?v' (fst (seq_swap s t pos))"
    using w(2-6) assms(4) False
    by (auto simp: vec_rep_def seq_swap_def pad_slots_def max_def min_def)
  moreover have "vec_rep ?u' (snd (seq_swap s t pos))"
    using u assms(4) False by (auto simp: vec_rep_def seq_swap_def min_def)
  ultimately show ?thesis by blast
qed

section \<open>The interface of a growable sequence\<close>

text \<open>
  The contract the rows and tables rely on, stated for the implementation and for the list model
  alike: \<open>rep\<close> relates a container to the slots it holds.  The two loops of the library that
  fill a container are proved once, inside.
\<close>

locale growable =
  fixes rep :: "'v \<Rightarrow> 'a slots \<Rightarrow> bool"
    and push :: "'v \<Rightarrow> 'a \<Rightarrow> 'v option"
    and insert_at :: "'v \<Rightarrow> 'a \<Rightarrow> nat \<Rightarrow> 'v option"
  assumes push_rep: "rep v s \<Longrightarrow> \<exists>v'. push v x = Some v' \<and> rep v' (s @ [Some x])"
    and insert_rep: "rep v s \<Longrightarrow> pos \<le> length s \<Longrightarrow>
      \<exists>v'. insert_at v x pos = Some v' \<and> rep v' (take pos s @ Some x # drop pos s)"
begin

fun push_all :: "'v \<Rightarrow> 'a list \<Rightarrow> 'v option" where
  "push_all v [] = Some v"
| "push_all v (x # xs) = do { v' \<leftarrow> push v x; push_all v' xs }"

fun insert_all :: "'v \<Rightarrow> 'a list \<Rightarrow> nat \<Rightarrow> 'v option" where
  "insert_all v [] pos = Some v"
| "insert_all v (x # xs) pos = do { v' \<leftarrow> insert_at v x pos; insert_all v' xs (Suc pos) }"

lemma push_all_rep: "rep v s \<Longrightarrow> \<exists>v'. push_all v xs = Some v' \<and> rep v' (s @ map Some xs)"
proof (induction xs arbitrary: v s)
  case (Cons x xs)
  obtain v1 where v1: "push v x = Some v1" "rep v1 (s @ [Some x])"
    using push_rep [OF Cons.prems] by blast
  show ?case using v1(1) Cons.IH [OF v1(2)] by simp
qed simp

lemma insert_all_rep:
  "rep v s \<Longrightarrow> pos \<le> length s \<Longrightarrow>
   \<exists>v'. insert_all v xs pos = Some v' \<and> rep v' (take pos s @ map Some xs @ drop pos s)"
proof (induction xs arbitrary: v s pos)
  case (Cons x xs)
  obtain v1 where v1: "insert_at v x pos = Some v1" "rep v1 (take pos s @ Some x # drop pos s)"
    using insert_rep [OF Cons.prems] by blast
  have "Suc pos \<le> length (take pos s @ Some x # drop pos s)" using Cons.prems(2) by simp
  from Cons.IH [OF v1(2) this] v1(1) Cons.prems(2) show ?case by simp
qed auto

end

definition push_ok :: "'a f_vector \<Rightarrow> 'a \<Rightarrow> 'a f_vector option" where
  "push_ok v x = do { (st, v') \<leftarrow> vector_push True v x; if FT_IS_ERROR st then None else Some v' }"

definition insert_ok :: "'a f_vector \<Rightarrow> 'a \<Rightarrow> nat \<Rightarrow> 'a f_vector option" where
  "insert_ok v x pos = do { (st, v') \<leftarrow> vector_insert True v x pos; if FT_IS_ERROR st then None else Some v' }"

interpretation vec: growable vec_rep push_ok insert_ok
proof
  fix v :: "'a f_vector" and s :: "'a slots" and x :: 'a and pos :: nat
  assume r: "vec_rep v s"
  show "\<exists>v'. push_ok v x = Some v' \<and> vec_rep v' (s @ [Some x])"
    using vector_push_rep [OF r, of x] by (auto simp: push_ok_def seq_push_def)
  assume "pos \<le> length s"
  from vector_insert_rep [OF r this, of x] this
  show "\<exists>v'. insert_ok v x pos = Some v' \<and> vec_rep v' (take pos s @ Some x # drop pos s)"
    by (auto simp: insert_ok_def seq_insert_inside)
qed

interpretation seq: growable "\<lambda>s t. s = t" "\<lambda>s x. Some (seq_push s x)" "\<lambda>s x pos. Some (seq_insert s x pos)"
  by unfold_locales (simp_all add: seq_push_def seq_insert_inside)

end
