(* ===== verification/Fort_String.thy ===== *)
theory Fort_String
  imports CString Fort_Vector
begin

text \<open>
  Strings of libfort (\<open>string_buffer.c\<close> and \<open>fort_utils.c\<close> inside
  \<open>src/src/libfort/fort.c\<close>): lines and columns of a text, string buffers, and the bounded
  output into the conversion buffer.

  The buffers here are of the type \<open>CHAR_BUF\<close>, the only one the programs of the repository
  create; Fort\_Text has those of the other types.  Sizes of objects in memory are
  natural numbers, and from here on the allocator serves every request; the vectors below show what happens when it does not.
\<close>

section \<open>Lines and columns\<close>

definition g_col_separator :: char where "g_col_separator = CHR ''|''"

text \<open>
  \<open>strchr\<close> for a character other than NUL: the suffix that starts with it.  The functions of
  this section exist twice in the code, over \<open>char\<close> and over \<open>wchar_t\<close>; here the type of a
  character is a parameter.
\<close>

definition strchr :: "'a list \<Rightarrow> 'a \<Rightarrow> 'a list option" where
  "strchr s c = (case dropWhile (\<lambda>x. x \<noteq> c) s of [] \<Rightarrow> None | t \<Rightarrow> Some t)"

lemma strchr_Nil [simp]: "strchr [] c = None"
  by (simp add: strchr_def)

lemma strchr_Cons [simp]: "strchr (x # xs) c = (if x = c then Some (x # xs) else strchr xs c)"
  by (simp add: strchr_def)

lemma strchr_shorter: "strchr s c = Some (x # t) \<Longrightarrow> length t < length s"
  by (induction s) (auto split: if_splits)

lemma strchr_SomeD: "strchr s c = Some t \<Longrightarrow> t = c # tl t"
  by (induction s) (auto split: if_splits)

function strchr_count :: "'a list \<Rightarrow> 'a \<Rightarrow> nat" where
  "strchr_count str ch =
     (case strchr str ch of
        Some (x # rest) \<Rightarrow> 1 + strchr_count rest ch
      | _ \<Rightarrow> 0)"
  by pat_completeness auto

termination
  by (relation "measure (\<lambda>(s, _). length s)") (auto dest: strchr_shorter)

declare strchr_count.simps [simp del]

text \<open>The loop of \<open>columns_number_in_fmt_string\<close> counts in the same way.\<close>

function separators_from :: "'a \<Rightarrow> 'a list \<Rightarrow> nat \<Rightarrow> nat" where
  "separators_from sep pos separator_counter =
     (case strchr pos sep of
        Some (x # rest) \<Rightarrow> separators_from sep rest (separator_counter + 1)
      | _ \<Rightarrow> separator_counter)"
  by pat_completeness auto

termination
  by (relation "measure (\<lambda>(_, s, _). length s)") (auto dest: strchr_shorter)

declare separators_from.simps [simp del]

definition columns_number_in_fmt_string :: "string \<Rightarrow> nat" where
  "columns_number_in_fmt_string fmt = separators_from g_col_separator fmt 0 + 1"

primrec substring_loop :: "'a \<Rightarrow> nat \<Rightarrow> 'a list option \<Rightarrow> 'a list option" where
  "substring_loop c 0 str = map_option tl str"
| "substring_loop c (Suc n) str =
     (case str of None \<Rightarrow> None | Some p \<Rightarrow> substring_loop c n (strchr (tl p) c))"

definition str_n_substring_beg :: "'a list \<Rightarrow> 'a \<Rightarrow> nat \<Rightarrow> 'a list option" where
  "str_n_substring_beg str ch_separator n =
     (case n of 0 \<Rightarrow> Some str | Suc m \<Rightarrow> substring_loop ch_separator m (strchr str ch_separator))"

text \<open>\<open>None\<close> when both pointers are NULL, otherwise the characters from \<open>begin\<close> to \<open>end\<close>.\<close>

definition str_n_substring :: "'a list \<Rightarrow> 'a \<Rightarrow> nat \<Rightarrow> 'a list option" where
  "str_n_substring str ch_separator n =
     (case str_n_substring_beg str ch_separator n of
        None \<Rightarrow> None
      | Some beg \<Rightarrow>
          (case strchr beg ch_separator of
             None \<Rightarrow> Some beg
           | Some en \<Rightarrow> Some (take (length beg - length en) beg)))"

section \<open>The lines of a text\<close>

fun split_on :: "'a \<Rightarrow> 'a list \<Rightarrow> 'a list list" where
  "split_on c [] = [[]]"
| "split_on c (x # xs) =
     (if x = c then [] # split_on c xs
      else (case split_on c xs of [] \<Rightarrow> [[x]] | l # ls \<Rightarrow> (x # l) # ls))"

lemma split_on_nonempty [simp]: "split_on c s \<noteq> []"
  by (cases s) (auto split: list.splits)

lemma length_split_on_pos [simp]: "0 < length (split_on c s)"
  by (metis length_greater_0_conv split_on_nonempty)

lemma split_on_strchr_None: "strchr s c = None \<Longrightarrow> split_on c s = [s]"
  by (induction s) (auto split: if_splits)

lemma split_on_strchr:
  "strchr s c = Some (x # rest) \<Longrightarrow>
   split_on c s = take (length s - length (x # rest)) s # split_on c rest \<and> x = c"
proof (induction s)
  case (Cons y ys)
  show ?case
  proof (cases "y = c")
    case False
    with Cons.prems have IH: "split_on c ys = take (length ys - length (x # rest)) ys # split_on c rest \<and> x = c"
      and le: "length rest < length ys" using Cons.IH strchr_shorter by auto
    then have "take (length (y # ys) - length (x # rest)) (y # ys) = y # take (length ys - length (x # rest)) ys"
      by (simp add: Suc_diff_Suc [symmetric] take_Cons')
    with IH False show ?thesis by simp
  qed (use Cons.prems in auto)
qed simp

lemma strchr_cases:
  fixes s :: "'a list" and c :: 'a
  obtains "strchr s c = None" "split_on c s = [s]"
  | rest where "strchr s c = Some (c # rest)" "length rest < length s"
      "split_on c s = take (length s - Suc (length rest)) s # split_on c rest"
proof (cases "strchr s c")
  case None
  then show thesis by (intro that(1) split_on_strchr_None)
next
  case (Some t)
  then obtain rest where t: "strchr s c = Some (c # rest)" by (metis strchr_SomeD)
  then show thesis using that(2) split_on_strchr [OF t] strchr_shorter [OF t] by simp
qed

lemma strchr_count_split: "Suc (strchr_count s c) = length (split_on c s)"
proof (induction s c rule: strchr_count.induct)
  case (1 s c)
  show ?case
  proof (rule strchr_cases [of s c])
    fix rest
    assume r: "strchr s c = Some (c # rest)" "split_on c s = take (length s - Suc (length rest)) s # split_on c rest"
    then have "strchr_count s c = Suc (strchr_count rest c)" by (simp add: strchr_count.simps [of s c])
    then show ?thesis using "1.IH" [OF r(1) refl] r(2) by simp
  qed (simp add: strchr_count.simps [of s c])
qed

lemma separators_from_split: "Suc (separators_from c s k) = k + length (split_on c s)"
proof (induction c s k rule: separators_from.induct)
  case (1 c s k)
  show ?case
  proof (rule strchr_cases [of s c])
    fix rest
    assume r: "strchr s c = Some (c # rest)"
      "split_on c s = take (length s - Suc (length rest)) s # split_on c rest"
    then have "separators_from c s k = separators_from c rest (k + 1)" by (simp add: separators_from.simps [of c s k])
    then show ?thesis using "1.IH" [OF r(1) refl] r(2) by simp
  qed (simp add: separators_from.simps [of c s k])
qed

lemma columns_number_split: "columns_number_in_fmt_string s = length (split_on g_col_separator s)"
  using separators_from_split [of g_col_separator s 0] by (simp add: columns_number_in_fmt_string_def)

lemma substring_beg_split:
  "(case str_n_substring_beg s c n of None \<Rightarrow> [] | Some t \<Rightarrow> split_on c t) = drop n (split_on c s)"
proof (induction n arbitrary: s)
  case 0
  then show ?case by (simp add: str_n_substring_beg_def)
next
  case (Suc n)
  show ?case
  proof (rule strchr_cases [of s c])
    assume "strchr s c = None" "split_on c s = [s]"
    then show ?thesis by (cases n) (simp_all add: str_n_substring_beg_def)
  next
    fix rest
    assume r: "strchr s c = Some (c # rest)" "split_on c s = take (length s - Suc (length rest)) s # split_on c rest"
    then have "str_n_substring_beg s c (Suc n) = str_n_substring_beg rest c n"
      by (cases n) (simp_all add: str_n_substring_beg_def)
    with Suc.IH [of rest] r(2) show ?thesis by simp
  qed
qed

lemma hd_split_on: "hd (split_on c s) = takeWhile (\<lambda>x. x \<noteq> c) s"
  by (induction s) (auto split: list.splits)

lemma substring_split:
  "str_n_substring s c n = (if n < length (split_on c s) then Some (split_on c s ! n) else None)"
proof (cases "str_n_substring_beg s c n")
  case None
  then have "drop n (split_on c s) = []" using substring_beg_split [where s = s and c = c and n = n] by simp
  with None show ?thesis by (simp add: str_n_substring_def)
next
  case (Some t)
  then have d: "split_on c t = drop n (split_on c s)" using substring_beg_split [where s = s and c = c and n = n] by simp
  then have n: "n < length (split_on c s)"
    by (metis drop_eq_Nil linorder_not_less split_on_nonempty)
  have "str_n_substring s c n = Some (hd (split_on c t))"
    by (rule strchr_cases [of t c]) (use Some in \<open>auto simp: str_n_substring_def\<close>)
  also have "hd (split_on c t) = split_on c s ! n"
    using d n by (simp add: hd_drop_conv_nth)
  finally show ?thesis using n by simp
qed

lemma length_split_on_le: "length (split_on c s) \<le> Suc (length s)"
  by (induction s) (auto split: list.splits)

section \<open>String buffers\<close>

text \<open>\<open>sb_str\<close> is \<open>None\<close> while the block is uninitialised.\<close>

record f_string_buffer =
  sb_str :: "string option"
  data_sz :: nat

definition DEFAULT_STR_BUF_SIZE :: nat where "DEFAULT_STR_BUF_SIZE = 1024"

definition create_string_buffer :: "nat \<Rightarrow> f_string_buffer" where
  "create_string_buffer n_chars =
     (let sz = n_chars * 1 in \<lparr>sb_str = (if sz \<noteq> 0 then Some [] else None), data_sz = sz\<rparr>)"

definition fill_buffer_from_string :: "f_string_buffer \<Rightarrow> string \<Rightarrow> int \<times> f_string_buffer" where
  "fill_buffer_from_string buffer str = (FT_SUCCESS, buffer\<lparr>sb_str := Some str\<rparr>)"

definition copy_string_buffer :: "f_string_buffer \<Rightarrow> f_string_buffer option" where
  "copy_string_buffer buffer = do {
     s \<leftarrow> sb_str buffer;
     Some (snd (fill_buffer_from_string (create_string_buffer (data_sz buffer)) s))
   }"

definition realloc_string_buffer_without_copy :: "f_string_buffer \<Rightarrow> int \<times> f_string_buffer" where
  "realloc_string_buffer_without_copy buffer =
     (FT_SUCCESS, \<lparr>sb_str = None, data_sz = data_sz buffer * 2\<rparr>)"

definition string_buffer_width_capacity :: "f_string_buffer \<Rightarrow> nat" where
  "string_buffer_width_capacity buffer = data_sz buffer"

definition string_buffer_raw_capacity :: "f_string_buffer \<Rightarrow> nat" where
  "string_buffer_raw_capacity buffer = data_sz buffer"

definition buffer_text_visible_height :: "f_string_buffer \<Rightarrow> nat option" where
  "buffer_text_visible_height buffer = do {
     s \<leftarrow> sb_str buffer;
     Some (if length s = 0 then 0 else 1 + strchr_count s newline)
   }"

function visible_width_loop :: "string \<Rightarrow> nat \<Rightarrow> nat \<Rightarrow> nat" where
  "visible_width_loop s n max_length =
     (case str_n_substring s newline n of
        None \<Rightarrow> max_length
      | Some line \<Rightarrow> visible_width_loop s (n + 1) (max max_length (length line)))"
  by pat_completeness auto

termination
proof (relation "measure (\<lambda>(s, n, _). Suc (length s) - n)")
  fix s :: string and n mx :: nat and line
  assume "str_n_substring s newline n = Some line"
  then have "n < length (split_on newline s)" by (auto simp: substring_split split: if_splits)
  then show "((s, n + 1, max mx (length line)), (s, n, mx)) \<in> measure (\<lambda>(s, n, _). Suc (length s) - n)"
    using length_split_on_le [of newline s] by simp
qed simp

declare visible_width_loop.simps [simp del]

definition buffer_text_visible_width :: "f_string_buffer \<Rightarrow> nat option" where
  "buffer_text_visible_width buffer = do { s \<leftarrow> sb_str buffer; Some (visible_width_loop s 0 0) }"

definition buffer_substring :: "f_string_buffer \<Rightarrow> nat \<Rightarrow> string option option" where
  "buffer_substring buffer buffer_row = do { s \<leftarrow> sb_str buffer; Some (str_n_substring s newline buffer_row) }"

text \<open>The doubling loop of the callers; a size of 0 would never grow.\<close>

function grow_buffer :: "nat \<Rightarrow> f_string_buffer \<Rightarrow> f_string_buffer option" where
  "grow_buffer need buffer =
     (if string_buffer_width_capacity buffer \<ge> need then Some buffer
      else if data_sz buffer = 0 then None
      else grow_buffer need (snd (realloc_string_buffer_without_copy buffer)))"
  by pat_completeness auto

termination
  by (relation "measure (\<lambda>(need, b). need - data_sz b)")
    (auto simp: string_buffer_width_capacity_def realloc_string_buffer_without_copy_def)

declare grow_buffer.simps [simp del]

lemma grow_buffer_Some:
  "0 < data_sz b \<Longrightarrow> \<exists>b'. grow_buffer need b = Some b' \<and> need \<le> data_sz b'
     \<and> (b' = b \<or> data_sz b' < 2 * need \<and> sb_str b' = None)"
proof (induction need b rule: grow_buffer.induct)
  case (1 need b)
  show ?case
  proof (cases "data_sz b \<ge> need")
    case True
    then show ?thesis by (simp add: grow_buffer.simps [of need b] string_buffer_width_capacity_def)
  next
    case False
    let ?b = "snd (realloc_string_buffer_without_copy b)"
    have step: "grow_buffer need b = grow_buffer need ?b"
      using False "1.prems" by (simp add: grow_buffer.simps [of need b] string_buffer_width_capacity_def)
    have "0 < data_sz ?b" "data_sz ?b < 2 * need" "sb_str ?b = None"
      using False "1.prems" by (simp_all add: realloc_string_buffer_without_copy_def)
    with "1.IH" False "1.prems" step show ?thesis
      by (auto simp: string_buffer_width_capacity_def)
  qed
qed

definition text_width :: "string \<Rightarrow> nat" where
  "text_width s = fold max (map length (split_on newline s)) 0"

lemma visible_width_split:
  "n \<le> length (split_on newline s) \<Longrightarrow>
   visible_width_loop s n mx = fold max (map length (drop n (split_on newline s))) mx"
proof (induction s n mx rule: visible_width_loop.induct)
  case (1 s n mx)
  show ?case
  proof (cases "n < length (split_on newline s)")
    case True
    let ?line = "split_on newline s ! n"
    have st: "str_n_substring s newline n = Some ?line" using True by (simp add: substring_split)
    have "visible_width_loop s n mx = visible_width_loop s (n + 1) (max mx (length ?line))"
      by (simp add: visible_width_loop.simps [of s n mx] st)
    also have "\<dots> = fold max (map length (drop (n + 1) (split_on newline s))) (max mx (length ?line))"
      using "1.IH" [OF st] True by simp
    also have "\<dots> = fold max (map length (drop n (split_on newline s))) mx"
      using True by (simp add: Cons_nth_drop_Suc [symmetric] max.commute)
    finally show ?thesis .
  next
    case False
    then show ?thesis
      by (simp add: visible_width_loop.simps [of s n mx] substring_split)
  qed
qed

lemma text_width_loop: "visible_width_loop s 0 0 = text_width s"
  by (simp add: visible_width_split text_width_def)

lemma fold_max_ge: "(m::nat) \<le> fold max xs m" "x \<in> set xs \<Longrightarrow> x \<le> fold max xs m"
proof (induction xs arbitrary: m)
  case (Cons y ys)
  { case 1
    have "m \<le> max y m" by simp
    also have "\<dots> \<le> fold max ys (max y m)" by (rule Cons.IH(1))
    finally show ?case by simp }
  { case 2
    show ?case
    proof (cases "x = y")
      case True
      have "x \<le> max y m" using True by simp
      also have "\<dots> \<le> fold max ys (max y m)" by (rule Cons.IH(1))
      finally show ?thesis by simp
    next
      case False
      with 2 Cons.IH(2) show ?thesis by simp
    qed }
qed simp_all

lemma fold_max_le: "(m::nat) \<le> b \<Longrightarrow> (\<And>x. x \<in> set xs \<Longrightarrow> x \<le> b) \<Longrightarrow> fold max xs m \<le> b"
  by (induction xs arbitrary: m) simp_all

lemma text_width_ge: "l \<in> set (split_on newline s) \<Longrightarrow> length l \<le> text_width s"
  unfolding text_width_def by (rule fold_max_ge) simp

end
