(* ===== verification/Fort_Print.thy ===== *)
theory Fort_Print
  imports Fort_String
begin

text \<open>
  Bounded output into the conversion buffer (\<open>fort_utils.c\<close> inside
  \<open>src/src/libfort/fort.c\<close>) and the formats of \<open>ft_printf_ln\<close>.

  A printer takes the conversion context and gives its result, negative for an error, and the new
  context.  The context holds what is written so far and the bytes left of the block; a write past
  the block is a fault.  It is a record over the type of what is written, here characters, in the
  theory Fort\_Wide also wide characters and bytes of UTF-8 text.
\<close>

definition INT_MAX :: int where "INT_MAX = 2147483647"

record 'c f_conv_context_of =
  conv_out :: "'c list"
  raw_avail :: nat

type_synonym f_conv_context = "char f_conv_context_of"

type_synonym 'c printer_of = "'c f_conv_context_of \<Rightarrow> (int \<times> 'c f_conv_context_of) option"
type_synonym printer = "char printer_of"

definition snprint_n_strings_impl :: "nat \<Rightarrow> nat \<Rightarrow> string \<Rightarrow> int \<times> string" where
  "snprint_n_strings_impl len n str =
     (let str_len = length str in
      if len \<le> n * str_len then (-1, [])
      else if n = 0 then (0, [])
      else if int (n * str_len) > INT_MAX then (-1, [])
      else if str_len = 0 then (0, [])
      else (int (n * str_len), concat (replicate n str)))"

definition snprint_n_strings :: "f_conv_context \<Rightarrow> nat \<Rightarrow> string \<Rightarrow> int \<times> f_conv_context" where
  "snprint_n_strings cntx n str =
     (let (w, txt) = snprint_n_strings_impl (raw_avail cntx) n str in
      if w \<ge> 0 then (w, cntx\<lparr>conv_out := conv_out cntx @ txt, raw_avail := raw_avail cntx - nat w\<rparr>)
      else (w, cntx))"

definition print_n_strings :: "nat \<Rightarrow> string \<Rightarrow> printer" where
  "print_n_strings n str cntx = Some (snprint_n_strings cntx n str)"

text \<open>
  The check allows two bytes more than the block has left: one for the text and one for the
  terminator written behind it.
\<close>

definition ft_nprint :: "string \<Rightarrow> printer" where
  "ft_nprint str cntx =
     (if raw_avail cntx + 1 < length str then Some (-1, cntx)
      else if length str + 1 > raw_avail cntx then None
      else Some (int (length str),
             cntx\<lparr>conv_out := conv_out cntx @ str, raw_avail := raw_avail cntx - length str\<rparr>))"

definition buffer_print_range :: "string \<Rightarrow> printer" where
  "buffer_print_range s = ft_nprint s"

text \<open>
  \<open>CHCK_RSLT_ADD_TO_WRITTEN\<close> in a sequence of prints: the first error ends it, otherwise the
  results add up.  \<open>print_seq\<close> is the body of a function that ends with
  \<open>return (int)written\<close> and returns \<open>err\<close> at the label \<open>clear\<close>.
\<close>

fun print_all :: "'c printer_of list \<Rightarrow> 'c printer_of" where
  "print_all [] c = Some (0, c)"
| "print_all (p # ps) c = do {
     (r, c1) \<leftarrow> p c;
     if r < 0 then Some (r, c1)
     else do { (w, c2) \<leftarrow> print_all ps c1; Some (if w < 0 then w else r + w, c2) }
   }"

definition print_seq :: "int \<Rightarrow> 'c printer_of list \<Rightarrow> 'c printer_of" where
  "print_seq err ps c = do {
     (w, c') \<leftarrow> print_all ps c;
     Some (if w < 0 then err else to_int32 w, c')
   }"

section \<open>What a printer writes\<close>

text \<open>
  \<open>writes sz p s\<close>: the printer \<open>p\<close> writes exactly \<open>s\<close>, and returns no error, whenever \<open>s\<close> and
  a terminator fit into a block of at most 2 GiB; \<open>sz\<close> is the size of a character in bytes.
\<close>

definition advance :: "nat \<Rightarrow> 'c list \<Rightarrow> 'c f_conv_context_of \<Rightarrow> 'c f_conv_context_of" where
  "advance sz s c = c\<lparr>conv_out := conv_out c @ s, raw_avail := raw_avail c - sz * length s\<rparr>"

definition has_room :: "nat \<Rightarrow> 'c list \<Rightarrow> 'c f_conv_context_of \<Rightarrow> bool" where
  "has_room sz s c \<longleftrightarrow> sz * (length s + 1) \<le> raw_avail c \<and> int (raw_avail c) \<le> INT_MAX"

definition writes :: "nat \<Rightarrow> 'c printer_of \<Rightarrow> 'c list \<Rightarrow> bool" where
  "writes sz p s \<longleftrightarrow> (\<forall>c. has_room sz s c \<longrightarrow>
     (\<exists>r. 0 \<le> r \<and> r \<le> int (length s) \<and> p c = Some (r, advance sz s c)))"

lemma writesI: "(\<And>c. has_room sz s c \<Longrightarrow> \<exists>r. 0 \<le> r \<and> r \<le> int (length s) \<and> p c = Some (r, advance sz s c)) \<Longrightarrow>
    writes sz p s"
  by (simp add: writes_def)

lemma writesE:
  assumes "writes sz p s" and "has_room sz s c"
  obtains r where "0 \<le> r" "r \<le> int (length s)" "p c = Some (r, advance sz s c)"
  using assms by (auto simp: writes_def)

lemma has_room_append:
  assumes "has_room sz (s @ t) c"
  shows "has_room sz s c" and "has_room sz t (advance sz s c)"
proof -
  have "sz * length s + sz * length t + sz \<le> raw_avail c" and i: "int (raw_avail c) \<le> INT_MAX"
    using assms by (simp_all add: has_room_def algebra_simps)
  then have "sz * length s + sz \<le> raw_avail c" "sz * length t + sz \<le> raw_avail c - sz * length s"
    by linarith+
  moreover have "int (raw_avail c - sz * length s) \<le> INT_MAX" using i by linarith
  ultimately show "has_room sz s c" "has_room sz t (advance sz s c)"
    using i by (simp_all add: has_room_def advance_def algebra_simps)
qed

lemma advance_append: "advance sz t (advance sz s c) = advance sz (s @ t) c"
  by (simp add: advance_def algebra_simps)

lemma advance_Nil [simp]: "advance sz [] c = c"
  by (simp add: advance_def)

lemma length_concat_replicate: "length (concat (replicate n s)) = n * length s"
  by (induction n) simp_all

lemma room_length: "0 < sz \<Longrightarrow> has_room sz s c \<Longrightarrow> int (length s) \<le> INT_MAX"
proof -
  assume "0 < sz" "has_room sz s c"
  moreover have "length s \<le> sz * (length s + 1)" if "0 < sz" using that by (cases sz) simp_all
  ultimately show ?thesis unfolding has_room_def by linarith
qed

lemma writes_skip: "writes sz (\<lambda>c. Some (0, c)) []"
  by (simp add: writes_def)

lemma writes_all:
  "list_all2 (writes sz) ps ss \<Longrightarrow> writes sz (print_all ps) (concat ss)"
proof (induction rule: list_all2_induct)
  case Nil
  then show ?case by (simp add: writes_def)
next
  case (Cons p ps s ss)
  show ?case
  proof (rule writesI)
    fix c
    assume "has_room sz (concat (s # ss)) c"
    then have r: "has_room sz s c" "has_room sz (concat ss) (advance sz s c)"
      using has_room_append [of sz s "concat ss" c] by simp_all
    obtain r1 where 1: "0 \<le> r1" "r1 \<le> int (length s)" "p c = Some (r1, advance sz s c)"
      by (rule writesE [OF Cons.hyps(1) r(1)])
    obtain r2 where 2: "0 \<le> r2" "r2 \<le> int (length (concat ss))"
      "print_all ps (advance sz s c) = Some (r2, advance sz (concat ss) (advance sz s c))"
      by (rule writesE [OF Cons.IH r(2)])
    show "\<exists>r. 0 \<le> r \<and> r \<le> int (length (concat (s # ss))) \<and>
        print_all (p # ps) c = Some (r, advance sz (concat (s # ss)) c)"
      using 1 2 by (intro exI [of _ "r1 + r2"]) (simp add: advance_append)
  qed
qed

lemma to_int32_small: "0 \<le> i \<Longrightarrow> i \<le> INT_MAX \<Longrightarrow> to_int32 i = i"
  by (simp add: to_int32_def INT_MAX_def)

lemma writes_seq:
  assumes "0 < sz" and "list_all2 (writes sz) ps ss"
  shows "writes sz (print_seq err ps) (concat ss)"
proof (rule writesI)
  fix c
  assume room: "has_room sz (concat ss) c"
  obtain r where r: "0 \<le> r" "r \<le> int (length (concat ss))" "print_all ps c = Some (r, advance sz (concat ss) c)"
    by (rule writesE [OF writes_all [OF assms(2)] room])
  moreover have "to_int32 r = r" using r room_length [OF assms(1) room] by (intro to_int32_small) linarith+
  ultimately show "\<exists>r. 0 \<le> r \<and> r \<le> int (length (concat ss)) \<and>
      print_seq err ps c = Some (r, advance sz (concat ss) c)"
    by (simp add: print_seq_def)
qed

lemma writes_three:
  assumes "writes sz p a" and "writes sz q b" and "writes sz s d"
  shows "writes sz (\<lambda>c. do {
     (r, c1) \<leftarrow> p c;
     if r < 0 then Some (r, c1)
     else do {
       (r1, c2) \<leftarrow> q c1;
       if r1 < 0 then Some (r1, c2)
       else do { (r2, c3) \<leftarrow> s c2; Some (if r2 < 0 then r2 else r + r1 + r2, c3) }
     } }) (a @ b @ d)"
proof (rule writesI)
  fix c
  assume room: "has_room sz (a @ b @ d) c"
  note r1 = has_room_append [OF room] and r2 = has_room_append [OF has_room_append(2) [OF room]]
  obtain x where x: "0 \<le> x" "x \<le> int (length a)" "p c = Some (x, advance sz a c)" by (rule writesE [OF assms(1) r1(1)])
  obtain y where y: "0 \<le> y" "y \<le> int (length b)" "q (advance sz a c) = Some (y, advance sz b (advance sz a c))"
    by (rule writesE [OF assms(2) r2(1)])
  obtain z where z: "0 \<le> z" "z \<le> int (length d)"
    "s (advance sz b (advance sz a c)) = Some (z, advance sz d (advance sz b (advance sz a c)))"
    by (rule writesE [OF assms(3) r2(2)])
  show "\<exists>r. 0 \<le> r \<and> r \<le> int (length (a @ b @ d)) \<and> (do {
     (r, c1) \<leftarrow> p c;
     if r < 0 then Some (r, c1)
     else do {
       (r1, c2) \<leftarrow> q c1;
       if r1 < 0 then Some (r1, c2)
       else do { (r2, c3) \<leftarrow> s c2; Some (if r2 < 0 then r2 else r + r1 + r2, c3) }
     } }) = Some (r, advance sz (a @ b @ d) c)"
    using x y z by (intro exI [of _ "x + y + z"]) (simp add: advance_append)
qed

text \<open>The two printers of characters.\<close>

lemma writes_n_strings: "writes 1 (print_n_strings n str) (concat (replicate n str))"
proof (rule writesI)
  fix c
  assume "has_room 1 (concat (replicate n str)) c"
  then show "\<exists>r. 0 \<le> r \<and> r \<le> int (length (concat (replicate n str))) \<and>
      print_n_strings n str c = Some (r, advance 1 (concat (replicate n str)) c)"
    by (cases "n = 0"; cases "str = []")
      (auto simp: print_n_strings_def snprint_n_strings_def snprint_n_strings_impl_def has_room_def
        advance_def length_concat_replicate Let_def simp flip: of_nat_mult)
qed

lemma writes_range: "writes 1 (buffer_print_range s) s"
  by (auto simp: writes_def buffer_print_range_def ft_nprint_def has_room_def advance_def)

section \<open>Formats\<close>

text \<open>
  The conversions the programs use in the formats of the table: \<open>%s\<close>, \<open>%d\<close> and \<open>%%\<close>.
  Another conversion or an argument of another type is \<open>None\<close>.
\<close>

datatype fmt_arg = Fs string | Fd int

fun vsprintf :: "string \<Rightarrow> fmt_arg list \<Rightarrow> string option" where
  "vsprintf [] args = Some []"
| "vsprintf (c # fmt) args =
     (if c \<noteq> CHR ''%'' then map_option (Cons c) (vsprintf fmt args)
      else (case fmt of
          [] \<Rightarrow> None
        | d # fmt' \<Rightarrow>
            if d = CHR ''s'' then (case args of Fs s # args' \<Rightarrow> map_option (append s) (vsprintf fmt' args') | _ \<Rightarrow> None)
            else if d = CHR ''d'' then (case args of Fd i # args' \<Rightarrow> map_option (append (sprintf_d i)) (vsprintf fmt' args') | _ \<Rightarrow> None)
            else if d = CHR ''%'' then map_option (Cons (CHR ''%'')) (vsprintf fmt' args)
            else None))"

end
