(* ===== verification/Fort_Props.thy ===== *)
theory Fort_Props
  imports Fort_Print
begin

text \<open>
  Properties of libfort (\<open>properties.c\<close> and \<open>properties.h\<close> inside
  \<open>src/src/libfort/fort.c\<close>, \<open>fort.h\<close>): cell properties with their hierarchical lookup,
  the style tags, table properties and border styles.

  Properties, colours and styles are 32-bit words.  The global defaults are constants: the functions
  that change them are not called by the programs and not modelled.  A failed assertion and
  \<open>exit\<close> are \<open>None\<close>.
\<close>

unbundle bit_operations_syntax

section \<open>Identifiers\<close>

definition FT_ANY_ROW :: nat where "FT_ANY_ROW = 4294967295"
definition FT_ANY_COLUMN :: nat where "FT_ANY_COLUMN = 4294967295"
definition FT_CUR_ROW :: nat where "FT_CUR_ROW = 4294967294"
definition FT_CUR_COLUMN :: nat where "FT_CUR_COLUMN = 4294967294"

definition FT_CPROP_MIN_WIDTH :: "32 word" where "FT_CPROP_MIN_WIDTH = 0x1"
definition FT_CPROP_TEXT_ALIGN :: "32 word" where "FT_CPROP_TEXT_ALIGN = 0x2"
definition FT_CPROP_TOP_PADDING :: "32 word" where "FT_CPROP_TOP_PADDING = 0x4"
definition FT_CPROP_BOTTOM_PADDING :: "32 word" where "FT_CPROP_BOTTOM_PADDING = 0x8"
definition FT_CPROP_LEFT_PADDING :: "32 word" where "FT_CPROP_LEFT_PADDING = 0x10"
definition FT_CPROP_RIGHT_PADDING :: "32 word" where "FT_CPROP_RIGHT_PADDING = 0x20"
definition FT_CPROP_EMPTY_STR_HEIGHT :: "32 word" where "FT_CPROP_EMPTY_STR_HEIGHT = 0x40"
definition FT_CPROP_ROW_TYPE :: "32 word" where "FT_CPROP_ROW_TYPE = 0x80"
definition FT_CPROP_CONT_FG_COLOR :: "32 word" where "FT_CPROP_CONT_FG_COLOR = 0x100"
definition FT_CPROP_CELL_BG_COLOR :: "32 word" where "FT_CPROP_CELL_BG_COLOR = 0x200"
definition FT_CPROP_CONT_BG_COLOR :: "32 word" where "FT_CPROP_CONT_BG_COLOR = 0x400"
definition FT_CPROP_CELL_TEXT_STYLE :: "32 word" where "FT_CPROP_CELL_TEXT_STYLE = 0x800"
definition FT_CPROP_CONT_TEXT_STYLE :: "32 word" where "FT_CPROP_CONT_TEXT_STYLE = 0x1000"

lemmas cprop_defs =
  FT_CPROP_MIN_WIDTH_def FT_CPROP_TEXT_ALIGN_def FT_CPROP_TOP_PADDING_def FT_CPROP_BOTTOM_PADDING_def
  FT_CPROP_LEFT_PADDING_def FT_CPROP_RIGHT_PADDING_def FT_CPROP_EMPTY_STR_HEIGHT_def
  FT_CPROP_ROW_TYPE_def FT_CPROP_CONT_FG_COLOR_def FT_CPROP_CELL_BG_COLOR_def
  FT_CPROP_CONT_BG_COLOR_def FT_CPROP_CELL_TEXT_STYLE_def FT_CPROP_CONT_TEXT_STYLE_def

definition FT_TPROP_LEFT_MARGIN :: "32 word" where "FT_TPROP_LEFT_MARGIN = 0x1"
definition FT_TPROP_TOP_MARGIN :: "32 word" where "FT_TPROP_TOP_MARGIN = 0x2"
definition FT_TPROP_RIGHT_MARGIN :: "32 word" where "FT_TPROP_RIGHT_MARGIN = 0x4"
definition FT_TPROP_BOTTOM_MARGIN :: "32 word" where "FT_TPROP_BOTTOM_MARGIN = 0x8"
definition FT_TPROP_ADDING_STRATEGY :: "32 word" where "FT_TPROP_ADDING_STRATEGY = 0x10"

definition FT_ALIGNED_LEFT :: int where "FT_ALIGNED_LEFT = 0"
definition FT_ALIGNED_CENTER :: int where "FT_ALIGNED_CENTER = 1"
definition FT_ALIGNED_RIGHT :: int where "FT_ALIGNED_RIGHT = 2"
definition FT_ROW_COMMON :: int where "FT_ROW_COMMON = 0"
definition FT_ROW_HEADER :: int where "FT_ROW_HEADER = 1"
definition FT_TSTYLE_DEFAULT :: "32 word" where "FT_TSTYLE_DEFAULT = 1"
definition FT_STRATEGY_REPLACE :: "32 word" where "FT_STRATEGY_REPLACE = 0"
definition FT_STRATEGY_INSERT :: "32 word" where "FT_STRATEGY_INSERT = 1"

definition PROP_IS_SET :: "32 word \<Rightarrow> 32 word \<Rightarrow> bool" where
  "PROP_IS_SET ft_props property \<longleftrightarrow> ft_props AND property \<noteq> 0"

definition PROP_SET :: "32 word \<Rightarrow> 32 word \<Rightarrow> 32 word" where
  "PROP_SET ft_props property = ft_props OR property"

text \<open>An \<open>int\<close> result stored in a \<open>size_t\<close>.\<close>

definition size_of_int :: "int \<Rightarrow> nat" where
  "size_of_int i = nat (i mod 2 ^ 64)"

section \<open>Cell properties\<close>

record f_cell_props =
  cell_row :: nat
  cell_col :: nat
  properties_flags :: "32 word"
  col_min_width :: "32 word"
  align :: "32 word"
  cell_padding_top :: "32 word"
  cell_padding_bottom :: "32 word"
  cell_padding_left :: "32 word"
  cell_padding_right :: "32 word"
  cell_empty_string_height :: "32 word"
  row_type :: "32 word"
  content_fg_color_number :: "32 word"
  content_bg_color_number :: "32 word"
  cell_bg_color_number :: "32 word"
  cell_text_style :: "32 word"
  content_text_style :: "32 word"

definition zero_cell_props :: f_cell_props where
  "zero_cell_props = \<lparr>cell_row = 0, cell_col = 0, properties_flags = 0, col_min_width = 0, align = 0,
     cell_padding_top = 0, cell_padding_bottom = 0, cell_padding_left = 0, cell_padding_right = 0,
     cell_empty_string_height = 0, row_type = 0, content_fg_color_number = 0,
     content_bg_color_number = 0, cell_bg_color_number = 0, cell_text_style = 0,
     content_text_style = 0\<rparr>"

definition g_default_cell_properties :: f_cell_props where
  "g_default_cell_properties = \<lparr>cell_row = FT_ANY_ROW, cell_col = FT_ANY_COLUMN,
     properties_flags = FT_CPROP_MIN_WIDTH OR FT_CPROP_TEXT_ALIGN OR FT_CPROP_TOP_PADDING
       OR FT_CPROP_BOTTOM_PADDING OR FT_CPROP_LEFT_PADDING OR FT_CPROP_RIGHT_PADDING
       OR FT_CPROP_EMPTY_STR_HEIGHT OR FT_CPROP_CONT_FG_COLOR OR FT_CPROP_CELL_BG_COLOR
       OR FT_CPROP_CONT_BG_COLOR OR FT_CPROP_CELL_TEXT_STYLE OR FT_CPROP_CONT_TEXT_STYLE,
     col_min_width = 0, align = 0, cell_padding_top = 0, cell_padding_bottom = 0,
     cell_padding_left = 1, cell_padding_right = 1, cell_empty_string_height = 1, row_type = 0,
     content_fg_color_number = 0, content_bg_color_number = 0, cell_bg_color_number = 0,
     cell_text_style = FT_TSTYLE_DEFAULT, content_text_style = FT_TSTYLE_DEFAULT\<rparr>"

definition cell_prop_field :: "f_cell_props \<Rightarrow> 32 word \<Rightarrow> int option" where
  "cell_prop_field cell_opts property =
     (if property = FT_CPROP_MIN_WIDTH then Some (sint (col_min_width cell_opts))
      else if property = FT_CPROP_TEXT_ALIGN then Some (sint (align cell_opts))
      else if property = FT_CPROP_TOP_PADDING then Some (sint (cell_padding_top cell_opts))
      else if property = FT_CPROP_BOTTOM_PADDING then Some (sint (cell_padding_bottom cell_opts))
      else if property = FT_CPROP_LEFT_PADDING then Some (sint (cell_padding_left cell_opts))
      else if property = FT_CPROP_RIGHT_PADDING then Some (sint (cell_padding_right cell_opts))
      else if property = FT_CPROP_EMPTY_STR_HEIGHT then Some (sint (cell_empty_string_height cell_opts))
      else if property = FT_CPROP_ROW_TYPE then Some (sint (row_type cell_opts))
      else if property = FT_CPROP_CONT_FG_COLOR then Some (sint (content_fg_color_number cell_opts))
      else if property = FT_CPROP_CONT_BG_COLOR then Some (sint (content_bg_color_number cell_opts))
      else if property = FT_CPROP_CELL_BG_COLOR then Some (sint (cell_bg_color_number cell_opts))
      else if property = FT_CPROP_CELL_TEXT_STYLE then Some (sint (cell_text_style cell_opts))
      else if property = FT_CPROP_CONT_TEXT_STYLE then Some (sint (content_text_style cell_opts))
      else None)"

definition get_prop_value_if_exists_otherwise_default :: "f_cell_props option \<Rightarrow> 32 word \<Rightarrow> int option" where
  "get_prop_value_if_exists_otherwise_default cell_opts property =
     (case cell_opts of
        None \<Rightarrow> cell_prop_field g_default_cell_properties property
      | Some o1 \<Rightarrow> cell_prop_field
          (if PROP_IS_SET (properties_flags o1) property then o1 else g_default_cell_properties) property)"

type_synonym f_cell_prop_container = "f_cell_props list"

fun cget_cell_prop :: "f_cell_prop_container \<Rightarrow> nat \<Rightarrow> nat \<Rightarrow> f_cell_props option" where
  "cget_cell_prop [] row col = None"
| "cget_cell_prop (opt # cont) row col =
     (if cell_row opt = row \<and> cell_col opt = col then Some opt else cget_cell_prop cont row col)"

text \<open>The index of the entry, which is appended when there is none, and the container with it.\<close>

fun cell_prop_index :: "f_cell_prop_container \<Rightarrow> nat \<Rightarrow> nat \<Rightarrow> nat \<Rightarrow> nat option" where
  "cell_prop_index [] row col i = None"
| "cell_prop_index (opt # cont) row col i =
     (if cell_row opt = row \<and> cell_col opt = col then Some i else cell_prop_index cont row col (i + 1))"

definition get_cell_prop_and_create_if_not_exists ::
  "f_cell_prop_container \<Rightarrow> nat \<Rightarrow> nat \<Rightarrow> nat \<times> f_cell_prop_container" where
  "get_cell_prop_and_create_if_not_exists cont row col =
     (case cell_prop_index cont row col 0 of
        Some i \<Rightarrow> (i, cont)
      | None \<Rightarrow>
          (let opt = (if row = FT_ANY_ROW \<and> col = FT_ANY_COLUMN then g_default_cell_properties
                      else zero_cell_props)
           in (length cont, cont @ [opt\<lparr>cell_row := row, cell_col := col\<rparr>])))"

text \<open>
  The lookup of a cell tries the cell, its column, its row and the whole table; \<open>row_origin\<close> is the
  row of the cell.
\<close>

function find_cell_opt :: "f_cell_prop_container \<Rightarrow> 32 word \<Rightarrow> nat \<Rightarrow> nat \<Rightarrow> nat \<Rightarrow> f_cell_props option" where
  "find_cell_opt cont property row_origin row column =
     (case cget_cell_prop cont row column of
        Some opt \<Rightarrow>
          if PROP_IS_SET (properties_flags opt) property then Some opt
          else if row \<noteq> FT_ANY_ROW \<and> column \<noteq> FT_ANY_COLUMN then find_cell_opt cont property row_origin FT_ANY_ROW column
          else if row = FT_ANY_ROW \<and> column \<noteq> FT_ANY_COLUMN then find_cell_opt cont property row_origin row_origin FT_ANY_COLUMN
          else if row \<noteq> FT_ANY_ROW \<and> column = FT_ANY_COLUMN then find_cell_opt cont property row_origin FT_ANY_ROW FT_ANY_COLUMN
          else None
      | None \<Rightarrow>
          if row \<noteq> FT_ANY_ROW \<and> column \<noteq> FT_ANY_COLUMN then find_cell_opt cont property row_origin FT_ANY_ROW column
          else if row = FT_ANY_ROW \<and> column \<noteq> FT_ANY_COLUMN then find_cell_opt cont property row_origin row_origin FT_ANY_COLUMN
          else if row \<noteq> FT_ANY_ROW \<and> column = FT_ANY_COLUMN then find_cell_opt cont property row_origin FT_ANY_ROW FT_ANY_COLUMN
          else None)"
  by pat_completeness auto

termination
  by (relation "measure (\<lambda>(_, _, _, row, column).
        (if column \<noteq> FT_ANY_COLUMN then 2 else 0) + (if row \<noteq> FT_ANY_ROW then 1 else 0))")
    auto

declare find_cell_opt.simps [simp del]

section \<open>Table properties\<close>

record border_style =
  border_chars :: "string list"
  header_border_chars :: "string list"
  separator_chars :: "string list"

definition TL_bip :: nat where [simp]: "TL_bip = 0"
definition TT_bip :: nat where [simp]: "TT_bip = 1"
definition TV_bip :: nat where [simp]: "TV_bip = 2"
definition TR_bip :: nat where [simp]: "TR_bip = 3"
definition LL_bip :: nat where [simp]: "LL_bip = 4"
definition IV_bip :: nat where [simp]: "IV_bip = 5"
definition RR_bip :: nat where [simp]: "RR_bip = 6"
definition LH_bip :: nat where [simp]: "LH_bip = 7"
definition IH_bip :: nat where [simp]: "IH_bip = 8"
definition II_bip :: nat where [simp]: "II_bip = 9"
definition RH_bip :: nat where [simp]: "RH_bip = 10"
definition BL_bip :: nat where [simp]: "BL_bip = 11"
definition BB_bip :: nat where [simp]: "BB_bip = 12"
definition BV_bip :: nat where [simp]: "BV_bip = 13"
definition BR_bip :: nat where [simp]: "BR_bip = 14"
definition LI_bip :: nat where [simp]: "LI_bip = 15"
definition TI_bip :: nat where [simp]: "TI_bip = 16"
definition RI_bip :: nat where [simp]: "RI_bip = 17"
definition BI_bip :: nat where [simp]: "BI_bip = 18"
definition BORDER_ITEM_POS_SIZE :: nat where "BORDER_ITEM_POS_SIZE = 19"

definition LH_sip :: nat where [simp]: "LH_sip = 0"
definition IH_sip :: nat where [simp]: "IH_sip = 1"
definition II_sip :: nat where [simp]: "II_sip = 2"
definition RH_sip :: nat where [simp]: "RH_sip = 3"
definition TI_sip :: nat where [simp]: "TI_sip = 4"
definition BI_sip :: nat where [simp]: "BI_sip = 5"
definition SEPARATOR_ITEM_POS_SIZE :: nat where "SEPARATOR_ITEM_POS_SIZE = 6"

record entire_table_properties =
  left_margin :: "32 word"
  top_margin :: "32 word"
  right_margin :: "32 word"
  bottom_margin :: "32 word"
  add_strategy :: "32 word"

record f_table_properties =
  bstyle :: border_style
  cell_properties :: f_cell_prop_container
  tprops :: entire_table_properties

definition get_cell_property_hierarchically :: "f_table_properties \<Rightarrow> nat \<Rightarrow> nat \<Rightarrow> 32 word \<Rightarrow> int option" where
  "get_cell_property_hierarchically propertiess row column property =
     get_prop_value_if_exists_otherwise_default
       (find_cell_opt (cell_properties propertiess) property row row column) property"

text \<open>The lookup as a search through four entries.\<close>

definition matching :: "f_cell_prop_container \<Rightarrow> 32 word \<Rightarrow> nat \<times> nat \<Rightarrow> f_cell_props option" where
  "matching cont property = (\<lambda>(r, c). case cget_cell_prop cont r c of None \<Rightarrow> None
     | Some opt \<Rightarrow> if PROP_IS_SET (properties_flags opt) property then Some opt else None)"

definition lookup_order :: "nat \<Rightarrow> nat \<Rightarrow> (nat \<times> nat) list" where
  "lookup_order row col = [(row, col), (FT_ANY_ROW, col), (row, FT_ANY_COLUMN), (FT_ANY_ROW, FT_ANY_COLUMN)]"

lemma lookup_first:
  "get_cell_property_hierarchically p row col property =
     get_prop_value_if_exists_otherwise_default
       (case List.map_filter (matching (cell_properties p) property) (lookup_order row col) of
          [] \<Rightarrow> None | opt # _ \<Rightarrow> Some opt) property"
proof -
  let ?c = "cell_properties p"
  have step: "find_cell_opt ?c property ro r c =
      (case matching ?c property (r, c) of Some opt \<Rightarrow> Some opt | None \<Rightarrow>
         if r \<noteq> FT_ANY_ROW \<and> c \<noteq> FT_ANY_COLUMN then find_cell_opt ?c property ro FT_ANY_ROW c
         else if r = FT_ANY_ROW \<and> c \<noteq> FT_ANY_COLUMN then find_cell_opt ?c property ro ro FT_ANY_COLUMN
         else if r \<noteq> FT_ANY_ROW \<and> c = FT_ANY_COLUMN then find_cell_opt ?c property ro FT_ANY_ROW FT_ANY_COLUMN
         else None)" for ro r c
    by (subst find_cell_opt.simps) (simp add: matching_def split: option.split)
  have last: "find_cell_opt ?c property ro FT_ANY_ROW FT_ANY_COLUMN = matching ?c property (FT_ANY_ROW, FT_ANY_COLUMN)" for ro
    by (subst step) (simp split: option.split)
  have third: "find_cell_opt ?c property ro r FT_ANY_COLUMN =
      (case matching ?c property (r, FT_ANY_COLUMN) of Some opt \<Rightarrow> Some opt
       | None \<Rightarrow> matching ?c property (FT_ANY_ROW, FT_ANY_COLUMN))" for ro r
    by (cases "r = FT_ANY_ROW"; subst step) (auto simp: last split: option.split)
  have second: "find_cell_opt ?c property row FT_ANY_ROW col =
      (case matching ?c property (FT_ANY_ROW, col) of Some opt \<Rightarrow> Some opt
       | None \<Rightarrow> find_cell_opt ?c property row row FT_ANY_COLUMN)" if "col \<noteq> FT_ANY_COLUMN"
    using that by (subst step) (simp split: option.split)
  have "find_cell_opt ?c property row row col =
      (case List.map_filter (matching ?c property) (lookup_order row col) of [] \<Rightarrow> None | opt # _ \<Rightarrow> Some opt)"
  proof (cases "col = FT_ANY_COLUMN")
    case True
    then show ?thesis by (simp add: lookup_order_def third map_filter_simps split: option.split)
  next
    case False
    then have "find_cell_opt ?c property row row col =
      (case matching ?c property (row, col) of Some opt \<Rightarrow> Some opt
       | None \<Rightarrow> find_cell_opt ?c property row FT_ANY_ROW col)"
    proof (cases "row = FT_ANY_ROW")
      case True
      with second [OF False] show ?thesis by (simp split: option.split)
    next
      case row: False
      with False show ?thesis by (subst step) simp
    qed
    with False show ?thesis
      by (simp add: lookup_order_def second third map_filter_simps split: option.split)
  qed
  then show ?thesis by (simp add: get_cell_property_hierarchically_def)
qed

text \<open>The value of a property converted to \<open>size_t\<close> and to \<open>unsigned\<close>.\<close>

definition size_prop :: "f_table_properties \<Rightarrow> nat \<Rightarrow> nat \<Rightarrow> 32 word \<Rightarrow> nat option" where
  "size_prop props row column property =
     map_option size_of_int (get_cell_property_hierarchically props row column property)"

definition word_prop :: "f_table_properties \<Rightarrow> nat \<Rightarrow> nat \<Rightarrow> 32 word \<Rightarrow> 32 word option" where
  "word_prop props row column property =
     map_option word_of_int (get_cell_property_hierarchically props row column property)"

section \<open>Setting a property\<close>

text \<open>The flag is set before the value is checked.\<close>

definition set_cell_property_impl :: "f_cell_props \<Rightarrow> 32 word \<Rightarrow> int \<Rightarrow> int \<times> f_cell_props" where
  "set_cell_property_impl opt0 property v =
     (let opt = opt0\<lparr>properties_flags := PROP_SET (properties_flags opt0) property\<rparr>;
          w = word_of_int v;
          checked = (\<lambda>upd. if v < 0 then (FT_EINVAL, opt) else (FT_SUCCESS, upd opt))
      in
      if PROP_IS_SET property FT_CPROP_MIN_WIDTH then checked (\<lambda>p. p\<lparr>col_min_width := w\<rparr>)
      else if PROP_IS_SET property FT_CPROP_TEXT_ALIGN then (FT_SUCCESS, opt\<lparr>align := w\<rparr>)
      else if PROP_IS_SET property FT_CPROP_TOP_PADDING then checked (\<lambda>p. p\<lparr>cell_padding_top := w\<rparr>)
      else if PROP_IS_SET property FT_CPROP_BOTTOM_PADDING then checked (\<lambda>p. p\<lparr>cell_padding_bottom := w\<rparr>)
      else if PROP_IS_SET property FT_CPROP_LEFT_PADDING then checked (\<lambda>p. p\<lparr>cell_padding_left := w\<rparr>)
      else if PROP_IS_SET property FT_CPROP_RIGHT_PADDING then checked (\<lambda>p. p\<lparr>cell_padding_right := w\<rparr>)
      else if PROP_IS_SET property FT_CPROP_EMPTY_STR_HEIGHT then checked (\<lambda>p. p\<lparr>cell_empty_string_height := w\<rparr>)
      else if PROP_IS_SET property FT_CPROP_ROW_TYPE then (FT_SUCCESS, opt\<lparr>row_type := w\<rparr>)
      else if PROP_IS_SET property FT_CPROP_CONT_FG_COLOR then (FT_SUCCESS, opt\<lparr>content_fg_color_number := w\<rparr>)
      else if PROP_IS_SET property FT_CPROP_CONT_BG_COLOR then (FT_SUCCESS, opt\<lparr>content_bg_color_number := w\<rparr>)
      else if PROP_IS_SET property FT_CPROP_CELL_BG_COLOR then (FT_SUCCESS, opt\<lparr>cell_bg_color_number := w\<rparr>)
      else if PROP_IS_SET property FT_CPROP_CELL_TEXT_STYLE then
        (FT_SUCCESS, opt\<lparr>cell_text_style := (if w = FT_TSTYLE_DEFAULT then FT_TSTYLE_DEFAULT
           else cell_text_style opt OR w)\<rparr>)
      else if PROP_IS_SET property FT_CPROP_CONT_TEXT_STYLE then
        (FT_SUCCESS, opt\<lparr>content_text_style := (if w = FT_TSTYLE_DEFAULT then w
           else content_text_style opt OR w)\<rparr>)
      else (FT_SUCCESS, opt))"

definition set_cell_property ::
  "f_cell_prop_container \<Rightarrow> nat \<Rightarrow> nat \<Rightarrow> 32 word \<Rightarrow> int \<Rightarrow> int \<times> f_cell_prop_container" where
  "set_cell_property cont row col property v =
     (let (i, cont1) = get_cell_prop_and_create_if_not_exists cont row col;
          (st, opt) = set_cell_property_impl (cont1 ! i) property v
      in (st, cont1[i := opt]))"

definition set_entire_table_property_internal ::
  "entire_table_properties \<Rightarrow> 32 word \<Rightarrow> int \<Rightarrow> int \<times> entire_table_properties" where
  "set_entire_table_property_internal properties property v =
     (let w = word_of_int v in
      if v < 0 then (FT_EINVAL, properties)
      else if PROP_IS_SET property FT_TPROP_LEFT_MARGIN then (FT_SUCCESS, properties\<lparr>left_margin := w\<rparr>)
      else if PROP_IS_SET property FT_TPROP_TOP_MARGIN then (FT_SUCCESS, properties\<lparr>top_margin := w\<rparr>)
      else if PROP_IS_SET property FT_TPROP_RIGHT_MARGIN then (FT_SUCCESS, properties\<lparr>right_margin := w\<rparr>)
      else if PROP_IS_SET property FT_TPROP_BOTTOM_MARGIN then (FT_SUCCESS, properties\<lparr>bottom_margin := w\<rparr>)
      else if PROP_IS_SET property FT_TPROP_ADDING_STRATEGY then (FT_SUCCESS, properties\<lparr>add_strategy := w\<rparr>)
      else (FT_EINVAL, properties))"

definition set_entire_table_property :: "f_table_properties \<Rightarrow> 32 word \<Rightarrow> int \<Rightarrow> int \<times> f_table_properties" where
  "set_entire_table_property props property v =
     (let (st, tp) = set_entire_table_property_internal (tprops props) property v
      in (st, props\<lparr>tprops := tp\<rparr>))"

section \<open>Style tags\<close>

definition esc :: "string \<Rightarrow> string" where
  "esc s = CHR 0x1B # CHR ''['' # s @ ''m''"

definition fg_colors :: "string list" where
  "fg_colors = [[], esc ''30'', esc ''31'', esc ''32'', esc ''33'', esc ''34'', esc ''35'', esc ''36'',
     esc ''37'', esc ''90'', esc ''91'', esc ''92'', esc ''93'', esc ''94'', esc ''95'', esc ''96'', esc ''97'']"

definition bg_colors :: "string list" where
  "bg_colors = [[], esc ''40'', esc ''41'', esc ''42'', esc ''43'', esc ''44'', esc ''45'', esc ''46'',
     esc ''47'', esc ''100'', esc ''101'', esc ''102'', esc ''103'', esc ''104'', esc ''105'', esc ''106'',
     esc ''107'']"

definition text_styles :: "string list" where
  "text_styles = [[], esc ''1'', esc ''2'', esc ''3'', esc ''4'', esc ''5'', esc ''7'', esc ''8'']"

definition UNIVERSAL_RESET_TAG :: string where "UNIVERSAL_RESET_TAG = esc ''0''"
definition TEXT_STYLE_TAG_MAX_SIZE :: nat where "TEXT_STYLE_TAG_MAX_SIZE = 128"

text \<open>The loop over the bits of a text style, and the check that precedes it.\<close>

definition style_codes :: "32 word \<Rightarrow> string option" where
  "style_codes text_style =
     (if text_style < 2 ^ 8
      then Some (concat (map (\<lambda>i. if bit text_style i then text_styles ! i else []) [0..<8]))
      else None)"

text \<open>Some bit other than the first one is set.\<close>

definition style_set :: "32 word \<Rightarrow> bool option" where
  "style_set text_style =
     (if text_style < 2 ^ 8 then Some (list_ex (\<lambda>i. bit text_style i \<and> i \<noteq> 0) [0..<8]) else None)"

definition color_tag :: "string list \<Rightarrow> 32 word \<Rightarrow> string option" where
  "color_tag colors n = (if unat n < length colors then Some (colors ! unat n) else None)"

definition get_style_tag_for_cell :: "f_table_properties \<Rightarrow> nat \<Rightarrow> nat \<Rightarrow> string option" where
  "get_style_tag_for_cell props row col = do {
     bg_color_number \<leftarrow> word_prop props row col FT_CPROP_CELL_BG_COLOR;
     text_style \<leftarrow> word_prop props row col FT_CPROP_CELL_TEXT_STYLE;
     s \<leftarrow> style_codes text_style;
     b \<leftarrow> color_tag bg_colors bg_color_number;
     fits TEXT_STYLE_TAG_MAX_SIZE (s @ b)
   }"

definition get_reset_style_tag_for_cell :: "f_table_properties \<Rightarrow> nat \<Rightarrow> nat \<Rightarrow> string option" where
  "get_reset_style_tag_for_cell props row col = do {
     bg_color_number \<leftarrow> word_prop props row col FT_CPROP_CELL_BG_COLOR;
     text_style \<leftarrow> word_prop props row col FT_CPROP_CELL_TEXT_STYLE;
     reset \<leftarrow> style_set text_style;
     if reset then Some UNIVERSAL_RESET_TAG
     else do {
       b \<leftarrow> color_tag bg_colors bg_color_number;
       Some (if bg_color_number \<noteq> 0 then UNIVERSAL_RESET_TAG else [])
     }
   }"

definition get_style_tag_for_content :: "f_table_properties \<Rightarrow> nat \<Rightarrow> nat \<Rightarrow> string option" where
  "get_style_tag_for_content props row col = do {
     text_style \<leftarrow> word_prop props row col FT_CPROP_CONT_TEXT_STYLE;
     fg_color_number \<leftarrow> word_prop props row col FT_CPROP_CONT_FG_COLOR;
     bg_color_number \<leftarrow> word_prop props row col FT_CPROP_CONT_BG_COLOR;
     s \<leftarrow> style_codes text_style;
     f \<leftarrow> color_tag fg_colors fg_color_number;
     b \<leftarrow> color_tag bg_colors bg_color_number;
     fits TEXT_STYLE_TAG_MAX_SIZE (s @ (if fg_color_number \<noteq> 0 then f else []) @ b)
   }"

definition get_reset_style_tag_for_content :: "f_table_properties \<Rightarrow> nat \<Rightarrow> nat \<Rightarrow> string option" where
  "get_reset_style_tag_for_content props row col = do {
     text_style \<leftarrow> word_prop props row col FT_CPROP_CONT_TEXT_STYLE;
     fg_color_number \<leftarrow> word_prop props row col FT_CPROP_CONT_FG_COLOR;
     bg_color_number \<leftarrow> word_prop props row col FT_CPROP_CONT_BG_COLOR;
     let reset_style = do {
           t \<leftarrow> get_style_tag_for_cell props row col;
           fits TEXT_STYLE_TAG_MAX_SIZE (UNIVERSAL_RESET_TAG @ t) };
     reset \<leftarrow> style_set text_style;
     if reset then reset_style
     else do {
       f \<leftarrow> color_tag fg_colors fg_color_number;
       if fg_color_number \<noteq> 0 then reset_style
       else do {
         b \<leftarrow> color_tag bg_colors bg_color_number;
         if bg_color_number \<noteq> 0 then reset_style else Some []
       }
     }
   }"

end
