(* ===== verification/Fort_Styles.thy ===== *)
theory Fort_Styles
  imports Fort_Props
begin

text \<open>
  The built-in border styles of libfort (\<open>properties.c\<close> inside
  \<open>src/src/libfort/fort.c\<close>), the choice of a style and the longest border element, by which
  the conversion buffer is scaled.

  A border element is a C string: the elements written with a NUL first are empty, and a box
  drawing character is its UTF-8 encoding of three bytes.
\<close>

text \<open>The UTF-8 bytes of a character between \<open>U+0800\<close> and \<open>U+FFFF\<close>.\<close>

definition u8 :: "nat \<Rightarrow> string" where
  "u8 cp = [char_of (0xE0 + cp div 4096), char_of (0x80 + cp div 64 mod 64), char_of (0x80 + cp mod 64)]"

section \<open>The built-in styles\<close>

definition BASIC_STYLE :: border_style where
  "BASIC_STYLE = \<lparr>
     border_chars =
       [''+'', ''-'', ''+'', ''+'',
        ''|'', ''|'', ''|'',
        [], [], [], [],
        ''+'', ''-'', ''+'', ''+'',
        ''+'', ''+'', ''+'', ''+''],
     header_border_chars =
       [''+'', ''-'', ''+'', ''+'',
        ''|'', ''|'', ''|'',
        ''+'', ''-'', ''+'', ''+'',
        ''+'', ''-'', ''+'', ''+'',
        ''+'', ''+'', ''+'', ''+''],
     separator_chars =
       [''+'', ''-'', ''+'', ''+'',
        ''+'', ''+'']\<rparr>"

definition BASIC2_STYLE :: border_style where
  "BASIC2_STYLE = \<lparr>
     border_chars =
       [''+'', ''-'', ''+'', ''+'',
        ''|'', ''|'', ''|'',
        ''+'', ''-'', ''+'', ''+'',
        ''+'', ''-'', ''+'', ''+'',
        ''+'', ''+'', ''+'', ''+''],
     header_border_chars =
       [''+'', ''-'', ''+'', ''+'',
        ''|'', ''|'', ''|'',
        ''+'', ''-'', ''+'', ''+'',
        ''+'', ''-'', ''+'', ''+'',
        ''+'', ''+'', ''+'', ''+''],
     separator_chars =
       [''+'', ''-'', ''+'', ''+'',
        ''+'', ''+'']\<rparr>"

definition SIMPLE_STYLE :: border_style where
  "SIMPLE_STYLE = \<lparr>
     border_chars =
       [[], [], [], [],
        [], '' '', [],
        [], [], [], [],
        [], [], [], [],
        [], [], [], []],
     header_border_chars =
       [[], [], [], [],
        [], '' '', [],
        [], ''-'', '' '', [],
        [], '' '', '' '', [],
        '' '', ''-'', '' '', ''-''],
     separator_chars =
       [[], ''-'', '' '', [],
        '' '', '' '']\<rparr>"

definition PLAIN_STYLE :: border_style where
  "PLAIN_STYLE = \<lparr>
     border_chars =
       [[], [], [], [],
        [], '' '', [],
        [], [], [], [],
        [], [], [], [],
        [], [], [], []],
     header_border_chars =
       [[], ''-'', ''-'', [],
        [], '' '', [],
        [], ''-'', ''-'', [],
        [], ''-'', ''-'', [],
        '' '', ''-'', '' '', ''-''],
     separator_chars =
       [[], ''-'', ''-'', [],
        ''-'', ''-'']\<rparr>"

definition DOT_STYLE :: border_style where
  "DOT_STYLE = \<lparr>
     border_chars =
       [''.'', ''.'', ''.'', ''.'',
        '':'', '':'', '':'',
        [], [], [], [],
        '':'', ''.'', '':'', '':'',
        ''+'', '':'', ''+'', '':''],
     header_border_chars =
       [''.'', ''.'', ''.'', ''.'',
        '':'', '':'', '':'',
        '':'', ''.'', '':'', '':'',
        '':'', ''.'', '':'', '':'',
        ''+'', ''.'', ''+'', ''.''],
     separator_chars =
       ['':'', ''.'', '':'', '':'',
        '':'', '':'']\<rparr>"

definition EMPTY_STYLE :: border_style where
  "EMPTY_STYLE = \<lparr>
     border_chars =
       [[], [], [], [],
        [], [], [],
        [], [], [], [],
        [], [], [], [],
        [], [], [], []],
     header_border_chars =
       [[], [], [], [],
        [], [], [],
        [], [], [], [],
        [], [], [], [],
        [], [], [], []],
     separator_chars =
       [[], '' '', [], [],
        [], []]\<rparr>"

definition EMPTY2_STYLE :: border_style where
  "EMPTY2_STYLE = \<lparr>
     border_chars =
       ['' '', '' '', '' '', '' '',
        '' '', '' '', '' '',
        [], [], [], [],
        '' '', '' '', '' '', '' '',
        '' '', '' '', '' '', '' ''],
     header_border_chars =
       ['' '', '' '', '' '', '' '',
        '' '', '' '', '' '',
        [], [], [], [],
        '' '', '' '', '' '', '' '',
        '' '', '' '', '' '', '' ''],
     separator_chars =
       ['' '', '' '', '' '', '' '',
        '' '', '' '']\<rparr>"

definition SOLID_STYLE :: border_style where
  "SOLID_STYLE = \<lparr>
     border_chars =
       [u8 0x250C, u8 0x2500, u8 0x252C, u8 0x2510,
        u8 0x2502, u8 0x2502, u8 0x2502,
        [], [], [], [],
        u8 0x2514, u8 0x2500, u8 0x2534, u8 0x2518,
        u8 0x2502, u8 0x2500, u8 0x2502, u8 0x2500],
     header_border_chars =
       [u8 0x250C, u8 0x2500, u8 0x252C, u8 0x2510,
        u8 0x2502, u8 0x2502, u8 0x2502,
        u8 0x251C, u8 0x2500, u8 0x253C, u8 0x2524,
        u8 0x2514, u8 0x2500, u8 0x2534, u8 0x2518,
        u8 0x253C, u8 0x252C, u8 0x253C, u8 0x2534],
     separator_chars =
       [u8 0x251C, u8 0x2500, u8 0x253C, u8 0x2524,
        u8 0x252C, u8 0x2534]\<rparr>"

definition SOLID_ROUND_STYLE :: border_style where
  "SOLID_ROUND_STYLE = \<lparr>
     border_chars =
       [u8 0x256D, u8 0x2500, u8 0x252C, u8 0x256E,
        u8 0x2502, u8 0x2502, u8 0x2502,
        [], [], [], [],
        u8 0x2570, u8 0x2500, u8 0x2534, u8 0x256F,
        u8 0x2502, u8 0x2500, u8 0x2502, u8 0x2500],
     header_border_chars =
       [u8 0x256D, u8 0x2500, u8 0x252C, u8 0x256E,
        u8 0x2502, u8 0x2502, u8 0x2502,
        u8 0x251C, u8 0x2500, u8 0x253C, u8 0x2524,
        u8 0x2570, u8 0x2500, u8 0x2534, u8 0x256F,
        u8 0x253C, u8 0x252C, u8 0x253C, u8 0x2534],
     separator_chars =
       [u8 0x251C, u8 0x2500, u8 0x253C, u8 0x2524,
        u8 0x252C, u8 0x2534]\<rparr>"

definition NICE_STYLE :: border_style where
  "NICE_STYLE = \<lparr>
     border_chars =
       [u8 0x2554, u8 0x2550, u8 0x2566, u8 0x2557,
        u8 0x2551, u8 0x2551, u8 0x2551,
        [], [], [], [],
        u8 0x255A, u8 0x2550, u8 0x2569, u8 0x255D,
        u8 0x2523, u8 0x253B, u8 0x2523, u8 0x2533],
     header_border_chars =
       [u8 0x2554, u8 0x2550, u8 0x2566, u8 0x2557,
        u8 0x2551, u8 0x2551, u8 0x2551,
        u8 0x2560, u8 0x2550, u8 0x256C, u8 0x2563,
        u8 0x255A, u8 0x2550, u8 0x2569, u8 0x255D,
        u8 0x2523, u8 0x2566, u8 0x2523, u8 0x2569],
     separator_chars =
       [u8 0x255F, u8 0x2500, u8 0x256B, u8 0x2562,
        u8 0x2565, u8 0x2568]\<rparr>"

definition DOUBLE_STYLE :: border_style where
  "DOUBLE_STYLE = \<lparr>
     border_chars =
       [u8 0x2554, u8 0x2550, u8 0x2566, u8 0x2557,
        u8 0x2551, u8 0x2551, u8 0x2551,
        [], [], [], [],
        u8 0x255A, u8 0x2550, u8 0x2569, u8 0x255D,
        u8 0x2523, u8 0x253B, u8 0x2523, u8 0x2533],
     header_border_chars =
       [u8 0x2554, u8 0x2550, u8 0x2566, u8 0x2557,
        u8 0x2551, u8 0x2551, u8 0x2551,
        u8 0x2560, u8 0x2550, u8 0x256C, u8 0x2563,
        u8 0x255A, u8 0x2550, u8 0x2569, u8 0x255D,
        u8 0x2523, u8 0x2566, u8 0x2523, u8 0x2569],
     separator_chars =
       [u8 0x2560, u8 0x2550, u8 0x256C, u8 0x2563,
        u8 0x2566, u8 0x2569]\<rparr>"

definition DOUBLE2_STYLE :: border_style where
  "DOUBLE2_STYLE = \<lparr>
     border_chars =
       [u8 0x2554, u8 0x2550, u8 0x2564, u8 0x2557,
        u8 0x2551, u8 0x2502, u8 0x2551,
        u8 0x255F, u8 0x2500, u8 0x253C, u8 0x2562,
        u8 0x255A, u8 0x2550, u8 0x2567, u8 0x255D,
        u8 0x251C, u8 0x252C, u8 0x2524, u8 0x2534],
     header_border_chars =
       [u8 0x2554, u8 0x2550, u8 0x2564, u8 0x2557,
        u8 0x2551, u8 0x2502, u8 0x2551,
        u8 0x2560, u8 0x2550, u8 0x256A, u8 0x2563,
        u8 0x255A, u8 0x2550, u8 0x2567, u8 0x255D,
        u8 0x251C, u8 0x2564, u8 0x2524, u8 0x2567],
     separator_chars =
       [u8 0x2560, u8 0x2550, u8 0x256A, u8 0x2563,
        u8 0x2564, u8 0x2567]\<rparr>"

definition BOLD_STYLE :: border_style where
  "BOLD_STYLE = \<lparr>
     border_chars =
       [u8 0x250F, u8 0x2501, u8 0x2533, u8 0x2513,
        u8 0x2503, u8 0x2503, u8 0x2503,
        [], [], [], [],
        u8 0x2517, u8 0x2501, u8 0x253B, u8 0x251B,
        u8 0x2523, u8 0x253B, u8 0x2523, u8 0x2533],
     header_border_chars =
       [u8 0x250F, u8 0x2501, u8 0x2533, u8 0x2513,
        u8 0x2503, u8 0x2503, u8 0x2503,
        u8 0x2523, u8 0x2501, u8 0x254B, u8 0x252B,
        u8 0x2517, u8 0x2501, u8 0x253B, u8 0x251B,
        u8 0x2523, u8 0x2533, u8 0x2523, u8 0x253B],
     separator_chars =
       [u8 0x2523, u8 0x2501, u8 0x254B, u8 0x252B,
        u8 0x2533, u8 0x253B]\<rparr>"

definition BOLD2_STYLE :: border_style where
  "BOLD2_STYLE = \<lparr>
     border_chars =
       [u8 0x250F, u8 0x2501, u8 0x252F, u8 0x2513,
        u8 0x2503, u8 0x2502, u8 0x2503,
        u8 0x2520, u8 0x2500, u8 0x253C, u8 0x2528,
        u8 0x2517, u8 0x2501, u8 0x2537, u8 0x251B,
        u8 0x2523, u8 0x252C, u8 0x2523, u8 0x2534],
     header_border_chars =
       [u8 0x250F, u8 0x2501, u8 0x252F, u8 0x2513,
        u8 0x2503, u8 0x2502, u8 0x2503,
        u8 0x2523, u8 0x2501, u8 0x253F, u8 0x252B,
        u8 0x2517, u8 0x2501, u8 0x2537, u8 0x251B,
        u8 0x2523, u8 0x252F, u8 0x2523, u8 0x2537],
     separator_chars =
       [u8 0x2523, u8 0x2501, u8 0x253F, u8 0x252B,
        u8 0x252F, u8 0x2537]\<rparr>"

definition FRAME_STYLE :: border_style where
  "FRAME_STYLE = \<lparr>
     border_chars =
       [u8 0x259B, u8 0x2580, u8 0x2580, u8 0x259C,
        u8 0x258C, u8 0x2503, u8 0x2590,
        [], [], [], [],
        u8 0x2599, u8 0x2584, u8 0x2584, u8 0x259F,
        u8 0x2523, u8 0x2501, u8 0x2523, u8 0x2501],
     header_border_chars =
       [u8 0x259B, u8 0x2580, u8 0x2580, u8 0x259C,
        u8 0x258C, u8 0x2503, u8 0x2590,
        u8 0x258C, u8 0x2501, u8 0x254B, u8 0x2590,
        u8 0x2599, u8 0x2584, u8 0x2584, u8 0x259F,
        u8 0x2523, u8 0x2501, u8 0x2523, u8 0x2501],
     separator_chars =
       [u8 0x258C, u8 0x2501, u8 0x254B, u8 0x2590,
        u8 0x254B, u8 0x254B]\<rparr>"

definition built_in_styles :: "border_style list" where
  "built_in_styles = [BASIC_STYLE, BASIC2_STYLE, SIMPLE_STYLE, PLAIN_STYLE, DOT_STYLE, EMPTY_STYLE,
     EMPTY2_STYLE, SOLID_STYLE, SOLID_ROUND_STYLE, NICE_STYLE, DOUBLE_STYLE, DOUBLE2_STYLE, BOLD_STYLE,
     BOLD2_STYLE, FRAME_STYLE]"

section \<open>Choosing a style\<close>

text \<open>A style the caller passes: one of the built-in ones or a description of its own.\<close>

record ft_border_chars =
  top_border_ch :: string
  separator_ch :: string
  bottom_border_ch :: string
  side_border_ch :: string
  out_intersect_ch :: string
  in_intersect_ch :: string

record ft_border_style_desc =
  border_chs :: ft_border_chars
  header_border_chs :: ft_border_chars
  hor_separator_char :: string

datatype ft_border_style = Built_in nat | Custom ft_border_style_desc

definition FT_BASIC_STYLE :: ft_border_style where "FT_BASIC_STYLE = Built_in 0"
definition FT_PLAIN_STYLE :: ft_border_style where "FT_PLAIN_STYLE = Built_in 3"

text \<open>The assignments to one array of border characters, in the order of the code.\<close>

definition bor_chars :: "ft_border_chars \<Rightarrow> string list \<Rightarrow> string list" where
  "bor_chars b cs = cs[TT_bip := top_border_ch b, IH_bip := separator_ch b, BB_bip := bottom_border_ch b,
     RR_bip := side_border_ch b, IV_bip := side_border_ch b, LL_bip := side_border_ch b,
     TR_bip := out_intersect_ch b, TV_bip := out_intersect_ch b, TL_bip := out_intersect_ch b,
     RH_bip := out_intersect_ch b, LH_bip := out_intersect_ch b,
     BR_bip := out_intersect_ch b, BV_bip := out_intersect_ch b, BL_bip := out_intersect_ch b,
     II_bip := in_intersect_ch b,
     BI_bip := in_intersect_ch b, RI_bip := in_intersect_ch b, TI_bip := in_intersect_ch b,
     LI_bip := in_intersect_ch b]"

definition no_inner_line :: "ft_border_chars \<Rightarrow> bool" where
  "no_inner_line b \<longleftrightarrow> length (separator_ch b) = 0 \<and> length (in_intersect_ch b) = 0"

text \<open>Both conditions clear elements of \<open>border_chars\<close>, the one about the header too.\<close>

definition set_border_props_for_props :: "f_table_properties \<Rightarrow> ft_border_style \<Rightarrow> f_table_properties option" where
  "set_border_props_for_props properties style =
     (case style of
        Built_in pos \<Rightarrow>
          if pos < length built_in_styles then Some (properties\<lparr>bstyle := built_in_styles ! pos\<rparr>) else None
      | Custom d \<Rightarrow>
          (let bs = bstyle properties;
               b = border_chs d;
               hb = header_border_chs d;
               bc = bor_chars b (border_chars bs);
               bc = (if no_inner_line b then bc[RH_bip := [], LH_bip := []] else bc);
               hc = bor_chars hb (header_border_chars bs);
               bc = (if no_inner_line hb then bc[RH_bip := [], LH_bip := []] else bc);
               sc = (separator_chars bs)[II_sip := out_intersect_ch hb, RH_sip := out_intersect_ch hb,
                      LH_sip := out_intersect_ch hb, BI_sip := out_intersect_ch hb,
                      TI_sip := out_intersect_ch hb, IH_sip := hor_separator_char d]
           in Some (properties\<lparr>bstyle := \<lparr>border_chars = bc, header_border_chars = hc,
                                   separator_chars = sc\<rparr>\<rparr>)))"

section \<open>The longest border element\<close>

definition max_border_elem_strlen :: "f_table_properties \<Rightarrow> nat" where
  "max_border_elem_strlen properties =
     (let bs = bstyle properties;
          result = fold (\<lambda>i r. max r (length (border_chars bs ! i))) [0..<BORDER_ITEM_POS_SIZE] 1;
          result = fold (\<lambda>i r. max r (length (header_border_chars bs ! i))) [0..<BORDER_ITEM_POS_SIZE] result
      in fold (\<lambda>i r. max r (length (separator_chars bs ! i))) [0..<SEPARATOR_ITEM_POS_SIZE] result)"

section \<open>New properties\<close>

definition g_table_properties :: f_table_properties where
  "g_table_properties = \<lparr>bstyle = BASIC_STYLE, cell_properties = [],
     tprops = \<lparr>left_margin = 0, top_margin = 0, right_margin = 0, bottom_margin = 0,
                add_strategy = FT_STRATEGY_REPLACE\<rparr>\<rparr>"

definition g_entire_table_properties :: entire_table_properties where
  "g_entire_table_properties = \<lparr>left_margin = 0, top_margin = 0, right_margin = 0, bottom_margin = 0,
     add_strategy = FT_STRATEGY_REPLACE\<rparr>"

definition create_cell_prop_container :: f_cell_prop_container where
  "create_cell_prop_container = []"

definition create_table_properties :: f_table_properties where
  "create_table_properties =
     (let properties = g_table_properties;
          properties = properties\<lparr>cell_properties := create_cell_prop_container\<rparr>
      in properties\<lparr>tprops := g_entire_table_properties\<rparr>)"

definition copy_table_properties :: "f_table_properties \<Rightarrow> f_table_properties" where
  "copy_table_properties properties =
     (let new_opt = create_table_properties;
          new_opt = new_opt\<lparr>cell_properties := fold (\<lambda>opt c. c @ [opt]) (cell_properties properties)
                                                create_cell_prop_container\<rparr>;
          new_opt = new_opt\<lparr>bstyle := bstyle properties\<rparr>
      in new_opt\<lparr>tprops := tprops properties\<rparr>)"

section \<open>Border styles of the right shape\<close>

definition style_ok :: "border_style \<Rightarrow> bool" where
  "style_ok bs \<longleftrightarrow> length (border_chars bs) = BORDER_ITEM_POS_SIZE
     \<and> length (header_border_chars bs) = BORDER_ITEM_POS_SIZE
     \<and> length (separator_chars bs) = SEPARATOR_ITEM_POS_SIZE"

lemma max_swap: "(\<lambda>i r. max r (f i)) = (\<lambda>i. max (f i :: nat))"
  by (auto simp: fun_eq_iff max.commute)

lemma fold_max_nth:
  "fold (\<lambda>i r. max r (length (xs ! i))) [0..<length xs] m = fold max (map length xs) (m::nat)"
proof -
  have "fold max (map length xs) m = fold max (map (\<lambda>i. length (xs ! i)) [0..<length xs]) m"
    using map_nth [of xs] by (metis (no_types, lifting) comp_apply map_eq_conv map_map)
  also have "\<dots> = fold (\<lambda>i r. max r (length (xs ! i))) [0..<length xs] m"
    by (simp add: fold_map comp_def max_swap)
  finally show ?thesis by simp
qed

lemma max_border_elem:
  assumes "style_ok (bstyle p)"
  shows "1 \<le> max_border_elem_strlen p"
    and "x \<in> set (border_chars (bstyle p)) \<union> set (header_border_chars (bstyle p)) \<union> set (separator_chars (bstyle p))
      \<Longrightarrow> length x \<le> max_border_elem_strlen p"
proof -
  let ?b = "map length (border_chars (bstyle p))" and ?h = "map length (header_border_chars (bstyle p))"
    and ?s = "map length (separator_chars (bstyle p))"
  have eq: "max_border_elem_strlen p = fold max ?s (fold max ?h (fold max ?b 1))"
    using assms by (simp add: max_border_elem_strlen_def style_ok_def Let_def flip: fold_max_nth)
  have le: "1 \<le> fold max ?b 1" "fold max ?b 1 \<le> fold max ?h (fold max ?b 1)"
    "fold max ?h (fold max ?b 1) \<le> max_border_elem_strlen p"
    unfolding eq by (rule fold_max_ge)+
  then show "1 \<le> max_border_elem_strlen p" by linarith
  assume x: "x \<in> set (border_chars (bstyle p)) \<union> set (header_border_chars (bstyle p)) \<union> set (separator_chars (bstyle p))"
  have "length x \<le> fold max ?b 1 \<or> length x \<le> fold max ?h (fold max ?b 1) \<or> length x \<le> max_border_elem_strlen p"
    using x fold_max_ge(2) [of "length x"] unfolding eq by auto
  then show "length x \<le> max_border_elem_strlen p" using le by linarith
qed

lemma built_in_style_ok: "bs \<in> set built_in_styles \<Longrightarrow> style_ok bs"
  by (auto simp: built_in_styles_def style_ok_def BORDER_ITEM_POS_SIZE_def SEPARATOR_ITEM_POS_SIZE_def
    BASIC_STYLE_def BASIC2_STYLE_def SIMPLE_STYLE_def PLAIN_STYLE_def DOT_STYLE_def EMPTY_STYLE_def
    EMPTY2_STYLE_def SOLID_STYLE_def SOLID_ROUND_STYLE_def NICE_STYLE_def DOUBLE_STYLE_def
    DOUBLE2_STYLE_def BOLD_STYLE_def BOLD2_STYLE_def FRAME_STYLE_def)

lemma set_border_style_ok:
  assumes "style_ok (bstyle p)" and "set_border_props_for_props p style = Some q"
  shows "style_ok (bstyle q)"
  using assms
  by (auto simp: set_border_props_for_props_def Let_def style_ok_def bor_chars_def
    dest: nth_mem [THEN built_in_style_ok, unfolded style_ok_def] split: ft_border_style.splits if_splits)

lemma create_style_ok [simp]: "style_ok (bstyle create_table_properties)"
  using built_in_style_ok [of BASIC_STYLE]
  by (simp add: create_table_properties_def g_table_properties_def built_in_styles_def)

end
