(* ===== verification/Fort_Cell.thy ===== *)
theory Fort_Cell
  imports Fort_Styles
begin

text \<open>
  Cells of libfort (\<open>cell.c\<close> and \<open>buffer_printf\<close> of \<open>string_buffer.c\<close> inside
  \<open>src/src/libfort/fort.c\<close>): size of a cell and printing one line of it, and what it prints.

  The context of a print, a row and a column of a table with its properties, is passed as three
  arguments.  The text of a cell is initialised when the cell is created.  A cell is a record over the
  type of its buffer: here buffers of type \<open>CHAR_BUF\<close>, in the theory Fort\_Typed those of all types.
\<close>

datatype f_cell_type = COMMON_CELL | GROUP_MASTER_CELL | GROUP_SLAVE_CELL

record 'b f_cell_of =
  cell_type :: f_cell_type
  str_buffer :: 'b

type_synonym f_cell = "f_string_buffer f_cell_of"

definition create_cell :: f_cell where
  "create_cell = \<lparr>cell_type = COMMON_CELL, str_buffer = create_string_buffer DEFAULT_STR_BUF_SIZE\<rparr>"

definition copy_cell :: "f_cell \<Rightarrow> f_cell option" where
  "copy_cell cell = do {
     b \<leftarrow> copy_string_buffer (str_buffer cell);
     Some (create_cell\<lparr>str_buffer := b, cell_type := cell_type cell\<rparr>)
   }"

definition set_cell_type :: "f_cell_type \<Rightarrow> 'b f_cell_of \<Rightarrow> 'b f_cell_of" where
  "set_cell_type ty cell = cell\<lparr>cell_type := ty\<rparr>"

definition get_cell_type :: "'b f_cell_of \<Rightarrow> f_cell_type" where
  "get_cell_type cell = cell_type cell"

definition fill_cell_from_string :: "f_cell \<Rightarrow> string \<Rightarrow> int \<times> f_cell" where
  "fill_cell_from_string cell str =
     (let (st, b) = fill_buffer_from_string (str_buffer cell) str in (st, cell\<lparr>str_buffer := b\<rparr>))"

definition fill_cell_from_buffer :: "f_cell \<Rightarrow> f_string_buffer \<Rightarrow> (int \<times> f_cell) option" where
  "fill_cell_from_buffer cell buffer = do { s \<leftarrow> sb_str buffer; Some (fill_cell_from_string cell s) }"

section \<open>Devices\<close>

text \<open>
  What depends on the type of a buffer and on the type of the output: the number of lines of a
  buffer, its columns, one line of it as a printer with the columns it takes, and the printing of
  a \<open>char\<close> string a number of times.  The functions below do the switches over these types by
  their argument \<open>dev\<close>.
\<close>

record ('b, 'c) text_device =
  dev_height :: "'b \<Rightarrow> nat option"
  dev_width :: "'b \<Rightarrow> nat option"
  dev_line :: "'b \<Rightarrow> nat \<Rightarrow> ('c printer_of \<times> int) option option"
  dev_strings :: "nat \<Rightarrow> string \<Rightarrow> 'c printer_of"

definition char_device :: "(f_string_buffer, char) text_device" where
  "char_device = \<lparr>dev_height = buffer_text_visible_height, dev_width = buffer_text_visible_width,
     dev_line = (\<lambda>b i. map_option (map_option (\<lambda>s. (buffer_print_range s, int (length s)))) (buffer_substring b i)),
     dev_strings = print_n_strings\<rparr>"

section \<open>Size\<close>

definition cell_vis_width ::
  "('b, 'c) text_device \<Rightarrow> 'b f_cell_of \<Rightarrow> f_table_properties \<Rightarrow> nat \<Rightarrow> nat \<Rightarrow> nat option" where
  "cell_vis_width dev cell properties row column = do {
     padding_left \<leftarrow> size_prop properties row column FT_CPROP_LEFT_PADDING;
     padding_right \<leftarrow> size_prop properties row column FT_CPROP_RIGHT_PADDING;
     w \<leftarrow> dev_width dev (str_buffer cell);
     min_width \<leftarrow> size_prop properties row column FT_CPROP_MIN_WIDTH;
     Some (max (padding_left + padding_right + w) min_width)
   }"

definition cell_invis_codes_width :: "'b f_cell_of \<Rightarrow> f_table_properties \<Rightarrow> nat \<Rightarrow> nat \<Rightarrow> nat option" where
  "cell_invis_codes_width cell properties row column = do {
     cell_style_tag \<leftarrow> get_style_tag_for_cell properties row column;
     reset_cell_style_tag \<leftarrow> get_reset_style_tag_for_cell properties row column;
     content_style_tag \<leftarrow> get_style_tag_for_content properties row column;
     reset_content_style_tag \<leftarrow> get_reset_style_tag_for_content properties row column;
     Some (length cell_style_tag + length reset_cell_style_tag + length content_style_tag
       + length reset_content_style_tag)
   }"

definition hint_height_cell ::
  "('b, 'c) text_device \<Rightarrow> 'b f_cell_of \<Rightarrow> f_table_properties \<Rightarrow> nat \<Rightarrow> nat \<Rightarrow> nat option" where
  "hint_height_cell dev cell properties row column = do {
     padding_top \<leftarrow> size_prop properties row column FT_CPROP_TOP_PADDING;
     padding_bottom \<leftarrow> size_prop properties row column FT_CPROP_BOTTOM_PADDING;
     empty_string_height \<leftarrow> size_prop properties row column FT_CPROP_EMPTY_STR_HEIGHT;
     text_height \<leftarrow> dev_height dev (str_buffer cell);
     Some (padding_top + padding_bottom + (if text_height = 0 then empty_string_height else text_height))
   }"

section \<open>Printing\<close>

definition spaces :: "('b, 'c) text_device \<Rightarrow> nat \<Rightarrow> 'c printer_of" where
  "spaces dev n = dev_strings dev n '' ''"

definition print_str :: "('b, 'c) text_device \<Rightarrow> string \<Rightarrow> 'c printer_of" where
  "print_str dev s = dev_strings dev 1 s"

definition buffer_printf ::
  "('b, 'c) text_device \<Rightarrow> 'b \<Rightarrow> nat \<Rightarrow> f_table_properties \<Rightarrow> nat \<Rightarrow> nat \<Rightarrow> nat \<Rightarrow> string \<Rightarrow> string \<Rightarrow> 'c printer_of" where
  "buffer_printf dev buffer buffer_row props row column vis_width content_style_tag reset_content_style_tag cntx = do {
     height \<leftarrow> dev_height dev buffer;
     if buffer_row \<ge> height then Some (-1, cntx)
     else do {
       content_width \<leftarrow> dev_width dev buffer;
       if vis_width < content_width then Some (-1, cntx)
       else do {
         al \<leftarrow> get_cell_property_hierarchically props row column FT_CPROP_TEXT_ALIGN;
         (left, right) \<leftarrow>
           (if al = FT_ALIGNED_LEFT then Some (0, vis_width - content_width)
            else if al = FT_ALIGNED_CENTER then
              let left = (vis_width - content_width) div 2 in Some (left, vis_width - content_width - left)
            else if al = FT_ALIGNED_RIGHT then Some (vis_width - content_width, 0)
            else None);
         line \<leftarrow> dev_line dev buffer buffer_row;
         (case line of
            None \<Rightarrow> Some (-1, cntx)
          | Some (print_range, str_it_width) \<Rightarrow>
              if str_it_width < 0 \<or> content_width < nat str_it_width then Some (-1, cntx)
              else
                let padding = content_width - nat str_it_width in
                print_seq (-1)
                  [spaces dev left, print_str dev content_style_tag, print_range,
                   print_str dev reset_content_style_tag, spaces dev padding, spaces dev right] cntx)
       }
     }
   }"

text \<open>\<open>row\<close> is the line inside the cell; the cell stands at \<open>crow\<close> and \<open>column\<close> of the table.\<close>

definition cell_printf ::
  "('b, 'c) text_device \<Rightarrow> 'b f_cell_of \<Rightarrow> nat \<Rightarrow> f_table_properties \<Rightarrow> nat \<Rightarrow> nat \<Rightarrow> nat \<Rightarrow> 'c printer_of" where
  "cell_printf dev cell row properties crow column vis_width cntx = do {
     min_width \<leftarrow> cell_vis_width dev cell properties crow column;
     if vis_width < min_width then Some (-1, cntx)
     else do {
       padding_top \<leftarrow> size_prop properties crow column FT_CPROP_TOP_PADDING;
       padding_left \<leftarrow> size_prop properties crow column FT_CPROP_LEFT_PADDING;
       padding_right \<leftarrow> size_prop properties crow column FT_CPROP_RIGHT_PADDING;
       cell_style_tag \<leftarrow> get_style_tag_for_cell properties crow column;
       reset_cell_style_tag \<leftarrow> get_reset_style_tag_for_cell properties crow column;
       content_style_tag \<leftarrow> get_style_tag_for_content properties crow column;
       reset_content_style_tag \<leftarrow> get_reset_style_tag_for_content properties crow column;
       let buf_len = vis_width + length cell_style_tag + length reset_cell_style_tag
             + length content_style_tag + length reset_content_style_tag;
       let L2 = padding_left;
       let R2 = padding_right;
       let R3 = length reset_cell_style_tag;
       hint \<leftarrow> hint_height_cell dev cell properties crow column;
       text_height \<leftarrow> dev_height dev (str_buffer cell);
       if row \<ge> hint \<or> row < padding_top \<or> row \<ge> padding_top + text_height then
         let total_written = length cell_style_tag + length content_style_tag + length reset_content_style_tag in
         print_seq (-1)
           [print_str dev cell_style_tag, print_str dev content_style_tag, print_str dev reset_content_style_tag,
            spaces dev (buf_len - total_written - R3), print_str dev reset_cell_style_tag] cntx
       else
         print_seq (-1)
           [print_str dev cell_style_tag, spaces dev L2,
            buffer_printf dev (str_buffer cell) (row - padding_top) properties crow column
              (vis_width - L2 - R2) content_style_tag reset_content_style_tag,
            spaces dev R2, print_str dev reset_cell_style_tag] cntx
     }
   }"

section \<open>The line a cell prints\<close>

text \<open>
  The text of a cell that is well formed: initialised, and its properties in range.  The values
  \<open>cell_geom\<close> gives are those the printing works with.
\<close>

record cell_geom =
  g_left :: nat
  g_right :: nat
  g_top :: nat
  g_bottom :: nat
  g_empty :: nat
  g_min :: nat
  g_align :: int
  g_style :: string
  g_reset :: string
  g_cstyle :: string
  g_creset :: string

definition cell_geom_of :: "f_table_properties \<Rightarrow> nat \<Rightarrow> nat \<Rightarrow> cell_geom option" where
  "cell_geom_of props row col = do {
     l \<leftarrow> size_prop props row col FT_CPROP_LEFT_PADDING;
     r \<leftarrow> size_prop props row col FT_CPROP_RIGHT_PADDING;
     t \<leftarrow> size_prop props row col FT_CPROP_TOP_PADDING;
     b \<leftarrow> size_prop props row col FT_CPROP_BOTTOM_PADDING;
     e \<leftarrow> size_prop props row col FT_CPROP_EMPTY_STR_HEIGHT;
     m \<leftarrow> size_prop props row col FT_CPROP_MIN_WIDTH;
     a \<leftarrow> get_cell_property_hierarchically props row col FT_CPROP_TEXT_ALIGN;
     s1 \<leftarrow> get_style_tag_for_cell props row col;
     s2 \<leftarrow> get_reset_style_tag_for_cell props row col;
     s3 \<leftarrow> get_style_tag_for_content props row col;
     s4 \<leftarrow> get_reset_style_tag_for_content props row col;
     if a = FT_ALIGNED_LEFT \<or> a = FT_ALIGNED_CENTER \<or> a = FT_ALIGNED_RIGHT
     then Some \<lparr>g_left = l, g_right = r, g_top = t, g_bottom = b, g_empty = e, g_min = m, g_align = a,
            g_style = s1, g_reset = s2, g_cstyle = s3, g_creset = s4\<rparr>
     else None
   }"

text \<open>
  A text as a device shows it: its lines, each with what is written for it and the columns it
  takes.  \<open>enc\<close> gives what is written for a \<open>char\<close> string, \<open>pad enc n\<close> for \<open>n\<close> blanks.
\<close>

type_synonym 'c text_lines = "('c list \<times> nat) list"

definition lines_width :: "'c text_lines \<Rightarrow> nat" where
  "lines_width ls = fold max (map snd ls) 0"

lemma lines_width_ge: "l \<in> set ls \<Longrightarrow> snd l \<le> lines_width ls"
  unfolding lines_width_def by (rule fold_max_ge) simp

definition pad :: "(string \<Rightarrow> 'c list) \<Rightarrow> nat \<Rightarrow> 'c list" where
  "pad enc n = concat (replicate n (enc '' ''))"

definition box_width :: "cell_geom \<Rightarrow> 'c text_lines \<Rightarrow> nat" where
  "box_width g ls = max (g_left g + g_right g + lines_width ls) (g_min g)"

definition box_height :: "cell_geom \<Rightarrow> 'c text_lines \<Rightarrow> nat" where
  "box_height g ls = g_top g + g_bottom g + (if ls = [] then g_empty g else length ls)"

definition geom_invis :: "cell_geom \<Rightarrow> nat" where
  "geom_invis g = length (g_style g) + length (g_reset g) + length (g_cstyle g) + length (g_creset g)"

text \<open>How the free space of \<open>n\<close> characters is divided.\<close>

definition align_left :: "int \<Rightarrow> nat \<Rightarrow> nat" where
  "align_left a n = (if a = FT_ALIGNED_LEFT then 0 else if a = FT_ALIGNED_CENTER then n div 2 else n)"

lemma align_left_le: "align_left a n \<le> n"
  by (simp add: align_left_def)

text \<open>Line \<open>i\<close> of the text that is printed \<open>w\<close> wide, and line \<open>i\<close> of a cell.\<close>

definition text_line :: "(string \<Rightarrow> 'c list) \<Rightarrow> cell_geom \<Rightarrow> 'c text_lines \<Rightarrow> nat \<Rightarrow> nat \<Rightarrow> 'c list" where
  "text_line enc g ls w i =
     (let units = fst (ls ! i); columns = snd (ls ! i); free = w - lines_width ls; left = align_left (g_align g) free
      in pad enc left @ enc (g_cstyle g) @ units @ enc (g_creset g) @ pad enc (lines_width ls - columns)
         @ pad enc (free - left))"

definition box_line :: "(string \<Rightarrow> 'c list) \<Rightarrow> cell_geom \<Rightarrow> 'c text_lines \<Rightarrow> nat \<Rightarrow> nat \<Rightarrow> 'c list" where
  "box_line enc g ls w i =
     (if g_top g \<le> i \<and> i < g_top g + length ls then
        enc (g_style g) @ pad enc (g_left g) @ text_line enc g ls (w - g_left g - g_right g) (i - g_top g)
        @ pad enc (g_right g) @ enc (g_reset g)
      else enc (g_style g) @ enc (g_cstyle g) @ enc (g_creset g) @ pad enc w @ enc (g_reset g))"

text \<open>The tags of a cell are strings the device can print.\<close>

definition plain_tags :: "(string \<Rightarrow> bool) \<Rightarrow> cell_geom \<Rightarrow> bool" where
  "plain_tags plain g \<longleftrightarrow> plain (g_style g) \<and> plain (g_reset g) \<and> plain (g_cstyle g) \<and> plain (g_creset g)"

lemma geom_props:
  assumes "cell_geom_of p r c = Some g"
  shows "size_prop p r c FT_CPROP_EMPTY_STR_HEIGHT = Some (g_empty g)"
    and "size_prop p r c FT_CPROP_TOP_PADDING = Some (g_top g)"
    and "size_prop p r c FT_CPROP_BOTTOM_PADDING = Some (g_bottom g)"
    and "size_prop p r c FT_CPROP_LEFT_PADDING = Some (g_left g)"
    and "size_prop p r c FT_CPROP_RIGHT_PADDING = Some (g_right g)"
    and "size_prop p r c FT_CPROP_MIN_WIDTH = Some (g_min g)"
    and "get_cell_property_hierarchically p r c FT_CPROP_TEXT_ALIGN = Some (g_align g)"
    and "get_style_tag_for_cell p r c = Some (g_style g)"
    and "get_reset_style_tag_for_cell p r c = Some (g_reset g)"
    and "get_style_tag_for_content p r c = Some (g_cstyle g)"
    and "get_reset_style_tag_for_content p r c = Some (g_creset g)"
    and "g_align g = FT_ALIGNED_LEFT \<or> g_align g = FT_ALIGNED_CENTER \<or> g_align g = FT_ALIGNED_RIGHT"
  using assms by (auto simp: cell_geom_of_def split: if_splits)

lemma invis_codes_width: "cell_geom_of p r c = Some g \<Longrightarrow> cell_invis_codes_width cell p r c = Some (geom_invis g)"
  by (simp add: cell_invis_codes_width_def geom_invis_def geom_props)

section \<open>Printing a cell prints that line\<close>

text \<open>
  The contract of a device: what it prints for strings and lines.  \<open>plain\<close> are the strings it can
  print, \<open>k\<close> bounds the characters a column takes; \<open>shows\<close> relates a buffer to its lines.
\<close>

locale text_output =
  fixes sz :: nat and k :: nat
    and dev :: "('b, 'c) text_device"
    and enc :: "string \<Rightarrow> 'c list"
    and plain :: "string \<Rightarrow> bool"
    and shows_lines :: "'b \<Rightarrow> 'c text_lines \<Rightarrow> bool"
  assumes sz_pos: "0 < sz" and k_pos: "0 < k"
    and strings: "plain s \<Longrightarrow> writes sz (dev_strings dev n s) (concat (replicate n (enc s)))"
    and blank_plain: "plain '' ''" and newline_plain: "plain [newline]"
    and enc_length: "length (enc s) \<le> length s"
    and height: "shows_lines b ls \<Longrightarrow> dev_height dev b = Some (length ls)"
    and width: "shows_lines b ls \<Longrightarrow> dev_width dev b = Some (lines_width ls)"
    and line: "shows_lines b ls \<Longrightarrow> i < length ls \<Longrightarrow>
      \<exists>p. dev_line dev b i = Some (Some (p, int (snd (ls ! i)))) \<and> writes sz p (fst (ls ! i))"
    and line_length: "shows_lines b ls \<Longrightarrow> l \<in> set ls \<Longrightarrow> length (fst l) \<le> k * snd l"
begin

lemma writes_spaces: "writes sz (spaces dev n) (pad enc n)"
  unfolding spaces_def pad_def by (rule strings [OF blank_plain])

lemma writes_str: "plain s \<Longrightarrow> writes sz (print_str dev s) (enc s)"
  using strings [of s 1] by (simp add: print_str_def)

lemma length_pad: "length (pad enc n) \<le> n"
proof -
  have "n * length (enc '' '') \<le> n * 1" using enc_length [of "'' ''"] by (intro mult_le_mono2) simp
  then show ?thesis by (simp add: pad_def length_concat_replicate)
qed

lemma cell_size:
  assumes "cell_geom_of p r c = Some g" and "shows_lines (str_buffer cell) ls"
  shows "cell_vis_width dev cell p r c = Some (box_width g ls)"
    and "hint_height_cell dev cell p r c = Some (box_height g ls)"
  using height [OF assms(2)] width [OF assms(2)]
  by (simp_all add: cell_vis_width_def hint_height_cell_def box_width_def box_height_def geom_props [OF assms(1)])

lemma writes_buffer:
  assumes g: "cell_geom_of p r c = Some g" and s: "shows_lines b ls"
    and i: "i < length ls" and w: "lines_width ls \<le> w" and tags: "plain_tags plain g"
  shows "writes sz (buffer_printf dev b i p r c w (g_cstyle g) (g_creset g)) (text_line enc g ls w i)"
proof -
  let ?u = "fst (ls ! i)" and ?n = "snd (ls ! i)"
  let ?free = "w - lines_width ls"
  let ?left = "align_left (g_align g) ?free"
  obtain pr where pr: "dev_line dev b i = Some (Some (pr, int ?n))" "writes sz pr ?u" using line [OF s i] by blast
  have n: "?n \<le> lines_width ls" using i by (intro lines_width_ge nth_mem)
  let ?ps = "[spaces dev ?left, print_str dev (g_cstyle g), pr, print_str dev (g_creset g),
       spaces dev (lines_width ls - ?n), spaces dev (?free - ?left)]"
  have "buffer_printf dev b i p r c w (g_cstyle g) (g_creset g) = print_seq (-1) ?ps"
    using height [OF s] width [OF s] pr(1) n i w geom_props(7,12) [OF g]
    by (intro ext) (auto simp: buffer_printf_def align_left_def Let_def FT_ALIGNED_LEFT_def
      FT_ALIGNED_CENTER_def FT_ALIGNED_RIGHT_def)
  moreover have "writes sz (print_seq (-1) ?ps) (concat [pad enc ?left, enc (g_cstyle g), ?u, enc (g_creset g),
       pad enc (lines_width ls - ?n), pad enc (?free - ?left)])"
    using tags by (intro writes_seq [OF sz_pos] list_all2_Cons [THEN iffD2] conjI writes_spaces writes_str pr)
      (simp_all add: plain_tags_def)
  ultimately show ?thesis by (simp add: text_line_def Let_def)
qed

lemma writes_cell:
  assumes g: "cell_geom_of p r c = Some g" and s: "shows_lines (str_buffer cell) ls"
    and w: "box_width g ls \<le> w" and tags: "plain_tags plain g"
  shows "writes sz (cell_printf dev cell i p r c w) (box_line enc g ls w i)"
proof -
  note ev = cell_size [OF g s] height [OF s] geom_props [OF g]
  have le: "\<not> w < box_width g ls" using w by simp
  show ?thesis
  proof (cases "g_top g \<le> i \<and> i < g_top g + length ls")
    case False
    then have c: "i \<ge> box_height g ls \<or> i < g_top g \<or> i \<ge> g_top g + length ls" by linarith
    let ?ps = "[print_str dev (g_style g), print_str dev (g_cstyle g), print_str dev (g_creset g), spaces dev w,
      print_str dev (g_reset g)]"
    have "cell_printf dev cell i p r c w = print_seq (-1) ?ps"
      using ev le c by (intro ext) (simp add: cell_printf_def Let_def)
    moreover have "writes sz (print_seq (-1) ?ps)
        (concat [enc (g_style g), enc (g_cstyle g), enc (g_creset g), pad enc w, enc (g_reset g)])"
      using tags by (intro writes_seq [OF sz_pos] list_all2_Cons [THEN iffD2] conjI writes_spaces writes_str)
        (simp_all add: plain_tags_def)
    moreover have "box_line enc g ls w i = enc (g_style g) @ enc (g_cstyle g) @ enc (g_creset g) @ pad enc w @ enc (g_reset g)"
      using False by (simp only: box_line_def if_False)
    ultimately show ?thesis by simp
  next
    case True
    then have "i < box_height g ls" by (auto simp: box_height_def)
    with True have c: "\<not> (i \<ge> box_height g ls \<or> i < g_top g \<or> i \<ge> g_top g + length ls)" by linarith
    let ?w = "w - g_left g - g_right g"
    let ?bp = "buffer_printf dev (str_buffer cell) (i - g_top g) p r c ?w (g_cstyle g) (g_creset g)"
    let ?ps = "[print_str dev (g_style g), spaces dev (g_left g), ?bp, spaces dev (g_right g), print_str dev (g_reset g)]"
    have "cell_printf dev cell i p r c w = print_seq (-1) ?ps"
      using ev le c by (intro ext) (simp add: cell_printf_def Let_def)
    moreover have "writes sz ?bp (text_line enc g ls ?w (i - g_top g))"
    proof (rule writes_buffer [OF g s _ _ tags])
      show "i - g_top g < length ls" using True by linarith
      show "lines_width ls \<le> ?w" using w unfolding box_width_def by linarith
    qed
    then have "writes sz (print_seq (-1) ?ps)
        (concat [enc (g_style g), pad enc (g_left g), text_line enc g ls ?w (i - g_top g), pad enc (g_right g), enc (g_reset g)])"
      using tags by (intro writes_seq [OF sz_pos] list_all2_Cons [THEN iffD2] conjI writes_spaces writes_str)
        (simp_all add: plain_tags_def)
    moreover have "box_line enc g ls w i = enc (g_style g) @ pad enc (g_left g) @ text_line enc g ls ?w (i - g_top g)
        @ pad enc (g_right g) @ enc (g_reset g)"
      using True by (simp only: box_line_def simp_thms if_True)
    ultimately show ?thesis by simp
  qed
qed

text \<open>The characters of a line: \<open>k\<close> for each column, and the tags.\<close>

lemma length_text_line:
  assumes "shows_lines b ls" and "i < length ls" and "lines_width ls \<le> w"
  shows "length (text_line enc g ls w i) \<le> length (g_cstyle g) + length (g_creset g) + k * w"
proof -
  let ?u = "fst (ls ! i)" and ?n = "snd (ls ! i)" and ?W = "lines_width ls"
  let ?free = "w - ?W"
  let ?left = "align_left (g_align g) ?free"
  have n: "?n \<le> ?W" using assms(2) by (intro lines_width_ge nth_mem)
  have u: "length ?u \<le> k * ?n" using line_length [OF assms(1)] assms(2) by simp
  have left: "?left \<le> ?free" by (rule align_left_le)
  have "?left + (?W - ?n) + (?free - ?left) = w - ?n" using n left assms(3) by linarith
  moreover have "w - ?n \<le> k * (w - ?n)" using k_pos by simp
  moreover have "k * ?n + k * (w - ?n) = k * w" using n assms(3) by (simp flip: add_mult_distrib2)
  moreover have "length (text_line enc g ls w i) = length (pad enc ?left) + length (enc (g_cstyle g)) + length ?u
      + length (enc (g_creset g)) + length (pad enc (?W - ?n)) + length (pad enc (?free - ?left))"
    by (simp add: text_line_def Let_def)
  ultimately show ?thesis
    using u length_pad [of ?left] length_pad [of "?W - ?n"] length_pad [of "?free - ?left"]
      enc_length [of "g_cstyle g"] enc_length [of "g_creset g"] by linarith
qed

lemma length_box_line:
  assumes "shows_lines b ls" and "box_width g ls \<le> w"
  shows "length (box_line enc g ls w i) \<le> k * w + geom_invis g"
proof (cases "g_top g \<le> i \<and> i < g_top g + length ls")
  case True
  let ?w = "w - g_left g - g_right g"
  have "g_left g + g_right g + lines_width ls \<le> w" using assms(2) by (simp add: box_width_def)
  then have w: "lines_width ls \<le> ?w" "w = g_left g + g_right g + ?w" by linarith+
  have "length (text_line enc g ls ?w (i - g_top g)) \<le> length (g_cstyle g) + length (g_creset g) + k * ?w"
    using True by (intro length_text_line [OF assms(1) _ w(1)]) linarith
  moreover have "k * w = k * g_left g + k * g_right g + k * ?w" using w(2) by (metis add_mult_distrib2)
  moreover have "g_left g \<le> k * g_left g" "g_right g \<le> k * g_right g" using k_pos by simp_all
  moreover have "length (box_line enc g ls w i) = length (enc (g_style g)) + length (pad enc (g_left g))
      + length (text_line enc g ls ?w (i - g_top g)) + length (pad enc (g_right g)) + length (enc (g_reset g))"
    using True by (simp add: box_line_def)
  ultimately show ?thesis
    using length_pad [of "g_left g"] length_pad [of "g_right g"] enc_length [of "g_style g"] enc_length [of "g_reset g"]
    unfolding geom_invis_def by linarith
next
  case False
  have "w \<le> k * w" using k_pos by simp
  moreover have "length (box_line enc g ls w i) = length (enc (g_style g)) + length (enc (g_cstyle g))
      + length (enc (g_creset g)) + length (pad enc w) + length (enc (g_reset g))"
    by (simp only: box_line_def False if_False) simp
  ultimately show ?thesis
    using length_pad [of w] enc_length [of "g_style g"] enc_length [of "g_reset g"] enc_length [of "g_cstyle g"]
      enc_length [of "g_creset g"]
    unfolding geom_invis_def by linarith
qed

end

section \<open>Characters\<close>

text \<open>The lines of a \<open>char\<close> text; an empty text has none.\<close>

definition char_lines :: "string \<Rightarrow> char text_lines" where
  "char_lines s = (if s = [] then [] else map (\<lambda>l. (l, length l)) (split_on newline s))"

lemma char_lines_simps: "length (char_lines s) = (if s = [] then 0 else length (split_on newline s))"
    "lines_width (char_lines s) = text_width s"
  by (simp_all add: char_lines_def lines_width_def text_width_def comp_def)

lemma char_lines_nth: "i < length (char_lines s) \<Longrightarrow>
    i < length (split_on newline s) \<and> char_lines s ! i = (split_on newline s ! i, length (split_on newline s ! i))"
  by (auto simp: char_lines_def split: if_splits)

interpretation chars: text_output 1 1 char_device id "\<lambda>_. True" "\<lambda>b ls. \<exists>s. sb_str b = Some s \<and> ls = char_lines s"
proof unfold_locales
  fix b :: f_string_buffer and ls :: "char text_lines" and i
  assume "\<exists>s. sb_str b = Some s \<and> ls = char_lines s"
  then obtain s where s: "sb_str b = Some s" "ls = char_lines s" by blast
  show "dev_height char_device b = Some (length ls)"
    using s strchr_count_split [of s newline]
    by (simp add: char_device_def buffer_text_visible_height_def char_lines_simps)
  show "dev_width char_device b = Some (lines_width ls)"
    using s by (simp add: char_device_def buffer_text_visible_width_def text_width_loop char_lines_simps)
  show "\<exists>p. dev_line char_device b i = Some (Some (p, int (snd (ls ! i)))) \<and> writes 1 p (fst (ls ! i))" if "i < length ls"
    using that s char_lines_nth [of i s] writes_range
    by (simp add: char_device_def buffer_substring_def substring_split)
  show "length (fst l) \<le> 1 * snd l" if "l \<in> set ls" for l
    using that s by (auto simp: char_lines_def split: if_splits)
qed (use writes_n_strings in \<open>simp_all add: char_device_def\<close>)

end
