(* ===== verification/Fort_Row.thy ===== *)
theory Fort_Row
  imports Fort_Cell
begin

text \<open>
  Rows of libfort (\<open>row.c\<close> inside \<open>src/src/libfort/fort.c\<close>): building a row from a
  text, changing its cells, spans, and printing a row and the line between two rows.

  A row is the sequence of slots its vector holds.  Reading a slot that was never written is a
  fault.
\<close>

type_synonym f_row = "f_cell slots"

record f_separator =
  enabled :: bool

section \<open>Access\<close>

definition create_row :: "'c slots" where
  "create_row = []"

definition columns_in_row :: "'c slots \<Rightarrow> nat" where
  "columns_in_row row = length row"

text \<open>The result is NULL behind the end.\<close>

definition get_cell :: "'c slots \<Rightarrow> nat \<Rightarrow> 'c option option" where
  "get_cell row col =
     (if col < columns_in_row row then map_option Some (slot_at row col) else Some None)"

function create_up_to :: "f_row \<Rightarrow> nat \<Rightarrow> f_row" where
  "create_up_to row col =
     (if col \<ge> columns_in_row row then create_up_to (seq_push row create_cell) col else row)"
  by pat_completeness auto

termination
  by (relation "measure (\<lambda>(row, col). Suc col - length row)") (auto simp: columns_in_row_def seq_push_def)

declare create_up_to.simps [simp del]

definition get_cell_and_create_if_not_exists :: "f_row \<Rightarrow> nat \<Rightarrow> (f_cell \<times> f_row) option" where
  "get_cell_and_create_if_not_exists row col = do {
     let row' = create_up_to row col;
     cell \<leftarrow> slot_at row' col;
     Some (cell, row')
   }"

definition create_cell_in_position :: "f_row \<Rightarrow> nat \<Rightarrow> (f_cell \<times> f_row) option" where
  "create_cell_in_position row col = do {
     let row' = seq_insert row create_cell col;
     cell \<leftarrow> slot_at row' col;
     Some (cell, row')
   }"

primrec copy_cells :: "f_row \<Rightarrow> f_row \<Rightarrow> f_row option" where
  "copy_cells [] result = Some result"
| "copy_cells (slot # row) result = do {
     cell \<leftarrow> slot;
     new_cell \<leftarrow> copy_cell cell;
     copy_cells row (seq_push result new_cell)
   }"

definition copy_row :: "f_row \<Rightarrow> f_row option" where
  "copy_row row = copy_cells row create_row"

definition split_row :: "'c slots \<Rightarrow> nat \<Rightarrow> 'c slots \<times> 'c slots" where
  "split_row row pos = seq_split row pos"

text \<open>
  The number of erasures is computed in \<open>size_t\<close> and wraps around when \<open>left\<close> lies more than one
  column behind the end; the erasures then fail one by one.
\<close>

definition n_destroy :: "nat \<Rightarrow> nat \<Rightarrow> nat \<Rightarrow> nat" where
  "n_destroy cols_n left right = (min (cols_n - 1) right + 2 ^ 64 - left + 1) mod 2 ^ 64"

definition ft_row_erase_range :: "'c slots \<Rightarrow> nat \<Rightarrow> nat \<Rightarrow> int \<times> 'c slots" where
  "ft_row_erase_range row left right =
     (let cols_n = columns_in_row row in
      if cols_n = 0 \<or> right < left then (FT_SUCCESS, row)
      else (FT_SUCCESS, ((\<lambda>r. snd (seq_erase r left)) ^^ n_destroy cols_n left right) row))"

definition swap_row :: "'c slots \<Rightarrow> 'c slots \<Rightarrow> nat \<Rightarrow> int \<times> 'c slots \<times> 'c slots" where
  "swap_row cur_row ins_row pos =
     (if columns_in_row cur_row = 0 \<and> pos = 0 then (FT_SUCCESS, ins_row, cur_row)
      else (FT_SUCCESS, seq_swap cur_row ins_row pos))"

function fill_row_to :: "f_row \<Rightarrow> nat \<Rightarrow> f_row" where
  "fill_row_to row pos =
     (if columns_in_row row < pos then fill_row_to (seq_push row create_cell) pos else row)"
  by pat_completeness auto

termination
  by (relation "measure (\<lambda>(row, pos). pos - length row)") (auto simp: columns_in_row_def seq_push_def)

declare fill_row_to.simps [simp del]

fun insert_cells :: "'c slots \<Rightarrow> 'c slots \<Rightarrow> nat \<Rightarrow> 'c slots option" where
  "insert_cells cur_row [] pos = Some cur_row"
| "insert_cells cur_row (slot # ins_row) pos = do {
     cell \<leftarrow> slot;
     insert_cells (seq_insert cur_row cell pos) ins_row (pos + 1)
   }"

definition insert_row :: "f_row \<Rightarrow> f_row \<Rightarrow> nat \<Rightarrow> (int \<times> f_row \<times> f_row) option" where
  "insert_row cur_row ins_row pos = do {
     row \<leftarrow> insert_cells (fill_row_to cur_row pos) ins_row pos;
     Some (FT_SUCCESS, row, [])
   }"

section \<open>Spans\<close>

function slave_end :: "'b f_cell_of slots \<Rightarrow> nat \<Rightarrow> nat option" where
  "slave_end row slave_col =
     (if slave_col < columns_in_row row then do {
        cell \<leftarrow> slot_at row slave_col;
        if get_cell_type cell = GROUP_SLAVE_CELL then slave_end row (slave_col + 1) else Some slave_col
      } else Some slave_col)"
  by pat_completeness auto

termination
  by (relation "measure (\<lambda>(row, col). length row - col)") (auto simp: columns_in_row_def)

declare slave_end.simps [simp del]

definition group_cell_number :: "'b f_cell_of slots \<Rightarrow> nat \<Rightarrow> nat option" where
  "group_cell_number row master_cell_col = do {
     master \<leftarrow> get_cell row master_cell_col;
     (case master of
        None \<Rightarrow> Some 0
      | Some cell \<Rightarrow>
          if get_cell_type cell \<noteq> GROUP_MASTER_CELL then Some 1
          else do { e \<leftarrow> slave_end row (master_cell_col + 1); Some (e - master_cell_col) })
   }"

definition get_row_cell_types :: "'b f_cell_of slots \<Rightarrow> nat \<Rightarrow> f_cell_type list option" where
  "get_row_cell_types row types_sz =
     those (map (\<lambda>i. do {
        c \<leftarrow> get_cell row i;
        Some (case c of Some cell \<Rightarrow> get_cell_type cell | None \<Rightarrow> COMMON_CELL) }) [0..<types_sz])"

primrec span_slaves :: "f_row \<Rightarrow> nat \<Rightarrow> nat \<Rightarrow> f_row option" where
  "span_slaves row cell_column 0 = Some row"
| "span_slaves row cell_column (Suc hor_span) = do {
     (slave_cell, row1) \<leftarrow> get_cell_and_create_if_not_exists row cell_column;
     span_slaves (row1[cell_column := Some (set_cell_type GROUP_SLAVE_CELL slave_cell)]) (cell_column + 1) hor_span
   }"

definition row_set_cell_span :: "f_row \<Rightarrow> nat \<Rightarrow> nat \<Rightarrow> (int \<times> f_row) option" where
  "row_set_cell_span row cell_column hor_span =
     (if hor_span < 2 then Some (FT_EINVAL, row)
      else do {
        (main_cell, row1) \<leftarrow> get_cell_and_create_if_not_exists row cell_column;
        let row2 = row1[cell_column := Some (set_cell_type GROUP_MASTER_CELL main_cell)];
        row3 \<leftarrow> span_slaves row2 (cell_column + 1) (hor_span - 1);
        Some (FT_SUCCESS, row3)
      })"

section \<open>A row from a text\<close>

definition text_cell :: "string \<Rightarrow> f_cell" where
  "text_cell s = snd (fill_cell_from_string create_cell s)"

function row_from_loop :: "string \<Rightarrow> f_row \<Rightarrow> nat \<Rightarrow> f_row \<times> nat" where
  "row_from_loop pos row number_of_separators =
     (if pos = [] then (row, number_of_separators)
      else case strchr pos g_col_separator of
        Some (c # rest) \<Rightarrow>
          row_from_loop rest (seq_push row (text_cell (take (length pos - length (c # rest)) pos)))
            (number_of_separators + 1)
      | _ \<Rightarrow> (seq_push row (text_cell pos), number_of_separators))"
  by pat_completeness auto

termination
  by (relation "measure (\<lambda>(pos, _). length pos)") (auto dest: strchr_shorter)

declare row_from_loop.simps [simp del]

text \<open>The last cell is added when the text ends with a separator or is empty.\<close>

function empty_cells_to :: "f_row \<Rightarrow> nat \<Rightarrow> f_row" where
  "empty_cells_to row n = (if columns_in_row row < n then empty_cells_to (seq_push row (text_cell [])) n else row)"
  by pat_completeness auto

termination
  by (relation "measure (\<lambda>(row, n). n - length row)") (auto simp: columns_in_row_def seq_push_def)

declare empty_cells_to.simps [simp del]

definition create_row_from_string :: "string \<Rightarrow> f_row" where
  "create_row_from_string str =
     (let (row, number_of_separators) = row_from_loop str create_row 0
      in empty_cells_to row (number_of_separators + 1))"

definition create_row_from_buffer :: "f_string_buffer \<Rightarrow> f_row option" where
  "create_row_from_buffer buffer = map_option create_row_from_string (sb_str buffer)"

text \<open>
  The formatted text is written into a buffer that is doubled until it fits.  When the text does
  not have as many separators as the format the result is NULL, unless the format has none.
\<close>

definition create_row_from_fmt_string :: "string \<Rightarrow> fmt_arg list \<Rightarrow> f_row option option" where
  "create_row_from_fmt_string fmt args = do {
     let buffer = create_string_buffer DEFAULT_STR_BUF_SIZE;
     let cols_origin = columns_number_in_fmt_string fmt;
     txt \<leftarrow> vsprintf fmt args;
     if int (length txt) > INT_MAX then Some None
     else do {
       buffer \<leftarrow> grow_buffer (length txt + 1) buffer;
       let buffer = buffer\<lparr>sb_str := Some txt\<rparr>;
       let cols = columns_number_in_fmt_string txt;
       if cols = cols_origin then do { row \<leftarrow> create_row_from_buffer buffer; Some (Some row) }
       else if cols_origin = 1 then do {
         (cell, row) \<leftarrow> get_cell_and_create_if_not_exists create_row 0;
         (st, cell') \<leftarrow> fill_cell_from_buffer cell buffer;
         Some (Some (row[0 := Some cell']))
       }
       else Some None
     }
   }"

section \<open>The line between two rows\<close>

datatype f_hor_separator_pos = TOP_SEPARATOR | INSIDE_SEPARATOR | BOTTOM_SEPARATOR

definition isprint :: "char \<Rightarrow> bool" where
  "isprint c = (let n = (of_char c :: nat) in 32 \<le> n \<and> n \<le> 126)"

definition not_printable :: "string \<Rightarrow> bool" where
  "not_printable s \<longleftrightarrow> length s = 0 \<or> length s = 1 \<and> \<not> isprint (hd s)"

text \<open>The seven border elements of the line.\<close>

record line_chars =
  lc_L :: string
  lc_I :: string
  lc_IV :: string
  lc_R :: string
  lc_IT :: string
  lc_IB :: string
  lc_II :: string

definition separator_line_chars ::
  "border_style \<Rightarrow> string list \<Rightarrow> bool \<Rightarrow> bool \<Rightarrow> bool \<Rightarrow> f_hor_separator_pos \<Rightarrow> line_chars" where
  "separator_line_chars bs bc has_sep has_upper has_lower separatorPos =
     (if has_sep then
        (let sc = separator_chars bs;
             lc = \<lparr>lc_L = sc ! LH_sip, lc_I = sc ! IH_sip, lc_IV = sc ! II_sip, lc_R = sc ! RH_sip,
                   lc_IT = sc ! TI_sip, lc_IB = sc ! BI_sip, lc_II = sc ! IH_sip\<rparr>
         in if \<not> has_lower then lc\<lparr>lc_L := bc ! BL_bip, lc_R := bc ! BR_bip\<rparr>
            else if \<not> has_upper then lc\<lparr>lc_L := bc ! TL_bip, lc_R := bc ! TR_bip\<rparr>
            else lc)
      else (case separatorPos of
          TOP_SEPARATOR \<Rightarrow>
            \<lparr>lc_L = bc ! TL_bip, lc_I = bc ! TT_bip, lc_IV = bc ! TV_bip, lc_R = bc ! TR_bip,
             lc_IT = bc ! TV_bip, lc_IB = bc ! TV_bip, lc_II = bc ! TT_bip\<rparr>
        | INSIDE_SEPARATOR \<Rightarrow>
            \<lparr>lc_L = bc ! LH_bip, lc_I = bc ! IH_bip, lc_IV = bc ! II_bip, lc_R = bc ! RH_bip,
             lc_IT = bc ! TI_bip, lc_IB = bc ! BI_bip, lc_II = bc ! IH_bip\<rparr>
        | BOTTOM_SEPARATOR \<Rightarrow>
            \<lparr>lc_L = bc ! BL_bip, lc_I = bc ! BB_bip, lc_IV = bc ! BV_bip, lc_R = bc ! BR_bip,
             lc_IT = bc ! BV_bip, lc_IB = bc ! BV_bip, lc_II = bc ! BB_bip\<rparr>))"

definition column_cross :: "line_chars \<Rightarrow> nat \<Rightarrow> f_cell_type \<Rightarrow> f_cell_type \<Rightarrow> string" where
  "column_cross lc i top_type bottom_type =
     (if i = 0 then lc_L lc
      else if top_type \<noteq> GROUP_SLAVE_CELL \<and> bottom_type \<noteq> GROUP_SLAVE_CELL then lc_IV lc
      else if top_type = GROUP_SLAVE_CELL \<and> bottom_type = GROUP_SLAVE_CELL then lc_II lc
      else if top_type = GROUP_SLAVE_CELL then lc_IT lc
      else lc_IB lc)"

definition newline_str :: string where "newline_str = [newline]"

definition row_type_of :: "f_table_properties \<Rightarrow> nat \<Rightarrow> int option" where
  "row_type_of properties row = get_cell_property_hierarchically properties row FT_ANY_COLUMN FT_CPROP_ROW_TYPE"

definition print_row_separator ::
  "('b, 'c) text_device \<Rightarrow> f_table_properties \<Rightarrow> nat \<Rightarrow> nat list \<Rightarrow> nat \<Rightarrow> 'b f_cell_of slots option
   \<Rightarrow> 'b f_cell_of slots option \<Rightarrow> f_hor_separator_pos \<Rightarrow> f_separator option \<Rightarrow> 'c printer_of" where
  "print_row_separator dev properties row col_width_arr cols upper_row lower_row separatorPos sep cntx = do {
     top_row_types \<leftarrow> (case upper_row of Some r \<Rightarrow> get_row_cell_types r cols
                        | None \<Rightarrow> Some (replicate cols GROUP_SLAVE_CELL));
     bottom_row_types \<leftarrow> (case lower_row of Some r \<Rightarrow> get_row_cell_types r cols
                        | None \<Rightarrow> Some (replicate cols GROUP_SLAVE_CELL));
     lower_row_type \<leftarrow> (if lower_row \<noteq> None then row_type_of properties row else Some FT_ROW_COMMON);
     upper_row_type \<leftarrow> (if upper_row \<noteq> None then row_type_of properties (row - 1) else Some FT_ROW_COMMON);
     let bs = bstyle properties;
     let bc = (if upper_row_type = FT_ROW_HEADER \<or> lower_row_type = FT_ROW_HEADER
               then header_border_chars bs else border_chars bs);
     let has_sep = (case sep of Some s \<Rightarrow> enabled s | None \<Rightarrow> False);
     let lc = separator_line_chars bs bc has_sep (upper_row \<noteq> None) (lower_row \<noteq> None) separatorPos;
     if not_printable (lc_L lc) \<and> not_printable (lc_I lc) \<and> not_printable (lc_IV lc) \<and> not_printable (lc_R lc)
     then Some (0, cntx)
     else print_seq FT_GEN_ERROR
       ([spaces dev (unat (left_margin (tprops properties)))]
        @ concat (map (\<lambda>i. [print_str dev (column_cross lc i (top_row_types ! i) (bottom_row_types ! i)),
                            dev_strings dev (col_width_arr ! i) (lc_I lc)]) [0..<cols])
        @ [print_str dev (lc_R lc), spaces dev (unat (right_margin (tprops properties))), print_str dev newline_str]) cntx
   }"

section \<open>Printing a row\<close>

definition FORT_COL_SEPARATOR_LENGTH :: nat where "FORT_COL_SEPARATOR_LENGTH = 1"

text \<open>The columns a cell spans beside its own, and the printer of its line \<open>i\<close>.\<close>

definition column_printer ::
  "('b, 'c) text_device \<Rightarrow> 'b f_cell_of slots \<Rightarrow> f_table_properties \<Rightarrow> nat \<Rightarrow> nat list \<Rightarrow> nat \<Rightarrow> nat
   \<Rightarrow> (nat \<times> 'c printer_of) option" where
  "column_printer dev row properties crow col_width_arr i j =
     (if j < columns_in_row row then do {
        cell \<leftarrow> slot_at row j;
        group_slave_sz \<leftarrow> group_cell_number row j;
        let extra = group_slave_sz - 1;
        let vis_width = fold (\<lambda>s w. w + (col_width_arr ! s + FORT_COL_SEPARATOR_LENGTH))
              [j + 1..<j + group_slave_sz] (col_width_arr ! j);
        Some (extra, cell_printf dev cell i properties crow j vis_width)
      } else Some (0, spaces dev (col_width_arr ! j)))"

function print_columns ::
  "('b, 'c) text_device \<Rightarrow> 'b f_cell_of slots \<Rightarrow> f_table_properties \<Rightarrow> nat \<Rightarrow> nat list \<Rightarrow> nat \<Rightarrow> string \<Rightarrow> nat
   \<Rightarrow> 'c printer_of" where
  "print_columns dev row properties crow ws i IV j cntx =
     (if j < length ws then do {
        (extra, p) \<leftarrow> column_printer dev row properties crow ws i j;
        (r, c1) \<leftarrow> p cntx;
        if r < 0 then Some (r, c1)
        else do {
          (r1, c2) \<leftarrow> (if j + extra < length ws - 1 then print_str dev IV c1 else Some (0, c1));
          if r1 < 0 then Some (r1, c2)
          else do {
            (r2, c3) \<leftarrow> print_columns dev row properties crow ws i IV (Suc (j + extra)) c2;
            Some (if r2 < 0 then r2 else r + r1 + r2, c3)
          }
        }
      } else Some (0, cntx))"
  by pat_completeness auto

termination
  by (relation "measure (\<lambda>(_, _, _, _, ws, _, _, j, _). length ws - j)") auto

declare print_columns.simps [simp del]

definition snprintf_row ::
  "('b, 'c) text_device \<Rightarrow> 'b f_cell_of slots \<Rightarrow> f_table_properties \<Rightarrow> nat \<Rightarrow> nat list \<Rightarrow> nat \<Rightarrow> 'c printer_of" where
  "snprintf_row dev row properties crow col_width_arr row_height cntx =
     (if columns_in_row row > length col_width_arr then Some (-1, cntx)
      else do {
        ty \<leftarrow> row_type_of properties crow;
        let bc = (if ty = FT_ROW_HEADER then header_border_chars (bstyle properties)
                  else border_chars (bstyle properties));
        print_seq (-1)
          (concat (map (\<lambda>i.
             [spaces dev (unat (left_margin (tprops properties))), print_str dev (bc ! LL_bip),
              print_columns dev row properties crow col_width_arr i (bc ! IV_bip) 0,
              print_str dev (bc ! RR_bip), spaces dev (unat (right_margin (tprops properties))),
              print_str dev newline_str]) [0..<row_height])) cntx
      })"

end
