(* ===== verification/Fort_Table.thy ===== *)
theory Fort_Table
  imports Fort_Row
begin

text \<open>
  Tables of libfort (\<open>table.c\<close> and \<open>fort_impl.c\<close> inside
  \<open>src/src/libfort/fort.c\<close>): the interface the programs use, the geometry of a table and its
  conversion to a string.
\<close>

text \<open>A table is a record over the types of its cells and of its conversion buffer, so that what does not look
  into them is shared.\<close>

record ('c, 'b) ft_table_of =
  rows :: "'c slots slots"
  separators :: "f_separator slots"
  properties :: f_table_properties
  conv_buffer :: "'b option"
  cur_row :: nat
  cur_col :: nat

type_synonym ft_table = "(f_cell, f_string_buffer) ft_table_of"

definition ft_create_table :: "('c, 'b) ft_table_of" where
  "ft_create_table = \<lparr>rows = [], separators = [], properties = create_table_properties,
     conv_buffer = None, cur_row = 0, cur_col = 0\<rparr>"

primrec copy_rows :: "f_row slots \<Rightarrow> f_row slots \<Rightarrow> f_row slots option" where
  "copy_rows [] result = Some result"
| "copy_rows (slot # rs) result = do {
     row \<leftarrow> slot;
     new_row \<leftarrow> copy_row row;
     copy_rows rs (seq_push result new_row)
   }"

primrec copy_separators :: "f_separator slots \<Rightarrow> f_separator slots \<Rightarrow> f_separator slots option" where
  "copy_separators [] result = Some result"
| "copy_separators (slot # ss) result = do {
     sep \<leftarrow> slot;
     copy_separators ss (seq_push result \<lparr>enabled = enabled sep\<rparr>)
   }"

definition ft_copy_table :: "ft_table \<Rightarrow> ft_table option" where
  "ft_copy_table table = do {
     let result = ft_create_table;
     rs \<leftarrow> copy_rows (rows table) (rows result);
     ss \<leftarrow> copy_separators (separators table) (separators result);
     Some (result\<lparr>rows := rs, separators := ss, properties := copy_table_properties (properties table),
             cur_row := cur_row table, cur_col := cur_col table\<rparr>)
   }"

section \<open>The current position\<close>

text \<open>
  The tail of the current row, when there is one behind the current column, and the table without
  it.
\<close>

definition split_cur_row :: "('c, 'b) ft_table_of \<Rightarrow> ('c slots option \<times> ('c, 'b) ft_table_of) option" where
  "split_cur_row table =
     (if cur_row table \<ge> length (rows table) then Some (None, table)
      else do {
        row \<leftarrow> slot_at (rows table) (cur_row table);
        if cur_col table \<ge> columns_in_row row then Some (None, table)
        else let (tail, rest) = split_row row (cur_col table) in
          Some (Some tail, table\<lparr>rows := (rows table)[cur_row table := Some rest]\<rparr>)
      })"

definition ft_ln :: "('c, 'b) ft_table_of \<Rightarrow> (int \<times> ('c, 'b) ft_table_of) option" where
  "ft_ln table = do {
     let strategy = add_strategy (tprops (properties table));
     table' \<leftarrow>
       (if strategy = FT_STRATEGY_INSERT then do {
          (new_row, t1) \<leftarrow> split_cur_row table;
          Some (case new_row of
                  None \<Rightarrow> t1
                | Some r \<Rightarrow> t1\<lparr>rows := seq_insert (rows t1) r (cur_row t1 + 1)\<rparr>)
        }
        else if strategy = FT_STRATEGY_REPLACE then Some table
        else None);
     Some (FT_SUCCESS, table'\<lparr>cur_col := 0, cur_row := cur_row table' + 1\<rparr>)
   }"

definition ft_set_cur_cell :: "('c, 'b) ft_table_of \<Rightarrow> nat \<Rightarrow> nat \<Rightarrow> ('c, 'b) ft_table_of" where
  "ft_set_cur_cell table row col = table\<lparr>cur_row := row, cur_col := col\<rparr>"

definition ft_row_count :: "('c, 'b) ft_table_of \<Rightarrow> nat" where
  "ft_row_count table = length (rows table)"

definition ft_is_empty :: "('c, 'b) ft_table_of \<Rightarrow> bool" where
  "ft_is_empty table \<longleftrightarrow> ft_row_count table = 0"

section \<open>Rows and cells\<close>

function create_rows_up_to :: "'c slots slots \<Rightarrow> nat \<Rightarrow> 'c slots slots" where
  "create_rows_up_to rs row = (if row \<ge> length rs then create_rows_up_to (seq_push rs create_row) row else rs)"
  by pat_completeness auto

termination
  by (relation "measure (\<lambda>(rs, row). Suc row - length rs)") (auto simp: seq_push_def)

declare create_rows_up_to.simps [simp del]

definition get_row_and_create_if_not_exists :: "('c, 'b) ft_table_of \<Rightarrow> nat \<Rightarrow> ('c slots \<times> ('c, 'b) ft_table_of) option" where
  "get_row_and_create_if_not_exists table row = do {
     let rs = create_rows_up_to (rows table) row;
     r \<leftarrow> slot_at rs row;
     Some (r, table\<lparr>rows := rs\<rparr>)
   }"

text \<open>The buffer of the current cell is written by the only caller, so the new text is an argument.\<close>

definition ft_write_impl :: "ft_table \<Rightarrow> string \<Rightarrow> (int \<times> ft_table) option" where
  "ft_write_impl table cell_content = do {
     (row, t1) \<leftarrow> get_row_and_create_if_not_exists table (cur_row table);
     let strategy = add_strategy (tprops (properties table));
     (cell, row1) \<leftarrow>
       (if strategy = FT_STRATEGY_INSERT then create_cell_in_position row (cur_col table)
        else if strategy = FT_STRATEGY_REPLACE then get_cell_and_create_if_not_exists row (cur_col table)
        else None);
     let (st, cell') = fill_cell_from_string cell cell_content;
     let row2 = row1[cur_col table := Some cell'];
     Some (st, t1\<lparr>rows := (rows t1)[cur_row table := Some row2], cur_col := cur_col t1 + 1\<rparr>)
   }"

fun ft_row_write :: "ft_table \<Rightarrow> string list \<Rightarrow> (int \<times> ft_table) option" where
  "ft_row_write table [] = Some (FT_SUCCESS, table)"
| "ft_row_write table (c # cells) = do {
     (st, t1) \<leftarrow> ft_write_impl table c;
     if FT_IS_ERROR st then Some (st, t1) else ft_row_write t1 cells
   }"

definition ft_row_write_ln :: "ft_table \<Rightarrow> string list \<Rightarrow> (int \<times> ft_table) option" where
  "ft_row_write_ln table cells = do {
     (st, t1) \<leftarrow> ft_row_write table cells;
     if FT_IS_ERROR st then Some (st, t1) else do { (u, t2) \<leftarrow> ft_ln t1; Some (st, t2) }
   }"

fun ft_table_write :: "ft_table \<Rightarrow> string list list \<Rightarrow> (int \<times> ft_table) option" where
  "ft_table_write table [] = Some (FT_SUCCESS, table)"
| "ft_table_write table (r # rs) = do {
     (st, t1) \<leftarrow> ft_row_write table r;
     if FT_IS_ERROR st then Some (st, t1)
     else if rs \<noteq> [] then do { (u, t2) \<leftarrow> ft_ln t1; ft_table_write t2 rs }
     else Some (FT_SUCCESS, t1)
   }"

definition ft_row_printf_impl ::
  "ft_table \<Rightarrow> nat \<Rightarrow> string \<Rightarrow> fmt_arg list \<Rightarrow> (int \<times> ft_table) option" where
  "ft_row_printf_impl table row fmt va = do {
     new_row \<leftarrow> create_row_from_fmt_string fmt va;
     (case new_row of
        None \<Rightarrow> Some (-1, table)
      | Some new_row \<Rightarrow> do {
          let rs = create_rows_up_to (rows table) row;
          let new_cols = columns_in_row new_row;
          cur \<leftarrow> slot_at rs row;
          let strategy = add_strategy (tprops (properties table));
          (st, cur', rest) \<leftarrow>
            (if strategy = FT_STRATEGY_INSERT then insert_row cur new_row (cur_col table)
             else if strategy = FT_STRATEGY_REPLACE then Some (swap_row cur new_row (cur_col table))
             else None);
          let t1 = table\<lparr>rows := rs[row := Some cur']\<rparr>;
          if FT_IS_ERROR st then Some (-1, t1)
          else Some (to_int32 (int new_cols), t1\<lparr>cur_col := cur_col t1 + new_cols\<rparr>)
        })
   }"

definition ft_printf :: "ft_table \<Rightarrow> string \<Rightarrow> fmt_arg list \<Rightarrow> (int \<times> ft_table) option" where
  "ft_printf table fmt va = ft_row_printf_impl table (cur_row table) fmt va"

definition ft_printf_ln :: "ft_table \<Rightarrow> string \<Rightarrow> fmt_arg list \<Rightarrow> (int \<times> ft_table) option" where
  "ft_printf_ln table fmt va = do {
     (result, t1) \<leftarrow> ft_row_printf_impl table (cur_row table) fmt va;
     if result \<ge> 0 then do { (st, t2) \<leftarrow> ft_ln t1; Some (result, t2) } else Some (result, t1)
   }"

section \<open>Erasing a range\<close>

text \<open>
  For \<open>FT_CUR_COLUMN\<close> the code takes the current row.  \<open>rows_n - 1\<close> is computed in
  \<open>size_t\<close>, and reading a row behind the end is a fault.
\<close>

fun erase_columns :: "'c slots slots \<Rightarrow> nat \<Rightarrow> nat \<Rightarrow> nat list \<Rightarrow> 'c slots slots option" where
  "erase_columns rs left right [] = Some rs"
| "erase_columns rs left right (i # is) = do {
     row \<leftarrow> slot_at rs i;
     let (st, row') = ft_row_erase_range row left right;
     erase_columns (rs[i := Some row']) left right is
   }"

primrec erase_empty_rows ::
  "nat \<Rightarrow> nat \<Rightarrow> 'c slots slots \<Rightarrow> f_separator slots \<Rightarrow> ('c slots slots \<times> f_separator slots) option" where
  "erase_empty_rows 0 i rs seps = Some (rs, seps)"
| "erase_empty_rows (Suc n) i rs seps = do {
     row \<leftarrow> slot_at rs i;
     if columns_in_row row \<noteq> 0 then erase_empty_rows n (i + 1) rs seps
     else
       let rs' = snd (seq_erase rs i);
           seps' = (if i < length seps then snd (seq_erase seps i) else seps)
       in erase_empty_rows n i rs' seps'
   }"

definition ft_erase_range ::
  "('c, 'b) ft_table_of \<Rightarrow> nat \<Rightarrow> nat \<Rightarrow> nat \<Rightarrow> nat \<Rightarrow> (int \<times> ('c, 'b) ft_table_of) option" where
  "ft_erase_range table top_row left_col bottom_row right_col =
     (let rows_n = length (rows table);
          top_row = (if top_row = FT_CUR_ROW then cur_row table else top_row);
          bottom_row = (if bottom_row = FT_CUR_ROW then cur_row table else bottom_row);
          left_col = (if left_col = FT_CUR_COLUMN then cur_row table else left_col);
          right_col = (if right_col = FT_CUR_COLUMN then cur_row table else right_col)
      in if top_row > bottom_row \<or> left_col > right_col then Some (FT_EINVAL, table)
      else do {
        rs \<leftarrow> erase_columns (rows table) left_col right_col [top_row..<min rows_n (bottom_row + 1)];
        let n_iterations = (min ((rows_n + 2 ^ 64 - 1) mod 2 ^ 64) bottom_row + 2 ^ 64 - top_row + 1) mod 2 ^ 64;
        (rs, seps) \<leftarrow> erase_empty_rows n_iterations top_row rs (separators table);
        Some (FT_SUCCESS, table\<lparr>rows := rs, separators := seps\<rparr>)
      })"

section \<open>Separators and properties\<close>

function separators_up_to :: "f_separator slots \<Rightarrow> nat \<Rightarrow> f_separator slots" where
  "separators_up_to ss row =
     (if length ss \<le> row then separators_up_to (seq_push ss \<lparr>enabled = False\<rparr>) row else ss)"
  by pat_completeness auto

termination
  by (relation "measure (\<lambda>(ss, row). Suc row - length ss)") (auto simp: seq_push_def)

declare separators_up_to.simps [simp del]

definition ft_add_separator :: "('c, 'b) ft_table_of \<Rightarrow> (int \<times> ('c, 'b) ft_table_of) option" where
  "ft_add_separator table = do {
     let ss = separators_up_to (separators table) (cur_row table);
     sep \<leftarrow> slot_at ss (cur_row table);
     Some (FT_SUCCESS, table\<lparr>separators := ss[cur_row table := Some (sep\<lparr>enabled := True\<rparr>)]\<rparr>)
   }"

definition ft_set_border_style :: "('c, 'b) ft_table_of \<Rightarrow> ft_border_style \<Rightarrow> (int \<times> ('c, 'b) ft_table_of) option" where
  "ft_set_border_style table style = do {
     p \<leftarrow> set_border_props_for_props (properties table) style;
     Some (FT_SUCCESS, table\<lparr>properties := p\<rparr>)
   }"

definition ft_set_cell_prop ::
  "('c, 'b) ft_table_of \<Rightarrow> nat \<Rightarrow> nat \<Rightarrow> 32 word \<Rightarrow> int \<Rightarrow> int \<times> ('c, 'b) ft_table_of" where
  "ft_set_cell_prop table row col property v =
     (let row = (if row = FT_CUR_ROW then cur_row table else row);
          col = (if col = FT_CUR_COLUMN then cur_col table else col);
          (st, cont) = set_cell_property (cell_properties (properties table)) row col property v
      in (st, table\<lparr>properties := (properties table)\<lparr>cell_properties := cont\<rparr>\<rparr>))"

definition ft_set_tbl_prop :: "('c, 'b) ft_table_of \<Rightarrow> 32 word \<Rightarrow> int \<Rightarrow> int \<times> ('c, 'b) ft_table_of" where
  "ft_set_tbl_prop table property v =
     (let (st, p) = set_entire_table_property (properties table) property v
      in (st, table\<lparr>properties := p\<rparr>))"

text \<open>The second condition tests the row for the current column.\<close>

definition ft_set_cell_span :: "ft_table \<Rightarrow> nat \<Rightarrow> nat \<Rightarrow> nat \<Rightarrow> (int \<times> ft_table) option" where
  "ft_set_cell_span table row col hor_span =
     (if hor_span < 2 then Some (FT_EINVAL, table)
      else do {
        let row = (if row = FT_CUR_ROW then cur_row table else row);
        let col = (if row = FT_CUR_COLUMN then cur_col table else col);
        (r, t1) \<leftarrow> get_row_and_create_if_not_exists table row;
        (st, r') \<leftarrow> row_set_cell_span r col hor_span;
        Some (st, t1\<lparr>rows := (rows t1)[row := Some r']\<rparr>)
      })"

definition ft_strerror :: "int \<Rightarrow> string" where
  "ft_strerror error_code =
     (if error_code = FT_MEMORY_ERROR then ''Out of memory''
      else if error_code = FT_GEN_ERROR then ''General error''
      else if error_code = FT_EINVAL then ''Invalid argument''
      else if error_code = FT_INTERN_ERROR then ''Internal libfort error''
      else if error_code < 0 then ''Unknown error code'' else ''Success'')"

section \<open>Geometry\<close>

datatype f_geometry_type = VISIBLE_GEOMETRY | INTERN_REPR_GEOMETRY

definition get_table_sizes :: "('c, 'b) ft_table_of \<Rightarrow> (nat \<times> nat) option" where
  "get_table_sizes table = do {
     rs \<leftarrow> those (rows table);
     Some (length rs, fold (\<lambda>row cols. if columns_in_row row > cols then columns_in_row row else cols) rs 0)
   }"

text \<open>The cell of a row that was read, NULL behind its end.\<close>

definition width_of_cell ::
  "('b, 'c) text_device \<Rightarrow> f_table_properties \<Rightarrow> 'b f_cell_of slots \<Rightarrow> nat \<Rightarrow> nat \<Rightarrow> nat option" where
  "width_of_cell dev p r row col = do {
     c \<leftarrow> get_cell r col;
     (case c of
        None \<Rightarrow> Some 0
      | Some cell \<Rightarrow>
          if get_cell_type cell = COMMON_CELL then cell_vis_width dev cell p row col else Some 0)
   }"

definition height_of_cell ::
  "('b, 'c) text_device \<Rightarrow> f_table_properties \<Rightarrow> 'b f_cell_of slots \<Rightarrow> nat \<Rightarrow> nat \<Rightarrow> nat option" where
  "height_of_cell dev p r row col = do {
     c \<leftarrow> get_cell r col;
     (case c of
        Some cell \<Rightarrow> hint_height_cell dev cell p row col
      | None \<Rightarrow> do {
          empty_height \<leftarrow> size_prop p row col FT_CPROP_EMPTY_STR_HEIGHT;
          if empty_height \<noteq> 0 then do {
            top_padding \<leftarrow> size_prop p row col FT_CPROP_TOP_PADDING;
            bottom_padding \<leftarrow> size_prop p row col FT_CPROP_BOTTOM_PADDING;
            Some (empty_height + top_padding + bottom_padding)
          } else Some 0
        })
   }"

definition invis_of_cell :: "f_table_properties \<Rightarrow> 'b f_cell_of slots \<Rightarrow> nat \<Rightarrow> nat \<Rightarrow> nat option" where
  "invis_of_cell p r row col = do {
     c \<leftarrow> get_cell r col;
     (case c of None \<Rightarrow> Some 0 | Some cell \<Rightarrow> cell_invis_codes_width cell p row col)
   }"

text \<open>The maximum over the rows of a column, and over the columns of a row.\<close>

definition max_over :: "(nat \<Rightarrow> nat option) \<Rightarrow> nat \<Rightarrow> nat option" where
  "max_over f n = map_option (\<lambda>xs. fold max xs 0) (those (map f [0..<n]))"

definition base_col_width ::
  "('b, 'c) text_device \<Rightarrow> f_table_properties \<Rightarrow> 'b f_cell_of slots list \<Rightarrow> f_geometry_type \<Rightarrow> nat \<Rightarrow> nat option" where
  "base_col_width dev p rs geom col = do {
     w \<leftarrow> max_over (\<lambda>row. width_of_cell dev p (rs ! row) row col) (length rs);
     if geom = INTERN_REPR_GEOMETRY then do {
       inv \<leftarrow> max_over (\<lambda>row. invis_of_cell p (rs ! row) row col) (length rs);
       Some (w + inv)
     } else Some w
   }"

text \<open>
  The columns under a spanning cell are widened one character at a time, from the first to the
  last of the group and round again, until the cell fits.
\<close>

primrec widen :: "nat \<Rightarrow> nat \<Rightarrow> nat \<Rightarrow> nat \<Rightarrow> nat list \<Rightarrow> nat list" where
  "widen 0 col slave_col cur_adj_col ws = ws"
| "widen (Suc n) col slave_col cur_adj_col ws =
     (let ws' = ws[cur_adj_col := ws ! cur_adj_col + 1];
          next = cur_adj_col + 1
      in widen n col slave_col (if next = slave_col then col else next) ws')"

definition adjust_span ::
  "('b, 'c) text_device \<Rightarrow> f_table_properties \<Rightarrow> 'b f_cell_of slots list \<Rightarrow> f_geometry_type \<Rightarrow> nat \<Rightarrow> nat \<Rightarrow> nat list \<Rightarrow> nat list option" where
  "adjust_span dev p rs geom col row ws = do {
     c \<leftarrow> get_cell (rs ! row) col;
     (case c of
        None \<Rightarrow> Some ws
      | Some cell \<Rightarrow>
          if get_cell_type cell \<noteq> GROUP_MASTER_CELL then Some ws
          else do {
            vis \<leftarrow> cell_vis_width dev cell p row col;
            inv \<leftarrow> (if geom = INTERN_REPR_GEOMETRY then cell_invis_codes_width cell p row col else Some 0);
            n \<leftarrow> group_cell_number (rs ! row) col;
            let hint_width = vis + inv;
            let slave_col = col + n;
            let group_width = fold (\<lambda>i w. w + (ws ! i + FORT_COL_SEPARATOR_LENGTH)) [col + 1..<slave_col] (ws ! col);
            Some (widen (hint_width - group_width) col slave_col col ws)
          })
   }"

fun adjust_spans ::
  "('b, 'c) text_device \<Rightarrow> f_table_properties \<Rightarrow> 'b f_cell_of slots list \<Rightarrow> f_geometry_type \<Rightarrow> (nat \<times> nat) list \<Rightarrow> nat list \<Rightarrow> nat list option" where
  "adjust_spans dev p rs geom [] ws = Some ws"
| "adjust_spans dev p rs geom ((col, row) # todo) ws = do {
     ws' \<leftarrow> adjust_span dev p rs geom col row ws;
     adjust_spans dev p rs geom todo ws'
   }"

definition table_rows_and_cols_geometry ::
  "('b, 'c) text_device \<Rightarrow> ('b f_cell_of, 'd) ft_table_of \<Rightarrow> f_geometry_type \<Rightarrow> (nat list \<times> nat list) option" where
  "table_rows_and_cols_geometry dev table geom = do {
     (n_rows, n_cols) \<leftarrow> get_table_sizes table;
     rs \<leftarrow> those (rows table);
     let p = properties table;
     ws \<leftarrow> those (map (base_col_width dev p rs geom) [0..<n_cols]);
     hs \<leftarrow> those (map (\<lambda>row. max_over (\<lambda>col. height_of_cell dev p (rs ! row) row col) n_cols) [0..<n_rows]);
     ws' \<leftarrow> adjust_spans dev p rs geom (concat (map (\<lambda>col. map (Pair col) [0..<n_rows]) [0..<n_cols])) ws;
     Some (ws', hs)
   }"

text \<open>Height and width in bytes: an upper bound of the lines and of the length of a line.\<close>

definition table_geometry :: "('b, 'c) text_device \<Rightarrow> ('b f_cell_of, 'd) ft_table_of \<Rightarrow> (nat \<times> nat) option" where
  "table_geometry dev table = do {
     (ws, hs) \<leftarrow> table_rows_and_cols_geometry dev table INTERN_REPR_GEOMETRY;
     let cols = length ws;
     let n_rows = length hs;
     let width = 1 + (if cols = 0 then 1 else cols) + 1 + sum_list ws;
     let height = 1 + (if n_rows = 0 then 1 else n_rows) + sum_list hs;
     let tp = tprops (properties table);
     let height = height + unat (top_margin tp) + unat (bottom_margin tp);
     let width = width + unat (left_margin tp) + unat (right_margin tp);
     Some (height, width * max_border_elem_strlen (properties table))
   }"

section \<open>Conversion to a string\<close>

text \<open>The separator of a row: NULL behind the end of the vector.\<close>

definition separator_at :: "f_separator slots \<Rightarrow> nat \<Rightarrow> f_separator option option" where
  "separator_at ss i = (if i < length ss then map_option Some (slot_at ss i) else Some None)"

definition margin_lines :: "('b, 'c) text_device \<Rightarrow> nat \<Rightarrow> nat \<Rightarrow> 'c printer_of list" where
  "margin_lines dev n cod_width = concat (replicate n [spaces dev (cod_width - 1), print_str dev newline_str])"

text \<open>Row \<open>i\<close> with the line above it.\<close>

definition print_table_row ::
  "('b, 'c) text_device \<Rightarrow> f_table_properties \<Rightarrow> 'b f_cell_of slots list \<Rightarrow> f_separator slots \<Rightarrow> nat list
   \<Rightarrow> nat list \<Rightarrow> nat \<Rightarrow> 'c printer_of list" where
  "print_table_row dev p rs ss ws hs i =
     [\<lambda>cntx. do {
        sep \<leftarrow> separator_at ss i;
        print_row_separator dev p i ws (length ws) (if i = 0 then None else Some (rs ! (i - 1))) (Some (rs ! i))
          (if i = 0 then TOP_SEPARATOR else INSIDE_SEPARATOR) sep cntx },
      snprintf_row dev (rs ! i) p i ws (hs ! i)]"

definition print_table_bottom ::
  "('b, 'c) text_device \<Rightarrow> f_table_properties \<Rightarrow> 'b f_cell_of slots list \<Rightarrow> f_separator slots \<Rightarrow> nat list
   \<Rightarrow> 'c printer_of" where
  "print_table_bottom dev p rs ss ws cntx = do {
     sep \<leftarrow> separator_at ss (length rs);
     print_row_separator dev p (length rs) ws (length ws) (Some (last rs)) None BOTTOM_SEPARATOR sep cntx
   }"

text \<open>The prints of a whole table with its margins.\<close>

definition print_table ::
  "('b, 'c) text_device \<Rightarrow> f_table_properties \<Rightarrow> 'b f_cell_of slots list \<Rightarrow> f_separator slots \<Rightarrow> nat list
   \<Rightarrow> nat list \<Rightarrow> nat \<Rightarrow> 'c printer_of" where
  "print_table dev p rs ss ws hs cod_width = print_all
     (margin_lines dev (unat (top_margin (tprops p))) cod_width
      @ concat (map (print_table_row dev p rs ss ws hs) [0..<length rs])
      @ [print_table_bottom dev p rs ss ws]
      @ margin_lines dev (unat (bottom_margin (tprops p))) cod_width)"

text \<open>
  The result is NULL when a print fails.  When nothing was printed it is what the buffer held
  before, which is a fault if the buffer is new memory.
\<close>

definition ft_to_string :: "ft_table \<Rightarrow> (string option \<times> ft_table) option" where
  "ft_to_string table = do {
     (cod_height, cod_width) \<leftarrow> table_geometry char_device table;
     let n_codepoints = cod_height * cod_width + 1;
     let buffer = (case conv_buffer table of None \<Rightarrow> create_string_buffer n_codepoints | Some b \<Rightarrow> b);
     buffer \<leftarrow> grow_buffer n_codepoints buffer;
     let table = table\<lparr>conv_buffer := Some buffer\<rparr>;
     (ws, hs) \<leftarrow> table_rows_and_cols_geometry char_device table VISIBLE_GEOMETRY;
     if length hs = 0 then Some (Some [], table)
     else do {
       rs \<leftarrow> those (rows table);
       let cntx = \<lparr>conv_out = [], raw_avail = string_buffer_raw_capacity buffer\<rparr>;
       (st, cntx) \<leftarrow> print_table char_device (properties table) rs (separators table) ws hs cod_width cntx;
       let buffer = (if conv_out cntx = [] then buffer else buffer\<lparr>sb_str := Some (conv_out cntx)\<rparr>);
       let table = table\<lparr>conv_buffer := Some buffer\<rparr>;
       if st < 0 then Some (None, table)
       else do { s \<leftarrow> sb_str buffer; Some (Some s, table) }
     }
   }"

end
