(* ===== verification/Fort_Page.thy ===== *)
theory Fort_Page
  imports Fort_Table
begin

text \<open>
  What printing a table gives, for every device that keeps the contract \<open>text_output\<close>: the layout
  defined here, line by line, whose size the geometry of the table bounds.  The tables have cells that
  span one column.
\<close>

section \<open>Tables and what they show\<close>

definition n_cols :: "'a list list \<Rightarrow> nat" where
  "n_cols cells = fold max (map length cells) 0"

text \<open>Every cell up to the last column has properties in range.\<close>

definition geoms_ok :: "f_table_properties \<Rightarrow> 'a list list \<Rightarrow> bool" where
  "geoms_ok p cells \<longleftrightarrow> (\<forall>r < length cells. \<forall>c < n_cols cells. cell_geom_of p r c \<noteq> None)"

definition geom_at :: "f_table_properties \<Rightarrow> nat \<Rightarrow> nat \<Rightarrow> cell_geom" where
  "geom_at p r c = the (cell_geom_of p r c)"

text \<open>The tags of the cells and the border are strings that can be printed.\<close>

definition page_plain :: "(string \<Rightarrow> bool) \<Rightarrow> f_table_properties \<Rightarrow> 'a list list \<Rightarrow> bool" where
  "page_plain plain p cells \<longleftrightarrow>
     (\<forall>r < length cells. \<forall>c < n_cols cells. plain_tags plain (geom_at p r c))
     \<and> list_all plain (border_chars (bstyle p)) \<and> list_all plain (header_border_chars (bstyle p))
     \<and> list_all plain (separator_chars (bstyle p))"

definition cells_show ::
  "('b \<Rightarrow> 'c text_lines \<Rightarrow> bool) \<Rightarrow> 'b f_cell_of list list \<Rightarrow> 'c text_lines list list \<Rightarrow> bool" where
  "cells_show shows_lines rws cells \<longleftrightarrow>
     list_all2 (list_all2 (\<lambda>cell ls. cell_type cell = COMMON_CELL \<and> shows_lines (str_buffer cell) ls)) rws cells"

text \<open>The rows as the printing reads them.\<close>

abbreviation slot_rows :: "'b f_cell_of list list \<Rightarrow> 'b f_cell_of slots list" where
  "slot_rows rws \<equiv> map (map Some) rws"

lemma get_cell_slots: "get_cell (map Some r) c = Some (if c < length r then Some (r ! c) else None)"
  by (simp add: get_cell_def columns_in_row_def slot_at_def)

lemma columns_slots [simp]: "columns_in_row (map Some r) = length r"
  by (simp add: columns_in_row_def)

lemma those_Some [simp]: "those (map (\<lambda>x. Some (f x)) xs) = Some (map f xs)"
  by (induction xs) auto

lemma those_replicate [simp]: "those (replicate n (Some x)) = Some (replicate n x)"
  by (induction n) simp_all

lemma n_cols_ge: "r < length cells \<Longrightarrow> length (cells ! r) \<le> n_cols cells"
  unfolding n_cols_def by (rule fold_max_ge) simp

lemma geom_atI: "geoms_ok p cells \<Longrightarrow> r < length cells \<Longrightarrow> c < n_cols cells \<Longrightarrow>
    cell_geom_of p r c = Some (geom_at p r c)"
  by (auto simp: geoms_ok_def geom_at_def)

lemma tags_at: "page_plain plain p cells \<Longrightarrow> r < length cells \<Longrightarrow> c < n_cols cells \<Longrightarrow>
    plain_tags plain (geom_at p r c)"
  by (simp add: page_plain_def)

lemma cells_show_length: "cells_show shows_lines rws cells \<Longrightarrow> length rws = length cells"
  by (auto simp: cells_show_def dest: list_all2_lengthD)

lemma cells_show_row: "cells_show shows_lines rws cells \<Longrightarrow> r < length cells \<Longrightarrow> length (rws ! r) = length (cells ! r)"
  by (auto simp: cells_show_def list_all2_conv_all_nth)

lemma cells_show_cell: "cells_show shows_lines rws cells \<Longrightarrow> r < length cells \<Longrightarrow> c < length (cells ! r) \<Longrightarrow>
    cell_type (rws ! r ! c) = COMMON_CELL \<and> shows_lines (str_buffer (rws ! r ! c)) (cells ! r ! c)"
  by (auto simp: cells_show_def list_all2_conv_all_nth)

section \<open>The layout\<close>

definition maxf :: "(nat \<Rightarrow> nat) \<Rightarrow> nat \<Rightarrow> nat" where
  "maxf f n = fold max (map f [0..<n]) 0"

lemma maxf_ge: "i < n \<Longrightarrow> f i \<le> maxf f n"
  unfolding maxf_def by (rule fold_max_ge) simp

lemma max_over_Some:
  assumes "\<And>i. i < n \<Longrightarrow> f i = Some (g i)"
  shows "max_over f n = Some (maxf g n)"
proof -
  have "map f [0..<n] = map (\<lambda>i. Some (g i)) [0..<n]" using assms by simp
  then show ?thesis by (simp only: max_over_def those_Some option.map maxf_def)
qed

text \<open>Width, invisible characters and height of the columns and rows.\<close>

definition page_width :: "f_table_properties \<Rightarrow> 'c text_lines list list \<Rightarrow> nat \<Rightarrow> nat" where
  "page_width p cells c =
     maxf (\<lambda>r. if c < length (cells ! r) then box_width (geom_at p r c) (cells ! r ! c) else 0) (length cells)"

definition page_invis :: "f_table_properties \<Rightarrow> 'a list list \<Rightarrow> nat \<Rightarrow> nat" where
  "page_invis p cells c =
     maxf (\<lambda>r. if c < length (cells ! r) then geom_invis (geom_at p r c) else 0) (length cells)"

definition page_height :: "f_table_properties \<Rightarrow> 'c text_lines list list \<Rightarrow> nat \<Rightarrow> nat" where
  "page_height p cells r =
     maxf (\<lambda>c. let g = geom_at p r c in
        if c < length (cells ! r) then box_height g (cells ! r ! c)
        else if g_empty g \<noteq> 0 then g_empty g + g_top g + g_bottom g else 0) (n_cols cells)"

text \<open>The elements of the line above row \<open>i\<close>; \<open>i\<close> is the number of rows for the last line.\<close>

definition sep_on :: "f_separator slots \<Rightarrow> nat \<Rightarrow> bool" where
  "sep_on ss i = (if i < length ss then (case ss ! i of Some s \<Rightarrow> enabled s | None \<Rightarrow> False) else False)"

definition header_row :: "f_table_properties \<Rightarrow> nat \<Rightarrow> bool" where
  "header_row p r \<longleftrightarrow> row_type_of p r = Some FT_ROW_HEADER"

definition line_pos :: "nat \<Rightarrow> nat \<Rightarrow> f_hor_separator_pos" where
  "line_pos n i = (if i = n then BOTTOM_SEPARATOR else if i = 0 then TOP_SEPARATOR else INSIDE_SEPARATOR)"

definition line_elems :: "f_table_properties \<Rightarrow> f_separator slots \<Rightarrow> nat \<Rightarrow> nat \<Rightarrow> line_chars" where
  "line_elems p ss n i =
     (let bs = bstyle p;
          header = (0 < i \<and> header_row p (i - 1) \<or> i < n \<and> header_row p i);
          bc = (if header then header_border_chars bs else border_chars bs)
      in separator_line_chars bs bc (sep_on ss i) (0 < i) (i < n) (line_pos n i))"

definition hidden_line :: "line_chars \<Rightarrow> bool" where
  "hidden_line lc \<longleftrightarrow> not_printable (lc_L lc) \<and> not_printable (lc_I lc) \<and> not_printable (lc_IV lc)
     \<and> not_printable (lc_R lc)"

definition plain_cross :: "line_chars \<Rightarrow> nat \<Rightarrow> nat \<Rightarrow> nat \<Rightarrow> string" where
  "plain_cross lc n i c =
     (if c = 0 then lc_L lc else if i = 0 then lc_IT lc else if i = n then lc_IB lc else lc_IV lc)"

definition page_left :: "(string \<Rightarrow> 'c list) \<Rightarrow> f_table_properties \<Rightarrow> 'c list" where
  "page_left enc p = pad enc (unat (left_margin (tprops p)))"

definition page_right :: "(string \<Rightarrow> 'c list) \<Rightarrow> f_table_properties \<Rightarrow> 'c list" where
  "page_right enc p = pad enc (unat (right_margin (tprops p)))"

definition page_line ::
  "(string \<Rightarrow> 'c list) \<Rightarrow> f_table_properties \<Rightarrow> f_separator slots \<Rightarrow> 'c text_lines list list \<Rightarrow> nat \<Rightarrow> 'c list" where
  "page_line enc p ss cells i =
     (let lc = line_elems p ss (length cells) i in
      if hidden_line lc then []
      else page_left enc p
        @ concat (map (\<lambda>c. enc (plain_cross lc (length cells) i c)
            @ concat (replicate (page_width p cells c) (enc (lc_I lc)))) [0..<n_cols cells])
        @ enc (lc_R lc) @ page_right enc p @ enc newline_str)"

definition row_chars :: "f_table_properties \<Rightarrow> nat \<Rightarrow> string list" where
  "row_chars p r = (if header_row p r then header_border_chars (bstyle p) else border_chars (bstyle p))"

definition page_cell ::
  "(string \<Rightarrow> 'c list) \<Rightarrow> f_table_properties \<Rightarrow> 'c text_lines list list \<Rightarrow> nat \<Rightarrow> nat \<Rightarrow> nat \<Rightarrow> 'c list" where
  "page_cell enc p cells r i c =
     (if c < length (cells ! r) then box_line enc (geom_at p r c) (cells ! r ! c) (page_width p cells c) i
      else pad enc (page_width p cells c))"

text \<open>The cells of line \<open>i\<close> of row \<open>r\<close> from column \<open>j\<close> on, with the boundaries between them.\<close>

definition page_cells ::
  "(string \<Rightarrow> 'c list) \<Rightarrow> f_table_properties \<Rightarrow> 'c text_lines list list \<Rightarrow> nat \<Rightarrow> nat \<Rightarrow> nat \<Rightarrow> 'c list" where
  "page_cells enc p cells r i j = concat (map (\<lambda>c. page_cell enc p cells r i c
     @ (if c < n_cols cells - 1 then enc (row_chars p r ! IV_bip) else [])) [j..<n_cols cells])"

definition page_row_line ::
  "(string \<Rightarrow> 'c list) \<Rightarrow> f_table_properties \<Rightarrow> 'c text_lines list list \<Rightarrow> nat \<Rightarrow> nat \<Rightarrow> 'c list" where
  "page_row_line enc p cells r i = page_left enc p @ enc (row_chars p r ! LL_bip) @ page_cells enc p cells r i 0
     @ enc (row_chars p r ! RR_bip) @ page_right enc p @ enc newline_str"

definition page_rows ::
  "(string \<Rightarrow> 'c list) \<Rightarrow> f_table_properties \<Rightarrow> f_separator slots \<Rightarrow> 'c text_lines list list \<Rightarrow> 'c list list" where
  "page_rows enc p ss cells = concat (map (\<lambda>r. page_line enc p ss cells r
     # map (page_row_line enc p cells r) [0..<page_height p cells r]) [0..<length cells])
     @ [page_line enc p ss cells (length cells)]"

definition page_margin :: "(string \<Rightarrow> 'c list) \<Rightarrow> nat \<Rightarrow> nat \<Rightarrow> 'c list list" where
  "page_margin enc n w = replicate n (pad enc (w - 1) @ enc newline_str)"

text \<open>The bounds the geometry gives, and the whole text.\<close>

definition page_max_width :: "f_table_properties \<Rightarrow> 'c text_lines list list \<Rightarrow> nat" where
  "page_max_width p cells =
     (2 + (if n_cols cells = 0 then 1 else n_cols cells)
        + sum_list (map (\<lambda>c. page_width p cells c + page_invis p cells c) [0..<n_cols cells])
        + unat (left_margin (tprops p)) + unat (right_margin (tprops p))) * max_border_elem_strlen p"

definition page_max_height :: "f_table_properties \<Rightarrow> 'c text_lines list list \<Rightarrow> nat" where
  "page_max_height p cells = 1 + (if length cells = 0 then 1 else length cells)
     + sum_list (map (page_height p cells) [0..<length cells])
     + unat (top_margin (tprops p)) + unat (bottom_margin (tprops p))"

definition page_lines ::
  "(string \<Rightarrow> 'c list) \<Rightarrow> f_table_properties \<Rightarrow> f_separator slots \<Rightarrow> 'c text_lines list list \<Rightarrow> 'c list list" where
  "page_lines enc p ss cells =
     page_margin enc (unat (top_margin (tprops p))) (page_max_width p cells) @ page_rows enc p ss cells
     @ page_margin enc (unat (bottom_margin (tprops p))) (page_max_width p cells)"

definition page_text ::
  "(string \<Rightarrow> 'c list) \<Rightarrow> f_table_properties \<Rightarrow> f_separator slots \<Rightarrow> 'c text_lines list list \<Rightarrow> 'c list" where
  "page_text enc p ss cells = concat (page_lines enc p ss cells)"

section \<open>Bounds on the pieces\<close>

lemma row_type_Some [simp]: "row_type_of p r \<noteq> None"
proof -
  have "cell_prop_field o1 FT_CPROP_ROW_TYPE \<noteq> None" for o1
    by (simp add: cell_prop_field_def cprop_defs)
  then show ?thesis
    by (simp add: row_type_of_def get_cell_property_hierarchically_def
      get_prop_value_if_exists_otherwise_default_def split: option.splits)
qed

lemma row_type_cases: "\<exists>ty. row_type_of p r = Some ty \<and> (ty = FT_ROW_HEADER \<longleftrightarrow> header_row p r)"
proof -
  obtain ty where "row_type_of p r = Some ty" using row_type_Some [of p r] by blast
  then show ?thesis by (simp add: header_row_def)
qed

lemma line_elems_bound:
  assumes "style_ok (bstyle p)"
  shows "length (lc_L (line_elems p ss n i)) \<le> max_border_elem_strlen p"
    and "length (lc_R (line_elems p ss n i)) \<le> max_border_elem_strlen p"
    and "length (lc_I (line_elems p ss n i)) \<le> max_border_elem_strlen p"
    and "length (plain_cross (line_elems p ss n i) n i c) \<le> max_border_elem_strlen p"
proof -
  have el: "length (border_chars (bstyle p) ! k) \<le> max_border_elem_strlen p"
    "length (header_border_chars (bstyle p) ! k) \<le> max_border_elem_strlen p" if "k < 19" for k
    using assms that max_border_elem(2) [OF assms]
    by (auto simp: style_ok_def BORDER_ITEM_POS_SIZE_def)
  have sp: "length (separator_chars (bstyle p) ! k) \<le> max_border_elem_strlen p" if "k < 6" for k
    using assms that max_border_elem(2) [OF assms]
    by (auto simp: style_ok_def SEPARATOR_ITEM_POS_SIZE_def)
  show "length (lc_L (line_elems p ss n i)) \<le> max_border_elem_strlen p"
    and "length (lc_R (line_elems p ss n i)) \<le> max_border_elem_strlen p"
    and "length (lc_I (line_elems p ss n i)) \<le> max_border_elem_strlen p"
    and "length (plain_cross (line_elems p ss n i) n i c) \<le> max_border_elem_strlen p"
    by (auto simp: line_elems_def separator_line_chars_def plain_cross_def Let_def el sp
      split: f_hor_separator_pos.splits)
qed


lemma row_chars_bound:
  assumes "style_ok (bstyle p)" and "k < 19"
  shows "length (row_chars p r ! k) \<le> max_border_elem_strlen p"
  using assms max_border_elem(2) [OF assms(1)]
  by (auto simp: style_ok_def BORDER_ITEM_POS_SIZE_def row_chars_def)

lemma sum_scaled: "sum_list (map (\<lambda>c. m + m * f c) xs) = m * (length xs + sum_list (map f xs))"
  for m :: nat
  by (induction xs) (simp_all add: algebra_simps)

lemma scale_up: "1 \<le> m \<Longrightarrow> a \<le> m * (a :: nat)"
  by simp

text \<open>The bound on a line, for the amounts that make it up.\<close>

lemma line_bound:
  fixes m :: nat
  assumes "1 \<le> m" and "k \<le> k'" and "1 \<le> k'" and "x \<le> m * (k' + 1 + s)" and "s \<le> s'"
  shows "lm + x + rm + 1 \<le> (2 + k' + s' + lm + rm) * m"
proof -
  have "lm + x + rm + 1 \<le> m * lm + m * (k' + 1 + s) + m * rm + m"
    using assms(1,4) scale_up [of m lm] scale_up [of m rm] by linarith
  also have "\<dots> \<le> m * lm + m * (k' + 1 + s') + m * rm + m"
    using assms(5) by simp
  also have "\<dots> = (2 + k' + s' + lm + rm) * m" by (simp add: algebra_simps)
  finally show ?thesis .
qed

lemma sum_but_last: "sum_list (map (\<lambda>c. if c < k - 1 then m else (0::nat)) [0..<k]) = (k - 1) * m"
proof (cases k)
  case (Suc n)
  have "sum_list (map (\<lambda>c. if c < n then m else (0::nat)) [0..<n]) = sum_list (map (\<lambda>c. m) [0..<n])"
    by (intro arg_cong [where f = sum_list] map_cong) simp_all
  then show ?thesis using Suc by (simp add: sum_list_triv)
qed simp

lemma length_concat_bound:
  "\<forall>l \<in> set ls. length l \<le> w \<Longrightarrow> length (concat ls) \<le> length ls * w"
  by (induction ls) (auto simp: add_mono)

lemma line_elems_plain:
  assumes "style_ok (bstyle p)" and "page_plain plain p cells"
  shows "plain (lc_L (line_elems p ss n i))" and "plain (lc_R (line_elems p ss n i))"
    and "plain (lc_I (line_elems p ss n i))" and "plain (plain_cross (line_elems p ss n i) n i c)"
proof -
  have el: "plain (border_chars (bstyle p) ! k)" "plain (header_border_chars (bstyle p) ! k)" if "k < 19" for k
    using assms that by (auto simp: style_ok_def BORDER_ITEM_POS_SIZE_def page_plain_def list_all_length)
  have sp: "plain (separator_chars (bstyle p) ! k)" if "k < 6" for k
    using assms that by (auto simp: style_ok_def SEPARATOR_ITEM_POS_SIZE_def page_plain_def list_all_length)
  show "plain (lc_L (line_elems p ss n i))" and "plain (lc_R (line_elems p ss n i))"
    and "plain (lc_I (line_elems p ss n i))" and "plain (plain_cross (line_elems p ss n i) n i c)"
    by (auto simp: line_elems_def separator_line_chars_def plain_cross_def Let_def el sp
      split: f_hor_separator_pos.splits)
qed

lemma row_chars_plain: "style_ok (bstyle p) \<Longrightarrow> page_plain plain p cells \<Longrightarrow> k < 19 \<Longrightarrow> plain (row_chars p r ! k)"
  by (auto simp: style_ok_def BORDER_ITEM_POS_SIZE_def page_plain_def row_chars_def list_all_length)

lemma page_max_width_pos: "style_ok (bstyle p) \<Longrightarrow> 2 \<le> page_max_width p cells"
  using max_border_elem(1) [of p] mult_le_mono [of 2 _ 1 "max_border_elem_strlen p"]
  by (auto simp: page_max_width_def)

lemma page_width_ge: "r < length cells \<Longrightarrow> c < length (cells ! r) \<Longrightarrow>
    box_width (geom_at p r c) (cells ! r ! c) \<le> page_width p cells c"
  using maxf_ge [of r "length cells" "\<lambda>r. if c < length (cells ! r) then box_width (geom_at p r c) (cells ! r ! c) else 0"]
  by (simp add: page_width_def)

lemma page_invis_ge: "r < length cells \<Longrightarrow> c < length (cells ! r) \<Longrightarrow>
    geom_invis (geom_at p r c) \<le> page_invis p cells c"
  using maxf_ge [of r "length cells" "\<lambda>r. if c < length (cells ! r) then geom_invis (geom_at p r c) else 0"]
  by (simp add: page_invis_def)

section \<open>The geometry\<close>

context text_output
begin

lemma table_sizes:
  assumes "rows t = map Some (slot_rows rws)" and "cells_show shows_lines rws cells"
  shows "get_table_sizes t = Some (length cells, n_cols cells)" and "those (rows t) = Some (slot_rows rws)"
proof -
  have "fold (\<lambda>row cols. if columns_in_row row > cols then columns_in_row row else cols) (slot_rows xs) m
      = fold max (map length xs) m" for xs :: "'b f_cell_of list list" and m
    by (induction xs arbitrary: m) (simp_all add: max_def)
  moreover have "map length rws = map length cells"
    using assms(2) by (auto simp: cells_show_def list_all2_conv_all_nth intro!: nth_equalityI)
  moreover show th: "those (rows t) = Some (slot_rows rws)"
    using those_Some [of "\<lambda>x. x" "slot_rows rws"] assms(1) by simp
  ultimately show "get_table_sizes t = Some (length cells, n_cols cells)"
    using cells_show_length [OF assms(2)] by (simp add: get_table_sizes_def n_cols_def)
qed

lemma base_width:
  assumes sh: "cells_show shows_lines rws cells" and "geoms_ok p cells" and "c < n_cols cells"
  shows "base_col_width dev p (slot_rows rws) geom c =
    Some (page_width p cells c + (if geom = INTERN_REPR_GEOMETRY then page_invis p cells c else 0))"
proof -
  note len = cells_show_length [OF sh] cells_show_row [OF sh]
  have w: "max_over (\<lambda>r. width_of_cell dev p (slot_rows rws ! r) r c) (length cells) = Some (page_width p cells c)"
    unfolding page_width_def
  proof (rule max_over_Some)
    fix r
    assume r: "r < length cells"
    note g = geom_atI [OF assms(2) r assms(3)]
    show "width_of_cell dev p (slot_rows rws ! r) r c =
        Some (if c < length (cells ! r) then box_width (geom_at p r c) (cells ! r ! c) else 0)"
      using r len(1) len(2) [OF r] cells_show_cell [OF sh r] cell_size(1) [OF g]
      by (simp add: width_of_cell_def get_cell_slots get_cell_type_def)
  qed
  have i: "max_over (\<lambda>r. invis_of_cell p (slot_rows rws ! r) r c) (length cells) = Some (page_invis p cells c)"
    unfolding page_invis_def
  proof (rule max_over_Some)
    fix r
    assume r: "r < length cells"
    show "invis_of_cell p (slot_rows rws ! r) r c = Some (if c < length (cells ! r) then geom_invis (geom_at p r c) else 0)"
      using r len(1) len(2) [OF r]
      by (simp add: invis_of_cell_def get_cell_slots invis_codes_width [OF geom_atI [OF assms(2) r assms(3)]])
  qed
  from w i len(1) show ?thesis by (simp add: base_col_width_def)
qed

lemma row_height:
  assumes sh: "cells_show shows_lines rws cells" and "geoms_ok p cells" and r: "r < length cells"
  shows "max_over (\<lambda>c. height_of_cell dev p (slot_rows rws ! r) r c) (n_cols cells) = Some (page_height p cells r)"
  unfolding page_height_def Let_def
proof (rule max_over_Some)
  fix c
  assume c: "c < n_cols cells"
  note g = geom_atI [OF assms(2) r c]
  show "height_of_cell dev p (slot_rows rws ! r) r c = Some (
      if c < length (cells ! r) then box_height (geom_at p r c) (cells ! r ! c)
      else if g_empty (geom_at p r c) \<noteq> 0
        then g_empty (geom_at p r c) + g_top (geom_at p r c) + g_bottom (geom_at p r c) else 0)"
    using r cells_show_length [OF sh] cells_show_row [OF sh r] cells_show_cell [OF sh r] cell_size(2) [OF g]
    by (simp add: height_of_cell_def get_cell_slots geom_props [OF g])
qed

lemma adjust_spans_none:
  assumes sh: "cells_show shows_lines rws cells"
  shows "list_all (\<lambda>(c, r). r < length cells) todo \<Longrightarrow> adjust_spans dev p (slot_rows rws) geom todo ws = Some ws"
proof (induction todo)
  case (Cons x todo)
  obtain c r where x: "x = (c, r)" "r < length cells" using Cons.prems by (cases x) auto
  have "adjust_span dev p (slot_rows rws) geom c r ws = Some ws"
    using x(2) cells_show_length [OF sh] cells_show_row [OF sh x(2)] cells_show_cell [OF sh x(2)]
    by (auto simp: adjust_span_def get_cell_slots get_cell_type_def)
  with Cons x show ?case by simp
qed simp

lemma geometry:
  assumes t: "rows t = map Some (slot_rows rws)" and sh: "cells_show shows_lines rws cells"
    and g: "geoms_ok (properties t) cells"
  shows "table_rows_and_cols_geometry dev t geom = Some (
    map (\<lambda>c. page_width (properties t) cells c
      + (if geom = INTERN_REPR_GEOMETRY then page_invis (properties t) cells c else 0)) [0..<n_cols cells],
    map (page_height (properties t) cells) [0..<length cells])"
proof -
  let ?p = "properties t" and ?rs = "slot_rows rws"
  have w: "map (base_col_width dev ?p ?rs geom) [0..<n_cols cells] = map (\<lambda>c. Some (page_width ?p cells c
      + (if geom = INTERN_REPR_GEOMETRY then page_invis ?p cells c else 0))) [0..<n_cols cells]"
    using base_width [OF sh g] by simp
  have h: "map (\<lambda>row. max_over (\<lambda>col. height_of_cell dev ?p (?rs ! row) row col) (n_cols cells)) [0..<length cells]
      = map (\<lambda>r. Some (page_height ?p cells r)) [0..<length cells]"
    using row_height [OF sh g] by simp
  have s: "list_all (\<lambda>(c, r). r < length cells)
      (concat (map (\<lambda>col. map (Pair col) [0..<length cells]) [0..<n_cols cells]))"
    by (auto simp: list_all_iff)
  show ?thesis
    by (simp add: table_rows_and_cols_geometry_def table_sizes [OF t sh] w h adjust_spans_none [OF sh s] Let_def)
qed

lemma max_geometry:
  assumes "rows t = map Some (slot_rows rws)" and "cells_show shows_lines rws cells"
    and "geoms_ok (properties t) cells"
  shows "table_geometry dev t = Some (page_max_height (properties t) cells, page_max_width (properties t) cells)"
  by (simp add: table_geometry_def geometry [OF assms] page_max_height_def page_max_width_def Let_def comp_def)

section \<open>The size of the text\<close>

lemma k_ge: "x \<le> k * x"
  using k_pos by simp

lemma length_newline: "length (enc newline_str) \<le> 1"
  using enc_length [of newline_str] by (simp add: newline_str_def)

lemma length_page_margin: "length (page_left enc p) \<le> unat (left_margin (tprops p))"
    "length (page_right enc p) \<le> unat (right_margin (tprops p))"
  using length_pad by (simp_all add: page_left_def page_right_def)

lemma length_page_line:
  assumes "style_ok (bstyle p)"
  shows "length (page_line enc p ss cells i) \<le> k * page_max_width p cells"
proof (cases "hidden_line (line_elems p ss (length cells) i)")
  case False
  let ?lc = "line_elems p ss (length cells) i" and ?m = "max_border_elem_strlen p" and ?k = "n_cols cells"
  let ?k' = "if ?k = 0 then 1 else ?k"
  let ?S = "sum_list (map (page_width p cells) [0..<?k])"
  have m: "1 \<le> ?m" by (rule max_border_elem(1) [OF assms])
  note el = line_elems_bound [OF assms, of ss "length cells" i, THEN le_trans [OF enc_length]]
  have "sum_list (map (\<lambda>c. length (enc (plain_cross ?lc (length cells) i c)) + page_width p cells c * length (enc (lc_I ?lc))) [0..<?k])
      \<le> sum_list (map (\<lambda>c. ?m + ?m * page_width p cells c) [0..<?k])"
    using el by (intro sum_list_mono add_mono) (simp_all add: mult.commute)
  also have "\<dots> = ?m * (?k + ?S)" by (simp add: sum_scaled)
  finally have cols: "sum_list (map (\<lambda>c. length (enc (plain_cross ?lc (length cells) i c))
      + page_width p cells c * length (enc (lc_I ?lc))) [0..<?k]) \<le> ?m * (?k + ?S)" .
  let ?x = "sum_list (map (\<lambda>c. length (enc (plain_cross ?lc (length cells) i c))
      + page_width p cells c * length (enc (lc_I ?lc))) [0..<?k]) + length (enc (lc_R ?lc))"
  have "?x \<le> ?m * (?k + ?S) + ?m" using cols el(2) by linarith
  also have "\<dots> \<le> ?m * (?k' + 1 + ?S)" by (simp add: algebra_simps)
  finally have x: "?x \<le> ?m * (?k' + 1 + ?S)" .
  have s: "?S \<le> sum_list (map (\<lambda>c. page_width p cells c + page_invis p cells c) [0..<?k])"
    by (intro sum_list_mono) simp
  have "length (page_line enc p ss cells i) = length (page_left enc p) + ?x + length (page_right enc p) + length (enc newline_str)"
    using False by (simp add: page_line_def Let_def length_concat comp_def sum_list_replicate)
  also have "\<dots> \<le> unat (left_margin (tprops p)) + ?x + unat (right_margin (tprops p)) + 1"
    using length_page_margin [of p] length_newline by linarith
  also have "\<dots> \<le> page_max_width p cells"
    unfolding page_max_width_def by (rule line_bound [OF m _ _ x s, of ?k]) simp_all
  also have "\<dots> \<le> k * page_max_width p cells" using k_pos by simp
  finally show ?thesis .
qed (simp add: page_line_def)

lemma length_page_cell:
  assumes sh: "cells_show shows_lines rws cells" and r: "r < length cells" and c: "c < n_cols cells"
  shows "length (page_cell enc p cells r i c) \<le> k * (page_width p cells c + page_invis p cells c)"
proof (cases "c < length (cells ! r)")
  case True
  note le = page_width_ge [OF r True, of p] page_invis_ge [OF r True, of p]
  have "shows_lines (str_buffer (rws ! r ! c)) (cells ! r ! c)" using cells_show_cell [OF sh r True] by simp
  from length_box_line [OF this le(1)] have "length (page_cell enc p cells r i c) \<le> k * page_width p cells c + geom_invis (geom_at p r c)"
    using True by (simp add: page_cell_def)
  then show ?thesis using le(2) k_ge [of "page_invis p cells c"] unfolding add_mult_distrib2 by linarith
next
  case False
  have "length (pad enc (page_width p cells c)) \<le> k * page_width p cells c"
    using length_pad k_ge le_trans by blast
  with False show ?thesis by (simp add: page_cell_def add_mult_distrib2)
qed

lemma length_page_row_line:
  assumes st: "style_ok (bstyle p)" and sh: "cells_show shows_lines rws cells" and r: "r < length cells"
  shows "length (page_row_line enc p cells r i) \<le> k * page_max_width p cells"
proof -
  let ?m = "max_border_elem_strlen p" and ?k = "n_cols cells"
  let ?k' = "if ?k = 0 then 1 else ?k"
  let ?S = "sum_list (map (\<lambda>c. page_width p cells c + page_invis p cells c) [0..<?k])"
  have m: "1 \<le> ?m" by (rule max_border_elem(1) [OF st])
  with k_pos have km: "1 \<le> k * ?m" by (cases k; cases ?m) simp_all
  have el: "length (enc (row_chars p r ! LL_bip)) \<le> ?m" "length (enc (row_chars p r ! RR_bip)) \<le> ?m"
    "length (enc (row_chars p r ! IV_bip)) \<le> ?m"
    by (rule le_trans [OF enc_length row_chars_bound [OF st]]; simp)+
  have "length (page_cells enc p cells r i 0) =
      sum_list (map (\<lambda>c. length (page_cell enc p cells r i c) + (if c < ?k - 1 then length (enc (row_chars p r ! IV_bip)) else 0)) [0..<?k])"
    by (simp add: page_cells_def length_concat comp_def if_distrib cong: if_cong)
  also have "\<dots> \<le> sum_list (map (\<lambda>c. k * (page_width p cells c + page_invis p cells c) + (if c < ?k - 1 then ?m else 0)) [0..<?k])"
    using el(3) length_page_cell [OF sh r] by (intro sum_list_mono add_mono) auto
  also have "\<dots> = k * ?S + (?k - 1) * ?m"
    by (simp only: sum_list_addf sum_but_last sum_list_const_mult)
  finally have cells: "length (page_cells enc p cells r i 0) \<le> k * ?S + (?k - 1) * ?m" .
  let ?x = "length (enc (row_chars p r ! LL_bip)) + length (page_cells enc p cells r i 0) + length (enc (row_chars p r ! RR_bip))"
  have 1: "(?k - 1) * ?m + 2 * ?m = ?m * (?k' + 1)" by (cases ?k) (simp_all add: algebra_simps)
  have "?x \<le> k * ?S + ?m * (?k' + 1)" using cells el(1,2) 1 by linarith
  also have "\<dots> \<le> k * ?m * ?S + k * ?m * (?k' + 1)"
    using mult_le_mono1 [OF mult_le_mono2 [OF m, of k], of ?S] mult_le_mono1 [OF k_ge [of ?m], of "?k' + 1"]
    by (intro add_mono) simp_all
  also have "\<dots> = k * ?m * (?k' + 1 + ?S)" by (simp add: algebra_simps)
  finally have x: "?x \<le> k * ?m * (?k' + 1 + ?S)" .
  have "length (page_row_line enc p cells r i) = length (page_left enc p) + ?x + length (page_right enc p) + length (enc newline_str)"
    by (simp add: page_row_line_def)
  also have "\<dots> \<le> unat (left_margin (tprops p)) + ?x + unat (right_margin (tprops p)) + 1"
    using length_page_margin [of p] length_newline by linarith
  also have "\<dots> \<le> (2 + ?k' + ?S + unat (left_margin (tprops p)) + unat (right_margin (tprops p))) * (k * ?m)"
    by (rule line_bound [OF km _ _ x order_refl, of ?k]) simp_all
  also have "\<dots> = k * page_max_width p cells" by (simp only: page_max_width_def mult.left_commute)
  finally show ?thesis .
qed

lemma page_lines_bound:
  assumes "style_ok (bstyle p)" and "cells_show shows_lines rws cells"
  shows "\<forall>l \<in> set (page_lines enc p ss cells). length l \<le> k * page_max_width p cells"
    and "length (page_lines enc p ss cells) = page_max_height p cells - (if length cells = 0 then 1 else 0)"
proof -
  have mg: "length l \<le> k * page_max_width p cells" if "l \<in> set (page_margin enc n (page_max_width p cells))" for l n
  proof -
    have "l = pad enc (page_max_width p cells - 1) @ enc newline_str" using that by (simp add: page_margin_def)
    then have "length l = length (pad enc (page_max_width p cells - 1)) + length (enc newline_str)" by simp
    then show ?thesis
      using length_pad [of "page_max_width p cells - 1"] length_newline page_max_width_pos [OF assms(1), of cells]
        k_ge [of "page_max_width p cells"] by linarith
  qed
  show "\<forall>l \<in> set (page_lines enc p ss cells). length l \<le> k * page_max_width p cells"
    using mg length_page_line [OF assms(1)] length_page_row_line [OF assms]
    by (auto simp: page_lines_def page_rows_def)
  have "length (page_rows enc p ss cells) = sum_list (map (\<lambda>r. 1 + page_height p cells r) [0..<length cells]) + 1"
    by (simp add: page_rows_def length_concat comp_def)
  also have "\<dots> = length cells + sum_list (map (page_height p cells) [0..<length cells]) + 1"
    by (simp only: sum_list_addf) (simp add: sum_list_triv)
  finally show "length (page_lines enc p ss cells) = page_max_height p cells - (if length cells = 0 then 1 else 0)"
    by (simp add: page_lines_def page_max_height_def page_margin_def)
qed

lemma page_text_bound:
  assumes "style_ok (bstyle p)" and "cells_show shows_lines rws cells"
  shows "length (page_text enc p ss cells) \<le> k * (page_max_height p cells * page_max_width p cells)"
proof -
  have "length (page_text enc p ss cells) \<le> length (page_lines enc p ss cells) * (k * page_max_width p cells)"
    unfolding page_text_def by (rule length_concat_bound [OF page_lines_bound(1) [OF assms]])
  also have "\<dots> \<le> page_max_height p cells * (k * page_max_width p cells)"
    using page_lines_bound(2) [OF assms, of ss] by (intro mult_le_mono) simp_all
  finally show ?thesis by (simp add: algebra_simps)
qed

end

section \<open>Every print succeeds\<close>

lemma cell_types_common: "list_all (\<lambda>cell. cell_type cell = COMMON_CELL) r \<Longrightarrow>
    get_row_cell_types (map Some r) n = Some (replicate n COMMON_CELL)"
proof -
  assume r: "list_all (\<lambda>cell. cell_type cell = COMMON_CELL) r"
  let ?f = "\<lambda>i. do { c \<leftarrow> get_cell (map Some r) i;
      Some (case c of Some cell \<Rightarrow> get_cell_type cell | None \<Rightarrow> COMMON_CELL) }"
  have "map ?f [0..<n] = replicate n (Some COMMON_CELL)"
  proof (rule nth_equalityI)
    show "map ?f [0..<n] ! i = replicate n (Some COMMON_CELL) ! i" if "i < length (map ?f [0..<n])" for i
      using that r by (auto simp: get_cell_slots get_cell_type_def list_all_length)
  qed simp
  then show ?thesis by (simp only: get_row_cell_types_def those_replicate)
qed

lemma separator_at_Some:
  assumes "list_all (\<lambda>s. s \<noteq> None) ss"
  shows "\<exists>sep. separator_at ss i = Some sep \<and> (case sep of Some s \<Rightarrow> enabled s | None \<Rightarrow> False) = sep_on ss i"
  using assms by (cases "i < length ss") (auto simp: separator_at_def sep_on_def slot_at_def list_all_length)

context text_output
begin

lemma writes_line:
  assumes "0 < length cells" and "i \<le> length cells" and sh: "cells_show shows_lines rws cells"
    and st: "style_ok (bstyle p)" and plain: "page_plain plain p cells"
    and sep: "(case sep of Some s \<Rightarrow> enabled s | None \<Rightarrow> False) = sep_on ss i"
  shows "writes sz (print_row_separator dev p i (map (page_width p cells) [0..<n_cols cells]) (n_cols cells)
      (if i = 0 then None else Some (slot_rows rws ! (i - 1)))
      (if i < length cells then Some (slot_rows rws ! i) else None)
      (line_pos (length cells) i) sep) (page_line enc p ss cells i)"
proof -
  let ?n = "length cells" and ?k = "n_cols cells"
  let ?lc = "line_elems p ss ?n i"
  let ?upper = "if i = 0 then None else Some (slot_rows rws ! (i - 1))"
  let ?lower = "if i < ?n then Some (slot_rows rws ! i) else None"
  let ?ws = "map (page_width p cells) [0..<?k]"
  have common: "get_row_cell_types (slot_rows rws ! r) ?k = Some (replicate ?k COMMON_CELL)" if "r < ?n" for r
  proof -
    have "list_all (\<lambda>cell. cell_type cell = COMMON_CELL) (rws ! r)"
      using cells_show_row [OF sh that] cells_show_cell [OF sh that] by (simp add: list_all_length)
    with cell_types_common show ?thesis using that cells_show_length [OF sh] by simp
  qed
  define top bot where "top = (if i = 0 then GROUP_SLAVE_CELL else COMMON_CELL)"
    and "bot = (if i < ?n then COMMON_CELL else GROUP_SLAVE_CELL)"
  obtain ty uty where ty: "row_type_of p i = Some ty" "ty = FT_ROW_HEADER \<longleftrightarrow> header_row p i"
    and uty: "row_type_of p (i - 1) = Some uty" "uty = FT_ROW_HEADER \<longleftrightarrow> header_row p (i - 1)"
    using row_type_cases [of p i] row_type_cases [of p "i - 1"] by blast
  have types: "(case ?upper of Some r \<Rightarrow> get_row_cell_types r ?k | None \<Rightarrow> Some (replicate ?k GROUP_SLAVE_CELL))
      = Some (replicate ?k top)"
    "(case ?lower of Some r \<Rightarrow> get_row_cell_types r ?k | None \<Rightarrow> Some (replicate ?k GROUP_SLAVE_CELL))
      = Some (replicate ?k bot)"
    using assms(1,2) common [of "i - 1"] common [of i] by (simp_all add: top_def bot_def)
  define lty where "lty = (if i < ?n then ty else FT_ROW_COMMON)"
  define upty where "upty = (if 0 < i then uty else FT_ROW_COMMON)"
  have rt: "(if i < ?n then row_type_of p i else Some FT_ROW_COMMON) = Some lty"
    "(if 0 < i then row_type_of p (i - 1) else Some FT_ROW_COMMON) = Some upty"
    using ty uty by (simp_all add: lty_def upty_def)
  have pres: "(?upper \<noteq> None) = (0 < i)" "(?lower \<noteq> None) = (i < ?n)" by simp_all
  have hd: "(upty = FT_ROW_HEADER \<or> lty = FT_ROW_HEADER) = (0 < i \<and> header_row p (i - 1) \<or> i < ?n \<and> header_row p i)"
    using ty(2) uty(2) by (simp add: lty_def upty_def FT_ROW_HEADER_def FT_ROW_COMMON_def)
  let ?ps = "[spaces dev (unat (left_margin (tprops p)))]
        @ concat (map (\<lambda>c. [print_str dev (column_cross ?lc c (replicate ?k top ! c) (replicate ?k bot ! c)),
                            dev_strings dev (?ws ! c) (lc_I ?lc)]) [0..<?k])
        @ [print_str dev (lc_R ?lc), spaces dev (unat (right_margin (tprops p))), print_str dev newline_str]"
  have run: "print_row_separator dev p i ?ws ?k ?upper ?lower (line_pos ?n i) sep c =
      (if hidden_line ?lc then Some (0, c) else print_seq FT_GEN_ERROR ?ps c)" for c
    unfolding print_row_separator_def types bind.simps pres rt hd Let_def sep hidden_line_def
    by (simp only: line_elems_def Let_def)
  let ?ss = "[page_left enc p]
        @ concat (map (\<lambda>c. [enc (plain_cross ?lc ?n i c), concat (replicate (page_width p cells c) (enc (lc_I ?lc)))]) [0..<?k])
        @ [enc (lc_R ?lc), page_right enc p, enc newline_str]"
  note el = line_elems_plain [OF st plain, of ss ?n i]
  have cross: "column_cross ?lc c top bot = plain_cross ?lc ?n i c" if "c < ?k" for c
    using assms(1,2) by (auto simp: column_cross_def plain_cross_def top_def bot_def)
  have cols: "list_all2 (writes sz)
      (concat (map (\<lambda>c. [print_str dev (column_cross ?lc c (replicate ?k top ! c) (replicate ?k bot ! c)),
                            dev_strings dev (?ws ! c) (lc_I ?lc)]) cs))
      (concat (map (\<lambda>c. [enc (plain_cross ?lc ?n i c), concat (replicate (page_width p cells c) (enc (lc_I ?lc)))]) cs))"
    if "\<forall>c \<in> set cs. c < ?k" for cs
    using that cross el by (induction cs) (simp_all add: writes_str strings)
  have "list_all2 (writes sz) ?ps ?ss"
    using cols [of "[0..<?k]"] el newline_plain
    by (intro list_all2_appendI list_all2_Cons [THEN iffD2] conjI list_all2_Nil [THEN iffD2] writes_str)
      (simp_all add: page_left_def page_right_def writes_spaces newline_str_def)
  then have "writes sz (print_seq FT_GEN_ERROR ?ps) (concat ?ss)" by (rule writes_seq [OF sz_pos])
  moreover have "concat ?ss = page_left enc p
      @ concat (map (\<lambda>c. enc (plain_cross ?lc ?n i c) @ concat (replicate (page_width p cells c) (enc (lc_I ?lc)))) [0..<?k])
      @ enc (lc_R ?lc) @ page_right enc p @ enc newline_str"
  proof -
    have "concat (concat (map (\<lambda>c. [f c, g c]) cs)) = concat (map (\<lambda>c. f c @ g c) cs)"
      for f g :: "nat \<Rightarrow> 'c list" and cs by (induction cs) simp_all
    then show ?thesis by simp
  qed
  ultimately show ?thesis
    using writes_skip [of sz] by (cases "hidden_line ?lc") (simp_all add: writes_def run page_line_def Let_def)
qed

lemma column_printer_common:
  assumes sh: "cells_show shows_lines rws cells" and g: "geoms_ok p cells" and plain: "page_plain plain p cells"
    and r: "r < length cells" and j: "j < n_cols cells"
  shows "\<exists>pr. column_printer dev (slot_rows rws ! r) p r (map (page_width p cells) [0..<n_cols cells]) i j = Some (0, pr)
    \<and> writes sz pr (page_cell enc p cells r i j)"
proof (cases "j < length (cells ! r)")
  case True
  let ?cell = "rws ! r ! j"
  note len = cells_show_length [OF sh] cells_show_row [OF sh r]
  have cell: "cell_type ?cell = COMMON_CELL" "shows_lines (str_buffer ?cell) (cells ! r ! j)"
    using cells_show_cell [OF sh r True] by simp_all
  have "writes sz (cell_printf dev ?cell i p r j (page_width p cells j)) (page_cell enc p cells r i j)"
    using writes_cell [OF geom_atI [OF g r j] cell(2) page_width_ge [OF r True] tags_at [OF plain r j]] True
    by (simp add: page_cell_def)
  moreover have "slot_at (slot_rows rws ! r) j = Some ?cell"
    using True r len by (simp add: slot_at_def)
  moreover have "group_cell_number (slot_rows rws ! r) j = Some 1"
    using True r len cell(1) by (simp add: group_cell_number_def get_cell_slots get_cell_type_def)
  ultimately show ?thesis using True r j len by (simp add: column_printer_def)
next
  case False
  then show ?thesis
    using r j cells_show_length [OF sh] cells_show_row [OF sh r]
    by (simp add: column_printer_def page_cell_def writes_spaces)
qed

lemma writes_columns:
  assumes sh: "cells_show shows_lines rws cells" and g: "geoms_ok p cells" and st: "style_ok (bstyle p)"
    and plain: "page_plain plain p cells" and r: "r < length cells" and "j \<le> n_cols cells"
  shows "writes sz (print_columns dev (slot_rows rws ! r) p r (map (page_width p cells) [0..<n_cols cells]) i
      (row_chars p r ! IV_bip) j) (page_cells enc p cells r i j)"
  using assms(6)
proof (induction rule: inc_induct)
  case base
  show ?case by (simp add: writes_def page_cells_def print_columns.simps)
next
  case (step j)
  let ?row = "slot_rows rws ! r" and ?ws = "map (page_width p cells) [0..<n_cols cells]"
  let ?IV = "row_chars p r ! IV_bip" and ?k = "n_cols cells"
  obtain pr where pr: "column_printer dev ?row p r ?ws i j = Some (0, pr)" "writes sz pr (page_cell enc p cells r i j)"
    using column_printer_common [OF sh g plain r step.hyps(2)] by blast
  let ?q = "\<lambda>c. if j < ?k - 1 then print_str dev ?IV c else Some (0, c)"
  have "plain ?IV" by (rule row_chars_plain [OF st plain]) simp
  then have q: "writes sz ?q (if j < ?k - 1 then enc ?IV else [])"
    using writes_str [of ?IV] by (simp add: writes_skip)
  let ?rest = "print_columns dev ?row p r ?ws i ?IV (Suc j)"
  have "writes sz (\<lambda>c. do {
     (r0, c1) \<leftarrow> pr c;
     if r0 < 0 then Some (r0, c1)
     else do {
       (r1, c2) \<leftarrow> ?q c1;
       if r1 < 0 then Some (r1, c2)
       else do { (r2, c3) \<leftarrow> ?rest c2; Some (if r2 < 0 then r2 else r0 + r1 + r2, c3) }
     } }) (page_cell enc p cells r i j @ (if j < ?k - 1 then enc ?IV else []) @ page_cells enc p cells r i (Suc j))"
    by (rule writes_three [OF pr(2) q step.IH])
  moreover have "print_columns dev ?row p r ?ws i ?IV j = (\<lambda>c. do {
     (r0, c1) \<leftarrow> pr c;
     if r0 < 0 then Some (r0, c1)
     else do {
       (r1, c2) \<leftarrow> ?q c1;
       if r1 < 0 then Some (r1, c2)
       else do { (r2, c3) \<leftarrow> ?rest c2; Some (if r2 < 0 then r2 else r0 + r1 + r2, c3) }
     } })"
  proof (rule ext)
    have lw: "length ?ws = ?k" and lt: "(j < ?k) = True" using step.hyps(2) by simp_all
    show "print_columns dev ?row p r ?ws i ?IV j c = do {
     (r0, c1) \<leftarrow> pr c;
     if r0 < 0 then Some (r0, c1)
     else do {
       (r1, c2) \<leftarrow> ?q c1;
       if r1 < 0 then Some (r1, c2)
       else do { (r2, c3) \<leftarrow> ?rest c2; Some (if r2 < 0 then r2 else r0 + r1 + r2, c3) }
     } }" for c
      by (subst print_columns.simps)
        (simp only: lw lt if_True pr(1) bind.simps prod.case add_0_right)
  qed
  moreover have "page_cells enc p cells r i j
      = page_cell enc p cells r i j @ (if j < ?k - 1 then enc ?IV else []) @ page_cells enc p cells r i (Suc j)"
    using step.hyps(2) by (simp add: page_cells_def upt_conv_Cons)
  ultimately show ?case by simp
qed

lemma writes_row:
  assumes sh: "cells_show shows_lines rws cells" and g: "geoms_ok p cells" and st: "style_ok (bstyle p)"
    and plain: "page_plain plain p cells" and r: "r < length cells"
  shows "writes sz (snprintf_row dev (slot_rows rws ! r) p r (map (page_width p cells) [0..<n_cols cells]) h)
    (concat (map (page_row_line enc p cells r) [0..<h]))"
proof -
  let ?row = "slot_rows rws ! r" and ?ws = "map (page_width p cells) [0..<n_cols cells]"
  let ?bc = "row_chars p r"
  let ?line = "\<lambda>i. [spaces dev (unat (left_margin (tprops p))), print_str dev (?bc ! LL_bip),
      print_columns dev ?row p r ?ws i (?bc ! IV_bip) 0, print_str dev (?bc ! RR_bip),
      spaces dev (unat (right_margin (tprops p))), print_str dev newline_str]"
  let ?text = "\<lambda>i. [page_left enc p, enc (?bc ! LL_bip), page_cells enc p cells r i 0, enc (?bc ! RR_bip),
      page_right enc p, enc newline_str]"
  obtain ty where ty: "row_type_of p r = Some ty" "ty = FT_ROW_HEADER \<longleftrightarrow> header_row p r"
    using row_type_cases by blast
  have "columns_in_row ?row \<le> n_cols cells"
    using n_cols_ge [OF r] r cells_show_length [OF sh] cells_show_row [OF sh r] by simp
  then have "snprintf_row dev ?row p r ?ws h c = print_seq (-1) (concat (map ?line [0..<h])) c" for c
    using ty by (simp add: snprintf_row_def row_chars_def Let_def)
  moreover have bc: "plain (?bc ! LL_bip)" "plain (?bc ! RR_bip)"
    by (rule row_chars_plain [OF st plain]; simp)+
  then have "list_all2 (writes sz) (concat (map ?line is)) (concat (map ?text is))" for "is"
    using writes_columns [OF sh g st plain r, of 0] newline_plain
    by (induction "is") (simp_all add: page_left_def page_right_def writes_spaces writes_str newline_str_def)
  then have "writes sz (print_seq (-1) (concat (map ?line [0..<h]))) (concat (concat (map ?text [0..<h])))"
    by (rule writes_seq [OF sz_pos])
  moreover have "concat (concat (map ?text is)) = concat (map (page_row_line enc p cells r) is)" for "is"
    by (induction "is") (simp_all add: page_row_line_def)
  ultimately show ?thesis by (simp add: writes_def)
qed

lemma writes_margin:
  "list_all2 (writes sz) (margin_lines dev n w) (concat (replicate n [pad enc (w - 1), enc newline_str]))"
  using newline_plain by (induction n) (simp_all add: margin_lines_def writes_spaces writes_str newline_str_def)

lemma concat_page_margin: "concat (concat (replicate n [pad enc (w - 1), enc newline_str])) = concat (page_margin enc n w)"
  by (induction n) (simp_all add: page_margin_def)

lemma writes_table_row:
  assumes sh: "cells_show shows_lines rws cells" and g: "geoms_ok p cells" and st: "style_ok (bstyle p)"
    and plain: "page_plain plain p cells" and r: "r < length cells" and ss: "list_all (\<lambda>s. s \<noteq> None) ss"
  shows "list_all2 (writes sz)
    (print_table_row dev p (slot_rows rws) ss (map (page_width p cells) [0..<n_cols cells])
      (map (page_height p cells) [0..<length cells]) r)
    [page_line enc p ss cells r, concat (map (page_row_line enc p cells r) [0..<page_height p cells r])]"
proof -
  obtain sep where sep: "separator_at ss r = Some sep"
      "(case sep of Some s \<Rightarrow> enabled s | None \<Rightarrow> False) = sep_on ss r"
    using separator_at_Some [OF ss] by blast
  have "writes sz (print_row_separator dev p r (map (page_width p cells) [0..<n_cols cells]) (n_cols cells)
      (if r = 0 then None else Some (slot_rows rws ! (r - 1))) (Some (slot_rows rws ! r))
      (if r = 0 then TOP_SEPARATOR else INSIDE_SEPARATOR) sep) (page_line enc p ss cells r)"
  proof -
    have "0 < length cells" using r by linarith
    from writes_line [OF this _ sh st plain sep(2)] r show ?thesis by (simp add: line_pos_def)
  qed
  with writes_row [OF sh g st plain r] r sep(1) show ?thesis
    by (cases "r = 0") (simp_all add: print_table_row_def)
qed

lemma writes_table_bottom:
  assumes "0 < length cells" and sh: "cells_show shows_lines rws cells" and st: "style_ok (bstyle p)"
    and plain: "page_plain plain p cells" and ss: "list_all (\<lambda>s. s \<noteq> None) ss"
  shows "writes sz (print_table_bottom dev p (slot_rows rws) ss (map (page_width p cells) [0..<n_cols cells]))
    (page_line enc p ss cells (length cells))"
proof -
  obtain sep where sep: "separator_at ss (length cells) = Some sep"
      "(case sep of Some s \<Rightarrow> enabled s | None \<Rightarrow> False) = sep_on ss (length cells)"
    using separator_at_Some [OF ss] by blast
  have l: "last (slot_rows rws) = slot_rows rws ! (length cells - 1)" "length (slot_rows rws) = length cells"
    using assms(1) cells_show_length [OF sh] last_conv_nth [of "slot_rows rws"]
    by (cases rws, auto)
  show ?thesis
    using writes_line [OF assms(1) order_refl sh st plain sep(2)] assms(1) sep(1) l
    by (simp add: print_table_bottom_def line_pos_def writes_def)
qed

lemma writes_table:
  assumes sh: "cells_show shows_lines rws cells" and g: "geoms_ok p cells" and st: "style_ok (bstyle p)"
    and plain: "page_plain plain p cells" and "0 < length cells" and ss: "list_all (\<lambda>s. s \<noteq> None) ss"
  shows "writes sz (print_table dev p (slot_rows rws) ss (map (page_width p cells) [0..<n_cols cells])
      (map (page_height p cells) [0..<length cells]) (page_max_width p cells)) (page_text enc p ss cells)"
proof -
  let ?ws = "map (page_width p cells) [0..<n_cols cells]" and ?hs = "map (page_height p cells) [0..<length cells]"
  let ?row = "\<lambda>r. [page_line enc p ss cells r, concat (map (page_row_line enc p cells r) [0..<page_height p cells r])]"
  let ?mt = "concat (replicate (unat (top_margin (tprops p))) [pad enc (page_max_width p cells - 1), enc newline_str])"
  let ?mb = "concat (replicate (unat (bottom_margin (tprops p))) [pad enc (page_max_width p cells - 1), enc newline_str])"
  have rs: "list_all2 (writes sz) (concat (map (print_table_row dev p (slot_rows rws) ss ?ws ?hs) is)) (concat (map ?row is))"
    if "\<forall>r \<in> set is. r < length cells" for "is"
    using that
  proof (induction "is")
    case (Cons r "is")
    then have "list_all2 (writes sz) (print_table_row dev p (slot_rows rws) ss ?ws ?hs r) (?row r)"
      using writes_table_row [OF sh g st plain _ ss] by simp
    with Cons show ?case by (simp only: list.map concat.simps) (intro list_all2_appendI; simp)
  qed simp
  have len: "length (slot_rows rws) = length cells" using cells_show_length [OF sh] by simp
  have "list_all2 (writes sz)
      (margin_lines dev (unat (top_margin (tprops p))) (page_max_width p cells)
        @ concat (map (print_table_row dev p (slot_rows rws) ss ?ws ?hs) [0..<length cells])
        @ [print_table_bottom dev p (slot_rows rws) ss ?ws]
        @ margin_lines dev (unat (bottom_margin (tprops p))) (page_max_width p cells))
      (?mt @ concat (map ?row [0..<length cells]) @ [page_line enc p ss cells (length cells)] @ ?mb)"
    using writes_table_bottom [OF assms(5) sh st plain ss]
    by (intro list_all2_appendI writes_margin rs) simp_all
  note run = writes_all [OF this]
  have "concat (concat (map ?row is)) = concat (concat (map (\<lambda>r. page_line enc p ss cells r
     # map (page_row_line enc p cells r) [0..<page_height p cells r]) is))" for "is"
    by (induction "is") simp_all
  then have "concat (?mt @ concat (map ?row [0..<length cells]) @ [page_line enc p ss cells (length cells)] @ ?mb)
      = page_text enc p ss cells"
    by (simp only: concat_append concat_page_margin page_text_def page_lines_def page_rows_def append_assoc concat.simps append_Nil2)
  with run show ?thesis unfolding print_table_def len by (simp only:)
qed

end

end
