(* ===== verification/Fort_Render.thy ===== *)
theory Fort_Render
  imports Fort_Page
begin

text \<open>
  What the conversion of a table to a string gives: for a table of plain cells the text is the
  layout of the theory Fort\_Page with the lines of its \<open>char\<close> texts, and the block that is allocated
  for it is always large enough, so that no print fails.
\<close>

section \<open>Tables of plain cells\<close>

definition plain_row :: "string list \<Rightarrow> f_row" where
  "plain_row r = map (\<lambda>s. Some (text_cell s)) r"

text \<open>The table shows the texts \<open>txts\<close>, row by row.\<close>

definition shows_texts :: "ft_table \<Rightarrow> string list list \<Rightarrow> bool" where
  "shows_texts t txts \<longleftrightarrow> rows t = map (\<lambda>r. Some (plain_row r)) txts
     \<and> list_all (\<lambda>s. s \<noteq> None) (separators t) \<and> style_ok (bstyle (properties t))"

lemma text_cell_simps [simp]:
  "cell_type (text_cell s) = COMMON_CELL" "sb_str (str_buffer (text_cell s)) = Some s"
  by (simp_all add: text_cell_def fill_cell_from_string_def fill_buffer_from_string_def create_cell_def)

lemma columns_plain [simp]: "columns_in_row (plain_row r) = length r"
  by (simp add: columns_in_row_def plain_row_def)

definition lined :: "string list list \<Rightarrow> char text_lines list list" where
  "lined txts = map (map char_lines) txts"

abbreviation holds_text :: "f_string_buffer \<Rightarrow> char text_lines \<Rightarrow> bool" where
  "holds_text \<equiv> (\<lambda>b ls. \<exists>s. sb_str b = Some s \<and> ls = char_lines s)"

lemma plain_rows_slots: "map (\<lambda>r. Some (plain_row r)) txts = map Some (slot_rows (map (map text_cell) txts))"
  by (simp add: plain_row_def)

lemma plain_cells_show: "cells_show holds_text (map (map text_cell) txts) (lined txts)"
  by (simp add: cells_show_def lined_def list_all2_map1 list_all2_map2 list_all2_same)

lemma lined_simps: "length (lined txts) = length txts" "n_cols (lined txts) = n_cols txts"
    "r < length txts \<Longrightarrow> lined txts ! r = map char_lines (txts ! r)"
  by (simp_all add: lined_def n_cols_def comp_def)

lemma geoms_lined: "geoms_ok p (lined txts) = geoms_ok p txts"
  by (simp add: geoms_ok_def lined_simps)

section \<open>The layout of such a table\<close>

definition lay_text :: "f_table_properties \<Rightarrow> f_separator slots \<Rightarrow> string list list \<Rightarrow> string" where
  "lay_text p ss txts = page_text id p ss (lined txts)"

definition lay_max_width :: "f_table_properties \<Rightarrow> string list list \<Rightarrow> nat" where
  "lay_max_width p txts = page_max_width p (lined txts)"

definition lay_max_height :: "f_table_properties \<Rightarrow> string list list \<Rightarrow> nat" where
  "lay_max_height p txts = page_max_height p (lined txts)"

definition lay_width :: "f_table_properties \<Rightarrow> string list list \<Rightarrow> nat \<Rightarrow> nat" where
  "lay_width p txts c = page_width p (lined txts) c"

definition lay_invis :: "f_table_properties \<Rightarrow> string list list \<Rightarrow> nat \<Rightarrow> nat" where
  "lay_invis p txts c = page_invis p (lined txts) c"

definition lay_height :: "f_table_properties \<Rightarrow> string list list \<Rightarrow> nat \<Rightarrow> nat" where
  "lay_height p txts r = page_height p (lined txts) r"

text \<open>Size of a cell with the text \<open>s\<close>.\<close>

definition geom_width :: "cell_geom \<Rightarrow> string \<Rightarrow> nat" where
  "geom_width g s = max (g_left g + g_right g + text_width s) (g_min g)"

definition geom_height :: "cell_geom \<Rightarrow> string \<Rightarrow> nat" where
  "geom_height g s = g_top g + g_bottom g + (if s = [] then g_empty g else length (split_on newline s))"

lemma box_char_lines: "box_width g (char_lines s) = geom_width g s" "box_height g (char_lines s) = geom_height g s"
  by (simp_all add: box_width_def geom_width_def box_height_def geom_height_def char_lines_simps)
    (simp add: char_lines_def)

lemma maxf_cong: "n = m \<Longrightarrow> (\<And>i. i < m \<Longrightarrow> f i = g i) \<Longrightarrow> maxf f n = maxf g m"
  unfolding maxf_def by (intro arg_cong [where f = "\<lambda>xs. fold max xs 0"] map_cong) auto

lemma lay_width_eq: "lay_width p txts c =
    maxf (\<lambda>r. if c < length (txts ! r) then geom_width (geom_at p r c) (txts ! r ! c) else 0) (length txts)"
  unfolding lay_width_def page_width_def by (rule maxf_cong) (simp_all add: lined_simps box_char_lines)

lemma lay_invis_eq: "lay_invis p txts c =
    maxf (\<lambda>r. if c < length (txts ! r) then geom_invis (geom_at p r c) else 0) (length txts)"
  unfolding lay_invis_def page_invis_def by (rule maxf_cong) (simp_all add: lined_simps)

lemma lay_height_eq: "r < length txts \<Longrightarrow> lay_height p txts r =
    maxf (\<lambda>c. let g = geom_at p r c in
       if c < length (txts ! r) then geom_height g (txts ! r ! c)
       else if g_empty g \<noteq> 0 then g_empty g + g_top g + g_bottom g else 0) (n_cols txts)"
  unfolding lay_height_def page_height_def by (rule maxf_cong) (simp_all add: lined_simps box_char_lines Let_def)

lemma lay_max_width_eq: "lay_max_width p txts =
    (2 + (if n_cols txts = 0 then 1 else n_cols txts)
       + sum_list (map (\<lambda>c. lay_width p txts c + lay_invis p txts c) [0..<n_cols txts])
       + unat (left_margin (tprops p)) + unat (right_margin (tprops p))) * max_border_elem_strlen p"
  by (simp add: lay_max_width_def page_max_width_def lined_simps lay_width_def lay_invis_def)

lemma lay_max_height_eq: "lay_max_height p txts = 1 + (if length txts = 0 then 1 else length txts)
    + sum_list (map (lay_height p txts) [0..<length txts])
    + unat (top_margin (tprops p)) + unat (bottom_margin (tprops p))"
  by (simp add: lay_max_height_def page_max_height_def lined_simps lay_height_def [abs_def])

lemma lay_text_nonempty:
  assumes "r < length txts" and "0 < lay_height p txts r"
  shows "lay_text p ss txts \<noteq> []"
proof -
  let ?l = "page_row_line id p (lined txts) r 0"
  have "?l \<in> set (map (page_row_line id p (lined txts) r) [0..<page_height p (lined txts) r])"
    using assms(2) unfolding lay_height_def by force
  then have "?l \<in> set (page_rows id p ss (lined txts))"
    using assms(1) unfolding page_rows_def lined_simps by force
  then have "?l \<in> set (page_lines id p ss (lined txts))" by (simp add: page_lines_def)
  moreover have "?l \<noteq> []" by (simp add: page_row_line_def newline_str_def)
  ultimately show ?thesis by (auto simp: lay_text_def page_text_def)
qed

section \<open>The conversion\<close>

text \<open>The block a table already owns, or none yet, and its size after the call.\<close>

definition block_ok :: "ft_table \<Rightarrow> nat \<Rightarrow> bool" where
  "block_ok t n \<longleftrightarrow> (case conv_buffer t of
      None \<Rightarrow> int n \<le> INT_MAX
    | Some b \<Rightarrow> 0 < data_sz b \<and> int (data_sz b) \<le> INT_MAX \<and> 2 * int n \<le> INT_MAX)"

lemma block_grows:
  assumes "block_ok t n" and "0 < n"
  shows "\<exists>b. grow_buffer n (case conv_buffer t of None \<Rightarrow> create_string_buffer n | Some b \<Rightarrow> b) = Some b
     \<and> n \<le> data_sz b \<and> int (data_sz b) \<le> INT_MAX"
proof (cases "conv_buffer t")
  case None
  have "grow_buffer n (create_string_buffer n) = Some (create_string_buffer n)"
    by (simp add: grow_buffer.simps create_string_buffer_def string_buffer_width_capacity_def)
  with None assms show ?thesis by (simp add: block_ok_def create_string_buffer_def)
next
  case (Some b)
  then have pos: "0 < data_sz b" and le: "int (data_sz b) \<le> INT_MAX" "2 * int n \<le> INT_MAX"
    using assms by (simp_all add: block_ok_def)
  obtain b' where b': "grow_buffer n b = Some b'" "n \<le> data_sz b'"
      "b' = b \<or> data_sz b' < 2 * n \<and> sb_str b' = None"
    using grow_buffer_Some [OF pos] by blast
  have "int (data_sz b') \<le> INT_MAX" using b'(3) le by auto
  with b'(1,2) Some show ?thesis by auto
qed

lemma to_string_plain:
  assumes t: "shows_texts t txts" and g: "geoms_ok (properties t) txts" and "0 < length txts"
    and "lay_text (properties t) (separators t) txts \<noteq> []"
    and "block_ok t (lay_max_height (properties t) txts * lay_max_width (properties t) txts + 1)"
  shows "\<exists>b. ft_to_string t = Some (Some (lay_text (properties t) (separators t) txts),
       t\<lparr>conv_buffer := Some b\<rparr>)
     \<and> sb_str b = Some (lay_text (properties t) (separators t) txts)
     \<and> lay_max_height (properties t) txts * lay_max_width (properties t) txts < data_sz b
     \<and> int (data_sz b) \<le> INT_MAX"
proof -
  let ?p = "properties t" and ?ss = "separators t" and ?cells = "lined txts"
  let ?n = "lay_max_height ?p txts * lay_max_width ?p txts + 1"
  have ss: "list_all (\<lambda>s. s \<noteq> None) ?ss" and st: "style_ok (bstyle ?p)" using t by (simp_all add: shows_texts_def)
  have rs: "rows t = map Some (slot_rows (map (map text_cell) txts))"
    using t by (simp add: shows_texts_def plain_row_def)
  have gl: "geoms_ok ?p ?cells" using g by (simp add: geoms_lined)
  have plain: "page_plain (\<lambda>_. True) ?p ?cells" by (simp add: page_plain_def plain_tags_def list_all_length)
  obtain b where b: "grow_buffer ?n (case conv_buffer t of None \<Rightarrow> create_string_buffer ?n | Some b \<Rightarrow> b) = Some b"
      "?n \<le> data_sz b" "int (data_sz b) \<le> INT_MAX"
    using block_grows [OF assms(5)] by auto
  let ?c = "\<lparr>conv_out = [], raw_avail = string_buffer_raw_capacity b\<rparr>"
  have geo: "table_geometry char_device t = Some (lay_max_height ?p txts, lay_max_width ?p txts)"
    unfolding lay_max_height_def lay_max_width_def by (rule chars.max_geometry [OF rs plain_cells_show gl])
  have vis: "table_rows_and_cols_geometry char_device (t\<lparr>conv_buffer := Some b\<rparr>) VISIBLE_GEOMETRY =
      Some (map (page_width ?p ?cells) [0..<n_cols ?cells], map (page_height ?p ?cells) [0..<length ?cells])"
    using chars.geometry [of "t\<lparr>conv_buffer := Some b\<rparr>" _ ?cells VISIBLE_GEOMETRY, OF _ plain_cells_show] rs gl
    by simp
  have th: "those (rows t) = Some (slot_rows (map (map text_cell) txts))"
    by (rule chars.table_sizes(2) [OF rs plain_cells_show])
  have "length (lay_text ?p ?ss txts) < data_sz b"
    using chars.page_text_bound [OF st plain_cells_show, of ?ss txts] b(2)
    unfolding lay_text_def lay_max_height_def lay_max_width_def by linarith
  then have room: "has_room 1 (lay_text ?p ?ss txts) ?c"
    using b(3) by (simp add: has_room_def string_buffer_raw_capacity_def)
  obtain r where run: "0 \<le> r" "print_table char_device ?p (slot_rows (map (map text_cell) txts)) ?ss
      (map (page_width ?p ?cells) [0..<n_cols ?cells]) (map (page_height ?p ?cells) [0..<length ?cells])
      (lay_max_width ?p txts) ?c = Some (r, advance 1 (lay_text ?p ?ss txts) ?c)"
    using writesE [OF chars.writes_table [OF plain_cells_show gl st plain _ ss] room [unfolded lay_text_def]] assms(3)
    unfolding lay_max_width_def lay_text_def lined_simps by (metis length_greater_0_conv)
  let ?b = "b\<lparr>sb_str := Some (lay_text ?p ?ss txts)\<rparr>"
  have "ft_to_string t = Some (Some (lay_text ?p ?ss txts), t\<lparr>conv_buffer := Some ?b\<rparr>)"
    using assms(3,4) run unfolding ft_to_string_def geo bind.simps prod.case Let_def b(1) vis
    by (simp add: th advance_def lined_simps del: bind_Some_iff)
  then show ?thesis using b(2,3) by (intro exI [of _ ?b]) simp
qed

end
