(* ===== verification/Fort_Build.thy ===== *)
theory Fort_Build
  imports Fort_Render
begin

text \<open>
  Building a table the way the programs do: what the text of a format becomes, the row that
  \<open>ft_printf_ln\<close> appends, separators, and the properties the programs set.
\<close>

section \<open>Rows from texts\<close>

definition cells_of :: "string \<Rightarrow> string list" where
  "cells_of s = split_on g_col_separator s"

text \<open>The cells before an empty last one.\<close>

definition strip_last :: "string list \<Rightarrow> string list" where
  "strip_last l = (if last l = [] then butlast l else l)"

lemma row_from_loop_cells:
  "row_from_loop pos row k = (row @ plain_row (strip_last (cells_of pos)), k + length (cells_of pos) - 1)"
proof (induction pos row k rule: row_from_loop.induct)
  case (1 pos row k)
  show ?case
  proof (cases "pos = []")
    case True
    then show ?thesis
      by (simp add: row_from_loop.simps [of "[]"] cells_of_def strip_last_def plain_row_def)
  next
    case False
    show ?thesis
    proof (rule strchr_cases [of pos g_col_separator])
      assume n: "strchr pos g_col_separator = None" "split_on g_col_separator pos = [pos]"
      then show ?thesis
        using False by (simp add: row_from_loop.simps [of pos] cells_of_def strip_last_def plain_row_def seq_push_def)
    next
      fix rest
      assume r: "strchr pos g_col_separator = Some (g_col_separator # rest)"
        "split_on g_col_separator pos = take (length pos - Suc (length rest)) pos # split_on g_col_separator rest"
      let ?h = "take (length pos - Suc (length rest)) pos"
      have "row_from_loop pos row k = row_from_loop rest (seq_push row (text_cell ?h)) (k + 1)"
        using False r(1) by (simp add: row_from_loop.simps [of pos])
      also have "\<dots> = (seq_push row (text_cell ?h) @ plain_row (strip_last (cells_of rest)),
          k + 1 + length (cells_of rest) - 1)"
        using "1.IH" [OF False r(1) refl] by simp
      finally show ?thesis
        using r(2) by (simp add: cells_of_def strip_last_def plain_row_def seq_push_def)
    qed
  qed
qed

lemma empty_cells_to_pad:
  "empty_cells_to row n = row @ replicate (n - length row) (Some (text_cell []))"
proof (induction row n rule: empty_cells_to.induct)
  case (1 row n)
  show ?case
  proof (cases "length row < n")
    case True
    then obtain d where d: "n - length row = Suc d" by (cases "n - length row") simp_all
    then have "n - length (seq_push row (text_cell [])) = d" by (simp add: seq_push_def)
    with "1.IH" True d show ?thesis
      by (simp add: empty_cells_to.simps [of row n] columns_in_row_def seq_push_def)
  next
    case False
    then show ?thesis by (simp add: empty_cells_to.simps [of row n] columns_in_row_def)
  qed
qed

lemma create_row_cells: "create_row_from_string s = plain_row (cells_of s)"
proof -
  have ne: "cells_of s \<noteq> []" by (simp add: cells_of_def)
  show ?thesis
  proof (cases "last (cells_of s) = []")
    case True
    have "cells_of s = butlast (cells_of s) @ [[]]"
      using append_butlast_last_id [OF ne] True by simp
    then have "plain_row (cells_of s) = plain_row (butlast (cells_of s)) @ [Some (text_cell [])]"
      by (metis list.map map_append plain_row_def)
    moreover have "Suc (length (butlast (cells_of s))) = length (cells_of s)" using ne by simp
    ultimately show ?thesis
      using True by (simp add: create_row_from_string_def row_from_loop_cells create_row_def strip_last_def
        empty_cells_to_pad plain_row_def)
  next
    case False
    then show ?thesis
      using ne by (simp add: create_row_from_string_def row_from_loop_cells create_row_def strip_last_def
        empty_cells_to_pad plain_row_def)
  qed
qed

text \<open>What a format gives: its columns must be those of the text, unless it has only one.\<close>

definition fmt_cells :: "string \<Rightarrow> string \<Rightarrow> string list option" where
  "fmt_cells fmt txt =
     (if length (cells_of txt) = length (cells_of fmt) then Some (cells_of txt)
      else if length (cells_of fmt) = 1 then Some [txt] else None)"

lemma create_row_fmt:
  assumes "vsprintf fmt args = Some txt" and "int (length txt) \<le> INT_MAX"
  shows "create_row_from_fmt_string fmt args = Some (map_option plain_row (fmt_cells fmt txt))"
proof -
  obtain b where b: "grow_buffer (length txt + 1) (create_string_buffer DEFAULT_STR_BUF_SIZE) = Some b"
    using grow_buffer_Some [of "create_string_buffer DEFAULT_STR_BUF_SIZE"]
    by (auto simp: create_string_buffer_def DEFAULT_STR_BUF_SIZE_def)
  have one: "get_cell_and_create_if_not_exists create_row 0 = Some (create_cell, [Some create_cell])"
    by (simp add: get_cell_and_create_if_not_exists_def create_row_def create_up_to.simps columns_in_row_def
      seq_push_def slot_at_def)
  show ?thesis
    using assms b one
    by (simp add: create_row_from_fmt_string_def columns_number_split fmt_cells_def cells_of_def
      create_row_from_buffer_def create_row_cells [unfolded cells_of_def] fill_cell_from_buffer_def
      plain_row_def text_cell_def split: prod.split)
qed

section \<open>Appending rows\<close>

text \<open>A table being filled row by row from the top.\<close>

definition building :: "ft_table \<Rightarrow> string list list \<Rightarrow> bool" where
  "building t txts \<longleftrightarrow> shows_texts t txts \<and> cur_row t = length txts \<and> cur_col t = 0
     \<and> add_strategy (tprops (properties t)) = FT_STRATEGY_REPLACE \<and> conv_buffer t = None"

lemma create_rows_next: "create_rows_up_to rs (length rs) = rs @ [Some create_row]"
  by (simp add: create_rows_up_to.simps [of rs] create_rows_up_to.simps [of "rs @ [Some create_row]"]
    seq_push_def)

lemma strategies [simp]: "FT_STRATEGY_REPLACE \<noteq> FT_STRATEGY_INSERT"
  by (simp add: FT_STRATEGY_REPLACE_def FT_STRATEGY_INSERT_def)

lemma length_split_txt: "length (cells_of txt) \<le> Suc (length txt)"
  by (simp add: cells_of_def length_split_on_le)

lemma fmt_cells_length: "fmt_cells fmt txt = Some cs \<Longrightarrow> length cs \<le> Suc (length txt)"
  by (metis fmt_cells_def length_split_txt list.size(3) list.size(4) le_add2 option.distinct(1)
      option.inject One_nat_def Suc_eq_plus1 add.left_neutral)

definition appended :: "ft_table \<Rightarrow> string list \<Rightarrow> ft_table" where
  "appended t cs = t\<lparr>rows := rows t @ [Some (plain_row cs)], cur_col := 0, cur_row := cur_row t + 1\<rparr>"

lemma columns_create [simp]: "columns_in_row create_row = 0"
  by (simp add: columns_in_row_def create_row_def)

lemma printf_ln_building:
  assumes b: "building t txts" and "vsprintf fmt args = Some txt" and "int (length txt) < INT_MAX"
  shows "ft_printf_ln t fmt args =
    (case fmt_cells fmt txt of None \<Rightarrow> Some (-1, t) | Some cs \<Rightarrow> Some (int (length cs), appended t cs))"
proof (cases "fmt_cells fmt txt")
  case None
  with assms show ?thesis
    by (simp add: ft_printf_ln_def ft_row_printf_impl_def create_row_fmt)
next
  case (Some cs)
  have len: "length (rows t) = cur_row t" using b by (simp add: building_def shows_texts_def)
  have n: "to_int32 (int (length cs)) = int (length cs)"
    using fmt_cells_length [OF Some] assms(3) by (intro to_int32_small) linarith+
  have strat: "add_strategy (tprops (properties t)) = FT_STRATEGY_REPLACE" "cur_col t = 0"
    using b by (simp_all add: building_def)
  have row: "create_row_from_fmt_string fmt args = Some (Some (plain_row cs))"
    using create_row_fmt [OF assms(2)] assms(3) Some by simp
  have rs: "create_rows_up_to (rows t) (cur_row t) = rows t @ [Some create_row]"
    using create_rows_next [of "rows t"] len by simp
  have upd: "(rows t @ [Some create_row])[cur_row t := x] = rows t @ [x]" for x
    using len by (metis list_update_length)
  have sl: "slot_at (rows t @ [Some create_row]) (cur_row t) = Some create_row"
    using len by (simp add: slot_at_def nth_append)
  show ?thesis
    using Some
    by (simp add: ft_printf_ln_def ft_row_printf_impl_def row rs sl strat swap_row_def n ft_ln_def
        appended_def Let_def upd columns_create del: bind_Some_iff)
qed

lemma appended_building: "building t txts \<Longrightarrow> building (appended t cs) (txts @ [cs])"
  by (simp add: building_def shows_texts_def appended_def)

lemma add_separator_building:
  assumes "building t txts"
  shows "\<exists>t'. ft_add_separator t = Some (FT_SUCCESS, t') \<and> building t' txts
     \<and> properties t' = properties t
     \<and> (length (separators t) \<le> length txts \<longrightarrow>
          separators t' = separators t @ replicate (length txts - length (separators t)) (Some \<lparr>enabled = False\<rparr>)
            @ [Some \<lparr>enabled = True\<rparr>])
     \<and> (length txts < length (separators t) \<longrightarrow>
          separators t' = (separators t)[length txts := Some \<lparr>enabled = True\<rparr>])"
proof -
  have up: "separators_up_to ss r = ss @ replicate (Suc r - length ss) (Some \<lparr>enabled = False\<rparr>)" for ss r
  proof (induction ss r rule: separators_up_to.induct)
    case (1 ss r)
    show ?case
    proof (cases "length ss \<le> r")
      case True
      then obtain d where d: "Suc r - length ss = Suc d" by (metis Suc_diff_le)
      then have "Suc r - length (seq_push ss \<lparr>enabled = False\<rparr>) = d" by (simp add: seq_push_def)
      with "1.IH" True d show ?thesis by (simp add: separators_up_to.simps [of ss r] seq_push_def)
    next
      case False
      then show ?thesis by (simp add: separators_up_to.simps [of ss r])
    qed
  qed
  let ?r = "length txts" and ?ss = "separators t"
  let ?up = "?ss @ replicate (Suc ?r - length ?ss) (Some \<lparr>enabled = False\<rparr>)"
  have cur: "cur_row t = ?r" and ss: "list_all (\<lambda>s. s \<noteq> None) ?ss"
    using assms by (simp_all add: building_def shows_texts_def)
  have len: "?r < length ?up" by simp
  have all: "list_all (\<lambda>s. s \<noteq> None) ?up" using ss by (auto simp: list_all_iff)
  then obtain sep where sep: "?up ! ?r = Some sep" using len by (auto simp: list_all_length)
  let ?t' = "t\<lparr>separators := ?up[?r := Some (sep\<lparr>enabled := True\<rparr>)]\<rparr>"
  have "ft_add_separator t = Some (FT_SUCCESS, ?t')"
    using sep len by (simp add: ft_add_separator_def cur up slot_at_def del: bind_Some_iff)
  moreover have "list_all (\<lambda>s. s \<noteq> None) (?up[?r := Some (sep\<lparr>enabled := True\<rparr>)])"
    using all by (auto simp: list_all_length nth_list_update)
  then have "building ?t' txts" using assms by (simp add: building_def shows_texts_def)
  moreover have "?up[?r := Some (sep\<lparr>enabled := True\<rparr>)] = ?ss @ replicate (?r - length ?ss) (Some \<lparr>enabled = False\<rparr>)
      @ [Some \<lparr>enabled = True\<rparr>]" if le: "length ?ss \<le> ?r"
  proof -
    have r: "replicate (Suc ?r - length ?ss) (Some \<lparr>enabled = False\<rparr>) =
        replicate (?r - length ?ss) (Some \<lparr>enabled = False\<rparr>) @ [Some \<lparr>enabled = False\<rparr>]"
      using le by (simp add: Suc_diff_le replicate_append_same)
    have "sep = \<lparr>enabled = False\<rparr>" using sep le unfolding r by (simp add: nth_append)
    then show ?thesis unfolding r using le by (simp add: list_update_append)
  qed
  moreover have "?up[?r := Some (sep\<lparr>enabled := True\<rparr>)] = ?ss[?r := Some \<lparr>enabled = True\<rparr>]" if "?r < length ?ss"
    using that by (cases sep) simp
  ultimately show ?thesis by (intro exI [of _ ?t']) simp
qed

section \<open>The properties the programs set\<close>

definition PLAIN_TABLE :: ft_table where
  "PLAIN_TABLE = ft_create_table\<lparr>properties := create_table_properties\<lparr>bstyle := PLAIN_STYLE\<rparr>\<rparr>"

lemma plain_style_set: "ft_set_border_style ft_create_table FT_PLAIN_STYLE = Some (FT_SUCCESS, PLAIN_TABLE)"
  by (simp add: ft_set_border_style_def set_border_props_for_props_def FT_PLAIN_STYLE_def built_in_styles_def
    PLAIN_TABLE_def ft_create_table_def)

lemma plain_style_ok [simp]: "style_ok PLAIN_STYLE"
  by (rule built_in_style_ok) (simp add: built_in_styles_def)

lemma plain_building: "building PLAIN_TABLE []"
  by (simp add: building_def shows_texts_def PLAIN_TABLE_def ft_create_table_def create_table_properties_def
    g_entire_table_properties_def)

text \<open>With the left padding of the first column set to 0.\<close>

definition UNPADDED_TABLE :: ft_table where
  "UNPADDED_TABLE = snd (ft_set_cell_prop PLAIN_TABLE FT_ANY_ROW 0 FT_CPROP_LEFT_PADDING 0)"

lemma unpadded_set: "ft_set_cell_prop PLAIN_TABLE FT_ANY_ROW 0 FT_CPROP_LEFT_PADDING 0 = (FT_SUCCESS, UNPADDED_TABLE)"
proof -
  have "fst (ft_set_cell_prop PLAIN_TABLE FT_ANY_ROW 0 FT_CPROP_LEFT_PADDING 0) = FT_SUCCESS"
    by (simp add: ft_set_cell_prop_def set_cell_property_def set_cell_property_impl_def cprop_defs PROP_IS_SET_def
      Let_def split: prod.splits)
  then show ?thesis by (simp add: UNPADDED_TABLE_def prod_eq_iff)
qed

lemma unpadded_container:
  "cell_properties (properties UNPADDED_TABLE) =
     [zero_cell_props\<lparr>cell_row := FT_ANY_ROW, cell_col := 0, properties_flags := FT_CPROP_LEFT_PADDING\<rparr>]"
  by (simp add: UNPADDED_TABLE_def ft_set_cell_prop_def set_cell_property_def set_cell_property_impl_def
    cprop_defs PROP_IS_SET_def PROP_SET_def PLAIN_TABLE_def ft_create_table_def create_table_properties_def
    create_cell_prop_container_def get_cell_prop_and_create_if_not_exists_def zero_cell_props_def
    FT_ANY_ROW_def FT_ANY_COLUMN_def FT_CUR_ROW_def FT_CUR_COLUMN_def)

lemma unpadded_building: "building UNPADDED_TABLE []"
proof -
  have "rows UNPADDED_TABLE = rows PLAIN_TABLE" "separators UNPADDED_TABLE = separators PLAIN_TABLE"
    "cur_row UNPADDED_TABLE = cur_row PLAIN_TABLE" "cur_col UNPADDED_TABLE = cur_col PLAIN_TABLE"
    "conv_buffer UNPADDED_TABLE = conv_buffer PLAIN_TABLE"
    "bstyle (properties UNPADDED_TABLE) = bstyle (properties PLAIN_TABLE)"
    "tprops (properties UNPADDED_TABLE) = tprops (properties PLAIN_TABLE)"
    by (simp_all add: UNPADDED_TABLE_def ft_set_cell_prop_def Let_def split: prod.splits)
  with plain_building show ?thesis by (simp add: building_def shows_texts_def)
qed

section \<open>The geometry of the cells\<close>

text \<open>All cells look like \<open>default_geom\<close> but for the left padding.\<close>

definition default_geom :: "nat \<Rightarrow> cell_geom" where
  "default_geom l = \<lparr>g_left = l, g_right = 1, g_top = 0, g_bottom = 0, g_empty = 1, g_min = 0,
     g_align = FT_ALIGNED_LEFT, g_style = [], g_reset = [], g_cstyle = [], g_creset = []\<rparr>"

lemma geom_of_values:
  assumes "get_cell_property_hierarchically p r c FT_CPROP_LEFT_PADDING = Some (int l)" and "l < 2 ^ 31"
    and "\<And>q. q \<in> {FT_CPROP_RIGHT_PADDING, FT_CPROP_TOP_PADDING, FT_CPROP_BOTTOM_PADDING,
          FT_CPROP_EMPTY_STR_HEIGHT, FT_CPROP_MIN_WIDTH, FT_CPROP_TEXT_ALIGN, FT_CPROP_CONT_FG_COLOR,
          FT_CPROP_CELL_BG_COLOR, FT_CPROP_CONT_BG_COLOR, FT_CPROP_CELL_TEXT_STYLE, FT_CPROP_CONT_TEXT_STYLE} \<Longrightarrow>
        get_cell_property_hierarchically p r c q = cell_prop_field g_default_cell_properties q"
  shows "cell_geom_of p r c = Some (default_geom l)"
proof -
  have codes: "style_codes FT_TSTYLE_DEFAULT = Some []" "style_set FT_TSTYLE_DEFAULT = Some False" by code_simp+
  have "color_tag fg_colors 0 = Some []" "color_tag bg_colors 0 = Some []" by code_simp+
  then show ?thesis
    using assms codes
    by (simp add: cell_geom_of_def size_prop_def word_prop_def get_style_tag_for_cell_def
      get_reset_style_tag_for_cell_def get_style_tag_for_content_def get_reset_style_tag_for_content_def
      cell_prop_field_def cprop_defs g_default_cell_properties_def default_geom_def size_of_int_def fits_def
      TEXT_STYLE_TAG_MAX_SIZE_def FT_ALIGNED_LEFT_def)
qed

lemma plain_geom: "cell_geom_of (properties PLAIN_TABLE) r c = Some (default_geom 1)"
proof (rule geom_of_values)
  have "matching [] q rc = None" for q rc by (cases rc) (simp add: matching_def)
  then have v: "get_cell_property_hierarchically (properties PLAIN_TABLE) r c q = cell_prop_field g_default_cell_properties q" for q
    by (simp add: lookup_first lookup_order_def map_filter_simps get_prop_value_if_exists_otherwise_default_def
      PLAIN_TABLE_def create_table_properties_def create_cell_prop_container_def)
  then show "get_cell_property_hierarchically (properties PLAIN_TABLE) r c FT_CPROP_LEFT_PADDING = Some (int 1)"
    by (simp add: cell_prop_field_def cprop_defs g_default_cell_properties_def)
  show "get_cell_property_hierarchically (properties PLAIN_TABLE) r c q = cell_prop_field g_default_cell_properties q" for q
    by (rule v)
qed simp

lemma unpadded_geom:
  assumes "c < FT_ANY_COLUMN"
  shows "cell_geom_of (properties UNPADDED_TABLE) r c = Some (default_geom (if c = 0 then 0 else 1))"
proof (rule geom_of_values)
  let ?o = "zero_cell_props\<lparr>cell_row := FT_ANY_ROW, cell_col := 0, properties_flags := FT_CPROP_LEFT_PADDING\<rparr>"
  let ?p = "properties UNPADDED_TABLE"
  have m: "matching (cell_properties ?p) q (r', c') =
      (if r' = FT_ANY_ROW \<and> c' = 0 \<and> PROP_IS_SET FT_CPROP_LEFT_PADDING q then Some ?o else None)" for q r' c'
    by (auto simp: matching_def unpadded_container)
  have v: "get_cell_property_hierarchically ?p r c q =
      (if c = 0 \<and> PROP_IS_SET FT_CPROP_LEFT_PADDING q then get_prop_value_if_exists_otherwise_default (Some ?o) q
       else get_prop_value_if_exists_otherwise_default None q)" for q
    using assms by (auto simp: lookup_first lookup_order_def map_filter_simps m FT_ANY_COLUMN_def)
  show "get_cell_property_hierarchically ?p r c FT_CPROP_LEFT_PADDING = Some (int (if c = 0 then 0 else 1))"
    by (simp add: v PROP_IS_SET_def get_prop_value_if_exists_otherwise_default_def cell_prop_field_def cprop_defs
      g_default_cell_properties_def zero_cell_props_def)
  show "get_cell_property_hierarchically ?p r c q = cell_prop_field g_default_cell_properties q"
    if "q \<in> {FT_CPROP_RIGHT_PADDING, FT_CPROP_TOP_PADDING, FT_CPROP_BOTTOM_PADDING,
          FT_CPROP_EMPTY_STR_HEIGHT, FT_CPROP_MIN_WIDTH, FT_CPROP_TEXT_ALIGN, FT_CPROP_CONT_FG_COLOR,
          FT_CPROP_CELL_BG_COLOR, FT_CPROP_CONT_BG_COLOR, FT_CPROP_CELL_TEXT_STYLE, FT_CPROP_CONT_TEXT_STYLE}" for q
  proof -
    have "\<not> PROP_IS_SET FT_CPROP_LEFT_PADDING q" using that by (auto simp: PROP_IS_SET_def cprop_defs)
    then show ?thesis by (simp add: v get_prop_value_if_exists_otherwise_default_def)
  qed
qed simp

section \<open>Tables of one-line texts\<close>

text \<open>
  The tables of the programs: every cell has the default geometry, but for the left padding \<open>l c\<close>
  of its column, and no text has a line break.
\<close>

definition one_line :: "f_table_properties \<Rightarrow> (nat \<Rightarrow> nat) \<Rightarrow> string list list \<Rightarrow> bool" where
  "one_line p l txts \<longleftrightarrow> (\<forall>r < length txts. \<forall>c < n_cols txts. cell_geom_of p r c = Some (default_geom (l c)))
     \<and> (\<forall>r \<in> set txts. \<forall>s \<in> set r. newline \<notin> set s)"

lemma split_one_line: "newline \<notin> set s \<Longrightarrow> split_on newline s = [s]"
  by (induction s) auto

lemma default_geom_size:
  assumes "newline \<notin> set s"
  shows "geom_width (default_geom l) s = l + 1 + length s" "geom_height (default_geom l) s = 1"
    "geom_invis (default_geom l) = 0"
  using assms
  by (simp_all add: geom_width_def geom_height_def geom_invis_def default_geom_def text_width_def
    split_one_line)

lemma one_line_geoms: "one_line p l txts \<Longrightarrow> geoms_ok p txts"
  by (simp add: one_line_def geoms_ok_def)

lemma one_line_geom: "one_line p l txts \<Longrightarrow> r < length txts \<Longrightarrow> c < n_cols txts \<Longrightarrow> geom_at p r c = default_geom (l c)"
  by (simp add: one_line_def geom_at_def)

lemma maxf_le: "(\<And>i. i < n \<Longrightarrow> f i \<le> b) \<Longrightarrow> maxf f n \<le> b"
  unfolding maxf_def by (rule fold_max_le) auto

lemma one_line_width:
  assumes "one_line p l txts" and "c < n_cols txts" and "\<forall>r \<in> set txts. \<forall>s \<in> set r. length s \<le> b"
  shows "lay_width p txts c \<le> l c + 1 + b" and "lay_invis p txts c = 0"
proof -
  have cell: "geom_width (geom_at p r c) (txts ! r ! c) = l c + 1 + length (txts ! r ! c)"
      "length (txts ! r ! c) \<le> b" if "r < length txts" "c < length (txts ! r)" for r
  proof -
    have "txts ! r ! c \<in> set (txts ! r)" "txts ! r \<in> set txts" using that by auto
    then have "length (txts ! r ! c) \<le> b" "newline \<notin> set (txts ! r ! c)"
      using assms(1,3) unfolding one_line_def by blast+
    then show "length (txts ! r ! c) \<le> b" "geom_width (geom_at p r c) (txts ! r ! c) = l c + 1 + length (txts ! r ! c)"
      using one_line_geom [OF assms(1) that(1) assms(2)] by (simp_all add: default_geom_size)
  qed
  show "lay_width p txts c \<le> l c + 1 + b"
    unfolding lay_width_eq by (rule maxf_le) (simp add: cell)
  have "maxf (\<lambda>r. if c < length (txts ! r) then geom_invis (geom_at p r c) else 0) (length txts) \<le> 0"
    by (rule maxf_le) (simp add: one_line_geom [OF assms(1) _ assms(2)] geom_invis_def default_geom_def)
  then show "lay_invis p txts c = 0" by (simp add: lay_invis_eq)
qed

lemma one_line_height:
  assumes "one_line p l txts" and "r < length txts" and "0 < n_cols txts"
  shows "lay_height p txts r = 1"
proof -
  let ?f = "\<lambda>c. let g = geom_at p r c in
        if c < length (txts ! r) then geom_height g (txts ! r ! c)
        else if g_empty g \<noteq> 0 then g_empty g + g_top g + g_bottom g else 0"
  have f: "?f c = 1" if "c < n_cols txts" for c
  proof (cases "c < length (txts ! r)")
    case True
    then have "txts ! r ! c \<in> set (txts ! r)" "txts ! r \<in> set txts" using assms(2) by auto
    then have "newline \<notin> set (txts ! r ! c)" using assms(1) by (auto simp: one_line_def)
    with True show ?thesis by (simp add: one_line_geom [OF assms(1,2) that] default_geom_size)
  next
    case False
    then show ?thesis by (simp add: one_line_geom [OF assms(1,2) that] default_geom_def)
  qed
  have "maxf ?f (n_cols txts) \<le> 1" by (rule maxf_le) (simp only: f)
  moreover have "?f 0 \<le> maxf ?f (n_cols txts)" using assms(3) by (rule maxf_ge)
  ultimately show ?thesis using f [OF assms(3)] unfolding lay_height_eq [OF assms(2)] by linarith
qed

lemma n_cols_le: "(\<And>r. r \<in> set txts \<Longrightarrow> length r \<le> k) \<Longrightarrow> n_cols txts \<le> k"
  unfolding n_cols_def by (rule fold_max_le) auto

lemma n_cols_pos: "r \<in> set txts \<Longrightarrow> r \<noteq> [] \<Longrightarrow> 0 < n_cols txts"
  using fold_max_ge(2) [of "length r" "map length txts" 0]
  by (metis image_eqI image_set le_zero_eq length_greater_0_conv n_cols_def neq0_conv)

text \<open>A bound for the block, and the whole call.\<close>

lemma one_line_max:
  assumes o: "one_line p l txts" and k: "\<And>r. r \<in> set txts \<Longrightarrow> length r \<le> k" and l: "\<And>c. l c \<le> 1"
    and b: "\<forall>r \<in> set txts. \<forall>s \<in> set r. length s \<le> b" and pos: "0 < n_cols txts"
    and m: "tprops p = g_entire_table_properties"
  shows "lay_max_width p txts \<le> (2 + k * (b + 3)) * max_border_elem_strlen p"
    and "lay_max_height p txts \<le> 2 * length txts + 2"
proof -
  let ?n = "n_cols txts"
  have n: "?n \<le> k" using k by (rule n_cols_le)
  have "lay_width p txts c + lay_invis p txts c \<le> b + 2" if "c < ?n" for c
    using one_line_width [OF o that b] l [of c] by linarith
  then have "sum_list (map (\<lambda>c. lay_width p txts c + lay_invis p txts c) [0..<?n]) \<le> sum_list (map (\<lambda>c. b + 2) [0..<?n])"
    by (intro sum_list_mono) simp
  also have "\<dots> = ?n * (b + 2)" by (simp add: sum_list_triv)
  finally have "2 + (if ?n = 0 then 1 else ?n) + sum_list (map (\<lambda>c. lay_width p txts c + lay_invis p txts c) [0..<?n]) \<le> 2 + ?n * (b + 3)"
    using pos by (simp add: algebra_simps)
  also have "\<dots> \<le> 2 + k * (b + 3)" using n by simp
  finally show "lay_max_width p txts \<le> (2 + k * (b + 3)) * max_border_elem_strlen p"
    using m by (simp add: lay_max_width_eq g_entire_table_properties_def)
  have "sum_list (map (lay_height p txts) [0..<length txts]) = sum_list (map (\<lambda>r. 1) [0..<length txts])"
    using one_line_height [OF o _ pos] by (intro arg_cong [where f = sum_list] map_cong) auto
  then show "lay_max_height p txts \<le> 2 * length txts + 2"
    using m by (simp add: lay_max_height_eq g_entire_table_properties_def sum_list_triv)
qed

lemma one_line_area:
  assumes t: "building t txts" and o: "one_line (properties t) l txts" and k: "\<forall>r \<in> set txts. r \<noteq> [] \<and> length r \<le> k"
    and l: "\<And>c. l c \<le> 1" and b: "\<forall>r \<in> set txts. \<forall>s \<in> set r. length s \<le> b" and ne: "txts \<noteq> []"
    and m: "tprops (properties t) = g_entire_table_properties" and w: "max_border_elem_strlen (properties t) = 1"
  shows "lay_max_height (properties t) txts * lay_max_width (properties t) txts + 1
      \<le> (2 * length txts + 2) * (2 + k * (b + 3)) + 1"
    and "lay_text (properties t) (separators t) txts \<noteq> []"
proof -
  obtain r where r: "r \<in> set txts" using ne by (cases txts) auto
  have pos: "0 < n_cols txts" using n_cols_pos [OF r] k r by blast
  show "lay_text (properties t) (separators t) txts \<noteq> []"
    using ne one_line_height [OF o _ pos, of 0] by (intro lay_text_nonempty [of 0]) auto
  show "lay_max_height (properties t) txts * lay_max_width (properties t) txts + 1
      \<le> (2 * length txts + 2) * (2 + k * (b + 3)) + 1"
    using one_line_max [OF o _ l b pos m, of k] k w by (intro add_mono mult_mono) auto
qed

text \<open>The text can be computed again in the block of the first call.\<close>

lemma print_one_line:
  assumes t: "building t txts" and o: "one_line (properties t) l txts" and k: "\<forall>r \<in> set txts. r \<noteq> [] \<and> length r \<le> k"
    and l: "\<And>c. l c \<le> 1" and b: "\<forall>r \<in> set txts. \<forall>s \<in> set r. length s \<le> b" and ne: "txts \<noteq> []"
    and m: "tprops (properties t) = g_entire_table_properties" and w: "max_border_elem_strlen (properties t) = 1"
    and lim: "2 * int ((2 * length txts + 2) * (2 + k * (b + 3)) + 1) \<le> INT_MAX"
  shows "\<exists>t' t''. ft_to_string t = Some (Some (lay_text (properties t) (separators t) txts), t')
     \<and> ft_to_string t' = Some (Some (lay_text (properties t) (separators t) txts), t'')"
proof -
  let ?n = "lay_max_height (properties t) txts * lay_max_width (properties t) txts + 1"
  let ?L = "lay_text (properties t) (separators t) txts"
  have sh: "shows_texts t txts" "conv_buffer t = None" using t by (simp_all add: building_def)
  have le: "int ?n \<le> int ((2 * length txts + 2) * (2 + k * (b + 3)) + 1)"
    using one_line_area(1) [OF t o k l b ne m w] by (simp only: of_nat_le_iff)
  have n: "2 * int ?n \<le> INT_MAX" by (rule order_trans [OF mult_left_mono [OF le] lim]) simp
  have half: "x \<le> INT_MAX" if "2 * x \<le> INT_MAX" "0 \<le> x" for x using that by linarith
  have "block_ok t ?n" using half [OF n] sh(2) by (simp only: block_ok_def option.case of_nat_0_le_iff)
  then obtain c where c: "ft_to_string t = Some (Some ?L, t\<lparr>conv_buffer := Some c\<rparr>)"
      "lay_max_height (properties t) txts * lay_max_width (properties t) txts < data_sz c" "int (data_sz c) \<le> INT_MAX"
    using to_string_plain [OF sh(1) one_line_geoms [OF o] _ one_line_area(2) [OF t o k l b ne m w]] ne by auto
  let ?t = "t\<lparr>conv_buffer := Some c\<rparr>"
  have "shows_texts ?t txts" "geoms_ok (properties ?t) txts" "block_ok ?t ?n"
    using sh(1) one_line_geoms [OF o] c(2,3) n by (simp_all add: shows_texts_def block_ok_def)
  then obtain t'' where "ft_to_string ?t = Some (Some ?L, t'')"
    using to_string_plain [of ?t txts] ne one_line_area(2) [OF t o k l b ne m w] by auto
  with c(1) show ?thesis by blast
qed

lemma plain_border:
  "max_border_elem_strlen (properties PLAIN_TABLE) = 1" "max_border_elem_strlen (properties UNPADDED_TABLE) = 1"
proof -
  have s: "bstyle p = PLAIN_STYLE \<Longrightarrow> max_border_elem_strlen p = max_border_elem_strlen (properties PLAIN_TABLE)" for p
    by (simp add: max_border_elem_strlen_def PLAIN_TABLE_def)
  show p: "max_border_elem_strlen (properties PLAIN_TABLE) = 1" by code_simp
  have "bstyle (properties UNPADDED_TABLE) = PLAIN_STYLE"
    by (simp add: UNPADDED_TABLE_def ft_set_cell_prop_def Let_def PLAIN_TABLE_def split: prod.splits)
  from s [OF this] p show "max_border_elem_strlen (properties UNPADDED_TABLE) = 1" by simp
qed

lemma plain_margins:
  "tprops (properties PLAIN_TABLE) = g_entire_table_properties"
  "tprops (properties UNPADDED_TABLE) = g_entire_table_properties"
  by (simp_all add: UNPADDED_TABLE_def ft_set_cell_prop_def Let_def PLAIN_TABLE_def create_table_properties_def
    split: prod.splits)

lemma plain_one_line:
  assumes "\<forall>r \<in> set txts. \<forall>s \<in> set r. newline \<notin> set s"
  shows "one_line (properties PLAIN_TABLE) (\<lambda>_. 1) txts"
    and "n_cols txts \<le> FT_ANY_COLUMN \<Longrightarrow> one_line (properties UNPADDED_TABLE) (\<lambda>c. if c = 0 then 0 else 1) txts"
  using assms by (simp_all add: one_line_def plain_geom unpadded_geom)

lemma properties_appended [simp]: "properties (appended t cs) = properties t" "separators (appended t cs) = separators t"
  by (simp_all add: appended_def)

end
