(* ===== verification/Fort_Rows.thy ===== *)
theory Fort_Rows
  imports Fort_Build
begin

text \<open>
  Rows of fields, as the programs print them: the text of a format with separators between its fields,
  which rows are refused, filling a table row by row, and printing a table of short fields twice.
\<close>

section \<open>The rows of the tables\<close>

lemma cells_of_bar [simp]: "cells_of (a @ CHR ''|'' # b) = cells_of a @ cells_of b"
  unfolding cells_of_def g_col_separator_def
  by (induction a) (auto split: list.splits)

lemma cells_of_parts:
  "cells_of (CHR ''|'' # b) = [] # cells_of b"
  "CHR ''|'' \<notin> set a \<Longrightarrow> cells_of a = [a]"
proof -
  show "cells_of (CHR ''|'' # b) = [] # cells_of b"
    using cells_of_bar [of "[]" b] by (simp add: cells_of_def)
  show "CHR ''|'' \<notin> set a \<Longrightarrow> cells_of a = [a]"
    unfolding cells_of_def g_col_separator_def by (induction a) auto
qed

text \<open>A text has one cell more than it has separators.\<close>

lemma length_cells_of: "length (cells_of s) = Suc (length (filter (\<lambda>c. c = CHR ''|'') s))"
  unfolding cells_of_def g_col_separator_def by (induction s) (auto split: list.splits)

definition barless :: "string list \<Rightarrow> bool" where
  "barless vs \<longleftrightarrow> (\<forall>s \<in> set vs. CHR ''|'' \<notin> set s)"

text \<open>A field the tables can lay out: it fits its array and has no line break.\<close>

definition short_fields :: "string list \<Rightarrow> bool" where
  "short_fields vs \<longleftrightarrow> (\<forall>s \<in> set vs. length s \<le> 127 \<and> newline \<notin> set s)"

text \<open>The rows of a list of texts, one after the other; a text with too many cells is left out.\<close>

definition append_rows :: "ft_table \<Rightarrow> string list list \<Rightarrow> ft_table" where
  "append_rows t rs = fold (\<lambda>r t. appended t r) rs t"

lemma append_rows_simps [simp]:
  "append_rows t [] = t"
  "append_rows t (r # rs) = append_rows (appended t r) rs"
  by (simp_all add: append_rows_def)

lemma append_rows_same [simp]:
  "properties (append_rows t rs) = properties t" "separators (append_rows t rs) = separators t"
  by (induction rs arbitrary: t) simp_all

lemma append_rows_building: "building t txts \<Longrightarrow> building (append_rows t rs) (txts @ rs)"
proof (induction rs arbitrary: t txts)
  case (Cons r rs)
  show ?case using Cons.IH [OF appended_building [OF Cons.prems]] by simp
qed simp

lemma print_row:
  assumes "building t txts" and "vsprintf fmt args = Some txt" and "int (length txt) < INT_MAX"
    and "length (cells_of fmt) \<noteq> 1"
  shows "\<exists>r. ft_printf_ln t fmt args =
    Some (r, if length (cells_of txt) = length (cells_of fmt) then appended t (cells_of txt) else t)"
  using printf_ln_building [OF assms(1-3)] assms(4) by (simp add: fmt_cells_def)

text \<open>A text of some fields with separators between them has the fields as its cells, or too many.\<close>

fun joined :: "string list \<Rightarrow> string" where
  "joined [] = []"
| "joined [v] = v"
| "joined (v # vs) = v @ CHR ''|'' # joined vs"

lemma joined_cells:
  assumes "vs \<noteq> []"
  shows "barless vs \<Longrightarrow> cells_of (joined vs) = vs"
    and "length (cells_of (joined vs)) = length vs \<longleftrightarrow> barless vs"
proof -
  have "cells_of (joined vs) = concat (map cells_of vs)"
    using assms by (induction vs rule: joined.induct) simp_all
  moreover have "length (concat (map cells_of vs)) = length vs \<longleftrightarrow> barless vs"
  proof -
    have "length (concat (map cells_of vs)) = length vs + sum_list (map (\<lambda>s. length (filter (\<lambda>c. c = CHR ''|'') s)) vs)"
      by (induction vs) (simp_all add: length_cells_of)
    then show ?thesis by (auto simp: barless_def sum_list_eq_0_iff filter_empty_conv)
  qed
  moreover have "barless vs \<Longrightarrow> concat (map cells_of vs) = vs"
    by (induction vs) (simp_all add: barless_def cells_of_parts(2))
  ultimately show "barless vs \<Longrightarrow> cells_of (joined vs) = vs"
    and "length (cells_of (joined vs)) = length vs \<longleftrightarrow> barless vs" by simp_all
qed

lemma length_joined: "\<forall>s \<in> set vs. length s \<le> b \<Longrightarrow> length (joined vs) \<le> length vs * (b + 1)"
  by (induction vs rule: joined.induct) auto

lemma print_fields:
  assumes "building t txts" and "vsprintf fmt args = Some (joined vs)" and "length (cells_of fmt) = length vs"
    and "1 < length vs" and "length vs < 100" and "\<forall>s \<in> set vs. length s \<le> 127"
  shows "\<exists>r. ft_printf_ln t fmt args = Some (r, append_rows t (if barless vs then [vs] else []))"
proof -
  have "length (joined vs) \<le> length vs * (127 + 1)" using assms(6) by (rule length_joined)
  also have "\<dots> \<le> 100 * (127 + 1)" using assms(5) by (intro mult_le_mono) simp_all
  finally have "int (length (joined vs)) < INT_MAX" by (simp add: INT_MAX_def)
  then show ?thesis
    using print_row [OF assms(1,2)] joined_cells [of vs] assms(3,4)
    by (cases "vs = []") (auto split: if_splits)
qed

lemma unpadded_separators [simp]: "separators UNPADDED_TABLE = []" "separators PLAIN_TABLE = []"
  by (simp_all add: UNPADDED_TABLE_def ft_set_cell_prop_def Let_def PLAIN_TABLE_def ft_create_table_def
    split: prod.splits)

text \<open>A table of short fields is small enough for both outputs.\<close>

lemma print_short:
  assumes "building t txts" and "one_line (properties t) l txts" and "\<And>c. l c \<le> 1"
    and "\<forall>r \<in> set txts. short_fields r \<and> r \<noteq> [] \<and> length r \<le> 11" and "txts \<noteq> []" and "length txts \<le> 20000"
    and "tprops (properties t) = g_entire_table_properties" and "max_border_elem_strlen (properties t) = 1"
  shows "\<exists>t' t''. ft_to_string t = Some (Some (lay_text (properties t) (separators t) txts), t')
     \<and> ft_to_string t' = Some (Some (lay_text (properties t) (separators t) txts), t'')"
proof (rule print_one_line [OF assms(1,2) _ assms(3) _ assms(5,7,8), of 11 127])
  show "\<forall>r \<in> set txts. r \<noteq> [] \<and> length r \<le> 11" using assms(4) by blast
  show "\<forall>r \<in> set txts. \<forall>s \<in> set r. length s \<le> 127" using assms(4) by (auto simp: short_fields_def)
  show "2 * int ((2 * length txts + 2) * (2 + 11 * (127 + 3)) + 1) \<le> INT_MAX"
    using assms(6) by (simp add: INT_MAX_def)
qed

end
