(* ===== verification/Topo_Print.thy ===== *)
theory Topo_Print
  imports Node_Spec Util Fort_Rows
begin

text \<open>
  The output of the topology manager: the association table and the node table, each written to a
  file and to the standard error stream (\<open>src/src/topo/node.c\<close>, on the table library), and the
  notification of the other process (\<open>notify_to_ixpc\<close>).

  A string that does not fit its array is a fault, as is printing a table whose text is NULL.  Log
  lines are not modelled.
\<close>

section \<open>The association table\<close>

definition assoc_fmt :: string where
  "assoc_fmt = ''%s|=|%s|%s|%s|%s|%s|%s|%s|%s|%s''"

definition assoc_head_fmt :: string where
  "assoc_head_fmt = ''%s| |%s|%s|%s|%s|%s|%s|%s|%s|%s''"

definition assoc_head :: "string list" where
  "assoc_head = [''### NAME'', ''TYPE'', ''GROUP'', ''MGNT_PRI_IP'', ''MGNT_SEC_IP'', ''MGNT_PORT'',
     ''SERV_PRI_IP'', ''SERV_SEC_IP'', ''INFO_NAME'', ''VNFC_ID'']"

definition assoc_values :: "node_info \<Rightarrow> string list" where
  "assoc_values n = [name n, ntype n, group n, mgnt_pri_ip n, mgnt_sec_ip n, mgnt_port n,
     serv_pri_ip n, serv_sec_ip n, info_name n, vnfc_id n]"

text \<open>The result of \<open>ft_printf_ln\<close> is ignored, so a row that is refused is missing.\<close>

definition assoc_info_fill_cb :: "ft_table node_cb" where
  "assoc_info_fill_cb st elem = do {
     let (h, table) = st;
     e \<leftarrow> deref h elem;
     (case key e of
        None \<Rightarrow> do { (r, table) \<leftarrow> ft_printf_ln table assoc_head_fmt (map Fs assoc_head); Some (h, table) }
      | Some k \<Rightarrow> do {
          n \<leftarrow> data e;
          (r, table) \<leftarrow> ft_printf_ln table assoc_fmt (map Fs (assoc_values n));
          Some (h, table)
        })
   }"

text \<open>The path of a file of the data directory.\<close>

definition data_path :: "os \<Rightarrow> string \<Rightarrow> string option" where
  "data_path w file = fits 1024 (case getenv w ''IV_HOME'' of Some home \<Rightarrow> home @ file | None \<Rightarrow> file)"

text \<open>Both outputs of a table; the text is computed twice in the same block.\<close>

definition write_table :: "os \<Rightarrow> string \<Rightarrow> string \<Rightarrow> ft_table \<Rightarrow> os option" where
  "write_table w path banner table = do {
     (s, table) \<leftarrow> ft_to_string table;
     s \<leftarrow> s;
     let w = fopen_cmd w path banner s;
     (s, table) \<leftarrow> ft_to_string table;
     s \<leftarrow> s;
     Some (print_stderr w s)
   }"

definition assoc_info_print :: "main_ctx \<Rightarrow> os \<Rightarrow> (main_ctx \<times> os) option" where
  "assoc_info_print ctx w = do {
     (r, table) \<leftarrow> ft_set_border_style ft_create_table FT_PLAIN_STYLE;
     let (r, table) = ft_set_cell_prop table FT_ANY_ROW 0 FT_CPROP_LEFT_PADDING 0;
     (h, table) \<leftarrow> list_element (Some assoc_info_fill_cb) (mem ctx, table) (node_list ctx);
     path \<leftarrow> data_path w ''/data/associate_config'';
     w \<leftarrow> write_table w path ''[ASSOCIATE_SYSTEMS]'' table;
     Some (ctx\<lparr>mem := h\<rparr>, w)
   }"

section \<open>The node table\<close>

definition node_fmt :: string where "node_fmt = ''%s|%s|%s|%s|%s|%s''"

definition node_head :: "string list" where
  "node_head = [''NODE_NAME'', ''MGNT_IP'', ''MGNT_PORT'', ''POD_NAME'', ''POD_IP'', ''MP_NAME'']"

definition or_na :: "string \<Rightarrow> string" where
  "or_na s = (if length s > 0 then s else ''N/A'')"

definition node_values :: "node_info \<Rightarrow> string list" where
  "node_values n = [or_na (node_name n), mgnt_pri_ip n, mgnt_port n, or_na (pod_name n),
     or_na (serv_pri_ip n), name n]"

fun print_nodes :: "ft_table \<Rightarrow> node_info list \<Rightarrow> ft_table option" where
  "print_nodes table [] = Some table"
| "print_nodes table (n # ns) = do {
     (r, table) \<leftarrow> ft_printf_ln table node_fmt (map Fs (node_values n));
     print_nodes table ns
   }"

definition node_info_print :: "main_ctx \<Rightarrow> os \<Rightarrow> os option" where
  "node_info_print ctx w = do {
     (count, nodes) \<leftarrow> assoc_info_make_list ctx TOPO_MAX_LIST;
     (r, table) \<leftarrow> ft_set_border_style ft_create_table FT_PLAIN_STYLE;
     (r, table) \<leftarrow> ft_add_separator table;
     (r, table) \<leftarrow> ft_printf_ln table node_fmt (map Fs node_head);
     (r, table) \<leftarrow> ft_add_separator table;
     table \<leftarrow> print_nodes table (take count nodes);
     (r, table) \<leftarrow> ft_add_separator table;
     path \<leftarrow> data_path w ''/data/node_info'';
     write_table w path ''[NODE_INFO]'' table
   }"

section \<open>The notification\<close>

text \<open>
  The message is a block of bytes, here characters; the header has four names of 16 characters,
  the source and destination system and application, and the length of the body.  \<open>strcpy\<close> writes
  the name and a terminator; it does not stop at the end of a field.
\<close>

definition MAX_GEN_QMSG_LEN :: nat where "MAX_GEN_QMSG_LEN = 81912"
definition bodyLen :: nat where "bodyLen = 10"
definition srcSysName :: nat where "srcSysName = 12"
definition srcAppName :: nat where "srcAppName = 28"
definition dstSysName :: nat where "dstSysName = 44"
definition dstAppName :: nat where "dstAppName = 60"

definition strcpy_at :: "string \<Rightarrow> nat \<Rightarrow> string \<Rightarrow> string option" where
  "strcpy_at block pos s =
     (if pos + length s + 1 \<le> length block
      then Some (take pos block @ s @ [nul] @ drop (pos + length s + 1) block) else None)"

definition IXPC_HEAD_LEN :: nat where "IXPC_HEAD_LEN = 76"

definition notify_to_ixpc :: "main_ctx \<Rightarrow> (int \<times> string) option" where
  "notify_to_ixpc ctx = do {
     let b = replicate MAX_GEN_QMSG_LEN nul;
     b \<leftarrow> strcpy_at b srcSysName (my_name ctx);
     b \<leftarrow> strcpy_at b dstSysName (my_name ctx);
     b \<leftarrow> strcpy_at b srcAppName ''TOPO'';
     b \<leftarrow> strcpy_at b dstAppName ''IXPC'';
     let b = b[bodyLen := nul, bodyLen + 1 := nul];
     Some (MTYPE_RELOAD_CONFIG_DATA, take IXPC_HEAD_LEN b)
   }"

section \<open>The association table of a list of nodes\<close>

definition assoc_cells :: "node_info \<Rightarrow> string list" where
  "assoc_cells n = name n # ''='' # tl (assoc_values n)"

definition assoc_head_cells :: "string list" where
  "assoc_head_cells = hd assoc_head # '' '' # tl assoc_head"

lemma assoc_fmt_text: "vsprintf assoc_fmt (map Fs (assoc_values n)) = Some (joined (assoc_cells n))"
  by (simp add: assoc_fmt_def assoc_values_def assoc_cells_def)

lemma assoc_head_text: "vsprintf assoc_head_fmt (map Fs assoc_head) = Some (joined assoc_head_cells)"
  by (simp add: assoc_head_fmt_def assoc_head_def assoc_head_cells_def)

lemma fmt_columns [simp]:
  "length (cells_of assoc_fmt) = 11" "length (cells_of assoc_head_fmt) = 11" "length (cells_of node_fmt) = 6"
  by (simp_all add: length_cells_of assoc_fmt_def assoc_head_fmt_def node_fmt_def)

lemma assoc_cells_length [simp]: "length (assoc_cells n) = 11" "length assoc_head_cells = 11"
  by (simp_all add: assoc_cells_def assoc_values_def assoc_head_cells_def assoc_head_def)

lemma assoc_head_fields: "barless assoc_head_cells" "short_fields assoc_head_cells"
  by (simp_all add: barless_def short_fields_def assoc_head_cells_def assoc_head_def newline_def)

lemma assoc_cells_fields:
  "short_fields (assoc_values n) \<Longrightarrow> short_fields (assoc_cells n)"
  by (simp add: short_fields_def assoc_cells_def assoc_values_def newline_def)

definition assoc_step :: "string \<Rightarrow> node_info \<Rightarrow> ft_table \<Rightarrow> (node_info option \<times> ft_table) option" where
  "assoc_step k n table = map_option (\<lambda>(r, t). (Some n, t)) (ft_printf_ln table assoc_fmt (map Fs (assoc_values n)))"

definition assoc_root :: "ft_table \<Rightarrow> ft_table option" where
  "assoc_root table = map_option snd (ft_printf_ln table assoc_head_fmt (map Fs assoc_head))"

lemma bind_pair: "Option.bind m (\<lambda>(r, t). Some (h, t)) = map_option (Pair h) (map_option snd m)"
  by (cases m) auto

interpretation assoc_rows: list_callback assoc_info_fill_cb assoc_root assoc_step
  by unfold_locales
    (auto simp: assoc_info_fill_cb_def assoc_step_def assoc_root_def deref_def set_data_same bind_pair
      bind_eq_None_conv split: option.splits)

lemma walk_assoc:
  assumes "building t txts" and "\<forall>n \<in> set (infos xs). short_fields (assoc_values n)"
  shows "walk assoc_step xs t = Some (xs, append_rows t (filter barless (map assoc_cells (infos xs))))"
  using assms
proof (induction xs arbitrary: t txts)
  case (Cons x xs)
  obtain a k n where x: "x = (a, k, n)" by (cases x) auto
  let ?r = "if barless (assoc_cells n) then [assoc_cells n] else []"
  have "short_fields (assoc_cells n)" using Cons.prems(2) x by (simp add: assoc_cells_fields)
  then obtain r where "ft_printf_ln t assoc_fmt (map Fs (assoc_values n)) = Some (r, append_rows t ?r)"
    using print_fields [OF Cons.prems(1) assoc_fmt_text] by (fastforce simp: short_fields_def)
  then have st: "assoc_step k n t = Some (Some n, append_rows t ?r)" by (simp add: assoc_step_def)
  have "walk assoc_step xs (append_rows t ?r) =
      Some (xs, append_rows (append_rows t ?r) (filter barless (map assoc_cells (infos xs))))"
    using Cons.prems(2) by (intro Cons.IH [OF append_rows_building [OF Cons.prems(1)]]) simp
  with st x show ?case by (simp add: comp_def)
qed simp

text \<open>
  The text of the table: the head and a row for every node none of whose fields has a separator.
\<close>

definition assoc_rows_of :: "node_info list \<Rightarrow> string list list" where
  "assoc_rows_of ns = assoc_head_cells # filter barless (map assoc_cells ns)"

definition assoc_table :: "node_info list \<Rightarrow> string" where
  "assoc_table ns = lay_text (properties UNPADDED_TABLE) [] (assoc_rows_of ns)"

lemma write_table_text:
  assumes "ft_to_string t = Some (Some s, t')" and "ft_to_string t' = Some (Some s, t'')"
  shows "write_table w path banner t = Some (print_stderr (fopen_cmd w path banner s) s)"
  using assms by (simp add: write_table_def Let_def del: bind_Some_iff)

text \<open>The table after the traversal, and that the traversal leaves the list as it is.\<close>

definition assoc_filled :: "node_info list \<Rightarrow> ft_table" where
  "assoc_filled ns = append_rows (appended UNPADDED_TABLE assoc_head_cells) (filter barless (map assoc_cells ns))"

lemma assoc_fill_rep:
  assumes "topo_rep ctx xs" and "\<forall>n \<in> set (infos xs). short_fields (assoc_values n)"
  shows "\<exists>h. list_element (Some assoc_info_fill_cb) (mem ctx, UNPADDED_TABLE) (node_list ctx) = Some (h, assoc_filled (infos xs))
     \<and> topo_rep (ctx\<lparr>mem := h\<rparr>) xs"
    and "building (assoc_filled (infos xs)) (assoc_rows_of (infos xs))"
proof -
  let ?head = "appended UNPADDED_TABLE assoc_head_cells"
  have wf: "wf_list (mem ctx) (node_list ctx) xs" using assms(1) by (simp add: topo_rep_def)
  have b0: "building ?head [assoc_head_cells]" using appended_building [OF unpadded_building] by simp
  obtain r where "ft_printf_ln UNPADDED_TABLE assoc_head_fmt (map Fs assoc_head) =
      Some (r, append_rows UNPADDED_TABLE (if barless assoc_head_cells then [assoc_head_cells] else []))"
    using print_fields [OF unpadded_building assoc_head_text] assoc_head_fields by (fastforce simp: short_fields_def)
  then have root: "assoc_root UNPADDED_TABLE = Some ?head" using assoc_head_fields by (simp add: assoc_root_def)
  obtain h where h: "list_element (Some assoc_info_fill_cb) (mem ctx, UNPADDED_TABLE) (node_list ctx) =
        Some (h, assoc_filled (infos xs))"
      "wf_list h (node_list ctx) xs" "oom h = oom (mem ctx)"
    using assoc_rows.traversal_Some [OF wf root walk_assoc [OF b0 assms(2)]] unfolding assoc_filled_def by blast
  then show "\<exists>h. list_element (Some assoc_info_fill_cb) (mem ctx, UNPADDED_TABLE) (node_list ctx) = Some (h, assoc_filled (infos xs))
     \<and> topo_rep (ctx\<lparr>mem := h\<rparr>) xs"
    using assms(1) by (auto simp: topo_rep_def)
  show "building (assoc_filled (infos xs)) (assoc_rows_of (infos xs))"
    using append_rows_building [OF b0] by (simp add: assoc_filled_def assoc_rows_of_def)
qed

text \<open>Whatever the outputs do, the list is kept.\<close>

lemma assoc_print_keeps:
  assumes "topo_rep ctx xs" and "\<forall>n \<in> set (infos xs). short_fields (assoc_values n)"
    and "assoc_info_print ctx w = Some (ctx', w')"
  shows "\<exists>h. ctx' = ctx\<lparr>mem := h\<rparr> \<and> topo_rep ctx' xs"
  using assoc_fill_rep(1) [OF assms(1,2)] assms(3)
  by (auto simp: assoc_info_print_def plain_style_set unpadded_set)

lemma assoc_print_rep:
  assumes "topo_rep ctx xs" and "\<forall>n \<in> set (infos xs). short_fields (assoc_values n)" and "length xs \<le> 10240"
    and "data_path w ''/data/associate_config'' = Some path"
  shows "\<exists>h. assoc_info_print ctx w = Some (ctx\<lparr>mem := h\<rparr>,
       print_stderr (fopen_cmd w path ''[ASSOCIATE_SYSTEMS]'' (assoc_table (infos xs))) (assoc_table (infos xs)))
     \<and> topo_rep (ctx\<lparr>mem := h\<rparr>) xs"
proof -
  let ?t = "assoc_filled (infos xs)" and ?rs = "filter barless (map assoc_cells (infos xs))"
  obtain h where h: "list_element (Some assoc_info_fill_cb) (mem ctx, UNPADDED_TABLE) (node_list ctx) = Some (h, ?t)"
      "topo_rep (ctx\<lparr>mem := h\<rparr>) xs"
    using assoc_fill_rep(1) [OF assms(1,2)] by blast
  note b = assoc_fill_rep(2) [OF assms(1,2)]
  have same: "properties ?t = properties UNPADDED_TABLE" "separators ?t = []" by (simp_all add: assoc_filled_def)
  have rows: "assoc_rows_of (infos xs) = [assoc_head_cells] @ ?rs" by (simp add: assoc_rows_of_def)
  have ok: "\<forall>r \<in> set (assoc_rows_of (infos xs)). short_fields r \<and> length r = 11"
    using assms(2) assoc_head_fields by (auto simp: rows assoc_cells_fields)
  have len: "length (assoc_rows_of (infos xs)) \<le> 20000"
  proof -
    have "length ?rs \<le> length (map assoc_cells (infos xs))" by (rule length_filter_le)
    then have "length ?rs \<le> 10240" using assms(3) by (metis length_map order_trans)
    then show ?thesis by (simp only: rows length_append list.size)
  qed
  have cols: "n_cols (assoc_rows_of (infos xs)) \<le> 11" using ok by (intro n_cols_le) auto
  have "one_line (properties ?t) (\<lambda>c. if c = 0 then 0 else 1) (assoc_rows_of (infos xs))"
    using ok cols by (simp add: same FT_ANY_COLUMN_def plain_one_line short_fields_def)
  then obtain t' t'' where "ft_to_string ?t = Some (Some (assoc_table (infos xs)), t')"
      "ft_to_string t' = Some (Some (assoc_table (infos xs)), t'')"
    using print_short [OF b, of "\<lambda>c. if c = 0 then 0 else 1"] ok len plain_margins plain_border
    by (fastforce simp: assoc_table_def same rows)
  note wt = write_table_text [OF this]
  have "assoc_info_print ctx w = Some (ctx\<lparr>mem := h\<rparr>,
       print_stderr (fopen_cmd w path ''[ASSOCIATE_SYSTEMS]'' (assoc_table (infos xs))) (assoc_table (infos xs)))"
    by (simp add: assoc_info_print_def plain_style_set unpadded_set h(1) assms(4) wt del: bind_Some_iff map_map)
  with h(2) show ?thesis by blast
qed

section \<open>The node table of a list of nodes\<close>

definition node_rows_of :: "node_info list \<Rightarrow> string list list" where
  "node_rows_of ns = node_head # filter barless (map node_values ns)"

text \<open>Lines above and below the head, and one below the last row.\<close>

definition node_seps :: "nat \<Rightarrow> f_separator option list" where
  "node_seps n = Some \<lparr>enabled = True\<rparr> # Some \<lparr>enabled = True\<rparr> #
     (if n = 0 then [] else replicate (n - 1) (Some \<lparr>enabled = False\<rparr>) @ [Some \<lparr>enabled = True\<rparr>])"

definition node_table :: "node_info list \<Rightarrow> string" where
  "node_table ns = lay_text (properties PLAIN_TABLE) (node_seps (length (filter barless (map node_values ns))))
     (node_rows_of ns)"

lemma node_fmt_text:
  "vsprintf node_fmt (map Fs (node_values n)) = Some (joined (node_values n))"
  "vsprintf node_fmt (map Fs node_head) = Some (joined node_head)"
  by (simp_all add: node_fmt_def node_values_def node_head_def)

lemma node_values_length [simp]: "length (node_values n) = 6" "length node_head = 6"
  by (simp_all add: node_values_def node_head_def)

lemma node_rows_nonempty [simp]: "node_values n \<noteq> []" "node_head \<noteq> []"
  by (simp_all add: node_values_def node_head_def)

lemma node_head_fields: "barless node_head" "short_fields node_head"
  by (simp_all add: barless_def short_fields_def node_head_def newline_def)

lemma print_nodes_rows:
  assumes "building t txts" and "\<forall>n \<in> set ns. short_fields (node_values n)"
  shows "print_nodes t ns = Some (append_rows t (filter barless (map node_values ns)))"
  using assms
proof (induction ns arbitrary: t txts)
  case (Cons n ns)
  let ?r = "if barless (node_values n) then [node_values n] else []"
  obtain r where "ft_printf_ln t node_fmt (map Fs (node_values n)) = Some (r, append_rows t ?r)"
    using print_fields [OF Cons.prems(1) node_fmt_text(1), of n] Cons.prems(2) by (fastforce simp: short_fields_def)
  moreover have "print_nodes (append_rows t ?r) ns =
      Some (append_rows (append_rows t ?r) (filter barless (map node_values ns)))"
    using Cons.prems(2) by (intro Cons.IH [OF append_rows_building [OF Cons.prems(1)]]) simp
  ultimately show ?case by simp
qed simp

text \<open>The table with its head, and the line below its rows.\<close>

lemma node_head_table:
  obtains s1 t1 t2 r t3 where "ft_add_separator PLAIN_TABLE = Some (s1, t1)"
    and "ft_printf_ln t1 node_fmt (map Fs node_head) = Some (r, t2)" and "ft_add_separator t2 = Some (s1, t3)"
    and "building t3 [node_head]" and "properties t3 = properties PLAIN_TABLE"
    and "separators t3 = [Some \<lparr>enabled = True\<rparr>, Some \<lparr>enabled = True\<rparr>]"
proof -
  obtain t1 where t1: "ft_add_separator PLAIN_TABLE = Some (FT_SUCCESS, t1)" "building t1 []"
      "properties t1 = properties PLAIN_TABLE" "separators t1 = [Some \<lparr>enabled = True\<rparr>]"
    using add_separator_building [OF plain_building] by auto
  obtain r where r: "ft_printf_ln t1 node_fmt (map Fs node_head) = Some (r, appended t1 node_head)"
    using print_fields [OF t1(2) node_fmt_text(2)] node_head_fields by (fastforce simp: short_fields_def)
  have "building (appended t1 node_head) [node_head]" using appended_building [OF t1(2)] by simp
  from add_separator_building [OF this] t1(3,4) obtain t3 where
      "ft_add_separator (appended t1 node_head) = Some (FT_SUCCESS, t3)" "building t3 [node_head]"
      "properties t3 = properties PLAIN_TABLE" "separators t3 = [Some \<lparr>enabled = True\<rparr>, Some \<lparr>enabled = True\<rparr>]"
    by auto
  with t1 r show thesis using that by blast
qed

lemma node_table_end:
  assumes "building t (node_head # rs)" and "separators t = [Some \<lparr>enabled = True\<rparr>, Some \<lparr>enabled = True\<rparr>]"
  obtains s t' where "ft_add_separator t = Some (s, t')" and "building t' (node_head # rs)"
    and "properties t' = properties t" and "separators t' = node_seps (length rs)"
proof -
  obtain t' where t': "ft_add_separator t = Some (FT_SUCCESS, t')" "building t' (node_head # rs)"
      "properties t' = properties t"
      "length rs \<noteq> 0 \<longrightarrow> separators t' = separators t @ replicate (length rs - 1) (Some \<lparr>enabled = False\<rparr>)
            @ [Some \<lparr>enabled = True\<rparr>]"
      "length rs = 0 \<longrightarrow> separators t' = (separators t)[1 := Some \<lparr>enabled = True\<rparr>]"
    using add_separator_building [OF assms(1)] assms(2) by (cases rs) auto
  have "separators t' = node_seps (length rs)"
    using t'(4,5) assms(2) by (cases "length rs = 0") (simp_all add: node_seps_def)
  with t' show thesis using that by blast
qed

lemma node_print_rep:
  assumes "topo_rep ctx xs" and "\<forall>n \<in> set (infos xs). short_fields (node_values n)"
    and "data_path w ''/data/node_info'' = Some path"
  shows "node_info_print ctx w = Some (let s = node_table (qsort assoc_info_compare (take 127 (infos xs)))
     in print_stderr (fopen_cmd w path ''[NODE_INFO]'' s) s)"
proof -
  let ?ns = "qsort assoc_info_compare (take 127 (infos xs))"
  let ?rs = "filter barless (map node_values ?ns)"
  have set_ns: "set ?ns = set (take 127 (infos xs))" and len: "length ?ns = min (length xs) 127"
    using mset_eq_setD [OF node_order.qsort_mset] mset_eq_length [OF node_order.qsort_mset, of "take 127 (infos xs)"]
    by simp_all
  have ok: "\<forall>n \<in> set ?ns. short_fields (node_values n)"
    using assms(2) set_take_subset unfolding set_ns by fast
  have make: "assoc_info_make_list ctx TOPO_MAX_LIST = Some (min (length xs) 127, ?ns)"
    using make_list_rep [OF assms(1)] by (simp add: TOPO_MAX_LIST_def)
  have all: "take (min (length xs) 127) ?ns = ?ns" using len by simp
  show ?thesis
  proof (rule node_head_table)
    fix s1 t1 t2 r t3
    assume st: "ft_add_separator PLAIN_TABLE = Some (s1, t1)"
      "ft_printf_ln t1 node_fmt (map Fs node_head) = Some (r, t2)" "ft_add_separator t2 = Some (s1, t3)"
      and b3: "building t3 [node_head]" "properties t3 = properties PLAIN_TABLE"
      "separators t3 = [Some \<lparr>enabled = True\<rparr>, Some \<lparr>enabled = True\<rparr>]"
    let ?t = "append_rows t3 ?rs"
    have nodes: "print_nodes t3 ?ns = Some ?t" by (rule print_nodes_rows [OF b3(1) ok])
    have "building ?t (node_head # ?rs)" using append_rows_building [OF b3(1), of ?rs] by simp
    then show ?thesis
    proof (rule node_table_end)
      show "separators ?t = [Some \<lparr>enabled = True\<rparr>, Some \<lparr>enabled = True\<rparr>]" using b3(3) by simp
      fix s t'
      assume t': "ft_add_separator ?t = Some (s, t')" "building t' (node_head # ?rs)"
        "properties t' = properties ?t" "separators t' = node_seps (length ?rs)"
      have p: "properties t' = properties PLAIN_TABLE" using t'(3) b3(2) by simp
      have fields: "\<forall>r \<in> set (node_head # ?rs). short_fields r \<and> r \<noteq> [] \<and> length r \<le> 11"
        using ok node_head_fields node_rows_nonempty by auto
      have "length ?rs \<le> length (map node_values ?ns)" by (rule length_filter_le)
      then have "length (node_head # ?rs) \<le> 20000" using len by simp
      moreover have "one_line (properties t') (\<lambda>_. 1) (node_head # ?rs)"
        unfolding p using fields by (intro plain_one_line(1)) (auto simp: short_fields_def)
      ultimately obtain t'' t3 where "ft_to_string t' = Some (Some (node_table ?ns), t'')"
          "ft_to_string t'' = Some (Some (node_table ?ns), t3)"
        using print_short [OF t'(2), of "\<lambda>_. 1"] fields plain_margins(1) plain_border(1)
        by (fastforce simp: node_table_def node_rows_of_def p t'(4))
      note wt = write_table_text [OF this]
      show ?thesis
        by (simp add: node_info_print_def make plain_style_set st all nodes t'(1) assms(3) wt Let_def
          del: bind_Some_iff map_map)
    qed
  qed
qed

section \<open>The fields of the notification\<close>

text \<open>What a reader of the message finds at an offset: the bytes up to the next terminator.\<close>

definition name_at :: "string \<Rightarrow> nat \<Rightarrow> string" where
  "name_at block pos = cstr (drop pos block)"

lemma strcpy_at_Some:
  assumes "pos + length s + 1 \<le> length b"
  shows "\<exists>b'. strcpy_at b pos s = Some b' \<and> length b' = length b \<and> (\<forall>j \<le> pos. take j b' = take j b)
     \<and> (\<exists>rest. drop pos b' = s @ nul # rest)"
  using assms by (simp add: strcpy_at_def min_def)

lemma name_at_field:
  assumes "drop p b = take n (s @ nul # rest) @ drop (p + n) b" and "nul \<notin> set s"
  shows "name_at b p = (if length s < n then s else take n s @ name_at b (p + n))"
proof -
  have run: "cstr (u @ v) = u @ cstr v" if "nul \<notin> set u" for u v
    using that unfolding cstr_def by (induction u) auto
  show ?thesis
  proof (cases "length s < n")
    case True
    then obtain m where "n - length s = Suc m" by (metis Suc_diff_Suc)
    with True assms have "drop p b = s @ nul # take m rest @ drop (p + n) b" by simp
    moreover have "cstr (nul # u) = []" for u by (simp add: cstr_def)
    ultimately show ?thesis using True assms(2) by (simp add: name_at_def run)
  next
    case False
    moreover have "nul \<notin> set (take n s)" using assms(2) by (meson in_set_takeD)
    ultimately show ?thesis using assms(1) by (simp add: name_at_def run)
  qed
qed

lemma field_of_copy:
  assumes "drop p b' = s @ nul # rest" and "take n (drop p m) = take n (drop p b')"
  shows "drop p m = take n (s @ nul # rest) @ drop (p + n) m"
  using assms by (metis append_take_drop_id drop_drop add.commute)

lemma notify_fields:
  assumes "nul \<notin> set (my_name ctx)" and "length (my_name ctx) < 128"
  shows "\<exists>m. notify_to_ixpc ctx = Some (MTYPE_RELOAD_CONFIG_DATA, m) \<and> length m = IXPC_HEAD_LEN
     \<and> name_at m srcAppName = ''TOPO'' \<and> name_at m dstAppName = ''IXPC''
     \<and> name_at m srcSysName = (if length (my_name ctx) < 16 then my_name ctx else take 16 (my_name ctx) @ ''TOPO'')
     \<and> name_at m dstSysName = (if length (my_name ctx) < 16 then my_name ctx else take 16 (my_name ctx) @ ''IXPC'')"
proof -
  let ?s = "my_name ctx" and ?z = "replicate MAX_GEN_QMSG_LEN nul"
  obtain b1 r1 where b1: "strcpy_at ?z 12 ?s = Some b1" "length b1 = MAX_GEN_QMSG_LEN" "drop 12 b1 = ?s @ nul # r1"
    using strcpy_at_Some [of 12 ?s ?z] assms(2) by (auto simp: MAX_GEN_QMSG_LEN_def)
  obtain b2 r2 where b2: "strcpy_at b1 44 ?s = Some b2" "length b2 = MAX_GEN_QMSG_LEN" "\<forall>j \<le> 44. take j b2 = take j b1"
      "drop 44 b2 = ?s @ nul # r2"
    using strcpy_at_Some [of 44 ?s b1] assms(2) b1(2) by (auto simp: MAX_GEN_QMSG_LEN_def)
  have b3ex: "\<exists>b3. strcpy_at b2 28 ''TOPO'' = Some b3 \<and> length b3 = MAX_GEN_QMSG_LEN \<and> (\<forall>j \<le> 28. take j b3 = take j b2)
      \<and> (\<exists>r. drop 28 b3 = ''TOPO'' @ nul # r) \<and> drop 33 b3 = drop 33 b2"
    using b2(2) by (simp add: strcpy_at_def MAX_GEN_QMSG_LEN_def min_def)
  then obtain b3 r3 where b3: "strcpy_at b2 28 ''TOPO'' = Some b3" "length b3 = MAX_GEN_QMSG_LEN"
      "\<forall>j \<le> 28. take j b3 = take j b2" "drop 28 b3 = ''TOPO'' @ nul # r3" "drop 33 b3 = drop 33 b2" by blast
  obtain b4 r4 where b4: "strcpy_at b3 60 ''IXPC'' = Some b4" "length b4 = MAX_GEN_QMSG_LEN"
      "\<forall>j \<le> 60. take j b4 = take j b3" "drop 60 b4 = ''IXPC'' @ nul # r4"
    using strcpy_at_Some [of 60 "''IXPC''" b3] b3(2) by (auto simp: MAX_GEN_QMSG_LEN_def)
  let ?m = "take 76 (b4[10 := nul, Suc 10 := nul])"
  have m: "notify_to_ixpc ctx = Some (MTYPE_RELOAD_CONFIG_DATA, ?m)"
    by (simp add: notify_to_ixpc_def srcSysName_def dstSysName_def srcAppName_def dstAppName_def bodyLen_def
      IXPC_HEAD_LEN_def b1(1) b2(1) b3(1) b4(1) Let_def del: bind_Some_iff)
  have win: "take 16 (drop p ?m) = take 16 (drop p b4)" if "12 \<le> p" "p + 16 \<le> 76" for p
    using that by (simp add: drop_take)
  have same: "take 16 (drop p x) = take 16 (drop p y)" if "take (p + 16) x = take (p + 16) y" for p and x y :: string
    using that by (metis add.commute take_drop)
  have "take 28 b4 = take 28 b1" using b2(3) b3(3) b4(3) by simp
  then have f1: "drop 12 ?m = take 16 (?s @ nul # r1) @ drop (12 + 16) ?m"
    using win [of 12] same [of 12 b4 b1] by (intro field_of_copy [OF b1(3)]) simp
  have f2: "drop 28 ?m = take 16 (''TOPO'' @ nul # r3) @ drop (28 + 16) ?m"
    using win [of 28] same [of 28 b4 b3] b4(3) by (intro field_of_copy [OF b3(4)]) simp
  have "drop 44 b3 = drop 44 b2" using arg_cong [OF b3(5), of "drop 11"] by simp
  then have f3: "drop 44 ?m = take 16 (?s @ nul # r2) @ drop (44 + 16) ?m"
    using win [of 44] same [of 44 b4 b3] b4(3) by (intro field_of_copy [OF b2(4)]) simp
  have f4: "drop 60 ?m = take 16 (''IXPC'' @ nul # r4) @ drop (60 + 16) ?m"
    using win [of 60] by (intro field_of_copy [OF b4(4)]) simp
  have tail: "nul \<notin> set ''TOPO''" "nul \<notin> set ''IXPC''" by (simp_all add: nul_def)
  have n2: "name_at ?m 28 = ''TOPO''" using name_at_field [OF f2 tail(1)] by simp
  have n4: "name_at ?m 60 = ''IXPC''" using name_at_field [OF f4 tail(2)] by simp
  have n1: "name_at ?m 12 = (if length ?s < 16 then ?s else take 16 ?s @ ''TOPO'')"
    using name_at_field [OF f1 assms(1)] n2 by simp
  have n3: "name_at ?m 44 = (if length ?s < 16 then ?s else take 16 ?s @ ''IXPC'')"
    using name_at_field [OF f3 assms(1)] n4 by simp
  have "length ?m = IXPC_HEAD_LEN" using b4(2) by (simp add: MAX_GEN_QMSG_LEN_def IXPC_HEAD_LEN_def)
  with m n1 n2 n3 n4 show ?thesis
    unfolding srcSysName_def dstSysName_def srcAppName_def dstAppName_def by blast
qed

end
