(* ===== verification/Udp.thy ===== *)
theory Udp
  imports Topo_Print
begin

text \<open>
  The transport of the topology manager and its two event handlers, \<open>src/src/topo/udp.c\<close>: a
  datagram socket that tells the address a datagram was sent to and answers from that address, the
  round of a client, and the registration handler of the server.

  The socket calls of the C library are the environment: a socket is a record of what
  \<open>getsockname\<close>, \<open>setsockopt\<close>, \<open>recvmsg\<close> and \<open>sendmsg\<close> return, and what is
  sent is recorded.  \<open>errno\<close> is not modelled, as no caller reads it.  A write behind the
  address object of the caller is a fault, as is a full receive buffer, which has no terminator.
\<close>

section \<open>Addresses and sockets\<close>

text \<open>A \<open>sockaddr\<close>: IPv4 (port and address), IPv6 (port, flow, address, scope), or another family.\<close>

datatype sockaddr = Sin "16 word" "32 word" | Sin6 "16 word" "32 word" "128 word" "32 word" | Other_family

definition SIN_LEN :: nat where "SIN_LEN = 16"
definition SIN6_LEN :: nat where "SIN6_LEN = 28"

datatype sock_level = IPPROTO_IP | IPPROTO_IPV6
datatype sock_option = IP_PKTINFO | IPV6_RECVPKTINFO

text \<open>Ancillary data: the destination address of a datagram (\<open>ipi_addr\<close>), or something else.\<close>

datatype cmsghdr = Pktinfo "32 word" | Pktinfo6 "128 word" | Other_cmsg

text \<open>
  A datagram that is sent: its bytes, where it goes, and the source address the control block asks
  for (\<open>ipi_spec_dst\<close> or \<open>ipi6_addr\<close>), if there is one.
\<close>

datatype spec_src = Spec4 "32 word" | Spec6 "128 word"

record out_msg =
  msg_data :: string
  msg_to :: sockaddr
  msg_src :: "spec_src option"

text \<open>
  What a socket answers: its own address, the result of setting an option, the next datagram (or a
  negative result) with its sender and control blocks, and the result of a send.  The sender has the
  family of the socket, so it fits the object the caller gives for it.
\<close>

record udp_sock =
  sock_name :: "sockaddr option"
  sock_opt :: "sock_level \<Rightarrow> sock_option \<Rightarrow> int"
  arriving :: "int + (string \<times> sockaddr \<times> cmsghdr list)"
  send_res :: "out_msg \<Rightarrow> int"

section \<open>Receiving with the destination address\<close>

definition udp_fromto_init :: "udp_sock \<Rightarrow> int" where
  "udp_fromto_init s = (case sock_name s of
     None \<Rightarrow> -1
   | Some (Sin p a) \<Rightarrow> sock_opt s IPPROTO_IP IP_PKTINFO
   | Some (Sin6 p f a sc) \<Rightarrow> sock_opt s IPPROTO_IPV6 IPV6_RECVPKTINFO
   | Some Other_family \<Rightarrow> -1)"

text \<open>
  Storing an address into the object of the caller, which has the layout it was initialised with:
  \<open>sin_addr\<close> is at the place of the flow label of an IPv6 address, and \<open>sin6_addr\<close> does
  not fit into an IPv4 object.
\<close>

definition put_sin_addr :: "sockaddr \<Rightarrow> 32 word \<Rightarrow> sockaddr option" where
  "put_sin_addr to a = (case to of
     Sin p _ \<Rightarrow> Some (Sin p a) | Sin6 p _ a6 sc \<Rightarrow> Some (Sin6 p a a6 sc) | Other_family \<Rightarrow> None)"

definition put_sin6_addr :: "sockaddr \<Rightarrow> 128 word \<Rightarrow> sockaddr option" where
  "put_sin6_addr to a = (case to of
     Sin p _ \<Rightarrow> None | Sin6 p f _ sc \<Rightarrow> Some (Sin6 p f a sc) | Other_family \<Rightarrow> None)"

text \<open>The loop over the control blocks stops at the first destination address.\<close>

fun scan_cmsgs :: "cmsghdr list \<Rightarrow> sockaddr \<Rightarrow> nat \<Rightarrow> (sockaddr \<times> nat) option" where
  "scan_cmsgs [] to tolen = Some (to, tolen)"
| "scan_cmsgs (c # cs) to tolen = (case c of
     Pktinfo a \<Rightarrow> do { to \<leftarrow> put_sin_addr to a; Some (to, SIN_LEN) }
   | Pktinfo6 a \<Rightarrow> do { to \<leftarrow> put_sin6_addr to a; Some (to, SIN6_LEN) }
   | Other_cmsg \<Rightarrow> scan_cmsgs cs to tolen)"

definition addr_len_of :: "sockaddr \<Rightarrow> nat" where
  "addr_len_of a = (case a of Sin _ _ \<Rightarrow> SIN_LEN | Sin6 _ _ _ _ \<Rightarrow> SIN6_LEN | Other_family \<Rightarrow> 2)"

text \<open>
  The result is the return value and, for a datagram, its bytes, the sender with its length, and
  the destination with its length.  \<open>to\<close> is \<open>None\<close> when the caller passes no object for
  it; \<open>from_len\<close> is the size of the object for the sender.
\<close>

record received =
  rcv_data :: string
  rcv_from :: sockaddr
  rcv_from_len :: nat
  rcv_to :: "(sockaddr \<times> nat) option"

definition udp_recv_fromto :: "udp_sock \<Rightarrow> nat \<Rightarrow> nat option \<Rightarrow> (int \<times> received option) option" where
  "udp_recv_fromto s len tolen =
     (case tolen of
        None \<Rightarrow>
          (case arriving s of
             Inl e \<Rightarrow> Some (e, None)
           | Inr (bytes, from, cs) \<Rightarrow>
               Some (int (length (take len bytes)),
                 Some \<lparr>rcv_data = take len bytes, rcv_from = from, rcv_from_len = addr_len_of from, rcv_to = None\<rparr>))
      | Some room \<Rightarrow>
          (case sock_name s of
             None \<Rightarrow> Some (-1, None)
           | Some Other_family \<Rightarrow> Some (-1, None)
           | Some to \<Rightarrow>
               if room < addr_len_of to then Some (-1, None)
               else
                 (case arriving s of
                    Inl e \<Rightarrow> Some (e, None)
                  | Inr (bytes, from, cs) \<Rightarrow> do {
                      dst \<leftarrow> scan_cmsgs cs to (addr_len_of to);
                      Some (int (length (take len bytes)),
                        Some \<lparr>rcv_data = take len bytes, rcv_from = from, rcv_from_len = addr_len_of from,
                              rcv_to = Some dst\<rparr>)
                    })))"

section \<open>Sending from an address\<close>

definition sent_from :: "udp_sock \<Rightarrow> out_msg \<Rightarrow> int \<times> out_msg option" where
  "sent_from s m = (send_res s m, if send_res s m < 0 then None else Some m)"

definition udp_send_fromto :: "udp_sock \<Rightarrow> string \<Rightarrow> sockaddr option \<Rightarrow> nat \<Rightarrow> sockaddr \<Rightarrow> int \<times> out_msg option" where
  "udp_send_fromto s buf from fromlen to =
     (if from = Some Other_family then (-1, None)
      else if from = None \<or> fromlen = 0 then sent_from s \<lparr>msg_data = buf, msg_to = to, msg_src = None\<rparr>
      else sent_from s \<lparr>msg_data = buf, msg_to = to, msg_src =
        (case from of
           Some (Sin p a) \<Rightarrow> Some (Spec4 a)
         | Some (Sin6 p f a sc) \<Rightarrow> Some (Spec6 a)
         | _ \<Rightarrow> None)\<rparr>)"

section \<open>The outside world of the handlers\<close>

text \<open>
  Files and output, the datagrams that were sent, the messages put into the queue of the other
  process, the sockets that were left open, and how often the keepalive counter was increased.
\<close>

record io =
  sys :: os
  datagrams :: "out_msg list"
  msgq :: "(int \<times> string) list"
  open_fds :: "int list"
  beats :: nat

text \<open>
  \<open>msgq\<close> lists the messages given to \<open>msgsnd\<close>.  Whether the queue takes one changes a line of the
  error log and nothing else: the program does not try again.
\<close>

definition notify :: "main_ctx \<Rightarrow> io \<Rightarrow> io option" where
  "notify ctx w = do { m \<leftarrow> notify_to_ixpc ctx; Some (w\<lparr>msgq := msgq w @ [m]\<rparr>) }"

definition print_assoc :: "main_ctx \<Rightarrow> io \<Rightarrow> (main_ctx \<times> io) option" where
  "print_assoc ctx w = do { (ctx, out) \<leftarrow> assoc_info_print ctx (sys w); Some (ctx, w\<lparr>sys := out\<rparr>) }"

section \<open>A round of the client\<close>

text \<open>
  What the calls of a round return: the address of the server, the new socket, the result of the
  send, and the reply or a negative result (the one-second limit, or an address length that is
  passed without a value).
\<close>

record client_net =
  host_by_name :: "string \<Rightarrow> 32 word option"
  new_socket :: int
  send_result :: "out_msg \<Rightarrow> int"
  recv_result :: "int + string"

fun client_lines :: "main_ctx \<Rightarrow> int \<Rightarrow> string list \<Rightarrow> (int \<times> main_ctx) option" where
  "client_lines ctx update_count [] = Some (update_count, ctx)"
| "client_lines ctx update_count (line # rest) = do {
     (res, ctx) \<leftarrow> node_proc_omp_send_info ctx line;
     client_lines ctx (if res = NP_ADD \<or> res = NP_REP then update_count + 1 else update_count) rest
   }"

definition client_message :: "main_ctx \<Rightarrow> string option" where
  "client_message ctx = do {
     node_ip \<leftarrow> my_node_ip ctx;
     pod_ip \<leftarrow> my_pod_ip ctx;
     node \<leftarrow> my_node_name ctx;
     pod \<leftarrow> my_pod_name ctx;
     fits 1024 (my_name ctx @ ''|'' @ my_type ctx @ ''|'' @ my_group ctx @ ''|'' @ node_ip @ ''|'' @ pod_ip
       @ ''|'' @ my_port ctx @ ''|'' @ node @ ''|'' @ pod)
   }"

text \<open>A socket that is not positive is not closed.\<close>

definition client_fin :: "int \<Rightarrow> io \<Rightarrow> io" where
  "client_fin fd w = (if fd > 0 then w else w\<lparr>open_fds := open_fds w @ [fd]\<rparr>)"

definition client_update :: "main_ctx \<Rightarrow> string \<Rightarrow> io \<Rightarrow> (main_ctx \<times> io) option" where
  "client_update ctx recv_msg w = do {
     ctx \<leftarrow> assoc_info_unset_chk_flag ctx;
     (update_count, ctx) \<leftarrow> client_lines ctx 0 (tokens newline recv_msg);
     (removed, ctx) \<leftarrow> assoc_info_remove_uncheck_node ctx;
     if update_count + removed > 0
     then do { (ctx, w) \<leftarrow> print_assoc ctx w; w \<leftarrow> notify ctx w; Some (ctx, w) }
     else Some (ctx, w)
   }"

definition udp_client_proc :: "client_net \<Rightarrow> main_ctx \<Rightarrow> io \<Rightarrow> (main_ctx \<times> io) option" where
  "udp_client_proc net ctx w =
     (case host_by_name net (omp_ip ctx) of
        None \<Rightarrow> Some (ctx, w)
      | Some h_addr \<Rightarrow>
          let sockfd = new_socket net in
          if sockfd = -1 then Some (ctx, w)
          else do {
            send_msg \<leftarrow> client_message ctx;
            let m = \<lparr>msg_data = send_msg, msg_to = Sin (word_of_int (base_port ctx)) h_addr, msg_src = None\<rparr>;
            if send_result net m < 0 then Some (ctx, client_fin sockfd w)
            else do {
              let w = w\<lparr>datagrams := datagrams w @ [m]\<rparr>;
              (case recv_result net of
                 Inl e \<Rightarrow> Some (ctx, client_fin sockfd w)
               | Inr reply \<Rightarrow> do {
                   recv_msg \<leftarrow> cstr_of_buf TOPO_MAX_BUFFER (take TOPO_MAX_BUFFER reply);
                   (ctx, w) \<leftarrow> client_update ctx recv_msg w;
                   Some (ctx, client_fin sockfd w)
                 })
            }
          })"

section \<open>The registration handler of the server\<close>

definition server_outputs :: "main_ctx \<Rightarrow> io \<Rightarrow> (main_ctx \<times> io) option" where
  "server_outputs ctx w = do {
     (ctx, w) \<leftarrow> print_assoc ctx w;
     out \<leftarrow> node_info_print ctx (sys w);
     w \<leftarrow> notify ctx (w\<lparr>sys := out\<rparr>);
     Some (ctx, w)
   }"

text \<open>The reply is sent from the address the registration was sent to; \<open>tm\<close> is the time.\<close>

definition udp_server_proc :: "udp_sock \<Rightarrow> int \<Rightarrow> main_ctx \<Rightarrow> io \<Rightarrow> (main_ctx \<times> io) option" where
  "udp_server_proc s tm ctx w = do {
     (recv_size, r) \<leftarrow> udp_recv_fromto s TOPO_MAX_BUFFER (Some SIN_LEN);
     (case r of
        None \<Rightarrow> Some (ctx, w)
      | Some r \<Rightarrow> do {
          recv_buff \<leftarrow> cstr_of_buf TOPO_MAX_BUFFER (rcv_data r);
          (res, ctx) \<leftarrow> node_proc_pod_send_info ctx recv_buff tm;
          (case res of
             Inl _ \<Rightarrow> Some (ctx, w)
           | Inr np \<Rightarrow> do {
               (ctx, w) \<leftarrow> (if np = NP_ADD \<or> np = NP_REP then server_outputs ctx w else Some (ctx, w));
               reply_msg \<leftarrow> assoc_info_reply_msg ctx [];
               let (send_size, m) = udp_send_fromto s reply_msg (map_option fst (rcv_to r)) (rcv_from_len r) (rcv_from r);
               Some (ctx, w\<lparr>datagrams := datagrams w @ (case m of None \<Rightarrow> [] | Some m \<Rightarrow> [m])\<rparr>)
             })
        })
   }"

end
