(* ===== verification/Udp_Spec.thy ===== *)
theory Udp_Spec
  imports Udp
begin

text \<open>
  The contract of the event handlers: what a round of the client makes of a reply, what the server
  makes of a registration, and that the two fit together.  An invariant of the node list, which says
  that every stored field fits its array, carries the handlers from event to event.
\<close>

section \<open>The invariant\<close>

definition node_fields :: "node_info \<Rightarrow> string list" where
  "node_fields n = assoc_values n @ [node_name n, pod_name n]"

definition topo_ok :: "main_ctx \<Rightarrow> node_info node list \<Rightarrow> bool" where
  "topo_ok ctx xs \<longleftrightarrow> topo_rep ctx xs \<and> (\<forall>n \<in> set (infos xs). short_fields (node_fields n))"

lemma short_fields_append [simp]:
  "short_fields (a @ b) \<longleftrightarrow> short_fields a \<and> short_fields b"
  "short_fields []"
  "short_fields (x # a) \<longleftrightarrow> length x \<le> 127 \<and> newline \<notin> set x \<and> short_fields a"
  by (auto simp: short_fields_def)

lemma short_values:
  assumes "short_fields (node_fields n)"
  shows "short_fields (assoc_values n)" "short_fields (node_values n)" "length (mgnt_port n) < 128"
  using assms
  by (auto simp: node_fields_def node_values_def or_na_def assoc_values_def newline_def)

text \<open>The values of the map are the nodes of the list.\<close>

lemma ran_contents: "distinct (map node_key xs) \<Longrightarrow> ran (contents xs) = set (infos xs)"
  by (force simp: ran_def contents_iff)

lemma topo_ok_contents:
  assumes "topo_rep ctx xs"
  shows "topo_ok ctx xs \<longleftrightarrow> (\<forall>n \<in> ran (contents xs). short_fields (node_fields n))"
  using assms ran_contents [OF topo_rep_distinct [OF assms]] by (simp add: topo_ok_def)

lemma card_contents:
  assumes "distinct (map node_key xs)"
  shows "card (dom (contents xs)) = length xs"
proof -
  have "dom (contents xs) = set (map node_key xs)" by (simp add: dom_map_of_conv_image_fst image_image)
  then show ?thesis using distinct_card [OF assms] by simp
qed

section \<open>Parsed fields\<close>

lemma set_takeWhile_take: "set (takeWhile P (take n s)) \<subseteq> set s"
  by (auto dest!: set_takeWhileD in_set_takeD)

text \<open>What is scanned consists of characters of the text.\<close>

lemma sscanf_chars:
  assumes "\<forall>w \<in> set acc. set w \<subseteq> A" and "set s \<subseteq> A"
  shows "\<forall>w \<in> set (snd (sscanf cs s acc)). set w \<subseteq> A"
  using assms
proof (induction cs s acc rule: sscanf.induct)
  case (2 c cs s acc)
  then show ?case by (cases s) auto
next
  case (3 n P cs s acc)
  let ?w = "takeWhile P (take n s)"
  have "set ?w \<subseteq> A" "set (drop (length ?w) s) \<subseteq> A"
    using set_takeWhile_take [of P n s] set_drop_subset [of "length ?w" s] "3.prems"(2) by blast+
  with 3 show ?case by (simp add: Let_def)
next
  case (4 n cs s acc)
  let ?r = "dropWhile isspace s"
  let ?w = "takeWhile (\<lambda>c. \<not> isspace c) (take n ?r)"
  have r: "set ?r \<subseteq> A" using "4.prems"(2) set_dropWhileD by fast
  have "set ?w \<subseteq> A" "set (drop (length ?w) ?r) \<subseteq> A"
    using set_takeWhile_take [of "\<lambda>c. \<not> isspace c" n ?r] set_drop_subset [of "length ?w" ?r] r by blast+
  with 4 show ?case by (simp add: Let_def)
qed auto

lemma scanned_short:
  assumes "sscanf cs s [] = (r, v)" and "\<forall>c \<in> set cs. conv_width c \<le> 127" and "newline \<notin> set s"
  shows "length (scanned v i) \<le> 127 \<and> newline \<notin> set (scanned v i)"
proof -
  have "\<forall>w \<in> set v. length w \<le> 127" using sscanf_bound [of "[]" 127 cs s] assms by simp
  moreover have "\<forall>w \<in> set v. set w \<subseteq> set s" using sscanf_chars [of "[]" "set s" s cs] assms(1) by simp
  ultimately show ?thesis using assms(3) by (auto simp: scanned_def dest: nth_mem)
qed

lemma omp_parse_short:
  assumes "assoc_info_get_from_omp msg = (r, p)" and "newline \<notin> set msg"
  shows "short_fields (node_fields p)"
proof -
  obtain sr v where v: "sscanf fmt_omp msg [] = (sr, v)" by fastforce
  note sc = scanned_short [OF v fmt_widths(2) assms(2)]
  have "p = snd (assoc_info_get_from_omp msg)" using assms(1) by simp
  then show ?thesis
    using sc v by (simp add: assoc_info_get_from_omp_def Let_def node_fields_def assoc_values_def zero_node_def)
qed

lemma pod_parse_short:
  assumes "assoc_info_get_from_pod msg = (r, p)" and "newline \<notin> set msg"
  shows "short_fields (node_fields p)"
proof -
  obtain sr v where v: "sscanf fmt_pod msg [] = (sr, v)" by fastforce
  note sc = scanned_short [OF v fmt_widths(1) assms(2)]
  have "p = snd (assoc_info_get_from_pod msg)" using assms(1) by simp
  then show ?thesis
    using sc v by (simp add: assoc_info_get_from_pod_def Let_def node_fields_def assoc_values_def zero_node_def newline_def)
qed

text \<open>The tokens of a text have no delimiter, and there are at most as many as characters.\<close>

lemma strtok_all_free: "d \<notin> set acc \<Longrightarrow> w \<in> set (strtok_all d acc s) \<Longrightarrow> d \<notin> set w"
  by (induction d acc s rule: strtok_all.induct) (auto split: if_splits)

lemma length_strtok_all: "length (strtok_all d acc s) \<le> length s + (if acc = [] then 0 else 1)"
  by (induction d acc s rule: strtok_all.induct) (auto split: if_splits)

lemma tokens_free: "w \<in> set (tokens d s) \<Longrightarrow> d \<notin> set w"
  using strtok_all_free [of d "[]" w s] by (simp add: tokens_def)

lemma length_tokens: "length (tokens d s) \<le> length s"
  using length_strtok_all [of d "[]" s] by (simp add: tokens_def)

section \<open>The lines of a reply\<close>

definition parse_omp :: "string \<Rightarrow> node_info option" where
  "parse_omp l = (if fst (assoc_info_get_from_omp l) < 0 then None else Some (snd (assoc_info_get_from_omp l)))"

definition parsed_lines :: "string list \<Rightarrow> node_info list" where
  "parsed_lines ls = List.map_filter parse_omp ls"

fun merge_count :: "node_info list \<Rightarrow> (string \<Rightarrow> node_info option) \<Rightarrow> nat" where
  "merge_count [] m = 0"
| "merge_count (p # ps) m = (if fst (merge_omp p m) \<in> {NP_ADD, NP_REP} then 1 else 0)
     + merge_count ps (snd (merge_omp p m))"

definition short_map :: "(string \<Rightarrow> node_info option) \<Rightarrow> bool" where
  "short_map m \<longleftrightarrow> (\<forall>n \<in> ran m. short_fields (node_fields n))"

lemma short_map_upd: "short_map m \<Longrightarrow> short_fields (node_fields n) \<Longrightarrow> short_map (m(k \<mapsto> n))"
  by (auto simp: short_map_def ran_def)

lemma short_map_value: "short_map m \<Longrightarrow> m k = Some n \<Longrightarrow> short_fields (node_fields n)"
  by (auto simp: short_map_def ran_def)

lemma topo_ok_map: "topo_ok ctx xs \<longleftrightarrow> topo_rep ctx xs \<and> short_map (contents xs)"
  using topo_ok_contents by (auto simp: short_map_def topo_ok_def)

lemma node_fields_update [simp]:
  "node_fields (n\<lparr>chk_exist_flag := c\<rparr>) = node_fields n"
  "node_fields (n\<lparr>heartbeat_tm := t\<rparr>) = node_fields n"
  by (simp_all add: node_fields_def assoc_values_def)

lemma merge_omp_short:
  assumes "short_map m" and "short_fields (node_fields p)"
  shows "short_map (snd (merge_omp p m))"
proof (cases "m (name p)")
  case None
  then show ?thesis using assms by (simp add: merge_omp_def short_map_upd)
next
  case (Some old)
  then show ?thesis using assms short_map_value [OF assms(1) Some] by (simp add: merge_omp_def short_map_upd Let_def)
qed

lemma omp_code: "fst (assoc_info_get_from_omp l) < 0 \<or> fst (assoc_info_get_from_omp l) = 0"
  by (simp add: assoc_info_get_from_omp_def Let_def split: prod.split)

lemma client_lines_rep:
  assumes "topo_ok ctx xs" and "\<forall>l \<in> set ls. newline \<notin> set l"
  shows "\<exists>h ys. client_lines ctx c ls = Some (c + int (merge_count (parsed_lines ls) (contents xs)), ctx\<lparr>mem := h\<rparr>)
     \<and> topo_ok (ctx\<lparr>mem := h\<rparr>) ys \<and> contents ys = merge_omps (parsed_lines ls) (contents xs)"
  using assms
proof (induction ls arbitrary: ctx xs c)
  case Nil
  have "ctx\<lparr>mem := mem ctx\<rparr> = ctx" by simp
  with Nil show ?case
    by (intro exI [of _ "mem ctx"] exI [of _ xs]) (simp add: parsed_lines_def map_filter_simps merge_omps_def)
next
  case (Cons l ls)
  obtain r p where rp: "assoc_info_get_from_omp l = (r, p)" by fastforce
  show ?case
  proof (cases "r < 0")
    case True
    then have "node_proc_omp_send_info ctx l = Some (NP_NONE, ctx)" using rp by (intro omp_send_info_bad) simp
    moreover have "parsed_lines (l # ls) = parsed_lines ls"
      using rp True by (simp add: parsed_lines_def parse_omp_def map_filter_simps)
    ultimately show ?thesis using Cons.IH [OF Cons.prems(1), of c] Cons.prems(2) by simp
  next
    case False
    then have rp0: "assoc_info_get_from_omp l = (0, p)" using rp omp_code [of l] by auto
    have ps: "parsed_lines (l # ls) = p # parsed_lines ls"
      using rp0 by (simp add: parsed_lines_def parse_omp_def map_filter_simps)
    have rep: "topo_rep ctx xs" "short_map (contents xs)" using Cons.prems(1) by (simp_all add: topo_ok_map)
    obtain h ys where st: "node_proc_omp_send_info ctx l = Some (fst (merge_omp p (contents xs)), ctx\<lparr>mem := h\<rparr>)"
        "topo_rep (ctx\<lparr>mem := h\<rparr>) ys" "contents ys = snd (merge_omp p (contents xs))"
      using omp_send_info_rep [OF rep(1) rp0] by blast
    have "short_fields (node_fields p)" using omp_parse_short [OF rp] Cons.prems(2) by simp
    then have ok: "topo_ok (ctx\<lparr>mem := h\<rparr>) ys"
      using st(2,3) merge_omp_short [OF rep(2)] by (simp add: topo_ok_map)
    let ?d = "if fst (merge_omp p (contents xs)) \<in> {NP_ADD, NP_REP} then 1 else 0"
    obtain h' zs where "client_lines (ctx\<lparr>mem := h\<rparr>) (c + ?d) ls =
          Some (c + ?d + int (merge_count (parsed_lines ls) (contents ys)), ctx\<lparr>mem := h'\<rparr>)"
        "topo_ok (ctx\<lparr>mem := h'\<rparr>) zs" "contents zs = merge_omps (parsed_lines ls) (contents ys)"
      using Cons.IH [OF ok, of "c + ?d"] Cons.prems(2) by auto
    then show ?thesis
      unfolding ps using st by (intro exI [of _ h'] exI [of _ zs]) (auto simp: merge_omps_def)
  qed
qed

section \<open>The update of a client\<close>

text \<open>How many entries a round changes: added, replaced or removed.\<close>

definition round_changes :: "node_info list \<Rightarrow> (string \<Rightarrow> node_info option) \<Rightarrow> nat" where
  "round_changes ps m = (let u = map_option (\<lambda>n. n\<lparr>chk_exist_flag := 0\<rparr>) \<circ> m in
     merge_count ps u + card (dom m - name ` set ps))"

lemma dom_merge_omps: "dom (merge_omps ps m) = dom m \<union> name ` set ps"
proof (induction ps arbitrary: m)
  case (Cons p ps)
  have "dom (snd (merge_omp p m)) = insert (name p) (dom m)"
    by (auto simp: merge_omp_def Let_def split: option.splits)
  then show ?case using Cons [of "snd (merge_omp p m)"] by (simp add: merge_omps_def)
qed (simp add: merge_omps_def)

lemma short_map_filter:
  assumes "short_map m" and "\<And>k n. m' k = Some n \<Longrightarrow> m k = Some n"
  shows "short_map m'"
  using assms by (auto simp: short_map_def ran_def)

lemma short_map_unset: "short_map m \<Longrightarrow> short_map (map_option (\<lambda>n. n\<lparr>chk_exist_flag := 0\<rparr>) \<circ> m)"
  by (fastforce simp: short_map_def ran_def)

text \<open>The number of nodes the sweep removes.\<close>

lemma count_unmarked:
  assumes "distinct (map node_key xs)"
  shows "length (filter (\<lambda>(a, k, n). chk_exist_flag n = 0) xs) = card {k. k \<in> dom (contents xs) \<and> \<not> marked (contents xs) k}"
proof -
  let ?ys = "filter (\<lambda>(a, k, n). chk_exist_flag n = 0) xs"
  have d: "distinct (map node_key ?ys)" using assms by (simp add: distinct_map_filter)
  have "contents ?ys = (\<lambda>k. case contents xs k of None \<Rightarrow> None | Some n \<Rightarrow> if chk_exist_flag n = 0 then Some n else None)"
    by (rule contents_filter [OF assms])
  then have "dom (contents ?ys) = {k. k \<in> dom (contents xs) \<and> \<not> marked (contents xs) k}"
    by (auto simp: marked_def dom_def split: option.splits if_splits)
  then show ?thesis using card_contents [OF d] by simp
qed

lemma topo_ok_distinct: "topo_ok ctx xs \<Longrightarrow> distinct (map node_key xs)"
  using topo_rep_distinct unfolding topo_ok_def by blast

lemma sweep_count:
  assumes "distinct (map node_key zs)" and "contents zs = merge_omps ps (map_option (\<lambda>n. n\<lparr>chk_exist_flag := 0\<rparr>) \<circ> m)"
  shows "length (filter (\<lambda>(a, k, n). chk_exist_flag n = 0) zs) = card (dom m - name ` set ps)"
proof -
  have "dom (map_option (\<lambda>n. n\<lparr>chk_exist_flag := 0\<rparr>) \<circ> m) = dom m" by (auto simp: dom_def)
  then have "{k. k \<in> dom (contents zs) \<and> \<not> marked (contents zs) k} = dom m - name ` set ps"
    unfolding assms(2) dom_merge_omps marked_merge_omps using marked_unset by auto
  then show ?thesis using count_unmarked [OF assms(1)] by simp
qed

lemma length_parsed_lines: "length (parsed_lines ls) \<le> length ls"
  by (induction ls) (simp_all add: parsed_lines_def map_filter_simps split: option.split)

lemma synced_length:
  assumes "distinct (map node_key ys)" and "contents ys = sync_map (parsed_lines (tokens d msg)) m"
  shows "length ys \<le> length msg"
proof -
  let ?ps = "parsed_lines (tokens d msg)"
  have "length ys = card (name ` set ?ps)" using card_contents [OF assms(1)] by (simp add: assms(2) dom_sync_map)
  also have "\<dots> \<le> length ?ps" by (metis card_length image_set length_map)
  also have "\<dots> \<le> length msg" using length_parsed_lines length_tokens order_trans by blast
  finally show ?thesis .
qed

text \<open>Everything a round does to the list, before any output.\<close>

lemma client_merge:
  assumes "topo_ok ctx xs"
  shows "\<exists>h1 h2 h3 n ys. assoc_info_unset_chk_flag ctx = Some (ctx\<lparr>mem := h1\<rparr>)
     \<and> client_lines (ctx\<lparr>mem := h1\<rparr>) 0 (tokens newline msg) = Some (fst n, ctx\<lparr>mem := h2\<rparr>)
     \<and> assoc_info_remove_uncheck_node (ctx\<lparr>mem := h2\<rparr>) = Some (snd n, ctx\<lparr>mem := h3\<rparr>)
     \<and> fst n + snd n = int (round_changes (parsed_lines (tokens newline msg)) (contents xs))
     \<and> topo_ok (ctx\<lparr>mem := h3\<rparr>) ys \<and> contents ys = sync_map (parsed_lines (tokens newline msg)) (contents xs)"
proof -
  let ?ps = "parsed_lines (tokens newline msg)" and ?u = "\<lambda>n. n\<lparr>chk_exist_flag := 0\<rparr>"
  have rep: "topo_rep ctx xs" "short_map (contents xs)" using assms by (simp_all add: topo_ok_map)
  let ?us = "map (\<lambda>(a, k, n). (a, k, ?u n)) xs"
  obtain h1 where h1: "assoc_info_unset_chk_flag ctx = Some (ctx\<lparr>mem := h1\<rparr>)" "topo_rep (ctx\<lparr>mem := h1\<rparr>) ?us"
    using unset_rep [OF rep(1)] by blast
  have us: "contents ?us = map_option ?u \<circ> contents xs" by (rule contents_map)
  have ok1: "topo_ok (ctx\<lparr>mem := h1\<rparr>) ?us"
    using h1(2) short_map_unset [OF rep(2)] unfolding topo_ok_map us by blast
  obtain h2 zs where h2: "client_lines (ctx\<lparr>mem := h1\<rparr>) 0 (tokens newline msg) =
        Some (int (merge_count ?ps (contents ?us)), ctx\<lparr>mem := h2\<rparr>)"
      "topo_ok (ctx\<lparr>mem := h2\<rparr>) zs" "contents zs = merge_omps ?ps (contents ?us)"
    using client_lines_rep [OF ok1, of "tokens newline msg" 0] tokens_free by auto
  let ?ys = "filter (\<lambda>(a, k, n). chk_exist_flag n \<noteq> 0) zs"
  have rep2: "topo_rep (ctx\<lparr>mem := h2\<rparr>) zs" "short_map (contents zs)" using h2(2) by (simp_all add: topo_ok_map)
  obtain h3 where h3: "assoc_info_remove_uncheck_node (ctx\<lparr>mem := h2\<rparr>) =
        Some (int (length (filter (\<lambda>(a, k, n). chk_exist_flag n = 0) zs)), ctx\<lparr>mem := h3\<rparr>)"
      "topo_rep (ctx\<lparr>mem := h3\<rparr>) ?ys"
    using sweep_rep [OF rep2(1)] by auto
  have ys: "contents ?ys = (\<lambda>k. case contents zs k of None \<Rightarrow> None | Some n \<Rightarrow> if chk_exist_flag n \<noteq> 0 then Some n else None)"
    by (rule contents_filter [OF topo_rep_distinct [OF rep2(1)]])
  then have sync: "contents ?ys = sync_map ?ps (contents xs)" unfolding h2(3) us by (simp add: sync_map_def)
  have "short_map (contents ?ys)"
    by (rule short_map_filter [OF rep2(2)]) (auto simp: ys split: option.splits if_splits)
  then have ok3: "topo_ok (ctx\<lparr>mem := h3\<rparr>) ?ys" using h3(2) by (simp add: topo_ok_map)
  have "length (filter (\<lambda>(a, k, n). chk_exist_flag n = 0) zs) = card (dom (contents xs) - name ` set ?ps)"
    by (rule sweep_count [OF topo_rep_distinct [OF rep2(1)]]) (simp only: h2(3) us)
  then have "int (merge_count ?ps (contents ?us)) + int (length (filter (\<lambda>(a, k, n). chk_exist_flag n = 0) zs)) =
      int (round_changes ?ps (contents xs))"
    unfolding us by (simp add: round_changes_def Let_def)
  with h1(1) h2(1) h3(1) ok3 sync show ?thesis by fastforce
qed

lemma notify_mem [simp]: "notify_to_ixpc (ctx\<lparr>mem := h\<rparr>) = notify_to_ixpc ctx"
  by (simp add: notify_to_ixpc_def)

definition assoc_written :: "string \<Rightarrow> node_info list \<Rightarrow> io \<Rightarrow> io" where
  "assoc_written path ns w = w\<lparr>sys := print_stderr (fopen_cmd (sys w) path ''[ASSOCIATE_SYSTEMS]'' (assoc_table ns)) (assoc_table ns)\<rparr>"

lemma print_assoc_rep:
  assumes "topo_ok ctx xs" and "length xs \<le> 10240" and "data_path (sys w) ''/data/associate_config'' = Some path"
  shows "\<exists>h. print_assoc ctx w = Some (ctx\<lparr>mem := h\<rparr>, assoc_written path (infos xs) w) \<and> topo_ok (ctx\<lparr>mem := h\<rparr>) xs"
proof -
  have "\<forall>n \<in> set (infos xs). short_fields (assoc_values n)" using assms(1) short_values(1) by (simp add: topo_ok_def)
  from assoc_print_rep [OF _ this assms(2,3)] obtain h where
      "assoc_info_print ctx (sys w) = Some (ctx\<lparr>mem := h\<rparr>, sys (assoc_written path (infos xs) w))"
      "topo_rep (ctx\<lparr>mem := h\<rparr>) xs"
    using assms(1) by (auto simp: topo_ok_def assoc_written_def)
  then show ?thesis
    using assms(1) by (auto simp: print_assoc_def topo_ok_def assoc_written_def)
qed

lemma client_update_rep:
  assumes "topo_ok ctx xs" and "length msg \<le> 10240" and "data_path (sys w) ''/data/associate_config'' = Some path"
    and "notify_to_ixpc ctx = Some ntc"
  shows "\<exists>h ys. client_update ctx msg w = Some (ctx\<lparr>mem := h\<rparr>,
       if round_changes (parsed_lines (tokens newline msg)) (contents xs) = 0 then w
       else (assoc_written path (infos ys) w)\<lparr>msgq := msgq w @ [ntc]\<rparr>)
     \<and> topo_ok (ctx\<lparr>mem := h\<rparr>) ys \<and> contents ys = sync_map (parsed_lines (tokens newline msg)) (contents xs)"
proof -
  let ?ps = "parsed_lines (tokens newline msg)"
  obtain h1 h2 h3 n ys where st: "assoc_info_unset_chk_flag ctx = Some (ctx\<lparr>mem := h1\<rparr>)"
      "client_lines (ctx\<lparr>mem := h1\<rparr>) 0 (tokens newline msg) = Some (fst n, ctx\<lparr>mem := h2\<rparr>)"
      "assoc_info_remove_uncheck_node (ctx\<lparr>mem := h2\<rparr>) = Some (snd n, ctx\<lparr>mem := h3\<rparr>)"
      "fst n + snd n = int (round_changes ?ps (contents xs))"
      "topo_ok (ctx\<lparr>mem := h3\<rparr>) ys" "contents ys = sync_map ?ps (contents xs)"
    using client_merge [OF assms(1), of msg] by blast
  show ?thesis
  proof (cases "round_changes ?ps (contents xs) = 0")
    case True
    with st show ?thesis
      by (intro exI [of _ h3] exI [of _ ys]) (simp add: client_update_def del: bind_Some_iff)
  next
    case False
    have "length ys \<le> 10240" using synced_length [OF topo_ok_distinct [OF st(5)] st(6)] assms(2) by simp
    then obtain h where "print_assoc (ctx\<lparr>mem := h3\<rparr>) w = Some (ctx\<lparr>mem := h\<rparr>, assoc_written path (infos ys) w)"
        "topo_ok (ctx\<lparr>mem := h\<rparr>) ys"
      using print_assoc_rep [OF st(5) _ assms(3)] by auto
    with False st assms(4) show ?thesis
      by (intro exI [of _ h] exI [of _ ys])
        (simp add: client_update_def notify_def assoc_written_def del: bind_Some_iff)
  qed
qed

section \<open>A round of the client\<close>

text \<open>The environment of a round in which the server answers.\<close>

definition answered :: "client_net \<Rightarrow> main_ctx \<Rightarrow> out_msg \<Rightarrow> string \<Rightarrow> bool" where
  "answered net ctx m reply \<longleftrightarrow> new_socket net > 0 \<and> client_message ctx = Some (msg_data m)
     \<and> (\<exists>a. host_by_name net (omp_ip ctx) = Some a \<and> msg_to m = Sin (word_of_int (base_port ctx)) a)
     \<and> msg_src m = None \<and> send_result net m \<ge> 0 \<and> recv_result net = Inr reply"

lemma client_round:
  assumes "answered net ctx m reply"
  shows "udp_client_proc net ctx w = do {
     recv_msg \<leftarrow> cstr_of_buf TOPO_MAX_BUFFER (take TOPO_MAX_BUFFER reply);
     client_update ctx recv_msg (w\<lparr>datagrams := datagrams w @ [m]\<rparr>) }"
proof -
  obtain a where a: "host_by_name net (omp_ip ctx) = Some a"
      "m = \<lparr>msg_data = msg_data m, msg_to = Sin (word_of_int (base_port ctx)) a, msg_src = None\<rparr>"
    using assms by (cases m) (auto simp: answered_def)
  have fin: "client_fin (new_socket net) v = v" for v
    using assms by (simp add: answered_def client_fin_def)
  have same: "Option.bind x (\<lambda>(c, v). Some (c, v)) = x" for x :: "(main_ctx \<times> io) option"
    by (cases x) auto
  show ?thesis
    using assms a(1) unfolding udp_client_proc_def answered_def
    by (simp add: fin same a(2) [symmetric] Let_def del: bind_Some_iff)
qed

text \<open>A reply that fills the buffer without a terminator.\<close>

lemma cstr_of_buf_reply:
  "cstr_of_buf TOPO_MAX_BUFFER (take TOPO_MAX_BUFFER reply) = None \<longleftrightarrow>
     TOPO_MAX_BUFFER \<le> length reply \<and> nul \<notin> set (take TOPO_MAX_BUFFER reply)"
  by (auto simp: cstr_of_buf_def)

lemma cstr_of_buf_bound: "cstr_of_buf n (take n s) = Some t \<Longrightarrow> length t \<le> n"
  using cstr_le [of "take n s"] by (auto simp: cstr_of_buf_def split: if_splits)

section \<open>A registration at the server\<close>

lemma merge_pod_short:
  assumes "short_map m" and "short_fields (node_fields p)"
  shows "short_map (snd (merge_pod tm p m))"
proof -
  have pin: "short_fields (node_fields n) \<Longrightarrow> short_fields (node_fields (pod_info_name n))" for n
    by (auto simp: pod_info_name_def node_fields_def assoc_values_def)
  show ?thesis
  proof (cases "m (name p)")
    case None
    then show ?thesis using assms pin by (simp add: merge_pod_def short_map_upd Let_def)
  next
    case (Some old)
    note o = short_map_value [OF assms(1) Some]
    have "short_fields (node_fields (p\<lparr>heartbeat_tm := tm, mgnt_port := mgnt_port old\<rparr>))"
      using assms(2) o by (simp add: node_fields_def assoc_values_def)
    then show ?thesis using assms Some o pin by (simp add: merge_pod_def short_map_upd Let_def)
  qed
qed

lemma registration_rep:
  assumes "topo_ok ctx xs" and "assoc_info_get_from_pod msg = (0, p)" and "newline \<notin> set msg"
  shows "\<exists>h ys. node_proc_pod_send_info ctx msg tm = Some (Inr (fst (merge_pod tm p (contents xs))), ctx\<lparr>mem := h\<rparr>)
     \<and> topo_ok (ctx\<lparr>mem := h\<rparr>) ys \<and> contents ys = snd (merge_pod tm p (contents xs))"
proof -
  have rep: "topo_rep ctx xs" "short_map (contents xs)" using assms(1) by (simp_all add: topo_ok_map)
  have ports: "length (mgnt_port n) < 128" if "contents xs k = Some n" for k n
    using short_values(3) [OF short_map_value [OF rep(2) that]] .
  show ?thesis
    using pod_send_info_rep [OF rep(1) ports assms(2), where tm = tm]
      merge_pod_short [OF rep(2) pod_parse_short [OF assms(2,3)], where tm = tm]
    by (fastforce simp: topo_ok_map)
qed

text \<open>The outputs of the server after a change.\<close>

definition node_written :: "string \<Rightarrow> node_info list \<Rightarrow> io \<Rightarrow> io" where
  "node_written path ns w = w\<lparr>sys := (let s = node_table (qsort assoc_info_compare (take 127 ns))
     in print_stderr (fopen_cmd (sys w) path ''[NODE_INFO]'' s) s)\<rparr>"

lemma written_fields [simp]:
  "data_path (sys (assoc_written path ns w)) f = data_path (sys w) f"
  "datagrams (assoc_written path ns w) = datagrams w" "datagrams (node_written path ns w) = datagrams w"
  "msgq (assoc_written path ns w) = msgq w" "msgq (node_written path ns w) = msgq w"
  "env (fopen_cmd v path b s) = env v" "env (print_stderr v s) = env v"
  by (simp_all add: data_path_def getenv_def assoc_written_def node_written_def print_stderr_def fopen_cmd_def)

lemma node_print_ok:
  assumes "topo_ok ctx xs" and "data_path (sys w) ''/data/node_info'' = Some path"
  shows "node_info_print ctx (sys w) = Some (sys (node_written path (infos xs) w))"
proof -
  have "\<forall>n \<in> set (infos xs). short_fields (node_values n)" using assms(1) short_values(2) by (simp add: topo_ok_def)
  from node_print_rep [OF _ this assms(2)] assms(1) show ?thesis by (simp add: node_written_def topo_ok_def)
qed

lemma server_outputs_rep:
  assumes "topo_ok ctx xs" and "length xs \<le> 10240" and "notify_to_ixpc ctx = Some ntc"
    and "data_path (sys w) ''/data/associate_config'' = Some path" and "data_path (sys w) ''/data/node_info'' = Some path'"
  shows "\<exists>h. server_outputs ctx w = Some (ctx\<lparr>mem := h\<rparr>,
       (node_written path' (infos xs) (assoc_written path (infos xs) w))\<lparr>msgq := msgq w @ [ntc]\<rparr>)
     \<and> topo_ok (ctx\<lparr>mem := h\<rparr>) xs"
proof -
  obtain h where h: "print_assoc ctx w = Some (ctx\<lparr>mem := h\<rparr>, assoc_written path (infos xs) w)"
      "topo_ok (ctx\<lparr>mem := h\<rparr>) xs"
    using print_assoc_rep [OF assms(1,2,4)] by blast
  have "node_info_print (ctx\<lparr>mem := h\<rparr>) (sys (assoc_written path (infos xs) w)) =
      Some (sys (node_written path' (infos xs) (assoc_written path (infos xs) w)))"
    using assms(5) by (intro node_print_ok [OF h(2)]) simp
  with h assms(3) show ?thesis
    by (intro exI [of _ h]) (simp add: server_outputs_def notify_def node_written_def del: bind_Some_iff)
qed

text \<open>Where a datagram came from and went to, on an IPv4 socket.\<close>

definition delivered :: "udp_sock \<Rightarrow> string \<Rightarrow> sockaddr \<Rightarrow> 32 word \<Rightarrow> bool" where
  "delivered s bytes from dst \<longleftrightarrow> (\<exists>p a cs. sock_name s = Some (Sin p a) \<and> arriving s = Inr (bytes, from, cs)
     \<and> scan_cmsgs cs (Sin p a) SIN_LEN = Some (Sin p dst, SIN_LEN)) \<and> (\<exists>fp fa. from = Sin fp fa)"

lemma delivered_recv:
  assumes "delivered s bytes from dst"
  shows "\<exists>p. udp_recv_fromto s len (Some SIN_LEN) = Some (int (length (take len bytes)),
    Some \<lparr>rcv_data = take len bytes, rcv_from = from, rcv_from_len = SIN_LEN, rcv_to = Some (Sin p dst, SIN_LEN)\<rparr>)"
  using assms by (auto simp: delivered_def udp_recv_fromto_def addr_len_of_def)

definition answer :: "string \<Rightarrow> sockaddr \<Rightarrow> 32 word \<Rightarrow> out_msg" where
  "answer reply from dst = \<lparr>msg_data = reply, msg_to = from, msg_src = Some (Spec4 dst)\<rparr>"

lemma answer_send:
  "udp_send_fromto s reply (Some (Sin p dst)) SIN_LEN from =
    (send_res s (answer reply from dst), if send_res s (answer reply from dst) < 0 then None else Some (answer reply from dst))"
  by (simp add: udp_send_fromto_def sent_from_def answer_def SIN_LEN_def)

lemma reply_ok:
  assumes "topo_ok ctx xs"
  shows "assoc_info_reply_msg ctx [] = (if xs = [] \<or> length (reply_text (infos xs)) < TOPO_MAX_BUFFER
      then Some (reply_text (infos xs)) else None)"
  using assms short_values(3) by (intro reply_rep) (simp_all add: topo_ok_def)

text \<open>What the server does with a registration that parses.\<close>

definition registered :: "string \<Rightarrow> string \<Rightarrow> int \<times> string \<Rightarrow> node_proc_res \<Rightarrow> node_info list \<Rightarrow> io \<Rightarrow> io" where
  "registered path path' ntc np ns w =
     (if np = NP_ADD \<or> np = NP_REP then (node_written path' ns (assoc_written path ns w))\<lparr>msgq := msgq w @ [ntc]\<rparr> else w)"

lemma merge_pod_length:
  assumes "topo_ok ctx xs" and "topo_ok ctx' ys" and "contents ys = snd (merge_pod tm p (contents xs))"
  shows "length ys \<le> length xs + 1"
proof -
  have "dom (contents ys) \<subseteq> insert (name p) (dom (contents xs))"
    unfolding assms(3) by (auto simp: merge_pod_def Let_def split: option.splits if_splits)
  then have "card (dom (contents ys)) \<le> card (insert (name p) (dom (contents xs)))"
    by (intro card_mono) (simp_all add: finite_dom_map_of)
  also have "\<dots> \<le> Suc (card (dom (contents xs)))" by (rule card_insert_le_m1) simp_all
  finally show ?thesis
    using card_contents [OF topo_ok_distinct [OF assms(1)]] card_contents [OF topo_ok_distinct [OF assms(2)]] by simp
qed

lemma server_round:
  assumes ok: "topo_ok ctx xs" and len: "length xs < 10240" and d: "delivered s bytes from dst"
    and msgs: "cstr_of_buf TOPO_MAX_BUFFER (take TOPO_MAX_BUFFER bytes) = Some msg" "newline \<notin> set msg"
    and p: "assoc_info_get_from_pod msg = (0, p)" and ntf: "notify_to_ixpc ctx = Some ntc"
    and paths: "data_path (sys w) ''/data/associate_config'' = Some path" "data_path (sys w) ''/data/node_info'' = Some path'"
  shows "\<exists>h ys. topo_ok (ctx\<lparr>mem := h\<rparr>) ys \<and> contents ys = snd (merge_pod tm p (contents xs))
     \<and> udp_server_proc s tm ctx w =
        (if length (reply_text (infos ys)) < TOPO_MAX_BUFFER
         then Some (ctx\<lparr>mem := h\<rparr>, let w' = registered path path' ntc (fst (merge_pod tm p (contents xs))) (infos ys) w;
            m = answer (reply_text (infos ys)) from dst
            in w'\<lparr>datagrams := datagrams w @ (if send_res s m < 0 then [] else [m])\<rparr>)
         else None)"
proof -
  let ?m = "merge_pod tm p (contents xs)"
  obtain h ys where st: "node_proc_pod_send_info ctx msg tm = Some (Inr (fst ?m), ctx\<lparr>mem := h\<rparr>)"
      "topo_ok (ctx\<lparr>mem := h\<rparr>) ys" "contents ys = snd ?m"
    using registration_rep [OF ok p msgs(2)] by blast
  have ne: "ys \<noteq> []"
  proof -
    have "name p \<in> dom (contents ys)"
      unfolding st(3) by (auto simp: merge_pod_def Let_def split: option.splits)
    then show ?thesis by auto
  qed
  have ylen: "length ys \<le> 10240" using merge_pod_length [OF ok st(2,3)] len by simp
  obtain pt where recv: "udp_recv_fromto s TOPO_MAX_BUFFER (Some SIN_LEN) = Some (int (length (take TOPO_MAX_BUFFER bytes)),
      Some \<lparr>rcv_data = take TOPO_MAX_BUFFER bytes, rcv_from = from, rcv_from_len = SIN_LEN, rcv_to = Some (Sin pt dst, SIN_LEN)\<rparr>)"
    using delivered_recv [OF d] by blast
  have "\<exists>h'. (if fst ?m = NP_ADD \<or> fst ?m = NP_REP then server_outputs (ctx\<lparr>mem := h\<rparr>) w else Some (ctx\<lparr>mem := h\<rparr>, w))
        = Some (ctx\<lparr>mem := h'\<rparr>, registered path path' ntc (fst ?m) (infos ys) w) \<and> topo_ok (ctx\<lparr>mem := h'\<rparr>) ys"
  proof (cases "fst ?m = NP_ADD \<or> fst ?m = NP_REP")
    case True
    then show ?thesis using server_outputs_rep [OF st(2) ylen _ paths, of ntc] ntf unfolding registered_def by simp
  next
    case False
    then show ?thesis using st(2) by (intro exI [of _ h]) (simp add: registered_def)
  qed
  then obtain h' where h': "(if fst ?m = NP_ADD \<or> fst ?m = NP_REP then server_outputs (ctx\<lparr>mem := h\<rparr>) w
        else Some (ctx\<lparr>mem := h\<rparr>, w)) = Some (ctx\<lparr>mem := h'\<rparr>, registered path path' ntc (fst ?m) (infos ys) w)"
      "topo_ok (ctx\<lparr>mem := h'\<rparr>) ys" by blast
  have same: "datagrams (registered path path' ntc np ns w) = datagrams w" for np ns
    by (simp add: registered_def)
  show ?thesis
    using recv msgs(1) st h' ne reply_ok [OF h'(2)]
    by (intro exI [of _ h'] exI [of _ ys])
      (simp add: udp_server_proc_def answer_send same Let_def del: bind_Some_iff)
qed

end
