(* ===== verification/Topo_Init.thy ===== *)
theory Topo_Init
  imports Udp_Spec
begin

text \<open>
  The start of the topology manager and its event loop, \<open>src/src/topo/init.c\<close> and
  \<open>src/src/topo/main.c\<close>: reading the environment, the decision between server and client,
  the first node of the server, the names a client derives from its pod, the one-second tick, and
  the handlers that are registered.

  \<open>keepalivelib_init\<close> and \<open>commlib_crteMsgQ\<close> belong to a binary library; their results are
  parameters, like those of the socket calls and of \<open>event_add\<close>.  Printing a NULL string is a
  fault.
\<close>

section \<open>The environment of a start\<close>

datatype topo_event = Ev_tick | Ev_udp_snd_rcv | Ev_udp_rcv_snd

record topo_env =
  keepalivelib_init :: int
  commlib_crteMsgQ :: "string \<Rightarrow> string \<Rightarrow> int"
  omp_socket :: int
  reuse_result :: int
  omp_sock :: udp_sock
  bind_result :: int
  event_add :: "topo_event \<Rightarrow> int"

definition zero_ctx :: main_ctx where
  "zero_ctx = \<lparr>ems_topo_addr = None, my_sys_name = None, role = CR_CLIENT, mp_label = [],
     my_node_name = None, my_pod_name = None, my_node_ip = None, my_pod_ip = None, my_mp_index = 0,
     my_name = [], my_type = [], my_group = [], my_port = [], ixpcQid = 0, omp_ip = [], base_port = 0,
     omp_sockfd = 0, node_list = 0, mem = empty_heap\<rparr>"

text \<open>The path of the system configuration; without \<open>IV_HOME\<close> a NULL string would be printed.\<close>

definition sysconf_file :: "os \<Rightarrow> string option" where
  "sysconf_file w = do { home \<leftarrow> getenv w ''IV_HOME''; fits 128 (home @ ''/data/sysconfig'') }"

section \<open>The server\<close>

definition new_list :: "main_ctx \<Rightarrow> main_ctx option" where
  "new_list ctx = do {
     let (root, h) = new_element (mem ctx) None None;
     a \<leftarrow> root;
     Some (ctx\<lparr>node_list := a, mem := h\<rparr>)
   }"

definition omp_node :: "main_ctx \<Rightarrow> node_info option" where
  "omp_node ctx = do {
     grp \<leftarrow> fits 128 (mp_label ctx);
     ip \<leftarrow> fits 128 (omp_ip ctx);
     Some (zero_node\<lparr>name := ''OMP'', ntype := ''OMP'', group := grp, mgnt_pri_ip := ip,
       mgnt_sec_ip := ''NULL'', mgnt_port := ''0x'' @ sprintf_X (base_port ctx + 1),
       serv_pri_ip := ''NULL'', serv_sec_ip := ''NULL'', info_name := ''OMP_SYSTEM'',
       vnfc_id := ''vnfc-not-assigned''\<rparr>)
   }"

definition init_omp_server :: "topo_env \<Rightarrow> main_ctx \<Rightarrow> os \<Rightarrow> (int \<times> main_ctx \<times> os) option" where
  "init_omp_server se ctx w = do {
     conf \<leftarrow> sysconf_file w;
     cmd \<leftarrow> fits 512 (''cat '' @ conf @ '' | grep MP_LABEL | awk '' @ [CHR 0x27] @ ''{print $3}'' @ [CHR 0x27]);
     let (r, label) = popen_cmd w cmd (mp_label ctx) 127;
     let ctx = ctx\<lparr>mp_label := label\<rparr>;
     if r < 0 then Some (-1, ctx, w)
     else do {
       sysname \<leftarrow> my_sys_name ctx;
       nm \<leftarrow> fits 128 sysname;
       let ctx = ctx\<lparr>my_name := nm\<rparr>;
       n \<leftarrow> omp_node ctx;
       ctx \<leftarrow> new_list ctx;
       ctx \<leftarrow> add_new_node ctx (mem ctx) n;
       (ctx, w) \<leftarrow> assoc_info_print ctx w;
       let ctx = ctx\<lparr>omp_sockfd := omp_socket se\<rparr>;
       if omp_sockfd ctx = -1 then Some (-1, ctx, w)
       else if reuse_result se < 0 then Some (-1, ctx, w)
       else if udp_fromto_init (omp_sock se) < 0 then Some (-1, ctx, w)
       else if bind_result se < 0 then Some (-1, ctx, w)
       else Some (0, ctx, w)
     }
   }"

section \<open>The client\<close>

definition init_omp_client :: "main_ctx \<Rightarrow> os \<Rightarrow> (int \<times> main_ctx) option" where
  "init_omp_client ctx w =
     (let ctx = ctx\<lparr>my_node_name := getenv w ''MY_NODE_NAME'', my_pod_name := getenv w ''MY_POD_NAME'',
                my_node_ip := getenv w ''MY_NODE_IP'', my_pod_ip := getenv w ''MY_POD_IP''\<rparr>
      in case (my_node_name ctx, my_pod_name ctx, my_node_ip ctx, my_pod_ip ctx) of
        (Some node, Some pod, Some nip, Some pip) \<Rightarrow>
          (case strrchr pod (CHR ''-'') of
             None \<Rightarrow> Some (-1, ctx)
           | Some index_str \<Rightarrow>
               let ctx = ctx\<lparr>my_mp_index := atoi (tl index_str)\<rparr>;
                   (ok, nm) = fopen_read w ''/label_conf/name'' (my_name ctx) 127;
                   ctx = ctx\<lparr>my_name := nm\<rparr>
               in if \<not> ok then Some (-1, ctx)
               else do {
                 nm \<leftarrow> fits 128 (my_name ctx @ ''_'' @ sprintf_d (to_int32 (my_mp_index ctx + 1)));
                 let ctx = ctx\<lparr>my_name := nm\<rparr>;
                 let (ok, ty) = fopen_read w ''/label_conf/type'' (my_type ctx) 127;
                 let ctx = ctx\<lparr>my_type := ty\<rparr>;
                 if \<not> ok then Some (-1, ctx)
                 else do {
                   let (ok, gr) = fopen_read w ''/label_conf/group'' (my_group ctx) 127;
                   let ctx = ctx\<lparr>my_group := gr\<rparr>;
                   if \<not> ok then Some (-1, ctx)
                   else do {
                     let (ok, port) = fopen_read w ''/label_conf/ixpc_base_port'' [] 127;
                     if \<not> ok then Some (-1, ctx)
                     else do {
                       let my_mgnt_port = to_int32 (strtol16 (drop 2 port) + my_mp_index ctx + 1);
                       let ctx = ctx\<lparr>my_port := ''0x'' @ sprintf_X my_mgnt_port\<rparr>;
                       ctx \<leftarrow> new_list ctx;
                       Some (0, ctx)
                     }
                   }
                 }
               })
      | _ \<Rightarrow> Some (-1, ctx))"

section \<open>The decision\<close>

definition fmt_addr :: "conv list" where
  "fmt_addr = [Scan_set 127 (\<lambda>c. c \<noteq> CHR '':''), Lit (CHR '':''), Scan_str 127]"

definition role_of :: "string option \<Rightarrow> cluster_role" where
  "role_of sysname = (case sysname of
     Some s \<Rightarrow> if strcaseeq s ''omp'' then CR_SERVER else CR_CLIENT | None \<Rightarrow> CR_CLIENT)"

definition initialize :: "topo_env \<Rightarrow> main_ctx \<Rightarrow> os \<Rightarrow> (int \<times> main_ctx \<times> os) option" where
  "initialize se ctx w =
     (if keepalivelib_init se < 0 then Some (-1, ctx, w)
      else
        let ctx = ctx\<lparr>ems_topo_addr := getenv w ''EMS_TOPO_ADDR''\<rparr>
        in case ems_topo_addr ctx of
          None \<Rightarrow> Some (-1, ctx, w)
        | Some addr \<Rightarrow> do {
            let ctx = ctx\<lparr>my_sys_name := getenv w ''MY_SYS_NAME''\<rparr>;
            let (r, v) = sscanf fmt_addr addr [];
            let ctx = ctx\<lparr>omp_ip := scanned v 0, base_port := atoi (scanned v 1)\<rparr>;
            conf \<leftarrow> sysconf_file w;
            let ctx = ctx\<lparr>ixpcQid := commlib_crteMsgQ se conf ''IXPC''\<rparr>;
            if ixpcQid ctx < 0 then Some (-1, ctx, w)
            else do {
              let ctx = ctx\<lparr>role := role_of (my_sys_name ctx)\<rparr>;
              if role ctx = CR_SERVER then init_omp_server se ctx w
              else do { (r, ctx) \<leftarrow> init_omp_client ctx w; Some (r, ctx, w) }
            }
          })"

section \<open>The event loop\<close>

definition main_tick :: "int \<Rightarrow> main_ctx \<Rightarrow> io \<Rightarrow> (main_ctx \<times> io) option" where
  "main_tick tm ctx w =
     (let w = w\<lparr>beats := beats w + 1\<rparr> in
      if role ctx = CR_SERVER then do {
        (cleanup_count, ctx) \<leftarrow> assoc_info_cleanup ctx tm;
        if cleanup_count > 0 then do {
          (ctx, w) \<leftarrow> print_assoc ctx w;
          out \<leftarrow> node_info_print ctx (sys w);
          Some (ctx, w\<lparr>sys := out\<rparr>)
        } else Some (ctx, w)
      } else Some (ctx, w))"

text \<open>The handlers that are registered, or \<open>None\<close> when the process exits.\<close>

definition proc_start :: "topo_env \<Rightarrow> main_ctx \<Rightarrow> topo_event list option" where
  "proc_start se ctx =
     (if event_add se Ev_tick < 0 then None
      else if role ctx = CR_CLIENT
        then (if event_add se Ev_udp_snd_rcv < 0 then None else Some [Ev_tick, Ev_udp_snd_rcv])
        else (if event_add se Ev_udp_rcv_snd < 0 then None else Some [Ev_tick, Ev_udp_rcv_snd]))"

text \<open>An event with what its handler finds: the time, a client's network, or a readable socket.\<close>

datatype occurrence = Tick_at int | Client_round client_net | Server_readable udp_sock int

fun event_of :: "occurrence \<Rightarrow> topo_event" where
  "event_of (Tick_at tm) = Ev_tick"
| "event_of (Client_round net) = Ev_udp_snd_rcv"
| "event_of (Server_readable s tm) = Ev_udp_rcv_snd"

fun handle_event :: "occurrence \<Rightarrow> main_ctx \<times> io \<Rightarrow> (main_ctx \<times> io) option" where
  "handle_event (Tick_at tm) (ctx, w) = main_tick tm ctx w"
| "handle_event (Client_round net) (ctx, w) = udp_client_proc net ctx w"
| "handle_event (Server_readable s tm) (ctx, w) = udp_server_proc s tm ctx w"

text \<open>
  \<open>main\<close>: \<open>None\<close> is a fault, \<open>Some None\<close> the exit of the process, otherwise the
  state in which the loop starts and the registered events.
\<close>

definition topo_main :: "topo_env \<Rightarrow> os \<Rightarrow> (main_ctx \<times> os \<times> topo_event list) option option" where
  "topo_main se w = do {
     (r, ctx, w) \<leftarrow> initialize se zero_ctx w;
     if r < 0 then Some None
     else Some (map_option (\<lambda>evs. (ctx, w, evs)) (proc_start se ctx))
   }"

section \<open>What every event keeps\<close>

text \<open>
  The state a server or client keeps from event to event: a node list whose strings fit, and the
  role and the name it started with.
\<close>

definition topo_inv :: "cluster_role \<Rightarrow> string \<Rightarrow> main_ctx \<times> io \<Rightarrow> bool" where
  "topo_inv rl nm s \<longleftrightarrow> (\<exists>xs. topo_ok (fst s) xs) \<and> role (fst s) = rl \<and> my_name (fst s) = nm"

text \<open>
  A line break in a registration would be stored in a field and break the line of the node in every
  reply; the other events are unrestricted.
\<close>

fun admitted :: "occurrence \<Rightarrow> bool" where
  "admitted (Server_readable s tm) = (case arriving s of Inl e \<Rightarrow> True | Inr (bytes, from, cs) \<Rightarrow> newline \<notin> set bytes)"
| "admitted occ = True"

lemma print_assoc_keeps:
  assumes "topo_ok ctx xs" and "print_assoc ctx w = Some (ctx', w')"
  shows "\<exists>h. ctx' = ctx\<lparr>mem := h\<rparr> \<and> topo_ok ctx' xs"
proof -
  have "\<forall>n \<in> set (infos xs). short_fields (assoc_values n)" using assms(1) short_values(1) by (simp add: topo_ok_def)
  moreover obtain v where "assoc_info_print ctx (sys w) = Some (ctx', v)"
    using assms(2) by (auto simp: print_assoc_def)
  ultimately show ?thesis using assoc_print_keeps [of ctx xs "sys w" ctx' v] assms(1) by (auto simp: topo_ok_def)
qed

lemma cleanup_ok:
  assumes "topo_ok ctx xs"
  shows "\<exists>h. assoc_info_cleanup ctx tm =
       Some (int (length (filter (\<lambda>(a, k, n). stale tm n) xs)), ctx\<lparr>mem := h\<rparr>)
     \<and> topo_ok (ctx\<lparr>mem := h\<rparr>) (filter (\<lambda>(a, k, n). \<not> stale tm n) xs)"
proof -
  obtain h where "assoc_info_cleanup ctx tm =
       Some (int (length (filter (\<lambda>(a, k, n). stale tm n) xs)), ctx\<lparr>mem := h\<rparr>)"
      "topo_rep (ctx\<lparr>mem := h\<rparr>) (filter (\<lambda>(a, k, n). \<not> stale tm n) xs)"
    using cleanup_rep [of ctx xs tm] assms unfolding topo_ok_def by blast
  then show ?thesis using assms by (auto simp: topo_ok_def)
qed

lemma tick_keeps:
  assumes "topo_ok ctx xs" and "main_tick tm ctx w = Some (ctx', w')"
  shows "\<exists>h ys. ctx' = ctx\<lparr>mem := h\<rparr> \<and> topo_ok ctx' ys
     \<and> (role ctx = CR_SERVER \<longrightarrow> infos ys = filter (\<lambda>n. \<not> stale tm n) (infos xs)) \<and> (role ctx = CR_CLIENT \<longrightarrow> ctx' = ctx)"
proof (cases "role ctx = CR_SERVER")
  case True
  let ?ys = "filter (\<lambda>(a, k, n). \<not> stale tm n) xs"
  have inf: "infos ?ys = filter (\<lambda>n. \<not> stale tm n) (infos xs)" by (induction xs) auto
  obtain h where h: "assoc_info_cleanup ctx tm =
       Some (int (length (filter (\<lambda>(a, k, n). stale tm n) xs)), ctx\<lparr>mem := h\<rparr>)" "topo_ok (ctx\<lparr>mem := h\<rparr>) ?ys"
    using cleanup_ok [OF assms(1)] by blast
  show ?thesis
  proof (cases "filter (\<lambda>(a, k, n). stale tm n) xs = []")
    case none: True
    with assms(2) h True show ?thesis
      by (intro exI [of _ h] exI [of _ ?ys]) (simp add: main_tick_def inf Let_def)
  next
    case False
    then have "print_assoc (ctx\<lparr>mem := h\<rparr>) (w\<lparr>beats := beats w + 1\<rparr>) \<noteq> None
        \<and> (\<exists>v. print_assoc (ctx\<lparr>mem := h\<rparr>) (w\<lparr>beats := beats w + 1\<rparr>) = Some (ctx', v))"
      using assms(2) h(1) True by (auto simp: main_tick_def Let_def)
    then obtain v where "print_assoc (ctx\<lparr>mem := h\<rparr>) (w\<lparr>beats := beats w + 1\<rparr>) = Some (ctx', v)" by blast
    from print_assoc_keeps [OF h(2) this] True inf show ?thesis by auto
  qed
next
  case False
  then have "ctx' = ctx" "role ctx = CR_CLIENT" using assms(2) by (cases "role ctx"; simp add: main_tick_def Let_def)+
  moreover have "ctx\<lparr>mem := mem ctx\<rparr> = ctx" by simp
  ultimately show ?thesis using assms(1) by (intro exI [of _ "mem ctx"] exI [of _ xs]) simp
qed

lemma update_keeps:
  assumes "topo_ok ctx xs" and "client_update ctx msg w = Some (ctx', w')"
  shows "\<exists>h ys. ctx' = ctx\<lparr>mem := h\<rparr> \<and> topo_ok ctx' ys"
proof -
  obtain h1 h2 h3 n ys where st: "assoc_info_unset_chk_flag ctx = Some (ctx\<lparr>mem := h1\<rparr>)"
      "client_lines (ctx\<lparr>mem := h1\<rparr>) 0 (tokens newline msg) = Some (fst n, ctx\<lparr>mem := h2\<rparr>)"
      "assoc_info_remove_uncheck_node (ctx\<lparr>mem := h2\<rparr>) = Some (snd n, ctx\<lparr>mem := h3\<rparr>)"
      "topo_ok (ctx\<lparr>mem := h3\<rparr>) ys"
    using client_merge [OF assms(1), of msg] by blast
  show ?thesis
  proof (cases "fst n + snd n > 0")
    case True
    then obtain v where "print_assoc (ctx\<lparr>mem := h3\<rparr>) w = Some (ctx', v)"
      using assms(2) st by (auto simp: client_update_def)
    from print_assoc_keeps [OF st(4) this] show ?thesis by auto
  next
    case False
    then show ?thesis using assms(2) st by (auto simp: client_update_def)
  qed
qed

lemma client_keeps:
  assumes "topo_ok ctx xs" and "udp_client_proc net ctx w = Some (ctx', w')"
  shows "\<exists>h ys. ctx' = ctx\<lparr>mem := h\<rparr> \<and> topo_ok ctx' ys"
proof -
  have "ctx' = ctx \<or> (\<exists>m v v'. client_update ctx m v = Some (ctx', v'))"
    using assms(2) unfolding udp_client_proc_def
    by (auto simp: Let_def split: option.splits if_splits sum.splits)
  then show ?thesis
  proof
    assume "ctx' = ctx"
    then have "ctx' = ctx\<lparr>mem := mem ctx\<rparr>" "topo_ok ctx' xs" using assms(1) by simp_all
    then show ?thesis by blast
  next
    assume "\<exists>m v v'. client_update ctx m v = Some (ctx', v')"
    then show ?thesis using update_keeps [OF assms(1)] by blast
  qed
qed

lemma outputs_keeps:
  assumes "topo_ok ctx xs" and "server_outputs ctx w = Some (ctx', w')"
  shows "\<exists>h. ctx' = ctx\<lparr>mem := h\<rparr> \<and> topo_ok ctx' xs"
proof -
  obtain v where "print_assoc ctx w = Some (ctx', v)" using assms(2) by (auto simp: server_outputs_def)
  from print_assoc_keeps [OF assms(1) this] show ?thesis .
qed

lemma recv_data:
  assumes "udp_recv_fromto s len tolen = Some (c, Some r)"
  shows "\<exists>bytes from cs. arriving s = Inr (bytes, from, cs) \<and> rcv_data r = take len bytes"
  using assms by (auto simp: udp_recv_fromto_def split: option.splits sum.splits sockaddr.splits if_splits)

lemma server_keeps:
  assumes "topo_ok ctx xs" and "udp_server_proc s tm ctx w = Some (ctx', w')" and "admitted (Server_readable s tm)"
  shows "\<exists>h ys. ctx' = ctx\<lparr>mem := h\<rparr> \<and> topo_ok ctx' ys"
proof -
  have self: "\<exists>h ys. ctx = ctx\<lparr>mem := h\<rparr> \<and> topo_ok ctx ys" using assms(1) by (intro exI [of _ "mem ctx"]) auto
  obtain c r where r: "udp_recv_fromto s TOPO_MAX_BUFFER (Some SIN_LEN) = Some (c, r)"
    using assms(2) by (auto simp: udp_server_proc_def)
  show ?thesis
  proof (cases r)
    case None
    with assms(2) r self show ?thesis by (simp add: udp_server_proc_def)
  next
    case (Some q)
    obtain msg where m: "cstr_of_buf TOPO_MAX_BUFFER (rcv_data q) = Some msg"
      using assms(2) r Some by (auto simp: udp_server_proc_def)
    obtain res c1 where np: "node_proc_pod_send_info ctx msg tm = Some (res, c1)"
      using assms(2) r Some m by (auto simp: udp_server_proc_def)
    have "set msg \<subseteq> set (rcv_data q)"
      using m by (auto simp: cstr_of_buf_def cstr_def split: if_splits dest: set_takeWhileD)
    moreover have "newline \<notin> set (rcv_data q)"
    proof -
      obtain bytes src cs where "arriving s = Inr (bytes, src, cs)" "rcv_data q = take TOPO_MAX_BUFFER bytes"
        using recv_data [OF r [unfolded Some]] by blast
      with assms(3) show ?thesis by (auto dest: in_set_takeD)
    qed
    ultimately have nl: "newline \<notin> set msg" by blast
    show ?thesis
    proof (cases "fst (assoc_info_get_from_pod msg) < 0")
      case True
      with assms(2) r Some m self show ?thesis by (simp add: udp_server_proc_def pod_send_info_bad)
    next
      case False
      obtain p where p: "assoc_info_get_from_pod msg = (0, p)"
        using False by (auto simp: assoc_info_get_from_pod_def Let_def split: prod.splits if_splits)
      obtain h ys where st: "node_proc_pod_send_info ctx msg tm = Some (Inr (fst (merge_pod tm p (contents xs))), ctx\<lparr>mem := h\<rparr>)"
          "topo_ok (ctx\<lparr>mem := h\<rparr>) ys"
        using registration_rep [OF assms(1) p nl] by blast
      show ?thesis
      proof (cases "fst (merge_pod tm p (contents xs)) = NP_ADD \<or> fst (merge_pod tm p (contents xs)) = NP_REP")
        case True
        then obtain v where "server_outputs (ctx\<lparr>mem := h\<rparr>) w = Some (ctx', v)"
          using assms(2) r Some m st(1) by (auto simp: udp_server_proc_def Let_def case_prod_unfold)
        from outputs_keeps [OF st(2) this] show ?thesis by auto
      next
        case False
        with assms(2) r Some m st show ?thesis by (auto simp: udp_server_proc_def Let_def case_prod_unfold)
      qed
    qed
  qed
qed

interpretation topo_loop: event_invariant handle_event admitted "topo_inv rl nm"
proof
  fix s t e
  assume i: "topo_inv rl nm s" and a: "admitted e" and h: "handle_event e s = Some t"
  obtain ctx w ctx' w' where s: "s = (ctx, w)" "t = (ctx', w')" by fastforce
  obtain xs where xs: "topo_ok ctx xs" using i s by (auto simp: topo_inv_def)
  have "\<exists>h ys. ctx' = ctx\<lparr>mem := h\<rparr> \<and> topo_ok ctx' ys"
  proof (cases e)
    case (Tick_at tm)
    then show ?thesis using tick_keeps [OF xs, of tm w ctx' w'] h s by auto
  next
    case (Client_round net)
    then show ?thesis using client_keeps [OF xs, of net w ctx' w'] h s by simp
  next
    case (Server_readable so tm)
    then show ?thesis using server_keeps [OF xs, of so tm w ctx' w'] h a s by (simp del: admitted.simps)
  qed
  then show "topo_inv rl nm t" using i s by (auto simp: topo_inv_def)
qed

section \<open>Numbers in names\<close>

lemma sprintf_X_short: "length (sprintf_X x) \<le> 8" "newline \<notin> set (sprintf_X x)"
proof -
  have "nat (x mod 2 ^ 32) < 16 ^ Suc 7" by (simp add: nat_less_iff)
  from length_nat_base [OF _ this] show "length (sprintf_X x) \<le> 8" by (simp add: sprintf_X_def)
  have "digit_val newline = None" by (simp add: digit_val_def newline_def)
  then show "newline \<notin> set (sprintf_X x)"
    using nat_base_digits [of 16 newline "nat (x mod 2 ^ 32)"] by (auto simp: sprintf_X_def)
qed

text \<open>Printing with \<open>%X\<close> and reading with \<open>strtol\<close> in base 16.\<close>

lemma strtol16_sprintf_X:
  assumes "n < 2 ^ 32"
  shows "strtol16 (sprintf_X (int n)) = int n"
proof -
  have s: "sprintf_X (int n) = nat_base 16 n"
    using assms by (simp add: sprintf_X_def nat_mod_distrib)
  obtain c cs where c: "nat_base 16 n = c # cs" by (cases "nat_base 16 n") auto
  have dig: "\<exists>d. digit_val x = Some d" if "x \<in> set (nat_base 16 n)" for x
    using nat_base_digits [of 16 x n] that by auto
  then have "c \<noteq> CHR ''-''" "c \<noteq> CHR ''+''" "\<not> isspace c"
    using c digit_val_not_sign [of c] by auto
  then have sg: "strip_sign (dropWhile isspace (nat_base 16 n)) = (False, nat_base 16 n)"
    by (simp add: strip_sign_def c)
  have no_x: "digit_val (CHR ''x'') = None" "digit_val (CHR ''X'') = None" by (simp_all add: digit_val_def)
  have "strip_0x (nat_base 16 n) = nat_base 16 n"
  proof (cases cs)
    case (Cons x r)
    then have "x \<noteq> CHR ''x'' \<and> x \<noteq> CHR ''X''" using dig [of x] c no_x by auto
    then show ?thesis using c Cons by (auto simp: strip_0x_def split: list.splits)
  qed (simp add: c strip_0x_def)
  then show ?thesis
    using assms sg by (simp add: strtol16_def s digits_val_nat_base clamp_long_def)
qed

section \<open>The state after a start\<close>

lemma topo_ok_fields [simp]:
  "topo_ok (ctx\<lparr>omp_sockfd := x\<rparr>) xs \<longleftrightarrow> topo_ok ctx xs"
  by (simp add: topo_ok_def topo_rep_def)

lemma new_list_rep:
  assumes "mem ctx = empty_heap"
  shows "\<exists>h. new_list ctx = Some (ctx\<lparr>node_list := 1, mem := h\<rparr>) \<and> topo_rep (ctx\<lparr>node_list := 1, mem := h\<rparr>) []"
proof -
  obtain h where h: "new_element (mem ctx) None None = (Some 1, h)"
    using assms by (auto simp: new_element_def empty_heap_def)
  then have "topo_rep (ctx\<lparr>node_list := 1, mem := h\<rparr>) []" using wf_list_empty assms by (simp add: topo_rep_def)
  then show ?thesis using h by (auto simp: new_list_def)
qed

lemma omp_node_short:
  assumes "omp_node ctx = Some n" and "newline \<notin> set (mp_label ctx)" and "newline \<notin> set (omp_ip ctx)"
  shows "short_fields (node_fields n)" "name n = ''OMP''" "heartbeat_tm n = 0"
  using assms sprintf_X_short [of "base_port ctx + 1"]
  by (auto simp: omp_node_def node_fields_def assoc_values_def zero_node_def newline_def)

lemma server_start:
  assumes "init_omp_server se ctx0 w = Some (0, ctx, w')" and "mem ctx0 = empty_heap"
    and "newline \<notin> set (mp_label ctx)" and "newline \<notin> set (omp_ip ctx)"
  shows "\<exists>xs n. topo_ok ctx xs \<and> contents xs = [''OMP'' \<mapsto> n] \<and> omp_node ctx = Some n
     \<and> role ctx = role ctx0 \<and> my_sys_name ctx0 = Some (my_name ctx)"
proof -
  obtain label nm n c1 c2 c3 where st: "my_sys_name ctx0 = Some nm"
      "omp_node (ctx0\<lparr>mp_label := label, my_name := nm\<rparr>) = Some n"
      "new_list (ctx0\<lparr>mp_label := label, my_name := nm\<rparr>) = Some c1" "add_new_node c1 (mem c1) n = Some c2"
      "assoc_info_print c2 w = Some (c3, w')" "ctx = c3\<lparr>omp_sockfd := omp_socket se\<rparr>"
    using assms(1) by (auto simp: init_omp_server_def Let_def case_prod_unfold split: if_splits)
  let ?c = "ctx0\<lparr>mp_label := label, my_name := nm\<rparr>"
  obtain h1 where c1: "c1 = ?c\<lparr>node_list := 1, mem := h1\<rparr>" "topo_rep c1 []"
    using new_list_rep [of ?c] assms(2) st(3) by auto
  obtain h2 xs where c2: "c2 = c1\<lparr>mem := h2\<rparr>" "topo_rep c2 xs" "contents xs = [name n \<mapsto> n]"
    using add_new_node_rep [OF c1(2), of n] st(4) by auto
  have sp: "\<exists>h. c3 = c2\<lparr>mem := h\<rparr> \<and> topo_rep c3 xs" if "short_fields (node_fields n)"
  proof (rule assoc_print_keeps [OF c2(2) _ st(5)])
    have "ran (contents xs) = set (infos xs)" using ran_contents [OF topo_rep_distinct [OF c2(2)]] .
    then have "set (infos xs) = {n}" unfolding c2(3) by simp
    then show "\<forall>n \<in> set (infos xs). short_fields (assoc_values n)" using short_values(1) [OF that] by auto
  qed
  have same: "mp_label c3 = label \<and> omp_ip c3 = omp_ip ctx0 \<and> base_port c3 = base_port ctx0
      \<and> role c3 = role ctx0 \<and> my_name c3 = nm"
  proof -
    obtain h where "c3 = c2\<lparr>mem := h\<rparr>" using st(5) by (auto simp: assoc_info_print_def case_prod_unfold)
    then show ?thesis using c1(1) c2(1) by simp
  qed
  have node: "omp_node ctx = Some n" using st(2,6) same by (simp add: omp_node_def)
  have short: "short_fields (node_fields n)" "name n = ''OMP''"
    using omp_node_short [OF node assms(3,4)] by simp_all
  obtain h3 where c3: "c3 = c2\<lparr>mem := h3\<rparr>" "topo_rep c3 xs" using sp [OF short(1)] by blast
  have "topo_ok c3 xs" using c3(2) short(1) unfolding topo_ok_map c2(3) by (simp add: short_map_def)
  then show ?thesis using st(1,6) same node c2(3) short(2) by (intro exI [of _ xs] exI [of _ n]) simp
qed

text \<open>The names of a client; \<open>lbl\<close> and \<open>port\<close> are the first lines of the files.\<close>

lemma client_start:
  assumes "init_omp_client ctx0 w = Some (0, ctx)" and "mem ctx0 = empty_heap"
  shows "topo_ok ctx []" "role ctx = role ctx0" "omp_ip ctx = omp_ip ctx0" "base_port ctx = base_port ctx0"
    and "\<exists>pod sfx. getenv w ''MY_POD_NAME'' = Some pod \<and> strrchr pod (CHR ''-'') = Some sfx
      \<and> my_mp_index ctx = atoi (tl sfx)"
    and "my_node_name ctx = getenv w ''MY_NODE_NAME''" "my_pod_name ctx = getenv w ''MY_POD_NAME''"
      "my_node_ip ctx = getenv w ''MY_NODE_IP''" "my_pod_ip ctx = getenv w ''MY_POD_IP''"
    and "my_name ctx = snd (fopen_read w ''/label_conf/name'' (my_name ctx0) 127) @ ''_''
      @ sprintf_d (to_int32 (my_mp_index ctx + 1))"
    and "my_type ctx = snd (fopen_read w ''/label_conf/type'' (my_type ctx0) 127)"
    and "my_group ctx = snd (fopen_read w ''/label_conf/group'' (my_group ctx0) 127)"
    and "my_port ctx = ''0x'' @ sprintf_X (to_int32 (strtol16 (drop 2 (snd (fopen_read w ''/label_conf/ixpc_base_port'' [] 127)))
      + my_mp_index ctx + 1))"
    and "length (my_name ctx) < 128"
proof -
  let ?nm = "snd (fopen_read w ''/label_conf/name'' (my_name ctx0) 127)"
    and ?pt = "snd (fopen_read w ''/label_conf/ixpc_base_port'' [] 127)"
  let ?c = "\<lambda>pod idx. ctx0\<lparr>my_node_name := getenv w ''MY_NODE_NAME'', my_pod_name := Some pod,
     my_node_ip := getenv w ''MY_NODE_IP'', my_pod_ip := getenv w ''MY_POD_IP'', my_mp_index := idx,
     my_name := ?nm @ ''_'' @ sprintf_d (to_int32 (idx + 1)),
     my_type := snd (fopen_read w ''/label_conf/type'' (my_type ctx0) 127),
     my_group := snd (fopen_read w ''/label_conf/group'' (my_group ctx0) 127),
     my_port := ''0x'' @ sprintf_X (to_int32 (strtol16 (drop 2 ?pt) + idx + 1))\<rparr>"
  obtain pod sfx where c1: "getenv w ''MY_POD_NAME'' = Some pod" "strrchr pod (CHR ''-'') = Some sfx"
      "new_list (?c pod (atoi (tl sfx))) = Some ctx" "length (?nm @ ''_'' @ sprintf_d (to_int32 (atoi (tl sfx) + 1))) < 128"
    using assms(1) by (auto simp: init_omp_client_def Let_def case_prod_unfold split: option.splits if_splits)
  obtain h where h: "ctx = (?c pod (atoi (tl sfx)))\<lparr>node_list := 1, mem := h\<rparr>" "topo_rep ctx []"
    using new_list_rep [of "?c pod (atoi (tl sfx))"] c1(3) assms(2) by auto
  show "topo_ok ctx []" using h(2) by (simp add: topo_ok_def)
  show "\<exists>pod sfx. getenv w ''MY_POD_NAME'' = Some pod \<and> strrchr pod (CHR ''-'') = Some sfx
      \<and> my_mp_index ctx = atoi (tl sfx)"
    using c1(1,2) h(1) by simp
  show "length (my_name ctx) < 128" using c1(4) unfolding h(1) by simp
  show "role ctx = role ctx0" "omp_ip ctx = omp_ip ctx0" "base_port ctx = base_port ctx0"
    "my_node_name ctx = getenv w ''MY_NODE_NAME''" "my_pod_name ctx = getenv w ''MY_POD_NAME''"
    "my_node_ip ctx = getenv w ''MY_NODE_IP''" "my_pod_ip ctx = getenv w ''MY_POD_IP''"
    "my_name ctx = snd (fopen_read w ''/label_conf/name'' (my_name ctx0) 127) @ ''_''
      @ sprintf_d (to_int32 (my_mp_index ctx + 1))"
    "my_type ctx = snd (fopen_read w ''/label_conf/type'' (my_type ctx0) 127)"
    "my_group ctx = snd (fopen_read w ''/label_conf/group'' (my_group ctx0) 127)"
    "my_port ctx = ''0x'' @ sprintf_X (to_int32 (strtol16 (drop 2 (snd (fopen_read w ''/label_conf/ixpc_base_port'' [] 127)))
      + my_mp_index ctx + 1))"
    using c1(1) by (simp_all add: h(1))
qed

text \<open>The decision, and the state in which the loop starts.\<close>

lemma initialize_cases:
  assumes "initialize se zero_ctx w = Some (0, ctx, w')"
  obtains (server) c0 where "init_omp_server se c0 w = Some (0, ctx, w')" "mem c0 = empty_heap" "role c0 = CR_SERVER"
      "my_sys_name c0 = getenv w ''MY_SYS_NAME''" "role_of (getenv w ''MY_SYS_NAME'') = CR_SERVER"
    | (client) c0 where "init_omp_client c0 w = Some (0, ctx)" "w' = w" "mem c0 = empty_heap" "role c0 = CR_CLIENT"
      "my_name c0 = []" "role_of (getenv w ''MY_SYS_NAME'') = CR_CLIENT"
proof -
  let ?r = "role_of (getenv w ''MY_SYS_NAME'')"
  let ?c = "\<lambda>addr conf. zero_ctx\<lparr>ems_topo_addr := Some addr, my_sys_name := getenv w ''MY_SYS_NAME'',
     omp_ip := scanned (snd (sscanf fmt_addr addr [])) 0, base_port := atoi (scanned (snd (sscanf fmt_addr addr [])) 1),
     ixpcQid := commlib_crteMsgQ se conf ''IXPC'', role := ?r\<rparr>"
  obtain addr conf where st: "if ?r = CR_SERVER then init_omp_server se (?c addr conf) w = Some (0, ctx, w')
      else init_omp_client (?c addr conf) w = Some (0, ctx) \<and> w' = w"
    using assms by (auto simp: initialize_def zero_ctx_def Let_def case_prod_unfold split: option.splits if_splits)
  have c: "mem (?c addr conf) = empty_heap" "role (?c addr conf) = ?r" "my_name (?c addr conf) = []"
    "my_sys_name (?c addr conf) = getenv w ''MY_SYS_NAME''"
    by (simp_all add: zero_ctx_def)
  show thesis
  proof (cases ?r)
    case CR_SERVER
    with st c show thesis by (intro server [of "?c addr conf"]) (simp_all only: if_True simp_thms)
  next
    case CR_CLIENT
    with st c show thesis by (intro client [of "?c addr conf"]) simp_all
  qed
qed

lemma server_role:
  assumes "init_omp_server se ctx0 w = Some (0, ctx, w')"
  shows "role ctx = role ctx0"
proof -
  have pr: "role c' = role c" if "assoc_info_print c v = Some (c', v')" for c c' v v'
    using that by (auto simp: assoc_info_print_def case_prod_unfold)
  have nl: "role c' = role c" if "new_list c = Some c'" for c c'
    using that by (auto simp: new_list_def Let_def case_prod_unfold)
  have an: "role c' = role c" if "add_new_node c h n = Some c'" for c c' h n
    using that by (auto simp: add_new_node_def)
  show ?thesis
    using assms by (auto simp: init_omp_server_def Let_def case_prod_unfold dest!: pr nl an split: if_splits)
qed

lemma initialize_started:
  assumes "initialize se zero_ctx w = Some (0, ctx, w')"
    and "role ctx = CR_SERVER \<Longrightarrow> newline \<notin> set (mp_label ctx) \<and> newline \<notin> set (omp_ip ctx)"
  shows "role ctx = role_of (getenv w ''MY_SYS_NAME'') \<and> (\<exists>xs. topo_ok ctx xs \<and> (if role ctx = CR_SERVER
       then \<exists>n. contents xs = [''OMP'' \<mapsto> n] \<and> omp_node ctx = Some n \<and> getenv w ''MY_SYS_NAME'' = Some (my_name ctx)
       else xs = []))"
  using assms(1)
proof (cases rule: initialize_cases)
  case (server c0)
  have "role ctx = role c0" by (rule server_role [OF server(1)])
  with server assms(2) server_start [OF server(1,2)] show ?thesis by auto
next
  case (client c0)
  with client_start(1,2) [OF client(1,3)] show ?thesis by auto
qed

lemma initialize_code:
  assumes "initialize se ctx0 w = Some (r, ctx, w')"
  shows "r = 0 \<or> r = -1"
proof -
  have s: "r = 0 \<or> r = -1" if "init_omp_server se c v = Some (r, ctx, w')" for c v
    using that by (auto simp: init_omp_server_def Let_def case_prod_unfold split: if_splits)
  have c: "r = 0 \<or> r = -1" if "init_omp_client c v = Some (r, ctx)" for c v
    using that by (auto simp: init_omp_client_def Let_def case_prod_unfold split: if_splits option.splits)
  show ?thesis
    using assms by (auto simp: initialize_def Let_def case_prod_unfold dest!: s c split: if_splits option.splits)
qed

lemma main_started:
  assumes "topo_main se w = Some (Some (ctx, w', evs))"
  shows "initialize se zero_ctx w = Some (0, ctx, w')" and "proc_start se ctx = Some evs"
  using assms initialize_code by (fastforce simp: topo_main_def split: if_splits)+

text \<open>A file whose first line is \<open>l\<close>.\<close>

definition first_line :: "os \<Rightarrow> string \<Rightarrow> string \<Rightarrow> bool" where
  "first_line w path l \<longleftrightarrow> (\<exists>rest. files w path = Some (l @ newline # rest))
     \<and> l \<noteq> [] \<and> length l \<le> 100 \<and> newline \<notin> set l \<and> nul \<notin> set l"

lemma fopen_read_first:
  assumes "first_line w path l"
  shows "fopen_read w path buf 127 = (True, l)"
proof -
  obtain rest where f: "files w path = Some (l @ newline # rest)" using assms by (auto simp: first_line_def)
  have "line_upto 126 (l @ newline # rest) = l @ [newline]"
    using assms by (intro line_upto_line) (simp_all add: first_line_def)
  moreover have "cstr (l @ [newline]) = l @ [newline]"
    using assms by (intro cstr_id) (simp add: first_line_def newline_def nul_def)
  moreover have "strtok_trim newline (l @ [newline]) = l"
    using assms by (intro strtok_trim_line) (simp_all add: first_line_def)
  ultimately show ?thesis using f by (simp add: fopen_read_def fgets_def Let_def)
qed

lemma index_suffix:
  assumes "i < 2 ^ 31"
  shows "strrchr (s @ CHR ''-'' # sprintf_d (int i)) (CHR ''-'') = Some (CHR ''-'' # sprintf_d (int i))"
    and "atoi (sprintf_d (int i)) = int i" and "length (sprintf_d (int i)) \<le> 10"
proof -
  have d: "sprintf_d (int i) = nat_base 10 i" by (simp add: sprintf_d_def)
  have "digit_val (CHR ''-'') = None" by (simp add: digit_val_def)
  then have "CHR ''-'' \<notin> set (nat_base 10 i)" using nat_base_digits [of 10 "CHR ''-''" i] by auto
  then show "strrchr (s @ CHR ''-'' # sprintf_d (int i)) (CHR ''-'') = Some (CHR ''-'' # sprintf_d (int i))"
    unfolding d by (rule strrchr_append)
  show "atoi (sprintf_d (int i)) = int i" by (rule atoi_sprintf_d_nat [OF assms])
  have "i < 10 ^ Suc 9" using assms by simp
  from length_nat_base [OF _ this] show "length (sprintf_d (int i)) \<le> 10" by (simp add: d)
qed

lemma client_names:
  assumes "getenv w ''MY_NODE_NAME'' = Some nn" and "getenv w ''MY_NODE_IP'' = Some nip" and "getenv w ''MY_POD_IP'' = Some pip"
    and "getenv w ''MY_POD_NAME'' = Some (s @ CHR ''-'' # sprintf_d (int i))"
    and "first_line w ''/label_conf/name'' lbl" and "first_line w ''/label_conf/type'' ty"
    and "first_line w ''/label_conf/group'' gr"
    and "first_line w ''/label_conf/ixpc_base_port'' (''0x'' @ sprintf_X (int p))"
    and "p + i + 1 < 2 ^ 31" and "mem ctx0 = empty_heap"
  shows "\<exists>ctx. init_omp_client ctx0 w = Some (0, ctx) \<and> my_name ctx = lbl @ ''_'' @ sprintf_d (int (i + 1))
     \<and> my_port ctx = ''0x'' @ sprintf_X (int (p + i + 1)) \<and> strtol16 (drop 2 (my_port ctx)) = int (p + i + 1)
     \<and> my_type ctx = ty \<and> my_group ctx = gr \<and> topo_ok ctx [] \<and> role ctx = role ctx0"
proof -
  have i: "i < 2 ^ 31" "i + 1 < 2 ^ 31" "p < 2 ^ 32" "p + i + 1 < 2 ^ 32" using assms(9) by simp_all
  note ix = index_suffix [OF i(1)]
  have n1: "to_int32 (1 + int i) = 1 + int i" "to_int32 (1 + (int i + int p)) = 1 + (int i + int p)"
    using assms(9) by (simp_all add: to_int32_def)
  have hp: "strtol16 (sprintf_X (int p)) = int p" by (rule strtol16_sprintf_X [OF i(3)])
  have d: "length (sprintf_d (1 + int i)) \<le> 10" using index_suffix(3) [OF i(2)] by (simp add: add.commute)
  have l: "length lbl \<le> 100" using assms(5) by (simp add: first_line_def)
  obtain idx where idx: "idx = int i" by simp
  let ?c = "ctx0\<lparr>my_node_name := Some nn, my_pod_name := Some (s @ CHR ''-'' # sprintf_d (int i)), my_node_ip := Some nip,
     my_pod_ip := Some pip, my_mp_index := int i, my_name := lbl @ ''_'' @ sprintf_d (1 + int i), my_type := ty,
     my_group := gr, my_port := ''0x'' @ sprintf_X (1 + (int p + int i))\<rparr>"
  obtain h where h: "new_list ?c = Some (?c\<lparr>node_list := 1, mem := h\<rparr>)" "topo_rep (?c\<lparr>node_list := 1, mem := h\<rparr>) []"
    using new_list_rep [of ?c] assms(10) by auto
  have "init_omp_client ctx0 w = Some (0, ?c\<lparr>node_list := 1, mem := h\<rparr>)"
    using h(1) d l by (simp add: init_omp_client_def assms(1-4) ix(1,2) fopen_read_first [OF assms(5)]
      fopen_read_first [OF assms(6)] fopen_read_first [OF assms(7)] fopen_read_first [OF assms(8)]
      n1 hp fits_def ac_simps del: bind_Some_iff)
  moreover have "strtol16 (sprintf_X (int (p + i + 1))) = int (p + i + 1)" by (rule strtol16_sprintf_X [OF i(4)])
  ultimately show ?thesis
    using h(2) by (intro exI [of _ "?c\<lparr>node_list := 1, mem := h\<rparr>"]) (simp add: topo_ok_def ac_simps)
qed

end
