(* ===== verification/Topo_Correct.thy ===== *)
theory Topo_Correct
  imports Topo_Init
begin

text \<open>
  What the topology manager guarantees, and the inputs it does not guard against: the node list, the
  round of a client, the registration at the server, ageing, the start, and the outputs.
\<close>

section \<open>An example state\<close>

definition ex_node :: node_info where
  "ex_node = zero_node\<lparr>name := ''OMP'', ntype := ''OMP'', group := ''LMF'', mgnt_pri_ip := ''1.1.1.1'',
     mgnt_sec_ip := ''NULL'', mgnt_port := ''0x1F41'', serv_pri_ip := ''NULL'', serv_sec_ip := ''NULL'',
     info_name := ''OMP_SYSTEM'', vnfc_id := ''vnfc''\<rparr>"

definition ex_ctx :: "cluster_role \<Rightarrow> main_ctx" where
  "ex_ctx r = zero_ctx\<lparr>role := r, node_list := 1, mem := one_node ''OMP'' ex_node, my_name := ''FEP_1'',
     my_node_ip := Some ''1.2'', my_pod_ip := Some ''3.4'', my_node_name := Some ''N'', my_pod_name := Some ''P''\<rparr>"

definition ex_os :: os where
  "ex_os = \<lparr>env = (\<lambda>_. None), files = (\<lambda>_. None), can_write = (\<lambda>_. True), shell = (\<lambda>_. None), stderr_text = []\<rparr>"

definition ex_io :: io where
  "ex_io = \<lparr>sys = ex_os, datagrams = [], msgq = [], open_fds = [], beats = 0\<rparr>"

definition ex_sock :: "string \<Rightarrow> udp_sock" where
  "ex_sock bytes = \<lparr>sock_name = Some (Sin 8000 0), sock_opt = (\<lambda>_ _. 0),
     arriving = Inr (bytes, Sin 4000 7, [Other_cmsg, Pktinfo 9]), send_res = (\<lambda>m. int (length (msg_data m)))\<rparr>"

definition ex_net :: "string \<Rightarrow> client_net" where
  "ex_net reply = \<lparr>host_by_name = (\<lambda>_. Some 9), new_socket = 3, send_result = (\<lambda>_. 0), recv_result = Inr reply\<rparr>"

definition ex_msg :: out_msg where
  "ex_msg = \<lparr>msg_data = ''FEP_1|||1.2|3.4||N|P'', msg_to = Sin 0 9, msg_src = None\<rparr>"

lemma ex_ok: "topo_ok (ex_ctx r) [(2, ''OMP'', ex_node)]"
  using one_node_list [of "''OMP''" ex_node]
  by (simp add: topo_ok_def topo_rep_def ex_ctx_def ex_node_def zero_node_def node_fields_def assoc_values_def newline_def)

lemma ex_paths: "data_path ex_os ''/data/associate_config'' = Some ''/data/associate_config''"
  "data_path ex_os ''/data/node_info'' = Some ''/data/node_info''"
  "sys ex_io = ex_os" "my_name (ex_ctx r) = ''FEP_1''" "nul \<notin> set ''FEP_1''"
  by (simp_all add: data_path_def getenv_def ex_os_def ex_io_def ex_ctx_def nul_def)

lemma ex_name: "nul \<notin> set (my_name (ex_ctx r))" "length (my_name (ex_ctx r)) < 128"
  and ex_data: "data_path (sys ex_io) ''/data/associate_config'' = Some ''/data/associate_config''"
    "data_path (sys ex_io) ''/data/node_info'' = Some ''/data/node_info''"
  and ex_len: "length [(2::nat, ''OMP'', ex_node)] < 10240" "length [(2::nat, ''OMP'', ex_node)] \<le> 6"
  using ex_paths by simp_all

lemma ex_answered: "answered (ex_net reply) (ex_ctx r) ex_msg reply"
  by (simp add: answered_def ex_net_def ex_ctx_def ex_msg_def client_message_def zero_ctx_def)

lemma ex_delivered: "delivered (ex_sock bytes) bytes (Sin 4000 7) 9"
  by (simp add: delivered_def ex_sock_def put_sin_addr_def)

section \<open>The node list\<close>

text \<open>C14: The element list is a map: adding a new key binds it and leaves the others, adding a key that
  is there is refused, looking up gives the node of the key, and removing that node unbinds it.\<close>

theorem elem_list_map:
  assumes "wf_list h root xs" and "\<not> oom h"
  shows "\<exists>h1 ys. put_element (h, root) k d = Some (if k \<in> dom (map_of (entries xs)) then -1 else 0, h1, root)
     \<and> wf_list h1 root ys
     \<and> map_of (entries ys) = (if k \<in> dom (map_of (entries xs)) then map_of (entries xs) else (map_of (entries xs))(k \<mapsto> d))
     \<and> (\<exists>a h2 zs. get_element h1 root k = Some (Some a) \<and> rem_element h1 (Some a) = Some h2
          \<and> wf_list h2 root zs \<and> map_of (entries zs) = (map_of (entries xs))(k := None))"
proof -
  have dom: "k \<in> dom (map_of (entries xs)) \<longleftrightarrow> k \<in> node_key ` set xs"
    by (simp add: dom_map_of_conv_image_fst image_image)
  have sorted: "sorted_wrt (<) (map node_key xs)" using assms(1) by (simp add: wf_list_def)
  obtain h1 ys where ys: "put_element (h, root) k d = Some (if k \<in> node_key ` set xs then -1 else 0, h1, root)"
      "wf_list h1 root ys" "map_of (entries ys) = (if k \<in> node_key ` set xs then map_of (entries xs) else (map_of (entries xs))(k \<mapsto> d))"
  proof (cases "k \<in> node_key ` set xs")
    case True
    with put_element_dup [OF assms True, of d] that show thesis by auto
  next
    case False
    obtain h1 where h1: "put_element (h, root) k d = Some (0, h1, root)" "wf_list h1 root (insert_node (brk h, k, d) xs)"
      using put_element_new [OF assms False, of d] by blast
    moreover have "map_of (entries (insert_node (brk h, k, d) xs)) = (map_of (entries xs))(k \<mapsto> d)"
      using map_of_insert_node [of xs "(brk h, k, d)"] sorted False by simp
    ultimately show thesis using False that by simp
  qed
  have "k \<in> dom (map_of (entries ys))" using ys(3) dom by auto
  then have "handle_of ys k \<noteq> None"
    by (simp add: handle_of_None dom_map_of_conv_image_fst image_image)
  then obtain a where a: "handle_of ys k = Some a" by blast
  obtain d' where d': "(a, k, d') \<in> set ys" using handle_of_Some [OF a] by blast
  obtain h2 where h2: "rem_element h1 (Some a) = Some h2" "wf_list h2 root (remove_node a ys)"
    using rem_element_list [OF ys(2) d'] by blast
  have "map_of (entries (remove_node a ys)) = (map_of (entries ys))(k := None)"
    using ys(2) d' by (intro map_of_remove_node) (simp_all add: wf_list_def)
  then have "map_of (entries (remove_node a ys)) = (map_of (entries xs))(k := None)" using ys(3) by auto
  moreover have "get_element h1 root k = Some (Some a)" using get_element_list [OF ys(2), of k] a by simp
  ultimately show ?thesis using ys h2 unfolding dom by blast
qed

theorem elem_list_map_witness:
  "\<exists>h1 ys. put_element (one_node ''B'' False, 1) ''A'' True = Some (0, h1, 1)
     \<and> wf_list h1 1 ys \<and> map_of (entries ys) = [''B'' \<mapsto> False, ''A'' \<mapsto> True]"
  using elem_list_map [OF one_node_list [of "''B''" False], of "''A''" True] by auto

section \<open>A round of the client\<close>

lemma whole_buffer: "length s < n \<Longrightarrow> cstr_of_buf n (take n s) = Some (cstr s)"
  by (simp add: cstr_of_buf_def)

text \<open>C2: A round of a client that gets a reply of fewer than 10240 bytes sends one registration and makes
  the node list agree with the reply: nodes that are not in it disappear, new ones appear, and a node
  with the same two primary addresses is left as it was.  The association table is written and the
  other process is notified exactly when something changed.\<close>

theorem topo_client_round:
  assumes "topo_ok ctx xs" and "answered net ctx m reply" and "length reply < TOPO_MAX_BUFFER"
    and "data_path (sys w) ''/data/associate_config'' = Some path"
    and "nul \<notin> set (my_name ctx)" and "length (my_name ctx) < 128"
  shows "\<exists>h ys msg. let ps = parsed_lines (tokens newline (cstr reply)); w1 = w\<lparr>datagrams := datagrams w @ [m]\<rparr> in
     udp_client_proc net ctx w = Some (ctx\<lparr>mem := h\<rparr>,
       if round_changes ps (contents xs) = 0 then w1
       else (assoc_written path (infos ys) w1)\<lparr>msgq := msgq w @ [(MTYPE_RELOAD_CONFIG_DATA, msg)]\<rparr>)
     \<and> topo_ok (ctx\<lparr>mem := h\<rparr>) ys \<and> contents ys = sync_map ps (contents xs)"
proof -
  obtain msg where n: "notify_to_ixpc ctx = Some (MTYPE_RELOAD_CONFIG_DATA, msg)"
    using notify_fields [OF assms(5,6)] by blast
  let ?w = "w\<lparr>datagrams := datagrams w @ [m]\<rparr>"
  have buf: "cstr_of_buf TOPO_MAX_BUFFER (take TOPO_MAX_BUFFER reply) = Some (cstr reply)"
    using assms(3) by (rule whole_buffer)
  have "udp_client_proc net ctx w = client_update ctx (cstr reply) ?w"
    using client_round [OF assms(2)] buf by simp
  moreover have "length (cstr reply) \<le> 10240" using cstr_le [of reply] assms(3) by (simp add: TOPO_MAX_BUFFER_def)
  moreover have "data_path (sys ?w) ''/data/associate_config'' = Some path" "msgq ?w = msgq w" using assms(4) by simp_all
  ultimately obtain h ys where
      "udp_client_proc net ctx w = client_update ctx (cstr reply) ?w" "msgq ?w = msgq w"
       "client_update ctx (cstr reply) ?w = Some (ctx\<lparr>mem := h\<rparr>,
       if round_changes (parsed_lines (tokens newline (cstr reply))) (contents xs) = 0 then ?w
       else (assoc_written path (infos ys) ?w)\<lparr>msgq := msgq ?w @ [(MTYPE_RELOAD_CONFIG_DATA, msg)]\<rparr>)"
      "topo_ok (ctx\<lparr>mem := h\<rparr>) ys" "contents ys = sync_map (parsed_lines (tokens newline (cstr reply))) (contents xs)"
    using client_update_rep [OF assms(1) _ _ n, of "cstr reply" ?w path] by blast
  then show ?thesis unfolding Let_def by (intro exI [of _ h] exI [of _ ys] exI [of _ msg]) simp
qed

theorem topo_client_round_witness:
  "\<exists>h ys. topo_ok ((ex_ctx CR_CLIENT)\<lparr>mem := h\<rparr>) ys \<and> contents ys = Map.empty"
proof -
  have "tokens newline (cstr []) = []" by (simp add: tokens_def cstr_def)
  then have "sync_map (parsed_lines (tokens newline (cstr []))) m = Map.empty" for m
    using dom_sync_map [of "[]" m] by (simp add: parsed_lines_def map_filter_simps)
  with topo_client_round [OF ex_ok ex_answered, of "[]" ex_io] ex_paths show ?thesis
    by (fastforce simp: TOPO_MAX_BUFFER_def Let_def)
qed

lemma clean_line:
  assumes "wire_ok n"
  shows "newline \<notin> set (butlast (reply_line n (mgnt_port n))) \<and> nul \<notin> set (butlast (reply_line n (mgnt_port n)))
    \<and> butlast (reply_line n (mgnt_port n)) \<noteq> []"
proof -
  have f: "field_ok s \<Longrightarrow> newline \<notin> set s \<and> nul \<notin> set s" for s by (simp add: field_ok_def)
  have "isspace newline" by code_simp
  then have w: "word_ok s \<Longrightarrow> newline \<notin> set s \<and> nul \<notin> set s" for s by (auto simp: word_ok_def list_all_iff)
  have "CHR ''|'' \<noteq> newline" "CHR ''|'' \<noteq> nul" by (simp_all add: newline_def nul_def)
  then show ?thesis
    using assms f w by (simp add: wire_ok_def reply_line_def butlast_append)
qed

text \<open>C3: Replication: when a client receives the reply of a server whose nodes have ten readable fields,
  it has the same nodes as the server in the same order, with the same primary addresses.\<close>

theorem topo_replication:
  assumes "topo_ok server sxs" and "\<forall>n \<in> set (infos sxs). wire_ok n"
    and "assoc_info_reply_msg server [] = Some reply"
    and "topo_ok ctx xs" and "answered net ctx m reply"
    and "data_path (sys w) ''/data/associate_config'' = Some path"
    and "nul \<notin> set (my_name ctx)" and "length (my_name ctx) < 128"
  shows "\<exists>h ys w'. udp_client_proc net ctx w = Some (ctx\<lparr>mem := h\<rparr>, w') \<and> topo_ok (ctx\<lparr>mem := h\<rparr>) ys
     \<and> map node_key ys = map node_key sxs
     \<and> (\<forall>k n n'. contents sxs k = Some n \<longrightarrow> contents ys k = Some n' \<longrightarrow> same_addr n n')"
proof -
  have reply: "reply = reply_text (infos sxs)" and len: "length reply < TOPO_MAX_BUFFER"
    using assms(3) reply_ok [OF assms(1)] by (auto simp: reply_text_def TOPO_MAX_BUFFER_def split: if_splits)
  let ?line = "\<lambda>n. butlast (reply_line n (mgnt_port n))"
  have line: "reply_line n (mgnt_port n) = ?line n @ [newline]" for n by (simp add: reply_line_def butlast_append)
  have clean: "newline \<notin> set (?line n) \<and> nul \<notin> set (?line n) \<and> ?line n \<noteq> []" if "n \<in> set (infos sxs)" for n
    using assms(2) that clean_line by blast
  have body: "reply = concat (map (\<lambda>l. l @ [newline]) (map ?line (infos sxs)))"
    unfolding reply reply_text_def by (simp only: map_map comp_def line [symmetric])
  have "nul \<notin> set reply" using clean unfolding body by (auto simp: nul_def newline_def)
  then have c: "cstr reply = reply" by (rule cstr_id)
  have "tokens newline reply = map ?line (infos sxs)"
    unfolding body using clean by (intro tokens_concat_lines) auto
  then have tok: "tokens newline (cstr reply) = map ?line (infos sxs)" by (simp only: c)
  let ?ps = "map assoc_fields (infos sxs)"
  have parse: "parse_omp (?line n) = Some (assoc_fields n)" if "n \<in> set (infos sxs)" for n
  proof -
    have "wire_ok n" using assms(2) that by blast
    then show ?thesis using parse_reply_line [of n] by (simp add: parse_omp_def)
  qed
  have ps: "parsed_lines (tokens newline (cstr reply)) = ?ps"
    unfolding tok parsed_lines_def using parse by (induction sxs) (simp_all add: map_filter_simps)
  have names: "map name ?ps = map node_key sxs"
    using assms(1) by (auto simp: topo_ok_def topo_rep_def assoc_fields_def)
  obtain h ys w' where r: "udp_client_proc net ctx w = Some (ctx\<lparr>mem := h\<rparr>, w')" "topo_ok (ctx\<lparr>mem := h\<rparr>) ys"
      "contents ys = sync_map ?ps (contents xs)"
    using topo_client_round [OF assms(4,5) len assms(6-8)] unfolding ps Let_def by blast
  have "set (map node_key ys) = set (map node_key sxs)"
    using dom_sync_map [of ?ps "contents xs"] arg_cong [OF names, of set] unfolding r(3) [symmetric]
    by (simp add: dom_map_of_conv_image_fst image_image)
  moreover have "sorted_wrt (<) (map node_key ys)" "sorted_wrt (<) (map node_key sxs)"
    using r(2) assms(1) topo_rep_sorted unfolding topo_ok_def by blast+
  ultimately have keys: "map node_key ys = map node_key sxs" using strict_sorted_equal by blast
  have d: "distinct (map name ?ps)" unfolding names by (rule topo_ok_distinct [OF assms(1)])
  have "same_addr n n'" if "contents sxs k = Some n" "contents ys k = Some n'" for k n n'
  proof -
    have "n \<in> set (infos sxs)" "name n = k"
      using that(1) contents_iff [OF topo_ok_distinct [OF assms(1)]] topo_rep_name [of server sxs] assms(1)
      by (force simp: topo_ok_def)+
    then have "assoc_fields n \<in> set ?ps" "name (assoc_fields n) = k"
      by (simp_all only: set_map [of assoc_fields] imageI) (simp add: assoc_fields_def)
    then have "\<exists>q. contents ys k = Some q \<and> same_addr q (assoc_fields n)"
      using sync_map_addr [OF d, of "assoc_fields n" "contents xs"] unfolding r(3) by blast
    then show ?thesis using that(2) by (auto simp: same_addr_def assoc_fields_def)
  qed
  with r keys show ?thesis by blast
qed

lemma ex_reply: "assoc_info_reply_msg (ex_ctx r) [] = Some (reply_line ex_node (mgnt_port ex_node))"
  by (subst reply_ok [OF ex_ok])
    (simp add: reply_text_def reply_line_def ex_node_def zero_node_def TOPO_MAX_BUFFER_def newline_def)

theorem topo_replication_witness:
  "\<exists>h ys. topo_ok ((ex_ctx CR_CLIENT)\<lparr>mem := h\<rparr>) ys \<and> map node_key ys = map node_key [(2::nat, ''OMP'', ex_node)]"
proof -
  have "wire_ok ex_node"
    by (simp add: wire_ok_def field_ok_def word_ok_def ex_node_def zero_node_def newline_def nul_def isspace_def)
  then have w: "\<forall>n \<in> set (infos [(2::nat, ''OMP'', ex_node)]). wire_ok n" by simp
  show ?thesis
    using topo_replication [OF ex_ok [of CR_SERVER] w ex_reply ex_ok [of CR_CLIENT] ex_answered ex_data(1) ex_name] by blast
qed

section \<open>A registration at the server\<close>

text \<open>C4: A registration that parses and has no line break (a line break would be stored in a field and split
  the line of the node in every reply) is merged into the node list (added, refreshed, or replaced with the old
  management port kept), the tables are written and the other process notified when the list changed,
  and the whole list is sent back to the client from the address the registration was sent to.  When
  the text of the list does not fit the reply buffer of 10240 bytes, the handler overruns it.\<close>

theorem topo_registration:
  assumes "topo_ok ctx xs" and "length xs < 10240" and "delivered s bytes from dst"
    and "length bytes < TOPO_MAX_BUFFER" and "newline \<notin> set bytes"
    and "assoc_info_get_from_pod (cstr bytes) = (0, p)"
    and "nul \<notin> set (my_name ctx)" and "length (my_name ctx) < 128"
    and "data_path (sys w) ''/data/associate_config'' = Some path" and "data_path (sys w) ''/data/node_info'' = Some path'"
  shows "\<exists>h ys msg. topo_ok (ctx\<lparr>mem := h\<rparr>) ys \<and> contents ys = snd (merge_pod tm p (contents xs))
     \<and> udp_server_proc s tm ctx w =
        (if length (reply_text (infos ys)) < TOPO_MAX_BUFFER
         then Some (ctx\<lparr>mem := h\<rparr>,
            let w' = registered path path' (MTYPE_RELOAD_CONFIG_DATA, msg) (fst (merge_pod tm p (contents xs))) (infos ys) w;
            m = answer (reply_text (infos ys)) from dst
            in w'\<lparr>datagrams := datagrams w @ (if send_res s m < 0 then [] else [m])\<rparr>)
         else None)"
proof -
  obtain msg where n: "notify_to_ixpc ctx = Some (MTYPE_RELOAD_CONFIG_DATA, msg)"
    using notify_fields [OF assms(7,8)] by blast
  have buf: "cstr_of_buf TOPO_MAX_BUFFER (take TOPO_MAX_BUFFER bytes) = Some (cstr bytes)"
    using assms(4) by (rule whole_buffer)
  have nl: "newline \<notin> set (cstr bytes)" using assms(5) by (auto simp: cstr_def dest: set_takeWhileD)
  show ?thesis using server_round [OF assms(1-3) buf nl assms(6) n assms(9,10), of tm] by blast
qed

definition ex_registration :: string where "ex_registration = ''FEP|MP|LMF|1.2|3.4|0x10|N|P-0''"

lemma ex_parse: "assoc_info_get_from_pod ex_registration = (0, zero_node\<lparr>name := ''FEP'', ntype := ''MP'', group := ''LMF'',
    mgnt_pri_ip := ''1.2'', serv_pri_ip := ''3.4'', mgnt_port := ''0x10'', node_name := ''N'', pod_name := ''P-0'',
    mgnt_sec_ip := ''NULL'', serv_sec_ip := ''NULL''\<rparr>)"
  using parse_pod_line [of "''FEP''" "''MP''" "''LMF''" "''1.2''" "''3.4''" "''0x10''" "''N''" "''P-0''"]
  by (simp add: pod_line_def ex_registration_def field_ok_def word_ok_def newline_def nul_def isspace_def)

lemma ex_bytes: "length ex_registration < TOPO_MAX_BUFFER" "newline \<notin> set ex_registration" "cstr ex_registration = ex_registration"
  by (simp_all add: ex_registration_def TOPO_MAX_BUFFER_def newline_def cstr_def nul_def)

theorem topo_registration_witness:
  "\<exists>h ys. topo_ok ((ex_ctx CR_SERVER)\<lparr>mem := h\<rparr>) ys \<and> dom (contents ys) = {''OMP'', ''FEP''}"
proof -
  obtain p where p: "assoc_info_get_from_pod (cstr ex_registration) = (0, p)" "name p = ''FEP''"
    using ex_parse ex_bytes(3) by simp
  have m: "dom (snd (merge_pod 5 p (contents [(2::nat, ''OMP'', ex_node)]))) = {''OMP'', ''FEP''}"
    using p(2) by (simp add: merge_pod_def Let_def insert_commute)
  obtain h ys where r: "topo_ok ((ex_ctx CR_SERVER)\<lparr>mem := h\<rparr>) ys"
      "contents ys = snd (merge_pod 5 p (contents [(2, ''OMP'', ex_node)]))"
    using topo_registration [OF ex_ok [of CR_SERVER] ex_len(1) ex_delivered ex_bytes(1,2) p(1) ex_name ex_data, of 5]
    by (elim exE conjE) (rule that)
  show ?thesis by (intro exI [of _ h] exI [of _ ys] conjI r(1)) (simp only: r(2) m)
qed

lemma reply_text_bound:
  "\<forall>n \<in> set ns. short_fields (node_fields n) \<Longrightarrow> length (reply_text ns) \<le> 1280 * length ns"
  by (induction ns) (auto simp: reply_text_def reply_line_def node_fields_def assoc_values_def)

text \<open>With at most six nodes in its list a server survives every datagram of fewer than 10240 bytes
  without a line break, whoever sends it.\<close>

theorem topo_small_cluster:
  assumes "topo_ok ctx xs" and "length xs \<le> 6" and "delivered s bytes from dst"
    and "length bytes < TOPO_MAX_BUFFER" and "newline \<notin> set bytes"
    and "nul \<notin> set (my_name ctx)" and "length (my_name ctx) < 128"
    and "data_path (sys w) ''/data/associate_config'' = Some path" and "data_path (sys w) ''/data/node_info'' = Some path'"
  shows "\<exists>ctx' w' ys. udp_server_proc s tm ctx w = Some (ctx', w') \<and> topo_ok ctx' ys \<and> length ys \<le> length xs + 1"
proof (cases "fst (assoc_info_get_from_pod (cstr bytes)) < 0")
  case True
  have buf: "cstr_of_buf TOPO_MAX_BUFFER (take TOPO_MAX_BUFFER bytes) = Some (cstr bytes)"
    using assms(4) by (rule whole_buffer)
  obtain pt where "udp_recv_fromto s TOPO_MAX_BUFFER (Some SIN_LEN) = Some (int (length (take TOPO_MAX_BUFFER bytes)),
      Some \<lparr>rcv_data = take TOPO_MAX_BUFFER bytes, rcv_from = from, rcv_from_len = SIN_LEN, rcv_to = Some (Sin pt dst, SIN_LEN)\<rparr>)"
    using delivered_recv [OF assms(3)] by blast
  then have "udp_server_proc s tm ctx w = Some (ctx, w)"
    using buf pod_send_info_bad [OF True] by (simp add: udp_server_proc_def)
  then show ?thesis using assms(1) by fastforce
next
  case False
  have buf: "cstr_of_buf TOPO_MAX_BUFFER (take TOPO_MAX_BUFFER bytes) = Some (cstr bytes)"
    using assms(4) by (rule whole_buffer)
  have nl: "newline \<notin> set (cstr bytes)" using assms(5) by (auto simp: cstr_def dest: set_takeWhileD)
  obtain m where n: "notify_to_ixpc ctx = Some (MTYPE_RELOAD_CONFIG_DATA, m)"
    using notify_fields [OF assms(6,7)] by blast
  from False obtain p where p: "assoc_info_get_from_pod (cstr bytes) = (0, p)"
    by (auto simp: assoc_info_get_from_pod_def Let_def split: prod.splits if_splits)
  obtain h ys v where r: "topo_ok (ctx\<lparr>mem := h\<rparr>) ys" "contents ys = snd (merge_pod tm p (contents xs))"
      "udp_server_proc s tm ctx w = (if length (reply_text (infos ys)) < TOPO_MAX_BUFFER then Some (ctx\<lparr>mem := h\<rparr>, v) else None)"
    using server_round [OF assms(1) _ assms(3) buf nl p n assms(8,9), of tm] assms(2) by auto
  have "length ys \<le> length xs + 1" by (rule merge_pod_length [OF assms(1) r(1,2)])
  moreover from this have "length (reply_text (infos ys)) < TOPO_MAX_BUFFER"
    using reply_text_bound [of "infos ys"] r(1) assms(2) by (simp add: topo_ok_def TOPO_MAX_BUFFER_def)
  ultimately show ?thesis using r by auto
qed

theorem topo_small_cluster_witness: "\<exists>ctx' w'. udp_server_proc (ex_sock ''junk'') 5 (ex_ctx CR_SERVER) ex_io = Some (ctx', w')"
proof -
  have "length ''junk'' < TOPO_MAX_BUFFER" "newline \<notin> set ''junk''" by (simp_all add: TOPO_MAX_BUFFER_def newline_def)
  from topo_small_cluster [OF ex_ok [of CR_SERVER] ex_len(2) ex_delivered this ex_name ex_data, of 5] show ?thesis by blast
qed

text \<open>C31: The answer to a datagram on an IPv4 socket goes to its sender and carries as source address the
  address the datagram was sent to, whatever other control blocks come before it; at most the size
  of the buffer is taken from the datagram.\<close>

theorem udp_answer_source:
  assumes "sock_name s = Some (Sin port a)" and "arriving s = Inr (bytes, Sin fp fa, replicate k Other_cmsg @ Pktinfo dst # cs)"
  shows "\<exists>r. udp_recv_fromto s len (Some SIN_LEN) = Some (int (min (length bytes) len), Some r)
     \<and> rcv_data r = take len bytes
     \<and> udp_send_fromto s reply (map_option fst (rcv_to r)) (rcv_from_len r) (rcv_from r) =
        (send_res s (answer reply (Sin fp fa) dst),
         if send_res s (answer reply (Sin fp fa) dst) < 0 then None else Some (answer reply (Sin fp fa) dst))"
proof -
  have "scan_cmsgs (replicate k Other_cmsg @ Pktinfo dst # cs) (Sin port a) SIN_LEN = Some (Sin port dst, SIN_LEN)"
    by (induction k) (simp_all add: put_sin_addr_def)
  then have "delivered s bytes (Sin fp fa) dst" using assms by (simp add: delivered_def)
  from delivered_recv [OF this, of len] show ?thesis by (auto simp: answer_send min_def)
qed

theorem udp_answer_source_witness:
  "\<exists>r. udp_recv_fromto (ex_sock ''abc'') 2 (Some SIN_LEN) = Some (2, Some r) \<and> rcv_data r = ''ab''"
  using udp_answer_source [of "ex_sock ''abc''" 8000 0 "''abc''" 4000 7 1 9 "[]" 2 "[]"]
  by (auto simp: ex_sock_def)

section \<open>The tick\<close>

text \<open>C13: A tick of the server removes exactly the nodes that registered and have been silent for 60 seconds
  or more, writes both tables when it removed one, and never removes a node without a heartbeat, such
  as the server itself.\<close>

theorem topo_tick:
  assumes "topo_ok ctx xs" and "role ctx = CR_SERVER" and "length xs \<le> 10240"
    and "data_path (sys w) ''/data/associate_config'' = Some path" and "data_path (sys w) ''/data/node_info'' = Some path'"
  shows "\<exists>h ys. let w1 = w\<lparr>beats := beats w + 1\<rparr> in
     main_tick tm ctx w = Some (ctx\<lparr>mem := h\<rparr>,
       if length ys = length xs then w1 else node_written path' (infos ys) (assoc_written path (infos ys) w1))
     \<and> topo_ok (ctx\<lparr>mem := h\<rparr>) ys
     \<and> infos ys = filter (\<lambda>n. heartbeat_tm n = 0 \<or> tm - heartbeat_tm n < 60) (infos xs)"
proof -
  let ?ys = "filter (\<lambda>(a, k, n). \<not> stale tm n) xs" and ?w = "w\<lparr>beats := beats w + 1\<rparr>"
  have inf: "infos ?ys = filter (\<lambda>n. heartbeat_tm n = 0 \<or> tm - heartbeat_tm n < 60) (infos xs)"
    by (induction xs) (auto simp: stale_def ASSOC_CLEAR_TM_def)
  have len: "length ?ys + length (filter (\<lambda>(a, k, n). stale tm n) xs) = length xs"
    by (induction xs) auto
  obtain h where h: "assoc_info_cleanup ctx tm =
       Some (int (length (filter (\<lambda>(a, k, n). stale tm n) xs)), ctx\<lparr>mem := h\<rparr>)" "topo_ok (ctx\<lparr>mem := h\<rparr>) ?ys"
    using cleanup_ok [OF assms(1)] by blast
  show ?thesis
  proof (cases "length ?ys = length xs")
    case True
    with h len inf assms(2) show ?thesis
      unfolding Let_def by (intro exI [of _ h] exI [of _ ?ys]) (simp add: main_tick_def Let_def)
  next
    case False
    have "length ?ys \<le> 10240" "data_path (sys ?w) ''/data/associate_config'' = Some path"
      using len assms(3,4) by simp_all
    from print_assoc_rep [OF h(2) this] obtain h' where
      h': "print_assoc (ctx\<lparr>mem := h\<rparr>) ?w = Some (ctx\<lparr>mem := h'\<rparr>, assoc_written path (infos ?ys) ?w)"
        "topo_ok (ctx\<lparr>mem := h'\<rparr>) ?ys" by auto
    have "node_info_print (ctx\<lparr>mem := h'\<rparr>) (sys (assoc_written path (infos ?ys) ?w)) =
        Some (sys (node_written path' (infos ?ys) (assoc_written path (infos ?ys) ?w)))"
      using assms(5) by (intro node_print_ok [OF h'(2)]) simp
    moreover have "filter (\<lambda>(a, k, n). stale tm n) xs \<noteq> []" using False len by auto
    ultimately have "main_tick tm ctx w =
        Some (ctx\<lparr>mem := h'\<rparr>, node_written path' (infos ?ys) (assoc_written path (infos ?ys) ?w))"
      using h(1) h'(1) assms(2) by (simp add: main_tick_def node_written_def Let_def del: bind_Some_iff)
    with False inf h'(2) show ?thesis unfolding Let_def by (intro exI [of _ h'] exI [of _ ?ys]) simp
  qed
qed

theorem topo_tick_witness:
  "\<exists>h ys. topo_ok ((ex_ctx CR_SERVER)\<lparr>mem := h\<rparr>) ys \<and> infos ys = [ex_node]"
proof -
  have "role (ex_ctx CR_SERVER) = CR_SERVER" "length [(2::nat, ''OMP'', ex_node)] \<le> 10240" by (simp_all add: ex_ctx_def)
  from topo_tick [OF ex_ok this ex_data, of 1000] obtain h ys where
    r: "topo_ok ((ex_ctx CR_SERVER)\<lparr>mem := h\<rparr>) ys"
      "infos ys = filter (\<lambda>n. heartbeat_tm n = 0 \<or> 1000 - heartbeat_tm n < 60) (infos [(2::nat, ''OMP'', ex_node)])"
    unfolding Let_def by (elim exE conjE) (rule that)
  have "infos ys = [ex_node]" unfolding r(2) by (simp add: ex_node_def zero_node_def)
  with r(1) show ?thesis by (intro exI conjI)
qed

section \<open>The outputs\<close>

text \<open>C17: The association table is written to its file below the banner and to the error stream: one head
  row and one row for each node, in the order of the names; but a node with the column separator in
  one of its fields has no row.\<close>

theorem topo_assoc_table:
  assumes "topo_ok ctx xs" and "length xs \<le> 10240" and "data_path w ''/data/associate_config'' = Some path"
    and "can_write w path"
  shows "\<exists>h w'. assoc_info_print ctx w = Some (ctx\<lparr>mem := h\<rparr>, w') \<and> topo_ok (ctx\<lparr>mem := h\<rparr>) xs
     \<and> (let table = lay_text (properties UNPADDED_TABLE) [] (assoc_head_cells #
            map assoc_cells (filter (\<lambda>n. \<forall>s \<in> set (assoc_values n). CHR ''|'' \<notin> set s) (infos xs)))
        in files w' path = Some (''[ASSOCIATE_SYSTEMS]'' @ [newline] @ table) \<and> stderr_text w' = stderr_text w @ table)"
proof -
  have sv: "\<forall>n \<in> set (infos xs). short_fields (assoc_values n)" using assms(1) short_values(1) by (simp add: topo_ok_def)
  have "barless (assoc_cells n) = (\<forall>s \<in> set (assoc_values n). CHR ''|'' \<notin> set s)" for n
    by (simp add: barless_def assoc_cells_def assoc_values_def)
  then have t: "assoc_table (infos xs) = lay_text (properties UNPADDED_TABLE) [] (assoc_head_cells #
      map assoc_cells (filter (\<lambda>n. \<forall>s \<in> set (assoc_values n). CHR ''|'' \<notin> set s) (infos xs)))"
    by (simp only: assoc_table_def assoc_rows_of_def filter_map comp_def)
  have rep: "topo_rep ctx xs" using assms(1) by (simp add: topo_ok_def)
  obtain h where "assoc_info_print ctx w = Some (ctx\<lparr>mem := h\<rparr>,
       print_stderr (fopen_cmd w path ''[ASSOCIATE_SYSTEMS]'' (assoc_table (infos xs))) (assoc_table (infos xs)))"
      "topo_rep (ctx\<lparr>mem := h\<rparr>) xs"
    using assoc_print_rep [OF rep sv assms(2,3)] by blast
  moreover from this(2) have "topo_ok (ctx\<lparr>mem := h\<rparr>) xs" using assms(1) by (simp add: topo_ok_def)
  ultimately show ?thesis
    unfolding t Let_def using assms(4)
    by (intro exI [of _ h] exI conjI) (assumption+, simp_all add: print_stderr_def fopen_cmd_def)
qed

theorem topo_assoc_table_witness:
  "\<exists>h w'. assoc_info_print (ex_ctx CR_SERVER) ex_os = Some ((ex_ctx CR_SERVER)\<lparr>mem := h\<rparr>, w')"
proof -
  have "length [(2::nat, ''OMP'', ex_node)] \<le> 10240" "can_write ex_os ''/data/associate_config''" by (simp_all add: ex_os_def)
  from topo_assoc_table [OF ex_ok [of CR_SERVER] this(1) ex_paths(1) this(2)] show ?thesis by blast
qed



text \<open>C32: The notification names the system and the two applications when the name of the system has fewer
  than 16 characters.  A longer name overruns its field: the reader finds its first 16 characters
  followed by the name of the application.\<close>

theorem topo_notify_names:
  assumes "nul \<notin> set (my_name ctx)" and "length (my_name ctx) < 128"
  shows "\<exists>m. notify_to_ixpc ctx = Some (84, m) \<and> length m = IXPC_HEAD_LEN
     \<and> name_at m srcAppName = ''TOPO'' \<and> name_at m dstAppName = ''IXPC''
     \<and> name_at m srcSysName = (if length (my_name ctx) < 16 then my_name ctx else take 16 (my_name ctx) @ ''TOPO'')
     \<and> name_at m dstSysName = (if length (my_name ctx) < 16 then my_name ctx else take 16 (my_name ctx) @ ''IXPC'')"
  using notify_fields [OF assms] by (simp add: MTYPE_RELOAD_CONFIG_DATA_def)

theorem topo_notify_names_witness:
  "\<exists>m. notify_to_ixpc (zero_ctx\<lparr>my_name := ''k8s-test-downward''\<rparr>) = Some (84, m)
     \<and> name_at m srcSysName = ''k8s-test-downwarTOPO''"
  using topo_notify_names [of "zero_ctx\<lparr>my_name := ''k8s-test-downward''\<rparr>"] by (auto simp: nul_def)

section \<open>The start\<close>

text \<open>The start of a client: the pod with index i of a set is called by the label with the number
  i + 1 behind it and listens on the base port plus i + 1, so that pods of one set never
  share a name or a port; the node list is empty.\<close>

theorem topo_client_names:
  assumes "getenv w ''MY_NODE_NAME'' = Some nn" and "getenv w ''MY_NODE_IP'' = Some nip" and "getenv w ''MY_POD_IP'' = Some pip"
    and "getenv w ''MY_POD_NAME'' = Some (s @ CHR ''-'' # sprintf_d (int i))"
    and "first_line w ''/label_conf/name'' lbl" and "first_line w ''/label_conf/type'' ty"
    and "first_line w ''/label_conf/group'' gr"
    and "first_line w ''/label_conf/ixpc_base_port'' (''0x'' @ sprintf_X (int p))"
    and "p + i + 1 < 2 ^ 31" and "mem ctx0 = empty_heap"
  shows "\<exists>ctx. init_omp_client ctx0 w = Some (0, ctx) \<and> my_name ctx = lbl @ ''_'' @ sprintf_d (int (i + 1))
     \<and> my_port ctx = ''0x'' @ sprintf_X (int (p + i + 1)) \<and> strtol16 (drop 2 (my_port ctx)) = int (p + i + 1)
     \<and> my_type ctx = ty \<and> my_group ctx = gr \<and> topo_ok ctx []"
  using client_names [OF assms] by blast

definition ex_pod_os :: os where
  "ex_pod_os = ex_os\<lparr>env := [''MY_NODE_NAME'' \<mapsto> ''node'', ''MY_NODE_IP'' \<mapsto> ''1.2'', ''MY_POD_IP'' \<mapsto> ''3.4'',
       ''MY_POD_NAME'' \<mapsto> ''fep-1'', ''EMS_TOPO_ADDR'' \<mapsto> ''omp:8000'', ''IV_HOME'' \<mapsto> ''/home''],
     files := [''/label_conf/name'' \<mapsto> ''FEP'' @ [newline], ''/label_conf/type'' \<mapsto> ''MP'' @ [newline],
       ''/label_conf/group'' \<mapsto> ''LMF'' @ [newline], ''/label_conf/ixpc_base_port'' \<mapsto> ''0x1F40'' @ [newline]]\<rparr>"

lemma ex_digits: "sprintf_d (int 1) = ''1''" "sprintf_d (int (1 + 1)) = ''2''" "sprintf_X (int 8000) = ''1F40''"
proof -
  have "sprintf_d 1 = ''1''" "sprintf_d 2 = ''2''" "sprintf_X 8000 = ''1F40''"
    by (simp_all add: sprintf_d_def sprintf_X_def nat_base.simps hex_digit_def char_of_def bit_0)
  then show "sprintf_d (int 1) = ''1''" "sprintf_d (int (1 + 1)) = ''2''" "sprintf_X (int 8000) = ''1F40''" by simp_all
qed

lemma ex_pod_files: "first_line ex_pod_os ''/label_conf/name'' ''FEP''" "first_line ex_pod_os ''/label_conf/type'' ''MP''"
  "first_line ex_pod_os ''/label_conf/group'' ''LMF''"
  "first_line ex_pod_os ''/label_conf/ixpc_base_port'' (''0x'' @ sprintf_X (int 8000))"
  unfolding ex_digits by (simp_all add: first_line_def ex_pod_os_def newline_def nul_def)

theorem topo_client_names_witness:
  "\<exists>ctx. init_omp_client zero_ctx ex_pod_os = Some (0, ctx) \<and> my_name ctx = ''FEP_2'' \<and> strtol16 (drop 2 (my_port ctx)) = 8002"
proof -
  have e: "getenv ex_pod_os ''MY_NODE_NAME'' = Some ''node''" "getenv ex_pod_os ''MY_NODE_IP'' = Some ''1.2''"
    "getenv ex_pod_os ''MY_POD_IP'' = Some ''3.4''"
    "getenv ex_pod_os ''MY_POD_NAME'' = Some (''fep'' @ CHR ''-'' # sprintf_d (int 1))"
    unfolding ex_digits by (simp_all add: getenv_def ex_pod_os_def)
  have p: "(8000::nat) + 1 + 1 < 2 ^ 31" "mem zero_ctx = empty_heap" by (simp_all add: zero_ctx_def)
  from topo_client_names [OF e ex_pod_files p] show ?thesis unfolding ex_digits by auto
qed

text \<open>C27: A successful start is that of a server exactly when MY_SYS_NAME is "omp" in any case.  The list of a
  server whose label and address have no line break is well formed and has one node OMP, with that label
  and address; the list of a client is empty.\<close>

theorem topo_server_start:
  assumes "initialize se zero_ctx w = Some (0, ctx, w')"
    and "role ctx = CR_SERVER \<Longrightarrow> newline \<notin> set (mp_label ctx) \<and> newline \<notin> set (omp_ip ctx)"
  shows "(role ctx = CR_SERVER) = (\<exists>s. getenv w ''MY_SYS_NAME'' = Some s \<and> strcaseeq s ''omp'')
     \<and> (\<exists>xs. topo_ok ctx xs \<and> (if role ctx = CR_SERVER
         then \<exists>n. contents xs = [''OMP'' \<mapsto> n] \<and> omp_node ctx = Some n \<and> getenv w ''MY_SYS_NAME'' = Some (my_name ctx)
         else xs = []))"
proof -
  have "(role_of v = CR_SERVER) = (\<exists>s. v = Some s \<and> strcaseeq s ''omp'')" for v
    by (auto simp: role_of_def split: option.splits)
  then show ?thesis using initialize_started [OF assms] by metis
qed

definition ex_env :: topo_env where
  "ex_env = \<lparr>keepalivelib_init = 0, commlib_crteMsgQ = (\<lambda>_ _. 1), omp_socket = 3, reuse_result = 0,
     omp_sock = ex_sock [], bind_result = 0, event_add = (\<lambda>_. 0)\<rparr>"

lemma ex_main:
  obtains ctx where "topo_main ex_env ex_pod_os = Some (Some (ctx, ex_pod_os, [Ev_tick, Ev_udp_snd_rcv]))"
    and "role ctx = CR_CLIENT"
proof -
  have e: "getenv ex_pod_os ''MY_NODE_NAME'' = Some ''node''" "getenv ex_pod_os ''MY_NODE_IP'' = Some ''1.2''"
    "getenv ex_pod_os ''MY_POD_IP'' = Some ''3.4''"
    "getenv ex_pod_os ''MY_POD_NAME'' = Some (''fep'' @ CHR ''-'' # sprintf_d (int 1))"
    unfolding ex_digits by (simp_all add: getenv_def ex_pod_os_def)
  have g: "getenv ex_pod_os ''MY_SYS_NAME'' = None" "getenv ex_pod_os ''EMS_TOPO_ADDR'' = Some ''omp:8000''"
    "sysconf_file ex_pod_os = Some ''/home/data/sysconfig''"
    by (simp_all add: getenv_def sysconf_file_def ex_pod_os_def)
  let ?c = "zero_ctx\<lparr>ems_topo_addr := Some ''omp:8000'', my_sys_name := None,
     omp_ip := scanned (snd (sscanf fmt_addr ''omp:8000'' [])) 0,
     base_port := atoi (scanned (snd (sscanf fmt_addr ''omp:8000'' [])) 1), ixpcQid := 1, role := CR_CLIENT\<rparr>"
  have p: "(8000::nat) + 1 + 1 < 2 ^ 31" "mem ?c = empty_heap" by (simp_all add: zero_ctx_def)
  obtain ctx where ctx: "init_omp_client ?c ex_pod_os = Some (0, ctx)" "role ctx = CR_CLIENT"
    using client_names [OF e ex_pod_files p] by auto
  have "initialize ex_env zero_ctx ex_pod_os = Some (0, ctx, ex_pod_os)"
    using ctx(1) by (simp add: initialize_def ex_env_def g role_of_def case_prod_unfold Let_def del: sscanf.simps bind_Some_iff)
  then have "topo_main ex_env ex_pod_os = Some (Some (ctx, ex_pod_os, [Ev_tick, Ev_udp_snd_rcv]))"
    using ctx(2) by (simp add: topo_main_def proc_start_def ex_env_def del: bind_Some_iff)
  with ctx(2) that show thesis by blast
qed

text \<open>A server at 10.0.0.9 whose configuration has the label EMS.\<close>

definition ex_server_os :: os where
  "ex_server_os = ex_os\<lparr>env := [''EMS_TOPO_ADDR'' \<mapsto> ''10.0.0.9:8000'', ''MY_SYS_NAME'' \<mapsto> ''OMP'', ''IV_HOME'' \<mapsto> ''/home''],
     shell := (\<lambda>_. Some (''EMS'' @ [newline]))\<rparr>"

lemma ex_server:
  obtains ctx w' where "initialize ex_env zero_ctx ex_server_os = Some (0, ctx, w')" and "role ctx = CR_SERVER"
    and "mp_label ctx = ''EMS''" and "omp_ip ctx = ''10.0.0.9''"
proof -
  have e: "getenv ex_server_os ''EMS_TOPO_ADDR'' = Some ''10.0.0.9:8000''" "getenv ex_server_os ''MY_SYS_NAME'' = Some ''OMP''"
    "sysconf_file ex_server_os = Some ''/home/data/sysconfig''"
    "data_path ex_server_os ''/data/associate_config'' = Some ''/home/data/associate_config''"
    by (simp_all add: getenv_def sysconf_file_def data_path_def ex_server_os_def)
  have p: "popen_cmd ex_server_os cmd [] 127 = (3, ''EMS'')" for cmd
    by (simp add: popen_cmd_def ex_server_os_def fgets_def strtok_trim_def cstr_def newline_def nul_def numeral_eq_Suc)
  have r: "role_of (Some ''OMP'') = CR_SERVER" by code_simp
  have a: "scanned (snd (sscanf fmt_addr ''10.0.0.9:8000'' [])) 0 = ''10.0.0.9''" by code_simp
  let ?c = "zero_ctx\<lparr>ems_topo_addr := Some ''10.0.0.9:8000'', my_sys_name := Some ''OMP'', omp_ip := ''10.0.0.9'',
     base_port := atoi (scanned (snd (sscanf fmt_addr ''10.0.0.9:8000'' [])) 1), ixpcQid := 1, role := CR_SERVER,
     mp_label := ''EMS'', my_name := ''OMP''\<rparr>"
  have l: "mp_label zero_ctx = []" "mem ?c = empty_heap" "mp_label ?c = ''EMS''" "omp_ip ?c = ''10.0.0.9''"
    by (simp_all add: zero_ctx_def)
  obtain n where n: "omp_node ?c = Some n" using l by (simp add: omp_node_def)
  have short: "short_fields (node_fields n)" "name n = ''OMP''"
    using omp_node_short [OF n] l by (simp_all add: newline_def)
  obtain h1 where c1: "new_list ?c = Some (?c\<lparr>node_list := 1, mem := h1\<rparr>)" "topo_rep (?c\<lparr>node_list := 1, mem := h1\<rparr>) []"
    using new_list_rep [OF l(2)] by blast
  let ?c1 = "?c\<lparr>node_list := 1, mem := h1\<rparr>"
  obtain h2 xs where c2: "add_new_node ?c1 (mem ?c1) n = Some (?c1\<lparr>mem := h2\<rparr>)" "topo_rep (?c1\<lparr>mem := h2\<rparr>) xs"
    "contents xs = [name n \<mapsto> n]"
    using add_new_node_rep [OF c1(2), of n] by auto
  have inf: "set (infos xs) = {n}" using ran_contents [OF topo_rep_distinct [OF c2(2)]] c2(3) by simp
  have "card (dom (contents xs)) = length xs" using topo_rep_distinct [OF c2(2)] by (rule card_contents)
  then have len: "length xs \<le> 10240" using c2(3) by simp
  have ok: "\<forall>n \<in> set (infos xs). short_fields (assoc_values n)" using inf short_values(1) [OF short(1)] by simp
  obtain h3 w' where c3: "assoc_info_print (?c1\<lparr>mem := h2\<rparr>) ex_server_os = Some (?c1\<lparr>mem := h3\<rparr>, w')"
    using assoc_print_rep [OF c2(2) ok len e(4)] by auto
  let ?ctx = "?c1\<lparr>mem := h3, omp_sockfd := 3\<rparr>"
  have "initialize ex_env zero_ctx ex_server_os = Some (0, ?ctx, w')"
    using n c1(1) c2(1) c3
    by (simp add: initialize_def init_omp_server_def ex_env_def e r a l(1) p Let_def case_prod_unfold udp_fromto_init_def ex_sock_def fits_def
        del: sscanf.simps bind_Some_iff)
  then show thesis using l by (intro that [of ?ctx w']) simp_all
qed

theorem topo_server_start_witness:
  "\<exists>ctx w' xs n. initialize ex_env zero_ctx ex_server_os = Some (0, ctx, w') \<and> topo_ok ctx xs
     \<and> contents xs = [''OMP'' \<mapsto> n] \<and> group n = ''EMS'' \<and> mgnt_pri_ip n = ''10.0.0.9''"
proof (rule ex_server)
  fix ctx w'
  assume i: "initialize ex_env zero_ctx ex_server_os = Some (0, ctx, w')" and c: "role ctx = CR_SERVER"
    "mp_label ctx = ''EMS''" "omp_ip ctx = ''10.0.0.9''"
  obtain xs n where x: "topo_ok ctx xs" "contents xs = [''OMP'' \<mapsto> n]" "omp_node ctx = Some n"
    using topo_server_start [OF i] c by (auto simp: newline_def)
  have "group n = ''EMS'' \<and> mgnt_pri_ip n = ''10.0.0.9''" using x(3) c by (auto simp: omp_node_def)
  with i x show ?thesis by blast
qed

text \<open>C1: Every state the manager reaches after a start, as server or as client and whatever the network does,
  has a well-formed node list: linked, sorted, without duplicates, every node under its own name and
  every string within its field; the role and the name never change.  (A registration with a line
  break inside is excluded, as are line breaks in the configured label and address.)\<close>

theorem topo_reachable:
  assumes "topo_main se w = Some (Some (ctx, w', evs))"
    and "role ctx = CR_SERVER \<Longrightarrow> newline \<notin> set (mp_label ctx) \<and> newline \<notin> set (omp_ip ctx)"
    and "reaches handle_event (\<lambda>e. event_of e \<in> set evs \<and> admitted e) (ctx, v) (ctx', v')"
  shows "\<exists>xs. topo_ok ctx' xs \<and> role ctx' = role ctx \<and> my_name ctx' = my_name ctx"
proof -
  have "topo_inv (role ctx) (my_name ctx) (ctx, v)"
    using initialize_started [OF main_started(1) [OF assms(1)] assms(2)] by (auto simp: topo_inv_def)
  moreover have "reaches handle_event admitted (ctx, v) (ctx', v')" by (rule reaches_mono [OF assms(3)]) simp
  ultimately show ?thesis using topo_loop.run_inv by (fastforce simp: topo_inv_def)
qed

theorem topo_reachable_witness:
  "\<exists>ctx ctx' v'. topo_main ex_env ex_pod_os = Some (Some (ctx, ex_pod_os, [Ev_tick, Ev_udp_snd_rcv]))
     \<and> reaches handle_event (\<lambda>e. event_of e \<in> set [Ev_tick, Ev_udp_snd_rcv] \<and> admitted e) (ctx, ex_io) (ctx', v')
     \<and> beats v' = 1 \<and> (\<exists>xs. topo_ok ctx' xs)"
proof (rule ex_main)
  fix ctx
  assume m: "topo_main ex_env ex_pod_os = Some (Some (ctx, ex_pod_os, [Ev_tick, Ev_udp_snd_rcv]))" "role ctx = CR_CLIENT"
  have "handle_event (Tick_at 7) (ctx, ex_io) = Some (ctx, ex_io\<lparr>beats := 1\<rparr>)"
    using m(2) by (simp add: main_tick_def ex_io_def)
  then have r: "reaches handle_event (\<lambda>e. event_of e \<in> set [Ev_tick, Ev_udp_snd_rcv] \<and> admitted e) (ctx, ex_io) (ctx, ex_io\<lparr>beats := 1\<rparr>)"
    by (intro reaches_event [OF reaches_start, of _ "Tick_at 7"]) simp_all
  have "\<exists>xs. topo_ok ctx xs" using topo_reachable [OF m(1) _ r] m(2) by auto
  with m(1) r show ?thesis by (intro exI [of _ ctx] exI [of _ "ex_io\<lparr>beats := 1\<rparr>"] conjI) simp_all
qed

end
