(* ===== verification/K8smgr.thy ===== *)
theory K8smgr
  imports Elem Util
begin

text \<open>
  The pod manager, \<open>src/src/k8smgr/main.c\<close>: the watch on the processes of the pod through
  the shared keepalive counters, the HTTP end points that report and force their state, the
  observation of the peer pod and the decision which label this pod carries.

  Functions of the keepalive and configuration libraries (binary only), of libevent and of the
  kernel are arguments.  A call that sends something is recorded: HTTP replies and outgoing HTTP
  requests are lists.  The table printed for \<open>/print/status\<close> is in the theory
  K8smgr\_Status.
\<close>

section \<open>State\<close>

definition SYSCONF_MAX_APPL_NUM :: nat where "SYSCONF_MAX_APPL_NUM = 75"
definition K8SMGR_HANG_INTVL :: int where "K8SMGR_HANG_INTVL = 3"
definition K8SMSG_HTTP_LISTEN :: int where "K8SMSG_HTTP_LISTEN = 32768"
definition K8S_SYS_NAMESPACE :: string where
  "K8S_SYS_NAMESPACE = ''/var/run/secrets/kubernetes.io/serviceaccount/namespace''"
definition MODE_ACTIVE :: int where "MODE_ACTIVE = 1"
definition MODE_STANDBY :: int where "MODE_STANDBY = 2"

text \<open>
  \<open>T_keepalive\<close>: three arrays in shared memory, one slot for each process.  The counters are \<open>int\<close>
  in the source and have no bound here: the beats are counted by the library, and \<open>retry\<close> would have to
  see the same counter 2147483648 times in a row, one check every three seconds, before it overflowed.
\<close>

record T_keepalive =
  cnt :: "int list"
  oldcnt :: "int list"
  retry :: "int list"

record proc_ctx =
  proc_name :: string
  keep_index :: nat
  alive_status :: int
  force_status :: int
  ev_check_status :: bool

record pod_info =
  pod_my_name :: string
  my_service_name :: string
  my_pod_namespace :: string
  peer_pod_url :: string
  peer_pod_start :: int
  peer_pod_ready :: int
  conf_as_mode :: string
  conf_my_side :: int
  k8s_service_host :: string
  k8s_service_port :: int
  k8s_acc_token :: string
  k8s_acc_token_bearer :: string

text \<open>The timers of the event loop; the first one carries the node it watches.\<close>

datatype timer = Check_proc addr | Tick | Check_peer | Update_label

datatype evhttp_cmd = EVHTTP_REQ_GET | EVHTTP_REQ_POST | EVHTTP_REQ_HEAD | EVHTTP_REQ_PUT
  | EVHTTP_REQ_DELETE | EVHTTP_REQ_OPTIONS | EVHTTP_REQ_TRACE | EVHTTP_REQ_CONNECT
  | EVHTTP_REQ_PATCH | EVHTTP_REQ_OTHER nat

record outgoing =
  out_tls :: bool
  out_host :: string
  out_port :: int
  out_cmd :: evhttp_cmd
  out_path :: string
  out_timeout :: int
  out_headers :: "(string \<times> string) list"
  out_body :: string

record mgr_ctx =
  force_not_ready :: int
  my_sys_status :: int
  pod :: pod_info
  proc_list :: addr
  procs :: "proc_ctx heap"
  keepalive :: T_keepalive
  ha_mode :: int
  timers :: "timer list"
  requests :: "outgoing list"
  stdout_text :: string

section \<open>The watch on one process\<close>

definition check_proc :: "T_keepalive \<Rightarrow> proc_ctx \<Rightarrow> (T_keepalive \<times> proc_ctx) option" where
  "check_proc ka p =
     (if keep_index p \<ge> SYSCONF_MAX_APPL_NUM then Some (ka, p)
      else do {
        let i = keep_index p;
        c \<leftarrow> idx (cnt ka) i;
        oc \<leftarrow> idx (oldcnt ka) i;
        r \<leftarrow> idx (retry ka) i;
        let ka = (if c \<noteq> oc then ka\<lparr>retry := (retry ka)[i := 0]\<rparr>
                  else ka\<lparr>retry := (retry ka)[i := r + 1]\<rparr>);
        let ka = ka\<lparr>oldcnt := (oldcnt ka)[i := c]\<rparr>;
        let p = (if force_status p > 0 then
                   (if force_status p < 5
                    then p\<lparr>force_status := force_status p + 1, alive_status := 0\<rparr>
                    else p\<lparr>force_status := 0\<rparr>)
                 else if retry ka ! i \<ge> K8SMGR_HANG_INTVL then p\<lparr>alive_status := 0\<rparr>
                 else p\<lparr>alive_status := 1\<rparr>);
        Some (ka, p)
      })"

definition check_proc_alive :: "mgr_ctx \<Rightarrow> addr \<Rightarrow> mgr_ctx option" where
  "check_proc_alive ctx arg = do {
     e \<leftarrow> deref (procs ctx) arg;
     p \<leftarrow> data e;
     (ka, p') \<leftarrow> check_proc (keepalive ctx) p;
     h \<leftarrow> set_data (procs ctx) arg p';
     Some (ctx\<lparr>keepalive := ka, procs := h\<rparr>)
   }"

section \<open>Creating the list of processes\<close>

text \<open>\<open>event_add\<close> says for each timer whether libevent accepts it.\<close>

definition create_proc_status_check ::
  "(timer \<Rightarrow> bool) \<Rightarrow> mgr_ctx \<Rightarrow> string \<Rightarrow> nat \<Rightarrow> (int \<times> mgr_ctx) option" where
  "create_proc_status_check event_add ctx pname kidx =
     (if kidx \<ge> SYSCONF_MAX_APPL_NUM then Some (-1, ctx)
      else do {
        r \<leftarrow> idx (retry (keepalive ctx)) kidx;
        let ka = (keepalive ctx)\<lparr>retry := (retry (keepalive ctx))[kidx := 0]\<rparr>;
        let p = \<lparr>proc_name = pname, keep_index = kidx, alive_status = 0, force_status = 0,
                 ev_check_status = False\<rparr>;
        let (node, h) = new_element (procs ctx) (Some pname) (Some p);
        a \<leftarrow> node;
        h1 \<leftarrow> set_data h a (p\<lparr>ev_check_status := True\<rparr>);
        let ctx1 = ctx\<lparr>keepalive := ka, procs := h1\<rparr>;
        if \<not> event_add (Check_proc a) then Some (-1, ctx1)
        else do {
          (res, h2) \<leftarrow> add_element h1 (proc_list ctx) a;
          Some (res, ctx1\<lparr>procs := h2, timers := timers ctx1 @ [Check_proc a]\<rparr>)
        }
      })"

text \<open>One line of the section: \<open>None\<close> ends the loop, \<open>Some None\<close> skips the line.\<close>

definition line_token :: "string \<Rightarrow> string option option" where
  "line_token getBuf =
     (let c = hd (getBuf @ [nul]) in
      if c = CHR ''['' then None
      else if c = CHR ''#'' \<or> c = newline then Some None
      else Some (Some (scanned (snd (sscanf [Scan_str 63] (cstr getBuf) [])) 0)))"

lemma fgets_shrinks: "fgets (Suc (Suc n)) s = Some (l, s') \<Longrightarrow> length s' < length s"
  by (cases s) (auto simp: fgets_def Let_def split: if_splits)

function read_applications ::
  "(timer \<Rightarrow> bool) \<Rightarrow> mgr_ctx \<Rightarrow> string \<Rightarrow> nat \<Rightarrow> (int \<times> mgr_ctx) option" where
  "read_applications event_add ctx rest num =
     (case fgets 256 rest of
        None \<Rightarrow> Some (int num, ctx)
      | Some (getBuf, rest') \<Rightarrow>
          (case line_token getBuf of
             None \<Rightarrow> Some (int num, ctx)
           | Some None \<Rightarrow> read_applications event_add ctx rest' num
           | Some (Some token) \<Rightarrow>
               (case create_proc_status_check event_add ctx token num of
                  None \<Rightarrow> None
                | Some (res, ctx') \<Rightarrow>
                    if res < 0 then Some (-1, ctx')
                    else read_applications event_add ctx' rest' (num + 1))))"
  by pat_completeness auto

termination
proof (relation "measure (\<lambda>(_, _, rest, _). length rest)")
  show "wf (measure (\<lambda>(_, _, rest, _). length rest))" by simp
qed (use fgets_shrinks [of 254] in \<open>auto simp: numeral_eq_Suc\<close>)

text \<open>
  \<open>sysconf\<close> is the result of \<open>conflib_get_sysconf\<close> and \<open>seek_section\<close> that
  of \<open>conflib_seekSection\<close>: what is left of the file behind the section header.
\<close>

definition create_keepalive_list ::
  "(timer \<Rightarrow> bool) \<Rightarrow> os \<Rightarrow> string option \<Rightarrow> (string \<Rightarrow> string \<Rightarrow> string option) \<Rightarrow> mgr_ctx
   \<Rightarrow> (int \<times> mgr_ctx) option" where
  "create_keepalive_list event_add w sysconf seek_section ctx =
     (case sysconf of
        None \<Rightarrow> Some (-1, ctx)
      | Some path \<Rightarrow>
          (case files w path of
             None \<Rightarrow> Some (-1, ctx)
           | Some content \<Rightarrow>
               (case seek_section content ''APPLICATIONS'' of
                  None \<Rightarrow> Some (-1, ctx)
                | Some rest \<Rightarrow> read_applications event_add ctx rest 0)))"

definition proc_check_all_alive :: "proc_ctx heap \<times> int \<Rightarrow> addr \<Rightarrow> (proc_ctx heap \<times> int) option" where
  "proc_check_all_alive st elem = do {
     let (h, all_pod_alive) = st;
     e \<leftarrow> deref h elem;
     (case key e of
        None \<Rightarrow> Some (h, all_pod_alive)
      | Some k \<Rightarrow> do {
          p \<leftarrow> data e;
          Some (h, if alive_status p \<le> 0 then 0 else all_pod_alive)
        })
   }"

section \<open>HTTP server\<close>

definition http_method_str :: "evhttp_cmd \<Rightarrow> string option" where
  "http_method_str ty =
     (case ty of
        EVHTTP_REQ_GET \<Rightarrow> Some ''GET''
      | EVHTTP_REQ_POST \<Rightarrow> Some ''POST''
      | EVHTTP_REQ_HEAD \<Rightarrow> Some ''HEAD''
      | EVHTTP_REQ_PUT \<Rightarrow> Some ''PUT''
      | EVHTTP_REQ_DELETE \<Rightarrow> Some ''DELETE''
      | EVHTTP_REQ_OPTIONS \<Rightarrow> Some ''OPTIONS''
      | EVHTTP_REQ_TRACE \<Rightarrow> Some ''TRACE''
      | EVHTTP_REQ_CONNECT \<Rightarrow> Some ''CONNECT''
      | EVHTTP_REQ_PATCH \<Rightarrow> Some ''PATCH''
      | EVHTTP_REQ_OTHER _ \<Rightarrow> None)"

text \<open>
  What the handlers use of libevent: the value of a query parameter of a URI, the path of a parsed
  URI (\<open>None\<close>: it does not parse, \<open>Some None\<close>: it has no path), and percent decoding.
\<close>

record libevent =
  find_query :: "string \<Rightarrow> string \<Rightarrow> string option"
  uri_parse :: "string \<Rightarrow> string option option"
  uridecode :: "string \<Rightarrow> string option"

record http_req =
  req_type :: evhttp_cmd
  req_uri :: string

datatype http_reply = Send_error int "string option" | Send_reply int "string option" "string option"

definition http_reply_common :: "int \<Rightarrow> int \<Rightarrow> string option \<Rightarrow> string option \<Rightarrow> http_reply" where
  "http_reply_common success code reason databuf =
     (if success < 0 then Send_error code reason else Send_reply code reason databuf)"

abbreviation reply_ok :: "string option \<Rightarrow> http_reply" where
  "reply_ok databuf \<equiv> http_reply_common 0 200 (Some ''Ok'') databuf"

abbreviation reply_unavailable :: http_reply where
  "reply_unavailable \<equiv> http_reply_common (-1) 503 (Some ''Service Unavailable'') None"

abbreviation reply_not_found :: http_reply where
  "reply_not_found \<equiv> http_reply_common (-1) 404 (Some ''Not Found'') None"

definition http_reply_pod_start :: "http_req \<Rightarrow> mgr_ctx \<Rightarrow> http_reply list \<times> mgr_ctx" where
  "http_reply_pod_start req ctx = ([http_reply_common 1 200 (Some ''Ok'') None], ctx)"

definition http_reply_pod_ready :: "libevent \<Rightarrow> http_req \<Rightarrow> mgr_ctx \<Rightarrow> (http_reply list \<times> mgr_ctx) option" where
  "http_reply_pod_ready ev req ctx =
     (if req_type req = EVHTTP_REQ_GET then
        (if force_not_ready ctx > 0 then Some ([reply_unavailable], ctx)
         else do {
           (h, all_pod_alive) \<leftarrow> list_element (Some proc_check_all_alive) (procs ctx, 1) (proc_list ctx);
           let ctx = ctx\<lparr>procs := h\<rparr>;
           Some ([if all_pod_alive > 0 then reply_ok None else reply_unavailable], ctx)
         })
      else if req_type req = EVHTTP_REQ_PATCH then
        (case find_query ev (req_uri req) ''status'' of
           None \<Rightarrow> Some ([reply_unavailable], ctx)
         | Some status \<Rightarrow>
             Some ([reply_ok None], ctx\<lparr>force_not_ready := (if atoi status = 0 then 1 else 0)\<rparr>))
      else Some ([reply_unavailable], ctx))"

definition http_reply_pod_live :: "http_req \<Rightarrow> string \<Rightarrow> mgr_ctx \<Rightarrow> (http_reply list \<times> mgr_ctx) option" where
  "http_reply_pod_live req pname ctx = do {
     elem \<leftarrow> get_element (procs ctx) (proc_list ctx) pname;
     (case elem of
        None \<Rightarrow> Some ([reply_not_found], ctx)
      | Some a \<Rightarrow> do {
          e \<leftarrow> deref (procs ctx) a;
          p \<leftarrow> data e;
          Some ([if alive_status p > 0 then reply_ok None else reply_unavailable], ctx)
        })
   }"

text \<open>
  Without a \<open>status\<close> parameter the handler answers 503 and goes on: an unknown process gets a
  second reply, and for a known one \<open>atoi(NULL)\<close> is a fault.
\<close>

definition http_patch_pod_live :: "libevent \<Rightarrow> http_req \<Rightarrow> string \<Rightarrow> mgr_ctx \<Rightarrow> (http_reply list \<times> mgr_ctx) option" where
  "http_patch_pod_live ev req pname ctx = do {
     let status = find_query ev (req_uri req) ''status'';
     let first = (if status = None then [reply_unavailable] else []);
     elem \<leftarrow> get_element (procs ctx) (proc_list ctx) pname;
     (case elem of
        None \<Rightarrow> Some (first @ [reply_not_found], ctx)
      | Some a \<Rightarrow> do {
          e \<leftarrow> deref (procs ctx) a;
          p \<leftarrow> data e;
          st \<leftarrow> status;
          let p = p\<lparr>alive_status := atoi st\<rparr>;
          let p = (if alive_status p = 0 then p\<lparr>force_status := 1\<rparr> else p);
          h \<leftarrow> set_data (procs ctx) a p;
          Some (first @ [reply_ok None], ctx\<lparr>procs := h\<rparr>)
        })
   }"

definition live_prefix :: string where "live_prefix = ''/live/''"

definition http_reply_default :: "libevent \<Rightarrow> http_req \<Rightarrow> mgr_ctx \<Rightarrow> (http_reply list \<times> mgr_ctx) option" where
  "http_reply_default ev req ctx =
     (case uri_parse ev (req_uri req) of
        None \<Rightarrow> Some ([http_reply_common (-1) 400 None None], ctx)
      | Some p \<Rightarrow>
          (let path = (case p of None \<Rightarrow> ''/'' | Some q \<Rightarrow> q) in
           case uridecode ev path of
             None \<Rightarrow> Some ([reply_not_found], ctx)
           | Some decoded_path \<Rightarrow>
               if strstr decoded_path ''..'' then Some ([reply_not_found], ctx)
               else if take (length live_prefix) decoded_path = live_prefix
                       \<and> length decoded_path > length live_prefix then
                 (if req_type req = EVHTTP_REQ_GET
                  then http_reply_pod_live req (drop (length live_prefix) decoded_path) ctx
                  else if req_type req = EVHTTP_REQ_PATCH
                  then http_patch_pod_live ev req (drop (length live_prefix) decoded_path) ctx
                  else Some ([], ctx))
               else Some ([reply_not_found], ctx)))"

section \<open>HTTP clients\<close>

text \<open>The reply of the peer: \<open>None\<close> when the connection or the name lookup failed.\<close>

record http_resp =
  resp_uri :: string
  response_code :: int
  resp_body :: string

definition http_recv_reply :: "http_resp option \<Rightarrow> mgr_ctx \<Rightarrow> mgr_ctx" where
  "http_recv_reply req ctx =
     (case req of
        None \<Rightarrow> ctx\<lparr>pod := (pod ctx)\<lparr>peer_pod_start := -1, peer_pod_ready := -1\<rparr>\<rparr>
      | Some r \<Rightarrow>
          if resp_uri r = ''/start''
          then ctx\<lparr>pod := (pod ctx)\<lparr>peer_pod_start := (if response_code r = 200 then 1 else 0)\<rparr>\<rparr>
          else if resp_uri r = ''/ready''
          then ctx\<lparr>pod := (pod ctx)\<lparr>peer_pod_ready := (if response_code r = 200 then 1 else 0)\<rparr>\<rparr>
          else ctx\<lparr>stdout_text := stdout_text ctx @ resp_body r\<rparr>)"

definition https_recv_reply :: "http_resp option \<Rightarrow> mgr_ctx \<Rightarrow> mgr_ctx" where
  "https_recv_reply req ctx = ctx"

definition make_http_request ::
  "mgr_ctx \<Rightarrow> string \<Rightarrow> int \<Rightarrow> evhttp_cmd \<Rightarrow> string \<Rightarrow> int \<Rightarrow> mgr_ctx option" where
  "make_http_request ctx svr_addr svr_port cmd path timeout = do {
     request_info \<leftarrow> fits 1024 (''http://'' @ svr_addr @ '':'' @ sprintf_d svr_port @ path);
     Some (ctx\<lparr>requests := requests ctx @
       [\<lparr>out_tls = False, out_host = svr_addr, out_port = svr_port, out_cmd = cmd, out_path = path,
         out_timeout = timeout, out_headers = [], out_body = []\<rparr>]\<rparr>)
   }"

definition make_https_request_for_k8s ::
  "mgr_ctx \<Rightarrow> string \<Rightarrow> int \<Rightarrow> evhttp_cmd \<Rightarrow> string \<Rightarrow> int \<Rightarrow> (string \<times> string) option
   \<Rightarrow> string option \<Rightarrow> mgr_ctx option" where
  "make_https_request_for_k8s ctx svr_addr svr_port cmd path timeout hdr body = do {
     request_info \<leftarrow> fits 1024 (''https://'' @ svr_addr @ '':'' @ sprintf_d svr_port @ path);
     let headers = [(''Authorization'', k8s_acc_token_bearer (pod ctx)), (''Host'', svr_addr),
                    (''Connection'', ''close'')];
     let headers = headers @ (case hdr of None \<Rightarrow> [] | Some p \<Rightarrow> [p]);
     let headers = headers @ (case body of None \<Rightarrow> []
                    | Some b \<Rightarrow> [(''Content-Length'', sprintf_d (int (length b)))]);
     Some (ctx\<lparr>requests := requests ctx @
       [\<lparr>out_tls = True, out_host = svr_addr, out_port = svr_port, out_cmd = cmd, out_path = path,
         out_timeout = timeout, out_headers = headers,
         out_body = (case body of None \<Rightarrow> [] | Some b \<Rightarrow> b)\<rparr>]\<rparr>)
   }"

text \<open>\<open>keepalivelib_increase\<close> of the library is the argument \<open>increase\<close>.\<close>

definition mgr_main_tick :: "(T_keepalive \<Rightarrow> T_keepalive) \<Rightarrow> mgr_ctx \<Rightarrow> mgr_ctx option" where
  "mgr_main_tick increase ctx = do {
     let ctx = ctx\<lparr>keepalive := increase (keepalive ctx)\<rparr>;
     (h, all_pod_alive) \<leftarrow> list_element (Some proc_check_all_alive) (procs ctx, 1) (proc_list ctx);
     Some (ctx\<lparr>procs := h, my_sys_status := (if all_pod_alive > 0 then 1 else 0)\<rparr>)
   }"

definition main_check_peer_pod :: "mgr_ctx \<Rightarrow> mgr_ctx option" where
  "main_check_peer_pod ctx = do {
     ctx \<leftarrow> make_http_request ctx (peer_pod_url (pod ctx)) K8SMSG_HTTP_LISTEN EVHTTP_REQ_GET ''/start'' 1;
     make_http_request ctx (peer_pod_url (pod ctx)) K8SMSG_HTTP_LISTEN EVHTTP_REQ_GET ''/ready'' 1
   }"

text \<open>The body is the format \<open>LABEL_POD_STATUS\<close>.\<close>

definition label_pod_status :: "string \<Rightarrow> string" where
  "label_pod_status status =
     ''{ '' @ [CHR 0x22] @ ''metadata'' @ [CHR 0x22] @ '': { '' @ [CHR 0x22] @ ''labels'' @ [CHR 0x22] @ '': { '' @
     [CHR 0x22] @ ''status'' @ [CHR 0x22] @ '': '' @ [CHR 0x22] @ status @ [CHR 0x22] @ '' } } }''"

definition k8s_api_patch_pod_status :: "mgr_ctx \<Rightarrow> string \<Rightarrow> mgr_ctx option" where
  "k8s_api_patch_pod_status ctx status = do {
     body \<leftarrow> fits 1024 (label_pod_status status);
     path \<leftarrow> fits 1024 (''/api/v1/namespaces/'' @ my_pod_namespace (pod ctx) @ ''/pods/''
               @ pod_my_name (pod ctx));
     make_https_request_for_k8s ctx (k8s_service_host (pod ctx)) (k8s_service_port (pod ctx))
       EVHTTP_REQ_PATCH path 1 (Some (''Content-Type'', ''application/merge-patch+json'')) (Some body)
   }"

text \<open>\<open>conf_as_mode[conf_my_side]\<close>: the block holds the file and a terminator.\<close>

definition as_mode_at :: "pod_info \<Rightarrow> char option" where
  "as_mode_at p =
     (if conf_my_side p < 0 then None else idx (conf_as_mode p) (nat (conf_my_side p)))"

definition label_of :: "int \<Rightarrow> int \<Rightarrow> char \<Rightarrow> int \<Rightarrow> int \<Rightarrow> string" where
  "label_of force sys status_mode peer_start peer_ready =
     (if force = 1 then ''force_not_ready''
      else if sys \<noteq> 1 then ''proc_failed''
      else if status_mode = CHR ''A'' then ''active''
      else if peer_start > 0 \<and> peer_ready \<noteq> 0 then ''standby'' else ''active'')"

definition main_update_pod_label :: "mgr_ctx \<Rightarrow> mgr_ctx option" where
  "main_update_pod_label ctx = do {
     status_mode \<leftarrow> as_mode_at (pod ctx);
     let status = label_of (force_not_ready ctx) (my_sys_status ctx) status_mode
                    (peer_pod_start (pod ctx)) (peer_pod_ready (pod ctx));
     let ctx = ctx\<lparr>ha_mode := (if strcmp status ''active'' = 0 then MODE_ACTIVE else MODE_STANDBY)\<rparr>;
     k8s_api_patch_pod_status ctx status
   }"

section \<open>Initialisation\<close>

definition zero_pod :: pod_info where
  "zero_pod = \<lparr>pod_my_name = [], my_service_name = [], my_pod_namespace = [], peer_pod_url = [],
     peer_pod_start = 0, peer_pod_ready = 0, conf_as_mode = [], conf_my_side = 0,
     k8s_service_host = [], k8s_service_port = 0, k8s_acc_token = [], k8s_acc_token_bearer = []\<rparr>"

text \<open>\<open>main_ctx_t MAIN_CTX = {0,}\<close>, with the counters found in shared memory.\<close>

definition zero_mgr :: "T_keepalive \<Rightarrow> mgr_ctx" where
  "zero_mgr ka = \<lparr>force_not_ready = 0, my_sys_status = 0, pod = zero_pod, proc_list = 0,
     procs = empty_heap, keepalive = ka, ha_mode = 0, timers = [], requests = [], stdout_text = []\<rparr>"

text \<open>
  The name of the peer: the pod name up to the last dash with the index of the neighbour, even
  indices pairing with the next odd one.  A pod name without a dash is a fault.
\<close>

definition peer_index :: "int \<Rightarrow> int" where
  "peer_index i = (if even i then i + 1 else i - 1)"

definition peer_url_of :: "string \<Rightarrow> string \<Rightarrow> string \<Rightarrow> (int \<times> string) option" where
  "peer_url_of my_name service namespace = do {
     temp_pod_name \<leftarrow> fits 1024 my_name;
     index_str \<leftarrow> strrchr temp_pod_name (CHR ''-'');
     let my_side = atoi (tl index_str);
     let stem = take (length temp_pod_name - length index_str) temp_pod_name @ ''-'';
     url \<leftarrow> fits 1024 (stem @ sprintf_d (peer_index my_side) @ ''.'' @ service @ ''.'' @ namespace
              @ ''.svc.cluster.local'');
     Some (my_side, url)
   }"

text \<open>The second half of \<open>main_init_getenv\<close>: the access to the API server.\<close>

definition init_k8s_access :: "os \<Rightarrow> mgr_ctx \<Rightarrow> char \<Rightarrow> (int \<times> mgr_ctx) option" where
  "init_k8s_access w ctx status_mode =
     (case getenv w ''KUBERNETES_SERVICE_HOST'' of
        None \<Rightarrow> Some (-1, ctx)
      | Some host \<Rightarrow>
     (let ctx = ctx\<lparr>pod := (pod ctx)\<lparr>k8s_service_host := host\<rparr>\<rparr> in
      case getenv w ''KUBERNETES_SERVICE_PORT'' of
        None \<Rightarrow> Some (-1, ctx)
      | Some port \<Rightarrow>
     (let ctx = ctx\<lparr>pod := (pod ctx)\<lparr>k8s_service_port := atoi port\<rparr>\<rparr> in
      case fopen_read_malloc w ''/k8s/secret/token'' of
        None \<Rightarrow> Some (-1, ctx)
      | Some token \<Rightarrow> do {
          let ctx = ctx\<lparr>pod := (pod ctx)\<lparr>k8s_acc_token := cstr token,
                      k8s_acc_token_bearer := ''Bearer '' @ cstr token\<rparr>\<rparr>;
          ctx \<leftarrow> k8s_api_patch_pod_status ctx
                  (if status_mode = CHR ''A'' then ''active'' else ''standby'');
          Some (0, ctx)
        })))"

definition main_init_getenv :: "os \<Rightarrow> mgr_ctx \<Rightarrow> (int \<times> mgr_ctx) option" where
  "main_init_getenv w ctx =
     (case getenv w ''MY_POD_NAME'' of
        None \<Rightarrow> Some (-1, ctx)
      | Some my_name \<Rightarrow>
     (let ctx = ctx\<lparr>pod := (pod ctx)\<lparr>pod_my_name := my_name\<rparr>\<rparr> in
      case getenv w ''MY_SERVICE_NAME'' of
        None \<Rightarrow> Some (-1, ctx)
      | Some service \<Rightarrow>
     (let ctx = ctx\<lparr>pod := (pod ctx)\<lparr>my_service_name := service\<rparr>\<rparr> in
      case fopen_read_malloc w K8S_SYS_NAMESPACE of
        None \<Rightarrow> Some (-1, ctx)
      | Some ns \<Rightarrow> do {
          (my_side, url) \<leftarrow> peer_url_of my_name service (cstr ns);
          let ctx = ctx\<lparr>pod := (pod ctx)\<lparr>my_pod_namespace := cstr ns, conf_my_side := my_side,
                      peer_pod_url := url,
                      conf_as_mode := (case fopen_read_malloc w ''/data/AS_MODE'' of
                        None \<Rightarrow> ''AA'' @ [nul] | Some block \<Rightarrow> block)\<rparr>\<rparr>;
          status_mode \<leftarrow> as_mode_at (pod ctx);
          init_k8s_access w ctx status_mode
        })))"

text \<open>
  The results of the library calls of the start: registration in the keepalive library, binding
  the HTTP port, attaching the shared memory, accepting a timer, the configuration file.
\<close>

record start_env =
  keepalive_init :: int
  bind_ok :: bool
  shm_ok :: bool
  event_add :: "timer \<Rightarrow> bool"
  sysconf_path :: "string option"
  seek_section :: "string \<Rightarrow> string \<Rightarrow> string option"

definition main_init_httpserver :: "start_env \<Rightarrow> mgr_ctx \<Rightarrow> int \<times> mgr_ctx" where
  "main_init_httpserver se ctx = (if \<not> bind_ok se then (-1, ctx) else (0, ctx))"

definition add_timer :: "start_env \<Rightarrow> timer \<Rightarrow> mgr_ctx \<Rightarrow> int \<times> mgr_ctx" where
  "add_timer se t ctx = (if event_add se t then (0, ctx\<lparr>timers := timers ctx @ [t]\<rparr>) else (-1, ctx))"

definition start_timers :: "start_env \<Rightarrow> mgr_ctx \<Rightarrow> int \<times> mgr_ctx" where
  "start_timers se ctx =
     (let (r, ctx) = add_timer se Tick ctx in
      if r = -1 then (-1, ctx)
      else let (r, ctx) = add_timer se Check_peer ctx in
      if r = -1 then (-1, ctx)
      else let (r, ctx) = add_timer se Update_label ctx in
      if r = -1 then (-1, ctx)
      else (0, ctx))"

definition main_initialize :: "start_env \<Rightarrow> os \<Rightarrow> mgr_ctx \<Rightarrow> (int \<times> mgr_ctx) option" where
  "main_initialize se w ctx =
     (if keepalive_init se < 0 then Some (-1, ctx)
      else do {
        (r, ctx) \<leftarrow> main_init_getenv w ctx;
        if r < 0 then Some (-1, ctx)
        else let (r, ctx) = main_init_httpserver se ctx in
        if r < 0 then Some (-1, ctx)
        else if \<not> shm_ok se then Some (-1, ctx)
        else do {
          let (root, h) = new_element (procs ctx) None None;
          a \<leftarrow> root;
          let ctx = ctx\<lparr>proc_list := a, procs := h\<rparr>;
          (r, ctx) \<leftarrow> create_keepalive_list (event_add se) w (sysconf_path se) (seek_section se) ctx;
          if r < 0 then Some (-1, ctx)
          else Some (start_timers se ctx)
        }
      })"

text \<open>
  \<open>main\<close>: a start that fails ends the program (\<open>Some None\<close>), otherwise the result is the state
  in which the event loop begins.
\<close>

definition mgr_main :: "start_env \<Rightarrow> os \<Rightarrow> T_keepalive \<Rightarrow> mgr_ctx option option" where
  "mgr_main se w ka = do {
     (r, ctx) \<leftarrow> main_initialize se w (zero_mgr ka);
     if r < 0 then Some None else Some (Some ctx)
   }"

text \<open>A helper that no other function calls: \<open>setsockopt\<close> gets the two fields of \<open>struct linger\<close>.\<close>

record linger =
  l_onoff :: int
  l_linger :: int

definition util_set_linger :: "(int \<Rightarrow> linger \<Rightarrow> int) \<Rightarrow> int \<Rightarrow> int \<Rightarrow> int \<Rightarrow> int" where
  "util_set_linger setsockopt_linger fd onoff ling = setsockopt_linger fd \<lparr>l_onoff = onoff, l_linger = ling\<rparr>"

section \<open>The event loop\<close>

text \<open>
  One event: a timer that was registered, a reply of the peer or of the API server, or a request
  to one of the end points that change or report the state.  Another process of the pod may raise
  its own counter at any time.
\<close>

datatype mgr_event = Fire timer | Peer_reply "http_resp option" | Api_reply "http_resp option"
  | Get_start http_req | At_ready http_req | At_other http_req | Beat nat

definition beat :: "nat \<Rightarrow> T_keepalive \<Rightarrow> T_keepalive" where
  "beat i ka = ka\<lparr>cnt := (cnt ka)[i := cnt ka ! i + 1]\<rparr>"

definition mgr_event_step ::
  "libevent \<Rightarrow> (T_keepalive \<Rightarrow> T_keepalive) \<Rightarrow> mgr_event \<Rightarrow> mgr_ctx \<Rightarrow> mgr_ctx option" where
  "mgr_event_step ev increase e ctx =
     (case e of
        Fire t \<Rightarrow> (case t of
            Check_proc a \<Rightarrow> check_proc_alive ctx a
          | Tick \<Rightarrow> mgr_main_tick increase ctx
          | Check_peer \<Rightarrow> main_check_peer_pod ctx
          | Update_label \<Rightarrow> main_update_pod_label ctx)
      | Peer_reply r \<Rightarrow> Some (http_recv_reply r ctx)
      | Api_reply r \<Rightarrow> Some (https_recv_reply r ctx)
      | Get_start req \<Rightarrow> Some (snd (http_reply_pod_start req ctx))
      | At_ready req \<Rightarrow> map_option snd (http_reply_pod_ready ev req ctx)
      | At_other req \<Rightarrow> map_option snd (http_reply_default ev req ctx)
      | Beat i \<Rightarrow> Some (ctx\<lparr>keepalive := beat i (keepalive ctx)\<rparr>))"

text \<open>A timer fires only when it is registered, and a process owns a slot of the arrays.\<close>

definition enabled :: "mgr_ctx \<Rightarrow> mgr_event \<Rightarrow> bool" where
  "enabled ctx e =
     (case e of
        Fire t \<Rightarrow> t \<in> set (timers ctx)
      | Beat i \<Rightarrow> i < SYSCONF_MAX_APPL_NUM
      | _ \<Rightarrow> True)"

inductive mgr_reach ::
  "libevent \<Rightarrow> (T_keepalive \<Rightarrow> T_keepalive) \<Rightarrow> mgr_ctx \<Rightarrow> mgr_ctx \<Rightarrow> bool"
  for ev :: libevent and increase :: "T_keepalive \<Rightarrow> T_keepalive" where
  reach_refl: "mgr_reach ev increase ctx ctx"
| reach_step: "mgr_reach ev increase ctx ctx1 \<Longrightarrow> enabled ctx1 e \<Longrightarrow>
    mgr_event_step ev increase e ctx1 = Some ctx2 \<Longrightarrow> mgr_reach ev increase ctx ctx2"

end
