(* ===== verification/K8smgr_Spec.thy ===== *)
theory K8smgr_Spec
  imports K8smgr
begin

text \<open>
  Properties of the pod manager: when a process counts as hung and when it recovers, how long a
  forced state lasts, what the end points report, the invariant of the reachable states of the
  event loop (in particular that no timer reads a freed node), and the pairing of peer pods.
\<close>

section \<open>Hang detection\<close>

definition ka_ok :: "T_keepalive \<Rightarrow> bool" where
  "ka_ok ka \<longleftrightarrow> length (cnt ka) = SYSCONF_MAX_APPL_NUM \<and> length (oldcnt ka) = SYSCONF_MAX_APPL_NUM
     \<and> length (retry ka) = SYSCONF_MAX_APPL_NUM"

text \<open>The counter of process \<open>i\<close> is \<open>c\<close> when the check runs.\<close>

definition set_reading :: "nat \<Rightarrow> int \<Rightarrow> T_keepalive \<Rightarrow> T_keepalive" where
  "set_reading i c ka = ka\<lparr>cnt := (cnt ka)[i := c]\<rparr>"

fun check_run :: "int list \<Rightarrow> T_keepalive \<times> proc_ctx \<Rightarrow> (T_keepalive \<times> proc_ctx) option" where
  "check_run [] st = Some st"
| "check_run (c # cs) st = do {
     st' \<leftarrow> check_proc (set_reading (keep_index (snd st)) c (fst st)) (snd st);
     check_run cs st'
   }"

text \<open>The effect of one check on the slot of a process.\<close>

definition next_retry :: "int \<Rightarrow> int \<Rightarrow> int \<Rightarrow> int" where
  "next_retry old r c = (if c \<noteq> old then 0 else r + 1)"

lemma check_proc_slot:
  assumes "ka_ok ka" and "keep_index p < SYSCONF_MAX_APPL_NUM"
  defines "i \<equiv> keep_index p"
  defines "r \<equiv> next_retry (oldcnt ka ! i) (retry ka ! i) (cnt ka ! i)"
  shows "\<exists>ka' p'. check_proc ka p = Some (ka', p') \<and> ka_ok ka' \<and> keep_index p' = i
     \<and> proc_name p' = proc_name p \<and> cnt ka' = cnt ka
     \<and> oldcnt ka' ! i = cnt ka ! i \<and> retry ka' ! i = r
     \<and> (force_status p = 0 \<longrightarrow> force_status p' = 0 \<and> alive_status p' = (if r \<ge> 3 then 0 else 1))
     \<and> (0 < force_status p \<and> force_status p < 5 \<longrightarrow> force_status p' = force_status p + 1 \<and> alive_status p' = 0)
     \<and> (5 \<le> force_status p \<longrightarrow> force_status p' = 0 \<and> alive_status p' = alive_status p)"
  using assms
  by (auto simp: check_proc_def idx_def ka_ok_def next_retry_def K8SMGR_HANG_INTVL_def Let_def)

text \<open>The retry counter after a list of readings.\<close>

fun retry_run :: "int \<Rightarrow> int \<Rightarrow> int list \<Rightarrow> int" where
  "retry_run old r [] = r"
| "retry_run old r (c # cs) = retry_run c (next_retry old r c) cs"

lemma check_run_normal:
  assumes "ka_ok ka" and "keep_index p < SYSCONF_MAX_APPL_NUM" and "force_status p = 0"
  shows "\<exists>ka' p'. check_run cs (ka, p) = Some (ka', p') \<and> ka_ok ka' \<and> force_status p' = 0
     \<and> keep_index p' = keep_index p
     \<and> retry ka' ! keep_index p = retry_run (oldcnt ka ! keep_index p) (retry ka ! keep_index p) cs
     \<and> (cs \<noteq> [] \<longrightarrow> alive_status p' = (if retry ka' ! keep_index p \<ge> 3 then 0 else 1))"
  using assms
proof (induction cs arbitrary: ka p)
  case (Cons c cs)
  let ?i = "keep_index p" and ?ka = "set_reading (keep_index p) c ka"
  have ok: "ka_ok ?ka" "?ka\<lparr>cnt := cnt ka\<rparr> = ka" "cnt ?ka ! ?i = c"
    "oldcnt ?ka = oldcnt ka" "retry ?ka = retry ka"
    using Cons.prems by (simp_all add: set_reading_def ka_ok_def)
  obtain ka1 p1 where s: "check_proc ?ka p = Some (ka1, p1)" "ka_ok ka1" "keep_index p1 = ?i"
      "oldcnt ka1 ! ?i = c" "retry ka1 ! ?i = next_retry (oldcnt ka ! ?i) (retry ka ! ?i) c"
      "force_status p1 = 0" "alive_status p1 = (if retry ka1 ! ?i \<ge> 3 then 0 else 1)"
    using check_proc_slot [OF ok(1) Cons.prems(2)] Cons.prems(3) ok(3-5) by auto
  obtain ka2 p2 where t: "check_run cs (ka1, p1) = Some (ka2, p2)" "ka_ok ka2" "force_status p2 = 0"
      "keep_index p2 = ?i" "retry ka2 ! ?i = retry_run c (retry ka1 ! ?i) cs"
      "cs \<noteq> [] \<longrightarrow> alive_status p2 = (if retry ka2 ! ?i \<ge> 3 then 0 else 1)"
    using Cons.IH [OF s(2) _ s(6)] Cons.prems(2) s(3,4) by auto
  have "check_run (c # cs) (ka, p) = Some (ka2, p2)" using s(1) t(1) by simp
  moreover have "retry ka2 ! ?i = retry_run (oldcnt ka ! ?i) (retry ka ! ?i) (c # cs)"
    using s(5) t(5) by simp
  moreover have "alive_status p2 = (if retry ka2 ! ?i \<ge> 3 then 0 else 1)"
  proof (cases cs)
    case Nil
    with t(1) s show ?thesis by auto
  qed (use t in simp)
  ultimately show ?case using t by blast
qed simp

text \<open>
  The retry counter is the number of checks since the counter was last seen to move, so it reaches
  three exactly when the last four readings, the one before the run included, agree.
\<close>

definition stalled :: "int list \<Rightarrow> bool" where
  "stalled readings \<longleftrightarrow> 4 \<le> length readings \<and> (\<forall>x \<in> set (take 4 (rev readings)). x = last readings)"

lemma retry_run_snoc:
  "retry_run old r (cs @ [c]) = next_retry (last (old # cs)) (retry_run old r cs) c"
  by (induction cs arbitrary: old r) auto

lemma retry_run_nonneg: "0 \<le> r \<Longrightarrow> 0 \<le> retry_run old r cs"
  by (induction cs arbitrary: old r) (auto simp: next_retry_def)

lemma retry_run_ge:
  "int m \<le> retry_run old 0 cs \<longleftrightarrow> m \<le> length cs \<and> (\<forall>x \<in> set (take (Suc m) (rev (old # cs))). x = last (old # cs))"
proof (induction cs arbitrary: m rule: rev_induct)
  case Nil
  show ?case by (cases m) auto
next
  case (snoc c cs)
  show ?case
  proof (cases m)
    case 0
    then show ?thesis using retry_run_nonneg [of 0 old "cs @ [c]"] by simp
  next
    case (Suc j)
    show ?thesis
    proof (cases "c = last (old # cs)")
      case True
      then have "int m \<le> retry_run old 0 (cs @ [c]) \<longleftrightarrow> int j \<le> retry_run old 0 cs"
        using Suc by (simp add: retry_run_snoc next_retry_def)
      also have "\<dots> \<longleftrightarrow> j \<le> length cs \<and> (\<forall>x \<in> set (take (Suc j) (rev (old # cs))). x = last (old # cs))"
        by (rule snoc.IH)
      finally show ?thesis using True Suc by simp
    next
      case False
      have "rev (old # cs) \<noteq> []" "hd (rev (old # cs)) = last (old # cs)"
        by (simp_all add: hd_rev del: rev.simps)
      then have "last (old # cs) \<in> set (take (Suc j) (rev (old # cs)))"
        by (metis list.exhaust_sel list.set_intros(1) take_Suc_Cons)
      with False Suc have "\<not> (\<forall>x \<in> set (take (Suc m) (rev (old # cs @ [c]))). x = c)"
        by auto
      moreover have "retry_run old 0 (cs @ [c]) = 0"
        using False by (simp add: retry_run_snoc next_retry_def)
      ultimately show ?thesis using Suc by simp
    qed
  qed
qed

section \<open>The forced state\<close>

text \<open>
  A process forced down by a request stays down for the next five checks whatever its counter
  does, and only the sixth check looks at the counter again.
\<close>

lemma forced_run:
  assumes "ka_ok ka" and "keep_index p < SYSCONF_MAX_APPL_NUM" and "alive_status p = 0"
    and "0 < force_status p" and "force_status p \<le> 5"
    and "int (length cs) + force_status p \<le> 6"
  shows "\<exists>ka' p'. check_run cs (ka, p) = Some (ka', p') \<and> ka_ok ka' \<and> alive_status p' = 0
     \<and> keep_index p' = keep_index p
     \<and> force_status p' = (if int (length cs) + force_status p = 6 then 0 else int (length cs) + force_status p)
     \<and> (cs \<noteq> [] \<longrightarrow> oldcnt ka' ! keep_index p = last cs)"
  using assms
proof (induction cs arbitrary: ka p)
  case (Cons c cs)
  let ?i = "keep_index p" and ?ka = "set_reading (keep_index p) c ka"
  have ok: "ka_ok ?ka" "cnt ?ka ! ?i = c"
    using Cons.prems by (simp_all add: set_reading_def ka_ok_def)
  obtain ka1 p1 where s: "check_proc ?ka p = Some (ka1, p1)" "ka_ok ka1" "keep_index p1 = ?i"
      "oldcnt ka1 ! ?i = c" "alive_status p1 = 0"
      "force_status p1 = (if force_status p = 5 then 0 else force_status p + 1)"
    using check_proc_slot [OF ok(1) Cons.prems(2)] Cons.prems(3-5) ok(2)
    by (cases "force_status p = 5") auto
  show ?case
  proof (cases "force_status p = 5")
    case True
    with Cons.prems(6) have "cs = []" by simp
    with s True show ?thesis by simp
  next
    case False
    then have "0 < force_status p1" "force_status p1 \<le> 5" "int (length cs) + force_status p1 \<le> 6"
      using Cons.prems(4-6) s(6) by simp_all
    then obtain ka2 p2 where t: "check_run cs (ka1, p1) = Some (ka2, p2)" "ka_ok ka2" "alive_status p2 = 0"
        "keep_index p2 = ?i"
        "force_status p2 = (if int (length cs) + force_status p1 = 6 then 0 else int (length cs) + force_status p1)"
        "cs \<noteq> [] \<longrightarrow> oldcnt ka2 ! ?i = last cs"
      using Cons.IH [OF s(2) _ s(5)] Cons.prems(2) s(3) by auto
    have "check_run (c # cs) (ka, p) = Some (ka2, p2)" using s(1) t(1) by simp
    moreover have "oldcnt ka2 ! ?i = last (c # cs)"
      using t(1,6) s(4) by (cases cs) auto
    ultimately show ?thesis using t s(6) False by auto
  qed
qed simp

section \<open>The end points\<close>

definition all_up :: "proc_ctx node list \<Rightarrow> bool" where
  "all_up xs \<longleftrightarrow> list_all (\<lambda>(a, k, p). alive_status p > 0) xs"

definition alive_step :: "string \<Rightarrow> proc_ctx \<Rightarrow> int \<Rightarrow> (proc_ctx option \<times> int) option" where
  "alive_step k p s = Some (Some p, if alive_status p \<le> 0 then 0 else s)"

interpretation all_alive: list_callback proc_check_all_alive Some alive_step
proof
  fix h :: "proc_ctx heap" and a e s k d s' d'
  assume c: "cells h a = Some e"
  show "key e = None \<Longrightarrow> proc_check_all_alive (h, s) a = map_option (Pair h) (Some s)"
    using c by (simp add: proc_check_all_alive_def deref_def)
  assume k: "key e = Some k" "data e = Some d"
  show "alive_step k d s = None \<Longrightarrow> proc_check_all_alive (h, s) a = None"
    by (simp add: alive_step_def)
  show "alive_step k d s = Some (None, s') \<Longrightarrow>
      proc_check_all_alive (h, s) a = map_option (\<lambda>h'. (h', s')) (rem_element h (Some a))"
    by (simp add: alive_step_def)
  have "set_data h a d = Some h" using c k(2) by (cases e) (simp add: set_data_def deref_def store_def fun_upd_idem)
  then show "alive_step k d s = Some (Some d', s') \<Longrightarrow>
      proc_check_all_alive (h, s) a = map_option (\<lambda>h'. (h', s')) (set_data h a d')"
    using c k by (auto simp: proc_check_all_alive_def alive_step_def deref_def)
qed

lemma walk_alive: "walk alive_step xs s = Some (xs, if all_up xs then s else 0)"
proof (induction xs arbitrary: s)
  case (Cons x xs)
  obtain a k p where x: "x = (a, k, p)" by (cases x) auto
  then show ?case by (simp add: alive_step_def [of k p s] Cons.IH all_up_def)
qed (simp add: all_up_def)

lemma list_alive:
  assumes "wf_list (procs ctx) (proc_list ctx) xs"
  shows "\<exists>h. list_element (Some proc_check_all_alive) (procs ctx, 1) (proc_list ctx)
       = Some (h, if all_up xs then 1 else 0)
     \<and> wf_list h (proc_list ctx) xs \<and> oom h = oom (procs ctx)"
proof -
  have "walk alive_step xs (1::int) = Some (xs, if all_up xs then 1 else 0)"
    by (simp only: walk_alive)
  from all_alive.traversal_Some [OF assms refl this] show ?thesis by blast
qed

text \<open>A request to force a state without saying which.\<close>

section \<open>The reachable states\<close>

definition proc_ok :: "proc_ctx \<Rightarrow> bool" where
  "proc_ok p \<longleftrightarrow> keep_index p < SYSCONF_MAX_APPL_NUM \<and> 0 \<le> force_status p \<and> force_status p \<le> 5"

definition flags_ok :: "mgr_ctx \<Rightarrow> bool" where
  "flags_ok ctx \<longleftrightarrow> force_not_ready ctx \<in> {0, 1} \<and> my_sys_status ctx \<in> {0, 1}
     \<and> peer_pod_start (pod ctx) \<in> {-1, 0, 1} \<and> peer_pod_ready (pod ctx) \<in> {-1, 0, 1}"

lemma flags_ok_simps [simp]:
  "flags_ok (ctx\<lparr>keepalive := ka\<rparr>) = flags_ok ctx"
  "flags_ok (ctx\<lparr>procs := h\<rparr>) = flags_ok ctx"
  "flags_ok (ctx\<lparr>requests := rs\<rparr>) = flags_ok ctx"
  "flags_ok (ctx\<lparr>ha_mode := m\<rparr>) = flags_ok ctx"
  "flags_ok (ctx\<lparr>stdout_text := t\<rparr>) = flags_ok ctx"
  "flags_ok (ctx\<lparr>timers := ts\<rparr>) = flags_ok ctx"
  "flags_ok (ctx\<lparr>proc_list := a\<rparr>) = flags_ok ctx"
  "flags_ok ctx \<Longrightarrow> flags_ok (ctx\<lparr>my_sys_status := (if b then 1 else 0)\<rparr>)"
  "flags_ok ctx \<Longrightarrow> flags_ok (ctx\<lparr>force_not_ready := (if b then 1 else 0)\<rparr>)"
  by (simp_all add: flags_ok_def)

definition mgr_rep :: "mgr_ctx \<Rightarrow> proc_ctx node list \<Rightarrow> bool" where
  "mgr_rep ctx xs \<longleftrightarrow> wf_list (procs ctx) (proc_list ctx) xs \<and> ka_ok (keepalive ctx)
     \<and> (\<forall>(a, k, p) \<in> set xs. k = proc_name p \<and> proc_ok p)
     \<and> (\<forall>a. Check_proc a \<in> set (timers ctx) \<longrightarrow> a \<in> fst ` set xs)
     \<and> flags_ok ctx"

definition mgr_inv :: "mgr_ctx \<Rightarrow> bool" where
  "mgr_inv ctx \<longleftrightarrow> (\<exists>xs. mgr_rep ctx xs)"

lemma mgr_rep_wf: "mgr_rep ctx xs \<Longrightarrow> wf_list (procs ctx) (proc_list ctx) xs"
  by (simp add: mgr_rep_def)

lemma node_cell:
  assumes "wf_list h root xs" and "(a, k, d) \<in> set xs"
  shows "\<exists>e. deref h a = Some e \<and> key e = Some k \<and> data e = Some d"
proof -
  obtain ys zs where "xs = ys @ (a, k, d) # zs" using assms(2) by (meson split_list)
  with assms(1) show ?thesis by (auto simp: wf_list_def seg_append deref_def)
qed

lemma mgr_rep_node: "mgr_rep ctx xs \<Longrightarrow> (a, k, p) \<in> set xs \<Longrightarrow> k = proc_name p \<and> proc_ok p"
  by (auto simp: mgr_rep_def)

lemma mgr_rep_ka: "mgr_rep ctx xs \<Longrightarrow> ka_ok (keepalive ctx)"
  by (simp add: mgr_rep_def)

text \<open>Writing the data of one process keeps the invariant.\<close>

lemma mgr_rep_set_data:
  assumes rep: "mgr_rep ctx xs" and "(a, k, p) \<in> set xs" and "proc_name p' = proc_name p" and "proc_ok p'"
    and "ka_ok ka"
  shows "\<exists>h ys. set_data (procs ctx) a p' = Some h \<and> mgr_rep (ctx\<lparr>keepalive := ka, procs := h\<rparr>) ys"
proof -
  obtain ys zs where xs: "xs = ys @ (a, k, p) # zs" using assms(2) by (meson split_list)
  obtain h where h: "set_data (procs ctx) a p' = Some h" "wf_list h (proc_list ctx) (ys @ (a, k, p') # zs)"
    using set_data_list [OF mgr_rep_wf [OF rep] xs] by blast
  have "fst ` set xs = fst ` set (ys @ (a, k, p') # zs)" using xs by auto
  then have "mgr_rep (ctx\<lparr>keepalive := ka, procs := h\<rparr>) (ys @ (a, k, p') # zs)"
    using rep h(2) assms(3-5) xs by (auto simp: mgr_rep_def)
  with h(1) show ?thesis by blast
qed

lemma check_proc_total:
  assumes "ka_ok ka" and "proc_ok p"
  shows "\<exists>ka' p'. check_proc ka p = Some (ka', p') \<and> ka_ok ka' \<and> proc_ok p' \<and> proc_name p' = proc_name p"
proof -
  have i: "keep_index p < SYSCONF_MAX_APPL_NUM" using assms(2) by (simp add: proc_ok_def)
  obtain ka' p' where c: "check_proc ka p = Some (ka', p')" "ka_ok ka'" "keep_index p' = keep_index p"
      "proc_name p' = proc_name p"
      "force_status p = 0 \<longrightarrow> force_status p' = 0"
      "0 < force_status p \<and> force_status p < 5 \<longrightarrow> force_status p' = force_status p + 1"
      "5 \<le> force_status p \<longrightarrow> force_status p' = 0"
    using check_proc_slot [OF assms(1) i] by blast
  have "0 \<le> force_status p'" "force_status p' \<le> 5"
    using c(5-7) assms(2) by (auto simp: proc_ok_def)
  with c i show ?thesis by (simp add: proc_ok_def)
qed

lemma check_proc_alive_inv:
  assumes rep: "mgr_rep ctx xs" and "a \<in> fst ` set xs"
  shows "\<exists>ctx' ys. check_proc_alive ctx a = Some ctx' \<and> mgr_rep ctx' ys"
proof -
  obtain k p where node: "(a, k, p) \<in> set xs" using assms(2) by force
  obtain e where e: "deref (procs ctx) a = Some e" "data e = Some p"
    using node_cell [OF mgr_rep_wf [OF rep] node] by blast
  obtain ka' p' where c: "check_proc (keepalive ctx) p = Some (ka', p')" "ka_ok ka'" "proc_ok p'"
      "proc_name p' = proc_name p"
    using check_proc_total [OF mgr_rep_ka [OF rep]] mgr_rep_node [OF rep node] by blast
  obtain h ys where "set_data (procs ctx) a p' = Some h" "mgr_rep (ctx\<lparr>keepalive := ka', procs := h\<rparr>) ys"
    using mgr_rep_set_data [OF rep node c(4,3,2)] by blast
  with e c show ?thesis by (auto simp: check_proc_alive_def)
qed

lemma main_tick_inv:
  assumes rep: "mgr_rep ctx xs" and "ka_ok (increase (keepalive ctx))"
  shows "\<exists>ctx'. mgr_main_tick increase ctx = Some ctx' \<and> mgr_rep ctx' xs
     \<and> my_sys_status ctx' = (if all_up xs then 1 else 0)"
proof -
  let ?c = "ctx\<lparr>keepalive := increase (keepalive ctx)\<rparr>"
  have "wf_list (procs ?c) (proc_list ?c) xs" using mgr_rep_wf [OF rep] by simp
  from list_alive [OF this] obtain h where
      "list_element (Some proc_check_all_alive) (procs ctx, 1) (proc_list ctx)
       = Some (h, if all_up xs then 1 else 0)" "wf_list h (proc_list ctx) xs"
    by auto
  with rep assms(2) show ?thesis
    by (auto simp: mgr_main_tick_def mgr_rep_def)
qed

lemma ready_inv:
  assumes rep: "mgr_rep ctx xs"
  shows "\<exists>r ctx'. http_reply_pod_ready ev req ctx = Some (r, ctx') \<and> mgr_rep ctx' xs"
proof -
  obtain h where "list_element (Some proc_check_all_alive) (procs ctx, 1) (proc_list ctx)
       = Some (h, if all_up xs then 1 else 0)" "wf_list h (proc_list ctx) xs"
    using list_alive [OF mgr_rep_wf [OF rep]] by blast
  with rep show ?thesis
    by (auto simp: http_reply_pod_ready_def mgr_rep_def split: option.splits)
qed

lemma get_live_inv:
  assumes rep: "mgr_rep ctx xs"
  shows "\<exists>r. http_reply_pod_live req pname ctx = Some (r, ctx)"
proof (cases "handle_of xs pname")
  case None
  with get_element_list [OF mgr_rep_wf [OF rep], of pname] show ?thesis
    by (simp add: http_reply_pod_live_def)
next
  case (Some a)
  obtain d where "(a, pname, d) \<in> set xs" using handle_of_Some [OF Some] by blast
  from node_cell [OF mgr_rep_wf [OF rep] this]
  obtain e where "deref (procs ctx) a = Some e" "data e = Some d" by blast
  with Some get_element_list [OF mgr_rep_wf [OF rep], of pname]
  show ?thesis by (simp add: http_reply_pod_live_def)
qed

lemma patch_live_inv:
  assumes rep: "mgr_rep ctx xs" and "http_patch_pod_live ev req pname ctx = Some (r, ctx')"
  shows "mgr_inv ctx'"
proof (cases "handle_of xs pname")
  case None
  with get_element_list [OF mgr_rep_wf [OF rep], of pname] assms show ?thesis
    by (auto simp: http_patch_pod_live_def mgr_inv_def)
next
  case (Some a)
  obtain p where p: "(a, pname, p) \<in> set xs" using handle_of_Some [OF Some] by blast
  obtain e where e: "deref (procs ctx) a = Some e" "data e = Some p"
    using node_cell [OF mgr_rep_wf [OF rep] p] by blast
  obtain st where st: "find_query ev (req_uri req) ''status'' = Some st"
    using assms(2) Some e get_element_list [OF mgr_rep_wf [OF rep], of pname]
    by (auto simp: http_patch_pod_live_def Let_def)
  let ?q = "p\<lparr>alive_status := atoi st\<rparr>"
  let ?p = "if alive_status ?q = 0 then ?q\<lparr>force_status := 1\<rparr> else ?q"
  have q: "proc_name ?p = proc_name p" "proc_ok ?p"
    using rep p by (auto simp: mgr_rep_def proc_ok_def)
  have ka: "ka_ok (keepalive ctx)" using rep by (simp add: mgr_rep_def)
  obtain h ys where h: "set_data (procs ctx) a ?p = Some h"
      "mgr_rep (ctx\<lparr>keepalive := keepalive ctx, procs := h\<rparr>) ys"
    using mgr_rep_set_data [OF rep p q ka] by blast
  have "ctx' = ctx\<lparr>procs := h\<rparr>"
    using assms(2) Some e st h(1) get_element_list [OF mgr_rep_wf [OF rep], of pname]
    by (simp add: http_patch_pod_live_def Let_def)
  with h(2) show ?thesis by (auto simp: mgr_inv_def)
qed

lemma default_inv:
  assumes rep: "mgr_rep ctx xs" and "http_reply_default ev req ctx = Some (r, ctx')"
  shows "mgr_inv ctx'"
proof -
  have "mgr_inv ctx" using rep by (auto simp: mgr_inv_def)
  moreover have "ctx' = ctx" if "http_reply_pod_live req pname ctx = Some (r, ctx')" for pname
    using get_live_inv [OF rep, of req pname] that by auto
  ultimately show ?thesis
    using assms(2) patch_live_inv [OF rep, of ev req _ r ctx']
    by (auto simp: http_reply_default_def Let_def split: option.splits if_splits)
qed

lemma peer_reply_inv: "mgr_rep ctx xs \<Longrightarrow> mgr_rep (http_recv_reply r ctx) xs"
  by (cases r) (simp_all add: http_recv_reply_def mgr_rep_def flags_ok_def)

lemma http_request_inv:
  "make_http_request ctx host port cmd path tm = Some ctx' \<Longrightarrow> mgr_rep ctx xs \<Longrightarrow> mgr_rep ctx' xs"
  by (auto simp: make_http_request_def mgr_rep_def)

lemma https_request_inv:
  "make_https_request_for_k8s ctx host port cmd path tm hdr body = Some ctx' \<Longrightarrow> mgr_rep ctx xs \<Longrightarrow> mgr_rep ctx' xs"
  by (auto simp: make_https_request_for_k8s_def mgr_rep_def Let_def)

lemma api_patch_inv: "k8s_api_patch_pod_status ctx s = Some ctx' \<Longrightarrow> mgr_rep ctx xs \<Longrightarrow> mgr_rep ctx' xs"
  by (auto simp: k8s_api_patch_pod_status_def intro: https_request_inv)

lemma update_label_inv:
  assumes "main_update_pod_label ctx = Some ctx'" and "mgr_rep ctx xs"
  shows "mgr_rep ctx' xs"
proof -
  have "mgr_rep (ctx\<lparr>ha_mode := m\<rparr>) xs" for m using assms(2) by (simp add: mgr_rep_def)
  with assms(1) show ?thesis
    by (auto simp: main_update_pod_label_def Let_def intro: api_patch_inv)
qed

lemma check_peer_inv: "main_check_peer_pod ctx = Some ctx' \<Longrightarrow> mgr_rep ctx xs \<Longrightarrow> mgr_rep ctx' xs"
  by (auto simp: main_check_peer_pod_def intro: http_request_inv)

lemma beat_ok: "ka_ok ka \<Longrightarrow> ka_ok (beat i ka)"
  by (simp add: ka_ok_def beat_def)

text \<open>Every event keeps the invariant.\<close>

lemma step_inv:
  assumes inv: "mgr_inv ctx" and en: "enabled ctx e"
    and inc: "\<And>ka. ka_ok ka \<Longrightarrow> ka_ok (increase ka)"
    and step: "mgr_event_step ev increase e ctx = Some ctx'"
  shows "mgr_inv ctx'"
proof -
  obtain xs where rep: "mgr_rep ctx xs" using inv by (auto simp: mgr_inv_def)
  show ?thesis
  proof (cases e)
    case (Fire t)
    show ?thesis
    proof (cases t)
      case (Check_proc a)
      with Fire en rep have "a \<in> fst ` set xs" by (simp add: enabled_def mgr_rep_def)
      with Fire Check_proc step check_proc_alive_inv [OF rep] show ?thesis
        by (fastforce simp: mgr_event_step_def mgr_inv_def)
    next
      case Tick
      obtain c where "mgr_main_tick increase ctx = Some c" "mgr_rep c xs"
        using main_tick_inv [where increase = increase, OF rep inc [OF mgr_rep_ka [OF rep]]] by blast
      with Fire Tick step show ?thesis
        by (auto simp: mgr_event_step_def mgr_inv_def)
    next
      case Check_peer
      with Fire step check_peer_inv [OF _ rep] show ?thesis by (auto simp: mgr_event_step_def mgr_inv_def)
    next
      case Update_label
      with Fire step update_label_inv [OF _ rep] show ?thesis by (auto simp: mgr_event_step_def mgr_inv_def)
    qed
  next
    case (Peer_reply r)
    with step peer_reply_inv [OF rep] show ?thesis by (auto simp: mgr_event_step_def mgr_inv_def)
  next
    case (Api_reply r)
    with step inv show ?thesis by (simp add: mgr_event_step_def https_recv_reply_def)
  next
    case (Get_start req)
    with step inv show ?thesis by (simp add: mgr_event_step_def http_reply_pod_start_def)
  next
    case (At_ready req)
    obtain r c where "http_reply_pod_ready ev req ctx = Some (r, c)" "mgr_rep c xs"
      using ready_inv [OF rep] by blast
    with At_ready step show ?thesis by (auto simp: mgr_event_step_def mgr_inv_def)
  next
    case (At_other req)
    with step default_inv [OF rep] show ?thesis by (auto simp: mgr_event_step_def)
  next
    case (Beat i)
    have "mgr_rep (ctx\<lparr>keepalive := beat i (keepalive ctx)\<rparr>) xs"
      using rep beat_ok [OF mgr_rep_ka [OF rep]] by (simp add: mgr_rep_def)
    with Beat step show ?thesis by (auto simp: mgr_event_step_def mgr_inv_def)
  qed
qed

lemma reach_inv:
  assumes "mgr_reach ev increase ctx ctx'" and "mgr_inv ctx"
    and "\<And>ka. ka_ok ka \<Longrightarrow> ka_ok (increase ka)"
  shows "mgr_inv ctx'"
  using assms
proof (induction rule: mgr_reach.induct)
  case (reach_step ctx ctx1 e ctx2)
  then show ?case using step_inv by blast
qed

text \<open>The events that read the list never fault in a state that satisfies the invariant.\<close>

lemma safe_events:
  assumes inv: "mgr_inv ctx" and inc: "\<And>ka. ka_ok ka \<Longrightarrow> ka_ok (increase ka)"
  shows "Check_proc a \<in> set (timers ctx) \<Longrightarrow> mgr_event_step ev increase (Fire (Check_proc a)) ctx \<noteq> None"
    and "mgr_event_step ev increase (Fire Tick) ctx \<noteq> None"
    and "mgr_event_step ev increase (At_ready req) ctx \<noteq> None"
proof -
  obtain xs where rep: "mgr_rep ctx xs" using inv by (auto simp: mgr_inv_def)
  show "mgr_event_step ev increase (Fire (Check_proc a)) ctx \<noteq> None" if "Check_proc a \<in> set (timers ctx)"
  proof -
    have "a \<in> fst ` set xs" using that rep by (simp add: mgr_rep_def)
    then show ?thesis using check_proc_alive_inv [OF rep] by (fastforce simp: mgr_event_step_def)
  qed
  show "mgr_event_step ev increase (Fire Tick) ctx \<noteq> None"
    using main_tick_inv [where increase = increase, OF rep inc [OF mgr_rep_ka [OF rep]]]
    by (auto simp: mgr_event_step_def)
  show "mgr_event_step ev increase (At_ready req) ctx \<noteq> None"
    using ready_inv [OF rep, of ev req] by (auto simp: mgr_event_step_def)
qed

section \<open>The start\<close>

lemma set_data_outside:
  assumes wf: "wf_list h root xs" and cell: "cells h a = Some e" and "a \<notin> set (root # map fst xs)"
  shows "\<exists>h'. set_data h a d = Some h' \<and> wf_list h' root xs \<and> cells h' a = Some (e\<lparr>data := Some d\<rparr>)
     \<and> oom h' = oom h"
proof -
  let ?h = "h\<lparr>cells := (cells h)(a \<mapsto> e\<lparr>data := Some d\<rparr>)\<rparr>"
  have "seg ?h None ((root, None, None) # map cell_of xs) None = seg h None ((root, None, None) # map cell_of xs) None"
    using assms(3) by (intro seg_frame) auto
  moreover have "dom (cells ?h) = dom (cells h)" using cell by auto
  ultimately have "wf_list ?h root xs" using wf by (simp add: wf_list_def)
  moreover have "set_data h a d = Some ?h"
    using cell by (simp add: set_data_def deref_def store_def)
  ultimately show ?thesis by auto
qed

text \<open>
  The list under construction: as many processes as slots handed out, each with its own slot.
\<close>

definition slots_rep :: "mgr_ctx \<Rightarrow> proc_ctx node list \<Rightarrow> nat \<Rightarrow> bool" where
  "slots_rep ctx xs num \<longleftrightarrow> mgr_rep ctx xs \<and> \<not> oom (procs ctx) \<and> length xs = num
     \<and> (\<lambda>(a, k, p). keep_index p) ` set xs = {..<num}"

lemma length_insert_node: "length (insert_node x xs) = Suc (length xs)"
proof -
  have "length (takeWhile P xs) + length (dropWhile P xs) = length xs" for P
    by (metis length_append takeWhile_dropWhile_id)
  then show ?thesis by (simp add: insert_node_def)
qed

lemma create_proc_slots:
  assumes rep: "slots_rep ctx xs num"
    and step: "create_proc_status_check ea ctx pname num = Some (res, ctx')"
  shows "res = 0 \<longleftrightarrow> num < SYSCONF_MAX_APPL_NUM \<and> ea (Check_proc (brk (procs ctx))) \<and> pname \<notin> node_key ` set xs"
    and "res = 0 \<Longrightarrow> \<exists>ys. slots_rep ctx' ys (Suc num) \<and> node_key ` set ys = insert pname (node_key ` set xs)"
    and "res \<noteq> 0 \<Longrightarrow> res = -1"
proof -
  let ?p = "\<lparr>proc_name = pname, keep_index = num, alive_status = 0, force_status = 0, ev_check_status = True\<rparr>"
  let ?q = "?p\<lparr>ev_check_status := False\<rparr>"
  let ?a = "brk (procs ctx)"
  let ?ka = "(keepalive ctx)\<lparr>retry := (retry (keepalive ctx))[num := 0]\<rparr>"
  have mr: "mgr_rep ctx xs" and oom: "\<not> oom (procs ctx)" using rep by (auto simp: slots_rep_def)
  have wf: "wf_list (procs ctx) (proc_list ctx) xs" by (rule mgr_rep_wf [OF mr])
  obtain h where h: "new_element (procs ctx) (Some pname) (Some ?q) = (Some ?a, h)"
      "wf_list h (proc_list ctx) xs"
      "cells h ?a = Some \<lparr>forward = None, backward = None, key = Some pname, data = Some ?q\<rparr>"
      "?a \<notin> set (proc_list ctx # map fst xs)" "\<not> oom h"
    using new_element_list [OF wf oom] by blast
  obtain h1 where h1: "set_data h ?a ?p = Some h1" "wf_list h1 (proc_list ctx) xs"
      "cells h1 ?a = Some \<lparr>forward = None, backward = None, key = Some pname, data = Some ?p\<rparr>" "\<not> oom h1"
    using set_data_outside [OF h(2,3,4), of ?p] h(5) by auto
  have ka: "ka_ok ?ka" using mgr_rep_ka [OF mr] by (simp add: ka_ok_def)
  show main: "res = 0 \<longleftrightarrow> num < SYSCONF_MAX_APPL_NUM \<and> ea (Check_proc ?a) \<and> pname \<notin> node_key ` set xs"
    and "res = 0 \<Longrightarrow> \<exists>ys. slots_rep ctx' ys (Suc num) \<and> node_key ` set ys = insert pname (node_key ` set xs)"
    and "res \<noteq> 0 \<Longrightarrow> res = -1"
  proof (atomize (full), cases "num < SYSCONF_MAX_APPL_NUM \<and> ea (Check_proc ?a)")
    case False
    then show "(res = 0 \<longleftrightarrow> num < SYSCONF_MAX_APPL_NUM \<and> ea (Check_proc ?a) \<and> pname \<notin> node_key ` set xs) \<and>
        (res = 0 \<longrightarrow> (\<exists>ys. slots_rep ctx' ys (Suc num) \<and> node_key ` set ys = insert pname (node_key ` set xs))) \<and>
        (res \<noteq> 0 \<longrightarrow> res = -1)"
      using step h(1) h1(1)
      by (cases "num < SYSCONF_MAX_APPL_NUM") (auto simp: create_proc_status_check_def)
  next
    case True
    have r: "idx (retry (keepalive ctx)) num = Some (retry (keepalive ctx) ! num)"
      using True mgr_rep_ka [OF mr] by (simp add: idx_def ka_ok_def)
    have unf: "create_proc_status_check ea ctx pname num =
        Option.bind (add_element h1 (proc_list ctx) ?a) (\<lambda>(res, h2).
          Some (res, ctx\<lparr>keepalive := ?ka, procs := h2, timers := timers ctx @ [Check_proc ?a]\<rparr>))"
      using True r h(1) h1(1) by (simp add: create_proc_status_check_def)
    show "(res = 0 \<longleftrightarrow> num < SYSCONF_MAX_APPL_NUM \<and> ea (Check_proc ?a) \<and> pname \<notin> node_key ` set xs) \<and>
        (res = 0 \<longrightarrow> (\<exists>ys. slots_rep ctx' ys (Suc num) \<and> node_key ` set ys = insert pname (node_key ` set xs))) \<and>
        (res \<noteq> 0 \<longrightarrow> res = -1)"
    proof (cases "pname \<in> node_key ` set xs")
      case dup: True
      have "add_element h1 (proc_list ctx) ?a = Some (-1, h1)"
        by (rule add_element_dup [OF h1(2,3) _ dup]) simp
      with unf step dup show ?thesis by auto
    next
      case new: False
      obtain h2 where h2: "add_element h1 (proc_list ctx) ?a = Some (0, h2)"
          "wf_list h2 (proc_list ctx) (insert_node (?a, pname, ?p) xs)" "oom h2 = oom h1"
        using add_element_new [OF h1(2,3) _ _ h(4) new] by auto
      let ?c = "ctx\<lparr>keepalive := ?ka, procs := h2, timers := timers ctx @ [Check_proc ?a]\<rparr>"
      have c: "res = 0" "ctx' = ?c" using unf step h2(1) by auto
      have "mgr_rep ?c (insert_node (?a, pname, ?p) xs)"
        using mr h2(2) ka True by (auto simp: mgr_rep_def set_insert_node proc_ok_def)
      then have "slots_rep ?c (insert_node (?a, pname, ?p) xs) (Suc num)"
        using rep h2(3) h1(4) by (auto simp: slots_rep_def set_insert_node length_insert_node lessThan_Suc)
      moreover have "node_key ` set (insert_node (?a, pname, ?p) xs) = insert pname (node_key ` set xs)"
        by (simp add: set_insert_node)
      ultimately show ?thesis using c True new by blast
    qed
  qed
qed

text \<open>The process names a section of the configuration lists, line by line up to the next section.\<close>

function listed_names :: "string \<Rightarrow> string list" where
  "listed_names rest =
     (case fgets 256 rest of
        None \<Rightarrow> []
      | Some (line, rest') \<Rightarrow>
          (case line_token line of
             None \<Rightarrow> []
           | Some None \<Rightarrow> listed_names rest'
           | Some (Some token) \<Rightarrow> token # listed_names rest'))"
  by pat_completeness auto

termination
proof (relation "measure length")
  show "wf (measure (length :: string \<Rightarrow> nat))" by simp
qed (use fgets_shrinks [of 254] in \<open>auto simp: numeral_eq_Suc\<close>)

declare listed_names.simps [simp del]

lemma slots_rep_keys:
  assumes "slots_rep ctx xs num"
  shows "card (node_key ` set xs) = num"
proof -
  have "distinct (map node_key xs)"
    using assms strict_sorted_iff unfolding slots_rep_def mgr_rep_def wf_list_def by blast
  then show ?thesis using assms by (metis distinct_card length_map set_map slots_rep_def)
qed

lemma read_applications_slots:
  "slots_rep ctx xs num \<Longrightarrow> read_applications ea ctx rest num = Some (r, ctx') \<Longrightarrow> 0 \<le> r \<Longrightarrow>
   \<exists>ys. slots_rep ctx' ys (nat r) \<and> nat r = num + length (listed_names rest)
     \<and> node_key ` set ys = node_key ` set xs \<union> set (listed_names rest)"
proof (induction ea ctx rest num arbitrary: xs rule: read_applications.induct)
  case (1 ea ctx rest num)
  show ?case
  proof (cases "fgets 256 rest")
    case None
    with "1.prems" show ?thesis
      by (auto simp: read_applications.simps [of ea ctx rest num] listed_names.simps [of rest])
  next
    case (Some lr)
    obtain getBuf rest' where l: "fgets 256 rest = Some (getBuf, rest')" using Some by (cases lr) auto
    show ?thesis
    proof (cases "line_token getBuf")
      case None
      with l "1.prems" show ?thesis
        by (auto simp: read_applications.simps [of ea ctx rest num] listed_names.simps [of rest])
    next
      case skip: (Some t)
      show ?thesis
      proof (cases t)
        case None
        with l skip "1.prems" "1.IH"(1) [OF l refl skip None] show ?thesis
          by (auto simp: read_applications.simps [of ea ctx rest num] listed_names.simps [of rest])
      next
        case (Some token)
        obtain res c where c: "create_proc_status_check ea ctx token num = Some (res, c)" "\<not> res < 0"
            "read_applications ea c rest' (num + 1) = Some (r, ctx')"
          using "1.prems"(2,3) l skip Some
          by (auto simp: read_applications.simps [of ea ctx rest num] split: option.splits if_splits)
        have "res = 0" using create_proc_slots(3) [OF "1.prems"(1) c(1)] c(2) by linarith
        then obtain ys where ys: "slots_rep c ys (num + 1)" "node_key ` set ys = insert token (node_key ` set xs)"
          using create_proc_slots(2) [OF "1.prems"(1) c(1)] by auto
        have "listed_names rest = token # listed_names rest'"
          using l skip Some by (simp add: listed_names.simps [of rest])
        then show ?thesis
          using "1.IH"(2) [OF l refl skip Some c(1) refl c(2) ys(1) c(3) "1.prems"(3)] ys(2) by auto
      qed
    qed
  qed
qed

text \<open>Everything the invariant reads; reading the environment leaves it alone.\<close>

definition core_of :: "mgr_ctx \<Rightarrow> (int \<times> int \<times> addr \<times> proc_ctx heap) \<times> T_keepalive \<times> timer list \<times> int \<times> int" where
  "core_of ctx = ((force_not_ready ctx, my_sys_status ctx, proc_list ctx, procs ctx), keepalive ctx,
     timers ctx, peer_pod_start (pod ctx), peer_pod_ready (pod ctx))"

lemma api_core: "k8s_api_patch_pod_status ctx st = Some ctx' \<Longrightarrow> core_of ctx' = core_of ctx"
  by (auto simp: k8s_api_patch_pod_status_def make_https_request_for_k8s_def Let_def core_of_def)

lemma core_of_pod:
  "peer_pod_start p = peer_pod_start (pod ctx) \<Longrightarrow> peer_pod_ready p = peer_pod_ready (pod ctx) \<Longrightarrow>
   core_of (ctx\<lparr>pod := p\<rparr>) = core_of ctx"
  by (simp add: core_of_def)

lemma access_core:
  assumes "init_k8s_access w ctx m = Some (r, ctx')"
  shows "core_of ctx' = core_of ctx"
proof -
  have api: "core_of c' = core_of ctx"
    if "k8s_api_patch_pod_status c st = Some c'" "core_of c = core_of ctx" for c c' st
    using api_core [OF that(1)] that(2) by simp
  show ?thesis
    using assms by (auto simp: init_k8s_access_def Let_def core_of_pod split: option.split_asm elim!: api)
qed

lemma getenv_core:
  assumes "main_init_getenv w ctx = Some (r, ctx')"
  shows "core_of ctx' = core_of ctx"
proof -
  have acc: "core_of c' = core_of ctx"
    if "init_k8s_access w c m = Some (r', c')" "core_of c = core_of ctx" for c c' m r'
    using access_core [OF that(1)] that(2) by simp
  show ?thesis
    using assms by (auto simp: main_init_getenv_def Let_def core_of_pod split: option.split_asm elim!: acc)
qed

lemma mgr_rep_core: "core_of ctx' = core_of ctx \<Longrightarrow> mgr_rep ctx' xs = mgr_rep ctx xs"
  by (simp add: core_of_def mgr_rep_def flags_ok_def)

text \<open>A successful start establishes the invariant, with one slot for each listed process.\<close>

definition configured :: "start_env \<Rightarrow> os \<Rightarrow> string list" where
  "configured se w =
     (case sysconf_path se of None \<Rightarrow> [] | Some path \<Rightarrow>
        (case files w path of None \<Rightarrow> [] | Some content \<Rightarrow>
           (case seek_section se content ''APPLICATIONS'' of None \<Rightarrow> [] | Some rest \<Rightarrow> listed_names rest)))"

lemma add_timer_slots:
  assumes "add_timer se t ctx = (r, ctx')" and "slots_rep ctx xs n" and "t \<in> {Tick, Check_peer, Update_label}"
  shows "slots_rep ctx' xs n"
  using assms by (auto simp: add_timer_def slots_rep_def mgr_rep_def split: if_splits)

lemma keepalive_list_loop:
  assumes "create_keepalive_list ea w sysconf seek ctx = Some (r, ctx')" and "\<not> r < 0"
  obtains path content rest where "sysconf = Some path" "files w path = Some content"
    "seek content ''APPLICATIONS'' = Some rest" "read_applications ea ctx rest 0 = Some (r, ctx')"
  using assms by (simp add: create_keepalive_list_def split: option.split_asm)

lemma initialize_slots:
  assumes "main_initialize se w (zero_mgr ka) = Some (0, ctx)" and "ka_ok ka"
  shows "\<exists>ys. slots_rep ctx ys (length (configured se w)) \<and> node_key ` set ys = set (configured se w)
     \<and> distinct (configured se w) \<and> {Tick, Check_peer, Update_label} \<subseteq> set (timers ctx)"
proof -
  obtain r1 c1 where c1: "main_init_getenv w (zero_mgr ka) = Some (r1, c1)" "\<not> r1 < 0"
    and g: "\<not> keepalive_init se < 0" "bind_ok se" "shm_ok se"
    using assms(1) by (auto simp: main_initialize_def main_init_httpserver_def split: if_splits)
  have core: "core_of c1 = core_of (zero_mgr ka)" by (rule getenv_core [OF c1(1)])
  obtain h where h: "new_element (procs c1) None None = (Some 1, h)" "wf_list h 1 []" "\<not> oom h"
    using core wf_list_empty by (auto simp: core_of_def zero_mgr_def new_element_def empty_heap_def)
  let ?c2 = "c1\<lparr>proc_list := 1, procs := h\<rparr>"
  have "mgr_rep ?c2 []"
    using core h(2) assms(2) by (simp add: mgr_rep_def core_of_def zero_mgr_def flags_ok_def zero_pod_def)
  then have s2: "slots_rep ?c2 [] 0" using h(3) by (simp add: slots_rep_def)
  have unf: "main_initialize se w (zero_mgr ka) =
      Option.bind (create_keepalive_list (event_add se) w (sysconf_path se) (seek_section se) ?c2)
        (\<lambda>(r, ctx). if r < 0 then Some (-1, ctx) else Some (start_timers se ctx))"
    using c1 g h(1) by (simp add: main_initialize_def main_init_httpserver_def)
  obtain rc where rc: "create_keepalive_list (event_add se) w (sysconf_path se) (seek_section se) ?c2 = Some rc"
      "(case rc of (r, ctx) \<Rightarrow> if r < 0 then Some (-1, ctx) else Some (start_timers se ctx)) = Some (0, ctx)"
    using assms(1) unfolding unf bind_Some_iff by blast
  then obtain r c3 where c3: "create_keepalive_list (event_add se) w (sysconf_path se) (seek_section se) ?c2 = Some (r, c3)"
      "\<not> r < 0" "start_timers se c3 = (0, ctx)"
    using that by (cases rc) (simp split: if_split_asm)
  obtain path content rest where rest: "sysconf_path se = Some path" "files w path = Some content"
      "seek_section se content ''APPLICATIONS'' = Some rest" "read_applications (event_add se) ?c2 rest 0 = Some (r, c3)"
    using c3(2) by (rule keepalive_list_loop [OF c3(1)])
  then have names: "configured se w = listed_names rest" by (simp add: configured_def)
  obtain ys where s3: "slots_rep c3 ys (length (configured se w))" "node_key ` set ys = set (configured se w)"
    using read_applications_slots [OF s2 rest(4)] c3(2) unfolding names by auto
  obtain c4 c5 where t: "add_timer se Tick c3 = (0, c4)" "add_timer se Check_peer c4 = (0, c5)"
      "add_timer se Update_label c5 = (0, ctx)"
    using c3(3) by (auto simp: start_timers_def add_timer_def Let_def split: if_splits)
  have sl: "slots_rep ctx ys (length (configured se w))"
    using add_timer_slots [OF t(3) add_timer_slots [OF t(2) add_timer_slots [OF t(1) s3(1)]]] by simp
  have "card (node_key ` set ys) = length (configured se w)"
    by (rule slots_rep_keys [OF sl])
  then have "distinct (configured se w)" using s3(2) by (metis card_distinct)
  moreover have "{Tick, Check_peer, Update_label} \<subseteq> set (timers ctx)"
    using t by (auto simp: add_timer_def split: if_splits)
  ultimately show ?thesis using sl s3(2) by blast
qed

section \<open>What the timers send\<close>

text \<open>The texts the label timer puts into buffers of 1024 bytes fit, and the mode of this side is in its block.\<close>

definition label_fits :: "pod_info \<Rightarrow> bool" where
  "label_fits p \<longleftrightarrow> as_mode_at p \<noteq> None
     \<and> length (''/api/v1/namespaces/'' @ my_pod_namespace p @ ''/pods/'' @ pod_my_name p) < 1024
     \<and> length (''https://'' @ k8s_service_host p @ '':'' @ sprintf_d (k8s_service_port p)
          @ ''/api/v1/namespaces/'' @ my_pod_namespace p @ ''/pods/'' @ pod_my_name p) < 1024"

text \<open>All of the pod but what is observed of the peer.\<close>

definition settings :: "pod_info \<Rightarrow> pod_info" where
  "settings p = p\<lparr>peer_pod_start := 0, peer_pod_ready := 0\<rparr>"

lemma settings_cong:
  "settings p = settings q \<Longrightarrow> label_fits p = label_fits q \<and> peer_pod_url p = peer_pod_url q"
  by (cases p; cases q) (simp add: settings_def label_fits_def as_mode_at_def)

lemma label_of_short: "length (label_of f s m a r) \<le> 15"
  by (simp add: label_of_def)

lemma label_body: "length st \<le> 15 \<Longrightarrow> length (label_pod_status st) < 1024"
  by (simp add: label_pod_status_def)

lemma api_runs: "label_fits (pod ctx) \<Longrightarrow> length st \<le> 15 \<Longrightarrow> k8s_api_patch_pod_status ctx st \<noteq> None"
  using label_body [of st]
  by (simp add: k8s_api_patch_pod_status_def make_https_request_for_k8s_def label_fits_def fits_def Let_def
      del: append.simps length_append)

lemma update_label_runs: "label_fits (pod ctx) \<Longrightarrow> main_update_pod_label ctx \<noteq> None"
proof -
  assume l: "label_fits (pod ctx)"
  then obtain m where m: "as_mode_at (pod ctx) = Some m" by (auto simp: label_fits_def)
  let ?st = "label_of (force_not_ready ctx) (my_sys_status ctx) m (peer_pod_start (pod ctx)) (peer_pod_ready (pod ctx))"
  have "k8s_api_patch_pod_status (ctx\<lparr>ha_mode := x\<rparr>) ?st \<noteq> None" for x
    using l label_of_short by (intro api_runs) simp_all
  then show ?thesis unfolding main_update_pod_label_def Let_def m bind.simps .
qed

lemma check_peer_runs: "main_check_peer_pod ctx \<noteq> None \<longleftrightarrow> length (peer_pod_url (pod ctx)) < 1005"
proof -
  have d: "length (sprintf_d 32768) = 5" by (simp add: sprintf_d_def nat_base.simps)
  show ?thesis
    by (auto simp: main_check_peer_pod_def make_http_request_def fits_def K8SMSG_HTTP_LISTEN_def d)
qed

lemma api_pod: "k8s_api_patch_pod_status ctx st = Some ctx' \<Longrightarrow> pod ctx' = pod ctx
    \<and> (as_mode_at (pod ctx) \<noteq> None \<longrightarrow> label_fits (pod ctx))"
  by (auto simp: k8s_api_patch_pod_status_def make_https_request_for_k8s_def Let_def label_fits_def)

lemma access_pod:
  assumes "init_k8s_access w ctx m = Some (r, ctx')" and "0 \<le> r" and "as_mode_at (pod ctx) \<noteq> None"
  shows "label_fits (pod ctx')"
proof -
  obtain c st where c: "k8s_api_patch_pod_status c st = Some ctx'" "as_mode_at (pod c) = as_mode_at (pod ctx)"
    using assms(1,2) by (auto simp: init_k8s_access_def Let_def as_mode_at_def split: option.split_asm)
  with api_pod [OF c(1)] assms(3) show ?thesis by simp
qed

lemma getenv_pod: "main_init_getenv w ctx = Some (r, ctx') \<Longrightarrow> 0 \<le> r \<Longrightarrow> label_fits (pod ctx')"
  by (auto simp: main_init_getenv_def Let_def split: option.split_asm intro: access_pod)

lemma create_proc_pod: "create_proc_status_check ea ctx nm k = Some (r, ctx') \<Longrightarrow> pod ctx' = pod ctx"
  by (auto simp: create_proc_status_check_def Let_def split: if_splits prod.splits)

lemma read_applications_pod: "read_applications ea ctx rest n = Some (r, ctx') \<Longrightarrow> pod ctx' = pod ctx"
proof (induction ea ctx rest n rule: read_applications.induct)
  case (1 ea ctx rest n)
  show ?case
  proof (cases "fgets 256 rest")
    case None
    with "1.prems" show ?thesis by (simp add: read_applications.simps [of ea ctx rest n])
  next
    case (Some gr)
    obtain g rest' where g: "gr = (g, rest')" by (cases gr)
    note step = "1.prems" [unfolded read_applications.simps [of ea ctx rest n] Some g option.case prod.case]
    show ?thesis
    proof (cases "line_token g")
      case None
      with step show ?thesis by simp
    next
      case (Some tk)
      show ?thesis
      proof (cases tk)
        case None
        with "1.IH"(1) \<open>fgets 256 rest = Some gr\<close> g Some step show ?thesis by simp
      next
        case (Some token)
        with step \<open>line_token g = Some tk\<close> obtain res c1 where c1: "create_proc_status_check ea ctx token n = Some (res, c1)"
          and r: "(if res < 0 then Some (-1, c1) else read_applications ea c1 rest' (n + 1)) = Some (r, ctx')"
          by (simp split: option.split_asm prod.split_asm)
        from r show ?thesis
        proof (cases "res < 0")
          case True
          with r create_proc_pod [OF c1] show ?thesis by simp
        next
          case False
          with r have run: "read_applications ea c1 rest' (n + 1) = Some (r, ctx')" by simp
          have "pod ctx' = pod c1"
            by (rule "1.IH"(2) [OF \<open>fgets 256 rest = Some gr\<close> g [symmetric] \<open>line_token g = Some tk\<close> Some c1 refl False run])
          with create_proc_pod [OF c1] show ?thesis by simp
        qed
      qed
    qed
  qed
qed

lemma initialize_pod:
  assumes "main_initialize se w ctx0 = Some (0, ctx)"
  shows "label_fits (pod ctx)"
proof -
  have add: "pod (snd (add_timer se t c)) = pod c" for t c
    by (simp add: add_timer_def)
  have timer: "pod (snd (start_timers se c)) = pod c" for c
    by (simp add: start_timers_def Let_def split_beta add)
  obtain r1 c1 where c1: "main_init_getenv w ctx0 = Some (r1, c1)" "\<not> r1 < 0"
    and g: "\<not> keepalive_init se < 0" "bind_ok se" "shm_ok se"
    using assms by (auto simp: main_initialize_def main_init_httpserver_def split: if_splits)
  obtain root h where root: "new_element (procs c1) None None = (root, h)" by (cases "new_element (procs c1) None None")
  have unf: "main_initialize se w ctx0 = Option.bind root (\<lambda>a.
      Option.bind (create_keepalive_list (event_add se) w (sysconf_path se) (seek_section se) (c1\<lparr>proc_list := a, procs := h\<rparr>))
        (\<lambda>(r, ctx). if r < 0 then Some (-1, ctx) else Some (start_timers se ctx)))"
    using c1 g root by (simp add: main_initialize_def main_init_httpserver_def)
  obtain a where a: "root = Some a" using assms unf by (cases root) auto
  let ?c2 = "c1\<lparr>proc_list := a, procs := h\<rparr>"
  obtain rc where rc: "create_keepalive_list (event_add se) w (sysconf_path se) (seek_section se) ?c2 = Some rc"
      "(case rc of (r, ctx) \<Rightarrow> if r < 0 then Some (-1, ctx) else Some (start_timers se ctx)) = Some (0, ctx)"
    using assms unfolding unf a bind.simps(2) bind_Some_iff by blast
  obtain r c3 where c3: "rc = (r, c3)" by (cases rc)
  with rc(2) have r: "\<not> r < 0" "start_timers se c3 = (0, ctx)" by (simp_all split: if_split_asm)
  obtain path content rest where "read_applications (event_add se) ?c2 rest 0 = Some (r, c3)"
    using r(1) by (rule keepalive_list_loop [OF rc(1) [unfolded c3]])
  from read_applications_pod [OF this] have "pod c3 = pod c1" by simp
  moreover have "pod ctx = pod c3" using timer [of c3] r(2) by simp
  ultimately show ?thesis using getenv_pod [OF c1(1)] c1(2) by simp
qed

lemma step_settings:
  assumes "mgr_event_step ev increase e ctx = Some ctx'"
  shows "settings (pod ctx') = settings (pod ctx)"
proof -
  have req: "make_http_request c a p cm path t = Some c' \<Longrightarrow> pod c' = pod c" for c a p cm path t c'
    by (auto simp: make_http_request_def)
  have other: "http_reply_default ev req ctx = Some (r, c) \<Longrightarrow> pod c = pod ctx" for req r c
    by (auto simp: http_reply_default_def http_reply_pod_live_def http_patch_pod_live_def Let_def
        split: option.split_asm if_split_asm)
  have ready: "http_reply_pod_ready ev req ctx = Some (r, c) \<Longrightarrow> pod c = pod ctx" for req r c
    by (auto simp: http_reply_pod_ready_def Let_def split: option.split_asm if_split_asm)
  have "settings (pod (http_recv_reply r ctx)) = settings (pod ctx)" for r
    by (simp add: http_recv_reply_def settings_def split: option.split)
  then show ?thesis
    using assms
    by (auto simp: mgr_event_step_def check_proc_alive_def mgr_main_tick_def main_check_peer_pod_def
        main_update_pod_label_def https_recv_reply_def http_reply_pod_start_def Let_def split: mgr_event.split_asm timer.split_asm
        dest!: req other ready api_pod)
qed

lemma reach_settings: "mgr_reach ev increase ctx ctx' \<Longrightarrow> settings (pod ctx') = settings (pod ctx)"
  by (induction rule: mgr_reach.induct) (simp_all add: step_settings)

section \<open>The peer pod\<close>

definition pod_name_of :: "string \<Rightarrow> int \<Rightarrow> string" where
  "pod_name_of stem i = stem @ ''-'' @ sprintf_d i"

lemma peer_index_involution: "0 \<le> i \<Longrightarrow> peer_index (peer_index i) = i \<and> 0 \<le> peer_index i \<and> peer_index i \<noteq> i"
  by (auto simp: peer_index_def) presburger+

lemma no_dash_in_index: "CHR ''-'' \<notin> set (sprintf_d (int n))"
proof
  assume "CHR ''-'' \<in> set (sprintf_d (int n))"
  then have "CHR ''-'' \<in> set (nat_base 10 n)" by (simp add: sprintf_d_def)
  from nat_base_digits [OF _ _ this] obtain d where "digit_val (CHR ''-'') = Some d" by auto
  then show False using digit_val_not_sign by blast
qed

lemma peer_url_name:
  assumes "n < 2 ^ 31" and "length (pod_name_of stem (int n)) < 1024"
  shows "peer_url_of (pod_name_of stem (int n)) svc ns =
    map_option (\<lambda>u. (int n, u)) (fits 1024 (pod_name_of stem (peer_index (int n)) @ ''.'' @ svc @ ''.'' @ ns
      @ ''.svc.cluster.local''))"
proof -
  let ?d = "sprintf_d (int n)"
  have "strrchr (stem @ CHR ''-'' # ?d) (CHR ''-'') = Some (CHR ''-'' # ?d)"
    by (rule strrchr_append [OF no_dash_in_index])
  moreover have "atoi ?d = int n" by (rule atoi_sprintf_d_nat [OF assms(1)])
  ultimately show ?thesis
    using assms(2)
    by (simp add: peer_url_of_def pod_name_of_def fits_def Let_def)
qed

section \<open>The label\<close>

lemma label_cases:
  "label_of force sys m start ready = ''active'' \<longleftrightarrow>
     force \<noteq> 1 \<and> sys = 1 \<and> (m = CHR ''A'' \<or> \<not> (start > 0 \<and> ready \<noteq> 0))"
  "label_of force sys m start ready = ''force_not_ready'' \<longleftrightarrow> force = 1"
  "label_of force sys m start ready = ''proc_failed'' \<longleftrightarrow> force \<noteq> 1 \<and> sys \<noteq> 1"
  "label_of force sys m start ready \<in> {''active'', ''standby'', ''force_not_ready'', ''proc_failed''}"
  by (auto simp: label_of_def)

end
