(* ===== verification/K8smgr_Status.thy ===== *)
theory K8smgr_Status
  imports K8smgr_Spec Fort_Rows
begin

text \<open>
  The status page of the pod manager: the table of the watched processes with their counters, on the
  standard error stream and in the answer to \<open>/print/status\<close>
  (\<open>proc_info_fill_cb\<close>, \<open>proc_info_print\<close> and \<open>http_print_pod_status\<close> in
  \<open>src/src/k8smgr/main.c\<close>).
\<close>

section \<open>The code\<close>

definition proc_head_fmt :: string where "proc_head_fmt = ''NAME|KEEP_IDX|CNT|OLDCNT|RETRY''"
definition proc_fmt :: string where "proc_fmt = ''%s|%d|%d|%d|%d''"

text \<open>The keepalive arrays are shared memory, which the callback only reads.\<close>

definition proc_info_fill_cb :: "T_keepalive \<Rightarrow> proc_ctx heap \<times> ft_table \<Rightarrow> addr \<Rightarrow> (proc_ctx heap \<times> ft_table) option" where
  "proc_info_fill_cb ka st elem = do {
     let (h, table) = st;
     e \<leftarrow> deref h elem;
     (case key e of
        None \<Rightarrow> do { (r, table) \<leftarrow> ft_printf_ln table proc_head_fmt []; Some (h, table) }
      | Some k \<Rightarrow> do {
          p \<leftarrow> data e;
          if keep_index p \<ge> SYSCONF_MAX_APPL_NUM then Some (h, table)
          else do {
            c \<leftarrow> idx (cnt ka) (keep_index p);
            oc \<leftarrow> idx (oldcnt ka) (keep_index p);
            rt \<leftarrow> idx (retry ka) (keep_index p);
            (r, table) \<leftarrow> ft_printf_ln table proc_fmt
              [Fs (proc_name p), Fd (int (keep_index p)), Fd c, Fd oc, Fd rt];
            Some (h, table)
          }
        })
   }"

text \<open>The result is the text on the error stream and the text in the buffer.\<close>

definition proc_info_print :: "mgr_ctx \<Rightarrow> (string \<times> string) option" where
  "proc_info_print ctx = do {
     (r, table) \<leftarrow> ft_set_border_style ft_create_table FT_PLAIN_STYLE;
     let (r, table) = ft_set_cell_prop table FT_ANY_ROW 0 FT_CPROP_LEFT_PADDING 0;
     (h, table) \<leftarrow> list_element (Some (proc_info_fill_cb (keepalive ctx))) (procs ctx, table) (proc_list ctx);
     (s, table) \<leftarrow> ft_to_string table;
     out \<leftarrow> s;
     (s, table) \<leftarrow> ft_to_string table;
     buf \<leftarrow> s;
     Some (out, buf)
   }"

definition http_print_pod_status :: "http_req \<Rightarrow> mgr_ctx \<Rightarrow> (http_reply list \<times> string) option" where
  "http_print_pod_status req ctx = do {
     (out, buf) \<leftarrow> proc_info_print ctx;
     Some ([http_reply_common 0 200 (Some ''Ok'') (Some buf)], out)
   }"

section \<open>The rows\<close>

definition proc_head_cells :: "string list" where
  "proc_head_cells = [''NAME'', ''KEEP_IDX'', ''CNT'', ''OLDCNT'', ''RETRY'']"

definition proc_cells :: "T_keepalive \<Rightarrow> proc_ctx \<Rightarrow> string list" where
  "proc_cells ka p = [proc_name p, sprintf_d (int (keep_index p)), sprintf_d (cnt ka ! keep_index p),
     sprintf_d (oldcnt ka ! keep_index p), sprintf_d (retry ka ! keep_index p)]"

definition counters_int :: "T_keepalive \<Rightarrow> bool" where
  "counters_int ka \<longleftrightarrow> ka_ok ka
     \<and> (\<forall>x \<in> set (cnt ka) \<union> set (oldcnt ka) \<union> set (retry ka). - (2 ^ 31) \<le> x \<and> x < 2 ^ 31)"

lemma sprintf_d_field:
  assumes "- (2 ^ 31) \<le> x" and "x < 2 ^ 31"
  shows "length (sprintf_d x) \<le> 127 \<and> newline \<notin> set (sprintf_d x) \<and> CHR ''|'' \<notin> set (sprintf_d x)"
proof -
  have dv: "digit_val newline = None" "digit_val (CHR ''|'') = None" by (simp_all add: digit_val_def newline_def)
  have n: "newline \<notin> set (nat_base 10 k) \<and> CHR ''|'' \<notin> set (nat_base 10 k)" for k
    using nat_base_digits [of 10 newline k] nat_base_digits [of 10 "CHR ''|''" k] dv by auto
  have "length (nat_base 10 k) \<le> Suc 9" if "k \<le> 2 ^ 31" for k
    using that by (intro length_nat_base) simp_all
  then have "length (nat_base 10 (nat x)) \<le> Suc 9" "length (nat_base 10 (nat (- x))) \<le> Suc 9"
    using assms by simp_all
  then show ?thesis using n by (auto simp: sprintf_d_def newline_def)
qed

definition name_field :: "string \<Rightarrow> bool" where
  "name_field s \<longleftrightarrow> length s \<le> 127 \<and> newline \<notin> set s \<and> CHR ''|'' \<notin> set s"

lemma proc_cells_field:
  assumes "counters_int ka" and "keep_index p < SYSCONF_MAX_APPL_NUM" and "name_field (proc_name p)"
  shows "short_fields (proc_cells ka p)" "barless (proc_cells ka p)" "length (proc_cells ka p) = 5"
proof -
  have "cnt ka ! keep_index p \<in> set (cnt ka)" "oldcnt ka ! keep_index p \<in> set (oldcnt ka)"
    "retry ka ! keep_index p \<in> set (retry ka)"
    using assms(1,2) by (simp_all add: counters_int_def ka_ok_def)
  moreover have "int (keep_index p) < 2 ^ 31" using assms(2) by (simp add: SYSCONF_MAX_APPL_NUM_def)
  ultimately show "short_fields (proc_cells ka p)" "barless (proc_cells ka p)"
    using assms(1,3) sprintf_d_field unfolding short_fields_def barless_def proc_cells_def counters_int_def name_field_def
    by auto
  show "length (proc_cells ka p) = 5" by (simp add: proc_cells_def)
qed

lemma proc_fmt_text:
  "vsprintf proc_fmt [Fs (proc_name p), Fd (int (keep_index p)), Fd (cnt ka ! keep_index p),
     Fd (oldcnt ka ! keep_index p), Fd (retry ka ! keep_index p)] = Some (joined (proc_cells ka p))"
  "vsprintf proc_head_fmt [] = Some (joined proc_head_cells)"
  "length (cells_of proc_fmt) = 5" "length (cells_of proc_head_fmt) = 5"
  by (simp_all add: proc_fmt_def proc_head_fmt_def proc_cells_def proc_head_cells_def length_cells_of)

lemma proc_head_field: "short_fields proc_head_cells" "barless proc_head_cells" "length proc_head_cells = 5"
  by (simp_all add: proc_head_cells_def short_fields_def barless_def newline_def)

definition proc_step :: "T_keepalive \<Rightarrow> string \<Rightarrow> proc_ctx \<Rightarrow> ft_table \<Rightarrow> (proc_ctx option \<times> ft_table) option" where
  "proc_step ka k p table =
     (if keep_index p \<ge> SYSCONF_MAX_APPL_NUM then Some (Some p, table)
      else do {
        c \<leftarrow> idx (cnt ka) (keep_index p);
        oc \<leftarrow> idx (oldcnt ka) (keep_index p);
        rt \<leftarrow> idx (retry ka) (keep_index p);
        (r, table) \<leftarrow> ft_printf_ln table proc_fmt [Fs (proc_name p), Fd (int (keep_index p)), Fd c, Fd oc, Fd rt];
        Some (Some p, table)
      })"

definition proc_root :: "ft_table \<Rightarrow> ft_table option" where
  "proc_root table = map_option snd (ft_printf_ln table proc_head_fmt [])"

lemma set_data_same_proc: "cells h a = Some e \<Longrightarrow> data e = Some d \<Longrightarrow> set_data h a d = Some h"
  by (cases e) (simp add: set_data_def deref_def store_def fun_upd_idem)

interpretation proc_rows: list_callback "proc_info_fill_cb ka" proc_root "proc_step ka"
proof
  fix h :: "proc_ctx heap" and a e s k d s' d'
  assume c: "cells h a = Some e"
  show "key e = None \<Longrightarrow> proc_info_fill_cb ka (h, s) a = map_option (Pair h) (proc_root s)"
    using c by (cases "ft_printf_ln s proc_head_fmt []") (auto simp: proc_info_fill_cb_def proc_root_def deref_def)
  assume k: "key e = Some k" "data e = Some d"
  note sd = set_data_same_proc [OF c k(2)]
  have cb: "proc_info_fill_cb ka (h, s) a = map_option (\<lambda>r. (h, snd r)) (proc_step ka k d s)"
    using c k by (auto simp: proc_info_fill_cb_def proc_step_def deref_def bind_eq_None_conv map_option_case
      case_prod_unfold Let_def split: option.splits)
  show "proc_step ka k d s = None \<Longrightarrow> proc_info_fill_cb ka (h, s) a = None" by (simp add: cb)
  show "proc_step ka k d s = Some (None, s') \<Longrightarrow>
      proc_info_fill_cb ka (h, s) a = map_option (\<lambda>h'. (h', s')) (rem_element h (Some a))"
    by (auto simp: proc_step_def split: if_splits)
  assume st: "proc_step ka k d s = Some (Some d', s')"
  then have "d' = d" by (auto simp: proc_step_def split: if_splits)
  with st sd show "proc_info_fill_cb ka (h, s) a = map_option (\<lambda>h'. (h', s')) (set_data h a d')" by (simp add: cb)
qed

section \<open>The page\<close>

abbreviation watches :: "proc_ctx node list \<Rightarrow> proc_ctx list" where
  "watches xs \<equiv> map (snd \<circ> snd) xs"

lemma walk_procs:
  assumes "building t txts" and "counters_int ka"
    and "\<forall>p \<in> set (watches xs). keep_index p < SYSCONF_MAX_APPL_NUM \<and> name_field (proc_name p)"
  shows "walk (proc_step ka) xs t = Some (xs, append_rows t (map (proc_cells ka) (watches xs)))"
  using assms
proof (induction xs arbitrary: t txts)
  case (Cons x xs)
  obtain a k p where x: "x = (a, k, p)" by (cases x) auto
  have p: "keep_index p < SYSCONF_MAX_APPL_NUM" "name_field (proc_name p)" using Cons.prems(3) x by simp_all
  note f = proc_cells_field [OF Cons.prems(2) p]
  have ix: "idx (cnt ka) (keep_index p) = Some (cnt ka ! keep_index p)"
    "idx (oldcnt ka) (keep_index p) = Some (oldcnt ka ! keep_index p)"
    "idx (retry ka) (keep_index p) = Some (retry ka ! keep_index p)"
    using Cons.prems(2) p(1) by (simp_all add: idx_def counters_int_def ka_ok_def)
  obtain r where "ft_printf_ln t proc_fmt [Fs (proc_name p), Fd (int (keep_index p)), Fd (cnt ka ! keep_index p),
      Fd (oldcnt ka ! keep_index p), Fd (retry ka ! keep_index p)] = Some (r, append_rows t [proc_cells ka p])"
    using print_fields [OF Cons.prems(1) proc_fmt_text(1)] f proc_fmt_text(3) by (fastforce simp: short_fields_def)
  then have st: "proc_step ka k p t = Some (Some p, append_rows t [proc_cells ka p])"
    using ix p(1) by (simp add: proc_step_def del: bind_Some_iff)
  have "walk (proc_step ka) xs (append_rows t [proc_cells ka p]) =
      Some (xs, append_rows (append_rows t [proc_cells ka p]) (map (proc_cells ka) (watches xs)))"
    using Cons.prems(2,3) by (intro Cons.IH [OF append_rows_building [OF Cons.prems(1)]]) simp_all
  with st x show ?case by (simp add: comp_def)
qed simp

definition status_page :: "T_keepalive \<Rightarrow> proc_ctx list \<Rightarrow> string" where
  "status_page ka ps = lay_text (properties UNPADDED_TABLE) [] (proc_head_cells # map (proc_cells ka) ps)"

lemma status_page_rep:
  assumes "mgr_rep ctx xs" and "counters_int (keepalive ctx)" and "\<forall>p \<in> set (watches xs). name_field (proc_name p)"
    and "length xs \<le> SYSCONF_MAX_APPL_NUM"
  shows "proc_info_print ctx = Some (status_page (keepalive ctx) (watches xs), status_page (keepalive ctx) (watches xs))"
proof -
  let ?ka = "keepalive ctx" and ?head = "appended UNPADDED_TABLE proc_head_cells"
  let ?rs = "map (proc_cells ?ka) (watches xs)"
  let ?t = "append_rows ?head ?rs"
  have wf: "wf_list (procs ctx) (proc_list ctx) xs" using assms(1) by (rule mgr_rep_wf)
  have ps: "\<forall>p \<in> set (watches xs). keep_index p < SYSCONF_MAX_APPL_NUM \<and> name_field (proc_name p)"
    using assms(1,3) by (auto simp: mgr_rep_def proc_ok_def)
  obtain r where "ft_printf_ln UNPADDED_TABLE proc_head_fmt [] = Some (r, append_rows UNPADDED_TABLE [proc_head_cells])"
    using print_fields [OF unpadded_building proc_fmt_text(2)] proc_head_field proc_fmt_text(4)
    by (fastforce simp: short_fields_def)
  then have root: "proc_root UNPADDED_TABLE = Some ?head" by (simp add: proc_root_def)
  have b0: "building ?head [proc_head_cells]" using appended_building [OF unpadded_building] by simp
  obtain h where h: "list_element (Some (proc_info_fill_cb ?ka)) (procs ctx, UNPADDED_TABLE) (proc_list ctx) = Some (h, ?t)"
    using proc_rows.traversal_Some [OF wf root walk_procs [OF b0 assms(2) ps]] by blast
  have b: "building ?t (proc_head_cells # ?rs)" using append_rows_building [OF b0] by simp
  have ok: "\<forall>r \<in> set (proc_head_cells # ?rs). short_fields r \<and> length r = 5"
    using proc_head_field proc_cells_field [OF assms(2)] ps by auto
  have "length (proc_head_cells # ?rs) \<le> 20000" using assms(4) by (simp add: SYSCONF_MAX_APPL_NUM_def)
  moreover have "n_cols (proc_head_cells # ?rs) \<le> 5" using ok by (intro n_cols_le) auto
  then have "one_line (properties ?t) (\<lambda>c. if c = 0 then 0 else 1) (proc_head_cells # ?rs)"
    using ok by (simp add: FT_ANY_COLUMN_def plain_one_line short_fields_def)
  moreover have "\<forall>r \<in> set (proc_head_cells # ?rs). short_fields r \<and> r \<noteq> [] \<and> length r \<le> 11" using ok by fastforce
  ultimately obtain t' t'' where "ft_to_string ?t = Some (Some (status_page ?ka (watches xs)), t')"
      "ft_to_string t' = Some (Some (status_page ?ka (watches xs)), t'')"
    using print_short [OF b, of "\<lambda>c. if c = 0 then 0 else 1"] plain_margins plain_border
    by (fastforce simp: status_page_def)
  then show ?thesis
    by (simp add: proc_info_print_def plain_style_set unpadded_set h del: bind_Some_iff map_map)
qed

end
