(* ===== verification/Proc.thy ===== *)
theory Proc
  imports K8smgr_Spec
begin

text \<open>
  The sample processes \<open>src/src/proc_a/main.c\<close> and \<open>src/src/proc_b/main.c\<close>, which register
  with the keepalive library and then increase their counter once a second for ever, and what the
  watch of the pod manager sees of them.

  \<open>keepalivelib_init\<close> and \<open>keepalivelib_increase\<close> belong to a binary library: the result of the
  first and the effect of the second are arguments.  The loop has no end, so it is followed for a
  number of seconds.
\<close>

section \<open>The loop\<close>

fun proc_loop :: "(T_keepalive \<Rightarrow> T_keepalive) \<Rightarrow> nat \<Rightarrow> T_keepalive \<Rightarrow> T_keepalive" where
  "proc_loop increase 0 ka = ka"
| "proc_loop increase (Suc n) ka = proc_loop increase n (increase ka)"

text \<open>\<open>Inl\<close> is the exit status of \<open>main\<close>, \<open>Inr\<close> the shared memory after \<open>n\<close> seconds.\<close>

definition proc_main :: "int \<Rightarrow> (T_keepalive \<Rightarrow> T_keepalive) \<Rightarrow> nat \<Rightarrow> T_keepalive \<Rightarrow> int + T_keepalive" where
  "proc_main init_result increase n ka = (if init_result < 0 then Inl (-1) else Inr (proc_loop increase n ka))"

section \<open>Under the watch\<close>

text \<open>The process runs for the given numbers of seconds, with a check after each of them.\<close>

fun watched_run :: "(T_keepalive \<Rightarrow> T_keepalive) \<Rightarrow> nat list \<Rightarrow> T_keepalive \<times> proc_ctx \<Rightarrow> (T_keepalive \<times> proc_ctx) option" where
  "watched_run increase [] st = Some st"
| "watched_run increase (d # ds) st = do {
     ka \<leftarrow> (case proc_main 0 increase d (fst st) of Inr ka \<Rightarrow> Some ka | Inl _ \<Rightarrow> None);
     st' \<leftarrow> check_proc ka (snd st);
     watched_run increase ds st'
   }"

lemma proc_loop_beat:
  assumes "ka_ok ka" and "i < SYSCONF_MAX_APPL_NUM"
  shows "ka_ok (proc_loop (beat i) n ka) \<and> cnt (proc_loop (beat i) n ka) ! i = cnt ka ! i + int n
     \<and> oldcnt (proc_loop (beat i) n ka) = oldcnt ka \<and> retry (proc_loop (beat i) n ka) = retry ka"
  using assms
proof (induction n arbitrary: ka)
  case (Suc n)
  have "ka_ok (beat i ka)" "cnt (beat i ka) ! i = cnt ka ! i + 1" "oldcnt (beat i ka) = oldcnt ka" "retry (beat i ka) = retry ka"
    using Suc.prems by (simp_all add: ka_ok_def beat_def)
  with Suc show ?case by simp
qed simp

text \<open>What a watched run keeps, and the number of checks since the counter last moved.\<close>

definition idle_checks :: "nat list \<Rightarrow> nat" where
  "idle_checks ds = length (takeWhile (\<lambda>d. d = 0) (rev ds))"

lemma watched_run_append:
  "watched_run inc (ds @ es) st = Option.bind (watched_run inc ds st) (watched_run inc es)"
proof (induction ds arbitrary: st)
  case (Cons d ds)
  then show ?case by (auto split: option.splits sum.splits simp: bind_eq_None_conv Option.bind_assoc cong: Option.bind_cong)
qed simp

lemma watched_run_state:
  assumes "ka_ok ka" and "keep_index p < SYSCONF_MAX_APPL_NUM" and "force_status p = 0"
    and "oldcnt ka ! keep_index p = cnt ka ! keep_index p" and "retry ka ! keep_index p = 0"
  shows "\<exists>ka' p'. watched_run (beat (keep_index p)) ds (ka, p) = Some (ka', p') \<and> ka_ok ka'
     \<and> keep_index p' = keep_index p \<and> force_status p' = 0
     \<and> oldcnt ka' ! keep_index p = cnt ka' ! keep_index p \<and> retry ka' ! keep_index p = int (idle_checks ds)
     \<and> (ds \<noteq> [] \<longrightarrow> alive_status p' = (if idle_checks ds \<ge> 3 then 0 else 1))"
proof (induction ds rule: rev_induct)
  case Nil
  then show ?case using assms by (simp add: idle_checks_def)
next
  case (snoc d ds)
  let ?i = "keep_index p"
  obtain ka1 p1 where s: "watched_run (beat ?i) ds (ka, p) = Some (ka1, p1)" "ka_ok ka1" "keep_index p1 = ?i"
      "force_status p1 = 0" "oldcnt ka1 ! ?i = cnt ka1 ! ?i" "retry ka1 ! ?i = int (idle_checks ds)"
    using snoc by blast
  let ?ka = "proc_loop (beat ?i) d ka1"
  note l = proc_loop_beat [OF s(2) assms(2), of d]
  have r: "next_retry (oldcnt ?ka ! ?i) (retry ?ka ! ?i) (cnt ?ka ! ?i) = int (idle_checks (ds @ [d]))"
    using l s(5,6) by (simp add: next_retry_def idle_checks_def)
  have i1: "keep_index p1 < SYSCONF_MAX_APPL_NUM" using assms(2) s(3) by simp
  obtain ka2 p2 where c: "check_proc ?ka p1 = Some (ka2, p2)" "ka_ok ka2" "keep_index p2 = ?i" "cnt ka2 = cnt ?ka"
      "oldcnt ka2 ! ?i = cnt ?ka ! ?i" "retry ka2 ! ?i = int (idle_checks (ds @ [d]))" "force_status p2 = 0"
      "alive_status p2 = (if int (idle_checks (ds @ [d])) \<ge> 3 then 0 else 1)"
    using check_proc_slot [OF conjunct1 [OF l] i1] s(3,4) r by auto
  then show ?case using s(1) by (simp add: watched_run_append proc_main_def)
qed

end
