(* ===== verification/K8smgr_Correct.thy ===== *)
theory K8smgr_Correct
  imports K8smgr_Status Proc
begin

text \<open>
  What the pod manager guarantees: when a process is reported dead, how long a forced state lasts,
  that a successful start and every later event keep the list and the arrays consistent, what the
  end points answer, which pod is the peer, and which label is sent.
\<close>

section \<open>Examples\<close>

definition fresh_counters :: T_keepalive where
  "fresh_counters = \<lparr>cnt = replicate 75 0, oldcnt = replicate 75 0, retry = replicate 75 0\<rparr>"

definition watched :: "int \<Rightarrow> int \<Rightarrow> proc_ctx" where
  "watched alive force = \<lparr>proc_name = ''proc_a'', keep_index = 0, alive_status = alive, force_status = force,
     ev_check_status = True\<rparr>"

definition one_process :: "int \<Rightarrow> int \<Rightarrow> mgr_ctx" where
  "one_process alive force = (zero_mgr fresh_counters)\<lparr>proc_list := 1,
     procs := one_node ''proc_a'' (watched alive force), timers := [Check_proc 2, Tick]\<rparr>"

definition bare_libevent :: libevent where
  "bare_libevent = \<lparr>find_query = (\<lambda>_ _. None), uri_parse = (\<lambda>u. Some (Some u)), uridecode = Some\<rparr>"

lemma counters_ok: "ka_ok fresh_counters"
  by (simp add: ka_ok_def fresh_counters_def SYSCONF_MAX_APPL_NUM_def)

lemma one_process_list:
  "wf_list (procs (one_process a f)) (proc_list (one_process a f)) [(2, ''proc_a'', watched a f)]"
  using one_node_list(1) by (simp add: one_process_def)

section \<open>The watch\<close>

text \<open>C15: Over any list of checks, a process that is not forced is reported dead exactly when its
  counter has had the same value in the last four readings, the one before the run included.\<close>

theorem k8s_hang_detection:
  assumes "ka_ok ka" and "keep_index p < SYSCONF_MAX_APPL_NUM" and "force_status p = 0"
    and "retry ka ! keep_index p = 0" and "cs \<noteq> []"
  shows "\<exists>ka' p'. check_run cs (ka, p) = Some (ka', p')
     \<and> alive_status p' = (if stalled (oldcnt ka ! keep_index p # cs) then 0 else 1)"
proof -
  obtain ka' p' where r: "check_run cs (ka, p) = Some (ka', p')"
      "retry ka' ! keep_index p = retry_run (oldcnt ka ! keep_index p) 0 cs"
      "alive_status p' = (if retry ka' ! keep_index p \<ge> 3 then 0 else 1)"
    using check_run_normal [OF assms(1-3), of cs] assms(4,5) by auto
  have "retry_run (oldcnt ka ! keep_index p) 0 cs \<ge> 3 \<longleftrightarrow> stalled (oldcnt ka ! keep_index p # cs)"
    using retry_run_ge [of 3 "oldcnt ka ! keep_index p" cs] by (simp add: stalled_def numeral_eq_Suc)
  with r show ?thesis by simp
qed

theorem k8s_hang_detection_witness:
  "(\<exists>ka' p'. check_run [4, 4, 4, 4] (fresh_counters, watched 1 0) = Some (ka', p') \<and> alive_status p' = 0)
   \<and> (\<exists>ka' p'. check_run [4, 4, 4, 4, 5] (fresh_counters, watched 1 0) = Some (ka', p') \<and> alive_status p' = 1)"
  using k8s_hang_detection [OF counters_ok, of "watched 1 0" "[4, 4, 4, 4]"]
    k8s_hang_detection [OF counters_ok, of "watched 1 0" "[4, 4, 4, 4, 5]"]
  by (simp add: watched_def fresh_counters_def SYSCONF_MAX_APPL_NUM_def stalled_def numeral_eq_Suc)

text \<open>A process forced down stays reported dead for the next five checks, whatever its counter
  does; the sixth check looks at the counter again and reports a moving process alive.\<close>

theorem k8s_forced_window:
  assumes "ka_ok ka" and "keep_index p < SYSCONF_MAX_APPL_NUM" and "alive_status p = 0"
    and "force_status p = 1" and "length cs = 5" and "c \<noteq> last cs"
  shows "(\<forall>n \<le> 5. \<exists>ka' p'. check_run (take n cs) (ka, p) = Some (ka', p') \<and> alive_status p' = 0)
     \<and> (\<exists>ka' p'. check_run (cs @ [c]) (ka, p) = Some (ka', p') \<and> alive_status p' = 1)"
proof (intro conjI allI impI)
  fix n :: nat
  assume "n \<le> 5"
  with assms show "\<exists>ka' p'. check_run (take n cs) (ka, p) = Some (ka', p') \<and> alive_status p' = 0"
    using forced_run [OF assms(1-3), of "take n cs"] by auto
next
  obtain ka1 p1 where f: "check_run cs (ka, p) = Some (ka1, p1)" "ka_ok ka1" "alive_status p1 = 0"
      "keep_index p1 = keep_index p" "force_status p1 = 0" "oldcnt ka1 ! keep_index p = last cs"
    using forced_run [OF assms(1-3), of cs] assms(4,5) by auto
  have app: "check_run (xs @ ys) st = Option.bind (check_run xs st) (check_run ys)" for xs ys st
    by (induction xs arbitrary: st) (auto split: Option.bind_splits)
  let ?ka = "set_reading (keep_index p) c ka1"
  have ok: "ka_ok ?ka" "cnt ?ka ! keep_index p = c" "oldcnt ?ka = oldcnt ka1"
    using f(2) assms(2) by (simp_all add: set_reading_def ka_ok_def)
  obtain ka2 p2 where "check_proc ?ka p1 = Some (ka2, p2)" "alive_status p2 = 1"
    using check_proc_slot [OF ok(1), of p1] f assms(2,6) ok(2,3) by (auto simp: next_retry_def)
  then show "\<exists>ka' p'. check_run (cs @ [c]) (ka, p) = Some (ka', p') \<and> alive_status p' = 1"
    using f(1,4) by (simp add: app)
qed

theorem k8s_forced_window_witness:
  "\<exists>ka' p'. check_run ([1, 2, 3, 4, 5] @ [6]) (fresh_counters, watched 0 1) = Some (ka', p') \<and> alive_status p' = 1"
  using k8s_forced_window [OF counters_ok, of "watched 0 1" "[1, 2, 3, 4, 5]" 6]
  by (simp add: watched_def SYSCONF_MAX_APPL_NUM_def)

section \<open>The start and the event loop\<close>

text \<open>C28: A successful start leaves one list node and one slot of the counter arrays for each process
  named in the configuration, numbered from 0, with the three periodic timers running.\<close>

theorem k8s_start:
  assumes "main_initialize se w (zero_mgr ka) = Some (0, ctx)" and "ka_ok ka"
  shows "\<exists>ys. slots_rep ctx ys (length (configured se w)) \<and> node_key ` set ys = set (configured se w)
     \<and> distinct (configured se w) \<and> {Tick, Check_peer, Update_label} \<subseteq> set (timers ctx)"
  using assms by (rule initialize_slots)

definition start_os :: os where
  "start_os = \<lparr>env = map_of [(''MY_POD_NAME'', ''omp-1''), (''MY_SERVICE_NAME'', ''omp''),
     (''KUBERNETES_SERVICE_HOST'', ''10.96.0.1''), (''KUBERNETES_SERVICE_PORT'', ''443'')],
     files = map_of [(K8S_SYS_NAMESPACE, ''default''), (''/data/AS_MODE'', ''AS''),
       (''/k8s/secret/token'', ''tok''), (''sysconf'', ''proc_a'' @ [newline])],
     can_write = (\<lambda>_. False), shell = (\<lambda>_. None), stderr_text = []\<rparr>"

definition start_calls :: start_env where
  "start_calls = \<lparr>keepalive_init = 0, bind_ok = True, shm_ok = True, event_add = (\<lambda>_. True),
     sysconf_path = Some ''sysconf'', seek_section = (\<lambda>content _. Some content)\<rparr>"

lemma start_runs: "map_option fst (main_initialize start_calls start_os (zero_mgr fresh_counters)) = Some 0"
  by code_simp

lemma started:
  obtains ctx where "main_initialize start_calls start_os (zero_mgr fresh_counters) = Some (0, ctx)"
  using start_runs by (cases "main_initialize start_calls start_os (zero_mgr fresh_counters)") auto

theorem k8s_start_witness:
  "\<exists>ctx ys. main_initialize start_calls start_os (zero_mgr fresh_counters) = Some (0, ctx)
     \<and> slots_rep ctx ys (length (configured start_calls start_os)) \<and> node_key ` set ys = {''proc_a''}"
proof (rule started)
  fix ctx
  assume s: "main_initialize start_calls start_os (zero_mgr fresh_counters) = Some (0, ctx)"
  have "configured start_calls start_os = [''proc_a'']" by code_simp
  with s k8s_start [OF s counters_ok] show ?thesis by auto
qed

lemma start_timers_result: "start_timers se ctx = (r, ctx') \<Longrightarrow> r = 0 \<or> r = -1"
  by (auto simp: start_timers_def Let_def split: prod.splits if_splits)

lemma initialize_result: "main_initialize se w ctx = Some (r, ctx') \<Longrightarrow> r = 0 \<or> r = -1"
  by (auto simp: main_initialize_def Let_def bind_eq_Some_conv split: if_splits prod.splits dest!: start_timers_result)

lemma mgr_main_start: "mgr_main se w ka = Some (Some ctx) \<longleftrightarrow> main_initialize se w (zero_mgr ka) = Some (0, ctx)"
  using initialize_result [of se w "zero_mgr ka"] by (fastforce simp: mgr_main_def bind_eq_Some_conv split: if_splits)

text \<open>C5: In every state the event loop of main reaches after a successful start, whatever events, requests and
  replies arrive and however other processes move their counters, the list is well formed, every
  process has its slot and every timer points to a live node.  The timers that watch a process, the
  tick, the label update and the readiness end point run without a fault; the peer check does exactly
  when the name of the peer has fewer than 1005 characters, else its URL overruns a buffer of 1024.\<close>

theorem k8s_reachable:
  assumes "mgr_main se w ka = Some (Some start)" and "ka_ok ka"
    and "\<And>ka. ka_ok ka \<Longrightarrow> ka_ok (increase ka)" and "mgr_reach ev increase start ctx"
  shows "mgr_inv ctx
     \<and> (\<forall>a. Check_proc a \<in> set (timers ctx) \<longrightarrow> mgr_event_step ev increase (Fire (Check_proc a)) ctx \<noteq> None)
     \<and> mgr_event_step ev increase (Fire Tick) ctx \<noteq> None
     \<and> mgr_event_step ev increase (Fire Update_label) ctx \<noteq> None
     \<and> (\<forall>req. mgr_event_step ev increase (At_ready req) ctx \<noteq> None)
     \<and> (mgr_event_step ev increase (Fire Check_peer) ctx \<noteq> None \<longleftrightarrow> length (peer_pod_url (pod start)) < 1005)"
proof -
  note start = assms(1) [unfolded mgr_main_start]
  obtain ys n where "slots_rep start ys n" using initialize_slots [OF start assms(2)] by blast
  then have "mgr_inv start" by (auto simp: slots_rep_def mgr_inv_def)
  then have inv: "mgr_inv ctx" by (rule reach_inv [OF assms(4) _ assms(3)])
  note same = settings_cong [OF reach_settings [OF assms(4)]]
  have "label_fits (pod ctx)" using initialize_pod [OF start] same by simp
  then have label: "mgr_event_step ev increase (Fire Update_label) ctx \<noteq> None"
    using update_label_runs by (simp add: mgr_event_step_def)
  have peer: "mgr_event_step ev increase (Fire Check_peer) ctx \<noteq> None \<longleftrightarrow> length (peer_pod_url (pod start)) < 1005"
    using check_peer_runs [of ctx] same by (simp add: mgr_event_step_def)
  show ?thesis
    using inv label peer safe_events [where increase = increase and ev = ev, OF inv assms(3)] by blast
qed

theorem k8s_reachable_witness:
  "\<exists>start ctx. mgr_main start_calls start_os fresh_counters = Some (Some start)
     \<and> mgr_reach bare_libevent id start ctx \<and> peer_pod_start (pod ctx) = -1 \<and> mgr_inv ctx"
proof (rule started)
  fix ctx
  assume s: "main_initialize start_calls start_os (zero_mgr fresh_counters) = Some (0, ctx)"
  have r: "mgr_reach bare_libevent id ctx (http_recv_reply None ctx)"
    by (rule reach_step [OF reach_refl, where e = "Peer_reply None"]) (simp_all add: K8smgr.enabled_def mgr_event_step_def)
  have "peer_pod_start (pod (http_recv_reply None ctx)) = -1" by (simp add: http_recv_reply_def)
  with s r k8s_reachable [OF mgr_main_start [THEN iffD2, OF s] counters_ok _ r] mgr_main_start [THEN iffD2, OF s] show ?thesis by auto
qed

section \<open>The end points\<close>

text \<open>The readiness end point answers 200 exactly when the pod is not forced and every process of
  the list is alive, and 503 otherwise.\<close>

theorem k8s_ready_end_point:
  assumes "wf_list (procs ctx) (proc_list ctx) xs" and "req_type req = EVHTTP_REQ_GET"
  shows "map_option fst (http_reply_pod_ready ev req ctx) =
    Some [if force_not_ready ctx \<le> 0 \<and> all_up xs
          then Send_reply 200 (Some ''Ok'') None else Send_error 503 (Some ''Service Unavailable'')]"
proof -
  obtain h where "list_element (Some proc_check_all_alive) (procs ctx, 1) (proc_list ctx)
       = Some (h, if all_up xs then 1 else 0)"
    using list_alive [OF assms(1)] by blast
  with assms(2) show ?thesis
    by (simp add: http_reply_pod_ready_def http_reply_common_def)
qed

theorem k8s_ready_end_point_witness:
  "map_option fst (http_reply_pod_ready bare_libevent \<lparr>req_type = EVHTTP_REQ_GET, req_uri = ''/ready''\<rparr> (one_process 0 0)) =
    Some [Send_error 503 (Some ''Service Unavailable'')]"
  by (subst k8s_ready_end_point [OF one_process_list]) (simp_all add: all_up_def watched_def)

text \<open>C39: A request to force the state of a process without the parameter: an unknown process gets
  two replies to the one request, and for a known one the handler faults behind the first reply.\<close>

theorem k8s_patch_without_status:
  assumes "wf_list (procs ctx) (proc_list ctx) xs" and "find_query ev (req_uri req) ''status'' = None"
  shows "http_patch_pod_live ev req pname ctx =
    (if pname \<in> node_key ` set xs then None
     else Some ([Send_error 503 (Some ''Service Unavailable''), Send_error 404 (Some ''Not Found'')], ctx))"
proof (cases "handle_of xs pname")
  case None
  with assms get_element_list [OF assms(1), of pname] handle_of_None [of xs pname] show ?thesis
    by (simp add: http_patch_pod_live_def http_reply_common_def)
next
  case (Some a)
  then have "pname \<in> node_key ` set xs" using handle_of_None [of xs pname] by force
  with Some assms get_element_list [OF assms(1), of pname] show ?thesis
    by (simp add: http_patch_pod_live_def bind_eq_None_conv)
qed

theorem k8s_patch_without_status_witness:
  "http_patch_pod_live bare_libevent \<lparr>req_type = EVHTTP_REQ_PATCH, req_uri = ''/live/proc_a''\<rparr> ''proc_a'' (one_process 1 0) = None"
  by (subst k8s_patch_without_status [OF one_process_list]) (simp_all add: bare_libevent_def)

section \<open>The peer and the label\<close>

text \<open>The pods of a set are paired: the peer of number n is the pod of the same set with the
  neighbouring number, and that pod's peer is number n again.\<close>

theorem k8s_peer_pairing:
  assumes "n < 2 ^ 31" and "length (pod_name_of stem (int n)) < 1024"
  shows "peer_url_of (pod_name_of stem (int n)) svc ns =
      map_option (\<lambda>u. (int n, u)) (fits 1024 (pod_name_of stem (peer_index (int n)) @ ''.'' @ svc @ ''.'' @ ns
        @ ''.svc.cluster.local''))
    \<and> peer_index (int n) \<noteq> int n \<and> peer_index (peer_index (int n)) = int n"
  using peer_url_name [OF assms] peer_index_involution [of "int n"] by simp

theorem k8s_peer_pairing_witness:
  "peer_url_of ''omp-1'' ''omp'' ''default'' = Some (1, ''omp-0.omp.default.svc.cluster.local'')"
proof -
  have "pod_name_of ''omp'' (int 1) = ''omp-1''" "pod_name_of ''omp'' (peer_index (int 1)) = ''omp-0''" by code_simp+
  with k8s_peer_pairing [of 1 "''omp''" "''omp''" "''default''"] show ?thesis by (simp add: fits_def)
qed

lemma patch_request:
  assumes "k8s_api_patch_pod_status ctx status = Some ctx'"
  shows "\<exists>r. ctx' = ctx\<lparr>requests := requests ctx @ [r]\<rparr> \<and> out_cmd r = EVHTTP_REQ_PATCH
     \<and> out_path r = ''/api/v1/namespaces/'' @ my_pod_namespace (pod ctx) @ ''/pods/'' @ pod_my_name (pod ctx)
     \<and> out_body r = label_pod_status status"
proof -
  obtain body path ri where "fits 1024 (label_pod_status status) = Some body"
    "fits 1024 (''/api/v1/namespaces/'' @ my_pod_namespace (pod ctx) @ ''/pods/'' @ pod_my_name (pod ctx)) = Some path"
    "make_https_request_for_k8s ctx (k8s_service_host (pod ctx)) (k8s_service_port (pod ctx))
      EVHTTP_REQ_PATCH path 1 (Some (''Content-Type'', ''application/merge-patch+json'')) (Some body) = Some ctx'"
    using assms unfolding k8s_api_patch_pod_status_def bind_Some_iff by blast
  moreover from this have "body = label_pod_status status"
    "path = ''/api/v1/namespaces/'' @ my_pod_namespace (pod ctx) @ ''/pods/'' @ pod_my_name (pod ctx)"
    by (auto simp: fits_def split: if_split_asm)
  ultimately show ?thesis
    by (auto simp: make_https_request_for_k8s_def Let_def)
qed

lemma label_request:
  assumes "main_update_pod_label ctx = Some ctx'"
  obtains m r where "as_mode_at (pod ctx) = Some m"
    and "requests ctx' = requests ctx @ [r]" and "out_cmd r = EVHTTP_REQ_PATCH"
    and "out_path r = ''/api/v1/namespaces/'' @ my_pod_namespace (pod ctx) @ ''/pods/'' @ pod_my_name (pod ctx)"
    and "out_body r = label_pod_status (label_of (force_not_ready ctx) (my_sys_status ctx) m
      (peer_pod_start (pod ctx)) (peer_pod_ready (pod ctx)))"
    and "ha_mode ctx' = (if label_of (force_not_ready ctx) (my_sys_status ctx) m
      (peer_pod_start (pod ctx)) (peer_pod_ready (pod ctx)) = ''active'' then MODE_ACTIVE else MODE_STANDBY)"
    and "pod ctx' = pod ctx"
proof -
  obtain m where m: "as_mode_at (pod ctx) = Some m"
    using assms unfolding main_update_pod_label_def bind_Some_iff by blast
  let ?l = "label_of (force_not_ready ctx) (my_sys_status ctx) m (peer_pod_start (pod ctx)) (peer_pod_ready (pod ctx))"
  have "k8s_api_patch_pod_status (ctx\<lparr>ha_mode := (if ?l = ''active'' then MODE_ACTIVE else MODE_STANDBY)\<rparr>) ?l = Some ctx'"
    using assms m by (simp add: main_update_pod_label_def Let_def del: bind_Some_iff)
  from patch_request [OF this] m show ?thesis by (auto intro: that)
qed

text \<open>C16: An update of the label sends exactly one request, a PATCH of this pod carrying the label; the
  label is active exactly when the pod is not forced, its processes are up and either its side is
  configured active or the peer is not seen both started and with a readiness other than 0.  A forced
  pod is labelled so whatever its processes do, a failed process comes next, and standby is the rest.\<close>

theorem k8s_label_update:
  assumes "as_mode_at (pod ctx) = Some m" and "main_update_pod_label ctx = Some ctx'"
  shows "\<exists>label r. requests ctx' = requests ctx @ [r] \<and> out_cmd r = EVHTTP_REQ_PATCH
     \<and> out_path r = ''/api/v1/namespaces/'' @ my_pod_namespace (pod ctx) @ ''/pods/'' @ pod_my_name (pod ctx)
     \<and> out_body r = label_pod_status label
     \<and> ha_mode ctx' = (if label = ''active'' then MODE_ACTIVE else MODE_STANDBY)
     \<and> (label = ''active'' \<longleftrightarrow> force_not_ready ctx \<noteq> 1 \<and> my_sys_status ctx = 1
          \<and> (m = CHR ''A'' \<or> \<not> (peer_pod_start (pod ctx) > 0 \<and> peer_pod_ready (pod ctx) \<noteq> 0)))
     \<and> (label = ''force_not_ready'' \<longleftrightarrow> force_not_ready ctx = 1)
     \<and> (label = ''proc_failed'' \<longleftrightarrow> force_not_ready ctx \<noteq> 1 \<and> my_sys_status ctx \<noteq> 1)
     \<and> label \<in> {''active'', ''standby'', ''force_not_ready'', ''proc_failed''}"
proof (rule label_request [OF assms(2)], goal_cases)
  case (1 m' r)
  then have "m' = m" using assms(1) by simp
  with 1 label_cases [of "force_not_ready ctx" "my_sys_status ctx" m "peer_pod_start (pod ctx)"
      "peer_pod_ready (pod ctx)"]
  show ?case
    by (intro exI [of _ "label_of (force_not_ready ctx) (my_sys_status ctx) m (peer_pod_start (pod ctx))
      (peer_pod_ready (pod ctx))"] exI [of _ r]) simp
qed

definition standby_side :: mgr_ctx where
  "standby_side = (one_process 1 0)\<lparr>my_sys_status := 1, pod := zero_pod\<lparr>conf_as_mode := ''SA''\<rparr>\<rparr>"

theorem k8s_label_update_witness:
  "\<exists>ctx'. main_update_pod_label standby_side = Some ctx' \<and> ha_mode ctx' = MODE_ACTIVE"
proof -
  have "main_update_pod_label standby_side \<noteq> None" by code_simp
  then obtain ctx' where u: "main_update_pod_label standby_side = Some ctx'" by auto
  have "as_mode_at (pod standby_side) = Some (CHR ''S'')" by code_simp
  from k8s_label_update [OF this u] u show ?thesis
    by (auto simp: standby_side_def one_process_def zero_mgr_def zero_pod_def)
qed

text \<open>C40: When the peer could not be asked and then only its start end point answers, its readiness
  keeps the error value, which the label decision takes for ready: the pod labels itself standby
  although the peer was never seen ready.\<close>

theorem k8s_standby_unready_peer:
  assumes "as_mode_at (pod ctx) = Some (CHR ''S'')" and "force_not_ready ctx = 0" and "my_sys_status ctx = 1"
    and "main_update_pod_label (http_recv_reply (Some \<lparr>resp_uri = ''/start'', response_code = 200, resp_body = body\<rparr>)
      (http_recv_reply None ctx)) = Some ctx'"
  shows "peer_pod_ready (pod ctx') = -1 \<and> ha_mode ctx' = MODE_STANDBY
     \<and> (\<exists>r. requests ctx' = requests ctx @ [r] \<and> out_body r = label_pod_status ''standby'')"
proof (rule label_request [OF assms(4)], goal_cases)
  case (1 m r)
  have "as_mode_at (p\<lparr>peer_pod_start := x\<rparr>) = as_mode_at p" "as_mode_at (p\<lparr>peer_pod_ready := x\<rparr>) = as_mode_at p" for p x
    by (cases "conf_my_side p < 0") (simp_all add: as_mode_at_def)
  with 1(1) have "m = CHR ''S''" using assms(1) by (simp add: http_recv_reply_def)
  with 1 assms(2,3) show ?case by (simp add: http_recv_reply_def label_of_def)
qed

theorem k8s_standby_unready_peer_witness:
  "\<exists>ctx'. main_update_pod_label (http_recv_reply (Some \<lparr>resp_uri = ''/start'', response_code = 200, resp_body = []\<rparr>)
      (http_recv_reply None standby_side)) = Some ctx' \<and> peer_pod_ready (pod ctx') = -1 \<and> ha_mode ctx' = MODE_STANDBY"
proof -
  let ?ctx = "http_recv_reply (Some \<lparr>resp_uri = ''/start'', response_code = 200, resp_body = []\<rparr>) (http_recv_reply None standby_side)"
  have "main_update_pod_label ?ctx \<noteq> None" by code_simp
  then obtain ctx' where u: "main_update_pod_label ?ctx = Some ctx'" by auto
  have "as_mode_at (pod standby_side) = Some (CHR ''S'')" by code_simp
  from k8s_standby_unready_peer [OF this _ _ u] u show ?thesis
    by (auto simp: standby_side_def one_process_def zero_mgr_def)
qed

section \<open>A running process under the watch\<close>

text \<open>C29: A process whose loop runs is reported alive at every check, and one that hangs is reported dead at the
  third check at which its counter has not moved.\<close>

theorem k8s_process_watched:
  assumes "ka_ok ka" and "keep_index p < SYSCONF_MAX_APPL_NUM" and "force_status p = 0"
    and "oldcnt ka ! keep_index p = cnt ka ! keep_index p" and "retry ka ! keep_index p = 0" and "0 < d"
  shows "\<exists>ka' p'. watched_run (beat (keep_index p)) (ds @ d # replicate k 0) (ka, p) = Some (ka', p')
     \<and> alive_status p' = (if k < 3 then 1 else 0)"
proof -
  have "idle_checks (ds @ d # replicate k 0) = k"
  proof -
    have "takeWhile (\<lambda>d. d = 0) (replicate k 0 @ d # rev ds) = replicate k (0 :: nat)"
      using assms(6) by (induction k) simp_all
    then show ?thesis by (simp add: idle_checks_def)
  qed
  moreover obtain ka' p' where "watched_run (beat (keep_index p)) (ds @ d # replicate k 0) (ka, p) = Some (ka', p')"
      "alive_status p' = (if idle_checks (ds @ d # replicate k 0) \<ge> 3 then 0 else 1)"
    using watched_run_state [OF assms(1-5), of "ds @ d # replicate k 0"] by auto
  ultimately show ?thesis by auto
qed

theorem k8s_process_watched_witness:
  "\<exists>ka' p'. watched_run (beat 0) [3, 2, 0, 0, 0] (fresh_counters, watched 1 0) = Some (ka', p') \<and> alive_status p' = 0"
  using k8s_process_watched [OF counters_ok, of "watched 1 0" 2 "[3]" 3]
  by (simp add: watched_def fresh_counters_def SYSCONF_MAX_APPL_NUM_def numeral_eq_Suc)

section \<open>The status page\<close>

text \<open>C19: The status page has one row for each watched process, in the order of the names, with its slot and
  its three counters, and the same text goes to the error stream.\<close>

theorem k8s_status_page:
  assumes "mgr_rep ctx xs" and "counters_int (keepalive ctx)" and "length xs \<le> SYSCONF_MAX_APPL_NUM"
    and "\<forall>p \<in> set (watches xs). length (proc_name p) \<le> 127 \<and> newline \<notin> set (proc_name p) \<and> CHR ''|'' \<notin> set (proc_name p)"
  shows "let page = lay_text (properties UNPADDED_TABLE) [] ([''NAME'', ''KEEP_IDX'', ''CNT'', ''OLDCNT'', ''RETRY''] #
       map (\<lambda>p. [proc_name p, sprintf_d (int (keep_index p)), sprintf_d (cnt (keepalive ctx) ! keep_index p),
          sprintf_d (oldcnt (keepalive ctx) ! keep_index p), sprintf_d (retry (keepalive ctx) ! keep_index p)]) (watches xs))
     in http_print_pod_status req ctx = Some ([Send_reply 200 (Some ''Ok'') (Some page)], page)"
  using status_page_rep [OF assms(1,2) _ assms(3)] assms(4)
  unfolding Let_def status_page_def proc_head_cells_def proc_cells_def name_field_def
  by (simp add: http_print_pod_status_def http_reply_common_def del: bind_Some_iff)

theorem k8s_status_page_witness:
  "\<exists>page. http_print_pod_status \<lparr>req_type = EVHTTP_REQ_GET, req_uri = ''/print/status''\<rparr> (one_process 1 0) =
     Some ([Send_reply 200 (Some ''Ok'') (Some page)], page)"
proof -
  have "mgr_rep (one_process 1 0) [(2, ''proc_a'', watched 1 0)]"
    using one_process_list counters_ok
    by (simp add: mgr_rep_def one_process_def zero_mgr_def zero_pod_def watched_def proc_ok_def flags_ok_def SYSCONF_MAX_APPL_NUM_def)
  moreover have "counters_int (keepalive (one_process 1 0))"
    using counters_ok by (simp add: counters_int_def one_process_def zero_mgr_def fresh_counters_def)
  moreover have "length [(2::nat, ''proc_a'', watched 1 0)] \<le> SYSCONF_MAX_APPL_NUM" by (simp add: SYSCONF_MAX_APPL_NUM_def)
  moreover have "\<forall>p \<in> set (watches [(2::nat, ''proc_a'', watched 1 0)]). length (proc_name p) \<le> 127 \<and> newline \<notin> set (proc_name p)
      \<and> CHR ''|'' \<notin> set (proc_name p)"
    by (simp add: watched_def newline_def)
  ultimately show ?thesis using k8s_status_page unfolding Let_def by blast
qed

end
