(* ===== verification/Dns_Name.thy ===== *)
theory Dns_Name
  imports CString
begin

text \<open>
  Host names on the wire, \<open>src/src/dns_util/dnsUtil.c\<close>: \<open>ChangetoDnsNameFormat\<close> writes
  the length-prefixed form of a dotted name and \<open>ReadName\<close> reads it back, following
  compression pointers.

  Bytes are \<open>8 word\<close>.  A buffer is a list and a position an integer; an access outside is a
  fault.  The 256 bytes that \<open>ReadName\<close> allocates are a list in which \<open>None\<close> is a byte not
  written yet; using such a byte is a fault as well.
\<close>

type_synonym block = "byte option list"

section \<open>Memory\<close>

definition get_byte :: "byte list \<Rightarrow> int \<Rightarrow> byte option" where
  "get_byte buf i = (if 0 \<le> i \<and> i < int (length buf) then Some (buf ! nat i) else None)"

definition block_get :: "block \<Rightarrow> nat \<Rightarrow> byte option" where
  "block_get b i = (if i < length b then b ! i else None)"

definition block_put :: "block \<Rightarrow> nat \<Rightarrow> byte \<Rightarrow> block option" where
  "block_put b i x = (if i < length b then Some (b[i := Some x]) else None)"

text \<open>\<open>strlen\<close> of a block: the position of the first 0, with every byte before it written.\<close>

fun block_strlen :: "block \<Rightarrow> nat option" where
  "block_strlen [] = None"
| "block_strlen (None # bs) = None"
| "block_strlen (Some x # bs) = (if x = 0 then Some 0 else map_option Suc (block_strlen bs))"

fun block_cstr :: "block \<Rightarrow> byte list option" where
  "block_cstr [] = None"
| "block_cstr (None # bs) = None"
| "block_cstr (Some x # bs) = (if x = 0 then Some [] else map_option ((#) x) (block_cstr bs))"

definition byte_of :: "char \<Rightarrow> byte" where
  "byte_of c = of_nat (of_char c)"

definition bytes_of :: "string \<Rightarrow> byte list" where
  "bytes_of s = map byte_of s"

definition dot :: byte where "dot = 46"

section \<open>Reading a name\<close>

text \<open>The variables of the first loop; \<open>p\<close> is the number of bytes in the name so far.\<close>

record reading =
  rd_pos :: int
  rd_name :: block
  rd_p :: nat
  rd_jumped :: bool
  rd_count :: int

text \<open>
  One turn of the loop: \<open>Some (Inr s)\<close> leaves it, \<open>Some (Inl s)\<close> goes on, \<open>None\<close> is a
  fault.  The pointer is moved to one byte before the target and then forward by one.
\<close>

definition read_step :: "byte list \<Rightarrow> reading \<Rightarrow> (reading + reading) option" where
  "read_step buffer s = do {
     b \<leftarrow> get_byte buffer (rd_pos s);
     if b = 0 then Some (Inr s)
     else do {
       s1 \<leftarrow> (if unat b \<ge> 192 then do {
                b1 \<leftarrow> get_byte buffer (rd_pos s + 1);
                let offset = int (unat b) * 256 + int (unat b1) - 49152;
                Some (s\<lparr>rd_pos := offset - 1, rd_jumped := True\<rparr>)
              } else do {
                nm \<leftarrow> block_put (rd_name s) (rd_p s) b;
                Some (s\<lparr>rd_name := nm, rd_p := rd_p s + 1\<rparr>)
              });
       let s2 = s1\<lparr>rd_pos := rd_pos s1 + 1\<rparr>;
       Some (Inl (if \<not> rd_jumped s2 then s2\<lparr>rd_count := rd_count s2 + 1\<rparr> else s2))
     }
   }"

partial_function (option) read_loop :: "byte list \<Rightarrow> reading \<Rightarrow> reading option" where
  "read_loop buffer s =
     (case read_step buffer s of
        None \<Rightarrow> None
      | Some r \<Rightarrow> (case r of Inr s' \<Rightarrow> Some s' | Inl s' \<Rightarrow> read_loop buffer s'))"

text \<open>The inner loop of the conversion: \<open>n\<close> bytes move down by one.\<close>

fun shift_label :: "nat \<Rightarrow> block \<Rightarrow> nat \<Rightarrow> (block \<times> nat) option" where
  "shift_label 0 nm i = Some (nm, i)"
| "shift_label (Suc n) nm i = do {
     x \<leftarrow> block_get nm (i + 1);
     nm' \<leftarrow> block_put nm i x;
     shift_label n nm' (i + 1)
   }"

lemma shift_label_grows: "shift_label n nm i = Some (nm', i') \<Longrightarrow> i \<le> i' \<and> length nm' = length nm"
  by (induction n nm i rule: shift_label.induct) (fastforce simp: block_put_def split: if_splits)+

text \<open>The outer loop; \<open>strlen\<close> is taken again at every turn.\<close>

lemma block_put_length: "block_put b i x = Some b' \<Longrightarrow> length b' = length b \<and> i < length b"
  by (auto simp: block_put_def split: if_splits)

function convert_loop :: "block \<Rightarrow> nat \<Rightarrow> (block \<times> nat) option" where
  "convert_loop nm i =
     (case block_strlen nm of
        None \<Rightarrow> None
      | Some len \<Rightarrow>
          if \<not> i < len then Some (nm, i)
          else case block_get nm i of
            None \<Rightarrow> None
          | Some p \<Rightarrow>
             (case shift_label (unat p) nm i of
                None \<Rightarrow> None
              | Some (nm1, i1) \<Rightarrow>
                 (case block_put nm1 i1 dot of
                    None \<Rightarrow> None
                  | Some nm2 \<Rightarrow> convert_loop nm2 (i1 + 1))))"
  by pat_completeness auto

termination
proof (relation "measure (\<lambda>(nm, i). length nm - i)")
  show "wf (measure (\<lambda>(nm::block, i). length nm - i))" by simp
next
  fix nm :: block and i len p r nm1 i1 nm2
  assume s: "shift_label (unat (p::byte)) nm i = Some r" "(nm1, i1) = r" "block_put nm1 i1 dot = Some nm2"
  then have "i \<le> i1" "length nm1 = length nm" using shift_label_grows [of "unat p" nm i nm1 i1] by auto
  moreover have "length nm2 = length nm1" "i1 < length nm1" using block_put_length [OF s(3)] by auto
  ultimately show "((nm2, i1 + 1), nm, i) \<in> measure (\<lambda>(nm, i). length nm - i)" by simp
qed

text \<open>
  \<open>ReadName\<close>: the new block and the number of bytes the reader moves in the packet.  An empty
  name writes the byte before the block, which is a fault.
\<close>

definition name_block :: block where
  "name_block = Some 0 # replicate 255 None"

definition ReadName :: "int \<Rightarrow> byte list \<Rightarrow> (block \<times> int) option" where
  "ReadName reader buffer = do {
     s \<leftarrow> read_loop buffer \<lparr>rd_pos = reader, rd_name = name_block, rd_p = 0, rd_jumped = False, rd_count = 1\<rparr>;
     nm \<leftarrow> block_put (rd_name s) (rd_p s) 0;
     let count = (if rd_jumped s then rd_count s + 1 else rd_count s);
     (nm, i) \<leftarrow> convert_loop nm 0;
     if i = 0 then None
     else do {
       nm \<leftarrow> block_put nm (i - 1) 0;
       Some (nm, count)
     }
   }"

section \<open>Writing a name\<close>

text \<open>
  The loop over the host name with its final dot; \<open>lock\<close> is the start of the current label.
  The length is stored in one byte.
\<close>

function change_loop :: "string \<Rightarrow> nat \<Rightarrow> nat \<Rightarrow> byte list \<Rightarrow> byte list" where
  "change_loop host i lock dns =
     (if \<not> i < length host then dns
      else if host ! i = CHR ''.''
      then change_loop host (i + 1) (max lock i + 1)
             (dns @ [of_nat (i - lock)] @ bytes_of (take (i - lock) (drop lock host)))
      else change_loop host (i + 1) lock dns)"
  by pat_completeness auto
termination by (relation "measure (\<lambda>(host, i, _, _). length host - i)") auto

declare convert_loop.simps [simp del] change_loop.simps [simp del]

text \<open>
  \<open>hcap\<close> is the size of the buffer that holds the host name: \<open>strcat\<close> adds a dot to it.
  The result is what is written at \<open>dns\<close> and the changed host name.
\<close>

definition ChangetoDnsNameFormat :: "nat \<Rightarrow> string \<Rightarrow> (byte list \<times> string) option" where
  "ChangetoDnsNameFormat hcap host = do {
     host \<leftarrow> fits hcap (host @ ''.'');
     Some (change_loop host 0 0 [] @ [0], host)
   }"

section \<open>The labels of a name\<close>

definition label_ok :: "string \<Rightarrow> bool" where
  "label_ok l \<longleftrightarrow> l \<noteq> [] \<and> length l < 192 \<and> (\<forall>c \<in> set l. c \<noteq> CHR ''.'' \<and> c \<noteq> nul \<and> unat (byte_of c) < 192)"

definition dotted_end :: "string list \<Rightarrow> string" where
  "dotted_end ls = concat (map (\<lambda>l. l @ ''.'') ls)"

definition dotted :: "string list \<Rightarrow> string" where
  "dotted ls = butlast (dotted_end ls)"

definition wire :: "string list \<Rightarrow> byte list" where
  "wire ls = concat (map (\<lambda>l. of_nat (length l) # bytes_of l) ls)"

lemma dotted_end_simps [simp]:
  "dotted_end [] = []"
  "dotted_end (l # ls) = l @ CHR ''.'' # dotted_end ls"
  by (simp_all add: dotted_end_def)

lemma wire_simps [simp]:
  "wire [] = []"
  "wire (l # ls) = of_nat (length l) # bytes_of l @ wire ls"
  by (simp_all add: wire_def)

lemma dotted_snoc: "ls \<noteq> [] \<Longrightarrow> dotted ls @ ''.'' = dotted_end ls"
proof -
  assume "ls \<noteq> []"
  then obtain m l where "ls = m @ [l]" by (cases ls rule: rev_exhaust) auto
  then show ?thesis by (simp add: dotted_def dotted_end_def butlast_append)
qed

lemma length_wire: "length (wire ls) = length (dotted_end ls)"
  by (induction ls) (simp_all add: bytes_of_def)

subsection \<open>Writing\<close>

lemma change_scan:
  assumes "CHR ''.'' \<notin> set w" and "k \<le> length w"
  shows "change_loop (pre @ w @ CHR ''.'' # rest) (length pre + k) lock dns =
   change_loop (pre @ w @ CHR ''.'' # rest) (length pre + length w) lock dns"
  using assms(2)
proof (induction "length w - k" arbitrary: k)
  case (Suc m)
  then have k: "k < length w" by linarith
  then have "(pre @ w @ CHR ''.'' # rest) ! (length pre + k) = w ! k"
    by (simp add: nth_append)
  moreover have "w ! k \<noteq> CHR ''.''" using k assms(1) nth_mem by metis
  moreover have "change_loop (pre @ w @ CHR ''.'' # rest) (length pre + Suc k) lock dns =
      change_loop (pre @ w @ CHR ''.'' # rest) (length pre + length w) lock dns"
    using Suc by (intro Suc.hyps(1)) auto
  ultimately show ?case
    using k by (subst change_loop.simps) simp
qed simp

lemma change_loop_labels:
  "(\<forall>l \<in> set ls. label_ok l) \<Longrightarrow>
   change_loop (pre @ dotted_end ls) (length pre) (length pre) dns = dns @ wire ls"
proof (induction ls arbitrary: pre dns)
  case Nil
  then show ?case by (subst change_loop.simps) simp
next
  case (Cons l ls)
  let ?host = "pre @ l @ CHR ''.'' # dotted_end ls"
  have "CHR ''.'' \<notin> set l" using Cons.prems by (auto simp: label_ok_def)
  then have "change_loop ?host (length pre) (length pre) dns =
      change_loop ?host (length pre + length l) (length pre) dns"
    using change_scan [of l 0 pre "dotted_end ls" "length pre" dns] by simp
  also have "\<dots> = change_loop ((pre @ l @ ''.'') @ dotted_end ls) (length (pre @ l @ ''.''))
      (length (pre @ l @ ''.'')) (dns @ of_nat (length l) # bytes_of l)"
    by (subst change_loop.simps) (simp add: nth_append)
  also have "\<dots> = (dns @ of_nat (length l) # bytes_of l) @ wire ls"
    by (rule Cons.IH) (use Cons.prems in simp)
  finally show ?case by simp
qed

lemma change_labels:
  assumes "ls \<noteq> []" and "\<forall>l \<in> set ls. label_ok l" and "length (dotted_end ls) < hcap"
  shows "ChangetoDnsNameFormat hcap (dotted ls) = Some (wire ls @ [0], dotted_end ls)"
  using assms change_loop_labels [OF assms(2), where pre = "[]" and dns = "[]"]
  by (simp add: ChangetoDnsNameFormat_def dotted_snoc fits_def)

subsection \<open>Reading\<close>

definition plain :: "byte list \<Rightarrow> bool" where
  "plain bs \<longleftrightarrow> (\<forall>b \<in> set bs. b \<noteq> 0 \<and> unat b < 192)"

lemma plain_simps [simp]:
  "plain []" "plain (b # bs) \<longleftrightarrow> b \<noteq> 0 \<and> unat b < 192 \<and> plain bs"
  "plain (as @ bs) \<longleftrightarrow> plain as \<and> plain bs"
  by (auto simp: plain_def)

lemma unat_of_nat_byte: "n < 256 \<Longrightarrow> unat (of_nat n :: byte) = n"
  by (simp add: unat_of_nat take_bit_eq_mod)

lemma unat_byte_of: "unat (byte_of c) = of_char c"
  unfolding byte_of_def by (rule unat_of_nat_byte) (simp add: nat_of_char_less_256)

lemma char_of_zero: "char_of (0 :: nat) = CHR 0x00"
  by (simp add: char_of_def)

lemma byte_of_zero: "byte_of c = 0 \<longleftrightarrow> c = nul"
proof -
  have "byte_of c = 0 \<longleftrightarrow> (of_char c :: nat) = 0"
    by (metis unat_byte_of unat_eq_0 unat_0)
  also have "\<dots> \<longleftrightarrow> c = nul"
  proof
    assume "(of_char c :: nat) = 0"
    then have "char_of (of_char c :: nat) = char_of (0 :: nat)" by (rule arg_cong)
    then show "c = nul" unfolding char_of_char char_of_zero nul_def .
  qed (simp add: nul_def)
  finally show ?thesis .
qed

lemma label_plain:
  assumes "label_ok l"
  shows "plain (bytes_of l)" and "(of_nat (length l) :: byte) \<noteq> 0" and "unat (of_nat (length l) :: byte) = length l"
proof -
  show "plain (bytes_of l)" using assms by (simp add: label_ok_def plain_def bytes_of_def byte_of_zero)
  show u: "unat (of_nat (length l) :: byte) = length l"
    using assms by (intro unat_of_nat_byte) (simp add: label_ok_def)
  show "(of_nat (length l) :: byte) \<noteq> 0"
  proof
    assume "(of_nat (length l) :: byte) = 0"
    then have "length l = 0" using u by (simp only: unat_0)
    then show False using assms by (simp add: label_ok_def)
  qed
qed

lemma wire_plain: "\<forall>l \<in> set ls. label_ok l \<Longrightarrow> plain (wire ls)"
proof (induction ls)
  case (Cons l ls)
  then have l: "label_ok l" "plain (wire ls)" by auto
  then show ?case using label_plain [OF l(1)] by (simp add: label_ok_def)
qed simp

text \<open>The first loop over plain bytes up to the terminator.\<close>

lemma block_put_at: "length b = n \<Longrightarrow> block_put (b @ x # r) n y = Some (b @ Some y # r)"
  by (simp add: block_put_def list_update_append)

lemma get_byte_at: "int (length b) = i \<Longrightarrow> get_byte (b @ x # r) i = Some x"
  by (auto simp: get_byte_def nth_append)

lemma read_bytes:
  assumes "plain bs" and "buffer = pre @ bs @ post" and "length bs \<le> length free"
  shows "read_loop buffer \<lparr>rd_pos = int (length pre), rd_name = nm @ free, rd_p = length nm,
       rd_jumped = j, rd_count = c\<rparr> =
     read_loop buffer \<lparr>rd_pos = int (length pre + length bs), rd_name = nm @ map Some bs @ drop (length bs) free,
       rd_p = length nm + length bs, rd_jumped = j, rd_count = (if j then c else c + int (length bs))\<rparr>"
  using assms
proof (induction bs arbitrary: pre nm free c)
  case (Cons b bs)
  obtain f fs where f: "free = f # fs" using Cons.prems(3) by (cases free) auto
  have step: "read_step buffer \<lparr>rd_pos = int (length pre), rd_name = nm @ free, rd_p = length nm,
       rd_jumped = j, rd_count = c\<rparr> =
     Some (Inl \<lparr>rd_pos = int (length (pre @ [b])), rd_name = (nm @ [Some b]) @ fs, rd_p = length (nm @ [Some b]),
       rd_jumped = j, rd_count = (if j then c else c + 1)\<rparr>)"
    using Cons.prems f by (simp add: read_step_def get_byte_at block_put_at)
  have "read_loop buffer \<lparr>rd_pos = int (length (pre @ [b])), rd_name = (nm @ [Some b]) @ fs,
       rd_p = length (nm @ [Some b]), rd_jumped = j, rd_count = (if j then c else c + 1)\<rparr> =
     read_loop buffer \<lparr>rd_pos = int (length (pre @ [b]) + length bs),
       rd_name = (nm @ [Some b]) @ map Some bs @ drop (length bs) fs,
       rd_p = length (nm @ [Some b]) + length bs, rd_jumped = j,
       rd_count = (if j then (if j then c else c + 1) else (if j then c else c + 1) + int (length bs))\<rparr>"
    by (rule Cons.IH) (use Cons.prems f in auto)
  then show ?case using step f by (subst read_loop.simps) (simp add: add.assoc)
qed simp

lemma read_end:
  assumes "buffer = pre @ 0 # post" and "rd_pos s = int (length pre)"
  shows "read_loop buffer s = Some s"
  using assms by (subst read_loop.simps) (simp add: read_step_def get_byte_at)

lemma read_plain:
  assumes "plain bs" and "buffer = pre @ bs @ 0 # post" and "length bs \<le> length free"
  shows "read_loop buffer \<lparr>rd_pos = int (length pre), rd_name = nm @ free, rd_p = length nm,
       rd_jumped = j, rd_count = c\<rparr> =
     Some \<lparr>rd_pos = int (length pre + length bs), rd_name = nm @ map Some bs @ drop (length bs) free,
       rd_p = length nm + length bs, rd_jumped = j, rd_count = (if j then c else c + int (length bs))\<rparr>"
  unfolding read_bytes [OF assms] by (rule read_end [of _ "pre @ bs" post]) (simp_all add: assms(2))

text \<open>A compression pointer: the bytes at \<open>pre\<close> send the reader to \<open>target\<close>.\<close>

definition pointer :: "nat \<Rightarrow> byte list" where
  "pointer target = [of_nat (192 + target div 256), of_nat (target mod 256)]"

lemma pointer_value:
  assumes "target < 16384"
  shows "unat (of_nat (192 + target div 256) :: byte) = 192 + target div 256"
    and "unat (of_nat (target mod 256) :: byte) = target mod 256"
  by (rule unat_of_nat_byte; use assms in simp)+

lemma read_pointer:
  assumes "target < 16384" and "buffer = pre @ pointer target @ post"
  shows "read_step buffer \<lparr>rd_pos = int (length pre), rd_name = nm, rd_p = p, rd_jumped = j, rd_count = c\<rparr> =
     Some (Inl \<lparr>rd_pos = int target, rd_name = nm, rd_p = p, rd_jumped = True, rd_count = c\<rparr>)"
proof -
  let ?hi = "of_nat (192 + target div 256) :: byte" and ?lo = "of_nat (target mod 256) :: byte"
  have b: "buffer = pre @ ?hi # ?lo # post" using assms(2) by (simp add: pointer_def)
  have g: "get_byte buffer (int (length pre)) = Some ?hi" "get_byte buffer (int (length pre) + 1) = Some ?lo"
    using get_byte_at [of pre "int (length pre)" ?hi "?lo # post"]
      get_byte_at [of "pre @ [?hi]" "int (length pre) + 1" ?lo post] by (simp_all add: b)
  have u: "unat ?hi = 192 + target div 256" "unat ?lo = target mod 256"
    by (rule pointer_value [OF assms(1)])+
  then have nz: "?hi \<noteq> 0" by (metis add_is_0 unat_0 zero_neq_numeral)
  have ui: "uint ?lo = int (target mod 256)" using u(2) by (metis uint_nat)
  have off: "int (192 + target div 256) * 256 + int (target mod 256) - 49152 = int target"
    by (simp add: zmod_int zdiv_int)
  show ?thesis
    using g nz u ui off by (simp add: read_step_def)
qed

subsection \<open>Conversion\<close>

lemma block_strlen_plain:
  "0 \<notin> set bs \<Longrightarrow> block_strlen (map Some bs @ Some 0 # r) = Some (length bs)"
  by (induction bs) auto

lemma block_cstr_plain:
  "0 \<notin> set bs \<Longrightarrow> block_cstr (map Some bs @ Some 0 # r) = Some bs"
  by (induction bs) auto

lemma shift_label_run:
  "shift_label (length l) (pre @ Some x # map Some l @ tail) (length pre) =
   Some (pre @ map Some l @ Some (last (x # l)) # tail, length pre + length l)"
proof (induction l arbitrary: pre x)
  case (Cons y l)
  have g: "block_get (pre @ Some x # Some y # map Some l @ tail) (length pre + 1) = Some y"
    by (simp add: block_get_def nth_append)
  have p: "block_put (pre @ Some x # Some y # map Some l @ tail) (length pre) y =
      Some ((pre @ [Some y]) @ Some y # map Some l @ tail)"
    by (simp add: block_put_at)
  have "shift_label (length l) ((pre @ [Some y]) @ Some y # map Some l @ tail) (length (pre @ [Some y])) =
      Some ((pre @ [Some y]) @ map Some l @ Some (last (y # l)) # tail, length (pre @ [Some y]) + length l)"
    by (rule Cons.IH)
  then show ?case using g p by simp
qed simp

lemma dot_nonzero: "dot \<noteq> 0"
  by (simp add: dot_def)

lemma plain_no_zero: "plain bs \<Longrightarrow> 0 \<notin> set bs"
  by (auto simp: plain_def)

lemma bytes_of_simps [simp]:
  "bytes_of [] = []" "bytes_of (c # cs) = byte_of c # bytes_of cs"
  "bytes_of (s @ t) = bytes_of s @ bytes_of t" "length (bytes_of s) = length s"
  by (simp_all add: bytes_of_def)

lemma byte_of_dot: "byte_of (CHR ''.'') = dot"
  by (simp add: byte_of_def dot_def)

lemma convert_labels:
  "\<forall>l \<in> set ls. label_ok l \<Longrightarrow> 0 \<notin> set done \<Longrightarrow>
   convert_loop (map Some done @ map Some (wire ls) @ Some 0 # r) (length done) =
   Some (map Some done @ map Some (bytes_of (dotted_end ls)) @ Some 0 # r, length done + length (dotted_end ls))"
proof (induction ls arbitrary: "done")
  case Nil
  then show ?case by (simp add: convert_loop.simps [of _ "length done"] block_strlen_plain)
next
  case (Cons l ls)
  let ?n = "of_nat (length l) :: byte"
  have l: "label_ok l" and ls: "\<forall>l \<in> set ls. label_ok l" using Cons.prems(1) by auto
  note lp = label_plain [OF l]
  have z: "0 \<notin> set (done @ wire (l # ls))"
    using Cons.prems(2) plain_no_zero [OF wire_plain [OF Cons.prems(1)]] by auto
  let ?nm = "map Some done @ map Some (wire (l # ls)) @ Some 0 # r"
  let ?tail = "map Some (wire ls) @ Some 0 # r"
  have nm: "?nm = map Some done @ Some ?n # map Some (bytes_of l) @ ?tail" by simp
  have len: "block_strlen ?nm = Some (length (done @ wire (l # ls)))"
    using block_strlen_plain [OF z, of r] by (simp only: map_append append_assoc)
  have lt: "length done < length (done @ wire (l # ls))" by simp
  have g: "block_get ?nm (length done) = Some ?n"
    unfolding nm by (simp add: block_get_def nth_append)
  have sh: "shift_label (unat ?n) ?nm (length done) =
      Some (map Some done @ map Some (bytes_of l) @ Some (last (?n # bytes_of l)) # ?tail, length done + length l)"
    using shift_label_run [of "bytes_of l" "map Some done" ?n ?tail] lp(3) unfolding nm by simp
  have pt: "block_put (map Some done @ map Some (bytes_of l) @ Some (last (?n # bytes_of l)) # ?tail) (length done + length l) dot
      = Some (map Some (done @ bytes_of l @ [dot]) @ ?tail)"
    using block_put_at [of "map Some done @ map Some (bytes_of l)" "length done + length l"] by simp
  have "convert_loop ?nm (length done) = convert_loop (map Some (done @ bytes_of l @ [dot]) @ ?tail) (length done + length l + 1)"
    by (subst convert_loop.simps)
      (simp only: len g sh pt lt option.case prod.case not_not if_False if_True not_True_eq_False)
  also have "\<dots> = convert_loop (map Some (done @ bytes_of l @ [dot]) @ ?tail) (length (done @ bytes_of l @ [dot]))"
    by simp
  also have "\<dots> = Some (map Some (done @ bytes_of l @ [dot]) @ map Some (bytes_of (dotted_end ls)) @ Some 0 # r,
      length (done @ bytes_of l @ [dot]) + length (dotted_end ls))"
  proof (rule Cons.IH [OF ls])
    show "0 \<notin> set (done @ bytes_of l @ [dot])"
      using Cons.prems(2) plain_no_zero [OF lp(1)] dot_nonzero by auto
  qed
  finally show ?case by (simp add: byte_of_dot)
qed

subsection \<open>Round trips\<close>

definition names_ok :: "string list \<Rightarrow> bool" where
  "names_ok ls \<longleftrightarrow> ls \<noteq> [] \<and> (\<forall>l \<in> set ls. label_ok l) \<and> length (dotted_end ls) \<le> 255"

lemma dotted_no_zero:
  assumes "\<forall>l \<in> set ls. label_ok l"
  shows "0 \<notin> set (bytes_of (dotted_end ls))"
  using assms
proof (induction ls)
  case (Cons l ls)
  then show ?case
    using plain_no_zero [OF label_plain(1) [of l]] dot_nonzero by (auto simp: byte_of_dot)
qed simp

text \<open>What happens behind the first loop, when it has read exactly the labels.\<close>

lemma finish_name:
  assumes ok: "names_ok ls"
    and run: "read_loop buffer \<lparr>rd_pos = r, rd_name = name_block, rd_p = 0, rd_jumped = False, rd_count = 1\<rparr> =
      Some \<lparr>rd_pos = e, rd_name = map Some (wire ls) @ drop (length (wire ls)) name_block,
        rd_p = length (wire ls), rd_jumped = j, rd_count = c\<rparr>"
  shows "\<exists>nm. ReadName r buffer = Some (nm, if j then c + 1 else c) \<and> block_cstr nm = Some (bytes_of (dotted ls))"
proof -
  have ls: "ls \<noteq> []" "\<forall>l \<in> set ls. label_ok l" "length (wire ls) \<le> 255"
    using ok by (simp_all add: names_ok_def length_wire)
  have free: "drop (length (wire ls)) name_block = (drop (length (wire ls)) name_block) ! 0 # drop (Suc (length (wire ls))) name_block"
    using ls(3) by (simp add: name_block_def Cons_nth_drop_Suc [symmetric] del: drop_replicate)
  let ?r = "drop (Suc (length (wire ls))) name_block"
  have put: "block_put (map Some (wire ls) @ drop (length (wire ls)) name_block) (length (wire ls)) 0
      = Some (map Some (wire ls) @ Some 0 # ?r)"
    by (subst free) (simp add: block_put_at)
  have conv: "convert_loop (map Some (wire ls) @ Some 0 # ?r) 0 =
      Some (map Some (bytes_of (dotted_end ls)) @ Some 0 # ?r, length (dotted_end ls))"
    using convert_labels [OF ls(2), of "[]" ?r] by simp
  have snoc: "bytes_of (dotted_end ls) = bytes_of (dotted ls) @ [dot]"
    using dotted_snoc [OF ls(1)] byte_of_dot by (metis bytes_of_simps(1,2,3))
  have len: "length (dotted_end ls) = Suc (length (dotted ls))"
    using dotted_snoc [OF ls(1)] by (metis length_append_singleton)
  let ?nm = "map Some (bytes_of (dotted ls)) @ Some 0 # Some 0 # ?r"
  have fin: "block_put (map Some (bytes_of (dotted_end ls)) @ Some 0 # ?r) (length (dotted_end ls) - 1) 0 = Some ?nm"
    unfolding snoc len by (simp add: block_put_at)
  have "0 \<notin> set (bytes_of (dotted ls))"
    using dotted_no_zero [OF ls(2)] unfolding snoc by simp
  then have "block_cstr ?nm = Some (bytes_of (dotted ls))" by (rule block_cstr_plain)
  moreover have "ReadName r buffer = Some (?nm, if j then c + 1 else c)"
    using run put conv fin len by (simp add: ReadName_def)
  ultimately show ?thesis by blast
qed

lemma read_name_wire:
  assumes "names_ok ls" and "buffer = pre @ wire ls @ 0 # post"
  shows "\<exists>nm. ReadName (int (length pre)) buffer = Some (nm, int (length (wire ls) + 1))
     \<and> block_cstr nm = Some (bytes_of (dotted ls))"
proof -
  have ls: "\<forall>l \<in> set ls. label_ok l" "length (wire ls) \<le> length name_block"
    using assms(1) by (simp_all add: names_ok_def length_wire name_block_def)
  have "read_loop buffer \<lparr>rd_pos = int (length pre), rd_name = [] @ name_block, rd_p = length ([] :: block),
       rd_jumped = False, rd_count = 1\<rparr> =
     Some \<lparr>rd_pos = int (length pre + length (wire ls)),
       rd_name = [] @ map Some (wire ls) @ drop (length (wire ls)) name_block,
       rd_p = length ([] :: block) + length (wire ls), rd_jumped = False,
       rd_count = (if False then 1 else 1 + int (length (wire ls)))\<rparr>"
    by (rule read_plain [OF wire_plain [OF ls(1)] assms(2) ls(2)])
  then have "read_loop buffer \<lparr>rd_pos = int (length pre), rd_name = name_block, rd_p = 0,
       rd_jumped = False, rd_count = 1\<rparr> =
     Some \<lparr>rd_pos = int (length pre + length (wire ls)),
       rd_name = map Some (wire ls) @ drop (length (wire ls)) name_block,
       rd_p = length (wire ls), rd_jumped = False, rd_count = 1 + int (length (wire ls))\<rparr>"
    by simp
  from finish_name [OF assms(1) this] show ?thesis by (simp add: add.commute)
qed

text \<open>A name that is only a pointer to another name takes two bytes of the packet.\<close>

lemma wire_append: "wire (ls @ ms) = wire ls @ wire ms"
  by (simp add: wire_def)

lemma read_name_compressed:
  assumes ok: "names_ok (ls @ ms)" and t: "length pre < 16384"
    and b: "buffer = pre @ wire ms @ 0 # post" and p: "buffer = pre' @ wire ls @ pointer (length pre) @ post'"
  shows "\<exists>nm. ReadName (int (length pre')) buffer = Some (nm, int (length (wire ls) + 2))
     \<and> block_cstr nm = Some (bytes_of (dotted (ls @ ms)))"
proof -
  let ?c = "1 + int (length (wire ls))" and ?free = "drop (length (wire ls)) name_block"
  have ls: "plain (wire ls)" "plain (wire ms)" "length (wire ls) \<le> length name_block"
    "length (wire ms) \<le> length ?free"
    using ok by (auto simp: names_ok_def length_wire [symmetric] wire_append name_block_def intro: wire_plain)
  have first: "read_loop buffer \<lparr>rd_pos = int (length pre'), rd_name = name_block, rd_p = 0, rd_jumped = False, rd_count = 1\<rparr>
     = read_loop buffer \<lparr>rd_pos = int (length (pre' @ wire ls)), rd_name = map Some (wire ls) @ ?free,
          rd_p = length (map Some (wire ls)), rd_jumped = False, rd_count = ?c\<rparr>"
    using read_bytes [OF ls(1) p ls(3), of "[]" False 1] by simp
  have jump: "read_loop buffer \<lparr>rd_pos = int (length (pre' @ wire ls)), rd_name = map Some (wire ls) @ ?free,
          rd_p = length (map Some (wire ls)), rd_jumped = False, rd_count = ?c\<rparr>
     = read_loop buffer \<lparr>rd_pos = int (length pre), rd_name = map Some (wire ls) @ ?free,
          rd_p = length (map Some (wire ls)), rd_jumped = True, rd_count = ?c\<rparr>"
    using read_pointer [OF t, of buffer "pre' @ wire ls" post'] p by (subst read_loop.simps) simp
  have rest: "read_loop buffer \<lparr>rd_pos = int (length pre), rd_name = map Some (wire ls) @ ?free,
          rd_p = length (map Some (wire ls)), rd_jumped = True, rd_count = ?c\<rparr>
     = Some \<lparr>rd_pos = int (length pre + length (wire ms)),
          rd_name = map Some (wire ls) @ map Some (wire ms) @ drop (length (wire ms)) ?free,
          rd_p = length (map Some (wire ls)) + length (wire ms), rd_jumped = True, rd_count = ?c\<rparr>"
    using read_plain [OF ls(2) b ls(4), of "map Some (wire ls)" True ?c] by simp
  have "read_loop buffer \<lparr>rd_pos = int (length pre'), rd_name = name_block, rd_p = 0, rd_jumped = False, rd_count = 1\<rparr>
     = Some \<lparr>rd_pos = int (length pre + length (wire ms)),
          rd_name = map Some (wire (ls @ ms)) @ drop (length (wire (ls @ ms))) name_block,
          rd_p = length (wire (ls @ ms)), rd_jumped = True, rd_count = ?c\<rparr>"
    unfolding first jump rest by (simp add: wire_append add.commute)
  from finish_name [OF ok this] show ?thesis by (simp add: add.commute)
qed

lemma read_name_pointer:
  assumes "names_ok ls" and "buffer = pre @ wire ls @ 0 # post"
    and "buffer = pre' @ pointer (length pre) @ post'" and "length pre < 16384"
  shows "\<exists>nm. ReadName (int (length pre')) buffer = Some (nm, 2) \<and> block_cstr nm = Some (bytes_of (dotted ls))"
  using read_name_compressed [of "[]" ls pre buffer post pre' post'] assms by simp

subsection \<open>Names that are not read\<close>

text \<open>The first \<open>n\<close> turns of the loop.\<close>

fun read_iter :: "nat \<Rightarrow> byte list \<Rightarrow> reading \<Rightarrow> (reading + reading) option" where
  "read_iter 0 buffer s = Some (Inl s)"
| "read_iter (Suc n) buffer s =
     (case read_step buffer s of
        None \<Rightarrow> None
      | Some r \<Rightarrow> (case r of Inr s' \<Rightarrow> Some (Inr s') | Inl s' \<Rightarrow> read_iter n buffer s'))"

lemma self_pointer_loops:
  assumes "buffer = pre @ pointer (length pre) @ post" and "length pre < 16384"
  shows "read_iter n buffer \<lparr>rd_pos = int (length pre), rd_name = nm, rd_p = p, rd_jumped = j, rd_count = c\<rparr> =
    Some (Inl \<lparr>rd_pos = int (length pre), rd_name = nm, rd_p = p, rd_jumped = (j \<or> 0 < n), rd_count = c\<rparr>)"
  by (induction n arbitrary: j) (simp_all add: read_pointer [OF assms(2,1)])

lemma root_name_faults:
  assumes "buffer = pre @ 0 # post"
  shows "ReadName (int (length pre)) buffer = None"
proof -
  have "read_loop buffer \<lparr>rd_pos = int (length pre), rd_name = name_block, rd_p = 0, rd_jumped = False, rd_count = 1\<rparr>
     = Some \<lparr>rd_pos = int (length pre), rd_name = name_block, rd_p = 0, rd_jumped = False, rd_count = 1\<rparr>"
    using assms by (subst read_loop.simps) (simp add: read_step_def get_byte_at)
  then show ?thesis
    by (simp add: ReadName_def block_put_def name_block_def convert_loop.simps [of _ 0])
qed

end
