(* ===== verification/Dns_Query.thy ===== *)
theory Dns_Query
  imports Dns_Name
begin

text \<open>
  The DNS client of \<open>src/src/dns_util/dnsUtil.c\<close> around the name coding: building the query
  packet, the exchange with the name server, parsing the three record sections, releasing what the
  parse allocated, and the first IPv4 address of a host.

  The system is an argument: whether a socket is opened when some number of them is open, whether
  the datagram is sent, the datagram that comes back with its delay in microseconds, if any, and what
  can be read behind a block of the heap.  A receive without a time limit that gets no datagram does
  not return, which is \<open>None\<close> like a fault.
\<close>

definition T_A :: nat where "T_A = 1"
definition MAX_DNS_BUFFER_SIZE :: nat where "MAX_DNS_BUFFER_SIZE = 65536"
definition MAX_RES_RECORD_CNT :: nat where "MAX_RES_RECORD_CNT = 20"
definition DNS_HEADER_LEN :: nat where "DNS_HEADER_LEN = 12"
definition QUESTION_LEN :: nat where "QUESTION_LEN = 4"
definition R_DATA_LEN :: nat where "R_DATA_LEN = 10"

section \<open>Packet access\<close>

definition htons :: "nat \<Rightarrow> byte list" where
  "htons n = [of_nat (n div 256 mod 256), of_nat (n mod 256)]"

definition ntohs :: "byte list \<Rightarrow> int \<Rightarrow> nat option" where
  "ntohs buf i = do { hi \<leftarrow> get_byte buf i; lo \<leftarrow> get_byte buf (i + 1); Some (unat hi * 256 + unat lo) }"

definition put_bytes :: "byte list \<Rightarrow> nat \<Rightarrow> byte list \<Rightarrow> byte list option" where
  "put_bytes buf i bs =
     (if i + length bs \<le> length buf then Some (take i buf @ bs @ drop (i + length bs) buf) else None)"

definition get_bytes :: "byte list \<Rightarrow> int \<Rightarrow> nat \<Rightarrow> byte list option" where
  "get_bytes buf i n =
     (if 0 \<le> i \<and> i + int n \<le> int (length buf) then Some (take n (drop (nat i) buf)) else None)"

definition buf_strlen :: "byte list \<Rightarrow> nat \<Rightarrow> nat option" where
  "buf_strlen buf i = block_strlen (map Some (drop i buf))"

section \<open>The query\<close>

text \<open>
  The header as it lies in memory on a little-endian machine: the bit fields are allocated from
  the low bit, so \<open>rd\<close> is bit 0 of the third byte.
\<close>

definition query_header :: "nat \<Rightarrow> byte list" where
  "query_header pid = htons pid @ [1, 0] @ htons 1 @ htons 0 @ htons 0 @ htons 0"

text \<open>\<open>qname\<close> always points behind the header; the result is the packet and the changed host name.\<close>

definition setupDnsQuery :: "nat \<Rightarrow> byte list \<Rightarrow> nat \<Rightarrow> string \<Rightarrow> (byte list \<times> string) option" where
  "setupDnsQuery pid buf hcap hostName = do {
     buf \<leftarrow> put_bytes buf 0 (query_header pid);
     (dns, host) \<leftarrow> ChangetoDnsNameFormat hcap hostName;
     buf \<leftarrow> put_bytes buf DNS_HEADER_LEN dns;
     len \<leftarrow> buf_strlen buf DNS_HEADER_LEN;
     buf \<leftarrow> put_bytes buf (DNS_HEADER_LEN + (len + 1)) (htons T_A @ htons 1);
     Some (buf, host)
   }"

section \<open>The exchange\<close>

record dns_system =
  net_socket :: "nat \<Rightarrow> bool"
  net_send :: "string \<Rightarrow> byte list \<Rightarrow> bool"
  net_reply :: "string \<Rightarrow> byte list \<Rightarrow> (nat \<times> byte list) option"
  heap_behind :: "byte list"

text \<open>The counters of the module, and the number of sockets the process has open.\<close>

record dns_state =
  SEND_CNT :: int
  RECV_CNT :: int
  sockets :: nat

text \<open>
  The receive time limit in microseconds.  The product is one of \<open>int\<close>, of 32 bits, and wraps around
  (as compiled; it is undefined in C); it is then stored in a \<open>long\<close>.  The kernel refuses a
  \<open>tv_usec\<close> below 0 or of a million or more, and a limit of zero means none; the result of
  \<open>setsockopt\<close> is not checked.
\<close>

definition recv_limit :: "int \<Rightarrow> nat option" where
  "recv_limit timeOutMil =
     (let tv_usec = to_int32 (timeOutMil * 1000) in
      if 0 < tv_usec \<and> tv_usec < 1000000 then Some (nat tv_usec) else None)"

text \<open>
  The socket is never closed.  When none can be opened, the calls on the descriptor -1 fail.
\<close>

definition runDnsQuery ::
  "dns_system \<Rightarrow> dns_state \<Rightarrow> byte list \<Rightarrow> nat \<Rightarrow> string \<Rightarrow> int \<Rightarrow> (int \<times> byte list \<times> dns_state) option" where
  "runDnsQuery net cn buf maxBufSiz nameServer timeOutMil = do {
     let opened = net_socket net (sockets cn);
     let cn = (if opened then cn\<lparr>sockets := sockets cn + 1\<rparr> else cn);
     qlen \<leftarrow> buf_strlen buf DNS_HEADER_LEN;
     if \<not> opened then Some (-1, buf, cn)
     else do {
       packet \<leftarrow> get_bytes buf 0 (DNS_HEADER_LEN + (qlen + 1) + QUESTION_LEN);
       if \<not> net_send net nameServer packet then Some (-1, buf, cn)
       else do {
         let cn = cn\<lparr>SEND_CNT := SEND_CNT cn + 1\<rparr>;
         (case net_reply net nameServer packet of
            None \<Rightarrow> if recv_limit timeOutMil = None then None else Some (-1, buf, cn)
          | Some (delay, datagram) \<Rightarrow>
              if (case recv_limit timeOutMil of None \<Rightarrow> False | Some t \<Rightarrow> t \<le> delay) then Some (-1, buf, cn)
              else do {
                let d = take maxBufSiz datagram;
                Some (0, d @ drop (length d) buf, cn\<lparr>RECV_CNT := RECV_CNT cn + 1\<rparr>)
              })
       }
     }
   }"

section \<open>Parsing\<close>

record res_record =
  rr_name :: "block option"
  rr_resource :: "int option"
  rr_rdata :: "block option"
  malloced :: bool

definition zero_record :: res_record where
  "zero_record = \<lparr>rr_name = None, rr_resource = None, rr_rdata = None, malloced = False\<rparr>"

text \<open>The type and the length of the data of the resource at a position.\<close>

definition rr_type :: "byte list \<Rightarrow> int \<Rightarrow> nat option" where
  "rr_type buf res = ntohs buf res"

definition rr_data_len :: "byte list \<Rightarrow> int \<Rightarrow> nat option" where
  "rr_data_len buf res = ntohs buf (res + 8)"

definition copy_rdata :: "byte list \<Rightarrow> int \<Rightarrow> int \<Rightarrow> (block \<times> int) option" where
  "copy_rdata buf res reader = do {
     len \<leftarrow> rr_data_len buf res;
     bs \<leftarrow> get_bytes buf reader len;
     Some (map Some bs @ [Some 0], reader + int len)
   }"

definition parse_answer :: "byte list \<Rightarrow> int \<Rightarrow> (res_record \<times> int) option" where
  "parse_answer buf reader = do {
     (nm, stop) \<leftarrow> ReadName reader buf;
     let res = reader + stop;
     let reader = res + int R_DATA_LEN;
     ty \<leftarrow> rr_type buf res;
     if ty = 1 then do {
       (rdata, reader) \<leftarrow> copy_rdata buf res reader;
       Some (\<lparr>rr_name = Some nm, rr_resource = Some res, rr_rdata = Some rdata, malloced = True\<rparr>, reader)
     } else do {
       (rdata, stop) \<leftarrow> ReadName reader buf;
       Some (\<lparr>rr_name = Some nm, rr_resource = Some res, rr_rdata = Some rdata, malloced = False\<rparr>, reader + stop)
     }
   }"

definition parse_auth :: "byte list \<Rightarrow> int \<Rightarrow> (res_record \<times> int) option" where
  "parse_auth buf reader = do {
     (nm, stop) \<leftarrow> ReadName reader buf;
     let res = reader + stop;
     let reader = res + int R_DATA_LEN;
     (rdata, stop) \<leftarrow> ReadName reader buf;
     Some (\<lparr>rr_name = Some nm, rr_resource = Some res, rr_rdata = Some rdata, malloced = True\<rparr>, reader + stop)
   }"

definition parse_addit :: "byte list \<Rightarrow> int \<Rightarrow> (res_record \<times> int) option" where
  "parse_addit buf reader = do {
     (nm, stop) \<leftarrow> ReadName reader buf;
     let res = reader + stop;
     let reader = res + int R_DATA_LEN;
     ty \<leftarrow> rr_type buf res;
     if ty = 1 then do {
       (rdata, reader) \<leftarrow> copy_rdata buf res reader;
       Some (\<lparr>rr_name = Some nm, rr_resource = Some res, rr_rdata = Some rdata, malloced = True\<rparr>, reader)
     } else do {
       (rdata, stop) \<leftarrow> ReadName reader buf;
       Some (\<lparr>rr_name = Some nm, rr_resource = Some res, rr_rdata = Some rdata, malloced = True\<rparr>, reader + stop)
     }
   }"

text \<open>One section: the first \<open>n\<close> entries of the zeroed array are filled.\<close>

fun parse_section ::
  "(byte list \<Rightarrow> int \<Rightarrow> (res_record \<times> int) option) \<Rightarrow> nat \<Rightarrow> byte list \<Rightarrow> int \<Rightarrow> (res_record list \<times> int) option" where
  "parse_section p 0 buf reader = Some ([], reader)"
| "parse_section p (Suc n) buf reader = do {
     (r, reader) \<leftarrow> p buf reader;
     (rs, reader) \<leftarrow> parse_section p n buf reader;
     Some (r # rs, reader)
   }"

definition pad_records :: "res_record list \<Rightarrow> res_record list" where
  "pad_records rs = rs @ replicate (MAX_RES_RECORD_CNT - length rs) zero_record"

definition parseDnsResult ::
  "byte list \<Rightarrow> (res_record list \<times> res_record list \<times> res_record list) option" where
  "parseDnsResult buf = do {
     qlen \<leftarrow> buf_strlen buf DNS_HEADER_LEN;
     let reader = int (DNS_HEADER_LEN + (qlen + 1) + QUESTION_LEN);
     n \<leftarrow> ntohs buf 6;
     (answers, reader) \<leftarrow> parse_section parse_answer (min n MAX_RES_RECORD_CNT) buf reader;
     n \<leftarrow> ntohs buf 8;
     (auth, reader) \<leftarrow> parse_section parse_auth (min n MAX_RES_RECORD_CNT) buf reader;
     n \<leftarrow> ntohs buf 10;
     (addit, reader) \<leftarrow> parse_section parse_addit (min n MAX_RES_RECORD_CNT) buf reader;
     Some (pad_records answers, pad_records auth, pad_records addit)
   }"

section \<open>Releasing\<close>

text \<open>The blocks a record owns, and those of them that \<open>clearResRecord\<close> frees.\<close>

definition owned :: "res_record \<Rightarrow> block list" where
  "owned r = (case rr_rdata r of None \<Rightarrow> [] | Some b \<Rightarrow> [b]) @ (case rr_name r of None \<Rightarrow> [] | Some b \<Rightarrow> [b])"

definition clearResRecord :: "res_record list \<Rightarrow> nat \<Rightarrow> block list" where
  "clearResRecord resRecord maxResRecordCnt =
     concat (map (\<lambda>r. if malloced r then owned r else []) (take maxResRecordCnt resRecord))"

definition clearParseResult :: "res_record list \<Rightarrow> res_record list \<Rightarrow> res_record list \<Rightarrow> block list" where
  "clearParseResult answers auth addit =
     clearResRecord answers MAX_RES_RECORD_CNT @ clearResRecord auth MAX_RES_RECORD_CNT
     @ clearResRecord addit MAX_RES_RECORD_CNT"

section \<open>The address of a host\<close>

definition inet_ntoa :: "byte list \<Rightarrow> string" where
  "inet_ntoa bs =
     (case bs of
        a # b # c # d # _ \<Rightarrow>
          sprintf_d (int (unat a)) @ ''.'' @ sprintf_d (int (unat b)) @ ''.'' @
          sprintf_d (int (unat c)) @ ''.'' @ sprintf_d (int (unat d))
      | _ \<Rightarrow> [])"

text \<open>
  The code reads a \<open>long\<close> of eight bytes from the data and keeps the low four.  The block of an
  address has five bytes, so the read needs three bytes that can be read behind it: an allocator that
  rounds sizes up has them, with one that does not the read is a fault.
\<close>

definition read_s_addr :: "byte list \<Rightarrow> block \<Rightarrow> byte list option" where
  "read_s_addr behind b = do {
     bytes \<leftarrow> those (map (block_get (b @ map Some behind)) [0..<8]);
     Some (take 4 bytes)
   }"

record lookup =
  lk_ret :: int
  lk_ip :: string
  lk_host :: string
  lk_state :: dns_state
  lk_lost :: nat

text \<open>\<open>lk_lost\<close> counts the blocks that are neither freed nor reachable afterwards.\<close>

definition getHostFirstIpByNameTimeOut ::
  "dns_system \<Rightarrow> nat \<Rightarrow> dns_state \<Rightarrow> byte list \<Rightarrow> string \<Rightarrow> nat \<Rightarrow> string \<Rightarrow> string \<Rightarrow> int \<Rightarrow> lookup option" where
  "getHostFirstIpByNameTimeOut net pid cn stack ip hcap hostName nameServer timeOutMil = do {
     (buf, host) \<leftarrow> setupDnsQuery pid stack hcap hostName;
     (ret, buf, cn) \<leftarrow> runDnsQuery net cn buf MAX_DNS_BUFFER_SIZE nameServer timeOutMil;
     if ret \<noteq> 0 then Some \<lparr>lk_ret = ret, lk_ip = ip, lk_host = host, lk_state = cn, lk_lost = 0\<rparr>
     else do {
       (answers, auth, addit) \<leftarrow> parseDnsResult buf;
       let a0 = hd answers;
       is_a \<leftarrow> (case rr_resource a0 of None \<Rightarrow> Some False
                  | Some res \<Rightarrow> do { ty \<leftarrow> rr_type buf res; Some (ty = T_A) });
       (ret, ip) \<leftarrow> (if is_a then do {
                  rdata \<leftarrow> rr_rdata a0;
                  a \<leftarrow> read_s_addr (heap_behind net) rdata;
                  Some (0, inet_ntoa a)
                } else Some (-1, ip));
       let freed = clearParseResult answers auth addit;
       let allocated = concat (map owned (answers @ auth @ addit));
       Some \<lparr>lk_ret = ret, lk_ip = ip, lk_host = host, lk_state = cn,
             lk_lost = length allocated - length freed\<rparr>
     }
   }"

definition getHostFirstIpByName ::
  "dns_system \<Rightarrow> nat \<Rightarrow> dns_state \<Rightarrow> byte list \<Rightarrow> string \<Rightarrow> nat \<Rightarrow> string \<Rightarrow> string \<Rightarrow> lookup option" where
  "getHostFirstIpByName net pid cn stack ip hcap hostName nameServer =
     getHostFirstIpByNameTimeOut net pid cn stack ip hcap hostName nameServer 10"

section \<open>The packet\<close>

definition query_packet :: "nat \<Rightarrow> string list \<Rightarrow> byte list" where
  "query_packet pid ls = query_header pid @ wire ls @ [0] @ htons T_A @ htons 1"

lemma length_htons [simp]: "length (htons n) = 2"
  by (simp add: htons_def)

lemma length_header [simp]: "length (query_header pid) = 12"
  by (simp add: query_header_def)

lemma put_bytes_front: "length b = i \<Longrightarrow> length x = length y \<Longrightarrow> put_bytes (b @ x @ r) i y = Some (b @ y @ r)"
  by (simp add: put_bytes_def)

lemma buf_strlen_at:
  assumes "plain bs" and "length b = i"
  shows "buf_strlen (b @ bs @ 0 # r) i = Some (length bs)"
  using assms block_strlen_plain [OF plain_no_zero [OF assms(1)], of "map Some r"]
  by (simp add: buf_strlen_def)

lemma setup_query:
  assumes ok: "names_ok ls" and cap: "length (dotted_end ls) < hcap" and st: "300 \<le> length stack"
  shows "setupDnsQuery pid stack hcap (dotted ls) =
    Some (query_packet pid ls @ drop (length (query_packet pid ls)) stack, dotted_end ls)"
proof -
  have ls: "ls \<noteq> []" "\<forall>l \<in> set ls. label_ok l" "length (wire ls) \<le> 255"
    using ok by (simp_all add: names_ok_def length_wire)
  let ?n = "length (wire ls)"
  have q: "ChangetoDnsNameFormat hcap (dotted ls) = Some (wire ls @ [0], dotted_end ls)"
    by (rule change_labels [OF ls(1,2) cap])
  have p1: "put_bytes stack 0 (query_header pid) = Some (query_header pid @ drop 12 stack)"
    using st by (simp add: put_bytes_def)
  have p2: "put_bytes (query_header pid @ drop 12 stack) DNS_HEADER_LEN (wire ls @ [0]) =
      Some (query_header pid @ wire ls @ 0 # drop (?n + 13) stack)"
    using st ls(3) by (simp add: put_bytes_def DNS_HEADER_LEN_def add.commute)
  have len: "buf_strlen (query_header pid @ wire ls @ 0 # drop (?n + 13) stack) DNS_HEADER_LEN = Some ?n"
    by (rule buf_strlen_at [OF wire_plain [OF ls(2)]]) (simp add: DNS_HEADER_LEN_def)
  have p3: "put_bytes (query_header pid @ wire ls @ 0 # drop (?n + 13) stack) (DNS_HEADER_LEN + (?n + 1)) (htons T_A @ htons 1) =
      Some (query_packet pid ls @ drop (length (query_packet pid ls)) stack)"
  proof -
    have "drop 4 (drop (?n + 13) stack) = drop (?n + 17) stack" by (simp add: add.commute)
    then have "drop (?n + 13) stack = take 4 (drop (?n + 13) stack) @ drop (?n + 17) stack"
      using append_take_drop_id [of 4 "drop (?n + 13) stack"] by simp
    then show ?thesis
      using st ls(3) by (simp add: put_bytes_def DNS_HEADER_LEN_def query_packet_def)
  qed
  show ?thesis using p1 q p2 len p3 by (simp add: setupDnsQuery_def)
qed

lemma sent_packet:
  assumes "\<forall>l \<in> set ls. label_ok l"
  shows "buf_strlen (query_packet pid ls @ r) DNS_HEADER_LEN = Some (length (wire ls))"
    and "get_bytes (query_packet pid ls @ r) 0 (DNS_HEADER_LEN + (length (wire ls) + 1) + QUESTION_LEN)
      = Some (query_packet pid ls)"
proof -
  have b: "query_packet pid ls @ r = query_header pid @ wire ls @ 0 # htons T_A @ htons 1 @ r"
    by (simp add: query_packet_def)
  show "buf_strlen (query_packet pid ls @ r) DNS_HEADER_LEN = Some (length (wire ls))"
    unfolding b by (rule buf_strlen_at [OF wire_plain [OF assms]]) (simp add: DNS_HEADER_LEN_def)
  show "get_bytes (query_packet pid ls @ r) 0 (DNS_HEADER_LEN + (length (wire ls) + 1) + QUESTION_LEN)
      = Some (query_packet pid ls)"
    by (simp add: get_bytes_def query_packet_def DNS_HEADER_LEN_def QUESTION_LEN_def)
qed

section \<open>The first address\<close>

text \<open>
  A reply with one address record whose name is a pointer to the question: any two identification
  bytes, any two flag bytes, any question type and time to live.
\<close>

definition a_reply :: "byte list \<Rightarrow> string list \<Rightarrow> byte list \<Rightarrow> byte list \<Rightarrow> byte list \<Rightarrow> byte list" where
  "a_reply idf ls question ttl addr =
     idf @ htons 1 @ htons 1 @ htons 0 @ htons 0 @ wire ls @ [0] @ question @
     pointer 12 @ htons 1 @ htons 1 @ ttl @ htons 4 @ addr"

lemma ntohs_at: "int (length b) = i \<Longrightarrow> n < 65536 \<Longrightarrow> ntohs (b @ htons n @ r) i = Some n"
proof -
  assume i: "int (length b) = i" and n: "n < 65536"
  have g: "get_byte (b @ htons n @ r) i = Some (of_nat (n div 256 mod 256))"
    "get_byte (b @ htons n @ r) (i + 1) = Some (of_nat (n mod 256))"
    using i get_byte_at [of b i "of_nat (n div 256 mod 256)" "of_nat (n mod 256) # r"]
      get_byte_at [of "b @ [of_nat (n div 256 mod 256)]" "i + 1" "of_nat (n mod 256)" r]
    by (simp_all add: htons_def)
  have u: "unat (of_nat (n div 256 mod 256) :: byte) = n div 256 mod 256" "unat (of_nat (n mod 256) :: byte) = n mod 256"
    by (rule unat_of_nat_byte; simp)+
  have "n div 256 mod 256 = n div 256" using n by simp
  then have "unat (of_nat (n div 256 mod 256) :: byte) * 256 + unat (of_nat (n mod 256) :: byte) = n"
    unfolding u by simp
  then show ?thesis using g by (simp add: ntohs_def)
qed

lemma get_bytes_at: "int (length b) = i \<Longrightarrow> length x = n \<Longrightarrow> get_bytes (b @ x @ r) i n = Some x"
  by (auto simp: get_bytes_def)

lemma parse_a_reply:
  assumes ok: "names_ok ls" and len: "length idf = 4" "length question = 4" "length ttl = 4" "length addr = 4"
  shows "\<exists>nm. parseDnsResult (a_reply idf ls question ttl addr @ tail) =
      Some (pad_records [\<lparr>rr_name = Some nm, rr_resource = Some (int (length (wire ls) + 19)),
              rr_rdata = Some (map Some addr @ [Some 0]), malloced = True\<rparr>], pad_records [], pad_records [])
    \<and> rr_type (a_reply idf ls question ttl addr @ tail) (int (length (wire ls) + 19)) = Some 1"
proof -
  let ?buf = "a_reply idf ls question ttl addr @ tail"
  let ?n = "length (wire ls)"
  let ?hdr = "idf @ htons 1 @ htons 1 @ htons 0 @ htons 0"
  have ls: "\<forall>l \<in> set ls. label_ok l" using ok by (simp add: names_ok_def)
  have b1: "?buf = ?hdr @ wire ls @ 0 # question @ pointer 12 @ htons 1 @ htons 1 @ ttl @ htons 4 @ addr @ tail"
    by (simp add: a_reply_def)
  have qlen: "buf_strlen ?buf DNS_HEADER_LEN = Some ?n"
    unfolding b1 by (rule buf_strlen_at [OF wire_plain [OF ls]]) (simp add: DNS_HEADER_LEN_def len)
  have b6: "?buf = (idf @ htons 1) @ htons 1 @ htons 0 @ htons 0 @ wire ls @ 0 # question @ pointer 12 @ htons 1 @ htons 1 @ ttl @ htons 4 @ addr @ tail"
    and b8: "?buf = (idf @ htons 1 @ htons 1) @ htons 0 @ htons 0 @ wire ls @ 0 # question @ pointer 12 @ htons 1 @ htons 1 @ ttl @ htons 4 @ addr @ tail"
    and b10: "?buf = (idf @ htons 1 @ htons 1 @ htons 0) @ htons 0 @ wire ls @ 0 # question @ pointer 12 @ htons 1 @ htons 1 @ ttl @ htons 4 @ addr @ tail"
    by (simp_all add: a_reply_def)
  have counts: "ntohs ?buf 6 = Some 1" "ntohs ?buf 8 = Some 0" "ntohs ?buf 10 = Some 0"
    by (subst b6 b8 b10, rule ntohs_at; simp add: len)+
  let ?pre = "?hdr @ wire ls @ 0 # question"
  have pre: "length ?pre = ?n + 17" "length ?hdr = 12" using len by simp_all
  have bp: "?buf = ?pre @ pointer (length ?hdr) @ htons 1 @ htons 1 @ ttl @ htons 4 @ addr @ tail"
    unfolding pre(2) by (simp add: a_reply_def)
  obtain nm where nm: "ReadName (int (length ?pre)) ?buf = Some (nm, 2)"
    using read_name_pointer [OF ok b1 bp] pre(2) by auto
  have bt: "?buf = (?pre @ pointer 12) @ htons 1 @ htons 1 @ ttl @ htons 4 @ addr @ tail"
    and bl: "?buf = (?pre @ pointer 12 @ htons 1 @ htons 1 @ ttl) @ htons 4 @ addr @ tail"
    and ba: "?buf = (?pre @ pointer 12 @ htons 1 @ htons 1 @ ttl @ htons 4) @ addr @ tail"
    by (simp_all add: a_reply_def)
  have ty: "ntohs ?buf (int (?n + 19)) = Some 1"
    by (subst bt, rule ntohs_at) (simp_all add: len pointer_def)
  have dl: "ntohs ?buf (int (?n + 19) + 8) = Some 4"
    by (subst bl, rule ntohs_at) (simp_all add: len pointer_def)
  have ad: "get_bytes ?buf (int (?n + 19) + 10) 4 = Some addr"
    by (subst ba, rule get_bytes_at) (simp_all add: len pointer_def)
  have start: "int (DNS_HEADER_LEN + (?n + 1) + QUESTION_LEN) = int (length ?pre)"
    unfolding pre(1) by (simp add: DNS_HEADER_LEN_def QUESTION_LEN_def)
  have res: "int (length ?pre) + 2 = int (?n + 19)" unfolding pre(1) by simp
  have ans: "parse_answer ?buf (int (length ?pre)) =
      Some (\<lparr>rr_name = Some nm, rr_resource = Some (int (?n + 19)), rr_rdata = Some (map Some addr @ [Some 0]),
        malloced = True\<rparr>, int (?n + 19) + 10 + 4)"
    unfolding parse_answer_def nm bind.simps prod.case res rr_type_def copy_rdata_def rr_data_len_def Let_def
      R_DATA_LEN_def
    using ty dl ad by simp
  have one: "parse_section parse_answer (min 1 MAX_RES_RECORD_CNT) ?buf (int (length ?pre)) =
      Some ([\<lparr>rr_name = Some nm, rr_resource = Some (int (?n + 19)), rr_rdata = Some (map Some addr @ [Some 0]),
        malloced = True\<rparr>], int (?n + 19) + 10 + 4)"
    using ans by (simp add: MAX_RES_RECORD_CNT_def)
  show ?thesis
    unfolding parseDnsResult_def qlen bind.simps Let_def start counts one
    using ty by (intro exI [of _ nm]) (simp add: rr_type_def)
qed

lemma owned_zero [simp]: "owned zero_record = []"
  by (simp add: owned_def zero_record_def)

lemma malloced_zero [simp]: "malloced zero_record = False"
  by (simp add: zero_record_def)

lemma owned_pad: "concat (map owned (pad_records rs)) = concat (map owned rs)"
  by (simp add: pad_records_def)

lemma clear_pad:
  assumes "length rs \<le> MAX_RES_RECORD_CNT"
  shows "clearResRecord (pad_records rs) MAX_RES_RECORD_CNT = concat (map owned (filter malloced rs))"
proof -
  have "concat (map (\<lambda>r. if malloced r then owned r else []) rs) = concat (map owned (filter malloced rs))" for rs
    by (induction rs) auto
  then show ?thesis using assms by (simp add: clearResRecord_def pad_records_def)
qed

text \<open>A silent server and a time limit the kernel refuses: the call does not return.\<close>

section \<open>Lost blocks\<close>

definition filled :: "res_record \<Rightarrow> bool" where
  "filled r \<longleftrightarrow> rr_name r \<noteq> None \<and> rr_rdata r \<noteq> None"

lemma parse_answer_filled: "parse_answer buf rd = Some (r, rd') \<Longrightarrow> filled r"
  by (auto simp: parse_answer_def filled_def Let_def split: if_splits)

lemma parse_auth_filled: "parse_auth buf rd = Some (r, rd') \<Longrightarrow> filled r \<and> malloced r"
  by (auto simp: parse_auth_def filled_def Let_def)

lemma parse_addit_filled: "parse_addit buf rd = Some (r, rd') \<Longrightarrow> filled r \<and> malloced r"
  by (auto simp: parse_addit_def filled_def Let_def split: if_splits)

lemma parse_section_all:
  assumes "\<And>buf rd r rd'. p buf rd = Some (r, rd') \<Longrightarrow> Q r"
  shows "parse_section p n buf rd = Some (rs, rd') \<Longrightarrow> length rs = n \<and> (\<forall>r \<in> set rs. Q r)"
proof (induction n arbitrary: rd rs)
  case (Suc n)
  then obtain r rd1 rs1 where "p buf rd = Some (r, rd1)" "parse_section p n buf rd1 = Some (rs1, rd')" "rs = r # rs1"
    by auto
  with Suc.IH assms show ?case by fastforce
qed simp

lemma owned_filled: "filled r \<Longrightarrow> length (owned r) = 2"
  by (auto simp: filled_def owned_def)

lemma length_owned: "\<forall>r \<in> set rs. filled r \<Longrightarrow> length (concat (map owned rs)) = 2 * length rs"
  by (induction rs) (auto simp: owned_filled)

text \<open>
  An answer that is not an address record is parsed into two new blocks, but only the branch for
  addresses marks the record, so \<open>clearResRecord\<close> passes over it.
\<close>

end
