(* ===== verification/Dns_Correct.thy ===== *)
theory Dns_Correct
  imports Dns_Query
begin

text \<open>
  What the DNS client guarantees: the name coding and its inverse, the bytes of a query, the lookup
  of an address, and how it behaves on the inputs it does not guard against (a pointer to itself,
  the root name, a silent server, answers of another type).
\<close>

section \<open>Names\<close>

text \<open>C8: Encoding a host name and reading the encoded name back, anywhere in a packet, gives the
  same dotted name and consumes exactly the encoded bytes.\<close>

theorem dns_name_roundtrip:
  assumes "names_ok ls" and "length (dotted_end ls) < hcap"
  shows "\<exists>w. ChangetoDnsNameFormat hcap (dotted ls) = Some (w, dotted_end ls)
     \<and> (\<forall>pre post. \<exists>nm. ReadName (int (length pre)) (pre @ w @ post) = Some (nm, int (length w))
          \<and> block_cstr nm = Some (bytes_of (dotted ls)))"
proof -
  have "ChangetoDnsNameFormat hcap (dotted ls) = Some (wire ls @ [0], dotted_end ls)"
    using assms by (intro change_labels) (simp_all add: names_ok_def)
  moreover have "\<exists>nm. ReadName (int (length pre)) (pre @ (wire ls @ [0]) @ post) =
      Some (nm, int (length (wire ls @ [0]))) \<and> block_cstr nm = Some (bytes_of (dotted ls))" for pre post
    using read_name_wire [OF assms(1), of "pre @ (wire ls @ [0]) @ post" pre post] by simp
  ultimately show ?thesis by blast
qed

lemma sample_names: "names_ok [''ems'', ''svc'']" "length (dotted_end [''ems'', ''svc'']) = 8"
  by (simp_all add: names_ok_def label_ok_def unat_byte_of nul_def)

theorem dns_name_roundtrip_witness:
  "\<exists>w. ChangetoDnsNameFormat 128 (dotted [''ems'', ''svc'']) = Some (w, ''ems.svc.'')
     \<and> (\<forall>pre post. \<exists>nm. ReadName (int (length pre)) (pre @ w @ post) = Some (nm, int (length w))
          \<and> block_cstr nm = Some (bytes_of (dotted [''ems'', ''svc''])))"
  using dns_name_roundtrip [OF sample_names(1), of 128] sample_names(2) by simp

text \<open>C21: A compressed name, some labels followed by a pointer to the rest, is read as the whole
  dotted name; only its labels and the two bytes of the pointer are consumed.\<close>

theorem dns_compressed_name:
  assumes "names_ok (ls @ ms)" and "length pre < 16384"
    and "buffer = pre @ wire ms @ 0 # post" and "buffer = pre' @ wire ls @ pointer (length pre) @ post'"
  shows "\<exists>nm. ReadName (int (length pre')) buffer = Some (nm, int (length (wire ls) + 2))
     \<and> block_cstr nm = Some (bytes_of (dotted (ls @ ms)))"
  using assms by (rule read_name_compressed)

theorem dns_compressed_name_witness:
  "\<exists>nm. ReadName 6 ([7] @ wire [''svc''] @ 0 # wire [''ems''] @ pointer 1) = Some (nm, 6)
     \<and> block_cstr nm = Some (bytes_of (dotted [''ems'', ''svc'']))"
  using dns_compressed_name [of "[''ems'']" "[''svc'']" "[7]" "[7] @ wire [''svc''] @ 0 # wire [''ems''] @ pointer 1"
      "wire [''ems''] @ pointer 1" "[7] @ wire [''svc''] @ [0]" "[]"] sample_names(1)
  by (simp add: length_wire)

text \<open>A loop that never leaves a state has no result.\<close>

lemma self_pointer_no_result:
  assumes b: "buffer = pre @ pointer (length pre) @ post" and l: "length pre < 16384"
    and run: "read_loop buf s = Some s'"
  shows "buf = buffer \<longrightarrow> rd_pos s \<noteq> int (length pre)"
proof (rule read_loop.raw_induct [where P = "\<lambda>buf s s'. buf = buffer \<longrightarrow> rd_pos s \<noteq> int (length pre)", OF _ run], goal_cases)
  case (1 f buf s s')
  show ?case
  proof (intro impI notI)
    assume here: "buf = buffer" "rd_pos s = int (length pre)"
    have "read_step buf s = Some (Inl (s\<lparr>rd_pos := int (length pre), rd_jumped := True\<rparr>))"
      using read_pointer [OF l b, of "rd_name s" "rd_p s" "rd_jumped s" "rd_count s"] here
      by (cases s) simp
    with 1(2) have "f buf (s\<lparr>rd_pos := int (length pre), rd_jumped := True\<rparr>) = Some s'" by simp
    from 1(1) [OF this] here(1) show False by simp
  qed
qed

text \<open>C35: A compression pointer that points to itself: the reader never faults and never leaves its
  first loop, for any number of turns, so the lookup does not return.\<close>

theorem dns_self_pointer:
  assumes "buffer = pre @ pointer (length pre) @ post" and "length pre < 16384"
  shows "ReadName (int (length pre)) buffer = None
     \<and> (\<forall>n. \<exists>s. read_iter n buffer \<lparr>rd_pos = int (length pre), rd_name = name_block, rd_p = 0,
          rd_jumped = False, rd_count = 1\<rparr> = Some (Inl s) \<and> rd_pos s = int (length pre))"
proof -
  let ?s = "\<lparr>rd_pos = int (length pre), rd_name = name_block, rd_p = 0, rd_jumped = False, rd_count = 1\<rparr>"
  have "read_loop buffer ?s = None"
    using self_pointer_no_result [OF assms, of buffer ?s] by (cases "read_loop buffer ?s") auto
  then have "ReadName (int (length pre)) buffer = None" by (simp add: ReadName_def)
  then show ?thesis using self_pointer_loops [OF assms] by fastforce
qed

theorem dns_self_pointer_witness:
  "ReadName 12 (replicate 12 0 @ pointer 12) = None
     \<and> (\<forall>n. \<exists>s. read_iter n (replicate 12 0 @ pointer 12) \<lparr>rd_pos = 12, rd_name = name_block, rd_p = 0,
          rd_jumped = False, rd_count = 1\<rparr> = Some (Inl s) \<and> rd_pos s = 12)"
  using dns_self_pointer [of "replicate 12 0 @ pointer 12" "replicate 12 0" "[]"] by simp

text \<open>The root name: the byte before the allocated block is written, so a reply with an empty
  name is a fault wherever it stands.\<close>

lemma dns_root_name:
  "ReadName (int (length pre)) (pre @ 0 # post) = None"
  by (rule root_name_faults) simp

section \<open>Queries\<close>

lemma those_None: "None \<in> set xs \<Longrightarrow> those xs = None"
  by (induction xs) (auto split: option.split)

text \<open>The read of eight bytes from the five of an address.\<close>

lemma read_long:
  "read_s_addr behind (map Some [a, b, c, d] @ [Some 0]) = (if 3 \<le> length behind then Some [a, b, c, d] else None)"
proof (cases "3 \<le> length behind")
  case True
  then obtain x y z r where "behind = x # y # z # r"
    by (metis (no_types) Suc_le_length_iff numeral_3_eq_3)
  then show ?thesis by (simp add: read_s_addr_def block_get_def upt_rec)
next
  case False
  then have "block_get (map Some [a, b, c, d] @ [Some 0] @ map Some behind) 7 = None" by (simp add: block_get_def)
  then have "None \<in> set (map (block_get (map Some [a, b, c, d] @ [Some 0] @ map Some behind)) [0..<8])"
    unfolding set_map by (intro image_eqI [where x = 7]) simp_all
  then show ?thesis using False by (simp add: read_s_addr_def those_None)
qed


text \<open>The datagram sent for a host name is the query header, the encoded name, and the question
  type and class, whatever the stack held before; a failed send leaves the counters alone, and one more
  socket open.\<close>

theorem dns_query_sent:
  assumes "names_ok ls" and "length (dotted_end ls) < hcap" and "300 \<le> length stack"
    and "net_socket net (sockets cn)" and "\<not> net_send net nameServer (query_packet pid ls)"
  shows "(\<exists>buf. setupDnsQuery pid stack hcap (dotted ls) = Some (buf, dotted_end ls)
       \<and> buf_strlen buf DNS_HEADER_LEN = Some (length (wire ls))
       \<and> get_bytes buf 0 (DNS_HEADER_LEN + (length (wire ls) + 1) + QUESTION_LEN) = Some (query_packet pid ls))
     \<and> getHostFirstIpByNameTimeOut net pid cn stack ip hcap (dotted ls) nameServer t =
       Some \<lparr>lk_ret = -1, lk_ip = ip, lk_host = dotted_end ls, lk_state = cn\<lparr>sockets := sockets cn + 1\<rparr>, lk_lost = 0\<rparr>"
proof -
  have ok: "\<forall>l \<in> set ls. label_ok l" using assms(1) by (simp add: names_ok_def)
  note built = setup_query [OF assms(1-3), of pid]
  note sent = sent_packet [OF ok, of pid "drop (length (query_packet pid ls)) stack"]
  have "runDnsQuery net cn (query_packet pid ls @ drop (length (query_packet pid ls)) stack)
      MAX_DNS_BUFFER_SIZE nameServer t = Some (-1, query_packet pid ls @ drop (length (query_packet pid ls)) stack,
        cn\<lparr>sockets := sockets cn + 1\<rparr>)"
    using sent assms(4,5) by (simp add: runDnsQuery_def Let_def del: bind_Some_iff)
  then show ?thesis
    using built sent by (simp add: getHostFirstIpByNameTimeOut_def del: bind_Some_iff)
qed

theorem dns_query_sent_witness:
  "\<exists>buf. setupDnsQuery 7 (replicate 300 1) 128 (dotted [''ems'', ''svc'']) = Some (buf, ''ems.svc.'')
     \<and> buf_strlen buf DNS_HEADER_LEN = Some (length (wire [''ems'', ''svc'']))
     \<and> get_bytes buf 0 (DNS_HEADER_LEN + (length (wire [''ems'', ''svc'']) + 1) + QUESTION_LEN)
         = Some (query_packet 7 [''ems'', ''svc''])"
  using dns_query_sent [OF sample_names(1), of 128 "replicate 300 1"
      "\<lparr>net_socket = (\<lambda>_. True), net_send = (\<lambda>_ _. False), net_reply = (\<lambda>_ _. None), heap_behind = []\<rparr>"
      "\<lparr>SEND_CNT = 0, RECV_CNT = 0, sockets = 0\<rparr>" "''10.0.0.1''" 7] sample_names(2) by simp

text \<open>C9: A reply with one address record, whose name points to the question, gives the address in
  dotted notation when three bytes can be read behind a block of the heap; otherwise reading the
  address is a fault, since eight bytes of a block of five are read.  Both counters go up and every
  block of the parsed records is freed, but the socket of the query stays open.\<close>

theorem dns_lookup_address:
  assumes ok: "names_ok ls" and cap: "length (dotted_end ls) < hcap"
    and st: "length stack = MAX_DNS_BUFFER_SIZE"
    and len: "length idf = 4" "length question = 4" "length ttl = 4" "length addr = 4"
    and net: "net_socket net (sockets cn)" "net_send net nameServer (query_packet pid ls)"
      "net_reply net nameServer (query_packet pid ls) = Some (delay, a_reply idf ls question ttl addr)"
    and lim: "case recv_limit timeOutMil of None \<Rightarrow> True | Some t \<Rightarrow> delay < t"
  shows "getHostFirstIpByNameTimeOut net pid cn stack ip hcap (dotted ls) nameServer timeOutMil =
    (if 3 \<le> length (heap_behind net)
     then Some \<lparr>lk_ret = 0, lk_ip = inet_ntoa addr, lk_host = dotted_end ls,
       lk_state = cn\<lparr>SEND_CNT := SEND_CNT cn + 1, RECV_CNT := RECV_CNT cn + 1, sockets := sockets cn + 1\<rparr>, lk_lost = 0\<rparr>
     else None)"
proof -
  have ls: "\<forall>l \<in> set ls. label_ok l" "length (wire ls) \<le> 255"
    using ok by (simp_all add: names_ok_def length_wire)
  let ?q = "query_packet pid ls" and ?reply = "a_reply idf ls question ttl addr"
  let ?rest = "drop (length ?q) stack"
  have "300 \<le> length stack" using st by (simp add: MAX_DNS_BUFFER_SIZE_def)
  then have s: "setupDnsQuery pid stack hcap (dotted ls) = Some (?q @ ?rest, dotted_end ls)"
    by (rule setup_query [OF ok cap])
  have "length ?reply \<le> MAX_DNS_BUFFER_SIZE"
    using ls(2) len by (simp add: a_reply_def MAX_DNS_BUFFER_SIZE_def pointer_def)
  then have tk: "take MAX_DNS_BUFFER_SIZE ?reply = ?reply"
    "min (length ?reply) MAX_DNS_BUFFER_SIZE = length ?reply" by simp_all
  have slow: "\<not> (case recv_limit timeOutMil of None \<Rightarrow> False | Some t \<Rightarrow> t \<le> delay)"
    using lim by (auto split: option.splits)
  have r: "runDnsQuery net cn (?q @ ?rest) MAX_DNS_BUFFER_SIZE nameServer timeOutMil =
      Some (0, ?reply @ drop (length ?reply) (?q @ ?rest),
            cn\<lparr>SEND_CNT := SEND_CNT cn + 1, RECV_CNT := RECV_CNT cn + 1, sockets := sockets cn + 1\<rparr>)"
    using sent_packet [OF ls(1), of pid ?rest] net slow by (simp add: runDnsQuery_def tk Let_def)
  define buf where "buf = ?reply @ drop (length ?reply) (?q @ ?rest)"
  let ?rec = "\<lambda>nm. \<lparr>rr_name = Some nm, rr_resource = Some (int (length (wire ls) + 19)),
    rr_rdata = Some (map Some addr @ [Some 0]), malloced = True\<rparr>"
  obtain nm where p: "parseDnsResult buf = Some (pad_records [?rec nm], pad_records [], pad_records [])"
      "rr_type buf (int (length (wire ls) + 19)) = Some 1"
    using parse_a_reply [OF ok len] unfolding buf_def by blast
  have hd: "hd (pad_records [?rec nm]) = ?rec nm" by (simp add: pad_records_def)
  have own: "length (concat (map owned (pad_records [?rec nm] @ pad_records [] @ pad_records []))) = 2"
    "length (clearParseResult (pad_records [?rec nm]) (pad_records []) (pad_records [])) = 2"
  proof -
    have m: "length [?rec nm] \<le> MAX_RES_RECORD_CNT" "length [] \<le> MAX_RES_RECORD_CNT"
      by (simp_all add: MAX_RES_RECORD_CNT_def)
    show "length (concat (map owned (pad_records [?rec nm] @ pad_records [] @ pad_records []))) = 2"
      by (simp add: owned_pad owned_def)
    show "length (clearParseResult (pad_records [?rec nm]) (pad_records []) (pad_records [])) = 2"
      unfolding clearParseResult_def clear_pad [OF m(1)] clear_pad [OF m(2)] by (simp add: owned_def)
  qed
  obtain a b c d where addr: "addr = [a, b, c, d]"
    using len(4) by (auto simp: numeral_eq_Suc length_Suc_conv)
  have read: "read_s_addr (heap_behind net) (map Some addr @ [Some 0]) =
      (if 3 \<le> length (heap_behind net) then Some addr else None)"
    unfolding addr by (rule read_long)
  show ?thesis
    unfolding getHostFirstIpByNameTimeOut_def s r [folded buf_def] bind.simps prod.case p Let_def hd own
    using p(2) read by (simp add: T_A_def)
qed

theorem dns_lookup_address_witness:
  "getHostFirstIpByNameTimeOut
     \<lparr>net_socket = (\<lambda>_. True), net_send = (\<lambda>_ _. True), net_reply = (\<lambda>_ _. Some (5000, a_reply [0, 7, 129, 128] [''ems'', ''svc'']
        [0, 1, 0, 1] [0, 0, 0, 30] [10, 96, 0, 12])), heap_behind = replicate 3 0\<rparr>
     7 \<lparr>SEND_CNT = 0, RECV_CNT = 0, sockets = 4\<rparr> (replicate MAX_DNS_BUFFER_SIZE 0) [] 128 (dotted [''ems'', ''svc'']) ''10.0.0.1'' 10 =
   Some \<lparr>lk_ret = 0, lk_ip = inet_ntoa [10, 96, 0, 12], lk_host = ''ems.svc.'',
      lk_state = \<lparr>SEND_CNT = 1, RECV_CNT = 1, sockets = 5\<rparr>, lk_lost = 0\<rparr>"
  by (subst dns_lookup_address [OF sample_names(1), where idf = "[0, 7, 129, 128]" and question = "[0, 1, 0, 1]"
      and ttl = "[0, 0, 0, 30]" and delay = 5000]) (simp_all add: sample_names(2) recv_limit_def to_int32_def)

lemma dns_silent_server_call:
  assumes ok: "names_ok ls" and cap: "length (dotted_end ls) < hcap" and st: "300 \<le> length stack"
    and net: "net_socket net (sockets cn)" "net_send net nameServer (query_packet pid ls)"
      "net_reply net nameServer (query_packet pid ls) = None"
  shows "getHostFirstIpByNameTimeOut net pid cn stack ip hcap (dotted ls) nameServer timeOutMil =
    (if 0 < to_int32 (timeOutMil * 1000) \<and> to_int32 (timeOutMil * 1000) < 1000000
     then Some \<lparr>lk_ret = -1, lk_ip = ip, lk_host = dotted_end ls,
            lk_state = cn\<lparr>SEND_CNT := SEND_CNT cn + 1, sockets := sockets cn + 1\<rparr>, lk_lost = 0\<rparr>
     else None)"
proof -
  have ls: "\<forall>l \<in> set ls. label_ok l" using ok by (simp add: names_ok_def)
  show ?thesis
    using setup_query [OF ok cap st, of pid] net
      sent_packet [OF ls, of pid "drop (length (query_packet pid ls)) stack"]
    by (simp add: getHostFirstIpByNameTimeOut_def runDnsQuery_def recv_limit_def Let_def)
qed

text \<open>C34: A server that does not answer: the call returns an error exactly when the thousandfold of the
  time limit, as a 32-bit integer, is between 1 and 999999; otherwise the receive has no limit and the
  call does not return.  Up to 2147483 milliseconds, where the product does not wrap around, these are
  the limits between 1 and 999.\<close>

theorem dns_silent_server:
  assumes ok: "names_ok ls" and cap: "length (dotted_end ls) < hcap" and st: "300 \<le> length stack"
    and net: "net_socket net (sockets cn)" "net_send net nameServer (query_packet pid ls)"
      "net_reply net nameServer (query_packet pid ls) = None"
  shows "getHostFirstIpByNameTimeOut net pid cn stack ip hcap (dotted ls) nameServer timeOutMil =
    (if 0 < to_int32 (timeOutMil * 1000) \<and> to_int32 (timeOutMil * 1000) < 1000000
     then Some \<lparr>lk_ret = -1, lk_ip = ip, lk_host = dotted_end ls,
            lk_state = cn\<lparr>SEND_CNT := SEND_CNT cn + 1, sockets := sockets cn + 1\<rparr>, lk_lost = 0\<rparr>
     else None)
   \<and> (\<bar>timeOutMil\<bar> \<le> 2147483 \<longrightarrow>
       (0 < to_int32 (timeOutMil * 1000) \<and> to_int32 (timeOutMil * 1000) < 1000000) = (0 < timeOutMil \<and> timeOutMil < 1000))"
proof
  show "getHostFirstIpByNameTimeOut net pid cn stack ip hcap (dotted ls) nameServer timeOutMil =
    (if 0 < to_int32 (timeOutMil * 1000) \<and> to_int32 (timeOutMil * 1000) < 1000000
     then Some \<lparr>lk_ret = -1, lk_ip = ip, lk_host = dotted_end ls,
            lk_state = cn\<lparr>SEND_CNT := SEND_CNT cn + 1, sockets := sockets cn + 1\<rparr>, lk_lost = 0\<rparr>
     else None)"
    by (rule dns_silent_server_call [OF assms])
  show "\<bar>timeOutMil\<bar> \<le> 2147483 \<longrightarrow>
       (0 < to_int32 (timeOutMil * 1000) \<and> to_int32 (timeOutMil * 1000) < 1000000) = (0 < timeOutMil \<and> timeOutMil < 1000)"
  proof
    assume "\<bar>timeOutMil\<bar> \<le> 2147483"
    then have "to_int32 (timeOutMil * 1000) = timeOutMil * 1000" by (simp add: to_int32_def mod_pos_pos_trivial)
    then show "(0 < to_int32 (timeOutMil * 1000) \<and> to_int32 (timeOutMil * 1000) < 1000000) = (0 < timeOutMil \<and> timeOutMil < 1000)"
      by simp
  qed
qed

definition silent :: dns_system where
  "silent = \<lparr>net_socket = (\<lambda>_. True), net_send = (\<lambda>_ _. True), net_reply = (\<lambda>_ _. None), heap_behind = []\<rparr>"

theorem dns_silent_server_witness:
  "let run = getHostFirstIpByNameTimeOut silent 7 \<lparr>SEND_CNT = 0, RECV_CNT = 0, sockets = 0\<rparr> (replicate 300 0) [] 128
      (dotted [''ems'', ''svc'']) ''10.0.0.1''
   in run 1000 = None \<and> map_option lk_ret (run 999) = Some (-1) \<and> map_option lk_ret (run 4294968) = Some (-1)"
  using dns_silent_server [OF sample_names(1), of 128 "replicate 300 0" silent "\<lparr>SEND_CNT = 0, RECV_CNT = 0, sockets = 0\<rparr>"
      "''10.0.0.1''" 7 "[]" 1000]
    dns_silent_server [OF sample_names(1), of 128 "replicate 300 0" silent "\<lparr>SEND_CNT = 0, RECV_CNT = 0, sockets = 0\<rparr>"
      "''10.0.0.1''" 7 "[]" 999]
    dns_silent_server [OF sample_names(1), of 128 "replicate 300 0" silent "\<lparr>SEND_CNT = 0, RECV_CNT = 0, sockets = 0\<rparr>"
      "''10.0.0.1''" 7 "[]" 4294968]
    sample_names(2)
  by (simp add: silent_def to_int32_def Let_def)

text \<open>What the release of a parsed reply forgets: the two blocks of every answer that is not an
  address record, and nothing else.\<close>

theorem dns_lost_blocks:
  assumes "parseDnsResult buf = Some (answers, auth, addit)"
  shows "length (concat (map owned (answers @ auth @ addit))) =
    length (clearParseResult answers auth addit)
      + 2 * length (filter (\<lambda>r. rr_name r \<noteq> None \<and> \<not> malloced r) answers)"
proof -
  obtain n1 n2 n3 r0 r1 r2 r3 a u d where s:
      "parse_section parse_answer (min n1 MAX_RES_RECORD_CNT) buf r0 = Some (a, r1)"
      "parse_section parse_auth (min n2 MAX_RES_RECORD_CNT) buf r1 = Some (u, r2)"
      "parse_section parse_addit (min n3 MAX_RES_RECORD_CNT) buf r2 = Some (d, r3)"
      "answers = pad_records a" "auth = pad_records u" "addit = pad_records d"
    using assms by (auto simp: parseDnsResult_def Let_def)
  have a: "length a \<le> MAX_RES_RECORD_CNT" "\<forall>r \<in> set a. filled r"
    using parse_section_all [where p = parse_answer and Q = "filled", OF _ s(1)] parse_answer_filled by auto
  have u: "length u \<le> MAX_RES_RECORD_CNT" "\<forall>r \<in> set u. filled r \<and> malloced r"
    using parse_section_all [where p = parse_auth and Q = "\<lambda>r. filled r \<and> malloced r", OF _ s(2)] parse_auth_filled by auto
  have d: "length d \<le> MAX_RES_RECORD_CNT" "\<forall>r \<in> set d. filled r \<and> malloced r"
    using parse_section_all [where p = parse_addit and Q = "\<lambda>r. filled r \<and> malloced r", OF _ s(3)] parse_addit_filled by auto
  have fu: "filter malloced u = u" and fd: "filter malloced d = d"
    using u d by (auto intro: filter_True)
  have la: "length (concat (map owned a)) = 2 * length a"
    and lm: "length (concat (map owned (filter malloced a))) = 2 * length (filter malloced a)"
    using a by (auto intro!: length_owned)
  have nf: "filter (\<lambda>r. rr_name r \<noteq> None \<and> \<not> malloced r) (pad_records a) = filter (\<lambda>r. \<not> malloced r) a"
    unfolding pad_records_def filter_append using a(2)
    by (auto simp: zero_record_def filled_def intro!: filter_cong)
  have "length a = length (filter malloced a) + length (filter (\<lambda>r. \<not> malloced r) a)"
    by (simp add: sum_length_filter_compl)
  then show ?thesis
    unfolding clearParseResult_def s(4,5,6) nf map_append concat_append length_append owned_pad
      clear_pad [OF a(1)] clear_pad [OF u(1)] clear_pad [OF d(1)] fu fd la lm
    by simp
qed

section \<open>Sockets\<close>

text \<open>A sequence of lookups; the parameters of one are those of \<open>getHostFirstIpByNameTimeOut\<close>.\<close>

fun lookups ::
  "dns_system \<Rightarrow> (nat \<times> byte list \<times> string \<times> nat \<times> string \<times> string \<times> int) list \<Rightarrow> dns_state \<Rightarrow> lookup list option" where
  "lookups net [] cn = Some []"
| "lookups net ((pid, stack, ip, hcap, hostName, nameServer, timeOutMil) # qs) cn = do {
     r \<leftarrow> getHostFirstIpByNameTimeOut net pid cn stack ip hcap hostName nameServer timeOutMil;
     rs \<leftarrow> lookups net qs (lk_state r);
     Some (r # rs)
   }"

lemma query_sockets:
  "runDnsQuery net cn buf n server t = Some (ret, buf', cn') \<Longrightarrow>
    sockets cn' = sockets cn + (if net_socket net (sockets cn) then 1 else 0)
    \<and> (\<not> net_socket net (sockets cn) \<longrightarrow> ret = -1)"
  by (auto simp: runDnsQuery_def Let_def split: if_splits option.splits)

lemma lookup_sockets:
  assumes "getHostFirstIpByNameTimeOut net pid cn stack ip hcap host server t = Some r"
  shows "sockets (lk_state r) = sockets cn + (if net_socket net (sockets cn) then 1 else 0)
    \<and> (\<not> net_socket net (sockets cn) \<longrightarrow> lk_ret r = -1)"
proof -
  obtain buf ret buf' cn' where q: "runDnsQuery net cn buf MAX_DNS_BUFFER_SIZE server t = Some (ret, buf', cn')"
    and r: "lk_state r = cn'" "ret \<noteq> 0 \<longrightarrow> lk_ret r = ret"
    using assms by (auto simp: getHostFirstIpByNameTimeOut_def Let_def split: if_splits)
  from query_sockets [OF q] r show ?thesis by auto
qed

text \<open>C36: With room for L open sockets, of any sequence of lookups at most those up to the L-th open
  socket can succeed: every later one fails, since no lookup closes the socket it opened.\<close>

theorem dns_sockets_run_out:
  assumes "lookups net qs cn = Some rs" and "\<And>n. net_socket net n = (n < L)"
  shows "length rs = length qs \<and> (\<forall>i < length qs. L \<le> sockets cn + i \<longrightarrow> lk_ret (rs ! i) = -1)"
  using assms(1)
proof (induction qs arbitrary: cn rs)
  case (Cons q qs)
  obtain pid stack ip hcap host server t where q: "q = (pid, stack, ip, hcap, host, server, t)" by (cases q) auto
  obtain r rs' where r: "getHostFirstIpByNameTimeOut net pid cn stack ip hcap host server t = Some r"
    and rs': "lookups net qs (lk_state r) = Some rs'" "rs = r # rs'"
    using Cons.prems unfolding q by auto
  note one = lookup_sockets [OF r, unfolded assms(2)]
  have "lk_ret (rs ! i) = -1" if "i < length (q # qs)" "L \<le> sockets cn + i" for i
  proof (cases i)
    case 0
    with one that rs'(2) show ?thesis by simp
  next
    case (Suc j)
    have "L \<le> sockets (lk_state r) + j" using one that Suc by (auto split: if_splits)
    with Cons.IH [OF rs'(1)] that Suc rs'(2) show ?thesis by simp
  qed
  with Cons.IH [OF rs'(1)] rs'(2) show ?case by simp
qed simp

text \<open>A process that may open five files and has three.\<close>

definition SAMPLE_QUERY :: "nat \<times> byte list \<times> string \<times> nat \<times> string \<times> string \<times> int" where
  "SAMPLE_QUERY = (7, replicate 300 0, [], 128, dotted [''ems'', ''svc''], ''10.0.0.1'', 10)"

theorem dns_sockets_run_out_witness:
  "\<exists>rs. lookups \<lparr>net_socket = (\<lambda>n. n < 5), net_send = (\<lambda>_ _. True), net_reply = (\<lambda>_ _. None), heap_behind = []\<rparr>
      [SAMPLE_QUERY, SAMPLE_QUERY, SAMPLE_QUERY]
      \<lparr>SEND_CNT = 0, RECV_CNT = 0, sockets = 3\<rparr> = Some rs
    \<and> length rs = 3 \<and> lk_ret (rs ! 2) = -1 \<and> map (SEND_CNT \<circ> lk_state) rs = [1, 2, 2]"
proof -
  let ?net = "\<lparr>net_socket = (\<lambda>n. n < 5), net_send = (\<lambda>_ _. True), net_reply = (\<lambda>_ _. None), heap_behind = []\<rparr> :: dns_system"
  have lim: "0 < to_int32 (10 * 1000) \<and> to_int32 (10 * 1000) < 1000000" by (simp add: to_int32_def)
  have sent: "getHostFirstIpByNameTimeOut ?net 7 \<lparr>SEND_CNT = m, RECV_CNT = 0, sockets = n\<rparr> (replicate 300 0) [] 128
      (dotted [''ems'', ''svc'']) ''10.0.0.1'' 10 =
      Some \<lparr>lk_ret = -1, lk_ip = [], lk_host = ''ems.svc.'', lk_state = \<lparr>SEND_CNT = m + 1, RECV_CNT = 0, sockets = n + 1\<rparr>,
        lk_lost = 0\<rparr>" if "n < 5" for m n
    using dns_silent_server_call [OF sample_names(1), of 128 "replicate 300 0" ?net "\<lparr>SEND_CNT = m, RECV_CNT = 0, sockets = n\<rparr>"
        "''10.0.0.1''" 7 "[]" 10] that lim sample_names(2) by simp
  have full: "getHostFirstIpByNameTimeOut ?net 7 \<lparr>SEND_CNT = m, RECV_CNT = 0, sockets = 5\<rparr> (replicate 300 0) [] 128
      (dotted [''ems'', ''svc'']) ''10.0.0.1'' 10 =
      Some \<lparr>lk_ret = -1, lk_ip = [], lk_host = ''ems.svc.'', lk_state = \<lparr>SEND_CNT = m, RECV_CNT = 0, sockets = 5\<rparr>,
        lk_lost = 0\<rparr>" for m
    using setup_query [OF sample_names(1), of 128 "replicate 300 0" 7] sample_names(2)
      sent_packet(1) [of "[''ems'', ''svc'']" 7] sample_names(1)
    by (simp add: getHostFirstIpByNameTimeOut_def runDnsQuery_def Let_def names_ok_def)
  let ?r = "\<lambda>m n. \<lparr>lk_ret = -1, lk_ip = [], lk_host = ''ems.svc.'', lk_state = \<lparr>SEND_CNT = m, RECV_CNT = 0, sockets = n\<rparr>,
      lk_lost = 0\<rparr>"
  have "lookups ?net [SAMPLE_QUERY, SAMPLE_QUERY, SAMPLE_QUERY] \<lparr>SEND_CNT = 0, RECV_CNT = 0, sockets = 3\<rparr> =
      Some [?r 1 4, ?r 2 5, ?r 2 5]"
    using sent [of 3 0] sent [of 4 1] full [of 2]
    by (simp only: lookups.simps SAMPLE_QUERY_def prod.case bind.simps lookup.select_convs) simp
  then obtain rs where rs: "lookups ?net [SAMPLE_QUERY, SAMPLE_QUERY, SAMPLE_QUERY] \<lparr>SEND_CNT = 0, RECV_CNT = 0, sockets = 3\<rparr> = Some rs"
    and c: "map (SEND_CNT \<circ> lk_state) rs = [1, 2, 2]" by (rule that) simp
  have l: "length rs = length [SAMPLE_QUERY, SAMPLE_QUERY, SAMPLE_QUERY]
    \<and> (\<forall>i < length [SAMPLE_QUERY, SAMPLE_QUERY, SAMPLE_QUERY].
          5 \<le> sockets \<lparr>SEND_CNT = 0, RECV_CNT = 0, sockets = 3\<rparr> + i \<longrightarrow> lk_ret (rs ! i) = -1)"
    by (rule dns_sockets_run_out [OF rs]) simp
  have "length rs = 3" "lk_ret (rs ! 2) = -1" using l by simp_all
  then show ?thesis by (intro exI [of _ rs] conjI rs c)
qed

definition cname_reply :: "byte list" where
  "cname_reply = [0, 7, 129, 128] @ htons 1 @ htons 1 @ htons 0 @ htons 0 @ wire [''a''] @ [0] @ htons 1 @ htons 1
     @ pointer 12 @ htons 5 @ htons 1 @ [0, 0, 0, 30] @ htons 3 @ wire [''b''] @ [0]"

lemma cname_reply_parsed:
  "\<exists>nm nm'. parseDnsResult cname_reply = Some (pad_records [\<lparr>rr_name = Some nm, rr_resource = Some 21,
     rr_rdata = Some nm', malloced = False\<rparr>], pad_records [], pad_records [])"
proof -
  have ok: "names_ok [''a'']" "names_ok [''b'']" by (simp_all add: names_ok_def label_ok_def unat_byte_of nul_def)
  obtain nm where n: "ReadName 19 cname_reply = Some (nm, 2)"
    using read_name_pointer [OF ok(1), of cname_reply "take 12 cname_reply" "drop 15 cname_reply" "take 19 cname_reply"
        "drop 21 cname_reply"] by (auto simp: cname_reply_def htons_def pointer_def)
  obtain nm' where n': "ReadName 31 cname_reply = Some (nm', 3)"
    using read_name_wire [OF ok(2), of cname_reply "take 31 cname_reply" "[]"] by (auto simp: cname_reply_def htons_def pointer_def)
  have "parse_answer cname_reply 19 = Some (\<lparr>rr_name = Some nm, rr_resource = Some 21, rr_rdata = Some nm', malloced = False\<rparr>, 34)"
  proof -
    have "rr_type cname_reply 21 = Some 5" by code_simp
    then show ?thesis using n n' by (simp add: parse_answer_def R_DATA_LEN_def Let_def del: bind_Some_iff)
  qed
  moreover have "buf_strlen cname_reply 12 = Some 2" "ntohs cname_reply 6 = Some 1" "ntohs cname_reply 8 = Some 0"
      "ntohs cname_reply 10 = Some 0" by code_simp+
  ultimately show ?thesis
    by (intro exI [of _ nm] exI [of _ nm']) (simp add: parseDnsResult_def DNS_HEADER_LEN_def QUESTION_LEN_def MAX_RES_RECORD_CNT_def del: bind_Some_iff)
qed

theorem dns_lost_blocks_witness:
  "\<exists>answers auth addit. parseDnsResult cname_reply = Some (answers, auth, addit)
     \<and> length (concat (map owned (answers @ auth @ addit))) = length (clearParseResult answers auth addit) + 2"
proof -
  obtain nm nm' where p: "parseDnsResult cname_reply = Some (pad_records [\<lparr>rr_name = Some nm, rr_resource = Some 21,
     rr_rdata = Some nm', malloced = False\<rparr>], pad_records [], pad_records [])"
    using cname_reply_parsed by blast
  have "filter (\<lambda>r. rr_name r \<noteq> None \<and> \<not> malloced r) (pad_records [\<lparr>rr_name = Some nm, rr_resource = Some 21,
     rr_rdata = Some nm', malloced = False\<rparr>]) = [\<lparr>rr_name = Some nm, rr_resource = Some 21,
     rr_rdata = Some nm', malloced = False\<rparr>]"
    by (simp add: pad_records_def zero_record_def)
  with dns_lost_blocks [OF p] p show ?thesis by auto
qed

end
