(* ===== verification/Dns_Test.thy ===== *)
theory Dns_Test
  imports Dns_Correct
begin

text \<open>
  The test program \<open>src/src/dns_util/dnsUtilTest.c\<close>: a lookup of the host and server given as
  arguments.  The lookup changes the host name in place, so what is printed afterwards has the dot
  that the encoding appended.
\<close>

record test_output =
  err_lines :: "string list"
  out_lines :: "string list"

definition test_usage :: string where "test_usage = ''usage: dnsQuery [hostname] [dns_svr_ip]''"

text \<open>
  \<open>argv\<close> with the program name first.  Both arguments are copied into blocks of 100 bytes; \<open>ip\<close>
  is uninitialised and is printed only when the lookup has written it.
\<close>

definition dns_test_main :: "dns_system \<Rightarrow> nat \<Rightarrow> byte list \<Rightarrow> string list \<Rightarrow> test_output option" where
  "dns_test_main net pid stack argv =
     (case argv of
        [prog, host, server] \<Rightarrow>
          if length host \<ge> 100 \<or> length server \<ge> 100 then None
          else do {
            r \<leftarrow> getHostFirstIpByName net pid \<lparr>SEND_CNT = 0, RECV_CNT = 0, sockets = 0\<rparr> stack [] 100 host server;
            Some \<lparr>err_lines = [''hostname=['' @ host @ '']'', ''dns server=['' @ server @ '']''],
              out_lines = [if lk_ret r = 0
                then ''ip='' @ lk_ip r @ '' hostname='' @ lk_host r @ '' dns_servers='' @ server
                else ''fail hostname='' @ lk_host r @ '' dns_servers='' @ server]\<rparr>
          }
      | _ \<Rightarrow> Some \<lparr>err_lines = [test_usage], out_lines = []\<rparr>)"

text \<open>A server that does not answer within ten milliseconds.\<close>

lemma dns_test_silent:
  assumes "names_ok ls" and "length (dotted_end ls) < 100" and "300 \<le> length stack" and "length server < 100"
    and "net_socket net 0" "net_send net server (query_packet pid ls)" "net_reply net server (query_packet pid ls) = None"
  shows "\<exists>out. dns_test_main net pid stack [prog, dotted ls, server] = Some out
     \<and> out_lines out = [''fail hostname='' @ dotted_end ls @ '' dns_servers='' @ server]"
proof -
  have ls: "\<forall>l \<in> set ls. label_ok l" using assms(1) by (simp add: names_ok_def)
  have "length (dotted ls) < 100" using assms(2) by (simp add: dotted_def)
  then show ?thesis
    using setup_query [OF assms(1-3), of pid] assms(4-7)
      sent_packet [OF ls, of pid "drop (length (query_packet pid ls)) stack"]
    by (simp add: dns_test_main_def getHostFirstIpByName_def getHostFirstIpByNameTimeOut_def runDnsQuery_def
      recv_limit_def to_int32_def Let_def)
qed

end
