(* ===== verification/Fort_Correct.thy ===== *)
theory Fort_Correct
  imports Fort_Build
begin

text \<open>
  What the table library guarantees to its callers, and the inputs it does not guard against: the
  growing vectors, the fields of a format, the row a formatted text becomes, the lookup of a
  property, erasing, and the text of a whole table.
\<close>

section \<open>Vectors\<close>

text \<open>C20: Inserting an item into a vector shifts the items behind it, and erasing it again restores the
  vector, whatever reallocations happen.\<close>

theorem fort_vector_insert_erase:
  assumes "vec_rep v s" and "pos \<le> length s"
  shows "\<exists>v1 v2. vector_insert True v x pos = Some (FT_SUCCESS, v1)
     \<and> vec_rep v1 (take pos s @ Some x # drop pos s)
     \<and> (\<forall>i. vector_at v1 i = (if i < pos then vector_at v i else if i = pos then Some x else vector_at v (i - 1)))
     \<and> vector_erase v1 pos = Some (FT_SUCCESS, v2) \<and> vec_rep v2 s"
proof -
  let ?s = "take pos s @ Some x # drop pos s"
  obtain v1 where v1: "vector_insert True v x pos = Some (FT_SUCCESS, v1)" "vec_rep v1 ?s"
    using vector_insert_rep [OF assms, of x] assms(2) by (auto simp: seq_insert_inside)
  obtain v2 where v2: "vector_erase v1 pos = Some (fst (seq_erase ?s pos), v2)" "vec_rep v2 (snd (seq_erase ?s pos))"
    using vector_erase_rep [OF v1(2)] by blast
  have "seq_erase ?s pos = (FT_SUCCESS, s)" using assms(2) by (simp add: seq_erase_def)
  moreover have "vector_at v1 i = (if i < pos then vector_at v i else if i = pos then Some x else vector_at v (i - 1))" for i
    using assms(2) by (auto simp: vector_at_rep [OF v1(2)] vector_at_rep [OF assms(1)] slot_at_def nth_append nth_Cons')
  ultimately show ?thesis using v1 v2 by auto
qed

lemma created_vector: obtains v :: "nat f_vector" where "vec_rep v []"
  using create_vector_rep [of 1 8] by auto

theorem fort_vector_insert_erase_witness:
  "\<exists>v v1 :: nat f_vector. vec_rep v [] \<and> vector_insert True v 7 0 = Some (FT_SUCCESS, v1) \<and> vec_rep v1 [Some 7]"
proof (rule created_vector)
  fix v :: "nat f_vector"
  assume "vec_rep v []"
  with fort_vector_insert_erase [OF this, of 0 7] show ?thesis by auto
qed

text \<open>Splitting a vector inside gives its two parts.  Splitting it at its end gives a vector without
  a block, and pushing an item onto that one is a fault.\<close>

theorem fort_vector_split:
  assumes "vec_rep v s" and "pos \<le> length s"
  shows "\<exists>t v'. vector_split True v pos = Some (Some t, v') \<and> vec_rep v' (take pos s)
     \<and> (if pos < length s then vec_rep t (drop pos s)
        else m_capacity t = 0 \<and> vector_push True t x = None)"
proof (cases "pos < length s")
  case True
  then show ?thesis using vector_split_rep [OF assms(1) True] by (fastforce simp: seq_split_def)
next
  case False
  then have "pos = length s" using assms(2) by simp
  moreover from this have "m_size v = pos" using assms(1) by (auto elim: vec_repE)
  ultimately show ?thesis
    using assms(1) by (simp add: vector_split_def create_vector_def vector_push_def vector_reallocate_def copy_in_def)
qed

theorem fort_vector_split_witness:
  "\<exists>(v :: nat f_vector) t v'. vec_rep v [] \<and> vector_split True v 0 = Some (Some t, v') \<and> vector_push True t 7 = None"
proof (rule created_vector)
  fix v :: "nat f_vector"
  assume "vec_rep v []"
  with fort_vector_split [OF this, of 0 7] show ?thesis by auto
qed

section \<open>Fields\<close>

lemma join_split: "concat (map (\<lambda>f. f @ [c]) (split_on c s)) = s @ [c]"
  by (induction c s rule: split_on.induct) (auto split: list.splits)

text \<open>The number of columns of a format and its n-th field are those of its decomposition at the
  column separator, and the decomposition loses nothing.\<close>

lemma fort_fields:
  "columns_number_in_fmt_string s = length (split_on g_col_separator s)
   \<and> str_n_substring s g_col_separator n =
      (if n < columns_number_in_fmt_string s then Some (split_on g_col_separator s ! n) else None)
   \<and> concat (map (\<lambda>f. f @ [g_col_separator]) (split_on g_col_separator s)) = s @ [g_col_separator]
   \<and> (\<forall>f \<in> set (split_on g_col_separator s). g_col_separator \<notin> set f)"
proof -
  have "c \<notin> set f" if "f \<in> set (split_on c s)" for c f
    using that by (induction c s arbitrary: f rule: split_on.induct) (auto split: list.splits if_splits)
  then show ?thesis by (auto simp: columns_number_split substring_split join_split)
qed

section \<open>Rows\<close>

text \<open>C22: A row printed with a format, to a table that is filled row by row from the top: when its text has
  as many columns as the format, a row of these columns is appended; when the format has one column, a
  row of one cell with the whole text; otherwise, for instance when a value contains the column
  separator, the call returns an error and the table stays as it was.\<close>

theorem fort_printf_row:
  assumes "building t txts" and "vsprintf fmt args = Some s" and "int (length s) < INT_MAX"
  shows "ft_printf_ln t fmt args =
    (if length (cells_of s) = length (cells_of fmt) then Some (int (length (cells_of s)), appended t (cells_of s))
     else if length (cells_of fmt) = 1 then Some (1, appended t [s])
     else Some (-1, t))"
  using printf_ln_building [OF assms] by (simp add: fmt_cells_def)

theorem fort_printf_row_witness:
  "ft_printf_ln PLAIN_TABLE ''%s|%s'' [Fs ''a|b'', Fs ''c''] = Some (-1, PLAIN_TABLE)
   \<and> ft_printf_ln PLAIN_TABLE ''%s|%s'' [Fs ''a'', Fs ''c''] = Some (2, appended PLAIN_TABLE [''a'', ''c''])
   \<and> ft_printf_ln PLAIN_TABLE ''%s'' [Fs ''a|b''] = Some (1, appended PLAIN_TABLE [''a|b''])"
proof -
  have v: "vsprintf ''%s|%s'' [Fs ''a|b'', Fs ''c''] = Some ''a|b|c''" "vsprintf ''%s|%s'' [Fs ''a'', Fs ''c''] = Some ''a|c''"
    "vsprintf ''%s'' [Fs ''a|b''] = Some ''a|b''" by simp_all
  have c: "cells_of ''a|b|c'' = [''a'', ''b'', ''c'']" "cells_of ''a|c'' = [''a'', ''c'']" "cells_of ''a|b'' = [''a'', ''b'']"
    "cells_of ''%s|%s'' = [''%s'', ''%s'']" "cells_of ''%s'' = [''%s'']"
    by (simp_all add: cells_of_def g_col_separator_def)
  show ?thesis
    using fort_printf_row [OF plain_building v(1)] fort_printf_row [OF plain_building v(2)]
      fort_printf_row [OF plain_building v(3)] c
    by (simp add: INT_MAX_def)
qed

section \<open>Properties\<close>

text \<open>C33: The value of a property of a cell is that of the first entry that sets it, looking at the cell,
  its column, its row and the whole table in this order, and the default when none does.\<close>

theorem fort_property_lookup:
  "get_cell_property_hierarchically p row col property =
     get_prop_value_if_exists_otherwise_default
       (case List.map_filter (matching (cell_properties p) property) (lookup_order row col) of
          [] \<Rightarrow> None | opt # _ \<Rightarrow> Some opt) property"
  by (rule lookup_first)

text \<open>A negative padding is refused with an error, but the entry of the cell now says that the
  padding is set: a cell that had the default padding of 1 loses it.\<close>

theorem fort_negative_padding:
  assumes "v < 0" and "r \<noteq> FT_ANY_ROW"
  shows "fst (set_cell_property [] r c FT_CPROP_LEFT_PADDING v) = FT_EINVAL
     \<and> get_cell_property_hierarchically (p\<lparr>cell_properties := []\<rparr>) r c FT_CPROP_LEFT_PADDING = Some 1
     \<and> get_cell_property_hierarchically
         (p\<lparr>cell_properties := snd (set_cell_property [] r c FT_CPROP_LEFT_PADDING v)\<rparr>) r c FT_CPROP_LEFT_PADDING = Some 0"
proof -
  let ?o = "zero_cell_props\<lparr>cell_row := r, cell_col := c, properties_flags := FT_CPROP_LEFT_PADDING\<rparr>"
  have set: "set_cell_property [] r c FT_CPROP_LEFT_PADDING v = (FT_EINVAL, [?o])"
    using assms by (simp add: set_cell_property_def get_cell_prop_and_create_if_not_exists_def set_cell_property_impl_def
      cprop_defs PROP_IS_SET_def PROP_SET_def zero_cell_props_def Let_def)
  have "matching [] FT_CPROP_LEFT_PADDING rc = None" for rc by (cases rc) (simp add: matching_def)
  then have none: "get_cell_property_hierarchically (p\<lparr>cell_properties := []\<rparr>) r c FT_CPROP_LEFT_PADDING = Some 1"
    by (simp add: lookup_first lookup_order_def map_filter_simps get_prop_value_if_exists_otherwise_default_def
      cell_prop_field_def cprop_defs g_default_cell_properties_def)
  have "matching [?o] FT_CPROP_LEFT_PADDING (r, c) = Some ?o"
    by (simp add: matching_def PROP_IS_SET_def cprop_defs)
  then have "get_cell_property_hierarchically (p\<lparr>cell_properties := [?o]\<rparr>) r c FT_CPROP_LEFT_PADDING = Some 0"
    by (simp add: lookup_first lookup_order_def map_filter_simps get_prop_value_if_exists_otherwise_default_def
      PROP_IS_SET_def cell_prop_field_def cprop_defs zero_cell_props_def)
  with set none show ?thesis by simp
qed

theorem fort_negative_padding_witness:
  "fst (set_cell_property [] 0 0 FT_CPROP_LEFT_PADDING (-1)) = FT_EINVAL
     \<and> get_cell_property_hierarchically
         (create_table_properties\<lparr>cell_properties := snd (set_cell_property [] 0 0 FT_CPROP_LEFT_PADDING (-1))\<rparr>)
         0 0 FT_CPROP_LEFT_PADDING = Some 0"
  using fort_negative_padding [of "-1" 0 0 create_table_properties] by (simp add: FT_ANY_ROW_def)

text \<open>Printing a piece of text into the conversion block is a fault exactly when the text is as long
  as the space left or one longer: the check lets two bytes too many through.\<close>

theorem fort_nprint_bounds:
  "(ft_nprint s c = None \<longleftrightarrow> raw_avail c \<le> length s \<and> length s \<le> raw_avail c + 1)
   \<and> (\<forall>c'. ft_nprint s c = Some (int (length s), c') \<longrightarrow> c' = advance 1 s c \<and> length s < raw_avail c)
   \<and> (length s < raw_avail c \<longrightarrow> ft_nprint s c = Some (int (length s), advance 1 s c))"
  by (auto simp: ft_nprint_def advance_def)

theorem fort_nprint_bounds_witness:
  "ft_nprint ''ab'' \<lparr>conv_out = [], raw_avail = 2\<rparr> = None
   \<and> ft_nprint ''ab'' \<lparr>conv_out = [], raw_avail = 3\<rparr> = Some (2, \<lparr>conv_out = ''ab'', raw_avail = 1\<rparr>)"
  using fort_nprint_bounds [of "''ab''" "\<lparr>conv_out = [], raw_avail = 2\<rparr>", THEN conjunct1]
    fort_nprint_bounds [of "''ab''" "\<lparr>conv_out = [], raw_avail = 3\<rparr>", THEN conjunct2, THEN conjunct2]
  by (simp only: f_conv_context_of.simps list.size) (simp add: advance_def)

text \<open>A custom style whose header has no inner line: its ends of the inner line are removed from the
  common rows, and the header keeps them.\<close>

theorem fort_header_style:
  assumes "no_inner_line (header_border_chs d)" and "\<not> no_inner_line (border_chs d)"
    and "set_border_props_for_props p (Custom d) = Some q" and "style_ok (bstyle p)"
  shows "border_chars (bstyle q) ! LH_bip = [] \<and> border_chars (bstyle q) ! RH_bip = []
     \<and> header_border_chars (bstyle q) ! LH_bip = out_intersect_ch (header_border_chs d)
     \<and> header_border_chars (bstyle q) ! RH_bip = out_intersect_ch (header_border_chs d)"
  using assms
  by (auto simp: set_border_props_for_props_def bor_chars_def style_ok_def Let_def BORDER_ITEM_POS_SIZE_def)

theorem fort_header_style_witness:
  "\<exists>q. set_border_props_for_props create_table_properties (Custom \<lparr>border_chs = \<lparr>top_border_ch = ''-'', separator_ch = ''-'',
        bottom_border_ch = ''-'', side_border_ch = ''|'', out_intersect_ch = ''+'', in_intersect_ch = ''+''\<rparr>,
        header_border_chs = \<lparr>top_border_ch = ''='', separator_ch = [], bottom_border_ch = ''='', side_border_ch = ''|'',
        out_intersect_ch = ''#'', in_intersect_ch = []\<rparr>, hor_separator_char = ''=''\<rparr>) = Some q
     \<and> border_chars (bstyle q) ! LH_bip = [] \<and> header_border_chars (bstyle q) ! LH_bip = ''#''"
proof -
  let ?d = "\<lparr>border_chs = \<lparr>top_border_ch = ''-'', separator_ch = ''-'',
        bottom_border_ch = ''-'', side_border_ch = ''|'', out_intersect_ch = ''+'', in_intersect_ch = ''+''\<rparr>,
        header_border_chs = \<lparr>top_border_ch = ''='', separator_ch = [], bottom_border_ch = ''='', side_border_ch = ''|'',
        out_intersect_ch = ''#'', in_intersect_ch = []\<rparr>, hor_separator_char = ''=''\<rparr>"
  obtain q where q: "set_border_props_for_props create_table_properties (Custom ?d) = Some q"
    by (simp add: set_border_props_for_props_def Let_def)
  from fort_header_style [OF _ _ q] q show ?thesis by (simp add: no_inner_line_def)
qed

section \<open>Erasing\<close>

text \<open>Erasing a range of an empty table, or one that starts behind the row after the last, is a
  fault: the number of rows to look at is computed with wrap-around.\<close>

theorem fort_erase_outside:
  assumes "r1 \<le> r2" and "left \<le> right" and "r2 < FT_CUR_ROW" and "right < FT_CUR_COLUMN"
    and "length (rows t) = 0 \<or> length (rows t) < r1" and "length (rows t) < 2 ^ 64"
  shows "ft_erase_range t r1 left r2 right = None"
proof -
  let ?n = "length (rows t)"
  let ?k = "(min ((?n + 2 ^ 64 - 1) mod 2 ^ 64) r2 + 2 ^ 64 - r1 + 1) mod 2 ^ 64"
  have small: "r2 < 2 ^ 32" using assms(3) by (simp add: FT_CUR_ROW_def)
  have empty: "[r1..<min ?n (r2 + 1)] = []" using assms(5) by auto
  have none: "slot_at (rows t) r1 = None" using assms(5) by (auto simp: slot_at_def)
  have "0 < ?k"
  proof (cases "?n = 0")
    case True
    have n: "min ((?n + 2 ^ 64 - 1) mod 2 ^ 64) r2 = r2" using True small by simp
    have "?k = (r2 - r1 + 1 + 2 ^ 64) mod 2 ^ 64" unfolding n using assms(1) by (intro arg_cong2 [where f = "(mod)"]) simp_all
    then have "?k = (r2 - r1 + 1) mod 2 ^ 64" by (simp only: mod_add_self2)
    then show ?thesis using small by simp
  next
    case False
    then have "?n + 2 ^ 64 - 1 = (?n - 1) + 2 ^ 64" by linarith
    then have "(?n + 2 ^ 64 - 1) mod 2 ^ 64 = ?n - 1" using assms(6) by (simp only: mod_add_self2) simp
    moreover have "min (?n - 1) r2 = ?n - 1" using False assms(1,5) by simp
    ultimately have "?k = (?n - 1 + 2 ^ 64 - r1 + 1) mod 2 ^ 64" by simp
    also have "?n - 1 + 2 ^ 64 - r1 + 1 = 2 ^ 64 - (r1 - ?n)"
    proof -
      obtain m where "?n = Suc m" using False by (cases ?n) simp_all
      moreover have "?n < r1" "r1 < 2 ^ 64" using False assms(1,5) small by simp_all
      ultimately show ?thesis by simp
    qed
    also have "(2 ^ 64 - (r1 - ?n)) mod 2 ^ 64 = 2 ^ 64 - (r1 - ?n)" using False assms(5) by simp
    finally show ?thesis using small assms(1) by simp
  qed
  then obtain k where "?k = Suc k" by (metis gr0_implies_Suc)
  then have "erase_empty_rows ?k r1 (rows t) (separators t) = None" using none by simp
  moreover have "erase_columns (rows t) left right [r1..<min ?n (r2 + 1)] = Some (rows t)" unfolding empty by simp
  ultimately show ?thesis
    using assms(1-4) unfolding ft_erase_range_def Let_def by simp
qed

theorem fort_erase_outside_witness: "ft_erase_range ft_create_table 0 0 0 0 = None"
  by (rule fort_erase_outside) (simp_all add: ft_create_table_def FT_CUR_ROW_def FT_CUR_COLUMN_def)

section \<open>The text of a table\<close>

text \<open>C6: The text of a table of plain rows is its layout: margins, separator lines and, for every line
  of a row, the cells padded to the width of their column.  The block allocated for it is always
  large enough, and the call does not fault.\<close>

theorem fort_table_text:
  assumes "shows_texts t txts" and "geoms_ok (properties t) txts" and "0 < length txts"
    and "lay_text (properties t) (separators t) txts \<noteq> []"
    and "block_ok t (lay_max_height (properties t) txts * lay_max_width (properties t) txts + 1)"
  shows "\<exists>b. ft_to_string t = Some (Some (lay_text (properties t) (separators t) txts),
       t\<lparr>conv_buffer := Some b\<rparr>)
     \<and> sb_str b = Some (lay_text (properties t) (separators t) txts)
     \<and> lay_max_height (properties t) txts * lay_max_width (properties t) txts < data_sz b"
  using to_string_plain [OF assms] by blast

theorem fort_table_text_witness:
  "\<exists>b. ft_to_string (appended PLAIN_TABLE [''name'', ''1'']) =
     Some (Some (lay_text (properties PLAIN_TABLE) (separators PLAIN_TABLE) [[''name'', ''1'']]),
       (appended PLAIN_TABLE [''name'', ''1''])\<lparr>conv_buffer := Some b\<rparr>)"
proof -
  let ?t = "appended PLAIN_TABLE [''name'', ''1'']" and ?x = "[[''name'', ''1'']]"
  have b: "building ?t ?x" using appended_building [OF plain_building] by simp
  have o: "one_line (properties PLAIN_TABLE) (\<lambda>_. 1) ?x" by (rule plain_one_line) (simp add: newline_def)
  have n: "0 < n_cols ?x" by (simp add: n_cols_def)
  have "lay_max_width (properties PLAIN_TABLE) ?x \<le> 16" "lay_max_height (properties PLAIN_TABLE) ?x \<le> 4"
    using one_line_max [OF o, of 2 4] n plain_border(1) plain_margins(1) by auto
  then have "lay_max_height (properties PLAIN_TABLE) ?x * lay_max_width (properties PLAIN_TABLE) ?x \<le> 4 * 16"
    by (intro mult_le_mono)
  then have "lay_max_height (properties PLAIN_TABLE) ?x * lay_max_width (properties PLAIN_TABLE) ?x + 1 \<le> 65" by linarith
  then have "int (lay_max_height (properties PLAIN_TABLE) ?x * lay_max_width (properties PLAIN_TABLE) ?x + 1) \<le> int 65"
    by (simp only: of_nat_le_iff)
  also have "int 65 \<le> INT_MAX" by (simp add: INT_MAX_def)
  finally have "block_ok ?t (lay_max_height (properties PLAIN_TABLE) ?x * lay_max_width (properties PLAIN_TABLE) ?x + 1)"
    using b unfolding block_ok_def building_def by simp
  moreover have "lay_text (properties PLAIN_TABLE) (separators PLAIN_TABLE) ?x \<noteq> []"
    using one_line_height [OF o _ n, of 0] by (intro lay_text_nonempty [of 0]) auto
  ultimately show ?thesis
    using fort_table_text [of ?t ?x] b one_line_geoms [OF o] by (auto simp: building_def)
qed

end
