(* ===== verification/Utf8.thy ===== *)
theory Utf8
  imports CString
begin

text \<open>
  The UTF-8 strings bundled in libfort (\<open>utf8.h\<close> inside \<open>src/src/libfort/fort.c\<close>):
  length, copying, comparison, search, validation, reading and writing of code points, case.

  A pointer into a string is the rest of the memory block from there, a list of bytes, so that
  \<open>s[i]\<close> is element \<open>i\<close>, \<open>s += n\<close> drops \<open>n\<close> elements, and an access behind the
  block is a fault.  A function that may return NULL gives an option inside the outcome.  A code
  point is an integer in the range of \<open>int32_t\<close>; \<open>char\<close> is signed.
\<close>

unbundle bit_operations_syntax

section \<open>Bytes\<close>

text \<open>The tests \<open>0x80 == (0xc0 & b)\<close> and those for the first byte of a longer sequence.\<close>

definition is_cont :: "byte \<Rightarrow> bool" where "is_cont b \<longleftrightarrow> 0xC0 AND b = 0x80"
definition lead2 :: "byte \<Rightarrow> bool" where "lead2 b \<longleftrightarrow> 0xE0 AND b = 0xC0"
definition lead3 :: "byte \<Rightarrow> bool" where "lead3 b \<longleftrightarrow> 0xF0 AND b = 0xE0"
definition lead4 :: "byte \<Rightarrow> bool" where "lead4 b \<longleftrightarrow> 0xF8 AND b = 0xF0"

text \<open>\<open>while ('\0' != *s) s++\<close> and \<open>while (0x80 == (0xc0 & *s)) s++\<close>.\<close>

fun to_end :: "byte list \<Rightarrow> byte list option" where
  "to_end [] = None"
| "to_end (b # s) = (if b = 0 then Some (b # s) else to_end s)"

fun skip_cont :: "byte list \<Rightarrow> byte list option" where
  "skip_cont [] = None"
| "skip_cont (b # s) = (if is_cont b then skip_cont s else Some (b # s))"

lemma skip_cont_le: "skip_cont s = Some t \<Longrightarrow> length t \<le> length s"
  by (induction s rule: skip_cont.induct) (auto split: if_splits)

lemma idx_0_iff: "idx s 0 = Some b \<longleftrightarrow> (\<exists>t. s = b # t)"
  by (cases s) (auto simp: idx_def)

section \<open>Code points\<close>

definition utf8codepoint :: "byte list \<Rightarrow> (byte list \<times> int) option" where
  "utf8codepoint s = do {
     s0 \<leftarrow> idx s 0;
     if lead4 s0 then do {
       s1 \<leftarrow> idx s 1; s2 \<leftarrow> idx s 2; s3 \<leftarrow> idx s 3;
       Some (drop 4 s, push_bit 18 (uint (0x07 AND s0)) OR push_bit 12 (uint (0x3F AND s1)) OR
         push_bit 6 (uint (0x3F AND s2)) OR uint (0x3F AND s3))
     }
     else if lead3 s0 then do {
       s1 \<leftarrow> idx s 1; s2 \<leftarrow> idx s 2;
       Some (drop 3 s, push_bit 12 (uint (0x0F AND s0)) OR push_bit 6 (uint (0x3F AND s1)) OR
         uint (0x3F AND s2))
     }
     else if lead2 s0 then do {
       s1 \<leftarrow> idx s 1;
       Some (drop 2 s, push_bit 6 (uint (0x1F AND s0)) OR uint (0x3F AND s1))
     }
     else Some (drop 1 s, sint s0)
   }"

lemma utf8codepoint_shorter: "utf8codepoint s = Some (t, c) \<Longrightarrow> length t < length s"
  by (auto simp: utf8codepoint_def idx_0_iff split: if_splits)

definition utf8codepointsize :: "int \<Rightarrow> nat" where
  "utf8codepointsize chr =
     (if chr AND -0x80 = 0 then 1
      else if chr AND -0x800 = 0 then 2
      else if chr AND -0x10000 = 0 then 3
      else 4)"

text \<open>The bytes that \<open>utf8chr\<close>, \<open>utf8rchr\<close> and \<open>utf8catcodepoint\<close> make of a code point.\<close>

definition utf8bytes :: "int \<Rightarrow> byte list" where
  "utf8bytes chr =
     (if chr AND -0x80 = 0 then [word_of_int chr]
      else if chr AND -0x800 = 0 then
        [0xC0 OR word_of_int (drop_bit 6 chr), 0x80 OR word_of_int (chr AND 0x3F)]
      else if chr AND -0x10000 = 0 then
        [0xE0 OR word_of_int (drop_bit 12 chr), 0x80 OR word_of_int (drop_bit 6 chr AND 0x3F),
         0x80 OR word_of_int (chr AND 0x3F)]
      else
        [0xF0 OR word_of_int (drop_bit 18 chr), 0x80 OR word_of_int (drop_bit 12 chr AND 0x3F),
         0x80 OR word_of_int (drop_bit 6 chr AND 0x3F), 0x80 OR word_of_int (chr AND 0x3F)])"

text \<open>The result is the pointer behind what was written, and the block after the write.\<close>

definition utf8catcodepoint :: "byte list \<Rightarrow> int \<Rightarrow> nat \<Rightarrow> (byte list option \<times> byte list) option" where
  "utf8catcodepoint s chr n =
     (let bs = utf8bytes chr in
      if n < length bs then Some (None, s)
      else if length bs \<le> length s then Some (Some (drop (length bs) s), bs @ drop (length bs) s)
      else None)"

section \<open>Length and width\<close>

definition utf8size :: "byte list \<Rightarrow> nat option" where
  "utf8size s = do { e \<leftarrow> to_end s; Some (length s - length e + 1) }"

function utf8len :: "byte list \<Rightarrow> nat option" where
  "utf8len s = do {
     b \<leftarrow> idx s 0;
     if b = 0 then Some 0
     else do {
       n \<leftarrow> utf8len (if lead4 b then drop 4 s else if lead3 b then drop 3 s
                      else if lead2 b then drop 2 s else drop 1 s);
       Some (n + 1)
     }
   }"
  by pat_completeness auto

termination
  by (relation "measure length") (auto simp: idx_0_iff)

declare utf8len.simps [simp del]

definition fullwidth_ranges :: "(int \<times> int) list" where
  "fullwidth_ranges = [(0x3000, 0x3000), (0xFF01, 0xFF60), (0xFFE0, 0xFFE6)]"

definition wide_ranges :: "(int \<times> int) list" where
  "wide_ranges =
     [(0x1100, 0x115F), (0x11A3, 0x11A7), (0x11FA, 0x11FF), (0x2329, 0x232A), (0x2E80, 0x2E99),
      (0x2E9B, 0x2EF3), (0x2F00, 0x2FD5), (0x2FF0, 0x2FFB), (0x3001, 0x303E), (0x3041, 0x3096),
      (0x3099, 0x30FF), (0x3105, 0x312D), (0x3131, 0x318E), (0x3190, 0x31BA), (0x31C0, 0x31E3),
      (0x31F0, 0x321E), (0x3220, 0x3247), (0x3250, 0x32FE), (0x3300, 0x4DBF), (0x4E00, 0xA48C),
      (0xA490, 0xA4C6), (0xA960, 0xA97C), (0xAC00, 0xD7A3), (0xD7B0, 0xD7C6), (0xD7CB, 0xD7FB),
      (0xF900, 0xFAFF), (0xFE10, 0xFE19), (0xFE30, 0xFE52), (0xFE54, 0xFE66), (0xFE68, 0xFE6B),
      (0x1B000, 0x1B001), (0x1F200, 0x1F202), (0x1F210, 0x1F23A), (0x1F240, 0x1F248),
      (0x1F250, 0x1F251), (0x20000, 0x2F73F), (0x2B740, 0x2FFFD), (0x30000, 0x3FFFD)]"

definition in_ranges :: "(int \<times> int) list \<Rightarrow> int \<Rightarrow> bool" where
  "in_ranges rs c \<longleftrightarrow> list_ex (\<lambda>(first, last). first \<le> c \<and> c \<le> last) rs"

definition utf8cwidth :: "int \<Rightarrow> int" where
  "utf8cwidth c =
     (if c = 0 then 0
      else if c < 0x1100 then 1
      else if in_ranges fullwidth_ranges c then 2
      else if in_ranges wide_ranges c then 2
      else 1)"

function utf8width_loop :: "byte list \<Rightarrow> int \<Rightarrow> nat \<Rightarrow> nat option" where
  "utf8width_loop s c len =
     (if c = 0 then Some len
      else do {
        (t, c') \<leftarrow> utf8codepoint s;
        utf8width_loop t c' (len + nat (utf8cwidth c))
      })"
  by pat_completeness auto

termination
  by (relation "measure (\<lambda>(s, _, _). length s)") (auto dest: utf8codepoint_shorter)

declare utf8width_loop.simps [simp del]

definition utf8width :: "byte list \<Rightarrow> nat option" where
  "utf8width s = do { (t, c) \<leftarrow> utf8codepoint s; utf8width_loop t c 0 }"

section \<open>Case\<close>

definition add32_lower :: "(int \<times> int) list" where
  "add32_lower = [(0x0041, 0x005A), (0x00C0, 0x00D6), (0x00D8, 0x00DE), (0x0391, 0x03A1), (0x03A3, 0x03AB)]"

definition sub32_upper :: "(int \<times> int) list" where
  "sub32_upper = [(0x0061, 0x007A), (0x00E0, 0x00F6), (0x00F8, 0x00FE), (0x03B1, 0x03C1), (0x03C3, 0x03CB)]"

text \<open>Blocks in which upper and lower case alternate, the upper case on even or on odd numbers.\<close>

definition even_pairs :: "(int \<times> int) list" where
  "even_pairs =
     [(0x0100, 0x012F), (0x0132, 0x0137), (0x014A, 0x0177), (0x0182, 0x0185), (0x01A0, 0x01A5),
      (0x01DE, 0x01EF), (0x01F8, 0x021F), (0x0222, 0x0233), (0x0246, 0x024F), (0x03D8, 0x03EF)]"

definition odd_pairs :: "(int \<times> int) list" where
  "odd_pairs = [(0x0139, 0x0148), (0x0179, 0x017E), (0x01AF, 0x01B0), (0x01B3, 0x01B6), (0x01CD, 0x01DC)]"

definition lower_switch :: "(int \<times> int) list" where
  "lower_switch =
     [(0x0178, 0x00FF), (0x0243, 0x0180), (0x018E, 0x01DD), (0x023D, 0x019A), (0x0220, 0x019E),
      (0x01B7, 0x0292), (0x01C4, 0x01C6), (0x01C7, 0x01C9), (0x01CA, 0x01CC), (0x01F1, 0x01F3),
      (0x01F7, 0x01BF), (0x0187, 0x0188), (0x018B, 0x018C), (0x0191, 0x0192), (0x0198, 0x0199),
      (0x01A7, 0x01A8), (0x01AC, 0x01AD), (0x01AF, 0x01B0), (0x01B8, 0x01B9), (0x01BC, 0x01BD),
      (0x01F4, 0x01F5), (0x023B, 0x023C), (0x0241, 0x0242), (0x03FD, 0x037B), (0x03FE, 0x037C),
      (0x03FF, 0x037D), (0x037F, 0x03F3), (0x0386, 0x03AC), (0x0388, 0x03AD), (0x0389, 0x03AE),
      (0x038A, 0x03AF), (0x038C, 0x03CC), (0x038E, 0x03CD), (0x038F, 0x03CE), (0x0370, 0x0371),
      (0x0372, 0x0373), (0x0376, 0x0377), (0x03F4, 0x03D1), (0x03CF, 0x03D7), (0x03F9, 0x03F2),
      (0x03F7, 0x03F8), (0x03FA, 0x03FB)]"

definition upper_switch :: "(int \<times> int) list" where
  "upper_switch =
     [(0x00FF, 0x0178), (0x0180, 0x0243), (0x01DD, 0x018E), (0x019A, 0x023D), (0x019E, 0x0220),
      (0x0292, 0x01B7), (0x01C6, 0x01C4), (0x01C9, 0x01C7), (0x01CC, 0x01CA), (0x01F3, 0x01F1),
      (0x01BF, 0x01F7), (0x0188, 0x0187), (0x018C, 0x018B), (0x0192, 0x0191), (0x0199, 0x0198),
      (0x01A8, 0x01A7), (0x01AD, 0x01AC), (0x01B0, 0x01AF), (0x01B9, 0x01B8), (0x01BD, 0x01BC),
      (0x01F5, 0x01F4), (0x023C, 0x023B), (0x0242, 0x0241), (0x037B, 0x03FD), (0x037C, 0x03FE),
      (0x037D, 0x03FF), (0x03F3, 0x037F), (0x03AC, 0x0386), (0x03AD, 0x0388), (0x03AE, 0x0389),
      (0x03AF, 0x038A), (0x03CC, 0x038C), (0x03CD, 0x038E), (0x03CE, 0x038F), (0x0371, 0x0370),
      (0x0373, 0x0372), (0x0377, 0x0376), (0x03D1, 0x03F4), (0x03D7, 0x03CF), (0x03F2, 0x03F9),
      (0x03F8, 0x03F7), (0x03FB, 0x03FA)]"

definition switch_on :: "(int \<times> int) list \<Rightarrow> int \<Rightarrow> int" where
  "switch_on cs cp = (case map_of cs cp of Some c \<Rightarrow> c | None \<Rightarrow> cp)"

definition utf8lwrcodepoint :: "int \<Rightarrow> int" where
  "utf8lwrcodepoint cp =
     (if in_ranges add32_lower cp then cp + 32
      else if in_ranges even_pairs cp then cp OR 1
      else if in_ranges odd_pairs cp then (cp + 1) AND NOT 1
      else switch_on lower_switch cp)"

definition utf8uprcodepoint :: "int \<Rightarrow> int" where
  "utf8uprcodepoint cp =
     (if in_ranges sub32_upper cp then cp - 32
      else if in_ranges even_pairs cp then cp AND NOT 1
      else if in_ranges odd_pairs cp then (cp - 1) OR 1
      else switch_on upper_switch cp)"

definition utf8islower :: "int \<Rightarrow> int" where
  "utf8islower chr = (if chr \<noteq> utf8uprcodepoint chr then 1 else 0)"

definition utf8isupper :: "int \<Rightarrow> int" where
  "utf8isupper chr = (if chr \<noteq> utf8lwrcodepoint chr then 1 else 0)"

text \<open>
  The loop of \<open>utf8lwr\<close> and \<open>utf8upr\<close>: the next position is taken before the code point
  is written over.
\<close>

lemma utf8catcodepoint_length: "utf8catcodepoint s c n = Some (p, s') \<Longrightarrow> length s' = length s"
  by (auto simp: utf8catcodepoint_def Let_def split: if_splits)

function recode :: "(int \<Rightarrow> int) \<Rightarrow> byte list \<Rightarrow> byte list option" where
  "recode f p = do {
     (pn, cp) \<leftarrow> utf8codepoint p;
     if cp = 0 then Some p
     else do {
       let lwr_cp = f cp;
       (r, p') \<leftarrow> (if lwr_cp \<noteq> cp then utf8catcodepoint p lwr_cp (utf8codepointsize lwr_cp)
                   else Some (None, p));
       let k = length p - length pn;
       rest \<leftarrow> recode f (drop k p');
       Some (take k p' @ rest)
     }
   }"
  by pat_completeness auto

termination
  by (relation "measure (\<lambda>(f, p). length p)")
    (auto dest!: utf8codepoint_shorter utf8catcodepoint_length split: if_splits)

declare recode.simps [simp del]

definition utf8lwr :: "byte list \<Rightarrow> byte list option" where "utf8lwr s = recode utf8lwrcodepoint s"
definition utf8upr :: "byte list \<Rightarrow> byte list option" where "utf8upr s = recode utf8uprcodepoint s"

section \<open>Copying\<close>

text \<open>Source and destination do not overlap.\<close>

fun copy_string :: "byte list \<Rightarrow> byte list \<Rightarrow> byte list option" where
  "copy_string (x # d) (b # s) = (if b = 0 then Some (0 # d) else map_option ((#) b) (copy_string d s))"
| "copy_string d s = None"

definition utf8cpy :: "byte list \<Rightarrow> byte list \<Rightarrow> byte list option" where
  "utf8cpy dst src = copy_string dst src"

definition utf8cat :: "byte list \<Rightarrow> byte list \<Rightarrow> byte list option" where
  "utf8cat dst src = do {
     d \<leftarrow> to_end dst;
     d' \<leftarrow> copy_string d src;
     Some (take (length dst - length d) dst @ d')
   }"

text \<open>\<open>n\<close> is a \<open>size_t\<close> and goes down from 0 to the largest value.\<close>

fun ncat_loop :: "byte list \<Rightarrow> byte list \<Rightarrow> nat \<Rightarrow> byte list option" where
  "ncat_loop (x # d) (b # s) n = do {
     c \<leftarrow> idx s 0;
     let n' = (n + 2 ^ 64 - 1) mod 2 ^ 64;
     rest \<leftarrow> (if c \<noteq> 0 \<and> n' \<noteq> 0 then ncat_loop d s n' else case d of [] \<Rightarrow> None | y # r \<Rightarrow> Some (0 # r));
     Some (b # rest)
   }"
| "ncat_loop d s n = None"

definition utf8ncat :: "byte list \<Rightarrow> byte list \<Rightarrow> nat \<Rightarrow> byte list option" where
  "utf8ncat dst src n = do {
     d \<leftarrow> to_end dst;
     d' \<leftarrow> ncat_loop d src n;
     Some (take (length dst - length d) dst @ d')
   }"

fun zero_fill :: "byte list \<Rightarrow> nat \<Rightarrow> byte list option" where
  "zero_fill d 0 = Some d"
| "zero_fill [] (Suc n) = None"
| "zero_fill (x # d) (Suc n) = map_option ((#) 0) (zero_fill d n)"

fun utf8ncpy :: "byte list \<Rightarrow> byte list \<Rightarrow> nat \<Rightarrow> byte list option" where
  "utf8ncpy d s 0 = Some d"
| "utf8ncpy (x # d) (b # s) (Suc n) =
     (if b = 0 then zero_fill (b # d) (Suc n) else map_option ((#) b) (utf8ncpy d s n))"
| "utf8ncpy d s (Suc n) = None"

text \<open>\<open>malloc_ok\<close> says whether \<open>malloc\<close> of so many bytes succeeds.\<close>

definition utf8dup :: "(nat \<Rightarrow> bool) \<Rightarrow> byte list \<Rightarrow> byte list option option" where
  "utf8dup malloc_ok src = do {
     bytes \<leftarrow> utf8size src;
     if \<not> malloc_ok bytes then Some None
     else do { n \<leftarrow> copy_string (replicate bytes 0) src; Some (Some n) }
   }"

text \<open>The byte at the limit is read before the limit is tested.\<close>

fun bytes_up_to :: "byte list \<Rightarrow> nat \<Rightarrow> nat option" where
  "bytes_up_to [] n = None"
| "bytes_up_to (b # s) n = (if b \<noteq> 0 \<and> 0 < n then map_option Suc (bytes_up_to s (n - 1)) else Some 0)"

definition utf8ndup :: "(nat \<Rightarrow> bool) \<Rightarrow> byte list \<Rightarrow> nat \<Rightarrow> byte list option option" where
  "utf8ndup malloc_ok src n = do {
     bytes \<leftarrow> bytes_up_to src n;
     if \<not> malloc_ok (bytes + 1) then Some None
     else Some (Some (take bytes src @ [0]))
   }"

section \<open>Comparison\<close>

fun utf8cmp :: "byte list \<Rightarrow> byte list \<Rightarrow> int option" where
  "utf8cmp (a # s1) (b # s2) =
     (if a = 0 \<and> b = 0 then Some 0
      else if a < b then Some (-1)
      else if a > b then Some 1
      else utf8cmp s1 s2)"
| "utf8cmp s1 s2 = None"

fun utf8ncmp :: "byte list \<Rightarrow> byte list \<Rightarrow> nat \<Rightarrow> int option" where
  "utf8ncmp s1 s2 0 = Some 0"
| "utf8ncmp (a # s1) (b # s2) (Suc n) =
     (if a = 0 \<and> b = 0 then Some 0
      else if a < b then Some (-1)
      else if a > b then Some 1
      else utf8ncmp s1 s2 n)"
| "utf8ncmp s1 s2 (Suc n) = None"

function utf8casecmp :: "byte list \<Rightarrow> byte list \<Rightarrow> int option" where
  "utf8casecmp src1 src2 = do {
     (t1, src1_cp) \<leftarrow> utf8codepoint src1;
     (t2, src2_cp) \<leftarrow> utf8codepoint src2;
     if src1_cp = 0 \<and> src2_cp = 0 then Some 0
     else if utf8lwrcodepoint src1_cp = utf8lwrcodepoint src2_cp then utf8casecmp t1 t2
     else if src1_cp < src2_cp then Some (-1)
     else if src1_cp > src2_cp then Some 1
     else utf8casecmp t1 t2
   }"
  by pat_completeness auto

termination
  by (relation "measure (\<lambda>(s, _). length s)") (auto dest: utf8codepoint_shorter)

declare utf8casecmp.simps [simp del]

definition compare_lead :: "byte \<Rightarrow> byte \<Rightarrow> byte \<Rightarrow> int" where
  "compare_lead m b1 b2 =
     (let c1 = uint (m AND b1); c2 = uint (m AND b2) in if c1 < c2 then -1 else if c1 > c2 then 1 else 0)"

text \<open>
  A code point that is cut by the limit is compared by its first byte.  \<open>n\<close> is a
  \<open>size_t\<close>; \<open>continue\<close> goes to the test of the loop.
\<close>

function utf8ncasecmp :: "byte list \<Rightarrow> byte list \<Rightarrow> nat \<Rightarrow> int option" where
  "utf8ncasecmp src1 src2 n =
     (if n = 0 then Some 0
      else do {
        b1 \<leftarrow> idx src1 0;
        b2 \<leftarrow> idx src2 0;
        if n = 1 \<and> (lead2 b1 \<or> lead2 b2) then Some (compare_lead 0xE0 b1 b2)
        else if n \<le> 2 \<and> (lead3 b1 \<or> lead3 b2) then Some (compare_lead 0xF0 b1 b2)
        else if n \<le> 3 \<and> (lead4 b1 \<or> lead4 b2) then Some (compare_lead 0xF8 b1 b2)
        else do {
          (t1, src1_cp) \<leftarrow> utf8codepoint src1;
          (t2, src2_cp) \<leftarrow> utf8codepoint src2;
          let n = (n + 2 ^ 64 - utf8codepointsize src1_cp) mod 2 ^ 64;
          if src1_cp = 0 \<and> src2_cp = 0 then Some 0
          else if utf8lwrcodepoint src1_cp = utf8lwrcodepoint src2_cp
            then (if 0 < n then utf8ncasecmp t1 t2 n else Some 0)
          else if src1_cp < src2_cp then Some (-1)
          else if src1_cp > src2_cp then Some 1
          else if 0 < n then utf8ncasecmp t1 t2 n else Some 0
        }
      })"
  by pat_completeness auto

termination
  by (relation "measure (\<lambda>(s, _, _). length s)") (auto dest: utf8codepoint_shorter)

declare utf8ncasecmp.simps [simp del]

section \<open>Search\<close>

text \<open>The inner loop of \<open>utf8str\<close>: what is left of the needle at the first difference.\<close>

fun match_prefix :: "byte list \<Rightarrow> byte list \<Rightarrow> byte list option" where
  "match_prefix (a # h) (b # n) = (if a = b \<and> a \<noteq> 0 \<and> b \<noteq> 0 then match_prefix h n else Some (b # n))"
| "match_prefix h n = None"

function str_loop :: "byte list \<Rightarrow> byte list \<Rightarrow> byte list option option" where
  "str_loop h needle = do {
     b \<leftarrow> idx h 0;
     if b = 0 then Some None
     else do {
       n \<leftarrow> match_prefix h needle;
       c \<leftarrow> idx n 0;
       if c = 0 then Some (Some h)
       else do { (h', throwaway) \<leftarrow> utf8codepoint h; str_loop h' needle }
     }
   }"
  by pat_completeness auto

termination
  by (relation "measure (\<lambda>(h, _). length h)") (auto dest: utf8codepoint_shorter)

declare str_loop.simps [simp del]

definition utf8str :: "byte list \<Rightarrow> byte list \<Rightarrow> byte list option option" where
  "utf8str haystack needle = do {
     c \<leftarrow> idx needle 0;
     if c = 0 then Some (Some haystack) else str_loop haystack needle
   }"

text \<open>\<open>char c[5]\<close> with the bytes of the code point.\<close>

definition chr_string :: "int \<Rightarrow> byte list" where
  "chr_string chr = utf8bytes chr @ replicate (5 - length (utf8bytes chr)) 0"

definition utf8chr :: "byte list \<Rightarrow> int \<Rightarrow> byte list option option" where
  "utf8chr src chr = (if chr = 0 then map_option Some (to_end src) else utf8str src (chr_string chr))"

function casestr_inner :: "byte list \<Rightarrow> byte list \<Rightarrow> int \<Rightarrow> int \<Rightarrow> (int \<times> int) option" where
  "casestr_inner h n h_cp n_cp =
     (if h_cp \<noteq> 0 \<and> n_cp \<noteq> 0 then
        let h_cp = utf8lwrcodepoint h_cp; n_cp = utf8lwrcodepoint n_cp in
        if h_cp \<noteq> n_cp then Some (h_cp, n_cp)
        else do {
          (h', h_cp') \<leftarrow> utf8codepoint h;
          (n', n_cp') \<leftarrow> utf8codepoint n;
          casestr_inner h' n' h_cp' n_cp'
        }
      else Some (h_cp, n_cp))"
  by pat_completeness auto

termination
  by (relation "measure (\<lambda>(h, _, _, _). length h)") (auto dest: utf8codepoint_shorter)

declare casestr_inner.simps [simp del]

function casestr_loop :: "byte list \<Rightarrow> byte list \<Rightarrow> byte list option option" where
  "casestr_loop h needle = do {
     (nextH, h_cp) \<leftarrow> utf8codepoint h;
     (n, n_cp) \<leftarrow> utf8codepoint needle;
     (h_cp, n_cp) \<leftarrow> casestr_inner nextH n h_cp n_cp;
     if n_cp = 0 then Some (Some h)
     else if h_cp = 0 then Some None
     else casestr_loop nextH needle
   }"
  by pat_completeness auto

termination
  by (relation "measure (\<lambda>(h, _). length h)") (auto dest: utf8codepoint_shorter)

declare casestr_loop.simps [simp del]

definition utf8casestr :: "byte list \<Rightarrow> byte list \<Rightarrow> byte list option option" where
  "utf8casestr haystack needle = do {
     c \<leftarrow> idx needle 0;
     if c = 0 then Some (Some haystack) else casestr_loop haystack needle
   }"

text \<open>
  The comparison of \<open>utf8rchr\<close> stops at the first difference only: it runs over the end of
  both strings.
\<close>

function rchr_match :: "byte list \<Rightarrow> byte list \<Rightarrow> nat \<Rightarrow> nat option" where
  "rchr_match s c offset = do {
     x \<leftarrow> idx s offset;
     y \<leftarrow> idx c offset;
     if x = y then rchr_match s c (offset + 1) else Some offset
   }"
  by pat_completeness auto

termination
  by (relation "measure (\<lambda>(_, c, offset). length c - offset)") (auto simp: idx_def split: if_splits)

declare rchr_match.simps [simp del]

partial_function (option) rchr_loop ::
  "byte list \<Rightarrow> byte list \<Rightarrow> byte list option \<Rightarrow> byte list option option" where
  "rchr_loop s c mtch = do {
     b \<leftarrow> idx s 0;
     if b = 0 then Some mtch
     else do {
       offset \<leftarrow> rchr_match s c 0;
       y \<leftarrow> idx c offset;
       if y = 0 then rchr_loop (drop offset s) c (Some s)
       else do {
         x \<leftarrow> idx (drop offset s) 0;
         if x \<noteq> 0 then do { s' \<leftarrow> skip_cont (drop (offset + 1) s); rchr_loop s' c mtch }
         else rchr_loop (drop offset s) c mtch
       }
     }
   }"

declare rchr_loop.simps [code]

definition utf8rchr :: "byte list \<Rightarrow> int \<Rightarrow> byte list option option" where
  "utf8rchr src chr = (if chr = 0 then map_option Some (to_end src) else rchr_loop src (chr_string chr) None)"

section \<open>Sets of code points\<close>

text \<open>
  The loop over a set of code points that \<open>utf8cspn\<close>, \<open>utf8pbrk\<close> and \<open>utf8spn\<close>
  share: \<open>Inr\<close> when a code point of the set is followed by another one and was matched,
  \<open>Inl\<close> at the end of the set, each with the number of bytes matched then.
\<close>

function scan_set :: "byte list \<Rightarrow> byte list \<Rightarrow> nat \<Rightarrow> (nat + nat) option" where
  "scan_set s a offset = do {
     c \<leftarrow> idx a 0;
     if c = 0 then Some (Inl offset)
     else if \<not> is_cont c \<and> 0 < offset then Some (Inr offset)
     else do {
       x \<leftarrow> idx s offset;
       if c = x then scan_set s (drop 1 a) (offset + 1)
       else do { a' \<leftarrow> skip_cont (drop 1 a); scan_set s a' 0 }
     }
   }"
  by pat_completeness auto

termination
  by (relation "measure (\<lambda>(_, a, _). length a)") (auto simp: idx_0_iff dest: skip_cont_le)

declare scan_set.simps [simp del]

lemma scan_set_Inr_pos: "scan_set s a offset = Some (Inr k) \<Longrightarrow> 0 < k"
proof (induction s a offset rule: scan_set.induct)
  case (1 s a offset)
  from "1.prems" obtain c where c: "idx a 0 = Some c" "c \<noteq> 0"
    by (subst (asm) scan_set.simps) (auto split: if_splits)
  show ?case
  proof (cases "\<not> is_cont c \<and> 0 < offset")
    case True
    with c "1.prems" show ?thesis by (subst (asm) scan_set.simps) auto
  next
    case False
    with c "1.prems" obtain x where x: "idx s offset = Some x"
      by (subst (asm) scan_set.simps) (auto split: if_splits)
    show ?thesis
    proof (cases "c = x")
      case True
      with c False x "1.prems" have "scan_set s (drop 1 a) (offset + 1) = Some (Inr k)"
        by (subst (asm) scan_set.simps) auto
      with "1.IH"(1) c False x True show ?thesis by simp
    next
      case n: False
      with c False x "1.prems" obtain a' where "skip_cont (drop 1 a) = Some a'" "scan_set s a' 0 = Some (Inr k)"
        by (subst (asm) scan_set.simps) auto
      with "1.IH"(2) c False x n show ?thesis by simp
    qed
  qed
qed

function cspn_loop :: "byte list \<Rightarrow> byte list \<Rightarrow> nat \<Rightarrow> nat option" where
  "cspn_loop s reject chars = do {
     b \<leftarrow> idx s 0;
     if b = 0 then Some chars
     else do {
       m \<leftarrow> scan_set s reject 0;
       (case m of
          Inr offset \<Rightarrow> Some chars
        | Inl offset \<Rightarrow> do { s' \<leftarrow> skip_cont (drop 1 s); cspn_loop s' reject (chars + 1) })
     }
   }"
  by pat_completeness auto

termination
  by (relation "measure (\<lambda>(s, _, _). length s)") (auto simp: idx_0_iff dest: skip_cont_le)

declare cspn_loop.simps [simp del]

definition utf8cspn :: "byte list \<Rightarrow> byte list \<Rightarrow> nat option" where
  "utf8cspn src reject = cspn_loop src reject 0"

function utf8pbrk :: "byte list \<Rightarrow> byte list \<Rightarrow> byte list option option" where
  "utf8pbrk s accept = do {
     b \<leftarrow> idx s 0;
     if b = 0 then Some None
     else do {
       m \<leftarrow> scan_set s accept 0;
       (case m of
          Inr offset \<Rightarrow> Some (Some s)
        | Inl offset \<Rightarrow>
            if 0 < offset then Some (Some s)
            else do { s' \<leftarrow> skip_cont (drop 1 s); utf8pbrk s' accept })
     }
   }"
  by pat_completeness auto

termination
  by (relation "measure (\<lambda>(s, _). length s)") (auto simp: idx_0_iff dest: skip_cont_le)

declare utf8pbrk.simps [simp del]

function spn_loop :: "byte list \<Rightarrow> byte list \<Rightarrow> nat \<Rightarrow> nat option" where
  "spn_loop s accept chars = do {
     b \<leftarrow> idx s 0;
     if b = 0 then Some chars
     else do {
       m \<leftarrow> scan_set s accept 0;
       (case m of
          Inr offset \<Rightarrow> spn_loop (drop offset s) accept (chars + 1)
        | Inl offset \<Rightarrow> Some chars)
     }
   }"
  by pat_completeness auto

termination
  by (relation "measure (\<lambda>(s, _, _). length s)") (auto simp: idx_0_iff dest: scan_set_Inr_pos)

declare spn_loop.simps [simp del]

definition utf8spn :: "byte list \<Rightarrow> byte list \<Rightarrow> nat option" where
  "utf8spn src accept = spn_loop src accept 0"

section \<open>Validation\<close>

text \<open>The tests of the following bytes stop at the first that is none.\<close>

fun all_cont :: "byte list \<Rightarrow> nat list \<Rightarrow> bool option" where
  "all_cont s [] = Some True"
| "all_cont s (i # is) = do { b \<leftarrow> idx s i; if is_cont b then all_cont s is else Some False }"

text \<open>\<open>Some None\<close> is NULL, the answer for a valid string.\<close>

function utf8valid :: "byte list \<Rightarrow> byte list option option" where
  "utf8valid s = do {
     s0 \<leftarrow> idx s 0;
     if s0 = 0 then Some None
     else if lead4 s0 then do {
       ok \<leftarrow> all_cont s [1, 2, 3];
       if \<not> ok then Some (Some s)
       else do {
         s4 \<leftarrow> idx s 4;
         s1 \<leftarrow> idx s 1;
         if is_cont s4 then Some (Some s)
         else if 0x07 AND s0 = 0 \<and> 0x30 AND s1 = 0 then Some (Some s)
         else utf8valid (drop 4 s)
       }
     }
     else if lead3 s0 then do {
       ok \<leftarrow> all_cont s [1, 2];
       if \<not> ok then Some (Some s)
       else do {
         s3 \<leftarrow> idx s 3;
         s1 \<leftarrow> idx s 1;
         if is_cont s3 then Some (Some s)
         else if 0x0F AND s0 = 0 \<and> 0x20 AND s1 = 0 then Some (Some s)
         else utf8valid (drop 3 s)
       }
     }
     else if lead2 s0 then do {
       ok \<leftarrow> all_cont s [1];
       if \<not> ok then Some (Some s)
       else do {
         s2 \<leftarrow> idx s 2;
         if is_cont s2 then Some (Some s)
         else if 0x1E AND s0 = 0 then Some (Some s)
         else utf8valid (drop 2 s)
       }
     }
     else if 0x80 AND s0 = 0 then utf8valid (drop 1 s)
     else Some (Some s)
   }"
  by pat_completeness auto

termination
  by (relation "measure length") (auto simp: idx_0_iff)

declare utf8valid.simps [simp del]

end
