(* ===== verification/Utf8_Spec.thy ===== *)
theory Utf8_Spec
  imports Utf8 "HOL-Library.Sublist"
begin

text \<open>
  The UTF-8 functions on well-formed text: a sequence of code points and its bytes.  What each
  function computes is stated over the code points.
\<close>

section \<open>Bits of a byte\<close>

lemma byte_eq_iff:
  "(a :: byte) = b \<longleftrightarrow> (bit a 0 = bit b 0) \<and> (bit a 1 = bit b 1) \<and> (bit a 2 = bit b 2) \<and> (bit a 3 = bit b 3)
     \<and> (bit a 4 = bit b 4) \<and> (bit a 5 = bit b 5) \<and> (bit a 6 = bit b 6) \<and> (bit a 7 = bit b 7)" (is "_ \<longleftrightarrow> ?bits")
proof
  assume ?bits
  then have "\<forall>n<8. bit a n = bit b n" by (simp add: numeral_eq_Suc All_less_Suc)
  then show "a = b" by (auto intro: bit_word_eqI)
qed simp

lemma cont_bits: "is_cont b \<longleftrightarrow> bit b 7 \<and> \<not> bit b 6"
  by (simp add: is_cont_def byte_eq_iff bit_simps conj_ac)

lemma lead2_bits: "lead2 b \<longleftrightarrow> bit b 7 \<and> bit b 6 \<and> \<not> bit b 5"
  by (simp add: lead2_def byte_eq_iff bit_simps conj_ac)

lemma lead3_bits: "lead3 b \<longleftrightarrow> bit b 7 \<and> bit b 6 \<and> bit b 5 \<and> \<not> bit b 4"
  by (simp add: lead3_def byte_eq_iff bit_simps conj_ac)

lemma lead4_bits: "lead4 b \<longleftrightarrow> bit b 7 \<and> bit b 6 \<and> bit b 5 \<and> bit b 4 \<and> \<not> bit b 3"
  by (simp add: lead4_def byte_eq_iff bit_simps conj_ac)

lemma mask_not_zero: "(c :: int) AND NOT (mask n) = 0 \<longleftrightarrow> 0 \<le> c \<and> c < 2 ^ n"
proof -
  have "c AND NOT (mask n) = 0 \<longleftrightarrow> take_bit n c = c" by (auto simp: bit_eq_iff bit_simps)
  then show ?thesis by (simp add: take_bit_int_eq_self_iff)
qed

lemma size_masks:
  "(c :: int) AND -0x80 = 0 \<longleftrightarrow> 0 \<le> c \<and> c < 0x80"
  "(c :: int) AND -0x800 = 0 \<longleftrightarrow> 0 \<le> c \<and> c < 0x800"
  "(c :: int) AND -0x10000 = 0 \<longleftrightarrow> 0 \<le> c \<and> c < 0x10000"
  using mask_not_zero [of c 7] mask_not_zero [of c 11] mask_not_zero [of c 16]
  by (simp_all add: mask_eq_exp_minus_1)

section \<open>One code point\<close>

definition code_ok :: "int \<Rightarrow> bool" where
  "code_ok c \<longleftrightarrow> 0 < c \<and> c < 0x200000"

text \<open>The low bits of a following byte and of the first byte.\<close>

lemma tail_bits: "uint (0x3F AND (0x80 OR word_of_int (x AND 0x3F)) :: byte) = x mod 64"
proof -
  have "(0x3F AND (0x80 OR word_of_int (x AND 0x3F)) :: byte) = word_of_int (x AND 0x3F)"
    by (simp add: byte_eq_iff bit_simps)
  moreover have "x AND 0x3F = x mod 64"
    using take_bit_eq_mask [of 6 x] by (simp add: mask_eq_exp_minus_1 take_bit_eq_mod)
  ultimately show ?thesis by (simp add: uint_word_of_int)
qed

lemma head_bits:
  "0 \<le> x \<Longrightarrow> x < 0x20 \<Longrightarrow> uint (0x1F AND (0xC0 OR word_of_int x) :: byte) = x"
  "0 \<le> x \<Longrightarrow> x < 0x10 \<Longrightarrow> uint (0x0F AND (0xE0 OR word_of_int x) :: byte) = x"
  "0 \<le> x \<Longrightarrow> x < 0x08 \<Longrightarrow> uint (0x07 AND (0xF0 OR word_of_int x) :: byte) = x"
proof -
  have high: "\<not> bit x n" if "0 \<le> x" "x < 2 ^ m" "m \<le> n" for m n
    using that take_bit_int_eq_self [of x m] by (metis bit_take_bit_iff not_le)
  show "0 \<le> x \<Longrightarrow> x < 0x20 \<Longrightarrow> uint (0x1F AND (0xC0 OR word_of_int x) :: byte) = x"
  proof -
    assume x: "0 \<le> x" "x < 0x20"
    have "(0x1F AND (0xC0 OR word_of_int x) :: byte) = word_of_int x"
      using high [of 5] x by (simp add: byte_eq_iff bit_simps)
    with x show ?thesis by (simp add: uint_word_of_int)
  qed
  show "0 \<le> x \<Longrightarrow> x < 0x10 \<Longrightarrow> uint (0x0F AND (0xE0 OR word_of_int x) :: byte) = x"
  proof -
    assume x: "0 \<le> x" "x < 0x10"
    have "(0x0F AND (0xE0 OR word_of_int x) :: byte) = word_of_int x"
      using high [of 4] x by (simp add: byte_eq_iff bit_simps)
    with x show ?thesis by (simp add: uint_word_of_int)
  qed
  show "0 \<le> x \<Longrightarrow> x < 0x08 \<Longrightarrow> uint (0x07 AND (0xF0 OR word_of_int x) :: byte) = x"
  proof -
    assume x: "0 \<le> x" "x < 0x08"
    have "(0x07 AND (0xF0 OR word_of_int x) :: byte) = word_of_int x"
      using high [of 3] x by (simp add: byte_eq_iff bit_simps)
    with x show ?thesis by (simp add: uint_word_of_int)
  qed
qed

lemma or_shifted: "0 \<le> b \<Longrightarrow> b < 2 ^ n \<Longrightarrow> push_bit n a OR b = a * 2 ^ n + (b :: int)"
proof -
  assume b: "0 \<le> b" "b < 2 ^ n"
  have "\<not> bit (push_bit n a) m \<or> \<not> bit b m" for m
    using b take_bit_int_eq_self [of b n] by (metis bit_push_bit_iff bit_take_bit_iff not_le)
  then have "push_bit n a + b = push_bit n a OR b" by (rule disjunctive_add)
  then show ?thesis by (simp add: push_bit_eq_mult)
qed

text \<open>The four shapes of the bytes of a code point.\<close>

lemma high_bit: "0 \<le> (x :: int) \<Longrightarrow> x < 2 ^ m \<Longrightarrow> m \<le> n \<Longrightarrow> \<not> bit x n"
  using take_bit_int_eq_self [of x m] by (metis bit_take_bit_iff not_le)

lemma tail_cont: "is_cont (0x80 OR word_of_int (x AND 0x3F))"
  by (simp add: cont_bits bit_simps)

lemma byte_zero_bits: "bit (b :: byte) n \<Longrightarrow> b \<noteq> 0"
  by auto

lemma bytes_1: "0 \<le> c \<Longrightarrow> c < 0x80 \<Longrightarrow> utf8bytes c = [word_of_int c]"
  by (simp add: utf8bytes_def size_masks)

lemma bytes_2: "0x80 \<le> c \<Longrightarrow> c < 0x800 \<Longrightarrow> utf8bytes c =
    [0xC0 OR word_of_int (drop_bit 6 c), 0x80 OR word_of_int (c AND 0x3F)]"
  by (simp add: utf8bytes_def size_masks)

lemma bytes_3: "0x800 \<le> c \<Longrightarrow> c < 0x10000 \<Longrightarrow> utf8bytes c =
    [0xE0 OR word_of_int (drop_bit 12 c), 0x80 OR word_of_int (drop_bit 6 c AND 0x3F),
     0x80 OR word_of_int (c AND 0x3F)]"
  by (simp add: utf8bytes_def size_masks)

lemma bytes_4: "0x10000 \<le> c \<Longrightarrow> utf8bytes c =
    [0xF0 OR word_of_int (drop_bit 18 c), 0x80 OR word_of_int (drop_bit 12 c AND 0x3F),
     0x80 OR word_of_int (drop_bit 6 c AND 0x3F), 0x80 OR word_of_int (c AND 0x3F)]"
  by (simp add: utf8bytes_def size_masks)

lemma code_cases:
  assumes "code_ok c"
  obtains (one) "0 < c" "c < 0x80" | (two) "0x80 \<le> c" "c < 0x800"
    | (three) "0x800 \<le> c" "c < 0x10000" | (four) "0x10000 \<le> c" "c < 0x200000"
  using assms unfolding code_ok_def by linarith

lemma ascii_byte:
  assumes "0 < c" "c < 0x80"
  shows "\<not> bit (word_of_int c :: byte) 7" "(word_of_int c :: byte) \<noteq> 0" "sint (word_of_int c :: byte) = c"
proof -
  show "\<not> bit (word_of_int c :: byte) 7" using high_bit [of c 7] assms by (simp add: bit_simps)
  have "uint (word_of_int c :: byte) = c" using assms by (simp add: uint_word_of_int)
  then show "(word_of_int c :: byte) \<noteq> 0" using assms by auto
  show "sint (word_of_int c :: byte) = c"
    using assms by (simp add: sint_sbintrunc' signed_take_bit_eq_if_positive high_bit [of c 7] take_bit_int_eq_self)
qed

lemma head_lead2:
  assumes "0 \<le> x" "x < 0x20"
  shows "lead2 (0xC0 OR word_of_int x)"
  using assms high_bit [of x 5] by (simp add: lead2_bits bit_simps)

lemma head_lead3:
  assumes "0 \<le> x" "x < 0x10"
  shows "lead3 (0xE0 OR word_of_int x)"
  using assms high_bit [of x 4] by (simp add: lead3_bits bit_simps)

lemma head_lead4:
  assumes "0 \<le> x" "x < 8"
  shows "lead4 (0xF0 OR word_of_int x)"
  using assms high_bit [of x 3] by (simp add: lead4_bits bit_simps)

lemma lead_others:
  "lead2 b \<Longrightarrow> \<not> lead3 b \<and> \<not> lead4 b \<and> \<not> is_cont b \<and> b \<noteq> 0"
  "lead3 b \<Longrightarrow> \<not> lead2 b \<and> \<not> lead4 b \<and> \<not> is_cont b \<and> b \<noteq> 0"
  "lead4 b \<Longrightarrow> \<not> lead2 b \<and> \<not> lead3 b \<and> \<not> is_cont b \<and> b \<noteq> 0"
  "\<not> bit b 7 \<Longrightarrow> \<not> lead2 b \<and> \<not> lead3 b \<and> \<not> lead4 b \<and> \<not> is_cont b"
  "is_cont b \<Longrightarrow> \<not> lead2 b \<and> \<not> lead3 b \<and> \<not> lead4 b \<and> b \<noteq> 0"
  by (auto simp: lead2_bits lead3_bits lead4_bits cont_bits)

lemma drop_bounds:
  "c < 0x800 \<Longrightarrow> 0 \<le> c \<Longrightarrow> 0 \<le> drop_bit 6 (c :: int) \<and> drop_bit 6 c < 0x20"
  "c < 0x10000 \<Longrightarrow> 0 \<le> c \<Longrightarrow> 0 \<le> drop_bit 12 (c :: int) \<and> drop_bit 12 c < 0x10"
  "c < 0x200000 \<Longrightarrow> 0 \<le> c \<Longrightarrow> 0 \<le> drop_bit 18 (c :: int) \<and> drop_bit 18 c < 8"
  using zdiv_mono1 [of c "0x7FF" 64] zdiv_mono1 [of c "0xFFFF" 4096] zdiv_mono1 [of c "0x1FFFFF" 262144]
  by (simp_all add: drop_bit_eq_div pos_imp_zdiv_nonneg_iff)

text \<open>The bits of the parts put together.\<close>

lemma parts_2: "push_bit 6 (drop_bit 6 c) OR (c mod 64) = (c :: int)"
  using or_shifted [of "c mod 64" 6 "drop_bit 6 c"] by (simp add: drop_bit_eq_div)

lemma digits_64:
  "(c :: int) div 4096 = c div 64 div 64" "c div 262144 = c div 64 div 64 div 64"
  "c div 64 * 64 + c mod 64 = c"
  by (simp_all add: zdiv_zmult2_eq [symmetric])

lemma digits_sum:
  "q * 64 + a = c \<Longrightarrow> r * 64 + b = q \<Longrightarrow> r * 4096 + (b * 64 + a) = (c :: int)"
  "q * 64 + a = c \<Longrightarrow> r * 64 + b = q \<Longrightarrow> t * 64 + d = r \<Longrightarrow>
     t * 262144 + (d * 4096 + (b * 64 + a)) = (c :: int)"
  "a < 64 \<Longrightarrow> b < 64 \<Longrightarrow> d < 64 \<Longrightarrow> d * 4096 + (b * 64 + a) < (2 ^ 18 :: int)"
  by simp_all

lemma parts_3: "push_bit 12 (drop_bit 12 c) OR push_bit 6 (drop_bit 6 c mod 64) OR c mod 64 = (c :: int)"
proof -
  let ?q = "c div 64"
  let ?l = "push_bit 6 (drop_bit 6 c mod 64) OR c mod 64"
  have l: "?l = (?q mod 64) * 64 + c mod 64"
    using or_shifted [of "c mod 64" 6 "drop_bit 6 c mod 64"] by (simp add: drop_bit_eq_div)
  have "0 \<le> ?l" "?l < 2 ^ 12"
    unfolding l using pos_mod_bound [of 64 ?q] pos_mod_bound [of 64 c] by simp_all
  then have "push_bit 12 (drop_bit 12 c) OR ?l = (c div 4096) * 4096 + ?l"
    using or_shifted [of ?l 12 "drop_bit 12 c"] by (simp add: drop_bit_eq_div)
  also have "\<dots> = c" unfolding l digits_64(1) by (rule digits_sum(1) [OF digits_64(3) digits_64(3)])
  finally show ?thesis .
qed

lemma parts_4:
  "push_bit 18 (drop_bit 18 c) OR push_bit 12 (drop_bit 12 c mod 64) OR push_bit 6 (drop_bit 6 c mod 64)
     OR c mod 64 = (c :: int)"
proof -
  let ?q = "c div 64"
  let ?r = "?q div 64"
  let ?l = "push_bit 6 (drop_bit 6 c mod 64) OR c mod 64"
  let ?m = "push_bit 12 (drop_bit 12 c mod 64) OR ?l"
  have l: "?l = (?q mod 64) * 64 + c mod 64"
    using or_shifted [of "c mod 64" 6 "drop_bit 6 c mod 64"] by (simp add: drop_bit_eq_div)
  have "0 \<le> ?l" "?l < 2 ^ 12"
    unfolding l using pos_mod_bound [of 64 ?q] pos_mod_bound [of 64 c] by simp_all
  then have "?m = drop_bit 12 c mod 64 * 2 ^ 12 + ?l" by (rule or_shifted)
  moreover have "drop_bit 12 c = ?r" by (simp add: drop_bit_eq_div digits_64(1))
  ultimately have m: "?m = (?r mod 64) * 4096 + ((?q mod 64) * 64 + c mod 64)" unfolding l by simp
  have d: "drop_bit 18 c * 2 ^ 18 = ?r div 64 * 262144" by (simp add: drop_bit_eq_div digits_64(2))
  have "0 \<le> ?m" unfolding m by simp
  moreover have "?m < 2 ^ 18"
    unfolding m by (intro digits_sum(3)) simp_all
  ultimately have "push_bit 18 (drop_bit 18 c) OR ?m = drop_bit 18 c * 2 ^ 18 + ?m" by (rule or_shifted)
  also have "\<dots> = c" unfolding m d by (rule digits_sum(2) [OF digits_64(3) digits_64(3) digits_64(3)])
  finally show ?thesis .
qed

text \<open>Reading back what was written gives the code point and stops behind its bytes.\<close>

lemma codepoint_bytes:
  assumes "code_ok c"
  shows "utf8codepoint (utf8bytes c @ s) = Some (s, c)"
  using assms
proof (cases rule: code_cases)
  case one
  then show ?thesis using ascii_byte [OF one] lead_others(4) [of "word_of_int c"]
    by (simp add: bytes_1 utf8codepoint_def idx_def)
next
  case two
  let ?b = "0xC0 OR word_of_int (drop_bit 6 c) :: byte"
  have d: "0 \<le> drop_bit 6 c" "drop_bit 6 c < 0x20" using two drop_bounds(1) [of c] by auto
  from two show ?thesis
    using lead_others(1) [OF head_lead2 [OF d]] head_lead2 [OF d]
    by (simp add: bytes_2 utf8codepoint_def idx_def head_bits(1) [OF d] tail_bits parts_2)
next
  case three
  have d: "0 \<le> drop_bit 12 c" "drop_bit 12 c < 0x10" using three drop_bounds(2) [of c] by auto
  from three show ?thesis
    using lead_others(2) [OF head_lead3 [OF d]] head_lead3 [OF d]
    by (simp add: bytes_3 utf8codepoint_def idx_def head_bits(2) [OF d] tail_bits parts_3)
next
  case four
  have d: "0 \<le> drop_bit 18 c" "drop_bit 18 c < 8" using four drop_bounds(3) [of c] by auto
  from four show ?thesis
    using head_lead4 [OF d]
    by (simp add: bytes_4 utf8codepoint_def idx_def head_bits(3) [OF d] tail_bits parts_4)
qed

section \<open>Text\<close>

definition utf8_text :: "int list \<Rightarrow> byte list" where
  "utf8_text cps = concat (map utf8bytes cps)"

definition text_ok :: "int list \<Rightarrow> bool" where
  "text_ok cps \<longleftrightarrow> list_all code_ok cps"

lemma utf8_text_simps [simp]:
  "utf8_text [] = []" "utf8_text (c # cps) = utf8bytes c @ utf8_text cps"
  "utf8_text (xs @ ys) = utf8_text xs @ utf8_text ys"
  by (simp_all add: utf8_text_def)

lemma text_ok_simps [simp]:
  "text_ok []" "text_ok (c # cps) \<longleftrightarrow> code_ok c \<and> text_ok cps" "text_ok (xs @ ys) \<longleftrightarrow> text_ok xs \<and> text_ok ys"
  by (simp_all add: text_ok_def)

text \<open>The first byte says how many follow, and all that follow are continuation bytes.\<close>

lemma bytes_shape:
  assumes "code_ok c"
  obtains b r where "utf8bytes c = b # r" "b \<noteq> 0" "\<not> is_cont b" "\<forall>x \<in> set r. is_cont x"
    "length r = (if lead4 b then 3 else if lead3 b then 2 else if lead2 b then 1 else 0)"
  using assms
proof (cases rule: code_cases)
  case one
  with ascii_byte [OF one] lead_others(4) [of "word_of_int c"] that show ?thesis by (simp add: bytes_1)
next
  case two
  then have "lead2 (0xC0 OR word_of_int (drop_bit 6 c))" using head_lead2 drop_bounds(1) by simp
  with two lead_others(1) [OF this] that tail_cont show ?thesis by (simp add: bytes_2)
next
  case three
  then have "lead3 (0xE0 OR word_of_int (drop_bit 12 c))" using head_lead3 drop_bounds(2) by simp
  with three lead_others(2) [OF this] that tail_cont show ?thesis by (simp add: bytes_3)
next
  case four
  then have "lead4 (0xF0 OR word_of_int (drop_bit 18 c))" using head_lead4 drop_bounds(3) by simp
  with four lead_others(3) [OF this] that tail_cont show ?thesis by (simp add: bytes_4)
qed

lemma cont_not_zero: "is_cont b \<Longrightarrow> b \<noteq> 0"
  using lead_others(5) by blast

lemma bytes_nonzero: "code_ok c \<Longrightarrow> 0 \<notin> set (utf8bytes c)"
  by (erule bytes_shape) (use cont_not_zero in fastforce)

lemma text_nonzero: "text_ok cps \<Longrightarrow> 0 \<notin> set (utf8_text cps)"
  by (induction cps) (auto simp: bytes_nonzero)

lemma bytes_size: "0 \<le> c \<Longrightarrow> length (utf8bytes c) = utf8codepointsize c"
  by (simp add: utf8bytes_def utf8codepointsize_def)

lemma bytes_prefix_free:
  assumes "code_ok c" "code_ok d" "utf8bytes c @ s = utf8bytes d @ t"
  shows "c = d \<and> s = t"
proof -
  have "Some (s, c) = utf8codepoint (utf8bytes d @ t)" using codepoint_bytes [OF assms(1)] assms(3) by metis
  with codepoint_bytes [OF assms(2)] show ?thesis by simp
qed

lemma text_inj: "text_ok xs \<Longrightarrow> text_ok ys \<Longrightarrow> utf8_text xs @ 0 # s = utf8_text ys @ 0 # t \<Longrightarrow> xs = ys \<and> s = t"
proof (induction xs arbitrary: ys)
  case Nil
  then show ?case by (cases ys) (auto elim!: bytes_shape)
next
  case (Cons x xs)
  show ?case
  proof (cases ys)
    case Nil
    with Cons.prems show ?thesis by (auto elim!: bytes_shape)
  next
    case (Cons y zs)
    with Cons.prems have "utf8bytes x @ utf8_text xs @ 0 # s = utf8bytes y @ utf8_text zs @ 0 # t" by simp
    then have "x = y \<and> utf8_text xs @ 0 # s = utf8_text zs @ 0 # t"
      using Cons.prems Cons by (intro bytes_prefix_free) auto
    with Cons.IH [of zs] Cons.prems Cons show ?thesis by simp
  qed
qed

lemma to_end_nonzero: "0 \<notin> set xs \<Longrightarrow> to_end (xs @ 0 # r) = Some (0 # r)"
  by (induction xs) auto

lemma codepoint_end: "utf8codepoint (0 # r) = Some (r, 0)"
  by (simp add: utf8codepoint_def idx_def lead2_bits lead3_bits lead4_bits)

lemma idx_Cons_0 [simp]: "idx (b # s) 0 = Some b" by (simp add: idx_def)

section \<open>Length and width\<close>

lemma len_text: "text_ok cps \<Longrightarrow> utf8len (utf8_text cps @ 0 # r) = Some (length cps)"
proof (induction cps)
  case Nil
  then show ?case by (subst utf8len.simps) simp
next
  case (Cons c cps)
  then have "code_ok c" by simp
  then obtain b t where b: "utf8bytes c = b # t" "b \<noteq> 0"
    "length t = (if lead4 b then 3 else if lead3 b then 2 else if lead2 b then 1 else 0)"
    by (rule bytes_shape)
  with Cons show ?case by (subst utf8len.simps) (auto split: if_splits)
qed

lemma cwidth_pos: "c \<noteq> 0 \<Longrightarrow> utf8cwidth c \<in> {1, 2}"
  by (simp add: utf8cwidth_def)

lemma width_loop_text:
  "text_ok cps \<Longrightarrow> utf8codepoint (utf8_text cps @ 0 # r) = Some (s, c) \<Longrightarrow>
   utf8width_loop s c len = Some (len + sum_list (map (\<lambda>c. nat (utf8cwidth c)) cps))"
proof (induction cps arbitrary: s c len)
  case Nil
  then show ?case by (subst utf8width_loop.simps) (simp add: codepoint_end)
next
  case (Cons x cps)
  then have x: "c = x" "s = utf8_text cps @ 0 # r" by (simp_all add: codepoint_bytes)
  obtain t d where t: "utf8codepoint s = Some (t, d)"
  proof (cases cps)
    case Nil
    with x that show ?thesis by (simp add: codepoint_end)
  next
    case (Cons y ys)
    with x Cons.prems that show ?thesis by (simp add: codepoint_bytes)
  qed
  with Cons x have "utf8width_loop t d (len + nat (utf8cwidth x)) =
      Some (len + nat (utf8cwidth x) + sum_list (map (\<lambda>c. nat (utf8cwidth c)) cps))" by simp
  moreover have "c \<noteq> 0" using Cons.prems x by (simp add: code_ok_def)
  ultimately show ?case using t x by (subst utf8width_loop.simps) simp
qed

lemma first_codepoint:
  assumes "text_ok cps"
  obtains s c where "utf8codepoint (utf8_text cps @ 0 # r) = Some (s, c)"
  using assms that by (cases cps) (auto simp: codepoint_end codepoint_bytes)

lemma width_text:
  assumes "text_ok cps"
  shows "utf8width (utf8_text cps @ 0 # r) = Some (sum_list (map (\<lambda>c. nat (utf8cwidth c)) cps))"
proof -
  obtain s c where "utf8codepoint (utf8_text cps @ 0 # r) = Some (s, c)" using first_codepoint [OF assms] .
  with width_loop_text [OF assms this] show ?thesis by (simp add: utf8width_def)
qed

section \<open>Search\<close>

lemma match_prefix_text:
  assumes "0 \<notin> set hs" "0 \<notin> set ns"
  shows "\<exists>b t'. match_prefix (hs @ 0 # r) (ns @ 0 # t) = Some (b # t') \<and> (b = 0 \<longleftrightarrow> prefix ns hs)"
  using assms
proof (induction ns arbitrary: hs)
  case Nil
  then show ?case by (cases hs) auto
next
  case (Cons n ns)
  then show ?case by (cases hs) auto
qed

lemma prefix_text: "text_ok xs \<Longrightarrow> text_ok ys \<Longrightarrow> prefix (utf8_text xs) (utf8_text ys) \<longleftrightarrow> prefix xs ys"
proof (induction xs arbitrary: ys)
  case (Cons x xs)
  show ?case
  proof (cases ys)
    case Nil
    with Cons.prems show ?thesis by (auto elim!: bytes_shape)
  next
    case (Cons y zs)
    show ?thesis
    proof
      assume "prefix (utf8_text (x # xs)) (utf8_text ys)"
      then obtain w where "utf8bytes y @ utf8_text zs = utf8bytes x @ utf8_text xs @ w"
        using Cons by (auto elim!: prefixE)
      then have "y = x \<and> utf8_text zs = utf8_text xs @ w"
        using Cons.prems Cons by (intro bytes_prefix_free) auto
      with Cons.IH [of zs] Cons.prems Cons show "prefix (x # xs) ys" by auto
    next
      assume "prefix (x # xs) ys"
      with Cons.IH [of zs] Cons.prems Cons show "prefix (utf8_text (x # xs)) (utf8_text ys)" by auto
    qed
  qed
qed simp

text \<open>The suffix of a sequence of code points at the first occurrence of another one.\<close>

fun find_text :: "int list \<Rightarrow> int list \<Rightarrow> int list option" where
  "find_text ds [] = None"
| "find_text ds (c # cs) = (if prefix ds (c # cs) then Some (c # cs) else find_text ds cs)"

lemma str_loop_text:
  assumes "text_ok ds" "ds \<noteq> []" "text_ok cps"
  shows "str_loop (utf8_text cps @ 0 # r) (utf8_text ds @ 0 # t) =
    Some (map_option (\<lambda>cs. utf8_text cs @ 0 # r) (find_text ds cps))"
  using assms(3)
proof (induction cps)
  case Nil
  then show ?case by (subst str_loop.simps) simp
next
  case (Cons c cps)
  let ?h = "utf8_text (c # cps) @ 0 # r"
  obtain b x where h: "?h = b # x" "b \<noteq> 0" using Cons.prems by (auto elim!: bytes_shape)
  obtain y t' where m: "match_prefix ?h (utf8_text ds @ 0 # t) = Some (y # t')"
      "y = 0 \<longleftrightarrow> prefix (utf8_text ds) (utf8_text (c # cps))"
    using match_prefix_text [of "utf8_text (c # cps)" "utf8_text ds" r t] text_nonzero Cons.prems assms(1) by blast
  have p: "y = 0 \<longleftrightarrow> prefix ds (c # cps)" using m(2) prefix_text [OF assms(1), of "c # cps"] Cons.prems by simp
  have n: "utf8codepoint ?h = Some (utf8_text cps @ 0 # r, c)" using Cons.prems by (simp add: codepoint_bytes)
  have "str_loop ?h (utf8_text ds @ 0 # t) =
      (if y = 0 then Some (Some ?h) else str_loop (utf8_text cps @ 0 # r) (utf8_text ds @ 0 # t))"
    using h m(1) n by (subst str_loop.simps) (simp add: idx_0_iff del: utf8_text_simps)
  with Cons p show ?case by simp
qed

lemma str_text:
  assumes "text_ok ds" "ds \<noteq> []" "text_ok cps"
  shows "utf8str (utf8_text cps @ 0 # r) (utf8_text ds @ 0 # t) =
    Some (map_option (\<lambda>cs. utf8_text cs @ 0 # r) (find_text ds cps))"
proof -
  obtain b x where "utf8_text ds @ 0 # t = b # x" "b \<noteq> 0"
    using assms(1,2) by (cases ds) (auto elim!: bytes_shape)
  then have "utf8str (utf8_text cps @ 0 # r) (utf8_text ds @ 0 # t) =
      str_loop (utf8_text cps @ 0 # r) (utf8_text ds @ 0 # t)" by (simp add: utf8str_def)
  then show ?thesis using str_loop_text [OF assms, of r t] by simp
qed

lemma find_text_None: "find_text ds cps = None \<longleftrightarrow> ds = [] \<and> cps = [] \<or> \<not> sublist ds cps"
  by (induction cps) (auto simp: sublist_Cons_right)

lemma find_text_first:
  "prefix ds (drop k cps) \<Longrightarrow> k < length cps \<Longrightarrow> (\<And>j. j < k \<Longrightarrow> \<not> prefix ds (drop j cps)) \<Longrightarrow>
   find_text ds cps = Some (drop k cps)"
proof (induction cps arbitrary: k)
  case (Cons c cps)
  show ?case
  proof (cases k)
    case 0
    with Cons.prems show ?thesis by simp
  next
    case (Suc n)
    have "\<not> prefix ds (drop j cps)" if "j < n" for j using Cons.prems(3) [of "Suc j"] that Suc by simp
    with Cons.IH [of n] Cons.prems(1,2) Cons.prems(3) [of 0] Suc show ?thesis by simp
  qed
qed simp

lemma find_one: "find_text [c] cps = (case dropWhile (\<lambda>x. x \<noteq> c) cps of [] \<Rightarrow> None | x # xs \<Rightarrow> Some (x # xs))"
  by (induction cps) auto

lemma bytes_length: "length (utf8bytes c) \<le> 4"
  by (simp add: utf8bytes_def)

lemma chr_string_text: "chr_string c = utf8_text [c] @ 0 # replicate (4 - length (utf8bytes c)) 0"
proof -
  have "5 - length (utf8bytes c) = Suc (4 - length (utf8bytes c))" using bytes_length [of c] by simp
  then show ?thesis by (simp add: chr_string_def)
qed

lemma chr_text:
  assumes "code_ok c" "text_ok cps"
  shows "utf8chr (utf8_text cps @ 0 # r) c =
    Some (case dropWhile (\<lambda>x. x \<noteq> c) cps of [] \<Rightarrow> None | x # xs \<Rightarrow> Some (utf8_text (x # xs) @ 0 # r))"
proof -
  have "utf8str (utf8_text cps @ 0 # r) (chr_string c) = Some (map_option (\<lambda>cs. utf8_text cs @ 0 # r) (find_text [c] cps))"
    unfolding chr_string_text using assms by (intro str_text) auto
  moreover have "c \<noteq> 0" using assms(1) by (simp add: code_ok_def)
  moreover have "map_option (\<lambda>cs. utf8_text cs @ 0 # r) (case w of [] \<Rightarrow> None | x # xs \<Rightarrow> Some (x # xs)) =
      (case w of [] \<Rightarrow> None | x # xs \<Rightarrow> Some (utf8_text (x # xs) @ 0 # r))" for w
    by (cases w) simp_all
  ultimately show ?thesis by (simp only: utf8chr_def find_one if_False)
qed

section \<open>Sets of code points\<close>

text \<open>
  A match is noticed at the first byte of the next code point of the set.  What was matched at the
  end of the set is looked at by \<open>utf8pbrk\<close> only: for \<open>utf8cspn\<close> and \<open>utf8spn\<close> the last
  code point of the set never matches.
\<close>

lemma skip_over: "\<forall>x \<in> set as. is_cont x \<Longrightarrow> \<not> is_cont b \<Longrightarrow> skip_cont (as @ b # s) = Some (b # s)"
  by (induction as) auto

lemma scan_tail:
  "\<forall>x \<in> set as. is_cont x \<Longrightarrow> \<not> is_cont b \<Longrightarrow> 0 \<notin> set ss \<Longrightarrow> offset \<le> length ss \<Longrightarrow>
   scan_set (ss @ 0 # r) (as @ b # s) offset =
     scan_set (ss @ 0 # r) (b # s) (if prefix as (drop offset ss) then offset + length as else 0)"
proof (induction as arbitrary: offset)
  case (Cons a as)
  have a: "is_cont a" "a \<noteq> 0" using Cons.prems cont_not_zero by auto
  show ?case
  proof (cases "offset < length ss")
    case True
    then have x: "idx (ss @ 0 # r) offset = Some (ss ! offset)" "drop offset ss = ss ! offset # drop (offset + 1) ss"
      by (auto simp: idx_def nth_append Cons_nth_drop_Suc)
    with a Cons.IH [of "offset + 1"] Cons.prems skip_over [of as b s] True show ?thesis
      by (subst scan_set.simps) auto
  next
    case False
    with Cons.prems have "idx (ss @ 0 # r) offset = Some 0" "drop offset ss = []"
      by (auto simp: idx_def nth_append)
    with a Cons.prems skip_over [of as b s] show ?thesis by (subst scan_set.simps) auto
  qed
qed simp

lemma scan_code:
  assumes "code_ok d" "0 \<notin> set ss" "\<not> is_cont b"
  shows "scan_set (ss @ 0 # r) (utf8bytes d @ b # s) 0 =
    scan_set (ss @ 0 # r) (b # s) (if prefix (utf8bytes d) ss then length (utf8bytes d) else 0)"
  using assms(1)
proof (rule bytes_shape)
  fix a as
  assume d: "utf8bytes d = a # as" "a \<noteq> 0" "\<not> is_cont a" "\<forall>x \<in> set as. is_cont x"
  show ?thesis
  proof (cases ss)
    case Nil
    with d assms(3) skip_over [of as b s] show ?thesis by (subst scan_set.simps) auto
  next
    case (Cons x ss')
    with d assms(2,3) skip_over [of as b s] scan_tail [of as b ss 1 r s] show ?thesis
      by (subst scan_set.simps) auto
  qed
qed

lemma text_start: "text_ok cps \<Longrightarrow> \<exists>b t. utf8_text cps @ 0 # r = b # t \<and> \<not> is_cont b \<and> (b = 0 \<longleftrightarrow> cps = [])"
  by (cases cps) (auto simp: cont_bits elim!: bytes_shape)

lemma scan_text:
  assumes x: "text_ok (x # cps)"
  shows "text_ok ds \<Longrightarrow> scan_set (utf8_text (x # cps) @ 0 # r) (utf8_text ds @ 0 # t) 0 =
    Some (if x \<in> set (butlast ds) then Inr (length (utf8bytes x))
      else Inl (if ds \<noteq> [] \<and> last ds = x then length (utf8bytes x) else 0))"
proof (induction ds)
  case Nil
  show ?case by (subst scan_set.simps) simp
next
  case (Cons d ds)
  have pos: "0 < length (utf8bytes x)" using x by (auto elim!: bytes_shape)
  have pre: "prefix (utf8bytes d) (utf8_text (x # cps)) \<longleftrightarrow> d = x"
    using bytes_prefix_free [of x d "utf8_text cps"] x Cons.prems by (auto simp: prefix_def)
  obtain b s where b: "utf8_text ds @ 0 # t = b # s" "\<not> is_cont b" "b = 0 \<longleftrightarrow> ds = []"
    using text_start [of ds t] Cons.prems by auto
  have "scan_set (utf8_text (x # cps) @ 0 # r) (utf8_text (d # ds) @ 0 # t) 0 =
      scan_set (utf8_text (x # cps) @ 0 # r) (b # s) (if d = x then length (utf8bytes x) else 0)"
    using scan_code [of d "utf8_text (x # cps)" b r s] Cons.prems text_nonzero [OF x] b(1,2) pre by simp
  moreover have "scan_set h (b # s) k = Some (if ds = [] then Inl k else Inr k)" if "0 < k" for h k
    using b that by (subst scan_set.simps) auto
  ultimately show ?case using Cons b pos by (cases "d = x") auto
qed

lemma skip_to_next:
  assumes "\<forall>x \<in> set as. is_cont x" "text_ok cps"
  shows "skip_cont (as @ utf8_text cps @ 0 # r) = Some (utf8_text cps @ 0 # r)"
  using text_start [OF assms(2), of r] skip_over [OF assms(1)] by auto

lemma next_code:
  assumes "text_ok (x # cps)"
  obtains b s where "utf8_text (x # cps) @ 0 # r = b # s" "b \<noteq> 0" "skip_cont s = Some (utf8_text cps @ 0 # r)"
proof -
  from assms obtain b as where x: "utf8bytes x = b # as" "b \<noteq> 0" "\<forall>y \<in> set as. is_cont y"
    by (auto elim!: bytes_shape)
  with skip_to_next [of as cps r] assms show ?thesis by (intro that [of b "as @ utf8_text cps @ 0 # r"]) auto
qed

lemma cspn_text:
  "text_ok ds \<Longrightarrow> text_ok cps \<Longrightarrow> cspn_loop (utf8_text cps @ 0 # r) (utf8_text ds @ 0 # t) n =
    Some (n + length (takeWhile (\<lambda>x. x \<notin> set (butlast ds)) cps))"
proof (induction cps arbitrary: n)
  case Nil
  then show ?case by (subst cspn_loop.simps) simp
next
  case (Cons x cps)
  from Cons.prems(2) obtain b s where b: "utf8_text (x # cps) @ 0 # r = b # s" "b \<noteq> 0"
    "skip_cont s = Some (utf8_text cps @ 0 # r)" by (rule next_code)
  from scan_text [OF Cons.prems(2,1), of r t] b Cons.IH [of "n + 1"] Cons.prems show ?case
    by (subst cspn_loop.simps) simp
qed

lemma spn_text:
  "text_ok ds \<Longrightarrow> text_ok cps \<Longrightarrow> spn_loop (utf8_text cps @ 0 # r) (utf8_text ds @ 0 # t) n =
    Some (n + length (takeWhile (\<lambda>x. x \<in> set (butlast ds)) cps))"
proof (induction cps arbitrary: n)
  case Nil
  then show ?case by (subst spn_loop.simps) simp
next
  case (Cons x cps)
  from Cons.prems(2) obtain b s where b: "utf8_text (x # cps) @ 0 # r = b # s" "b \<noteq> 0" by (rule next_code)
  have "drop (length (utf8bytes x)) (b # s) = utf8_text cps @ 0 # r"
    unfolding b(1) [symmetric] by simp
  with scan_text [OF Cons.prems(2,1), of r t] b Cons.IH [of "n + 1"] Cons.prems show ?case
    by (subst spn_loop.simps) simp
qed

lemma pbrk_text:
  "text_ok ds \<Longrightarrow> text_ok cps \<Longrightarrow> utf8pbrk (utf8_text cps @ 0 # r) (utf8_text ds @ 0 # t) =
    Some (case dropWhile (\<lambda>x. x \<notin> set ds) cps of [] \<Rightarrow> None | x # xs \<Rightarrow> Some (utf8_text (x # xs) @ 0 # r))"
proof (induction cps)
  case Nil
  then show ?case by (subst utf8pbrk.simps) simp
next
  case (Cons x cps)
  from Cons.prems(2) obtain b s where b: "utf8_text (x # cps) @ 0 # r = b # s" "b \<noteq> 0"
    "skip_cont s = Some (utf8_text cps @ 0 # r)" by (rule next_code)
  have pos: "0 < length (utf8bytes x)" using Cons.prems(2) by (auto elim!: bytes_shape)
  have "x \<in> set ds \<longleftrightarrow> x \<in> set (butlast ds) \<or> ds \<noteq> [] \<and> last ds = x"
    by (cases ds rule: rev_cases) auto
  with scan_text [OF Cons.prems(2,1), of r t] b Cons.IH Cons.prems pos show ?case
    by (subst utf8pbrk.simps) auto
qed

section \<open>Validation\<close>

lemma cont_form: "is_cont b \<Longrightarrow> b = 0x80 OR word_of_int (uint (0x3F AND b))"
  by (simp add: cont_bits) (simp add: byte_eq_iff bit_simps)

lemma lead_forms:
  "lead2 b \<Longrightarrow> b = 0xC0 OR word_of_int (uint (0x1F AND b))"
  "lead3 b \<Longrightarrow> b = 0xE0 OR word_of_int (uint (0x0F AND b))"
  "lead4 b \<Longrightarrow> b = 0xF0 OR word_of_int (uint (0x07 AND b))"
  by (simp_all add: lead2_bits lead3_bits lead4_bits) (simp_all add: byte_eq_iff bit_simps)

lemma low_bound:
  "0 \<le> uint (0x3F AND b) \<and> uint (0x3F AND (b :: byte)) < 64"
  "0 \<le> uint (0x1F AND b) \<and> uint (0x1F AND (b :: byte)) < 32"
  "0 \<le> uint (0x0F AND b) \<and> uint (0x0F AND (b :: byte)) < 16"
  "0 \<le> uint (0x07 AND b) \<and> uint (0x07 AND (b :: byte)) < 8"
proof -
  have m: "uint (mask n AND b) < 2 ^ n" for n
  proof -
    have "mask n AND b = take_bit n b" by (simp add: take_bit_eq_mask and.commute)
    then have "uint (mask n AND b) = take_bit n (uint b)" by (simp only: unsigned_take_bit_eq)
    then show ?thesis by simp
  qed
  show "0 \<le> uint (0x3F AND b) \<and> uint (0x3F AND b) < 64"
    "0 \<le> uint (0x1F AND b) \<and> uint (0x1F AND b) < 32"
    "0 \<le> uint (0x0F AND b) \<and> uint (0x0F AND b) < 16"
    "0 \<le> uint (0x07 AND b) \<and> uint (0x07 AND b) < 8"
    using m [of 6] m [of 5] m [of 4] m [of 3] by (simp_all add: mask_eq_exp_minus_1)
qed

lemma and_63: "(x :: int) AND 0x3F = x mod 64"
  using take_bit_eq_mask [of 6 x] by (simp add: mask_eq_exp_minus_1 take_bit_eq_mod)

lemma digits_div:
  fixes a b d e :: int
  shows "0 \<le> e \<Longrightarrow> e < 64 \<Longrightarrow> (d * 64 + e) div 64 = d \<and> (d * 64 + e) mod 64 = e"
    and "0 \<le> e \<Longrightarrow> e < 64 \<Longrightarrow> 0 \<le> d \<Longrightarrow> d < 64 \<Longrightarrow> (b * 4096 + d * 64 + e) div 4096 = b"
    and "0 \<le> e \<Longrightarrow> e < 64 \<Longrightarrow> 0 \<le> d \<Longrightarrow> d < 64 \<Longrightarrow> 0 \<le> b \<Longrightarrow> b < 64 \<Longrightarrow>
      (a * 262144 + b * 4096 + d * 64 + e) div 262144 = a"
proof -
  show "0 \<le> e \<Longrightarrow> e < 64 \<Longrightarrow> (d * 64 + e) div 64 = d \<and> (d * 64 + e) mod 64 = e" by simp
  show "0 \<le> e \<Longrightarrow> e < 64 \<Longrightarrow> 0 \<le> d \<Longrightarrow> d < 64 \<Longrightarrow> (b * 4096 + d * 64 + e) div 4096 = b"
    by (rule int_div_pos_eq [where r = "d * 64 + e"]) simp_all
  show "0 \<le> e \<Longrightarrow> e < 64 \<Longrightarrow> 0 \<le> d \<Longrightarrow> d < 64 \<Longrightarrow> 0 \<le> b \<Longrightarrow> b < 64 \<Longrightarrow>
      (a * 262144 + b * 4096 + d * 64 + e) div 262144 = a"
    by (rule int_div_pos_eq [where r = "b * 4096 + d * 64 + e"]) simp_all
qed

lemma pow_64: "(2 :: int) ^ 18 = 262144" "(2 :: int) ^ 12 = 4096" "(2 :: int) ^ 6 = 64"
  by simp_all

lemma digits_div_sum:
  fixes a b d e :: int
  shows "0 \<le> e \<Longrightarrow> e < 64 \<Longrightarrow> (a * 4096 + b * 64 + e) div 64 = a * 64 + b"
    and "0 \<le> e \<Longrightarrow> e < 64 \<Longrightarrow> (a * 4096 + b * 64 + e) mod 64 = e"
    and "0 \<le> e \<Longrightarrow> e < 64 \<Longrightarrow> (a * 262144 + b * 4096 + d * 64 + e) div 64 = (a * 64 + b) * 64 + d"
    and "0 \<le> e \<Longrightarrow> e < 64 \<Longrightarrow> (a * 262144 + b * 4096 + d * 64 + e) mod 64 = e"
    and "0 \<le> e \<Longrightarrow> e < 64 \<Longrightarrow> 0 \<le> d \<Longrightarrow> d < 64 \<Longrightarrow>
      (a * 262144 + b * 4096 + d * 64 + e) div 4096 = a * 64 + b"
  using digits_div(1) [of e "a * 64 + b"] digits_div(1) [of e "(a * 64 + b) * 64 + d"]
    digits_div(2) [of e d "a * 64 + b"]
  by (simp_all only: distrib_right mult.assoc) simp_all

lemma rebuild_2:
  assumes "lead2 s0" "is_cont s1" "0x1E AND s0 \<noteq> 0"
  shows "\<exists>c. code_ok c \<and> utf8bytes c = [s0, s1]"
proof -
  let ?a = "uint (0x1F AND s0)" and ?b = "uint (0x3F AND s1)"
  have "?a \<ge> 2"
  proof (rule ccontr)
    assume "\<not> ?a \<ge> 2"
    then have "\<not> bit ?a n" if "1 \<le> n" for n using high_bit [of ?a 1] low_bound(2) [of s0] that by auto
    from this [of 1] this [of 2] this [of 3] this [of 4] have "0x1E AND s0 = 0"
      by (simp add: byte_eq_iff bit_simps)
    with assms(3) show False by simp
  qed
  let ?c = "?a * 64 + ?b"
  note bounds = low_bound(2) [of s0] low_bound(1) [of s1]
  have c: "0x80 \<le> ?c" "?c < 0x800" using \<open>?a \<ge> 2\<close> bounds by linarith+
  have "?c div 64 = ?a" "?c mod 64 = ?b" using digits_div(1) [of ?b ?a] bounds by simp_all
  then have "utf8bytes ?c = [s0, s1]"
    using lead_forms(1) [OF assms(1)] cont_form [OF assms(2)] by (simp only: bytes_2 [OF c] drop_bit_eq_div and_63) simp
  moreover have "code_ok ?c" using c by (simp add: code_ok_def)
  ultimately show ?thesis by blast
qed

lemma rebuild_3:
  assumes "lead3 s0" "is_cont s1" "is_cont s2" "\<not> (0x0F AND s0 = 0 \<and> 0x20 AND s1 = 0)"
  shows "\<exists>c. code_ok c \<and> utf8bytes c = [s0, s1, s2]"
proof -
  let ?a = "uint (0x0F AND s0)" and ?b = "uint (0x3F AND s1)" and ?d = "uint (0x3F AND s2)"
  let ?c = "?a * 4096 + ?b * 64 + ?d"
  note bounds = low_bound(3) [of s0] low_bound(1) [of s1] low_bound(1) [of s2]
  have "?a \<ge> 1 \<or> ?b \<ge> 32"
  proof (rule ccontr)
    assume n: "\<not> (?a \<ge> 1 \<or> ?b \<ge> 32)"
    then have "?a = 0" using uint_ge_0 [of "0x0F AND s0"] by linarith
    moreover have "\<not> bit ?b 5" using n bounds high_bit [of ?b 5 5] by simp
    moreover have "0x20 AND s1 = 0" if "\<not> bit ?b 5" using that by (simp add: byte_eq_iff bit_simps)
    ultimately have "0x0F AND s0 = 0" "0x20 AND s1 = 0" by (simp_all add: unsigned_eq_0_iff)
    with assms(4) show False by simp
  qed
  then have c: "0x800 \<le> ?c" using bounds by (elim disjE conjE) linarith+
  have c': "?c < 0x10000" using bounds by linarith
  have "?c div 4096 = ?a" using digits_div(2) [of ?d ?b ?a] bounds by simp
  moreover have "?c div 64 = ?a * 64 + ?b" "?c mod 64 = ?d"
    using digits_div_sum(1,2) [of ?d ?a ?b] bounds by (simp_all only: simp_thms uint_ge_0)
  ultimately have "utf8bytes ?c = [s0, s1, s2]"
    using lead_forms(2) [OF assms(1)] cont_form [OF assms(2)] cont_form [OF assms(3)] bounds
    by (simp only: bytes_3 [OF c c'] drop_bit_eq_div and_63) simp
  moreover have "code_ok ?c" using c c' by (simp add: code_ok_def)
  ultimately show ?thesis by blast
qed

lemma rebuild_4:
  assumes "lead4 s0" "is_cont s1" "is_cont s2" "is_cont s3" "\<not> (0x07 AND s0 = 0 \<and> 0x30 AND s1 = 0)"
  shows "\<exists>c. code_ok c \<and> utf8bytes c = [s0, s1, s2, s3]"
proof -
  let ?a = "uint (0x07 AND s0)" and ?b = "uint (0x3F AND s1)" and ?d = "uint (0x3F AND s2)"
    and ?e = "uint (0x3F AND s3)"
  let ?c = "?a * 262144 + ?b * 4096 + ?d * 64 + ?e"
  note bounds = low_bound(4) [of s0] low_bound(1) [of s1] low_bound(1) [of s2] low_bound(1) [of s3]
  have "?a \<ge> 1 \<or> ?b \<ge> 16"
  proof (rule ccontr)
    assume n: "\<not> (?a \<ge> 1 \<or> ?b \<ge> 16)"
    then have "?a = 0" using uint_ge_0 [of "0x07 AND s0"] by linarith
    moreover have "\<not> bit ?b 4" "\<not> bit ?b 5" using n bounds high_bit [of ?b 4 4] high_bit [of ?b 4 5] by simp_all
    moreover have "0x30 AND s1 = 0" if "\<not> bit ?b 4" "\<not> bit ?b 5" using that by (simp add: byte_eq_iff bit_simps)
    ultimately have "0x07 AND s0 = 0" "0x30 AND s1 = 0" by (simp_all add: unsigned_eq_0_iff)
    with assms(5) show False by simp
  qed
  then have c: "0x10000 \<le> ?c" using bounds by (elim disjE conjE) linarith+
  have c': "?c < 0x200000" using bounds by linarith
  have q: "?c div 2 ^ 18 = ?a" "?c div 2 ^ 12 = ?a * 64 + ?b" "?c div 2 ^ 6 = (?a * 64 + ?b) * 64 + ?d"
      "?c mod 64 = ?e" "(?a * 64 + ?b) mod 64 = ?b" "((?a * 64 + ?b) * 64 + ?d) mod 64 = ?d"
    using digits_div(3) [of ?e ?d ?b ?a] digits_div_sum(3,4) [of ?e ?a ?b ?d] digits_div_sum(5) [of ?e ?d ?a ?b]
      digits_div(1) [of ?b ?a] digits_div(1) [of ?d "?a * 64 + ?b"] bounds
    by (simp_all only: simp_thms uint_ge_0 pow_64)
  have "utf8bytes ?c = [s0, s1, s2, s3]"
    unfolding bytes_4 [OF c] drop_bit_eq_div and_63 q
    using lead_forms(3) [OF assms(1)] cont_form [OF assms(2)] cont_form [OF assms(3)] cont_form [OF assms(4)] by simp
  moreover have "code_ok ?c" using c c' by (simp add: code_ok_def)
  ultimately show ?thesis by blast
qed

text \<open>Every text is valid: the next byte after a code point is never a continuation byte.\<close>

lemma next_not_cont: "text_ok cps \<Longrightarrow> \<exists>b t. utf8_text cps @ 0 # r = b # t \<and> \<not> is_cont b"
  using text_start [of cps r] by blast

lemma overlong_2: "0x80 \<le> c \<Longrightarrow> c < 0x800 \<Longrightarrow> 0x1E AND (0xC0 OR word_of_int (drop_bit 6 c)) \<noteq> (0 :: byte)"
proof
  assume c: "0x80 \<le> c" "c < 0x800" and z: "0x1E AND (0xC0 OR word_of_int (drop_bit 6 c)) = (0 :: byte)"
  let ?x = "drop_bit 6 c"
  have x: "2 \<le> ?x" "?x < 32" using c zdiv_mono1 [of "0x80" c 64] drop_bounds(1) [of c] by (simp_all add: drop_bit_eq_div)
  have "\<not> bit ?x n" if "1 \<le> n" for n
  proof (cases "n < 5")
    case True
    with that have "n = 1 \<or> n = 2 \<or> n = 3 \<or> n = 4" by auto
    with z show ?thesis by (auto simp: byte_eq_iff bit_simps)
  next
    case False
    with high_bit [of ?x 5 n] x c show ?thesis by simp
  qed
  then have "\<not> bit (drop_bit 1 ?x) n" for n by (simp only: bit_drop_bit_eq comp_def) simp
  then have "drop_bit 1 ?x = 0" by (intro bit_eqI) simp
  with x show False by (simp add: drop_bit_eq_div)
qed

lemma overlong_3:
  assumes "0x800 \<le> c" "c < 0x10000"
  shows "\<not> (0x0F AND (0xE0 OR word_of_int (drop_bit 12 c)) = (0 :: byte) \<and>
    0x20 AND (0x80 OR word_of_int (drop_bit 6 c AND 0x3F)) = (0 :: byte))"
proof
  assume z: "0x0F AND (0xE0 OR word_of_int (drop_bit 12 c)) = (0 :: byte) \<and>
    0x20 AND (0x80 OR word_of_int (drop_bit 6 c AND 0x3F)) = (0 :: byte)"
  have "uint (0x0F AND (0xE0 OR word_of_int (drop_bit 12 c)) :: byte) = drop_bit 12 c"
    using drop_bounds(2) [of c] assms by (intro head_bits(2)) auto
  with z have "drop_bit 12 c = 0" by simp
  then have c: "c < 2 ^ 12" using assms zdiv_mono1 [of "0x1000" c 4096] by (simp add: drop_bit_eq_div)
  from z have "\<not> bit c 11" by (auto simp: byte_eq_iff bit_simps)
  then have "\<not> bit c n" if "11 \<le> n" for n
    using that assms(1) c high_bit [of c 12 n] by (cases "n = 11") auto
  then have "drop_bit 11 c = 0" by (intro bit_eqI) (simp add: bit_drop_bit_eq)
  with assms zdiv_mono1 [of "0x800" c 2048] show False by (simp add: drop_bit_eq_div)
qed

lemma overlong_4:
  assumes "0x10000 \<le> c" "c < 0x200000"
  shows "\<not> (0x07 AND (0xF0 OR word_of_int (drop_bit 18 c)) = (0 :: byte) \<and>
    0x30 AND (0x80 OR word_of_int (drop_bit 12 c AND 0x3F)) = (0 :: byte))"
proof
  assume z: "0x07 AND (0xF0 OR word_of_int (drop_bit 18 c)) = (0 :: byte) \<and>
    0x30 AND (0x80 OR word_of_int (drop_bit 12 c AND 0x3F)) = (0 :: byte)"
  have "uint (0x07 AND (0xF0 OR word_of_int (drop_bit 18 c)) :: byte) = drop_bit 18 c"
    using drop_bounds(3) [of c] assms by (intro head_bits(3)) auto
  with z have "drop_bit 18 c = 0" by simp
  then have c: "c < 2 ^ 18" using assms zdiv_mono1 [of "0x40000" c 262144] by (simp add: drop_bit_eq_div)
  from z have "\<not> bit c 16" "\<not> bit c 17" by (auto simp: byte_eq_iff bit_simps)
  then have "\<not> bit c n" if "16 \<le> n" for n
    using that assms(1) c high_bit [of c 18 n] by (cases "n = 16 \<or> n = 17") auto
  then have "drop_bit 16 c = 0" by (intro bit_eqI) (simp add: bit_drop_bit_eq)
  with assms zdiv_mono1 [of "0x10000" c 65536] show False by (simp add: drop_bit_eq_div)
qed

lemma idx_Cons_Suc: "idx (b # s) (Suc n) = idx s n"
  by (simp add: idx_def)

lemma valid_forms:
  "s0 \<noteq> 0 \<Longrightarrow> \<not> bit s0 7 \<Longrightarrow> utf8valid (s0 # s) = utf8valid s"
  "lead2 s0 \<Longrightarrow> is_cont s1 \<Longrightarrow> \<not> is_cont b \<Longrightarrow> 0x1E AND s0 \<noteq> 0 \<Longrightarrow>
     utf8valid (s0 # s1 # b # t) = utf8valid (b # t)"
  "lead3 s0 \<Longrightarrow> is_cont s1 \<Longrightarrow> is_cont s2 \<Longrightarrow> \<not> is_cont b \<Longrightarrow> \<not> (0x0F AND s0 = 0 \<and> 0x20 AND s1 = 0) \<Longrightarrow>
     utf8valid (s0 # s1 # s2 # b # t) = utf8valid (b # t)"
  "lead4 s0 \<Longrightarrow> is_cont s1 \<Longrightarrow> is_cont s2 \<Longrightarrow> is_cont s3 \<Longrightarrow> \<not> is_cont b \<Longrightarrow>
     \<not> (0x07 AND s0 = 0 \<and> 0x30 AND s1 = 0) \<Longrightarrow> utf8valid (s0 # s1 # s2 # s3 # b # t) = utf8valid (b # t)"
proof -
  assume "s0 \<noteq> 0" "\<not> bit s0 7"
  moreover from this have "0x80 AND s0 = 0" by (simp add: byte_eq_iff bit_simps)
  ultimately show "utf8valid (s0 # s) = utf8valid s"
    using lead_others(4) [of s0] by (subst utf8valid.simps) simp
next
  assume "lead2 s0" "is_cont s1" "\<not> is_cont b" "0x1E AND s0 \<noteq> 0"
  then show "utf8valid (s0 # s1 # b # t) = utf8valid (b # t)"
    using lead_others(1) [of s0] by (subst utf8valid.simps) (simp add: idx_def)
next
  assume "lead3 s0" "is_cont s1" "is_cont s2" "\<not> is_cont b" "\<not> (0x0F AND s0 = 0 \<and> 0x20 AND s1 = 0)"
  then show "utf8valid (s0 # s1 # s2 # b # t) = utf8valid (b # t)"
    using lead_others(2) [of s0]
    by (subst utf8valid.simps) (simp add: idx_Cons_Suc numeral_eq_Suc, blast)
next
  assume "lead4 s0" "is_cont s1" "is_cont s2" "is_cont s3" "\<not> is_cont b" "\<not> (0x07 AND s0 = 0 \<and> 0x30 AND s1 = 0)"
  then show "utf8valid (s0 # s1 # s2 # s3 # b # t) = utf8valid (b # t)"
    using lead_others(3) [of s0]
    by (subst utf8valid.simps) (simp add: idx_Cons_Suc numeral_eq_Suc, blast)
qed

lemma valid_step:
  assumes "code_ok c" "\<exists>b t. s = b # t \<and> \<not> is_cont b"
  shows "utf8valid (utf8bytes c @ s) = utf8valid s"
proof -
  obtain b t where s: "s = b # t" "\<not> is_cont b" using assms(2) by blast
  from assms(1) show ?thesis
  proof (cases rule: code_cases)
    case one
    then show ?thesis using valid_forms(1) ascii_byte [OF one] by (simp add: bytes_1)
  next
    case two
    then have "lead2 (0xC0 OR word_of_int (drop_bit 6 c))" using head_lead2 drop_bounds(1) by simp
    from valid_forms(2) [OF this tail_cont s(2) overlong_2 [OF two]] show ?thesis by (simp only: bytes_2 [OF two] s append.simps)
  next
    case three
    then have "lead3 (0xE0 OR word_of_int (drop_bit 12 c))" using head_lead3 drop_bounds(2) by simp
    from valid_forms(3) [OF this tail_cont tail_cont s(2) overlong_3 [OF three]] show ?thesis
      by (simp only: bytes_3 [OF three] s append.simps)
  next
    case four
    then have "lead4 (0xF0 OR word_of_int (drop_bit 18 c))" using head_lead4 drop_bounds(3) by simp
    from valid_forms(4) [OF this tail_cont tail_cont tail_cont s(2) overlong_4 [OF four]] show ?thesis
      by (simp only: bytes_4 [OF four(1)] s append.simps)
  qed
qed

lemma valid_text: "text_ok cps \<Longrightarrow> utf8valid (utf8_text cps @ 0 # r) = Some None"
proof (induction cps)
  case Nil
  then show ?case by (subst utf8valid.simps) simp
next
  case (Cons c cps)
  with valid_step [of c, OF _ next_not_cont [of cps r]] show ?case by simp
qed

text \<open>And every string that is accepted is a text: one turn of the loop finds one code point.\<close>

lemma all_cont_simps:
  "all_cont s [1] = map_option is_cont (idx s 1)"
  "all_cont s [1, 2] = Some True \<longleftrightarrow> (\<exists>a b. idx s 1 = Some a \<and> idx s 2 = Some b \<and> is_cont a \<and> is_cont b)"
  "all_cont s [1, 2, 3] = Some True \<longleftrightarrow> (\<exists>a b d. idx s 1 = Some a \<and> idx s 2 = Some b \<and> idx s 3 = Some d
     \<and> is_cont a \<and> is_cont b \<and> is_cont d)"
  by (cases "idx s 1"; auto split: if_splits)+

lemma idx_drop: "idx s n = Some a \<Longrightarrow> drop n s = a # drop (Suc n) s"
  by (auto simp: idx_def Cons_nth_drop_Suc split: if_splits)

lemma idx_take_2: "idx s 0 = Some a \<Longrightarrow> idx s 1 = Some b \<Longrightarrow> s = [a, b] @ drop 2 s"
  using idx_drop [of s 0 a] idx_drop [of s 1 b] by (simp add: numeral_eq_Suc)

lemma idx_take_3:
  "idx s 0 = Some a \<Longrightarrow> idx s 1 = Some b \<Longrightarrow> idx s 2 = Some d \<Longrightarrow> s = [a, b, d] @ drop 3 s"
  using idx_take_2 [of s a b] idx_drop [of s 2 d] by (simp add: numeral_eq_Suc)

lemma idx_take_4:
  "idx s 0 = Some a \<Longrightarrow> idx s 1 = Some b \<Longrightarrow> idx s 2 = Some d \<Longrightarrow> idx s 3 = Some e \<Longrightarrow>
   s = [a, b, d, e] @ drop 4 s"
  using idx_take_3 [of s a b d] idx_drop [of s 3 e] by (simp add: numeral_eq_Suc)

lemma valid_turn:
  assumes "utf8valid s = Some None"
  obtains (stop) r where "s = 0 # r" | (next_code) c t where "code_ok c" "s = utf8bytes c @ t" "utf8valid t = Some None"
proof -
  obtain s0 where s0: "idx s 0 = Some s0" using assms by (subst (asm) utf8valid.simps) auto
  consider "s0 = 0" | "s0 \<noteq> 0" "lead4 s0" | "s0 \<noteq> 0" "\<not> lead4 s0" "lead3 s0"
    | "s0 \<noteq> 0" "\<not> lead4 s0" "\<not> lead3 s0" "lead2 s0" | "s0 \<noteq> 0" "\<not> lead4 s0" "\<not> lead3 s0" "\<not> lead2 s0" by blast
  then show thesis
  proof cases
    case 1
    with s0 stop show ?thesis by (auto simp: idx_0_iff)
  next
    case 2
    with assms s0 obtain s1 where "all_cont s [1, 2, 3] = Some True" "idx s 1 = Some s1"
        "\<not> (0x07 AND s0 = 0 \<and> 0x30 AND s1 = 0)" and t: "utf8valid (drop 4 s) = Some None"
      by (subst (asm) utf8valid.simps) (auto split: if_splits)
    then obtain s2 s3 where i: "idx s 1 = Some s1" "idx s 2 = Some s2" "idx s 3 = Some s3" and c: "is_cont s1" "is_cont s2" "is_cont s3"
      unfolding all_cont_simps by auto
    obtain c where "code_ok c" "utf8bytes c = [s0, s1, s2, s3]"
      using rebuild_4 [OF 2(2) c] \<open>\<not> (0x07 AND s0 = 0 \<and> 0x30 AND s1 = 0)\<close> by blast
    with idx_take_4 [OF s0 i] next_code t show ?thesis by metis
  next
    case 3
    with assms s0 obtain s1 where "all_cont s [1, 2] = Some True" "idx s 1 = Some s1"
        "\<not> (0x0F AND s0 = 0 \<and> 0x20 AND s1 = 0)" and t: "utf8valid (drop 3 s) = Some None"
      by (subst (asm) utf8valid.simps) (auto split: if_splits)
    then obtain s2 where i: "idx s 1 = Some s1" "idx s 2 = Some s2" and c: "is_cont s1" "is_cont s2"
      unfolding all_cont_simps by auto
    obtain c where "code_ok c" "utf8bytes c = [s0, s1, s2]"
      using rebuild_3 [OF 3(3) c] \<open>\<not> (0x0F AND s0 = 0 \<and> 0x20 AND s1 = 0)\<close> by blast
    with idx_take_3 [OF s0 i] next_code t show ?thesis by metis
  next
    case 4
    with assms s0 obtain s1 where i: "idx s 1 = Some s1" and c: "is_cont s1"
        and h: "0x1E AND s0 \<noteq> 0" and t: "utf8valid (drop 2 s) = Some None"
      by (subst (asm) utf8valid.simps) (auto simp: all_cont_simps(1) split: if_splits)
    obtain c where "code_ok c" "utf8bytes c = [s0, s1]" using rebuild_2 [OF 4(4) c h] by blast
    with idx_take_2 [OF s0 i] next_code t show ?thesis by metis
  next
    case 5
    with assms s0 have a: "0x80 AND s0 = 0" and t: "utf8valid (drop 1 s) = Some None"
      by (subst (asm) utf8valid.simps; auto split: if_splits)+
    have "uint s0 < 2 ^ 7"
    proof -
      have "s0 = take_bit 7 s0" using a by (simp add: byte_eq_iff bit_simps)
      then have "uint s0 = take_bit 7 (uint s0)" by (metis unsigned_take_bit_eq)
      then show ?thesis by (metis take_bit_int_less_exp)
    qed
    moreover have "0 < uint s0" using 5(1) by (metis uint_0_iff uint_ge_0 order_le_less)
    ultimately have "code_ok (uint s0)" "utf8bytes (uint s0) = [s0]" by (simp_all add: code_ok_def bytes_1)
    moreover have "s = [s0] @ drop 1 s" using s0 by (auto simp: idx_0_iff)
    ultimately show ?thesis using next_code t by metis
  qed
qed

lemma valid_is_text: "utf8valid s = Some None \<Longrightarrow> \<exists>cps r. text_ok cps \<and> s = utf8_text cps @ 0 # r"
proof (induction "length s" arbitrary: s rule: less_induct)
  case less
  from less.prems show ?case
  proof (cases rule: valid_turn)
    case (stop r)
    then have "text_ok [] \<and> s = utf8_text [] @ 0 # r" by simp
    then show ?thesis by blast
  next
    case (next_code c t)
    then have "length t < length s" by (auto elim!: bytes_shape)
    with less.hyps next_code obtain cps r where "text_ok cps" "t = utf8_text cps @ 0 # r" by blast
    with next_code show ?thesis by (intro exI [of _ "c # cps"]) simp
  qed
qed

section \<open>Case\<close>

text \<open>
  A code point and its counterpart in the other case are encoded with the same number of bytes: both
  are below 0x80 or both are between 0x80 and 0x7FF.
\<close>

definition same_size :: "int \<Rightarrow> int \<Rightarrow> bool" where
  "same_size c d \<longleftrightarrow> d = c \<or> (0x41 \<le> c \<and> c < 0x7B \<and> 0x41 \<le> d \<and> d < 0x7B) \<or>
     (0xC0 \<le> c \<and> c < 0x400 \<and> 0xC0 \<le> d \<and> d < 0x400)"

lemma switch_same:
  assumes "list_all (\<lambda>(c, d). same_size c d) cs"
  shows "same_size c (switch_on cs c)"
  using assms by (cases "map_of cs c") (auto simp: switch_on_def same_size_def list_all_iff dest!: map_of_SomeD)

lemma switches_same:
  "list_all (\<lambda>(c, d). same_size c d) lower_switch" "list_all (\<lambda>(c, d). same_size c d) upper_switch"
  by (simp_all add: lower_switch_def upper_switch_def same_size_def)

lemma last_bit:
  "(c :: int) OR 1 = (if even c then c + 1 else c)" "(c :: int) AND -2 = (if even c then c else c - 1)"
proof -
  show "(c :: int) OR 1 = (if even c then c + 1 else c)" by (simp add: or_one_eq)
  have "(c AND 1) + (c AND NOT 1) = (c AND 1) OR (c AND NOT 1)" by (rule disjunctive_add) (auto simp: bit_simps)
  also have "\<dots> = c" by (auto simp: bit_eq_iff bit_simps)
  finally show "(c :: int) AND -2 = (if even c then c else c - 1)"
    by (auto simp: and_one_eq mod_2_eq_odd)
qed

lemma lower_same: "same_size c (utf8lwrcodepoint c)"
proof -
  consider (add) "in_ranges add32_lower c" | (evens) "\<not> in_ranges add32_lower c" "in_ranges even_pairs c"
    | (odds) "\<not> in_ranges add32_lower c" "\<not> in_ranges even_pairs c" "in_ranges odd_pairs c"
    | (others) "\<not> in_ranges add32_lower c" "\<not> in_ranges even_pairs c" "\<not> in_ranges odd_pairs c" by blast
  then show ?thesis
  proof cases
    case add
    then show ?thesis by (auto simp: utf8lwrcodepoint_def in_ranges_def add32_lower_def same_size_def)
  next
    case evens
    then have "0x100 \<le> c" "c < 0x3F0" by (auto simp: in_ranges_def even_pairs_def)
    with evens show ?thesis by (auto simp: utf8lwrcodepoint_def same_size_def last_bit)
  next
    case odds
    then have "0x100 \<le> c" "c < 0x3F0" by (auto simp: in_ranges_def odd_pairs_def)
    with odds show ?thesis by (auto simp: utf8lwrcodepoint_def same_size_def last_bit)
  next
    case others
    with switch_same [OF switches_same(1)] show ?thesis by (simp add: utf8lwrcodepoint_def)
  qed
qed

lemma upper_same: "same_size c (utf8uprcodepoint c)"
proof -
  consider (sub) "in_ranges sub32_upper c" | (evens) "\<not> in_ranges sub32_upper c" "in_ranges even_pairs c"
    | (odds) "\<not> in_ranges sub32_upper c" "\<not> in_ranges even_pairs c" "in_ranges odd_pairs c"
    | (others) "\<not> in_ranges sub32_upper c" "\<not> in_ranges even_pairs c" "\<not> in_ranges odd_pairs c" by blast
  then show ?thesis
  proof cases
    case sub
    then show ?thesis by (auto simp: utf8uprcodepoint_def in_ranges_def sub32_upper_def same_size_def)
  next
    case evens
    then have "0x100 \<le> c" "c < 0x3F0" by (auto simp: in_ranges_def even_pairs_def)
    with evens show ?thesis by (auto simp: utf8uprcodepoint_def same_size_def last_bit)
  next
    case odds
    then have "0x100 \<le> c" "c < 0x3F0" by (auto simp: in_ranges_def odd_pairs_def)
    with odds show ?thesis by (auto simp: utf8uprcodepoint_def same_size_def last_bit)
  next
    case others
    with switch_same [OF switches_same(2)] show ?thesis by (simp add: utf8uprcodepoint_def)
  qed
qed

lemma same_size_bytes:
  assumes "same_size c d" "code_ok c"
  shows "code_ok d" "utf8codepointsize d = utf8codepointsize c"
  using assms by (auto simp: same_size_def code_ok_def utf8codepointsize_def size_masks)

lemma recode_text:
  assumes "\<And>c. same_size c (f c)"
  shows "text_ok cps \<Longrightarrow> recode f (utf8_text cps @ 0 # r) = Some (utf8_text (map f cps) @ 0 # r)"
proof (induction cps)
  case Nil
  then show ?case by (subst recode.simps) (simp add: codepoint_end)
next
  case (Cons c cps)
  then have c: "code_ok c" "code_ok (f c)" "utf8codepointsize (f c) = utf8codepointsize c"
    using same_size_bytes [OF assms] by auto
  have n: "c \<noteq> 0" "0 \<le> c" "0 \<le> f c" using c by (auto simp: code_ok_def)
  let ?s = "utf8_text cps @ 0 # r"
  have b: "length (utf8bytes (f c)) = length (utf8bytes c)" using bytes_size n c(3) by simp
  have w: "utf8catcodepoint (utf8bytes c @ ?s) (f c) (utf8codepointsize (f c)) = Some (Some ?s, utf8bytes (f c) @ ?s)"
    using b bytes_size [OF n(3)] by (simp add: utf8catcodepoint_def Let_def)
  have "recode f (utf8bytes c @ ?s) = Some (utf8bytes (f c) @ utf8_text (map f cps) @ 0 # r)"
    using Cons w b n(1) codepoint_bytes [OF c(1)] by (subst recode.simps) (auto simp: Let_def)
  then show ?case by simp
qed

lemma lwr_text: "text_ok cps \<Longrightarrow> utf8lwr (utf8_text cps @ 0 # r) = Some (utf8_text (map utf8lwrcodepoint cps) @ 0 # r)"
  unfolding utf8lwr_def by (rule recode_text) (rule lower_same)

lemma upr_text: "text_ok cps \<Longrightarrow> utf8upr (utf8_text cps @ 0 # r) = Some (utf8_text (map utf8uprcodepoint cps) @ 0 # r)"
  unfolding utf8upr_def by (rule recode_text) (rule upper_same)

lemma recode_ok: "(\<And>c. same_size c (f c)) \<Longrightarrow> text_ok cps \<Longrightarrow> text_ok (map f cps) \<and>
    length (utf8_text (map f cps)) = length (utf8_text cps)"
proof (induction cps)
  case (Cons c cps)
  then have "code_ok (f c)" "utf8codepointsize (f c) = utf8codepointsize c" "0 \<le> c" "0 \<le> f c"
    using same_size_bytes [of c "f c"] by (auto simp: code_ok_def)
  with Cons bytes_size show ?case by simp
qed simp


section \<open>Order\<close>

text \<open>The bytes of a code point as numbers.\<close>

lemma tail_value: "uint (0x80 OR word_of_int (x AND 0x3F) :: byte) = 0x80 + x mod 64"
proof -
  have "uint (word_of_int (x AND 0x3F) :: byte) = x mod 64" by (simp add: uint_word_of_int and_63)
  moreover have "push_bit 6 2 OR (x mod 64) = 0x80 + x mod 64" using or_shifted [of "x mod 64" 6 2] by simp
  ultimately show ?thesis by (simp add: unsigned_or_eq)
qed

lemma head_value:
  "0 \<le> x \<Longrightarrow> x < 0x20 \<Longrightarrow> uint (0xC0 OR word_of_int x :: byte) = 0xC0 + x"
  "0 \<le> x \<Longrightarrow> x < 0x10 \<Longrightarrow> uint (0xE0 OR word_of_int x :: byte) = 0xE0 + x"
  "0 \<le> x \<Longrightarrow> x < 0x08 \<Longrightarrow> uint (0xF0 OR word_of_int x :: byte) = 0xF0 + x"
proof -
  have w: "uint (word_of_int x :: byte) = x" if "0 \<le> x" "x < 0x20" using that by (simp add: uint_word_of_int)
  show "0 \<le> x \<Longrightarrow> x < 0x20 \<Longrightarrow> uint (0xC0 OR word_of_int x :: byte) = 0xC0 + x"
    using or_shifted [of x 5 6] w by (simp add: unsigned_or_eq)
  show "0 \<le> x \<Longrightarrow> x < 0x10 \<Longrightarrow> uint (0xE0 OR word_of_int x :: byte) = 0xE0 + x"
    using or_shifted [of x 4 14] w by (simp add: unsigned_or_eq)
  show "0 \<le> x \<Longrightarrow> x < 0x08 \<Longrightarrow> uint (0xF0 OR word_of_int x :: byte) = 0xF0 + x"
    using or_shifted [of x 3 30] w by (simp add: unsigned_or_eq)
qed

definition byte_values :: "int \<Rightarrow> int list" where
  "byte_values c =
     (if c < 0x80 then [c]
      else if c < 0x800 then [0xC0 + c div 64, 0x80 + c mod 64]
      else if c < 0x10000 then [0xE0 + c div 64 div 64, 0x80 + c div 64 mod 64, 0x80 + c mod 64]
      else [0xF0 + c div 64 div 64 div 64, 0x80 + c div 64 div 64 mod 64, 0x80 + c div 64 mod 64, 0x80 + c mod 64])"

lemma bytes_values:
  assumes "code_ok c"
  shows "map uint (utf8bytes c) = byte_values c"
  using assms
proof (cases rule: code_cases)
  case one
  then show ?thesis by (simp add: bytes_1 byte_values_def uint_word_of_int)
next
  case two
  then show ?thesis using head_value(1) [of "drop_bit 6 c"] drop_bounds(1) [of c]
    by (simp add: bytes_2 byte_values_def tail_value) (simp add: drop_bit_eq_div)
next
  case three
  then show ?thesis using head_value(2) [of "drop_bit 12 c"] drop_bounds(2) [of c]
    by (simp add: bytes_3 byte_values_def tail_value) (simp add: drop_bit_eq_div digits_64)
next
  case four
  then show ?thesis using head_value(3) [of "drop_bit 18 c"] drop_bounds(3) [of c]
    by (simp add: bytes_4 byte_values_def tail_value) (simp add: drop_bit_eq_div digits_64)
qed

lemma digit_less: "(c :: int) < d \<Longrightarrow> c div 64 < d div 64 \<or> c div 64 = d div 64 \<and> c mod 64 < d mod 64"
proof -
  assume "c < d"
  then have "c div 64 \<le> d div 64" by (intro zdiv_mono1) simp_all
  moreover have "c mod 64 < d mod 64" if "c div 64 = d div 64"
    using \<open>c < d\<close> that by (simp add: minus_mult_div_eq_mod [symmetric])
  ultimately show ?thesis by (cases "c div 64 = d div 64") auto
qed

lemma less_by_digits:
  fixes x y u v w z h k :: int
  shows "h < k \<Longrightarrow> h # xs < k # ys"
    and "x < y \<or> x = y \<and> u < v \<Longrightarrow> [m + x, n + u] < [m + y, n + v]"
    and "x < y \<or> x = y \<and> (u < v \<or> u = v \<and> w < z) \<Longrightarrow> [m + x, n + u, n + w] < [m + y, n + v, n + z]"
    and "x < y \<or> x = y \<and> (u < v \<or> u = v \<and> (w < z \<or> w = z \<and> h < k)) \<Longrightarrow>
      [m + x, n + u, n + w, n + h] < [m + y, n + v, n + z, n + k]"
  by auto

lemma values_forms:
  "c < 0x80 \<Longrightarrow> byte_values c = [c]"
  "0x80 \<le> c \<Longrightarrow> c < 0x800 \<Longrightarrow> byte_values c = [0xC0 + c div 64, 0x80 + c mod 64]"
  "0x800 \<le> c \<Longrightarrow> c < 0x10000 \<Longrightarrow>
     byte_values c = [0xE0 + c div 64 div 64, 0x80 + c div 64 mod 64, 0x80 + c mod 64]"
  "0x10000 \<le> c \<Longrightarrow> byte_values c =
     [0xF0 + c div 64 div 64 div 64, 0x80 + c div 64 div 64 mod 64, 0x80 + c div 64 mod 64, 0x80 + c mod 64]"
  by (simp_all add: byte_values_def)

lemma values_head:
  assumes "code_ok c"
  obtains h t where "byte_values c = h # t"
    "c < 0x80 \<longrightarrow> h < 0x80" "0x80 \<le> c \<longrightarrow> 0xC0 \<le> h" "c < 0x800 \<longrightarrow> h < 0xE0" "0x800 \<le> c \<longrightarrow> 0xE0 \<le> h"
    "c < 0x10000 \<longrightarrow> h < 0xF0" "0x10000 \<le> c \<longrightarrow> 0xF0 \<le> h"
  using assms
proof (cases rule: code_cases)
  case one
  then show ?thesis using that [of c "[]"] by (simp add: values_forms(1))
next
  case two
  obtain x where x: "x = c div 64" by blast
  then have "drop_bit 6 c = x" by (simp add: drop_bit_eq_div)
  then have r: "0 \<le> x" "x < 0x20" using drop_bounds(1) [of c] two by simp_all
  have b: "byte_values c = (0xC0 + x) # [0x80 + c mod 64]" using values_forms(2) [OF two] x by simp
  show ?thesis by (rule that [OF b]) (use r two in simp_all)
next
  case three
  obtain x where x: "x = c div 64 div 64" by blast
  then have "drop_bit 12 c = x" by (simp add: drop_bit_eq_div digits_64(1))
  then have r: "0 \<le> x" "x < 0x10" using drop_bounds(2) [of c] three by simp_all
  have b: "byte_values c = (0xE0 + x) # [0x80 + c div 64 mod 64, 0x80 + c mod 64]"
    using values_forms(3) [OF three] x by (simp only:)
  show ?thesis by (rule that [OF b]) (use r three in simp_all)
next
  case four
  obtain x where x: "x = c div 64 div 64 div 64" by blast
  then have "drop_bit 18 c = x" by (simp add: drop_bit_eq_div digits_64(2))
  then have r: "0 \<le> x" using drop_bounds(3) [of c] four by simp
  have b: "byte_values c = (0xF0 + x) # [0x80 + c div 64 div 64 mod 64, 0x80 + c div 64 mod 64, 0x80 + c mod 64]"
    using values_forms(4) [OF four(1)] x by (simp only:)
  show ?thesis by (rule that [OF b]) (use r four(1) in simp_all)
qed

lemma values_less:
  assumes "code_ok c" "code_ok d" "c < d"
  shows "byte_values c < byte_values d"
proof -
  obtain h t where h: "byte_values c = h # t"
    "c < 0x80 \<longrightarrow> h < 0x80" "c < 0x800 \<longrightarrow> h < 0xE0" "c < 0x10000 \<longrightarrow> h < 0xF0" using values_head [OF assms(1)] .
  obtain k u where k: "byte_values d = k # u"
    "0x80 \<le> d \<longrightarrow> 0xC0 \<le> k" "0x800 \<le> d \<longrightarrow> 0xE0 \<le> k" "0x10000 \<le> d \<longrightarrow> 0xF0 \<le> k" using values_head [OF assms(2)] .
  note l = digit_less [OF assms(3)] digit_less [of "c div 64" "d div 64"] digit_less [of "c div 64 div 64" "d div 64 div 64"]
  consider (apart) "c < 0x80 \<and> 0x80 \<le> d \<or> c < 0x800 \<and> 0x800 \<le> d \<or> c < 0x10000 \<and> 0x10000 \<le> d"
    | (one) "d < 0x80" | (two) "0x80 \<le> c" "d < 0x800" | (three) "0x800 \<le> c" "d < 0x10000" | (four) "0x10000 \<le> c"
    using assms(3) by linarith
  then show ?thesis
  proof cases
    case apart
    then have "h < k" using h(2-4) k(2-4) by (elim disjE conjE) simp_all
    then show ?thesis unfolding h(1) k(1) by (rule less_by_digits(1))
  next
    case one
    with assms(3) show ?thesis by (simp add: values_forms(1))
  next
    case two
    with assms(3) have "byte_values c = [0xC0 + c div 64, 0x80 + c mod 64]" "byte_values d = [0xC0 + d div 64, 0x80 + d mod 64]"
      by (simp_all add: values_forms(2))
    with l(1) less_by_digits(2) show ?thesis by metis
  next
    case three
    with assms(3) have v: "byte_values c = [0xE0 + c div 64 div 64, 0x80 + c div 64 mod 64, 0x80 + c mod 64]"
      "byte_values d = [0xE0 + d div 64 div 64, 0x80 + d div 64 mod 64, 0x80 + d mod 64]"
      by (simp_all add: values_forms(3))
    show ?thesis unfolding v by (rule less_by_digits(3)) (use l(1,2) in metis)
  next
    case four
    with assms(3) have v: "byte_values c = [0xF0 + c div 64 div 64 div 64, 0x80 + c div 64 div 64 mod 64, 0x80 + c div 64 mod 64, 0x80 + c mod 64]"
      "byte_values d = [0xF0 + d div 64 div 64 div 64, 0x80 + d div 64 div 64 mod 64, 0x80 + d div 64 mod 64, 0x80 + d mod 64]"
      by (simp_all add: values_forms(4))
    show ?thesis unfolding v by (rule less_by_digits(4)) (use l in metis)
  qed
qed

text \<open>
  \<open>utf8cmp\<close> compares bytes, and by \<open>values_less\<close> the order of the bytes is the order of
  the code points.
\<close>

lemma cmp_same: "0 \<notin> set xs \<Longrightarrow> utf8cmp (xs @ s) (xs @ t) = utf8cmp s t"
  by (induction xs) auto

lemma cmp_bytes:
  "0 \<notin> set xs \<Longrightarrow> 0 \<notin> set ys \<Longrightarrow> utf8cmp (xs @ 0 # s) (ys @ 0 # t) =
    Some (if xs = ys then 0 else if map uint xs < map uint ys then -1 else 1)"
proof (induction xs arbitrary: ys)
  case Nil
  then show ?case by (cases ys) (auto simp: word_gt_0)
next
  case (Cons x xs)
  show ?case
  proof (cases ys)
    case Nil
    with Cons.prems show ?thesis by (auto simp: word_gt_0)
  next
    case (Cons y zs)
    have "uint x = uint y \<longleftrightarrow> x = y" by (simp add: word_uint_eq_iff)
    with Cons Cons.IH [of zs] Cons.prems show ?thesis by (auto simp: word_less_def)
  qed
qed

lemma less_append: "(xs :: int list) < ys \<Longrightarrow> \<not> prefix xs ys \<Longrightarrow> xs @ a < ys @ b"
proof (induction xs arbitrary: ys)
  case (Cons x xs)
  then show ?case by (cases ys) auto
qed simp

lemma text_less:
  "text_ok xs \<Longrightarrow> text_ok ys \<Longrightarrow> xs < ys \<Longrightarrow> map uint (utf8_text xs) < map uint (utf8_text ys)"
proof (induction xs arbitrary: ys)
  case Nil
  then show ?case by (cases ys) (auto elim!: bytes_shape)
next
  case (Cons x xs)
  then obtain y zs where y: "ys = y # zs" by (cases ys) auto
  have v: "map uint (utf8bytes x) = byte_values x" "map uint (utf8bytes y) = byte_values y"
    using Cons.prems y by (simp_all add: bytes_values)
  from Cons.prems(3) y consider "x < y" | "x = y" "xs < zs" by auto
  then show ?case
  proof cases
    case 1
    have "byte_values x < byte_values y" using values_less 1 Cons.prems y by simp
    moreover have "\<not> prefix (byte_values x) (byte_values y)"
    proof
      assume "prefix (byte_values x) (byte_values y)"
      then have "prefix (map uint (utf8bytes x)) (map uint (utf8bytes y))" by (simp add: v)
      then have "prefix (utf8bytes x) (utf8bytes y)"
        by (metis inj_map_eq_map inj_on_def map_append prefix_def prefix_map_rightE unsigned_word_eqI)
      then have "prefix (utf8_text [x]) (utf8_text [y])" by simp
      then show False using prefix_text [of "[x]" "[y]"] Cons.prems y 1 by simp
    qed
    ultimately have "byte_values x @ a < byte_values y @ b" for a b by (rule less_append)
    then show ?thesis by (simp add: y v)
  next
    case 2
    have "zs' < zs'' \<Longrightarrow> p @ zs' < p @ zs''" for p zs' zs'' :: "int list" by (induction p) auto
    with 2 Cons y show ?thesis by simp
  qed
qed

lemma text_cmp:
  assumes "text_ok xs" "text_ok ys"
  shows "utf8cmp (utf8_text xs @ 0 # s) (utf8_text ys @ 0 # t) =
    Some (if xs = ys then 0 else if xs < ys then -1 else 1)"
proof -
  have eq: "utf8_text xs = utf8_text ys \<longleftrightarrow> xs = ys" using text_inj [OF assms, of "[]" "[]"] by auto
  have "map uint (utf8_text xs) < map uint (utf8_text ys) \<longleftrightarrow> xs < ys" if "xs \<noteq> ys"
    using text_less assms that by (metis less_asym linorder_neqE)
  with cmp_bytes [OF text_nonzero text_nonzero, OF assms, of s t] show ?thesis by (simp add: eq)
qed

text \<open>
  \<open>utf8casecmp\<close> finds the first pair that differs after lowering, but orders it by the
  code points before lowering.
\<close>

fun case_order :: "int list \<Rightarrow> int list \<Rightarrow> int" where
  "case_order [] [] = 0"
| "case_order [] (y # ys) = -1"
| "case_order (x # xs) [] = 1"
| "case_order (x # xs) (y # ys) =
     (if utf8lwrcodepoint x = utf8lwrcodepoint y then case_order xs ys else if x < y then -1 else 1)"

lemma lower_0: "utf8lwrcodepoint 0 = 0"
  by (simp add: utf8lwrcodepoint_def in_ranges_def add32_lower_def even_pairs_def odd_pairs_def
      switch_on_def lower_switch_def)

lemma lower_positive: "code_ok c \<Longrightarrow> utf8lwrcodepoint c \<noteq> 0"
  using same_size_bytes(1) [OF lower_same, of c] by (auto simp: code_ok_def)

lemma casecmp_text:
  "text_ok xs \<Longrightarrow> text_ok ys \<Longrightarrow>
   utf8casecmp (utf8_text xs @ 0 # s) (utf8_text ys @ 0 # t) = Some (case_order xs ys)"
proof (induction xs ys rule: case_order.induct)
  case 1
  then show ?case by (subst utf8casecmp.simps) (simp add: codepoint_end)
next
  case (2 y ys)
  then have "utf8lwrcodepoint 0 \<noteq> utf8lwrcodepoint y" "0 < y" using lower_positive [of y] by (auto simp: lower_0 code_ok_def)
  with 2 show ?case by (subst utf8casecmp.simps) (simp add: codepoint_end codepoint_bytes)
next
  case (3 x xs)
  then have "utf8lwrcodepoint x \<noteq> utf8lwrcodepoint 0" "0 < x" using lower_positive [of x] by (auto simp: lower_0 code_ok_def)
  with 3 show ?case by (subst utf8casecmp.simps) (simp add: codepoint_end codepoint_bytes)
next
  case (4 x xs y ys)
  then have "x \<noteq> 0" "x \<noteq> y \<Longrightarrow> x < y \<or> y < x" by (auto simp: code_ok_def)
  with 4 show ?case by (subst utf8casecmp.simps) (auto simp: codepoint_bytes)
qed

lemma case_order_0: "case_order xs ys = 0 \<longleftrightarrow> map utf8lwrcodepoint xs = map utf8lwrcodepoint ys"
  by (induction xs ys rule: case_order.induct) auto

end
