(* ===== verification/Wcwidth.thy ===== *)
theory Wcwidth
  imports Prelude
begin

text \<open>
  The column width of wide characters (\<open>wcwidth.c\<close> inside \<open>src/src/libfort/fort.c\<close>): a
  binary search in a table of intervals, the width of a character and of a string.  The binary search
  is proved equal to a search through the whole table.

  A character is an integer in the range of \<open>int32_t\<close>.  A pointer into a string is the rest of
  the string with its terminator; reading behind it is a fault.
\<close>

section \<open>Binary search\<close>

text \<open>\<open>min\<close> and \<open>max\<close> of the loop; the sum is never negative there, so \<open>div\<close> is the division of C.\<close>

function bisearch_loop :: "int \<Rightarrow> (int \<times> int) list \<Rightarrow> int \<Rightarrow> int \<Rightarrow> bool option" where
  "bisearch_loop ucs table lo hi =
     (if hi \<ge> lo then
        let mid = (lo + hi) div 2 in
        (case idx table (nat mid) of
           None \<Rightarrow> None
         | Some (first, lst) \<Rightarrow>
             if ucs > lst then bisearch_loop ucs table (mid + 1) hi
             else if ucs < first then bisearch_loop ucs table lo (mid - 1)
             else Some True)
      else Some False)"
  by pat_completeness auto

termination
  by (relation "measure (\<lambda>(_, _, lo, hi). nat (hi - lo + 1))") auto

declare bisearch_loop.simps [simp del]

definition bisearch :: "int \<Rightarrow> (int \<times> int) list \<Rightarrow> int \<Rightarrow> bool option" where
  "bisearch ucs table mx = do {
     (first, u) \<leftarrow> idx table 0;
     if ucs < first then Some False
     else do {
       (v, lst) \<leftarrow> idx table (nat mx);
       if ucs > lst then Some False else bisearch_loop ucs table 0 mx
     }
   }"

section \<open>Widths\<close>

definition combining :: "(int \<times> int) list" where
  "combining =
     [(0x0300, 0x036F), (0x0483, 0x0486), (0x0488, 0x0489), (0x0591, 0x05BD), (0x05BF, 0x05BF), (0x05C1, 0x05C2),
      (0x05C4, 0x05C5), (0x05C7, 0x05C7), (0x0600, 0x0603), (0x0610, 0x0615), (0x064B, 0x065E), (0x0670, 0x0670),
      (0x06D6, 0x06E4), (0x06E7, 0x06E8), (0x06EA, 0x06ED), (0x070F, 0x070F), (0x0711, 0x0711), (0x0730, 0x074A),
      (0x07A6, 0x07B0), (0x07EB, 0x07F3), (0x0901, 0x0902), (0x093C, 0x093C), (0x0941, 0x0948), (0x094D, 0x094D),
      (0x0951, 0x0954), (0x0962, 0x0963), (0x0981, 0x0981), (0x09BC, 0x09BC), (0x09C1, 0x09C4), (0x09CD, 0x09CD),
      (0x09E2, 0x09E3), (0x0A01, 0x0A02), (0x0A3C, 0x0A3C), (0x0A41, 0x0A42), (0x0A47, 0x0A48), (0x0A4B, 0x0A4D),
      (0x0A70, 0x0A71), (0x0A81, 0x0A82), (0x0ABC, 0x0ABC), (0x0AC1, 0x0AC5), (0x0AC7, 0x0AC8), (0x0ACD, 0x0ACD),
      (0x0AE2, 0x0AE3), (0x0B01, 0x0B01), (0x0B3C, 0x0B3C), (0x0B3F, 0x0B3F), (0x0B41, 0x0B43), (0x0B4D, 0x0B4D),
      (0x0B56, 0x0B56), (0x0B82, 0x0B82), (0x0BC0, 0x0BC0), (0x0BCD, 0x0BCD), (0x0C3E, 0x0C40), (0x0C46, 0x0C48),
      (0x0C4A, 0x0C4D), (0x0C55, 0x0C56), (0x0CBC, 0x0CBC), (0x0CBF, 0x0CBF), (0x0CC6, 0x0CC6), (0x0CCC, 0x0CCD),
      (0x0CE2, 0x0CE3), (0x0D41, 0x0D43), (0x0D4D, 0x0D4D), (0x0DCA, 0x0DCA), (0x0DD2, 0x0DD4), (0x0DD6, 0x0DD6),
      (0x0E31, 0x0E31), (0x0E34, 0x0E3A), (0x0E47, 0x0E4E), (0x0EB1, 0x0EB1), (0x0EB4, 0x0EB9), (0x0EBB, 0x0EBC),
      (0x0EC8, 0x0ECD), (0x0F18, 0x0F19), (0x0F35, 0x0F35), (0x0F37, 0x0F37), (0x0F39, 0x0F39), (0x0F71, 0x0F7E),
      (0x0F80, 0x0F84), (0x0F86, 0x0F87), (0x0F90, 0x0F97), (0x0F99, 0x0FBC), (0x0FC6, 0x0FC6), (0x102D, 0x1030),
      (0x1032, 0x1032), (0x1036, 0x1037), (0x1039, 0x1039), (0x1058, 0x1059), (0x1160, 0x11FF), (0x135F, 0x135F),
      (0x1712, 0x1714), (0x1732, 0x1734), (0x1752, 0x1753), (0x1772, 0x1773), (0x17B4, 0x17B5), (0x17B7, 0x17BD),
      (0x17C6, 0x17C6), (0x17C9, 0x17D3), (0x17DD, 0x17DD), (0x180B, 0x180D), (0x18A9, 0x18A9), (0x1920, 0x1922),
      (0x1927, 0x1928), (0x1932, 0x1932), (0x1939, 0x193B), (0x1A17, 0x1A18), (0x1B00, 0x1B03), (0x1B34, 0x1B34),
      (0x1B36, 0x1B3A), (0x1B3C, 0x1B3C), (0x1B42, 0x1B42), (0x1B6B, 0x1B73), (0x1DC0, 0x1DCA), (0x1DFE, 0x1DFF),
      (0x200B, 0x200F), (0x202A, 0x202E), (0x2060, 0x2063), (0x206A, 0x206F), (0x20D0, 0x20EF), (0x302A, 0x302F),
      (0x3099, 0x309A), (0xA806, 0xA806), (0xA80B, 0xA80B), (0xA825, 0xA826), (0xFB1E, 0xFB1E), (0xFE00, 0xFE0F),
      (0xFE20, 0xFE23), (0xFEFF, 0xFEFF), (0xFFF9, 0xFFFB), (0x10A01, 0x10A03), (0x10A05, 0x10A06), (0x10A0C, 0x10A0F),
      (0x10A38, 0x10A3A), (0x10A3F, 0x10A3F), (0x1D167, 0x1D169), (0x1D173, 0x1D182), (0x1D185, 0x1D18B), (0x1D1AA, 0x1D1AD),
      (0x1D242, 0x1D244), (0xE0001, 0xE0001), (0xE0020, 0xE007F), (0xE0100, 0xE01EF)]"

text \<open>The East Asian wide and full-width characters, from 0x1100 on.\<close>

definition two_columns :: "int \<Rightarrow> bool" where
  "two_columns ucs \<longleftrightarrow> ucs \<ge> 0x1100 \<and>
     (ucs \<le> 0x115F \<or> ucs = 0x2329 \<or> ucs = 0x232A \<or>
      (ucs \<ge> 0x2E80 \<and> ucs \<le> 0xA4CF \<and> ucs \<noteq> 0x303F) \<or>
      (ucs \<ge> 0xAC00 \<and> ucs \<le> 0xD7A3) \<or>
      (ucs \<ge> 0xF900 \<and> ucs \<le> 0xFAFF) \<or>
      (ucs \<ge> 0xFE10 \<and> ucs \<le> 0xFE19) \<or>
      (ucs \<ge> 0xFE30 \<and> ucs \<le> 0xFE6F) \<or>
      (ucs \<ge> 0xFF00 \<and> ucs \<le> 0xFF60) \<or>
      (ucs \<ge> 0xFFE0 \<and> ucs \<le> 0xFFE6) \<or>
      (ucs \<ge> 0x20000 \<and> ucs \<le> 0x2FFFD) \<or>
      (ucs \<ge> 0x30000 \<and> ucs \<le> 0x3FFFD))"

definition mk_wcwidth :: "int \<Rightarrow> int option" where
  "mk_wcwidth ucs =
     (if ucs = 0 then Some 0
      else if ucs < 32 \<or> (ucs \<ge> 0x7F \<and> ucs < 0xA0) then Some (-1)
      else do {
        found \<leftarrow> bisearch ucs combining (int (length combining) - 1);
        if found then Some 0 else Some (1 + (if two_columns ucs then 1 else 0))
      })"

fun wcswidth_loop :: "int list \<Rightarrow> nat \<Rightarrow> int \<Rightarrow> int option" where
  "wcswidth_loop [] n width = None"
| "wcswidth_loop (c # pwcs) n width =
     (if c \<noteq> 0 \<and> n > 0 then do {
        w \<leftarrow> mk_wcwidth c;
        if w < 0 then Some (-1) else wcswidth_loop pwcs (n - 1) (width + w)
      } else Some width)"

definition mk_wcswidth :: "int list \<Rightarrow> nat \<Rightarrow> int option" where
  "mk_wcswidth pwcs n = wcswidth_loop pwcs n 0"

section \<open>The binary search finds what a search through the table finds\<close>

definition in_interval :: "int \<Rightarrow> int \<times> int \<Rightarrow> bool" where
  "in_interval x i \<longleftrightarrow> fst i \<le> x \<and> x \<le> snd i"

text \<open>The intervals are not empty and follow each other without overlap.\<close>

fun intervals_ok :: "(int \<times> int) list \<Rightarrow> bool" where
  "intervals_ok [] = True"
| "intervals_ok [i] = (fst i \<le> snd i)"
| "intervals_ok (i # j # js) = (fst i \<le> snd i \<and> snd i < fst j \<and> intervals_ok (j # js))"

lemma intervals_ok_tl: "intervals_ok (i # js) \<Longrightarrow> intervals_ok js"
  by (cases js) auto

lemma intervals_after: "intervals_ok (i # js) \<Longrightarrow> j \<in> set js \<Longrightarrow> snd i < fst j"
proof (induction js arbitrary: i)
  case (Cons k js)
  then have "snd i < fst k" "fst k \<le> snd k" by (cases js; simp)+
  with Cons.IH [of k] Cons.prems intervals_ok_tl [OF Cons.prems(1)] show ?case by auto
qed simp

lemma intervals_nth:
  "intervals_ok js \<Longrightarrow> j < length js \<Longrightarrow> fst (js ! j) \<le> snd (js ! j) \<and> (\<forall>i<j. snd (js ! i) < fst (js ! j))"
proof (induction js arbitrary: j)
  case (Cons i js)
  show ?case
  proof (cases j)
    case 0
    with Cons.prems show ?thesis by (cases js) auto
  next
    case (Suc k)
    have "snd ((i # js) ! m) < fst ((i # js) ! j)" if "m < j" for m
      using that Suc Cons intervals_after [OF Cons.prems(1)] intervals_ok_tl [OF Cons.prems(1)]
      by (cases m) auto
    with Suc Cons intervals_ok_tl [OF Cons.prems(1)] show ?thesis by auto
  qed
qed simp

text \<open>
  The invariant of the loop: what lies below \<open>lo\<close> ends before the character and what lies above
  \<open>hi\<close> begins behind it.
\<close>

lemma bisearch_loop_correct:
  assumes "intervals_ok table" "0 \<le> lo" "hi < int (length table)"
    and "\<forall>i. i < lo \<longrightarrow> 0 \<le> i \<longrightarrow> snd (table ! nat i) < ucs"
    and "\<forall>i. hi < i \<longrightarrow> i < int (length table) \<longrightarrow> ucs < fst (table ! nat i)"
  shows "bisearch_loop ucs table lo hi = Some (\<exists>i \<in> set table. in_interval ucs i)"
  using assms
proof (induction ucs table lo hi rule: bisearch_loop.induct)
  case (1 ucs table lo hi)
  show ?case
  proof (cases "hi \<ge> lo")
    case False
    have "\<not> in_interval ucs i" if inside: "i \<in> set table" for i
    proof -
      obtain k where k: "k < length table" "i = table ! k" using inside unfolding in_set_conv_nth by blast
      have "int k < lo \<or> hi < int k" using False by linarith
      with k "1.prems"(4,5) have "snd i < ucs \<or> ucs < fst i" by (metis nat_int of_nat_0_le_iff of_nat_less_iff)
      then show ?thesis by (auto simp: in_interval_def)
    qed
    with False show ?thesis by (subst bisearch_loop.simps) auto
  next
    case True
    let ?mid = "(lo + hi) div 2"
    have m: "0 \<le> ?mid" "lo \<le> ?mid" "?mid \<le> hi" "nat ?mid < length table" using True "1.prems"(2,3) by auto
    obtain f l where e: "table ! nat ?mid = (f, l)" by (cases "table ! nat ?mid")
    then have i: "idx table (nat ?mid) = Some (f, l)" using m by (simp add: idx_def)
    note below = intervals_nth [OF "1.prems"(1)]
    consider "ucs > l" | "ucs < f" "\<not> ucs > l" | "f \<le> ucs" "ucs \<le> l" by linarith
    then show ?thesis
    proof cases
      case 1
      have "snd (table ! nat i) < ucs" if "i < ?mid + 1" "0 \<le> i" for i
      proof (cases "i = ?mid")
        case False
        then have "nat i < nat ?mid" using that by auto
        with below [of "nat ?mid"] m e have "snd (table ! nat i) < f" "f \<le> l" by auto
        with 1 show ?thesis by simp
      qed (use 1 e in simp)
      with "1.IH"(1) [OF True refl i refl] "1.prems" m 1
      have "bisearch_loop ucs table (?mid + 1) hi = Some (\<exists>i \<in> set table. in_interval ucs i)" by simp
      with True i 1 show ?thesis by (subst bisearch_loop.simps) (simp add: Let_def)
    next
      case 2
      have "ucs < fst (table ! nat i)" if "?mid - 1 < i" "i < int (length table)" for i
      proof (cases "i = ?mid")
        case False
        then have "nat ?mid < nat i" "nat i < length table" using that m by auto
        with below [of "nat i"] e have "l < fst (table ! nat i)" by (metis snd_conv)
        moreover have "f \<le> l" using below [of "nat ?mid"] m e by simp
        ultimately show ?thesis using 2 by simp
      qed (use 2 e in simp)
      with "1.IH"(2) [OF True refl i refl] "1.prems" m 2
      have "bisearch_loop ucs table lo (?mid - 1) = Some (\<exists>i \<in> set table. in_interval ucs i)" by simp
      with True i 2 show ?thesis by (subst bisearch_loop.simps) (simp add: Let_def)
    next
      case 3
      have "(f, l) \<in> set table" using e m by (metis nth_mem)
      with 3 have "\<exists>i \<in> set table. in_interval ucs i" by (force simp: in_interval_def)
      with True i 3 show ?thesis by (subst bisearch_loop.simps) (simp add: Let_def)
    qed
  qed
qed

lemma bisearch_correct:
  assumes "intervals_ok table" "table \<noteq> []"
  shows "bisearch ucs table (int (length table) - 1) = Some (\<exists>i \<in> set table. in_interval ucs i)"
proof -
  obtain f u where h: "idx table 0 = Some (f, u)" using assms(2) by (cases table) (auto simp: idx_def)
  have n: "nat (int (length table) - 1) = length table - 1" using assms(2) by (cases table) auto
  obtain v l where t: "table ! (length table - 1) = (v, l)" by (cases "table ! (length table - 1)")
  then have t': "idx table (nat (int (length table) - 1)) = Some (v, l)" using assms(2) n by (simp add: idx_def)
  note nth = intervals_nth [OF assms(1)]
  have out: "f \<le> fst i \<and> snd i \<le> l" if inside: "i \<in> set table" for i
  proof -
    obtain k where k: "k < length table" "i = table ! k" using inside unfolding in_set_conv_nth by blast
    have "f \<le> fst i"
    proof (cases k)
      case 0
      with h k show ?thesis by (auto simp: idx_def split: if_splits)
    next
      case (Suc m)
      with nth [of k] nth [of 0] k h show ?thesis by (fastforce simp: idx_def split: if_splits)
    qed
    moreover have "snd i \<le> l"
    proof (cases "k = length table - 1")
      case True
      with k t show ?thesis by simp
    next
      case False
      with k have "k < length table - 1" by simp
      with nth [of "length table - 1"] k t assms(2) show ?thesis by fastforce
    qed
    ultimately show ?thesis by simp
  qed
  have "bisearch_loop ucs table 0 (int (length table) - 1) = Some (\<exists>i \<in> set table. in_interval ucs i)"
    using assms by (intro bisearch_loop_correct) auto
  moreover have "\<not> (\<exists>i \<in> set table. in_interval ucs i)" if "ucs < f \<or> ucs > l"
    using that out by (fastforce simp: in_interval_def)
  ultimately show ?thesis using h t' by (auto simp: bisearch_def)
qed

lemma combining_ok: "intervals_ok combining"
  by (simp add: combining_def)

lemma wcwidth_cases:
  "mk_wcwidth ucs = Some
     (if ucs = 0 then 0 else if ucs < 32 \<or> (0x7F \<le> ucs \<and> ucs < 0xA0) then -1
      else if list_ex (in_interval ucs) combining then 0 else if two_columns ucs then 2 else 1)"
proof -
  have "combining \<noteq> []" by (simp add: combining_def)
  from bisearch_correct [OF combining_ok this] show ?thesis
    by (auto simp: mk_wcwidth_def list_ex_iff Bex_def)
qed

definition wcwidth_of :: "int \<Rightarrow> int" where
  "wcwidth_of c = the (mk_wcwidth c)"

lemma wcwidth_of: "mk_wcwidth c = Some (wcwidth_of c)"
  by (simp add: wcwidth_of_def wcwidth_cases)

lemma wcwidth_range: "wcwidth_of c \<in> {-1, 0, 1, 2}"
  by (simp add: wcwidth_of_def wcwidth_cases)

lemma wcswidth_loop_text:
  "0 \<notin> set ws \<Longrightarrow> wcswidth_loop (ws @ 0 # r) n w =
    Some (if \<exists>c \<in> set (take n ws). wcwidth_of c < 0 then -1 else w + sum_list (map wcwidth_of (take n ws)))"
proof (induction ws arbitrary: n w)
  case (Cons c ws)
  then show ?case by (cases n) (auto simp: wcwidth_of)
qed simp

end
