(* ===== verification/Fort_Text.thy ===== *)
theory Fort_Text
  imports Fort_Print Utf8_Spec Wcwidth
begin

text \<open>
  Texts of the three character types of libfort (\<open>string_buffer.c\<close> and \<open>fort_utils.c\<close> inside
  \<open>src/src/libfort/fort.c\<close>): wide and UTF-8 strings beside the \<open>char\<close> strings of the theories
  Fort\_String and Fort\_Print, and the buffers whose type tag chooses between them.

  A wide string is the list of its characters before the terminator; where the code passes a pointer
  and a length, the terminator is put back.  A UTF-8 string is a memory block with its terminator, as
  in the theory Utf8.  \<open>wchar_t\<close> has four bytes.
\<close>

section \<open>Wide strings\<close>

definition wcol_separator :: int where "wcol_separator = of_char g_col_separator"
definition wnewline :: int where "wnewline = 10"

definition columns_number_in_fmt_wstring :: "int list \<Rightarrow> nat" where
  "columns_number_in_fmt_wstring fmt = separators_from wcol_separator fmt 0 + 1"

definition wstrchr_count :: "int list \<Rightarrow> int \<Rightarrow> nat" where
  "wstrchr_count str ch = strchr_count str ch"

definition wstr_n_substring_beg :: "int list \<Rightarrow> int \<Rightarrow> nat \<Rightarrow> int list option" where
  "wstr_n_substring_beg str ch_separator n = str_n_substring_beg str ch_separator n"

definition wstr_n_substring :: "int list \<Rightarrow> int \<Rightarrow> nat \<Rightarrow> int list option" where
  "wstr_n_substring str ch_separator n = str_n_substring str ch_separator n"

text \<open>\<open>mk_wcswidth(beg, end - beg)\<close> for the characters between the two pointers.\<close>

definition wcs_iter_width :: "int list \<Rightarrow> int option" where
  "wcs_iter_width line = mk_wcswidth (line @ [0]) (length line)"

text \<open>The loop over the lines; a line with a control character counts as empty.\<close>

function wide_width_loop :: "int list \<Rightarrow> nat \<Rightarrow> nat \<Rightarrow> nat option" where
  "wide_width_loop s n max_length =
     (case wstr_n_substring s wnewline n of
        None \<Rightarrow> Some max_length
      | Some line \<Rightarrow> do {
          w \<leftarrow> wcs_iter_width line;
          let line_width = (if w < 0 then 0 else w);
          wide_width_loop s (n + 1) (max max_length (nat line_width))
        })"
  by pat_completeness auto

termination
proof (relation "measure (\<lambda>(s, n, _). Suc (length s) - n)")
  fix s :: "int list" and n mx :: nat and line w x
  assume "wstr_n_substring s wnewline n = Some line"
  then have "n < length (split_on wnewline s)" by (auto simp: wstr_n_substring_def substring_split split: if_splits)
  then show "((s, n + 1, max mx (nat x)), (s, n, mx)) \<in> measure (\<lambda>(s, n, _). Suc (length s) - n)"
    using length_split_on_le [of wnewline s] by simp
qed simp

declare wide_width_loop.simps [simp del]

section \<open>UTF-8 strings\<close>

definition ut8next :: "byte list \<Rightarrow> byte list option" where
  "ut8next s = map_option fst (utf8codepoint s)"

text \<open>The loops go on from what \<open>utf8chr\<close> returned; a fault of \<open>utf8chr\<close> ends them.\<close>

partial_function (option) u8separators_from :: "byte list \<Rightarrow> nat \<Rightarrow> nat option" where
  "u8separators_from pos separator_counter = do {
     p \<leftarrow> utf8chr pos wcol_separator;
     (case p of
        None \<Rightarrow> Some separator_counter
      | Some pos' \<Rightarrow> u8separators_from (drop 1 pos') (separator_counter + 1))
   }"

declare u8separators_from.simps [code]

definition columns_number_in_fmt_u8string :: "byte list \<Rightarrow> nat option" where
  "columns_number_in_fmt_u8string fmt = do { n \<leftarrow> u8separators_from fmt 0; Some (n + 1) }"

partial_function (option) utf8chr_count_loop :: "byte list option \<Rightarrow> int \<Rightarrow> nat \<Rightarrow> nat option" where
  "utf8chr_count_loop str ch counted =
     (case str of
        None \<Rightarrow> Some counted
      | Some s \<Rightarrow> do { t \<leftarrow> ut8next s; p \<leftarrow> utf8chr t ch; utf8chr_count_loop p ch (counted + 1) })"

declare utf8chr_count_loop.simps [code]

definition utf8chr_count :: "byte list \<Rightarrow> int \<Rightarrow> nat option" where
  "utf8chr_count str ch = do { p \<leftarrow> utf8chr str ch; utf8chr_count_loop p ch 0 }"

primrec u8substring_loop :: "int \<Rightarrow> nat \<Rightarrow> byte list option \<Rightarrow> byte list option option" where
  "u8substring_loop c 0 str =
     (case str of None \<Rightarrow> Some None | Some p \<Rightarrow> do { q \<leftarrow> ut8next p; Some (Some q) })"
| "u8substring_loop c (Suc n) str =
     (case str of
        None \<Rightarrow> Some None
      | Some p \<Rightarrow> do { t \<leftarrow> ut8next p; q \<leftarrow> utf8chr t c; u8substring_loop c n q })"

definition utf8_n_substring_beg :: "byte list \<Rightarrow> int \<Rightarrow> nat \<Rightarrow> byte list option option" where
  "utf8_n_substring_beg str ch_separator n =
     (case n of
        0 \<Rightarrow> Some (Some str)
      | Suc m \<Rightarrow> do { p \<leftarrow> utf8chr str ch_separator; u8substring_loop ch_separator m p })"

text \<open>\<open>Some None\<close> when both pointers are NULL, otherwise the bytes from \<open>begin\<close> to \<open>end\<close>.\<close>

definition utf8_n_substring :: "byte list \<Rightarrow> int \<Rightarrow> nat \<Rightarrow> byte list option option" where
  "utf8_n_substring str ch_separator n = do {
     b \<leftarrow> utf8_n_substring_beg str ch_separator n;
     (case b of
        None \<Rightarrow> Some None
      | Some beg \<Rightarrow> do {
          e \<leftarrow> utf8chr beg ch_separator;
          en \<leftarrow> (case e of Some en \<Rightarrow> Some en | None \<Rightarrow> to_end str);
          Some (Some (take (length beg - length en) beg))
        })
   }"

text \<open>
  \<open>_custom_u8strwid\<close>: a function of the user that gives a result code and a width for the bytes
  between two pointers; a result other than 0 falls back to the width of a copy.
\<close>

type_synonym u8strwid = "(byte list \<Rightarrow> int \<times> nat) option"

definition utf8_width :: "u8strwid \<Rightarrow> byte list \<Rightarrow> nat option" where
  "utf8_width custom line =
     (case custom of
        Some f \<Rightarrow> (let (r, width) = f line in if r = 0 then Some width else utf8width (line @ [0]))
      | None \<Rightarrow> utf8width (line @ [0]))"

partial_function (option) u8width_loop :: "u8strwid \<Rightarrow> byte list \<Rightarrow> nat \<Rightarrow> nat \<Rightarrow> nat option" where
  "u8width_loop custom s n max_length = do {
     l \<leftarrow> utf8_n_substring s wnewline n;
     (case l of
        None \<Rightarrow> Some max_length
      | Some line \<Rightarrow> do {
          w \<leftarrow> utf8_width custom line;
          u8width_loop custom s (n + 1) (max max_length w)
        })
   }"

declare u8width_loop.simps [code]

section \<open>Buffers of the three types\<close>

datatype f_string_type = CHAR_BUF | W_CHAR_BUF | UTF8_BUF

datatype f_string_view = View_char string | View_wide "int list" | View_u8 "byte list"

fun view_type :: "f_string_view \<Rightarrow> f_string_type" where
  "view_type (View_char s) = CHAR_BUF"
| "view_type (View_wide s) = W_CHAR_BUF"
| "view_type (View_u8 s) = UTF8_BUF"

fun number_of_columns_in_format_string :: "f_string_view \<Rightarrow> nat option" where
  "number_of_columns_in_format_string (View_char s) = Some (columns_number_in_fmt_string s)"
| "number_of_columns_in_format_string (View_wide s) = Some (columns_number_in_fmt_wstring s)"
| "number_of_columns_in_format_string (View_u8 s) = columns_number_in_fmt_u8string s"

text \<open>The text is \<open>None\<close> while the block is uninitialised.\<close>

record typed_buffer =
  tb_type :: f_string_type
  tb_str :: "f_string_view option"
  tb_sz :: nat

fun char_sz :: "f_string_type \<Rightarrow> nat" where
  "char_sz CHAR_BUF = 1"
| "char_sz W_CHAR_BUF = 4"
| "char_sz UTF8_BUF = 4"

fun empty_text :: "f_string_type \<Rightarrow> f_string_view" where
  "empty_text CHAR_BUF = View_char []"
| "empty_text W_CHAR_BUF = View_wide []"
| "empty_text UTF8_BUF = View_u8 [0]"

definition create_typed_buffer :: "nat \<Rightarrow> f_string_type \<Rightarrow> typed_buffer" where
  "create_typed_buffer n_chars ty =
     (let sz = n_chars * char_sz ty in
      \<lparr>tb_type = ty, tb_str = (if sz \<noteq> 0 then Some (empty_text ty) else None), tb_sz = sz\<rparr>)"

text \<open>
  \<open>fill_buffer_from_string\<close>, \<open>fill_buffer_from_wstring\<close> and \<open>fill_buffer_from_u8string\<close>:
  the duplicate replaces the block, and the recorded size stays.
\<close>

definition fill_buffer_from_wstring :: "typed_buffer \<Rightarrow> int list \<Rightarrow> int \<times> typed_buffer" where
  "fill_buffer_from_wstring buffer str = (FT_SUCCESS, buffer\<lparr>tb_str := Some (View_wide str), tb_type := W_CHAR_BUF\<rparr>)"

definition fill_typed_from_string :: "typed_buffer \<Rightarrow> string \<Rightarrow> int \<times> typed_buffer" where
  "fill_typed_from_string buffer str = (FT_SUCCESS, buffer\<lparr>tb_str := Some (View_char str), tb_type := CHAR_BUF\<rparr>)"

definition fill_buffer_from_u8string :: "typed_buffer \<Rightarrow> byte list \<Rightarrow> (int \<times> typed_buffer) option" where
  "fill_buffer_from_u8string buffer str = do {
     copy \<leftarrow> utf8dup (\<lambda>_. True) str;
     (case copy of
        None \<Rightarrow> Some (FT_MEMORY_ERROR, buffer)
      | Some s \<Rightarrow> Some (FT_SUCCESS, buffer\<lparr>tb_str := Some (View_u8 s), tb_type := UTF8_BUF\<rparr>))
   }"

text \<open>The switch has no case for \<open>UTF8_BUF\<close>: such a buffer is never copied, the result is NULL.\<close>

definition copy_typed_buffer :: "typed_buffer \<Rightarrow> typed_buffer option option" where
  "copy_typed_buffer buffer = do {
     s \<leftarrow> tb_str buffer;
     let result = create_typed_buffer (tb_sz buffer) (tb_type buffer);
     (case s of
        View_char str \<Rightarrow> Some (Some (snd (fill_typed_from_string result str)))
      | View_wide str \<Rightarrow> Some (Some (snd (fill_buffer_from_wstring result str)))
      | View_u8 str \<Rightarrow> Some None)
   }"

definition number_of_columns_in_format_buffer :: "typed_buffer \<Rightarrow> nat option" where
  "number_of_columns_in_format_buffer buffer = Option.bind (tb_str buffer) number_of_columns_in_format_string"

definition typed_width_capacity :: "typed_buffer \<Rightarrow> nat" where
  "typed_width_capacity buffer = tb_sz buffer div char_sz (tb_type buffer)"

definition buf_str_len :: "typed_buffer \<Rightarrow> nat option" where
  "buf_str_len buffer = do {
     s \<leftarrow> tb_str buffer;
     (case s of View_char str \<Rightarrow> Some (length str) | View_wide str \<Rightarrow> Some (length str) | View_u8 str \<Rightarrow> utf8len str)
   }"

definition typed_visible_height :: "typed_buffer \<Rightarrow> nat option" where
  "typed_visible_height buffer = do {
     len \<leftarrow> buf_str_len buffer;
     if len = 0 then Some 0
     else do {
       s \<leftarrow> tb_str buffer;
       n \<leftarrow> (case s of
               View_char str \<Rightarrow> Some (strchr_count str newline)
             | View_wide str \<Rightarrow> Some (wstrchr_count str wnewline)
             | View_u8 str \<Rightarrow> utf8chr_count str wnewline);
       Some (1 + n)
     }
   }"

definition typed_visible_width :: "u8strwid \<Rightarrow> typed_buffer \<Rightarrow> nat option" where
  "typed_visible_width custom buffer = do {
     s \<leftarrow> tb_str buffer;
     (case s of
        View_char str \<Rightarrow> Some (visible_width_loop str 0 0)
      | View_wide str \<Rightarrow> wide_width_loop str 0 0
      | View_u8 str \<Rightarrow> u8width_loop custom str 0 0)
   }"

text \<open>One line with its width; no line when the pointers are NULL.\<close>

definition typed_substring :: "u8strwid \<Rightarrow> typed_buffer \<Rightarrow> nat \<Rightarrow> (f_string_view \<times> int) option option" where
  "typed_substring custom buffer buffer_row = do {
     s \<leftarrow> tb_str buffer;
     (case s of
        View_char str \<Rightarrow> Some (map_option (\<lambda>l. (View_char l, int (length l))) (str_n_substring str newline buffer_row))
      | View_wide str \<Rightarrow>
          (case wstr_n_substring str wnewline buffer_row of
             None \<Rightarrow> Some None
           | Some l \<Rightarrow> do { w \<leftarrow> wcs_iter_width l; Some (Some (View_wide l, w)) })
      | View_u8 str \<Rightarrow> do {
          l \<leftarrow> utf8_n_substring str wnewline buffer_row;
          (case l of
             None \<Rightarrow> Some None
           | Some line \<Rightarrow> do { w \<leftarrow> utf8_width custom line; Some (Some (View_u8 (line @ [0]), int w)) })
        })
   }"

section \<open>Printing wide and UTF-8 text\<close>

text \<open>
  The conversion context holds what is written so far and the bytes left, which \<open>size_t\<close>
  arithmetic takes below 0 to large numbers.  A write behind the block is a fault.
\<close>

definition size_minus :: "nat \<Rightarrow> nat \<Rightarrow> nat" where
  "size_minus a b = (a + 2 ^ 64 - b mod 2 ^ 64) mod 2 ^ 64"

definition u8nprint_n_strings :: "nat \<Rightarrow> nat \<Rightarrow> byte list \<Rightarrow> (int \<times> byte list) option" where
  "u8nprint_n_strings len n str = do {
     sz \<leftarrow> utf8size str;
     let str_size = sz - 1;
     Some (if len \<le> n * str_size then (-1, [])
           else if n = 0 then (0, [])
           else if int (n * str_size) > INT_MAX then (-1, [])
           else if str_size = 0 then (0, [])
           else (int (n * str_size), concat (replicate n (take str_size str))))
   }"

text \<open>The result counts code points, the context moves by bytes.\<close>

definition print_n_u8strings :: "nat \<Rightarrow> byte list \<Rightarrow> byte f_conv_context_of \<Rightarrow> (int \<times> byte f_conv_context_of) option" where
  "print_n_u8strings n str cntx = do {
     (raw_written, bytes) \<leftarrow> u8nprint_n_strings (raw_avail cntx) n str;
     if raw_written < 0 then Some (raw_written, cntx)
     else do {
       len \<leftarrow> utf8len str;
       Some (to_int32 (int (len * n)),
             cntx\<lparr>conv_out := conv_out cntx @ bytes, raw_avail := size_minus (raw_avail cntx) (nat raw_written)\<rparr>)
     }
   }"

definition ft_nu8print :: "byte list \<Rightarrow> byte f_conv_context_of \<Rightarrow> (int \<times> byte f_conv_context_of) option" where
  "ft_nu8print line cntx =
     (let raw_len = length line in
      if raw_avail cntx + 1 < raw_len then Some (-1, cntx)
      else if raw_len + 1 > raw_avail cntx then None
      else Some (to_int32 (int raw_len),
             cntx\<lparr>conv_out := conv_out cntx @ line, raw_avail := size_minus (raw_avail cntx) raw_len\<rparr>))"

text \<open>The check compares the number of characters with the number of bytes left.\<close>

definition ft_nwprint :: "int list \<Rightarrow> int f_conv_context_of \<Rightarrow> (int \<times> int f_conv_context_of) option" where
  "ft_nwprint str cntx =
     (if raw_avail cntx + 1 < length str then Some (-1, cntx)
      else if 4 * (length str + 1) > raw_avail cntx then None
      else Some (to_int32 (int (length str)),
             cntx\<lparr>conv_out := conv_out cntx @ str, raw_avail := size_minus (raw_avail cntx) (4 * length str)\<rparr>))"

text \<open>
  \<open>mbsrtowcs\<close> of the C library is an argument: the wide string of a multibyte string, or
  \<open>None\<close> for an error.  A string with a byte above 127 that is one wide character is written
  without a look at the space left, and the terminator goes \<open>n\<close> characters behind the text.  The
  other branch, too, takes the number of bytes left for a number of characters; \<open>swprintf\<close> writes
  the digits and a terminator.
\<close>

definition wsnprint_n_string ::
  "(byte list \<Rightarrow> int list option) \<Rightarrow> nat \<Rightarrow> nat \<Rightarrow> byte list \<Rightarrow> (int \<times> int list) option" where
  "wsnprint_n_string mbsrtowcs len n str =
     (let str_len = length str in
      if str_len > 1 \<and> (\<exists>p \<in> set str. p > 127) then
        (case mbsrtowcs str of
           None \<Rightarrow> Some (-1, [])
         | Some wcs \<Rightarrow>
             if length wcs > 1 then Some (-1, [])
             else if 4 * (2 * n + 1) > len then None
             else Some (to_int32 (int n), replicate n (hd (wcs @ [0]))))
      else if len \<le> n * str_len then Some (-1, [])
      else if n = 0 then Some (0, [])
      else if int (n * str_len) > INT_MAX then Some (-1, [])
      else if str_len = 0 then Some (0, [])
      else if 4 * (n * str_len + 1) > len then None
      else Some (int (n * str_len), concat (replicate n (map sint str))))"

definition print_n_wstrings ::
  "(byte list \<Rightarrow> int list option) \<Rightarrow> nat \<Rightarrow> byte list \<Rightarrow> int f_conv_context_of \<Rightarrow> (int \<times> int f_conv_context_of) option" where
  "print_n_wstrings mbsrtowcs n str cntx = do {
     (cod_w, txt) \<leftarrow> wsnprint_n_string mbsrtowcs (raw_avail cntx) n str;
     if cod_w < 0 then Some (cod_w, cntx)
     else Some (cod_w, cntx\<lparr>conv_out := conv_out cntx @ txt, raw_avail := size_minus (raw_avail cntx) (4 * nat cod_w)\<rparr>)
   }"


section \<open>UTF-8 text by its code points\<close>

text \<open>
  On valid text the functions on bytes do to the code points what the functions of the theory
  Fort\_String do to characters.  \<open>block_of r cps\<close> is the block that holds the text; \<open>r\<close> is what
  follows its terminator.
\<close>

definition block_of :: "byte list \<Rightarrow> int list \<Rightarrow> byte list" where
  "block_of r cps = utf8_text cps @ 0 # r"

lemma u8chr_block:
  assumes "code_ok c" "text_ok cps"
  shows "utf8chr (block_of r cps) c = Some (map_option (block_of r) (strchr cps c))"
proof -
  have "map_option f (case w of [] \<Rightarrow> None | x # xs \<Rightarrow> Some (x # xs)) =
      (case w of [] \<Rightarrow> None | x # xs \<Rightarrow> Some (f (x # xs)))" for f :: "int list \<Rightarrow> byte list" and w
    by (cases w) simp_all
  then show ?thesis
    by (simp only: block_of_def strchr_def chr_text [OF assms])
qed

lemma ut8next_block: "text_ok (c # cs) \<Longrightarrow> ut8next (block_of r (c # cs)) = Some (block_of r cs)"
  by (simp add: ut8next_def block_of_def codepoint_bytes)

lemma strchr_ok: "text_ok cps \<Longrightarrow> strchr cps c = Some t \<Longrightarrow> t = c # tl t \<and> text_ok t \<and> (\<exists>pre. cps = pre @ t)"
proof (induction cps)
  case (Cons x cps)
  show ?case
  proof (cases "x = c")
    case False
    with Cons show ?thesis by (metis append_Cons strchr_Cons text_ok_simps(2))
  qed (use Cons.prems in auto)
qed simp

lemma u8substring_loop_block:
  "code_ok c \<Longrightarrow> (\<And>t. str = Some t \<Longrightarrow> t \<noteq> [] \<and> text_ok t) \<Longrightarrow>
   u8substring_loop c n (map_option (block_of r) str) = Some (map_option (block_of r) (substring_loop c n str))"
proof (induction n arbitrary: str)
  case 0
  show ?case
  proof (cases str)
    case (Some t)
    with 0 obtain x s where "t = x # s" "text_ok (x # s)" by (cases t) auto
    with Some ut8next_block [of x s r] show ?thesis by simp
  qed simp
next
  case (Suc n)
  show ?case
  proof (cases str)
    case (Some t)
    with Suc.prems obtain x s where t: "t = x # s" "text_ok (x # s)" by (cases t) auto
    have "\<And>u. strchr s c = Some u \<Longrightarrow> u \<noteq> [] \<and> text_ok u" using strchr_ok [of s c] t(2) by fastforce
    from Suc.IH [OF Suc.prems(1) this] show ?thesis
      using Some t ut8next_block [OF t(2), of r] u8chr_block [OF Suc.prems(1), of s r] by simp
  qed simp
qed

lemma substring_beg_block:
  assumes "code_ok c" "text_ok cps"
  shows "utf8_n_substring_beg (block_of r cps) c n = Some (map_option (block_of r) (str_n_substring_beg cps c n))"
proof (cases n)
  case (Suc m)
  have "\<And>u. strchr cps c = Some u \<Longrightarrow> u \<noteq> [] \<and> text_ok u" using strchr_ok [of cps c] assms(2) by fastforce
  with Suc u8chr_block [OF assms] u8substring_loop_block [OF assms(1)] show ?thesis
    by (simp add: utf8_n_substring_beg_def str_n_substring_beg_def)
qed (simp add: utf8_n_substring_beg_def str_n_substring_beg_def)

lemma substring_loop_ok:
  "(\<And>t. str = Some t \<Longrightarrow> text_ok t) \<Longrightarrow> substring_loop c n str = Some u \<Longrightarrow> text_ok u"
proof (induction n arbitrary: str)
  case 0
  then obtain t where "str = Some t" "u = tl t" "text_ok t" by auto
  then show ?case by (cases t) auto
next
  case (Suc n)
  then obtain t where t: "str = Some t" "substring_loop c n (strchr (tl t) c) = Some u" "text_ok t"
    by (auto split: option.splits)
  then have "text_ok (tl t)" by (cases t) auto
  with Suc.IH [OF _ t(2)] strchr_ok [of "tl t" c] show ?case by blast
qed

lemma substring_beg_ok: "text_ok cps \<Longrightarrow> str_n_substring_beg cps c n = Some t \<Longrightarrow> text_ok t"
  using substring_loop_ok [of "strchr cps c" c _ t] strchr_ok [of cps c]
  by (auto simp: str_n_substring_beg_def split: nat.splits)

text \<open>The lines, or columns, of the bytes are those of the code points.\<close>

lemma substring_block:
  assumes "code_ok c" "text_ok cps"
  shows "utf8_n_substring (block_of r cps) c n = Some (map_option utf8_text (str_n_substring cps c n))"
proof (cases "str_n_substring_beg cps c n")
  case None
  with substring_beg_block [OF assms] show ?thesis by (simp add: utf8_n_substring_def str_n_substring_def)
next
  case (Some beg)
  then have b: "text_ok beg" using substring_beg_ok assms(2) by blast
  show ?thesis
  proof (cases "strchr beg c")
    case None
    have "to_end (block_of r cps) = Some (0 # r)"
      unfolding block_of_def by (rule to_end_nonzero) (rule text_nonzero [OF assms(2)])
    with None Some substring_beg_block [OF assms, of r n] u8chr_block [OF assms(1) b, of r] show ?thesis
      by (simp add: utf8_n_substring_def str_n_substring_def) (simp add: block_of_def)
  next
    case (Some en)
    then obtain pre where "beg = pre @ en" using strchr_ok [OF b] by blast
    with Some \<open>str_n_substring_beg cps c n = Some beg\<close> substring_beg_block [OF assms, of r n]
      u8chr_block [OF assms(1) b, of r] show ?thesis
      by (simp add: utf8_n_substring_def str_n_substring_def) (simp add: block_of_def)
  qed
qed

lemma line_block:
  assumes "code_ok c" "text_ok cps"
  shows "utf8_n_substring (block_of r cps) c n =
    Some (if n < length (split_on c cps) then Some (utf8_text (split_on c cps ! n)) else None)"
  using substring_block [OF assms, of r n] by (simp add: substring_split)

lemma count_loop_block:
  assumes "code_ok c"
  shows "text_ok cps \<Longrightarrow> utf8chr_count_loop (map_option (block_of r) (strchr cps c)) c k = Some (k + strchr_count cps c)"
proof (induction cps c arbitrary: k rule: strchr_count.induct)
  case (1 cps ch)
  show ?case
  proof (cases "strchr cps ch")
    case None
    then show ?thesis by (subst utf8chr_count_loop.simps) (simp add: strchr_count.simps [of cps ch])
  next
    case (Some t)
    have t: "t = ch # tl t" "text_ok t" using strchr_ok [OF "1.prems" Some] by auto
    then obtain s where s: "t = ch # s" "text_ok (ch # s)" by metis
    have n: "ut8next (block_of r t) = Some (block_of r s)" using ut8next_block [OF s(2)] s(1) by simp
    have c: "utf8chr (block_of r s) ch = Some (map_option (block_of r) (strchr s ch))"
      using u8chr_block s(2) by simp
    have "utf8chr_count_loop (map_option (block_of r) (strchr s ch)) ch (k + 1) = Some (k + 1 + strchr_count s ch)"
      using "1.IH" [of t ch s "k + 1"] Some s by simp
    with Some n c s(1) show ?thesis by (subst utf8chr_count_loop.simps) (simp add: strchr_count.simps [of cps ch])
  qed
qed

lemma count_block: "code_ok c \<Longrightarrow> text_ok cps \<Longrightarrow> utf8chr_count (block_of r cps) c = Some (strchr_count cps c)"
  using count_loop_block [of c cps r 0] u8chr_block [of c cps r] by (simp add: utf8chr_count_def)

definition text_columns :: "int list \<Rightarrow> nat" where
  "text_columns cps = sum_list (map (\<lambda>c. nat (utf8cwidth c)) cps)"

lemma split_on_ok: "text_ok cps \<Longrightarrow> l \<in> set (split_on c cps) \<Longrightarrow> text_ok l"
  by (induction cps arbitrary: l) (fastforce split: list.splits if_splits)+

lemma u8width_loop_block:
  assumes "text_ok cps"
  shows "n \<le> length (split_on wnewline cps) \<Longrightarrow> u8width_loop None (block_of r cps) n mx =
    Some (fold max (map text_columns (drop n (split_on wnewline cps))) mx)"
proof (induction "length (split_on wnewline cps) - n" arbitrary: n mx)
  case 0
  then show ?case using line_block [of wnewline cps r n] assms
    by (subst u8width_loop.simps) (simp add: wnewline_def code_ok_def)
next
  case (Suc k)
  let ?ls = "split_on wnewline cps"
  have n: "n < length ?ls" using Suc.hyps(2) by simp
  have "text_ok (?ls ! n)" by (rule split_on_ok [OF assms nth_mem [OF n]])
  then have w: "utf8_width None (utf8_text (?ls ! n)) = Some (text_columns (?ls ! n))"
    using width_text [of "?ls ! n" "[]"] by (simp add: utf8_width_def text_columns_def)
  have l: "utf8_n_substring (block_of r cps) wnewline n = Some (Some (utf8_text (?ls ! n)))"
    using line_block [of wnewline cps r n] assms n by (simp add: wnewline_def code_ok_def)
  have "u8width_loop None (block_of r cps) (n + 1) (max mx (text_columns (?ls ! n))) =
      Some (fold max (map text_columns (drop (n + 1) ?ls)) (max mx (text_columns (?ls ! n))))"
    using Suc.hyps n by simp
  then show ?case using w l n
    by (subst u8width_loop.simps) (simp add: Cons_nth_drop_Suc [symmetric] max.commute)
qed

lemma wide_width_loop_lines:
  "n \<le> length (split_on wnewline s) \<Longrightarrow> 0 \<notin> set s \<Longrightarrow> wide_width_loop s n mx =
    Some (fold max (map (\<lambda>l. if \<exists>c \<in> set l. wcwidth_of c < 0 then 0 else nat (sum_list (map wcwidth_of l)))
      (drop n (split_on wnewline s))) mx)"
proof (induction "length (split_on wnewline s) - n" arbitrary: n mx)
  case 0
  then show ?case by (subst wide_width_loop.simps) (simp add: wstr_n_substring_def substring_split)
next
  case (Suc k)
  let ?ls = "split_on wnewline s"
  let ?w = "\<lambda>l. if \<exists>c \<in> set l. wcwidth_of c < 0 then 0 else nat (sum_list (map wcwidth_of l))"
  have n: "n < length ?ls" using Suc.hyps(2) by simp
  have sub: "l \<in> set (split_on c xs) \<Longrightarrow> set l \<subseteq> set xs" for l c and xs :: "int list"
    by (induction xs arbitrary: l) (fastforce split: list.splits if_splits)+
  have "0 \<notin> set (?ls ! n)" using sub [of "?ls ! n" wnewline s] n Suc.prems(2) by auto
  then have w: "wcs_iter_width (?ls ! n) = Some (if \<exists>c \<in> set (?ls ! n). wcwidth_of c < 0 then -1
      else sum_list (map wcwidth_of (?ls ! n)))"
    using wcswidth_loop_text [of "?ls ! n" "[]" "length (?ls ! n)" 0]
    by (simp add: wcs_iter_width_def mk_wcswidth_def)
  have l: "wstr_n_substring s wnewline n = Some (?ls ! n)" using n by (simp add: wstr_n_substring_def substring_split)
  have IH: "wide_width_loop s (n + 1) (max mx (?w (?ls ! n))) =
      Some (fold max (map ?w (drop (n + 1) ?ls)) (max mx (?w (?ls ! n))))"
    using Suc.hyps n Suc.prems(2) by simp
  have nonneg: "sum_list (map wcwidth_of l) \<ge> 0" if "\<not> (\<exists>c \<in> set l. wcwidth_of c < 0)" for l
    using that by (induction l) auto
  let ?v = "if \<exists>c \<in> set (?ls ! n). wcwidth_of c < 0 then -1 else sum_list (map wcwidth_of (?ls ! n))"
  have v: "nat (if ?v < 0 then 0 else ?v) = ?w (?ls ! n)"
    using nonneg [of "?ls ! n"] by (cases "\<exists>c \<in> set (?ls ! n). wcwidth_of c < 0") simp_all
  have "wide_width_loop s n mx = wide_width_loop s (n + 1) (max mx (?w (?ls ! n)))"
    by (subst wide_width_loop.simps) (simp only: l w option.case Let_def v bind.bind_lunit)
  moreover have "fold max (map ?w (drop n ?ls)) mx = fold max (map ?w (drop (n + 1) ?ls)) (max mx (?w (?ls ! n)))"
    using n by (simp add: Cons_nth_drop_Suc [symmetric] max.commute)
  ultimately show ?case using IH by simp
qed

lemma copy_string_text: "0 \<notin> set xs \<Longrightarrow> copy_string (replicate (length xs + 1) 0) (xs @ 0 # r) = Some (xs @ [0])"
  by (induction xs) auto

lemma dup_block: "0 \<notin> set xs \<Longrightarrow> utf8dup (\<lambda>_. True) (xs @ 0 # r) = Some (Some (xs @ [0]))"
  using to_end_nonzero [of xs r] copy_string_text [of xs r] by (simp add: utf8dup_def utf8size_def)

end
