(* ===== verification/Fort_Typed.thy ===== *)
theory Fort_Typed
  imports Fort_Text Fort_Table
begin

text \<open>
  Tables whose cells hold text of any of the three types, and the functions that write them
  (\<open>fort_impl.c\<close>, \<open>cell.c\<close> and \<open>row.c\<close> inside \<open>src/src/libfort/fort.c\<close>): the wide
  and the UTF-8 interface, the copy of a table, formatted rows.

  What does not look into a cell is shared with the theories Fort\_Row and Fort\_Table.  On tables
  with \<open>char\<close> cells only, the operations agree with those of Fort\_Table.  Memory never runs
  out.
\<close>

section \<open>Cells\<close>

type_synonym typed_cell = "typed_buffer f_cell_of"
type_synonym typed_row = "typed_cell slots"
type_synonym typed_table = "(typed_cell, typed_buffer) ft_table_of"

definition create_typed_cell :: typed_cell where
  "create_typed_cell = \<lparr>cell_type = COMMON_CELL, str_buffer = create_typed_buffer DEFAULT_STR_BUF_SIZE CHAR_BUF\<rparr>"

text \<open>\<open>Some None\<close> is the NULL that a failed copy of the buffer gives.\<close>

definition copy_typed_cell :: "typed_cell \<Rightarrow> typed_cell option option" where
  "copy_typed_cell cell = do {
     b \<leftarrow> copy_typed_buffer (str_buffer cell);
     Some (map_option (\<lambda>buffer. create_typed_cell\<lparr>str_buffer := buffer, cell_type := cell_type cell\<rparr>) b)
   }"

text \<open>The switch over the type of the text.\<close>

fun fill_typed_buffer :: "typed_buffer \<Rightarrow> f_string_view \<Rightarrow> (int \<times> typed_buffer) option" where
  "fill_typed_buffer buf (View_char s) = Some (fill_typed_from_string buf s)"
| "fill_typed_buffer buf (View_wide s) = Some (fill_buffer_from_wstring buf s)"
| "fill_typed_buffer buf (View_u8 s) = fill_buffer_from_u8string buf s"

definition fill_cell_from_wstring :: "typed_cell \<Rightarrow> int list \<Rightarrow> int \<times> typed_cell" where
  "fill_cell_from_wstring cell str =
     (let (st, b) = fill_buffer_from_wstring (str_buffer cell) str in (st, cell\<lparr>str_buffer := b\<rparr>))"

definition fill_typed_cell_from_string :: "typed_cell \<Rightarrow> string \<Rightarrow> int \<times> typed_cell" where
  "fill_typed_cell_from_string cell str =
     (let (st, b) = fill_typed_from_string (str_buffer cell) str in (st, cell\<lparr>str_buffer := b\<rparr>))"

definition fill_cell_from_u8string :: "typed_cell \<Rightarrow> byte list \<Rightarrow> (int \<times> typed_cell) option" where
  "fill_cell_from_u8string cell str = do {
     (st, b) \<leftarrow> fill_buffer_from_u8string (str_buffer cell) str;
     Some (st, cell\<lparr>str_buffer := b\<rparr>)
   }"

definition fill_typed_cell_from_buffer :: "typed_cell \<Rightarrow> typed_buffer \<Rightarrow> (int \<times> typed_cell) option" where
  "fill_typed_cell_from_buffer cell buffer = do {
     s \<leftarrow> tb_str buffer;
     (case s of
        View_char str \<Rightarrow> Some (fill_typed_cell_from_string cell str)
      | View_wide str \<Rightarrow> Some (fill_cell_from_wstring cell str)
      | View_u8 str \<Rightarrow> fill_cell_from_u8string cell str)
   }"

section \<open>Rows\<close>

text \<open>The loops that push new items until there are \<open>n\<close>.\<close>

function push_until :: "'a \<Rightarrow> 'a slots \<Rightarrow> nat \<Rightarrow> 'a slots" where
  "push_until x s n = (if length s < n then push_until x (seq_push s x) n else s)"
  by pat_completeness auto

termination
  by (relation "measure (\<lambda>(x, s, n). n - length s)") (auto simp: seq_push_def)

declare push_until.simps [simp del]

lemma push_until_eq: "push_until x s n = s @ replicate (n - length s) (Some x)"
proof (induction x s n rule: push_until.induct)
  case (1 x s n)
  have "replicate (n - length s) y = y # replicate (n - Suc (length s)) y" if "length s < n" for y :: "'a option"
    using that by (cases "n - length s") (auto simp: Suc_diff_Suc simp flip: replicate_Suc)
  with 1 show ?case by (subst push_until.simps) (simp add: seq_push_def)
qed

definition get_typed_cell_and_create :: "typed_row \<Rightarrow> nat \<Rightarrow> (typed_cell \<times> typed_row) option" where
  "get_typed_cell_and_create row col = do {
     let row' = push_until create_typed_cell row (col + 1);
     cell \<leftarrow> slot_at row' col;
     Some (cell, row')
   }"

definition create_typed_cell_in_position :: "typed_row \<Rightarrow> nat \<Rightarrow> (typed_cell \<times> typed_row) option" where
  "create_typed_cell_in_position row col = do {
     let row' = seq_insert row create_typed_cell col;
     cell \<leftarrow> slot_at row' col;
     Some (cell, row')
   }"

fun copy_typed_cells :: "typed_row \<Rightarrow> typed_row \<Rightarrow> typed_row option option" where
  "copy_typed_cells [] result = Some (Some result)"
| "copy_typed_cells (slot # row) result = do {
     cell \<leftarrow> slot;
     new_cell \<leftarrow> copy_typed_cell cell;
     (case new_cell of None \<Rightarrow> Some None | Some c \<Rightarrow> copy_typed_cells row (seq_push result c))
   }"

definition copy_typed_row :: "typed_row \<Rightarrow> typed_row option option" where
  "copy_typed_row row = copy_typed_cells row create_row"

definition insert_typed_row :: "typed_row \<Rightarrow> typed_row \<Rightarrow> nat \<Rightarrow> (int \<times> typed_row \<times> typed_row) option" where
  "insert_typed_row row ins_row pos = do {
     row \<leftarrow> insert_cells (push_until create_typed_cell row pos) ins_row pos;
     Some (FT_SUCCESS, row, [])
   }"

text \<open>
  \<open>create_row_from_string\<close> and \<open>create_row_from_wstring\<close> have the same body over two types
  of characters; \<open>new_cell\<close> makes a cell with a text.
\<close>

function typed_row_loop ::
  "('a list \<Rightarrow> typed_cell) \<Rightarrow> 'a \<Rightarrow> 'a list \<Rightarrow> typed_row \<Rightarrow> nat \<Rightarrow> typed_row \<times> nat" where
  "typed_row_loop new_cell sep pos row number_of_separators =
     (if pos = [] then (row, number_of_separators)
      else case strchr pos sep of
        Some (c # rest) \<Rightarrow>
          typed_row_loop new_cell sep rest
            (seq_push row (new_cell (take (length pos - length (c # rest)) pos))) (number_of_separators + 1)
      | _ \<Rightarrow> (seq_push row (new_cell pos), number_of_separators))"
  by pat_completeness auto

termination
  by (relation "measure (\<lambda>(_, _, pos, _). length pos)") (auto dest: strchr_shorter)

declare typed_row_loop.simps [simp del]

definition typed_text_cell :: "string \<Rightarrow> typed_cell" where
  "typed_text_cell s = snd (fill_typed_cell_from_string create_typed_cell s)"

definition wide_text_cell :: "int list \<Rightarrow> typed_cell" where
  "wide_text_cell s = snd (fill_cell_from_wstring create_typed_cell s)"

definition create_typed_row_from_string :: "string \<Rightarrow> typed_row" where
  "create_typed_row_from_string str =
     (let (row, n) = typed_row_loop typed_text_cell g_col_separator str create_row 0
      in push_until (typed_text_cell []) row (n + 1))"

definition create_row_from_wstring :: "int list \<Rightarrow> typed_row" where
  "create_row_from_wstring str =
     (let (row, n) = typed_row_loop wide_text_cell wcol_separator str create_row 0
      in push_until (wide_text_cell []) row (n + 1))"

text \<open>The \<open>char\<close> string that the bytes up to the terminator are.\<close>

definition bytes_string :: "byte list \<Rightarrow> string" where
  "bytes_string bs = map (\<lambda>b. char_of (unat b)) (takeWhile (\<lambda>b. b \<noteq> 0) bs)"

text \<open>UTF-8 text is taken for a \<open>char\<close> string: the cells of the row are of type \<open>CHAR_BUF\<close>.\<close>

definition create_typed_row_from_buffer :: "typed_buffer \<Rightarrow> typed_row option" where
  "create_typed_row_from_buffer buffer = do {
     s \<leftarrow> tb_str buffer;
     Some (case s of
         View_char str \<Rightarrow> create_typed_row_from_string str
       | View_wide str \<Rightarrow> create_row_from_wstring str
       | View_u8 str \<Rightarrow> create_typed_row_from_string (bytes_string str))
   }"

section \<open>Formatted rows\<close>

text \<open>The part of \<open>vswprintf\<close> the programs use: \<open>%ls\<close>, \<open>%d\<close> and \<open>%%\<close>.\<close>

datatype wfmt_arg = Ws "int list" | Wd int

fun wvsprintf :: "int list \<Rightarrow> wfmt_arg list \<Rightarrow> int list option" where
  "wvsprintf [] args = Some []"
| "wvsprintf (c # fmt) args =
     (if c \<noteq> of_char (CHR ''%'') then map_option (Cons c) (wvsprintf fmt args)
      else (case fmt of
          [] \<Rightarrow> None
        | d # fmt' \<Rightarrow>
            if d = of_char (CHR ''d'') then
              (case args of Wd i # args' \<Rightarrow> map_option (append (map of_char (sprintf_d i))) (wvsprintf fmt' args') | _ \<Rightarrow> None)
            else if d = of_char (CHR ''%'') then map_option (Cons (of_char (CHR ''%''))) (wvsprintf fmt' args)
            else if d = of_char (CHR ''l'') then
              (case fmt' of
                 [] \<Rightarrow> None
               | e # fmt'' \<Rightarrow>
                   if e = of_char (CHR ''s'') then
                     (case args of Ws s # args' \<Rightarrow> map_option (append s) (wvsprintf fmt'' args') | _ \<Rightarrow> None)
                   else None)
            else None))"

datatype fmt_args = Char_args "fmt_arg list" | Wide_args "wfmt_arg list"

definition string_bytes :: "string \<Rightarrow> byte list" where
  "string_bytes s = map of_char s @ [0]"

fun format_text :: "f_string_view \<Rightarrow> fmt_args \<Rightarrow> f_string_view option" where
  "format_text (View_char f) (Char_args a) = map_option View_char (vsprintf f a)"
| "format_text (View_wide f) (Wide_args a) = map_option View_wide (wvsprintf f a)"
| "format_text (View_u8 f) (Char_args a) = map_option (\<lambda>s. View_u8 (string_bytes s)) (vsprintf (bytes_string f) a)"
| "format_text f a = None"

text \<open>The number of characters \<open>vsnprintf\<close> counts, and what it writes into \<open>cap\<close> of them.\<close>

fun view_units :: "f_string_view \<Rightarrow> nat" where
  "view_units (View_char s) = length s"
| "view_units (View_wide s) = length s"
| "view_units (View_u8 s) = length s - 1"

fun cut_view :: "nat \<Rightarrow> f_string_view \<Rightarrow> f_string_view" where
  "cut_view cap (View_char s) = View_char (take (cap - 1) s)"
| "cut_view cap (View_wide s) = View_wide (take (cap - 1) s)"
| "cut_view cap (View_u8 s) = View_u8 (take (cap - 1) (butlast s) @ [0])"

text \<open>
  \<open>vsnprintf\<close> counts what it would have written; \<open>vswprintf\<close> fails when the text and its
  terminator do not fit.  The text that the format and its arguments give is an argument.
\<close>

definition vsnprintf_buffer :: "typed_buffer \<Rightarrow> f_string_view \<Rightarrow> int \<times> typed_buffer" where
  "vsnprintf_buffer buffer txt =
     (let width_capacity = typed_width_capacity buffer; n = view_units txt in
      if tb_type buffer = W_CHAR_BUF then
        (if n < width_capacity \<and> int n \<le> INT_MAX then (int n, buffer\<lparr>tb_str := Some txt\<rparr>)
         else (-1, buffer\<lparr>tb_str := Some (cut_view width_capacity txt)\<rparr>))
      else if int n > INT_MAX then (-1, buffer)
      else if width_capacity = 0 then (int n, buffer)
      else (int n, buffer\<lparr>tb_str := Some (cut_view width_capacity txt)\<rparr>))"

definition realloc_typed_without_copy :: "typed_buffer \<Rightarrow> typed_buffer" where
  "realloc_typed_without_copy buffer = buffer\<lparr>tb_str := None, tb_sz := tb_sz buffer * 2\<rparr>"

lemma vsnprintf_buffer_sz: "vsnprintf_buffer b txt = (v, b') \<Longrightarrow>
  tb_sz b' = tb_sz b \<and> tb_type b' = tb_type b \<and> (0 \<le> v \<longrightarrow> v = int (view_units txt))"
  by (auto simp: vsnprintf_buffer_def Let_def split: if_splits)

lemma width_capacity_ge: "tb_sz b < (typed_width_capacity b + 1) * 4"
proof -
  have "n < (n div 4 + 1) * 4" for n :: nat by presburger
  then show ?thesis by (cases "tb_type b") (auto simp: typed_width_capacity_def)
qed

text \<open>
  The loop of \<open>create_row_from_fmt_string\<close>: \<open>Some None\<close> is the jump to \<open>clear\<close>; a
  block of size 0 would be doubled for ever.
\<close>

function format_loop :: "typed_buffer \<Rightarrow> f_string_view \<Rightarrow> typed_buffer option option" where
  "format_loop buffer txt =
     (let (virtual_sz, b) = vsnprintf_buffer buffer txt in
      if virtual_sz < 0 then Some None
      else if nat virtual_sz < typed_width_capacity b then Some (Some b)
      else if tb_sz buffer = 0 then None
      else format_loop (realloc_typed_without_copy b) txt)"
  by pat_completeness auto

termination
proof (relation "measure (\<lambda>(b, txt). (view_units txt + 1) * 4 - tb_sz b)")
  fix buffer :: typed_buffer and w :: f_string_view and p v b
  assume p: "p = vsnprintf_buffer buffer w" "(v, b) = p"
    and v: "\<not> v < 0" "\<not> nat v < typed_width_capacity b" "tb_sz buffer \<noteq> 0"
  from p have sz: "tb_sz b = tb_sz buffer" "v = int (view_units w)"
    using vsnprintf_buffer_sz [of buffer w v b] v by auto
  with v have "typed_width_capacity b \<le> view_units w" by simp
  with width_capacity_ge [of b] have "tb_sz b < (view_units w + 1) * 4" by simp
  with sz v show "((realloc_typed_without_copy b, w), (buffer, w)) \<in> measure (\<lambda>(b, txt). (view_units txt + 1) * 4 - tb_sz b)"
    by (simp add: realloc_typed_without_copy_def)
qed simp

declare format_loop.simps [simp del]

definition create_typed_row_from_fmt_string :: "f_string_view \<Rightarrow> fmt_args \<Rightarrow> typed_row option option" where
  "create_typed_row_from_fmt_string fmt args = do {
     cols_origin \<leftarrow> number_of_columns_in_format_string fmt;
     txt \<leftarrow> format_text fmt args;
     res \<leftarrow> format_loop (create_typed_buffer DEFAULT_STR_BUF_SIZE (view_type fmt)) txt;
     (case res of
        None \<Rightarrow> Some None
      | Some buffer \<Rightarrow> do {
          cols \<leftarrow> number_of_columns_in_format_buffer buffer;
          if cols = cols_origin then do { row \<leftarrow> create_typed_row_from_buffer buffer; Some (Some row) }
          else if cols_origin = 1 then do {
            (cell, row) \<leftarrow> get_typed_cell_and_create create_row 0;
            (st, cell') \<leftarrow> fill_typed_cell_from_buffer cell buffer;
            if FT_IS_ERROR st then Some None else Some (Some (row[0 := Some cell']))
          }
          else Some None
        })
   }"

section \<open>Tables\<close>

definition ft_cur_row :: "('c, 'b) ft_table_of \<Rightarrow> nat" where
  "ft_cur_row table = cur_row table"

definition ft_cur_col :: "('c, 'b) ft_table_of \<Rightarrow> nat" where
  "ft_cur_col table = cur_col table"

fun copy_typed_rows :: "typed_row slots \<Rightarrow> typed_row slots \<Rightarrow> typed_row slots option option" where
  "copy_typed_rows [] result = Some (Some result)"
| "copy_typed_rows (slot # rs) result = do {
     row \<leftarrow> slot;
     new_row \<leftarrow> copy_typed_row row;
     (case new_row of None \<Rightarrow> Some None | Some r \<Rightarrow> copy_typed_rows rs (seq_push result r))
   }"

definition copy_typed_table :: "typed_table \<Rightarrow> typed_table option option" where
  "copy_typed_table table = do {
     let result = ft_create_table;
     rs \<leftarrow> copy_typed_rows (rows table) (rows result);
     (case rs of
        None \<Rightarrow> Some None
      | Some rs \<Rightarrow> do {
          ss \<leftarrow> copy_separators (separators table) (separators result);
          Some (Some (result\<lparr>rows := rs, separators := ss, properties := copy_table_properties (properties table),
                        cur_row := cur_row table, cur_col := cur_col table\<rparr>))
        })
   }"

text \<open>One cell: the column moves on only when the text was stored.\<close>

definition ft_write_view :: "typed_table \<Rightarrow> f_string_view \<Rightarrow> (int \<times> typed_table) option" where
  "ft_write_view table cell_content = do {
     (row, t1) \<leftarrow> get_row_and_create_if_not_exists table (cur_row table);
     let strategy = add_strategy (tprops (properties table));
     (cell, row1) \<leftarrow>
       (if strategy = FT_STRATEGY_INSERT then create_typed_cell_in_position row (cur_col table)
        else if strategy = FT_STRATEGY_REPLACE then get_typed_cell_and_create row (cur_col table)
        else None);
     (st, buf) \<leftarrow> fill_typed_buffer (str_buffer cell) cell_content;
     let t2 = t1\<lparr>rows := (rows t1)[cur_row table := Some (row1[cur_col table := Some (cell\<lparr>str_buffer := buf\<rparr>)])]\<rparr>;
     Some (st, if FT_IS_ERROR st then t2 else t2\<lparr>cur_col := cur_col t2 + 1\<rparr>)
   }"

text \<open>
  The arguments behind the first are read one by one; reading more than there are is a fault.
  \<open>--count\<close> is computed in \<open>size_t\<close>.
\<close>

fun nwrite_loop :: "typed_table \<Rightarrow> f_string_view list \<Rightarrow> nat \<Rightarrow> int \<Rightarrow> (int \<times> typed_table) option" where
  "nwrite_loop table va 0 st = Some (st, table)"
| "nwrite_loop table [] (Suc n) st = None"
| "nwrite_loop table (c # va) (Suc n) st = do {
     (st', t) \<leftarrow> ft_write_view table c;
     if FT_IS_ERROR st' then Some (st', t) else nwrite_loop t va n st'
   }"

definition nwrite_views :: "typed_table \<Rightarrow> nat \<Rightarrow> f_string_view \<Rightarrow> f_string_view list \<Rightarrow> (int \<times> typed_table) option" where
  "nwrite_views table n cell_content va = do {
     (st, t) \<leftarrow> ft_write_view table cell_content;
     if FT_IS_ERROR st then Some (st, t) else nwrite_loop t va ((n + 2 ^ 64 - 1) mod 2 ^ 64) st
   }"

text \<open>Going to the next line when a write succeeded.\<close>

definition then_ln :: "(int \<times> ('c, 'b) ft_table_of) option \<Rightarrow> (int \<times> ('c, 'b) ft_table_of) option" where
  "then_ln r = do {
     (st, t) \<leftarrow> r;
     if FT_IS_ERROR st then Some (st, t) else do { (u, t') \<leftarrow> ft_ln t; Some (st, t') }
   }"

definition ft_nwrite :: "typed_table \<Rightarrow> nat \<Rightarrow> string \<Rightarrow> string list \<Rightarrow> (int \<times> typed_table) option" where
  "ft_nwrite table n c va = nwrite_views table n (View_char c) (map View_char va)"

definition ft_nwrite_ln :: "typed_table \<Rightarrow> nat \<Rightarrow> string \<Rightarrow> string list \<Rightarrow> (int \<times> typed_table) option" where
  "ft_nwrite_ln table n c va = then_ln (nwrite_views table n (View_char c) (map View_char va))"

definition ft_nwwrite :: "typed_table \<Rightarrow> nat \<Rightarrow> int list \<Rightarrow> int list list \<Rightarrow> (int \<times> typed_table) option" where
  "ft_nwwrite table n c va = nwrite_views table n (View_wide c) (map View_wide va)"

definition ft_nwwrite_ln :: "typed_table \<Rightarrow> nat \<Rightarrow> int list \<Rightarrow> int list list \<Rightarrow> (int \<times> typed_table) option" where
  "ft_nwwrite_ln table n c va = then_ln (nwrite_views table n (View_wide c) (map View_wide va))"

definition ft_u8nwrite :: "typed_table \<Rightarrow> nat \<Rightarrow> byte list \<Rightarrow> byte list list \<Rightarrow> (int \<times> typed_table) option" where
  "ft_u8nwrite table n c va = nwrite_views table n (View_u8 c) (map View_u8 va)"

definition ft_u8nwrite_ln :: "typed_table \<Rightarrow> nat \<Rightarrow> byte list \<Rightarrow> byte list list \<Rightarrow> (int \<times> typed_table) option" where
  "ft_u8nwrite_ln table n c va = then_ln (nwrite_views table n (View_u8 c) (map View_u8 va))"

fun ft_row_wwrite :: "typed_table \<Rightarrow> int list list \<Rightarrow> (int \<times> typed_table) option" where
  "ft_row_wwrite table [] = Some (FT_SUCCESS, table)"
| "ft_row_wwrite table (c # cells) = do {
     (st, t) \<leftarrow> ft_write_view table (View_wide c);
     if FT_IS_ERROR st then Some (st, t) else ft_row_wwrite t cells
   }"

definition ft_row_wwrite_ln :: "typed_table \<Rightarrow> int list list \<Rightarrow> (int \<times> typed_table) option" where
  "ft_row_wwrite_ln table cells = then_ln (ft_row_wwrite table cells)"

fun ft_table_wwrite :: "typed_table \<Rightarrow> int list list list \<Rightarrow> (int \<times> typed_table) option" where
  "ft_table_wwrite table [] = Some (FT_SUCCESS, table)"
| "ft_table_wwrite table (r # rs) = do {
     (st, t) \<leftarrow> ft_row_wwrite table r;
     if FT_IS_ERROR st then Some (st, t)
     else if rs \<noteq> [] then do { (u, t') \<leftarrow> ft_ln t; ft_table_wwrite t' rs }
     else Some (FT_SUCCESS, t)
   }"

definition ft_table_wwrite_ln :: "typed_table \<Rightarrow> int list list list \<Rightarrow> (int \<times> typed_table) option" where
  "ft_table_wwrite_ln table table_cells = then_ln (ft_table_wwrite table table_cells)"

definition ft_table_write_ln :: "ft_table \<Rightarrow> string list list \<Rightarrow> (int \<times> ft_table) option" where
  "ft_table_write_ln table table_cells = then_ln (ft_table_write table table_cells)"

definition ft_row_printf_view :: "typed_table \<Rightarrow> nat \<Rightarrow> f_string_view \<Rightarrow> fmt_args \<Rightarrow> (int \<times> typed_table) option" where
  "ft_row_printf_view table row fmt va = do {
     new_row \<leftarrow> create_typed_row_from_fmt_string fmt va;
     (case new_row of
        None \<Rightarrow> Some (-1, table)
      | Some new_row \<Rightarrow> do {
          let rs = create_rows_up_to (rows table) row;
          let new_cols = columns_in_row new_row;
          cur \<leftarrow> slot_at rs row;
          let strategy = add_strategy (tprops (properties table));
          (st, cur', rest) \<leftarrow>
            (if strategy = FT_STRATEGY_INSERT then insert_typed_row cur new_row (cur_col table)
             else if strategy = FT_STRATEGY_REPLACE then Some (swap_row cur new_row (cur_col table))
             else None);
          let t1 = table\<lparr>rows := rs[row := Some cur']\<rparr>;
          if FT_IS_ERROR st then Some (-1, t1)
          else Some (to_int32 (int new_cols), t1\<lparr>cur_col := cur_col t1 + new_cols\<rparr>)
        })
   }"

definition ft_wprintf :: "typed_table \<Rightarrow> int list \<Rightarrow> wfmt_arg list \<Rightarrow> (int \<times> typed_table) option" where
  "ft_wprintf table fmt va = ft_row_printf_view table (cur_row table) (View_wide fmt) (Wide_args va)"

definition ft_wprintf_ln :: "typed_table \<Rightarrow> int list \<Rightarrow> wfmt_arg list \<Rightarrow> (int \<times> typed_table) option" where
  "ft_wprintf_ln table fmt va = then_ln (ft_row_printf_view table (cur_row table) (View_wide fmt) (Wide_args va))"

definition ft_u8printf :: "typed_table \<Rightarrow> byte list \<Rightarrow> fmt_arg list \<Rightarrow> (int \<times> typed_table) option" where
  "ft_u8printf table fmt va = ft_row_printf_view table (cur_row table) (View_u8 fmt) (Char_args va)"

definition ft_u8printf_ln :: "typed_table \<Rightarrow> byte list \<Rightarrow> fmt_arg list \<Rightarrow> (int \<times> typed_table) option" where
  "ft_u8printf_ln table fmt va = then_ln (ft_row_printf_view table (cur_row table) (View_u8 fmt) (Char_args va))"

end
