(* ===== verification/Fort_Typed_Spec.thy ===== *)
theory Fort_Typed_Spec
  imports Fort_Typed Fort_Build
begin

text \<open>
  What the typed tables do: a text becomes the cells between its separators, a format of each type
  gives its row, and tables of \<open>char\<close> cells behave as those of the theory Fort\_Table.
\<close>

section \<open>Rows of a text\<close>

definition cells_with :: "('a list \<Rightarrow> typed_cell) \<Rightarrow> 'a list list \<Rightarrow> typed_row" where
  "cells_with mk cs = map (\<lambda>s. Some (mk s)) cs"

definition strip_end :: "'a list list \<Rightarrow> 'a list list" where
  "strip_end cs = (if last cs = [] then butlast cs else cs)"

lemma typed_row_loop_cells:
  "typed_row_loop mk sep pos row n =
    (row @ cells_with mk (strip_end (split_on sep pos)), n + (length (split_on sep pos) - 1))"
proof (induction mk sep pos row n rule: typed_row_loop.induct)
  case (1 mk sep pos row n)
  show ?case
  proof (cases "pos = []")
    case True
    then show ?thesis by (subst typed_row_loop.simps) (simp add: cells_with_def strip_end_def)
  next
    case pos: False
    show ?thesis
    proof (rule strchr_cases [of pos sep])
      assume n: "strchr pos sep = None" "split_on sep pos = [pos]"
      then show ?thesis
        using pos by (simp add: typed_row_loop.simps [of mk sep pos] cells_with_def strip_end_def seq_push_def)
    next
      fix rest
      assume r: "strchr pos sep = Some (sep # rest)"
        "split_on sep pos = take (length pos - Suc (length rest)) pos # split_on sep rest"
      let ?w = "take (length pos - Suc (length rest)) pos"
      have "typed_row_loop mk sep pos row n = typed_row_loop mk sep rest (seq_push row (mk ?w)) (n + 1)"
        using pos r(1) by (simp add: typed_row_loop.simps [of mk sep pos])
      also have "\<dots> = (seq_push row (mk ?w) @ cells_with mk (strip_end (split_on sep rest)),
          n + 1 + (length (split_on sep rest) - 1))"
        using "1.IH" [OF pos r(1) refl] by simp
      finally show ?thesis
        using r(2) by (simp add: cells_with_def strip_end_def seq_push_def)
    qed
  qed
qed

lemma push_last_cell:
  "push_until (mk []) (cells_with mk (strip_end (split_on sep s))) (length (split_on sep s)) = cells_with mk (split_on sep s)"
proof (cases "last (split_on sep s) = []")
  case True
  let ?cs = "split_on sep s"
  have "?cs = butlast ?cs @ [[]]" using append_butlast_last_id [of ?cs] True by simp
  then have "cells_with mk ?cs = cells_with mk (butlast ?cs) @ [Some (mk [])]"
    by (metis cells_with_def list.simps(8,9) map_append)
  moreover have "length ?cs - length (butlast ?cs) = 1" by (simp add: Suc_leI)
  ultimately show ?thesis using True by (simp add: strip_end_def push_until_eq cells_with_def)
qed (simp add: strip_end_def push_until_eq cells_with_def)

lemma char_row_cells: "create_typed_row_from_string s = cells_with typed_text_cell (split_on g_col_separator s)"
  using push_last_cell [of typed_text_cell g_col_separator s]
  by (simp add: create_typed_row_from_string_def typed_row_loop_cells create_row_def)

lemma wide_row_cells: "create_row_from_wstring s = cells_with wide_text_cell (split_on wcol_separator s)"
  using push_last_cell [of wide_text_cell wcol_separator s]
  by (simp add: create_row_from_wstring_def typed_row_loop_cells create_row_def)

section \<open>Rows of a format\<close>

text \<open>A text as it stands in a buffer: UTF-8 text ends with its only terminator.\<close>

fun view_ok :: "f_string_view \<Rightarrow> bool" where
  "view_ok (View_u8 s) \<longleftrightarrow> (\<exists>t. s = t @ [0] \<and> 0 \<notin> set t)"
| "view_ok v \<longleftrightarrow> True"

lemma cut_view_id: "view_ok w \<Longrightarrow> view_units w < cap \<Longrightarrow> cut_view cap w = w"
  by (cases w) (auto simp: butlast_append)

text \<open>\<open>vsnprintf\<close> ends with the text in the buffer, however long it is.\<close>

lemma format_loop_narrow:
  "view_ok w \<Longrightarrow> tb_type b \<noteq> W_CHAR_BUF \<Longrightarrow> 0 < tb_sz b \<Longrightarrow> int (view_units w) \<le> INT_MAX \<Longrightarrow>
   \<exists>b'. format_loop b w = Some (Some b') \<and> tb_str b' = Some w"
proof (induction b w rule: format_loop.induct)
  case (1 b w)
  obtain v b1 where v: "vsnprintf_buffer b w = (v, b1)" by (cases "vsnprintf_buffer b w")
  have v0: "v = int (view_units w)" and b1: "tb_sz b1 = tb_sz b" "tb_type b1 = tb_type b"
    and str: "typed_width_capacity b \<noteq> 0 \<Longrightarrow> tb_str b1 = Some (cut_view (typed_width_capacity b) w)"
    using v "1.prems"(2,4) by (auto simp: vsnprintf_buffer_def Let_def split: if_splits)
  have cap: "typed_width_capacity b1 = typed_width_capacity b" using b1 by (simp add: typed_width_capacity_def)
  show ?case
  proof (cases "view_units w < typed_width_capacity b")
    case True
    then have "tb_str b1 = Some w" using str cut_view_id [OF "1.prems"(1) True] by simp
    with True v v0 cap show ?thesis by (subst format_loop.simps) simp
  next
    case False
    then have step: "format_loop b w = format_loop (realloc_typed_without_copy b1) w"
      using v v0 cap "1.prems"(3) by (subst format_loop.simps) simp
    have "\<exists>b'. format_loop (realloc_typed_without_copy b1) w = Some (Some b') \<and> tb_str b' = Some w"
      by (rule "1.IH" [OF v [symmetric] refl])
        (use "1.prems" False v0 b1 cap in \<open>simp_all add: realloc_typed_without_copy_def\<close>)
    with step show ?thesis by simp
  qed
qed

text \<open>\<open>vswprintf\<close> fails on a text as long as the first buffer.\<close>

lemma format_loop_wide:
  "tb_type b = W_CHAR_BUF \<Longrightarrow> int (tb_sz b) \<le> INT_MAX \<Longrightarrow>
   format_loop b w = Some (if view_units w < tb_sz b div 4 then Some (b\<lparr>tb_str := Some w\<rparr>) else None)"
  by (subst format_loop.simps)
    (auto simp: vsnprintf_buffer_def typed_width_capacity_def Let_def)

text \<open>The row of a format: its separators must be those of the text, unless it has none.\<close>

definition row_for :: "nat \<Rightarrow> typed_row \<Rightarrow> typed_cell \<Rightarrow> typed_row option" where
  "row_for n cells whole = (if length cells = n then Some cells else if n = 1 then Some [Some whole] else None)"

lemma create_first_cell: "get_typed_cell_and_create create_row 0 = Some (create_typed_cell, [Some create_typed_cell])"
  by (simp add: get_typed_cell_and_create_def create_row_def push_until_eq slot_at_def)

lemma char_fmt_row:
  assumes "vsprintf f a = Some t" and "int (length t) \<le> INT_MAX"
  shows "create_typed_row_from_fmt_string (View_char f) (Char_args a) =
    Some (row_for (length (split_on g_col_separator f)) (cells_with typed_text_cell (split_on g_col_separator t))
      (typed_text_cell t))"
proof -
  obtain b where b: "format_loop (create_typed_buffer DEFAULT_STR_BUF_SIZE CHAR_BUF) (View_char t) = Some (Some b)"
    "tb_str b = Some (View_char t)"
    using format_loop_narrow [of "View_char t" "create_typed_buffer DEFAULT_STR_BUF_SIZE CHAR_BUF"] assms(2)
    by (auto simp: create_typed_buffer_def DEFAULT_STR_BUF_SIZE_def)
  show ?thesis
    using assms b
    by (simp add: create_typed_row_from_fmt_string_def columns_number_split number_of_columns_in_format_buffer_def
      create_typed_row_from_buffer_def char_row_cells create_first_cell fill_typed_cell_from_buffer_def
      row_for_def cells_with_def typed_text_cell_def FT_SUCCESS_def fill_typed_cell_from_string_def fill_typed_from_string_def)
qed

lemma wide_columns: "columns_number_in_fmt_wstring f = length (split_on wcol_separator f)"
  using separators_from_split [of wcol_separator f 0] by (simp add: columns_number_in_fmt_wstring_def)

lemma wide_fmt_row:
  assumes "wvsprintf f a = Some t"
  shows "create_typed_row_from_fmt_string (View_wide f) (Wide_args a) = Some
    (if length t < DEFAULT_STR_BUF_SIZE
     then row_for (length (split_on wcol_separator f)) (cells_with wide_text_cell (split_on wcol_separator t)) (wide_text_cell t)
     else None)"
proof -
  let ?b = "create_typed_buffer DEFAULT_STR_BUF_SIZE W_CHAR_BUF"
  have "format_loop ?b (View_wide t) =
      Some (if length t < DEFAULT_STR_BUF_SIZE then Some (?b\<lparr>tb_str := Some (View_wide t)\<rparr>) else None)"
    by (subst format_loop_wide) (simp_all add: create_typed_buffer_def DEFAULT_STR_BUF_SIZE_def INT_MAX_def)
  with assms show ?thesis
    by (simp add: create_typed_row_from_fmt_string_def wide_columns number_of_columns_in_format_buffer_def
      create_typed_row_from_buffer_def wide_row_cells create_first_cell fill_typed_cell_from_buffer_def
      row_for_def cells_with_def wide_text_cell_def FT_SUCCESS_def fill_cell_from_wstring_def fill_buffer_from_wstring_def)
qed

section \<open>Tables of char cells\<close>

text \<open>A table of the theory Fort\_Table as a table of cells of all types.\<close>

definition as_typed_buffer :: "f_string_buffer \<Rightarrow> typed_buffer" where
  "as_typed_buffer b = \<lparr>tb_type = CHAR_BUF, tb_str = map_option View_char (sb_str b), tb_sz = data_sz b\<rparr>"

definition as_typed_cell :: "f_cell \<Rightarrow> typed_cell" where
  "as_typed_cell c = \<lparr>cell_type = cell_type c, str_buffer = as_typed_buffer (str_buffer c)\<rparr>"

abbreviation as_typed_row :: "f_row \<Rightarrow> typed_row" where
  "as_typed_row r \<equiv> map (map_option as_typed_cell) r"

definition as_typed_table :: "ft_table \<Rightarrow> typed_table" where
  "as_typed_table t = \<lparr>rows = map (map_option as_typed_row) (rows t), separators = separators t,
     properties = properties t, conv_buffer = map_option as_typed_buffer (conv_buffer t), cur_row = cur_row t, cur_col = cur_col t\<rparr>"

named_theorems slots_map

lemma slot_at_map [slots_map]: "slot_at (map (map_option f) s) i = map_option f (slot_at s i)"
  by (simp add: slot_at_def)

lemma push_map [slots_map]: "seq_push (map (map_option f) s) (f x) = map (map_option f) (seq_push s x)"
  by (simp add: seq_push_def)

lemma insert_map [slots_map]: "seq_insert (map (map_option f) s) (f x) i = map (map_option f) (seq_insert s x i)"
  by (simp add: seq_insert_def pad_slots_def take_map drop_map)

lemma update_map [slots_map]: "(map (map_option f) s)[i := Some (f x)] = map (map_option f) (s[i := Some x])"
  by (simp add: map_update)

lemma push_until_map [slots_map]: "push_until (f x) (map (map_option f) s) n = map (map_option f) (push_until x s n)"
  by (simp add: push_until_eq)

lemma swap_map [slots_map]: "seq_swap (map (map_option f) s) (map (map_option f) m) i =
    map_prod (map (map_option f)) (map (map_option f)) (seq_swap s m i)"
  by (simp add: seq_swap_def pad_slots_def take_map drop_map)

lemma split_map [slots_map]: "seq_split (map (map_option f) s) i =
    map_prod (map (map_option f)) (map (map_option f)) (seq_split s i)"
  by (simp add: seq_split_def take_map drop_map)

lemma create_up_to_push: "create_up_to row col = push_until create_cell row (col + 1)"
proof (induction row col rule: create_up_to.induct)
  case (1 row col)
  then show ?case
    by (subst create_up_to.simps, subst push_until.simps) (simp add: columns_in_row_def less_Suc_eq_le)
qed

lemma fill_row_to_push: "fill_row_to row n = push_until create_cell row n"
proof (induction row n rule: fill_row_to.induct)
  case (1 row n)
  then show ?case
    by (subst fill_row_to.simps, subst push_until.simps) (simp add: columns_in_row_def)
qed

lemma create_rows_push: "create_rows_up_to rs row = push_until create_row rs (row + 1)"
proof (induction rs row rule: create_rows_up_to.induct)
  case (1 rs row)
  then show ?case
    by (subst create_rows_up_to.simps, subst push_until.simps) (simp add: less_Suc_eq_le)
qed

lemma as_typed_create [simp]: "as_typed_cell create_cell = create_typed_cell"
  by (simp add: as_typed_cell_def create_cell_def create_typed_cell_def as_typed_buffer_def create_string_buffer_def
    create_typed_buffer_def)

lemma as_typed_text: "as_typed_cell (text_cell s) = typed_text_cell s"
  by (simp add: text_cell_def typed_text_cell_def fill_cell_from_string_def fill_buffer_from_string_def
    fill_typed_cell_from_string_def fill_typed_from_string_def as_typed_cell_def as_typed_buffer_def
    create_cell_def create_typed_cell_def create_string_buffer_def create_typed_buffer_def)

lemma as_typed_plain: "as_typed_row (plain_row cs) = cells_with typed_text_cell cs"
  by (simp add: plain_row_def cells_with_def as_typed_text)

lemma fill_as_typed: "fill_typed_from_string (as_typed_buffer b) s = (FT_SUCCESS, as_typed_buffer (b\<lparr>sb_str := Some s\<rparr>))"
  by (simp add: fill_typed_from_string_def as_typed_buffer_def)

lemma write_as_typed:
  "ft_write_view (as_typed_table t) (View_char s) = map_option (map_prod id as_typed_table) (ft_write_impl t s)"
proof -
  let ?rs = "push_until create_row (rows t) (cur_row t + 1)"
  let ?T = "map (map_option as_typed_row) ?rs"
  have rs: "push_until create_row (map (map_option as_typed_row) (rows t)) (cur_row t + 1) = ?T"
    using push_until_map [of as_typed_row create_row "rows t" "cur_row t + 1"] by (simp add: create_row_def)
  have cell: "get_typed_cell_and_create (as_typed_row r) c =
      map_option (map_prod as_typed_cell as_typed_row) (get_cell_and_create_if_not_exists r c)" for r c
    using push_until_map [of as_typed_cell create_cell r "c + 1"]
    by (simp add: get_typed_cell_and_create_def get_cell_and_create_if_not_exists_def create_up_to_push slots_map
      split: option.split)
      (cases "slot_at (push_until create_cell r (Suc c)) c"; simp)
  have ins: "create_typed_cell_in_position (as_typed_row r) c =
      map_option (map_prod as_typed_cell as_typed_row) (create_cell_in_position r c)" for r c
    using insert_map [of as_typed_cell r create_cell c]
    by (simp add: create_typed_cell_in_position_def create_cell_in_position_def slots_map Let_def)
      (cases "slot_at (seq_insert r create_cell c) c"; simp)
  note unfolds = ft_write_view_def ft_write_impl_def get_row_and_create_if_not_exists_def create_rows_push
    as_typed_table_def rs [simplified] slots_map
  show ?thesis
  proof (cases "slot_at ?rs (cur_row t)")
    case None
    then show ?thesis by (simp add: unfolds)
  next
    case (Some r)
    note row = this
    consider "add_strategy (tprops (properties t)) = FT_STRATEGY_INSERT"
      | "add_strategy (tprops (properties t)) = FT_STRATEGY_REPLACE"
      | "add_strategy (tprops (properties t)) \<noteq> FT_STRATEGY_INSERT" "add_strategy (tprops (properties t)) \<noteq> FT_STRATEGY_REPLACE"
      by blast
    then show ?thesis
    proof cases
      case 1
      with row ins [of r "cur_col t"] show ?thesis
        by (cases "create_cell_in_position r (cur_col t)")
          (auto simp: unfolds fill_as_typed as_typed_cell_def update_map [symmetric]
            fill_cell_from_string_def fill_buffer_from_string_def FT_SUCCESS_def Let_def)
    next
      case 2
      with row cell [of r "cur_col t"] show ?thesis
        by (cases "get_cell_and_create_if_not_exists r (cur_col t)")
          (auto simp: unfolds fill_as_typed as_typed_cell_def update_map [symmetric]
            fill_cell_from_string_def fill_buffer_from_string_def FT_SUCCESS_def Let_def)
    next
      case 3
      with row show ?thesis by (simp add: unfolds)
    qed
  qed
qed

lemma as_typed_sel [simp]:
  "rows (as_typed_table t) = map (map_option as_typed_row) (rows t)"
  "properties (as_typed_table t) = properties t" "cur_row (as_typed_table t) = cur_row t"
  "cur_col (as_typed_table t) = cur_col t" "separators (as_typed_table t) = separators t"
  by (simp_all add: as_typed_table_def)

lemma as_typed_update:
  "(as_typed_table t)\<lparr>cur_col := c\<rparr> = as_typed_table (t\<lparr>cur_col := c\<rparr>)"
  "(as_typed_table t)\<lparr>cur_row := r\<rparr> = as_typed_table (t\<lparr>cur_row := r\<rparr>)"
  "(as_typed_table t)\<lparr>rows := map (map_option as_typed_row) rs\<rparr> = as_typed_table (t\<lparr>rows := rs\<rparr>)"
  by (simp_all add: as_typed_table_def)

lemma split_as_typed:
  "split_cur_row (as_typed_table t) = map_option (map_prod (map_option as_typed_row) as_typed_table) (split_cur_row t)"
proof -
  have slot: "slot_at (map (map_option as_typed_row) (rows t)) i = map_option as_typed_row (slot_at (rows t) i)" for i
    by (simp add: slots_map)
  show ?thesis
    by (cases "slot_at (rows t) (cur_row t)")
      (auto simp: split_cur_row_def as_typed_table_def slot columns_in_row_def split_row_def split_map
        seq_split_def map_update take_map drop_map)
qed

lemma ln_as_typed: "ft_ln (as_typed_table t) = map_option (map_prod id as_typed_table) (ft_ln t)"
proof -
  have ins: "seq_insert (map (map_option as_typed_row) s) (as_typed_row r) i =
      map (map_option as_typed_row) (seq_insert s r i)" for s r i
    by (rule insert_map)
  consider "add_strategy (tprops (properties t)) = FT_STRATEGY_INSERT"
    | "add_strategy (tprops (properties t)) \<noteq> FT_STRATEGY_INSERT" by blast
  then show ?thesis
  proof cases
    case 1
    show ?thesis
    proof (cases "split_cur_row t")
      case None
      with 1 show ?thesis by (simp add: ft_ln_def split_as_typed)
    next
      case (Some p)
      then obtain r t1 where "split_cur_row t = Some (r, t1)" by (cases p) auto
      with 1 show ?thesis
        by (cases r) (simp_all add: ft_ln_def split_as_typed as_typed_update ins)
    qed
  next
    case 2
    then show ?thesis by (simp add: ft_ln_def as_typed_update Let_def)
  qed
qed

lemma fmt_as_typed:
  "create_typed_row_from_fmt_string (View_char f) (Char_args a) =
    map_option (map_option as_typed_row) (create_row_from_fmt_string f a)"
proof (cases "vsprintf f a")
  case None
  then show ?thesis by (simp add: create_typed_row_from_fmt_string_def create_row_from_fmt_string_def)
next
  case (Some t)
  show ?thesis
  proof (cases "int (length t) \<le> INT_MAX")
    case True
    with Some show ?thesis
      by (simp add: char_fmt_row create_row_fmt fmt_cells_def row_for_def cells_of_def as_typed_plain)
        (simp add: cells_with_def)
  next
    case False
    then have "format_loop (create_typed_buffer DEFAULT_STR_BUF_SIZE CHAR_BUF) (View_char t) = Some None"
      by (subst format_loop.simps) (simp add: vsnprintf_buffer_def create_typed_buffer_def Let_def)
    with Some False show ?thesis
      by (simp add: create_typed_row_from_fmt_string_def create_row_from_fmt_string_def)
  qed
qed

lemma insert_cells_map:
  "insert_cells (map (map_option f) s) (map (map_option f) m) i = map_option (map (map_option f)) (insert_cells s m i)"
proof (induction m arbitrary: s i)
  case (Cons slot m)
  then show ?case by (cases slot) (simp_all add: slots_map)
qed simp

lemma insert_row_as_typed:
  "insert_typed_row (as_typed_row r) (as_typed_row n) i =
    map_option (map_prod id (map_prod as_typed_row as_typed_row)) (insert_row r n i)"
  using push_until_map [of as_typed_cell create_cell r i] insert_cells_map [of as_typed_cell "push_until create_cell r i" n i]
  by (simp add: insert_typed_row_def insert_row_def fill_row_to_push)
    (cases "insert_cells (push_until create_cell r i) n i"; simp)

lemma swap_row_as_typed:
  "swap_row (as_typed_row r) (as_typed_row n) i = map_prod id (map_prod as_typed_row as_typed_row) (swap_row r n i)"
  by (simp add: swap_row_def columns_in_row_def slots_map)

lemma printf_as_typed:
  "ft_row_printf_view (as_typed_table t) row (View_char f) (Char_args a) =
    map_option (map_prod id as_typed_table) (ft_row_printf_impl t row f a)"
proof (cases "create_row_from_fmt_string f a")
  case None
  then show ?thesis by (simp add: ft_row_printf_view_def ft_row_printf_impl_def fmt_as_typed)
next
  case (Some o1)
  show ?thesis
  proof (cases o1)
    case None
    with Some show ?thesis by (simp add: ft_row_printf_view_def ft_row_printf_impl_def fmt_as_typed)
  next
    case new: (Some n)
    let ?rs = "push_until create_row (rows t) (row + 1)"
    have rs: "push_until create_row (map (map_option as_typed_row) (rows t)) (row + 1) = map (map_option as_typed_row) ?rs"
      using push_until_map [of as_typed_row create_row "rows t" "row + 1"] by (simp add: create_row_def)
    have upd: "(map (map_option as_typed_row) ss)[i := Some (as_typed_row r)] = map (map_option as_typed_row) (ss[i := Some r])"
      for ss r i by (rule update_map)
    have at: "slot_at (map (map_option as_typed_row) ss) i = map_option as_typed_row (slot_at ss i)" for ss i
      by (rule slot_at_map)
    note unfolds = ft_row_printf_view_def ft_row_printf_impl_def fmt_as_typed create_rows_push rs [simplified] at
      columns_in_row_def Let_def Some new
    show ?thesis
    proof (cases "slot_at ?rs row")
      case None
      then show ?thesis by (simp add: unfolds)
    next
      case (Some r)
      consider "add_strategy (tprops (properties t)) = FT_STRATEGY_INSERT"
        | "add_strategy (tprops (properties t)) = FT_STRATEGY_REPLACE"
        | "add_strategy (tprops (properties t)) \<noteq> FT_STRATEGY_INSERT" "add_strategy (tprops (properties t)) \<noteq> FT_STRATEGY_REPLACE"
        by blast
      then show ?thesis
      proof cases
        case 1
        with Some show ?thesis
          by (cases "insert_row r n (cur_col t)")
            (auto simp: unfolds insert_row_as_typed upd as_typed_update)
      next
        case 2
        with Some show ?thesis
          by (cases "swap_row r n (cur_col t)")
            (auto simp: unfolds swap_row_as_typed upd as_typed_update)
      next
        case 3
        with Some show ?thesis by (simp add: unfolds)
      qed
    qed
  qed
qed

section \<open>Copies\<close>

lemma copy_as_typed_cell: "copy_typed_cell (as_typed_cell c) = map_option (Some \<circ> as_typed_cell) (copy_cell c)"
  by (cases "sb_str (str_buffer c)")
    (auto simp: copy_typed_cell_def copy_cell_def copy_typed_buffer_def copy_string_buffer_def as_typed_cell_def
      as_typed_buffer_def fill_typed_from_string_def fill_buffer_from_string_def create_typed_buffer_def
      create_string_buffer_def create_typed_cell_def create_cell_def Let_def)

lemma copy_as_typed_cells:
  "copy_typed_cells (as_typed_row r) (as_typed_row s) = map_option (Some \<circ> as_typed_row) (copy_cells r s)"
proof (induction r arbitrary: s)
  case (Cons slot r)
  show ?case
  proof (cases slot)
    case (Some c)
    show ?thesis
    proof (cases "copy_cell c")
      case (Some d)
      with \<open>slot = Some c\<close> Cons.IH [of "seq_push s d"] show ?thesis
        by (simp add: copy_as_typed_cell push_map [symmetric])
    qed (use Some in \<open>simp add: copy_as_typed_cell\<close>)
  qed simp
qed simp

lemma copy_as_typed_rows:
  "copy_typed_rows (map (map_option as_typed_row) rs) (map (map_option as_typed_row) ss) =
     map_option (Some \<circ> map (map_option as_typed_row)) (copy_rows rs ss)"
proof (induction rs arbitrary: ss)
  case (Cons slot rs)
  have push: "seq_push (map (map_option as_typed_row) ss) (as_typed_row r) = map (map_option as_typed_row) (seq_push ss r)" for r
    by (rule push_map)
  have row: "copy_typed_row (as_typed_row r) = map_option (Some \<circ> as_typed_row) (copy_row r)" for r
    using copy_as_typed_cells [of r create_row] by (simp add: copy_typed_row_def copy_row_def create_row_def)
  show ?case
  proof (cases slot)
    case (Some c)
    show ?thesis
    proof (cases "copy_row c")
      case (Some d)
      with \<open>slot = Some c\<close> Cons.IH [of "seq_push ss d"] show ?thesis
        by (simp add: row push)
    qed (use Some in \<open>simp add: row\<close>)
  qed simp
qed simp

lemma copy_as_typed: "copy_typed_table (as_typed_table t) = map_option (Some \<circ> as_typed_table) (ft_copy_table t)"
proof -
  have rs: "copy_typed_rows (rows (as_typed_table t)) [] =
      map_option (Some \<circ> map (map_option as_typed_row)) (copy_rows (rows t) [])"
    using copy_as_typed_rows [of "rows t" "[]"] by (simp add: as_typed_table_def)
  show ?thesis
  proof (cases "copy_rows (rows t) []")
    case None
    with rs show ?thesis by (simp add: copy_typed_table_def ft_copy_table_def ft_create_table_def)
  next
    case (Some r)
    with rs show ?thesis
      by (cases "copy_separators (separators t) []")
        (simp_all add: copy_typed_table_def ft_copy_table_def ft_create_table_def, simp_all add: as_typed_table_def)
  qed
qed

text \<open>The table whose rows have the cells \<open>cs\<close>, each with its buffer initialised.\<close>

definition holds :: "typed_table \<Rightarrow> typed_cell list list \<Rightarrow> bool" where
  "holds t cs \<longleftrightarrow> rows t = map (\<lambda>r. Some (map Some r)) cs
     \<and> list_all (list_all (\<lambda>c. tb_str (str_buffer c) \<noteq> None)) cs \<and> list_all (\<lambda>s. s \<noteq> None) (separators t)"

definition is_u8 :: "typed_cell \<Rightarrow> bool" where
  "is_u8 c \<longleftrightarrow> (\<exists>s. tb_str (str_buffer c) = Some (View_u8 s))"

text \<open>What a cell shows.\<close>

definition shown :: "typed_cell \<Rightarrow> f_cell_type \<times> f_string_view option" where
  "shown c = (cell_type c, tb_str (str_buffer c))"

lemma copy_typed_cell_cases:
  assumes "tb_str (str_buffer c) \<noteq> None"
  shows "if is_u8 c then copy_typed_cell c = Some None
    else \<exists>d. copy_typed_cell c = Some (Some d) \<and> shown d = shown c"
proof -
  from assms obtain v where "tb_str (str_buffer c) = Some v" by auto
  then show ?thesis
    by (cases v) (simp_all add: copy_typed_cell_def copy_typed_buffer_def is_u8_def shown_def Let_def
      fill_typed_from_string_def fill_buffer_from_wstring_def)
qed

lemma copy_typed_cells_cases:
  "list_all (\<lambda>c. tb_str (str_buffer c) \<noteq> None) r \<Longrightarrow>
   if list_ex is_u8 r then copy_typed_cells (map Some r) res = Some None
   else \<exists>d. copy_typed_cells (map Some r) res = Some (Some (res @ map Some d)) \<and> map shown d = map shown r"
proof (induction r arbitrary: res)
  case (Cons c r)
  show ?case
  proof (cases "is_u8 c")
    case True
    with copy_typed_cell_cases [of c] Cons.prems show ?thesis by simp
  next
    case False
    with copy_typed_cell_cases [of c] Cons.prems obtain d where d: "copy_typed_cell c = Some (Some d)" "shown d = shown c"
      by auto
    from Cons.IH [of "seq_push res d"] Cons.prems d False show ?thesis
      by (auto simp: seq_push_def split: if_splits intro: exI [of _ "d # _"])
  qed
qed (simp add: exI [of _ "[]"])

lemma copy_typed_rows_cases:
  "list_all (list_all (\<lambda>c. tb_str (str_buffer c) \<noteq> None)) cs \<Longrightarrow>
   if list_ex (list_ex is_u8) cs then copy_typed_rows (map (\<lambda>r. Some (map Some r)) cs) res = Some None
   else \<exists>ds. copy_typed_rows (map (\<lambda>r. Some (map Some r)) cs) res = Some (Some (res @ map (\<lambda>r. Some (map Some r)) ds))
     \<and> map (map shown) ds = map (map shown) cs"
proof (induction cs arbitrary: res)
  case (Cons r cs)
  show ?case
  proof (cases "list_ex is_u8 r")
    case True
    with copy_typed_cells_cases [of r create_row] Cons.prems show ?thesis by (simp add: copy_typed_row_def)
  next
    case False
    with copy_typed_cells_cases [of r create_row] Cons.prems
    obtain d where d: "copy_typed_row (map Some r) = Some (Some (map Some d))" "map shown d = map shown r"
      by (auto simp: copy_typed_row_def create_row_def)
    from Cons.IH [of "seq_push res (map Some d)"] Cons.prems d False show ?thesis
      by (auto simp: seq_push_def split: if_splits intro: exI [of _ "d # _"])
  qed
qed (simp add: exI [of _ "[]"])

lemma copy_separators_all: "list_all (\<lambda>s. s \<noteq> None) ss \<Longrightarrow> copy_separators ss res = Some (res @ ss)"
  by (induction ss arbitrary: res) (auto simp: seq_push_def)

section \<open>Writing cells\<close>

text \<open>With the strategy that replaces cells, the cells before the current one exist after a write.\<close>

definition replacing :: "('c, 'b) ft_table_of \<Rightarrow> bool" where
  "replacing t \<longleftrightarrow> add_strategy (tprops (properties t)) = FT_STRATEGY_REPLACE"

text \<open>No slot of the rows and of their cells is uninitialised.\<close>

definition full :: "typed_table \<Rightarrow> bool" where
  "full t \<longleftrightarrow> (\<exists>cs. rows t = map (\<lambda>r. Some (map Some r)) cs)"

fun readable :: "f_string_view \<Rightarrow> bool" where
  "readable (View_u8 s) \<longleftrightarrow> 0 \<in> set s"
| "readable v \<longleftrightarrow> True"

text \<open>The text as it is stored: UTF-8 text ends at its first terminator.\<close>

fun stored :: "f_string_view \<Rightarrow> f_string_view" where
  "stored (View_u8 s) = View_u8 (takeWhile (\<lambda>b. b \<noteq> 0) s @ [0])"
| "stored v = v"

definition text_at :: "typed_table \<Rightarrow> nat \<Rightarrow> nat \<Rightarrow> f_string_view option" where
  "text_at t r c = do {
     row \<leftarrow> slot_at (rows t) r;
     cell \<leftarrow> slot_at row c;
     tb_str (str_buffer cell)
   }"

lemma dup_bytes: "0 \<in> set s \<Longrightarrow> utf8dup (\<lambda>_. True) s = Some (Some (takeWhile (\<lambda>b. b \<noteq> 0) s @ [0]))"
proof -
  assume "0 \<in> set s"
  then obtain ys r where s: "s = ys @ 0 # r" "0 \<notin> set ys" using split_list_first by metis
  then have "takeWhile (\<lambda>b. b \<noteq> 0) s = ys" by (simp add: takeWhile_append2 takeWhile_tail) (metis takeWhile_eq_all_conv)
  with s dup_block [of ys r] show ?thesis by simp
qed

lemma fill_readable:
  "readable v \<Longrightarrow> \<exists>b'. fill_typed_buffer b v = Some (FT_SUCCESS, b') \<and> tb_str b' = Some (stored v)"
  by (cases v) (simp_all add: fill_typed_from_string_def fill_buffer_from_wstring_def fill_buffer_from_u8string_def dup_bytes)

lemma write_view:
  assumes "full t" and "replacing t" and "readable v"
  shows "\<exists>t'. ft_write_view t v = Some (FT_SUCCESS, t') \<and> full t' \<and> replacing t'
     \<and> cur_row t' = cur_row t \<and> cur_col t' = cur_col t + 1
     \<and> text_at t' (cur_row t) (cur_col t) = Some (stored v)
     \<and> (\<forall>r c x. text_at t r c = Some x \<longrightarrow> (r, c) \<noteq> (cur_row t, cur_col t) \<longrightarrow> text_at t' r c = Some x)"
proof -
  obtain cs where cs: "rows t = map (\<lambda>r. Some (map Some r)) cs" using assms(1) by (auto simp: full_def)
  define ds where "ds = cs @ replicate (cur_row t + 1 - length cs) []"
  have rs: "create_rows_up_to (rows t) (cur_row t) = map (\<lambda>r. Some (map Some r)) ds"
    by (simp add: create_rows_push push_until_eq cs ds_def create_row_def)
  have r: "cur_row t < length ds" by (simp add: ds_def)
  define e where "e = ds ! cur_row t @ replicate (cur_col t + 1 - length (ds ! cur_row t)) create_typed_cell"
  have row: "push_until create_typed_cell (map Some (ds ! cur_row t)) (cur_col t + 1) = map Some e"
    by (simp add: push_until_eq e_def)
  have c: "cur_col t < length e" by (simp add: e_def)
  obtain b' where b: "fill_typed_buffer (str_buffer (e ! cur_col t)) v = Some (FT_SUCCESS, b')" "tb_str b' = Some (stored v)"
    using fill_readable [OF assms(3)] by blast
  let ?ds = "ds[cur_row t := e[cur_col t := (e ! cur_col t)\<lparr>str_buffer := b'\<rparr>]]"
  let ?t = "t\<lparr>rows := map (\<lambda>r. Some (map Some r)) ?ds, cur_col := cur_col t + 1\<rparr>"
  have "ft_write_view t v = Some (FT_SUCCESS, ?t)"
    using assms(2) r c row b(1)
    by (simp add: ft_write_view_def get_row_and_create_if_not_exists_def rs slot_at_def replacing_def
      get_typed_cell_and_create_def Let_def FT_SUCCESS_def map_update)
  moreover have "full ?t" by (auto simp: full_def)
  moreover have "replacing ?t" using assms(2) by (simp add: replacing_def)
  moreover have "text_at ?t (cur_row t) (cur_col t) = Some (stored v)"
    using r c b(2) by (simp add: text_at_def slot_at_def)
  moreover have "text_at ?t i j = Some x" if x: "text_at t i j = Some x" "(i, j) \<noteq> (cur_row t, cur_col t)" for i j x
  proof -
    have i: "i < length cs" "j < length (cs ! i)" "tb_str (str_buffer (cs ! i ! j)) = Some x"
      using x(1) by (auto simp: text_at_def cs slot_at_def split: if_splits)
    then have d: "ds ! i = cs ! i" "i < length ds" by (auto simp: ds_def nth_append)
    show ?thesis
    proof (cases "i = cur_row t")
      case True
      then have "e ! j = cs ! i ! j" "j < length e" using i d by (auto simp: e_def nth_append)
      with True x(2) i d show ?thesis by (simp add: text_at_def slot_at_def)
    next
      case False
      with i d show ?thesis by (simp add: text_at_def slot_at_def)
    qed
  qed
  ultimately show ?thesis by (intro exI [of _ ?t]) simp
qed

lemma nwrite_loop_all:
  "full t \<Longrightarrow> replacing t \<Longrightarrow> list_all readable va \<Longrightarrow> n \<le> length va \<Longrightarrow>
   \<exists>t'. nwrite_loop t va n FT_SUCCESS = Some (FT_SUCCESS, t') \<and> full t' \<and> replacing t'
     \<and> cur_row t' = cur_row t \<and> cur_col t' = cur_col t + n
     \<and> (\<forall>i < n. text_at t' (cur_row t) (cur_col t + i) = Some (stored (va ! i)))
     \<and> (\<forall>c x. text_at t (cur_row t) c = Some x \<longrightarrow> c < cur_col t \<longrightarrow> text_at t' (cur_row t) c = Some x)"
proof (induction n arbitrary: t va)
  case (Suc n)
  then obtain v va' where va: "va = v # va'" by (cases va) auto
  from write_view [of t v] Suc.prems va obtain t1 where t1: "ft_write_view t v = Some (FT_SUCCESS, t1)" "full t1" "replacing t1"
    "cur_row t1 = cur_row t" "cur_col t1 = cur_col t + 1" "text_at t1 (cur_row t) (cur_col t) = Some (stored v)"
    and keep: "\<And>r c x. text_at t r c = Some x \<Longrightarrow> (r, c) \<noteq> (cur_row t, cur_col t) \<Longrightarrow> text_at t1 r c = Some x"
    by auto
  from Suc.IH [of t1 va'] t1 Suc.prems va obtain t2 where t2: "nwrite_loop t1 va' n FT_SUCCESS = Some (FT_SUCCESS, t2)"
    "full t2" "replacing t2" "cur_row t2 = cur_row t" "cur_col t2 = cur_col t + Suc n"
    "\<And>i. i < n \<Longrightarrow> text_at t2 (cur_row t) (cur_col t + 1 + i) = Some (stored (va' ! i))"
    "\<And>c x. text_at t1 (cur_row t) c = Some x \<Longrightarrow> c < cur_col t + 1 \<Longrightarrow> text_at t2 (cur_row t) c = Some x"
    by auto
  have "text_at t2 (cur_row t) (cur_col t + i) = Some (stored (va ! i))" if "i < Suc n" for i
    using that t2(6) [of "i - 1"] t2(7) [OF t1(6)] va by (cases i) auto
  moreover have "text_at t2 (cur_row t) c = Some x" if "text_at t (cur_row t) c = Some x" "c < cur_col t" for c x
    using keep [OF that(1)] that(2) t2(7) by simp
  ultimately show ?case using t1(1) t2 va by (intro exI [of _ t2]) (simp add: FT_SUCCESS_def)
qed simp

lemma nwrite_loop_short:
  "full t \<Longrightarrow> replacing t \<Longrightarrow> list_all readable va \<Longrightarrow> length va < n \<Longrightarrow> nwrite_loop t va n st = None"
proof (induction n arbitrary: t va st)
  case (Suc n)
  show ?case
  proof (cases va)
    case (Cons v va')
    with write_view [of t v] Suc.prems Suc.IH show ?thesis by (fastforce simp: FT_SUCCESS_def)
  qed simp
qed simp

end
