(* ===== verification/Text_Correct.thy ===== *)
theory Text_Correct
  imports Fort_Typed_Spec
begin

text \<open>
  What the text functions bundled in libfort guarantee: UTF-8 strings seen as lists of code points,
  the width of wide characters, the lines of a cell with UTF-8 text, and the tables whose cells hold
  text of all three types.
\<close>

section \<open>UTF-8\<close>

text \<open>C10: The validation accepts exactly the blocks that begin with encoded code points and a
  terminator; the code points are determined by the block, and the length counts them.\<close>

theorem utf8_valid_texts:
  "utf8valid s = Some None \<longleftrightarrow>
     (\<exists>!p. text_ok (fst p) \<and> s = utf8_text (fst p) @ 0 # snd p \<and> utf8len s = Some (length (fst p)))"
proof
  assume "utf8valid s = Some None"
  then obtain cps r where s: "text_ok cps" "s = utf8_text cps @ 0 # r" using valid_is_text by blast
  show "\<exists>!p. text_ok (fst p) \<and> s = utf8_text (fst p) @ 0 # snd p \<and> utf8len s = Some (length (fst p))"
  proof (rule ex1I [of _ "(cps, r)"])
    fix p
    assume p: "text_ok (fst p) \<and> s = utf8_text (fst p) @ 0 # snd p \<and> utf8len s = Some (length (fst p))"
    then have "fst p = cps \<and> snd p = r" using text_inj [of "fst p" cps "snd p" r] s by metis
    then show "p = (cps, r)" by (simp add: prod_eq_iff)
  qed (use s len_text in auto)
next
  assume "\<exists>!p. text_ok (fst p) \<and> s = utf8_text (fst p) @ 0 # snd p \<and> utf8len s = Some (length (fst p))"
  then show "utf8valid s = Some None" using valid_text by metis
qed

text \<open>C24: A code point written with enough room is read back, and nothing behind it changes.\<close>

theorem utf8_codepoint_roundtrip:
  assumes "code_ok c" and "utf8codepointsize c \<le> n" and "utf8codepointsize c \<le> length s"
  shows "\<exists>s'. utf8catcodepoint s c n = Some (Some (drop (utf8codepointsize c) s), s')
     \<and> utf8codepoint s' = Some (drop (utf8codepointsize c) s, c) \<and> length s' = length s"
proof -
  have "length (utf8bytes c) = utf8codepointsize c" using assms(1) by (intro bytes_size) (simp add: code_ok_def)
  with assms codepoint_bytes [OF assms(1)] show ?thesis by (simp add: utf8catcodepoint_def)
qed

theorem utf8_codepoint_roundtrip_witness:
  "\<exists>s'. utf8catcodepoint [1, 2, 3, 4] 0xAC00 4 = Some (Some [4], s') \<and> utf8codepoint s' = Some ([4], 0xAC00)"
  using utf8_codepoint_roundtrip [of "0xAC00" 4 "[1, 2, 3, 4]"]
  by (auto simp: code_ok_def utf8codepointsize_def)

text \<open>C23: The search finds the first place where the code points of the needle stand among those of the
  text, and returns NULL when there is none; the search for one code point is that for its text.\<close>

theorem utf8_first_occurrence:
  assumes "text_ok cps" and "text_ok ds" and "ds \<noteq> []" and "code_ok c"
  shows "(if sublist ds cps
      then \<exists>k. prefix ds (drop k cps) \<and> (\<forall>j < k. \<not> prefix ds (drop j cps))
        \<and> utf8str (utf8_text cps @ 0 # r) (utf8_text ds @ 0 # t) = Some (Some (utf8_text (drop k cps) @ 0 # r))
      else utf8str (utf8_text cps @ 0 # r) (utf8_text ds @ 0 # t) = Some None)
    \<and> utf8chr (utf8_text cps @ 0 # r) c = utf8str (utf8_text cps @ 0 # r) (utf8_text [c] @ 0 # t)"
proof
  note str = str_text [OF assms(2,3,1), of r t]
  show "if sublist ds cps
      then \<exists>k. prefix ds (drop k cps) \<and> (\<forall>j < k. \<not> prefix ds (drop j cps))
        \<and> utf8str (utf8_text cps @ 0 # r) (utf8_text ds @ 0 # t) = Some (Some (utf8_text (drop k cps) @ 0 # r))
      else utf8str (utf8_text cps @ 0 # r) (utf8_text ds @ 0 # t) = Some None"
  proof (cases "sublist ds cps")
    case True
    then obtain xs ys where "cps = xs @ ds @ ys" by (auto simp: sublist_def)
    then have ex: "prefix ds (drop (length xs) cps)" by simp
    define k where "k = (LEAST k. prefix ds (drop k cps))"
    have k: "prefix ds (drop k cps)" unfolding k_def by (rule LeastI [of "\<lambda>k. prefix ds (drop k cps)", OF ex])
    have before: "\<not> prefix ds (drop j cps)" if "j < k" for j using that not_less_Least unfolding k_def by blast
    have "k < length cps" using k assms(3) by (cases "k < length cps") auto
    with str find_text_first [OF k _ before] k before True show ?thesis by auto
  next
    case False
    with str find_text_None [of ds cps] assms(3) show ?thesis by simp
  qed
  show "utf8chr (utf8_text cps @ 0 # r) c = utf8str (utf8_text cps @ 0 # r) (utf8_text [c] @ 0 # t)"
    using str_text [of "[c]" cps r] assms(1,4) by (simp add: utf8chr_def chr_string_text code_ok_def)
qed

theorem utf8_first_occurrence_witness:
  "utf8str [0x61, 0xC3, 0xA9, 0x62, 0] [0x62, 0] = Some (Some [0x62, 0])"
proof -
  have "utf8_text [0x61, 0xE9, 0x62] = [0x61, 0xC3, 0xA9, 0x62]" "utf8_text [0x62] = [0x62]" by code_simp+
  moreover have sub: "sublist [0x62] [0x61, 0xE9, 0x62 :: int]"
    unfolding sublist_def by (rule exI [of _ "[0x61, 0xE9]"]) simp
  ultimately obtain k where k: "prefix [0x62] (drop k [0x61, 0xE9, 0x62 :: int])"
    "utf8str [0x61, 0xC3, 0xA9, 0x62, 0] [0x62, 0] = Some (Some (utf8_text (drop k [0x61, 0xE9, 0x62]) @ [0]))"
    using utf8_first_occurrence [of "[0x61, 0xE9, 0x62]" "[0x62]" "0x62" "[]" "[]", THEN conjunct1]
    by (auto simp: code_ok_def simp del: utf8_text_simps)
  from k(1) have "k = 2" by (cases k rule: nat.exhaust; cases "k - 1"; cases "k - 2") auto
  with k(2) \<open>utf8_text [0x62] = [0x62]\<close> show ?thesis by (simp del: utf8_text_simps)
qed

text \<open>Two texts are compared in the order of their code points.\<close>

lemma utf8_order:
  assumes "text_ok xs" and "text_ok ys"
  shows "utf8cmp (utf8_text xs @ 0 # s) (utf8_text ys @ 0 # t) =
    Some (if xs = ys then 0 else if xs < ys then -1 else 1)"
  by (rule text_cmp [OF assms])

lemma utf8_order_witness: "utf8cmp [0xC3, 0xA9, 0] [0xE2, 0x82, 0xAC, 0] = Some (-1)"
proof -
  have "utf8_text [0xE9] = [0xC3, 0xA9]" "utf8_text [0x20AC] = [0xE2, 0x82, 0xAC]" by code_simp+
  then show ?thesis using utf8_order [of "[0xE9]" "[0x20AC]" "[]" "[]"] by (simp add: code_ok_def)
qed

text \<open>C25: Lower case is put in place: the text keeps its length in bytes and in code points.  The comparison
  without case finds two texts equal exactly when their lower-case texts are.\<close>

theorem utf8_lower_case:
  assumes "text_ok xs" and "text_ok ys"
  shows "\<exists>X Y. utf8lwr (utf8_text xs @ 0 # s) = Some X \<and> utf8lwr (utf8_text ys @ 0 # t) = Some Y
     \<and> X = utf8_text (map utf8lwrcodepoint xs) @ 0 # s
     \<and> length X = length (utf8_text xs @ 0 # s) \<and> utf8len X = Some (length xs)
     \<and> (utf8casecmp (utf8_text xs @ 0 # s) (utf8_text ys @ 0 # t) = Some 0 \<longleftrightarrow> utf8cmp X Y = Some 0)"
proof -
  note ok = recode_ok [of utf8lwrcodepoint, OF lower_same]
  have "utf8len (utf8_text (map utf8lwrcodepoint xs) @ 0 # s) = Some (length xs)"
    using len_text ok [OF assms(1)] by simp
  moreover have "utf8cmp (utf8_text (map utf8lwrcodepoint xs) @ 0 # s) (utf8_text (map utf8lwrcodepoint ys) @ 0 # t)
      = Some 0 \<longleftrightarrow> map utf8lwrcodepoint xs = map utf8lwrcodepoint ys"
    using text_cmp ok assms by simp
  ultimately show ?thesis
    using lwr_text [OF assms(1), of s] lwr_text [OF assms(2), of t] ok [OF assms(1)]
      casecmp_text [OF assms, of s t] case_order_0 [of xs ys] by simp
qed

theorem utf8_lower_case_witness:
  "\<exists>X. utf8lwr [0xC3, 0x89, 0] = Some X \<and> length X = 3 \<and> utf8casecmp [0xC3, 0x89, 0] [0xC3, 0xA9, 0] = Some 0"
proof -
  have t: "utf8_text [0xC9] = [0xC3, 0x89]" "utf8_text [0xE9] = [0xC3, 0xA9]" by code_simp+
  have "utf8lwr [0xC3, 0xA9, 0] = Some [0xC3, 0xA9, 0]" "utf8lwr [0xC3, 0x89, 0] = Some [0xC3, 0xA9, 0]"
    by code_simp+
  moreover have "utf8cmp [0xC3, 0xA9, 0] [0xC3, 0xA9, 0] = Some 0" by code_simp
  ultimately show ?thesis
    using utf8_lower_case [of "[0xC9]" "[0xE9]" "[]" "[]"] unfolding t by (simp add: code_ok_def)
qed

text \<open>The order of the comparison without case is none: it is not transitive.\<close>

lemma utf8_case_order:
  "utf8casecmp [0x42, 0] [0x61, 0] = Some (-1) \<and> utf8casecmp [0x61, 0] [0x62, 0] = Some (-1)
   \<and> utf8casecmp [0x42, 0] [0x62, 0] = Some 0"
  by code_simp

text \<open>The first code point of a set is found by utf8pbrk, but utf8cspn and utf8spn
  pass over the last one of the set, so a set of one code point is never matched by them.\<close>

theorem utf8_sets:
  assumes "text_ok cps" and "text_ok ds"
  shows "utf8pbrk (utf8_text cps @ 0 # r) (utf8_text ds @ 0 # t) =
      Some (case dropWhile (\<lambda>x. x \<notin> set ds) cps of [] \<Rightarrow> None | x # xs \<Rightarrow> Some (utf8_text (x # xs) @ 0 # r))
    \<and> utf8cspn (utf8_text cps @ 0 # r) (utf8_text ds @ 0 # t) =
      Some (length (takeWhile (\<lambda>x. x \<notin> set (butlast ds)) cps))
    \<and> utf8spn (utf8_text cps @ 0 # r) (utf8_text ds @ 0 # t) =
      Some (length (takeWhile (\<lambda>x. x \<in> set (butlast ds)) cps))"
proof (intro conjI)
  show "utf8pbrk (utf8_text cps @ 0 # r) (utf8_text ds @ 0 # t) =
      Some (case dropWhile (\<lambda>x. x \<notin> set ds) cps of [] \<Rightarrow> None | x # xs \<Rightarrow> Some (utf8_text (x # xs) @ 0 # r))"
    by (rule pbrk_text [OF assms(2,1)])
  show "utf8cspn (utf8_text cps @ 0 # r) (utf8_text ds @ 0 # t) =
      Some (length (takeWhile (\<lambda>x. x \<notin> set (butlast ds)) cps))"
    using cspn_text [OF assms(2,1), of r t 0] by (simp add: utf8cspn_def)
  show "utf8spn (utf8_text cps @ 0 # r) (utf8_text ds @ 0 # t) =
      Some (length (takeWhile (\<lambda>x. x \<in> set (butlast ds)) cps))"
    using spn_text [OF assms(2,1), of r t 0] by (simp add: utf8spn_def)
qed

theorem utf8_sets_witness:
  "utf8cspn [0x61, 0x2C, 0] [0x2C, 0] = Some 2 \<and> utf8pbrk [0x61, 0x2C, 0] [0x2C, 0] = Some (Some [0x2C, 0])"
proof -
  have "utf8_text [0x61, 0x2C] = [0x61, 0x2C]" "utf8_text [0x2C] = [0x2C]" by code_simp+
  then show ?thesis using utf8_sets [of "[0x61, 0x2C]" "[0x2C]" "[]" "[]"] by (simp add: code_ok_def)
qed

section \<open>Wide characters\<close>

text \<open>C26: The width of a character, found by the binary search, is that of a search through the whole
  table of combining characters; the width of a string is the sum of these widths, or -1 when it has
  a control character.\<close>

theorem wcwidth_linear:
  assumes "0 \<notin> set ws"
  shows "mk_wcwidth c = Some
      (if c = 0 then 0 else if c < 32 \<or> (0x7F \<le> c \<and> c < 0xA0) then -1
       else if list_ex (\<lambda>(lo, hi). lo \<le> c \<and> c \<le> hi) combining then 0 else if two_columns c then 2 else 1)
    \<and> mk_wcswidth (ws @ 0 # r) n = Some (if \<exists>x \<in> set (take n ws). mk_wcwidth x = Some (-1) then -1
      else sum_list (map (\<lambda>x. the (mk_wcwidth x)) (take n ws)))"
proof
  have "in_interval c = (\<lambda>(lo, hi). lo \<le> c \<and> c \<le> hi)" by (auto simp: in_interval_def)
  then show "mk_wcwidth c = Some
      (if c = 0 then 0 else if c < 32 \<or> (0x7F \<le> c \<and> c < 0xA0) then -1
       else if list_ex (\<lambda>(lo, hi). lo \<le> c \<and> c \<le> hi) combining then 0 else if two_columns c then 2 else 1)"
    using wcwidth_cases [of c] by simp
  have "wcwidth_of x < 0 \<longleftrightarrow> mk_wcwidth x = Some (-1)" for x
    using wcwidth_of [of x] wcwidth_range [of x] by auto
  then show "mk_wcswidth (ws @ 0 # r) n = Some (if \<exists>x \<in> set (take n ws). mk_wcwidth x = Some (-1) then -1
      else sum_list (map (\<lambda>x. the (mk_wcwidth x)) (take n ws)))"
    using wcswidth_loop_text [OF assms, of r n 0] by (simp add: mk_wcswidth_def wcwidth_of_def [abs_def])
qed

theorem wcwidth_linear_witness: "mk_wcwidth 0x0301 = Some 0 \<and> mk_wcswidth [0x41, 0xAC00, 0] 2 = Some 3"
proof -
  have "mk_wcwidth 0x41 = Some 1" "mk_wcwidth 0xAC00 = Some 2" "mk_wcwidth 0x0301 = Some 0" by code_simp+
  with wcwidth_linear [of "[0x41, 0xAC00]" "0x0301" "[]" 2] show ?thesis by simp
qed

section \<open>Cells with UTF-8 text\<close>

lemma fold_max_lines: "fold max (map f (split_on c s)) (0 :: nat) = Max (set (map f (split_on c s)))"
proof -
  have "fold max xs 0 = Max (set xs)" if "xs \<noteq> []" for xs :: "nat list"
    using that by (simp add: Max.set_eq_fold [symmetric])
  then show ?thesis by simp
qed

text \<open>A buffer filled with UTF-8 text has the lines of its code points: its height is their number, its
  width the largest number of columns, and each line is cut out with its width.  But a copy of the
  buffer fails.\<close>

theorem fort_u8_lines:
  assumes "text_ok cps"
    and "fill_buffer_from_u8string b0 (utf8_text cps @ 0 # r) = Some (st, b)"
  shows "st = FT_SUCCESS
     \<and> typed_visible_height b = Some (if cps = [] then 0 else length (split_on wnewline cps))
     \<and> typed_visible_width None b = Some (Max (set (map text_columns (split_on wnewline cps))))
     \<and> typed_substring None b n =
       Some (if n < length (split_on wnewline cps)
         then Some (View_u8 (utf8_text (split_on wnewline cps ! n) @ [0]), int (text_columns (split_on wnewline cps ! n)))
         else None)
     \<and> copy_typed_buffer b = Some None"
proof -
  let ?s = "utf8_text cps @ [0]"
  have s: "?s = block_of [] cps" by (simp add: block_of_def)
  have nl: "code_ok wnewline" by (simp add: wnewline_def code_ok_def)
  have b: "st = FT_SUCCESS" "tb_str b = Some (View_u8 ?s)"
    using assms(2) dup_block [OF text_nonzero [OF assms(1)], of r] by (auto simp: fill_buffer_from_u8string_def)
  have "typed_visible_height b = Some (if cps = [] then 0 else length (split_on wnewline cps))"
    using b(2) len_text [OF assms(1), of "[]"] count_block [OF nl assms(1), of "[]"] strchr_count_split [of cps wnewline]
    by (simp add: typed_visible_height_def buf_str_len_def s [symmetric])
  moreover have "typed_visible_width None b = Some (Max (set (map text_columns (split_on wnewline cps))))"
    using b(2) u8width_loop_block [OF assms(1), of 0 "[]" 0] fold_max_lines [of text_columns wnewline cps]
    by (simp add: typed_visible_width_def s)
  moreover have "utf8_width None (utf8_text (split_on wnewline cps ! n)) = Some (text_columns (split_on wnewline cps ! n))"
    if n: "n < length (split_on wnewline cps)"
    using width_text [OF split_on_ok [OF assms(1) nth_mem [OF n]], of "[]"] by (simp add: utf8_width_def text_columns_def)
  moreover note line_block [OF nl assms(1), of "[]" n]
  ultimately show ?thesis using b by (simp add: typed_substring_def copy_typed_buffer_def s)
qed

theorem fort_u8_lines_witness:
  "\<exists>b. fill_buffer_from_u8string (create_typed_buffer 8 UTF8_BUF) [0xEA, 0xB0, 0x80, 0x0A, 0x61, 0] = Some (FT_SUCCESS, b)
     \<and> typed_visible_height b = Some 2 \<and> typed_visible_width None b = Some 2 \<and> copy_typed_buffer b = Some None"
proof -
  have t: "utf8_text [0xAC00, 0x0A, 0x61] = [0xEA, 0xB0, 0x80, 0x0A, 0x61]"
    "split_on wnewline [0xAC00, 0x0A, 0x61] = [[0xAC00], [0x61]]"
    "text_columns [0xAC00] = 2" "text_columns [0x61] = 1" by code_simp+
  have ok: "text_ok [0xAC00, 0x0A, 0x61]" by (simp add: code_ok_def)
  obtain st b where "fill_buffer_from_u8string (create_typed_buffer 8 UTF8_BUF) (utf8_text [0xAC00, 0x0A, 0x61] @ [0]) = Some (st, b)"
    using dup_block [OF text_nonzero [OF ok], of "[]"] by (simp add: fill_buffer_from_u8string_def)
  with fort_u8_lines [OF ok this] show ?thesis unfolding t(1,2) by (auto simp: t(3,4))
qed

section \<open>Tables with cells of all types\<close>

text \<open>On a table of char cells the operations on typed tables are those of the char
  tables: writing a cell, appending a formatted row, going to the next line and copying.\<close>

theorem fort_char_tables:
  "ft_write_view (as_typed_table t) (View_char s) = map_option (map_prod id as_typed_table) (ft_write_impl t s)
   \<and> ft_ln (as_typed_table t) = map_option (map_prod id as_typed_table) (ft_ln t)
   \<and> copy_typed_table (as_typed_table t) = map_option (Some \<circ> as_typed_table) (ft_copy_table t)
   \<and> ft_row_printf_view (as_typed_table t) row (View_char f) (Char_args a) =
      map_option (map_prod id as_typed_table) (ft_row_printf_impl t row f a)"
proof (intro conjI)
  show "ft_write_view (as_typed_table t) (View_char s) = map_option (map_prod id as_typed_table) (ft_write_impl t s)"
    by (rule write_as_typed)
  show "ft_ln (as_typed_table t) = map_option (map_prod id as_typed_table) (ft_ln t)" by (rule ln_as_typed)
  show "copy_typed_table (as_typed_table t) = map_option (Some \<circ> as_typed_table) (ft_copy_table t)" by (rule copy_as_typed)
  show "ft_row_printf_view (as_typed_table t) row (View_char f) (Char_args a) =
      map_option (map_prod id as_typed_table) (ft_row_printf_impl t row f a)" by (rule printf_as_typed)
qed

lemma copy_properties_same: "copy_table_properties p = p"
proof -
  have "fold (\<lambda>opt c. c @ [opt]) xs ys = ys @ xs" for xs ys :: "f_cell_props list"
    by (induction xs arbitrary: ys) simp_all
  then show ?thesis by (simp add: copy_table_properties_def Let_def create_cell_prop_container_def)
qed

text \<open>C37: A table without unwritten cells is copied exactly when none of its cells holds UTF-8 text: the copy
  has the same texts and types of cells in every row, the same separators, position and properties
  (those of cells, of the whole table and the border style), and no conversion buffer; otherwise the
  copy is NULL.\<close>

theorem fort_copy_typed:
  assumes "holds t cs"
  shows "if \<exists>r \<in> set cs. \<exists>c \<in> set r. is_u8 c then copy_typed_table t = Some None
    else \<exists>t' ds. copy_typed_table t = Some (Some t') \<and> holds t' ds \<and> map (map shown) ds = map (map shown) cs
      \<and> separators t' = separators t \<and> cur_row t' = cur_row t \<and> cur_col t' = cur_col t
      \<and> properties t' = properties t \<and> conv_buffer t' = None"
proof -
  have h: "rows t = map (\<lambda>r. Some (map Some r)) cs" "list_all (list_all (\<lambda>c. tb_str (str_buffer c) \<noteq> None)) cs"
    "list_all (\<lambda>s. s \<noteq> None) (separators t)"
    using assms by (auto simp: holds_def)
  have ex: "list_ex (list_ex is_u8) cs \<longleftrightarrow> (\<exists>r \<in> set cs. \<exists>c \<in> set r. is_u8 c)" by (simp add: list_ex_iff)
  note rows = copy_typed_rows_cases [OF h(2), of "[]", unfolded ex]
  show ?thesis
  proof (cases "\<exists>r \<in> set cs. \<exists>c \<in> set r. is_u8 c")
    case True
    with rows h(1) show ?thesis by (simp add: copy_typed_table_def ft_create_table_def)
  next
    case False
    with rows obtain ds where ds: "copy_typed_rows (rows t) [] = Some (Some (map (\<lambda>r. Some (map Some r)) ds))"
      "map (map shown) ds = map (map shown) cs"
      using h(1) by auto
    have "list_all (list_all (\<lambda>c. tb_str (str_buffer c) \<noteq> None)) ds"
    proof -
      have "list_all (list_all (\<lambda>c. tb_str (str_buffer c) \<noteq> None)) es = list_all (list_all (\<lambda>x. snd x \<noteq> None)) (map (map shown) es)" for es
        by (simp add: list.pred_map comp_def shown_def)
      with ds(2) h(2) show ?thesis by simp
    qed
    with ds h False copy_separators_all [OF h(3), of "[]"] show ?thesis
      by (auto simp: copy_typed_table_def ft_create_table_def holds_def copy_properties_same)
  qed
qed

definition ONE_U8_CELL :: typed_table where
  "ONE_U8_CELL = ft_create_table\<lparr>rows := [Some [Some (create_typed_cell
     \<lparr>str_buffer := \<lparr>tb_type = UTF8_BUF, tb_str = Some (View_u8 [0xC3, 0xA9, 0]), tb_sz = 1024\<rparr>\<rparr>)]]\<rparr>"

text \<open>A \<open>char\<close> cell, a separator and a property of the cell.\<close>

definition ONE_CHAR_CELL :: typed_table where
  "ONE_CHAR_CELL = snd (ft_set_cell_prop (ft_create_table\<lparr>rows := [Some [Some (typed_text_cell ''a'')]],
     separators := [Some \<lparr>enabled = True\<rparr>]\<rparr>) 0 0 FT_CPROP_LEFT_PADDING 3)"

theorem fort_copy_typed_witness:
  "copy_typed_table ONE_U8_CELL = Some None
   \<and> (\<exists>t'. copy_typed_table ONE_CHAR_CELL = Some (Some t') \<and> separators t' = [Some \<lparr>enabled = True\<rparr>]
        \<and> cell_properties (properties t') = cell_properties (properties ONE_CHAR_CELL)
        \<and> length (cell_properties (properties t')) = 1)"
proof -
  let ?c = "create_typed_cell\<lparr>str_buffer := \<lparr>tb_type = UTF8_BUF, tb_str = Some (View_u8 [0xC3, 0xA9, 0]), tb_sz = 1024\<rparr>\<rparr>"
  have "holds ONE_U8_CELL [[?c]]" by (simp add: holds_def ONE_U8_CELL_def ft_create_table_def)
  moreover have "is_u8 ?c" by (simp add: is_u8_def)
  ultimately have u8: "copy_typed_table ONE_U8_CELL = Some None" using fort_copy_typed [of ONE_U8_CELL "[[?c]]"] by simp
  have t: "rows ONE_CHAR_CELL = [Some [Some (typed_text_cell ''a'')]]" "separators ONE_CHAR_CELL = [Some \<lparr>enabled = True\<rparr>]"
    by (simp_all add: ONE_CHAR_CELL_def ft_set_cell_prop_def split_beta Let_def)
  have p: "length (cell_properties (properties ONE_CHAR_CELL)) = 1"
    by (simp add: ONE_CHAR_CELL_def ft_set_cell_prop_def split_beta Let_def ft_create_table_def create_table_properties_def
      set_cell_property_def get_cell_prop_and_create_if_not_exists_def create_cell_prop_container_def FT_CUR_ROW_def FT_CUR_COLUMN_def)
  have "holds ONE_CHAR_CELL [[typed_text_cell ''a'']]" "\<not> is_u8 (typed_text_cell ''a'')"
    by (simp_all add: holds_def t is_u8_def typed_text_cell_def fill_typed_cell_from_string_def fill_typed_from_string_def)
  then obtain t' where "copy_typed_table ONE_CHAR_CELL = Some (Some t')" "separators t' = separators ONE_CHAR_CELL"
    "properties t' = properties ONE_CHAR_CELL"
    using fort_copy_typed [of ONE_CHAR_CELL "[[typed_text_cell ''a'']]"] by auto
  with u8 t p show ?thesis by auto
qed

text \<open>C38: Writing cells with a count: with at least one and at most as many cells as there are arguments,
  exactly these cells are stored from the current column on and the cells before it stay; with 0 or
  with more, the arguments are read behind their end.\<close>

theorem fort_nwrite_count:
  assumes "full t" and "replacing t" and "list_all readable (c # va)" and "n < 2 ^ 64" and "length va < 2 ^ 64 - 1"
  shows "if 0 < n \<and> n \<le> length va + 1
    then \<exists>t'. nwrite_views t n c va = Some (FT_SUCCESS, t') \<and> cur_row t' = cur_row t \<and> cur_col t' = cur_col t + n
      \<and> (\<forall>i < n. text_at t' (cur_row t) (cur_col t + i) = Some (stored ((c # va) ! i)))
      \<and> (\<forall>j x. text_at t (cur_row t) j = Some x \<longrightarrow> j < cur_col t \<longrightarrow> text_at t' (cur_row t) j = Some x)
    else nwrite_views t n c va = None"
proof -
  from write_view [of t c] assms obtain t1 where t1: "ft_write_view t c = Some (FT_SUCCESS, t1)" "full t1" "replacing t1"
    "cur_row t1 = cur_row t" "cur_col t1 = cur_col t + 1" "text_at t1 (cur_row t) (cur_col t) = Some (stored c)"
    and keep: "\<And>r c x. text_at t r c = Some x \<Longrightarrow> (r, c) \<noteq> (cur_row t, cur_col t) \<Longrightarrow> text_at t1 r c = Some x"
    by auto
  have va: "list_all readable va" using assms(3) by simp
  show ?thesis
  proof (cases "0 < n \<and> n \<le> length va + 1")
    case True
    then have "(n + 2 ^ 64 - 1) mod 2 ^ 64 = n - 1" using assms(4) by (simp add: mod_if)
    moreover have "n - 1 \<le> length va" using True by linarith
    from nwrite_loop_all [OF t1(2,3) va this] obtain t2 where t2: "nwrite_loop t1 va (n - 1) FT_SUCCESS = Some (FT_SUCCESS, t2)"
      "cur_row t2 = cur_row t" "cur_col t2 = cur_col t + n"
      "\<And>i. i < n - 1 \<Longrightarrow> text_at t2 (cur_row t) (cur_col t + 1 + i) = Some (stored (va ! i))"
      "\<And>j x. text_at t1 (cur_row t) j = Some x \<Longrightarrow> j < cur_col t + 1 \<Longrightarrow> text_at t2 (cur_row t) j = Some x"
      using t1(4,5) True by auto
    moreover have "text_at t2 (cur_row t) (cur_col t + i) = Some (stored ((c # va) ! i))" if "i < n" for i
      using that t2(4) [of "i - 1"] t2(5) [OF t1(6)] by (cases i) auto
    moreover have "text_at t2 (cur_row t) j = Some x" if "text_at t (cur_row t) j = Some x" "j < cur_col t" for j x
      using keep [OF that(1)] that(2) t2(5) by simp
    ultimately show ?thesis using True t1(1) by (simp add: nwrite_views_def FT_SUCCESS_def)
  next
    case False
    have "length va < (n + 2 ^ 64 - 1) mod 2 ^ 64"
    proof (cases "n = 0")
      case True
      then show ?thesis using assms(5) by simp
    next
      case pos: False
      then have "(n + 2 ^ 64 - 1) mod 2 ^ 64 = n - 1" using assms(4) by (simp add: mod_if)
      with False pos show ?thesis by simp
    qed
    from nwrite_loop_short [OF t1(2,3) va this] False t1(1) show ?thesis by (simp add: nwrite_views_def FT_SUCCESS_def)
  qed
qed

theorem fort_nwrite_count_witness:
  "\<exists>t. nwrite_views ft_create_table 2 (View_char ''a'') [View_wide [0xE9]] = Some (FT_SUCCESS, t)
     \<and> text_at t 0 0 = Some (View_char ''a'') \<and> text_at t 0 1 = Some (View_wide [0xE9])
     \<and> nwrite_views ft_create_table 0 (View_char ''a'') [View_wide [0xE9]] = None"
proof -
  have "full ft_create_table" by (simp add: full_def ft_create_table_def)
  moreover have "replacing (ft_create_table :: typed_table)"
    by (simp add: replacing_def ft_create_table_def create_table_properties_def g_entire_table_properties_def Let_def)
  ultimately have "nwrite_views ft_create_table 0 (View_char ''a'') [View_wide [0xE9]] = None"
    "\<exists>t'. nwrite_views ft_create_table 2 (View_char ''a'') [View_wide [0xE9]] = Some (FT_SUCCESS, t')
      \<and> (\<forall>i < 2. text_at t' 0 i = Some (stored ([View_char ''a'', View_wide [0xE9]] ! i)))"
    using fort_nwrite_count [of ft_create_table "View_char ''a''" "[View_wide [0xE9]]" 0]
      fort_nwrite_count [of ft_create_table "View_char ''a''" "[View_wide [0xE9]]" 2]
    by (auto simp: ft_create_table_def)
  then show ?thesis by (fastforce simp: less_2_cases_iff)
qed

text \<open>
  A formatted row: \<open>char\<close> text of any length is taken, wide text must be shorter than 1024
  characters, since \<open>vswprintf\<close> fails on a full buffer and the loop never enlarges it.
\<close>

lemma fort_formats:
  "vsprintf f a = Some t \<Longrightarrow> int (length t) \<le> INT_MAX \<Longrightarrow>
     create_typed_row_from_fmt_string (View_char f) (Char_args a) =
       Some (row_for (length (split_on g_col_separator f)) (cells_with typed_text_cell (split_on g_col_separator t))
         (typed_text_cell t))"
  "wvsprintf g ga = Some w \<Longrightarrow>
     create_typed_row_from_fmt_string (View_wide g) (Wide_args ga) = Some
       (if length w < 1024
        then row_for (length (split_on wcol_separator g)) (cells_with wide_text_cell (split_on wcol_separator w)) (wide_text_cell w)
        else None)"
  using char_fmt_row [of f a t] wide_fmt_row [of g ga w] by (simp_all add: DEFAULT_STR_BUF_SIZE_def)

end
