(* ===== verification/Fort_Columns.thy ===== *)
theory Fort_Columns
  imports Fort_Page
begin

text \<open>
  The columns of a table stand below each other: the lines of the page (theory Fort\_Page) all take
  the same number of columns of the screen, with any border style whose elements fit together.  What
  a column is depends on the output: a character, or the width of a code point.
\<close>

section \<open>Border styles whose elements fit together\<close>

text \<open>
  \<open>a\<close>, \<open>b\<close> and \<open>d\<close> are the columns of the left, the inner and the right boundary; \<open>cols\<close> gives those
  of a string.  A line that is not printed needs no columns.
\<close>

definition line_aligned :: "(string \<Rightarrow> nat) \<Rightarrow> nat \<Rightarrow> nat \<Rightarrow> nat \<Rightarrow> line_chars \<Rightarrow> bool" where
  "line_aligned cols a b d lc \<longleftrightarrow> hidden_line lc
     \<or> cols (lc_L lc) = a \<and> cols (lc_I lc) = 1 \<and> cols (lc_IV lc) = b \<and> cols (lc_IT lc) = b \<and> cols (lc_IB lc) = b
       \<and> cols (lc_R lc) = d"

definition chars_aligned :: "(string \<Rightarrow> nat) \<Rightarrow> border_style \<Rightarrow> nat \<Rightarrow> nat \<Rightarrow> nat \<Rightarrow> string list \<Rightarrow> bool" where
  "chars_aligned cols bs a b d bc \<longleftrightarrow> cols (bc ! LL_bip) = a \<and> cols (bc ! IV_bip) = b \<and> cols (bc ! RR_bip) = d
     \<and> list_all (\<lambda>has_sep. list_all (\<lambda>pos. list_all (\<lambda>upper. list_all (\<lambda>lower.
          line_aligned cols a b d (separator_line_chars bs bc has_sep upper lower pos))
        [False, True]) [False, True]) [TOP_SEPARATOR, INSIDE_SEPARATOR, BOTTOM_SEPARATOR]) [False, True]"

definition style_aligned :: "(string \<Rightarrow> nat) \<Rightarrow> border_style \<Rightarrow> nat \<Rightarrow> nat \<Rightarrow> nat \<Rightarrow> bool" where
  "style_aligned cols bs a b d \<longleftrightarrow>
     chars_aligned cols bs a b d (border_chars bs) \<and> chars_aligned cols bs a b d (header_border_chars bs)"

lemma all_bool: "list_all P [False, True] \<longleftrightarrow> (\<forall>x. P x)"
  by (auto simp: all_bool_eq)

lemma all_pos: "list_all P [TOP_SEPARATOR, INSIDE_SEPARATOR, BOTTOM_SEPARATOR] \<longleftrightarrow> (\<forall>x. P x)"
  by (auto elim: f_hor_separator_pos.induct [of P])

lemma style_aligned_line:
  assumes "style_aligned cols (bstyle p) a b d"
  shows "line_aligned cols a b d (line_elems p ss n i)"
  using assms unfolding style_aligned_def chars_aligned_def all_bool all_pos line_elems_def Let_def by simp

lemma style_aligned_row:
  assumes "style_aligned cols (bstyle p) a b d"
  shows "cols (row_chars p r ! LL_bip) = a" "cols (row_chars p r ! IV_bip) = b" "cols (row_chars p r ! RR_bip) = d"
  using assms unfolding style_aligned_def chars_aligned_def row_chars_def by simp_all

section \<open>Lines of equal width\<close>

text \<open>The style tags of the cells take no column, and what is written for a line takes its columns.\<close>

definition tags_hidden :: "(string \<Rightarrow> nat) \<Rightarrow> f_table_properties \<Rightarrow> 'a list list \<Rightarrow> bool" where
  "tags_hidden cols p cells \<longleftrightarrow> (\<forall>r < length cells. \<forall>c < n_cols cells. let g = geom_at p r c in
     cols (g_style g) = 0 \<and> cols (g_reset g) = 0 \<and> cols (g_cstyle g) = 0 \<and> cols (g_creset g) = 0)"

definition lines_span :: "('c list \<Rightarrow> nat \<Rightarrow> bool) \<Rightarrow> 'c text_lines list list \<Rightarrow> bool" where
  "lines_span spans cells \<longleftrightarrow> list_all (list_all (list_all (\<lambda>(units, columns). spans units columns))) cells"

definition page_columns :: "f_table_properties \<Rightarrow> 'c text_lines list list \<Rightarrow> nat \<Rightarrow> nat \<Rightarrow> nat \<Rightarrow> nat" where
  "page_columns p cells a b d = unat (left_margin (tprops p)) + a
     + sum_list (map (page_width p cells) [0..<n_cols cells]) + (n_cols cells - 1) * b + d
     + unat (right_margin (tprops p))"

locale column_measure =
  fixes enc :: "string \<Rightarrow> 'c list" and plain :: "string \<Rightarrow> bool"
    and cols :: "string \<Rightarrow> nat" and spans :: "'c list \<Rightarrow> nat \<Rightarrow> bool"
  assumes spans_Nil: "spans [] 0"
    and spans_append: "spans x m \<Longrightarrow> spans y n \<Longrightarrow> spans (x @ y) (m + n)"
    and spans_enc: "plain s \<Longrightarrow> spans (enc s) (cols s)"
    and plain_blank: "plain '' ''" and cols_blank: "cols '' '' = 1"
begin

lemma spans_enc_to: "plain s \<Longrightarrow> cols s = n \<Longrightarrow> spans (enc s) n"
  using spans_enc by blast

lemma spans_replicate: "spans x m \<Longrightarrow> spans (concat (replicate n x)) (n * m)"
  by (induction n) (simp_all add: spans_Nil spans_append)

lemma spans_pad: "spans (pad enc n) n"
  using spans_replicate [of "enc '' ''" 1 n] spans_enc [OF plain_blank] by (simp add: pad_def cols_blank)

lemma spans_concat: "(\<And>x. x \<in> set xs \<Longrightarrow> spans (f x) (g x)) \<Longrightarrow> spans (concat (map f xs)) (sum_list (map g xs))"
  by (induction xs) (simp_all add: spans_Nil spans_append)

lemma spans_eq: "spans x m \<Longrightarrow> m = n \<Longrightarrow> spans x n"
  by simp

lemma spans_text_line:
  assumes "i < length ls" and "lines_width ls \<le> w" and "spans (fst (ls ! i)) (snd (ls ! i))"
    and "plain_tags plain g" and "cols (g_cstyle g) = 0" and "cols (g_creset g) = 0"
  shows "spans (text_line enc g ls w i) w"
proof -
  let ?n = "snd (ls ! i)" and ?W = "lines_width ls"
  let ?left = "align_left (g_align g) (w - ?W)"
  have n: "?n \<le> ?W" using assms(1) by (intro lines_width_ge nth_mem)
  have tags: "spans (enc (g_cstyle g)) 0" "spans (enc (g_creset g)) 0"
    using assms(4-6) by (auto simp: plain_tags_def intro: spans_enc_to)
  have "spans (pad enc ?left @ enc (g_cstyle g) @ fst (ls ! i) @ enc (g_creset g) @ pad enc (?W - ?n)
      @ pad enc (w - ?W - ?left)) (?left + (0 + (?n + (0 + ((?W - ?n) + (w - ?W - ?left))))))"
    by (intro spans_append spans_pad tags assms(3))
  moreover have "?left + (0 + (?n + (0 + ((?W - ?n) + (w - ?W - ?left))))) = w"
    using n assms(2) align_left_le [of "g_align g" "w - ?W"] by linarith
  ultimately show ?thesis by (simp add: text_line_def Let_def)
qed

lemma spans_box_line:
  assumes w: "box_width g ls \<le> w" and l: "list_all (\<lambda>(units, columns). spans units columns) ls" and t: "plain_tags plain g"
    and "cols (g_style g) = 0" and "cols (g_reset g) = 0" and "cols (g_cstyle g) = 0" and "cols (g_creset g) = 0"
  shows "spans (box_line enc g ls w i) w"
proof -
  have tags: "spans (enc (g_style g)) 0" "spans (enc (g_reset g)) 0" "spans (enc (g_cstyle g)) 0" "spans (enc (g_creset g)) 0"
    using assms(3-7) by (auto simp: plain_tags_def intro: spans_enc_to)
  show ?thesis
  proof (cases "g_top g \<le> i \<and> i < g_top g + length ls")
    case True
    let ?w = "w - g_left g - g_right g"
    have le: "g_left g + g_right g + lines_width ls \<le> w" using w by (simp add: box_width_def)
    have j: "i - g_top g < length ls" using True by linarith
    then have "spans (fst (ls ! (i - g_top g))) (snd (ls ! (i - g_top g)))"
      using l by (simp add: list_all_length split_beta)
    then have "spans (text_line enc g ls ?w (i - g_top g)) ?w"
      using le by (intro spans_text_line [OF j _ _ t assms(6,7)]) linarith+
    then have "spans (enc (g_style g) @ pad enc (g_left g) @ text_line enc g ls ?w (i - g_top g) @ pad enc (g_right g)
        @ enc (g_reset g)) (0 + (g_left g + (?w + (g_right g + 0))))"
      by (intro spans_append spans_pad tags)
    moreover have "0 + (g_left g + (?w + (g_right g + 0))) = w" using le by linarith
    ultimately show ?thesis using True by (simp only: box_line_def simp_thms if_True)
  next
    case False
    have "spans (enc (g_style g) @ enc (g_cstyle g) @ enc (g_creset g) @ pad enc w @ enc (g_reset g)) (0 + (0 + (0 + (w + 0))))"
      by (intro spans_append spans_pad tags)
    then show ?thesis using False by (simp only: box_line_def if_False) simp
  qed
qed

lemma spans_page_cell:
  assumes "page_plain plain p cells" and "tags_hidden cols p cells" and "lines_span spans cells"
    and r: "r < length cells" and c: "c < n_cols cells"
  shows "spans (page_cell enc p cells r i c) (page_width p cells c)"
proof (cases "c < length (cells ! r)")
  case True
  have "list_all (\<lambda>(units, columns). spans units columns) (cells ! r ! c)"
    using assms(3) r True by (simp add: lines_span_def list_all_length)
  then show ?thesis
    using spans_box_line [OF page_width_ge [OF r True] _ tags_at [OF assms(1) r c]] assms(2) r c True
    by (simp add: page_cell_def tags_hidden_def Let_def)
qed (simp add: page_cell_def spans_pad)

lemma spans_page_row:
  assumes st: "style_ok (bstyle p)" and plain: "page_plain plain p cells" and "tags_hidden cols p cells"
    and "lines_span spans cells" and al: "style_aligned cols (bstyle p) a b d" and r: "r < length cells"
  shows "\<exists>x. page_row_line enc p cells r i = x @ enc newline_str \<and> spans x (page_columns p cells a b d)"
proof -
  let ?k = "n_cols cells" and ?row = "row_chars p r"
  have bc: "spans (enc (?row ! LL_bip)) a" "spans (enc (?row ! IV_bip)) b" "spans (enc (?row ! RR_bip)) d"
    using style_aligned_row [OF al] row_chars_plain [OF st plain] by (intro spans_enc_to; simp)+
  have "spans (page_cells enc p cells r i 0)
      (sum_list (map (\<lambda>c. page_width p cells c + (if c < ?k - 1 then b else 0)) [0..<?k]))"
    unfolding page_cells_def
    using spans_page_cell [OF plain assms(3,4) r] bc(2) by (intro spans_concat spans_append) (auto simp: spans_Nil)
  then have cs: "spans (page_cells enc p cells r i 0) (sum_list (map (page_width p cells) [0..<?k]) + (?k - 1) * b)"
    by (simp only: sum_list_addf sum_but_last)
  have "spans (page_left enc p @ enc (?row ! LL_bip) @ page_cells enc p cells r i 0 @ enc (?row ! RR_bip) @ page_right enc p)
      (unat (left_margin (tprops p)) + (a + ((sum_list (map (page_width p cells) [0..<?k]) + (?k - 1) * b)
        + (d + unat (right_margin (tprops p))))))"
    unfolding page_left_def page_right_def by (intro spans_append spans_pad bc cs)
  then show ?thesis
    by (intro exI [of _ "page_left enc p @ enc (?row ! LL_bip) @ page_cells enc p cells r i 0 @ enc (?row ! RR_bip) @ page_right enc p"])
      (simp add: page_row_line_def page_columns_def add.assoc)
qed

lemma spans_page_line:
  assumes st: "style_ok (bstyle p)" and plain: "page_plain plain p cells"
    and al: "style_aligned cols (bstyle p) a b d" and k: "0 < n_cols cells"
  shows "page_line enc p ss cells i = []
    \<or> (\<exists>x. page_line enc p ss cells i = x @ enc newline_str \<and> spans x (page_columns p cells a b d))"
proof (cases "hidden_line (line_elems p ss (length cells) i)")
  case False
  let ?lc = "line_elems p ss (length cells) i" and ?k = "n_cols cells"
  note el = line_elems_plain [OF st plain, of ss "length cells" i]
  have c: "cols (lc_L ?lc) = a" "cols (lc_I ?lc) = 1" "cols (lc_R ?lc) = d"
    "cols (lc_IV ?lc) = b" "cols (lc_IT ?lc) = b" "cols (lc_IB ?lc) = b"
    using style_aligned_line [OF al, of ss "length cells" i] False by (simp_all add: line_aligned_def)
  have "cols (plain_cross ?lc (length cells) i j) = (if j = 0 then a else b)" for j
    unfolding plain_cross_def using c by presburger
  then have cross: "spans (enc (plain_cross ?lc (length cells) i j)) (if j = 0 then a else b)" for j
    using el(4) by (intro spans_enc_to)
  have fill: "spans (concat (replicate n (enc (lc_I ?lc)))) n" for n
    using spans_replicate [OF spans_enc_to [OF el(3) c(2)], of n] by simp
  have "spans (concat (map (\<lambda>j. enc (plain_cross ?lc (length cells) i j)
        @ concat (replicate (page_width p cells j) (enc (lc_I ?lc)))) [0..<?k]))
      (sum_list (map (\<lambda>j. (if j = 0 then a else b) + page_width p cells j) [0..<?k]))"
    by (intro spans_concat spans_append cross fill)
  moreover have "sum_list (map (\<lambda>j. (if j = 0 then a else b) + page_width p cells j) [0..<?k]) =
      a + sum_list (map (page_width p cells) [0..<?k]) + (?k - 1) * b"
  proof -
    have "sum_list (map (\<lambda>j. if j = 0 then a else b) [0..<?k]) = a + (?k - 1) * b"
      using k by (cases ?k) (simp_all add: upt_conv_Cons map_Suc_upt [symmetric] comp_def sum_list_triv del: upt_Suc)
    then show ?thesis by (simp add: sum_list_addf)
  qed
  ultimately have cs: "spans (concat (map (\<lambda>j. enc (plain_cross ?lc (length cells) i j)
        @ concat (replicate (page_width p cells j) (enc (lc_I ?lc)))) [0..<?k]))
      (a + sum_list (map (page_width p cells) [0..<?k]) + (?k - 1) * b)" by simp
  have "spans (page_left enc p @ concat (map (\<lambda>j. enc (plain_cross ?lc (length cells) i j)
        @ concat (replicate (page_width p cells j) (enc (lc_I ?lc)))) [0..<?k]) @ enc (lc_R ?lc) @ page_right enc p)
      (unat (left_margin (tprops p)) + ((a + sum_list (map (page_width p cells) [0..<?k]) + (?k - 1) * b)
        + (d + unat (right_margin (tprops p)))))"
    unfolding page_left_def page_right_def by (intro spans_append spans_pad cs spans_enc_to [OF el(2) c(3)])
  then show ?thesis
    using False by (simp add: page_line_def Let_def page_columns_def add.assoc)
qed (simp add: page_line_def)

lemma page_aligned:
  assumes "style_ok (bstyle p)" and "page_plain plain p cells" and "tags_hidden cols p cells"
    and "lines_span spans cells" and "style_aligned cols (bstyle p) a b d" and "0 < n_cols cells"
    and l: "l \<in> set (page_rows enc p ss cells)"
  shows "l = [] \<or> (\<exists>x. l = x @ enc newline_str \<and> spans x (page_columns p cells a b d))"
proof -
  from l consider i where "l = page_line enc p ss cells i" | r i where "r < length cells" "l = page_row_line enc p cells r i"
    unfolding page_rows_def by auto
  then show ?thesis
    using spans_page_line [OF assms(1,2,5,6)] spans_page_row [OF assms(1-5)] by cases blast+
qed

lemma text_aligned:
  assumes "style_ok (bstyle p)" and "page_plain plain p cells" and "tags_hidden cols p cells"
    and "lines_span spans cells" and "style_aligned cols (bstyle p) a b d" and "0 < n_cols cells"
  shows "\<exists>ls. page_text enc p ss cells = concat (map (\<lambda>l. l @ enc newline_str)
      (replicate (unat (top_margin (tprops p))) (pad enc (page_max_width p cells - 1)) @ ls
       @ replicate (unat (bottom_margin (tprops p))) (pad enc (page_max_width p cells - 1))))
    \<and> list_all (\<lambda>l. spans l (page_columns p cells a b d)) ls"
proof -
  have "\<exists>ls. concat xs = concat (map (\<lambda>l. l @ enc newline_str) ls) \<and> list_all (\<lambda>l. spans l (page_columns p cells a b d)) ls"
    if "\<And>l. l \<in> set xs \<Longrightarrow> l = [] \<or> (\<exists>x. l = x @ enc newline_str \<and> spans x (page_columns p cells a b d))" for xs
    using that
  proof (induction xs)
    case (Cons y xs)
    then obtain ls where ls: "concat xs = concat (map (\<lambda>l. l @ enc newline_str) ls)"
      "list_all (\<lambda>l. spans l (page_columns p cells a b d)) ls" by auto
    consider "y = []" | x where "y = x @ enc newline_str" "spans x (page_columns p cells a b d)"
      using Cons.prems [of y] by auto
    then show ?case
    proof cases
      case 2
      with ls show ?thesis by (intro exI [of _ "x # ls"]) simp
    qed (use ls in auto)
  qed (simp add: exI [of _ "[]"])
  from this [OF page_aligned [OF assms(1-6)]] show ?thesis
    by (simp add: page_text_def page_lines_def page_margin_def)
qed

end

section \<open>Characters\<close>

interpretation char_columns: column_measure id "\<lambda>_. True" length "\<lambda>s n. length s = n"
  by unfold_locales simp_all


lemmas style_defs = BASIC_STYLE_def BASIC2_STYLE_def SIMPLE_STYLE_def PLAIN_STYLE_def DOT_STYLE_def
  EMPTY_STYLE_def EMPTY2_STYLE_def SOLID_STYLE_def SOLID_ROUND_STYLE_def NICE_STYLE_def DOUBLE_STYLE_def
  DOUBLE2_STYLE_def BOLD_STYLE_def BOLD2_STYLE_def FRAME_STYLE_def

text \<open>Cells without style tags.\<close>

definition no_tags :: "f_table_properties \<Rightarrow> 'a list list \<Rightarrow> bool" where
  "no_tags p cells \<longleftrightarrow> (\<forall>r < length cells. \<forall>c < n_cols cells. let g = geom_at p r c in
     g_style g = [] \<and> g_reset g = [] \<and> g_cstyle g = [] \<and> g_creset g = [])"

lemma no_tags_hidden: "no_tags p cells \<Longrightarrow> cols [] = 0 \<Longrightarrow> tags_hidden cols p cells"
  by (simp add: no_tags_def tags_hidden_def Let_def)

section \<open>The built-in styles\<close>

text \<open>The styles without outer lines.\<close>

lemma open_styles_aligned:
  "style_aligned length SIMPLE_STYLE 0 1 0" "style_aligned length PLAIN_STYLE 0 1 0"
  "style_aligned length EMPTY_STYLE 0 0 0"
  subgoal by code_simp
  subgoal by code_simp
  subgoal by code_simp
  done

text \<open>What counts are the columns of the elements.\<close>

definition style_elements :: "border_style \<Rightarrow> string set" where
  "style_elements bs = set (border_chars bs) \<union> set (header_border_chars bs) \<union> set (separator_chars bs)"

lemma line_chars_elements:
  assumes "style_ok bs" and "bc = border_chars bs \<or> bc = header_border_chars bs"
    and lc: "lc = separator_line_chars bs bc has_sep upper lower pos"
  shows "{lc_L lc, lc_I lc, lc_IV lc, lc_IT lc, lc_IB lc, lc_R lc} \<subseteq> style_elements bs"
proof -
  have el: "bc ! k \<in> style_elements bs" if "k < 19" for k
    using assms(1,2) that by (auto simp: style_ok_def BORDER_ITEM_POS_SIZE_def style_elements_def)
  have sp: "separator_chars bs ! k \<in> style_elements bs" if "k < 6" for k
    using assms(1) that by (auto simp: style_ok_def SEPARATOR_ITEM_POS_SIZE_def style_elements_def)
  show ?thesis
    unfolding lc separator_line_chars_def Let_def by (simp add: el sp split: f_hor_separator_pos.splits)
qed

lemma chars_aligned_cong:
  assumes "style_ok bs" and bc: "bc = border_chars bs \<or> bc = header_border_chars bs"
    and same: "\<And>s. s \<in> style_elements bs \<Longrightarrow> f s = g s"
  shows "chars_aligned f bs a b d bc = chars_aligned g bs a b d bc"
proof -
  have "line_aligned f a b d (separator_line_chars bs bc has_sep upper lower pos) =
      line_aligned g a b d (separator_line_chars bs bc has_sep upper lower pos)" for has_sep upper lower pos
    using line_chars_elements [OF assms(1,2) refl, of has_sep upper lower pos] same by (simp add: line_aligned_def)
  moreover have "f (bc ! k) = g (bc ! k)" if "k < 19" for k
    using assms(1) bc that by (intro same) (auto simp: style_ok_def BORDER_ITEM_POS_SIZE_def style_elements_def)
  ultimately show ?thesis unfolding chars_aligned_def by simp
qed

lemma style_aligned_cong: "style_ok bs \<Longrightarrow> (\<And>s. s \<in> style_elements bs \<Longrightarrow> f s = g s) \<Longrightarrow>
    style_aligned f bs a b d = style_aligned g bs a b d"
  unfolding style_aligned_def using chars_aligned_cong by metis

text \<open>A style with every element, but that may have no inner lines.\<close>

definition boxed :: "border_style \<Rightarrow> string list \<Rightarrow> bool" where
  "boxed bs bc \<longleftrightarrow> list_all (\<lambda>s. s \<noteq> []) (take 7 bc @ drop 11 bc) \<and> list_all (\<lambda>s. s \<noteq> []) (separator_chars bs)
     \<and> (list_all (\<lambda>s. s = []) (take 4 (drop 7 bc)) \<or> list_all (\<lambda>s. s \<noteq> []) (take 4 (drop 7 bc)))"

lemma boxed_aligned:
  assumes "length bc = 19" and "length (separator_chars bs) = 6" and "boxed bs bc"
  shows "chars_aligned (\<lambda>s. if s = [] then 0 else 1) bs 1 1 1 bc"
proof -
  have el: "bc ! k \<noteq> []" if "k < 7 \<or> 11 \<le> k \<and> k < 19" for k
  proof -
    have "bc ! k \<in> set (take 7 bc @ drop 11 bc)"
    proof (cases "k < 7")
      case True
      then show ?thesis using nth_mem [of k "take 7 bc"] assms(1) by simp
    next
      case False
      then have "k - 11 < length (drop 11 bc)" "11 + (k - 11) = k" using that assms(1) by auto
      then show ?thesis using nth_mem [of "k - 11" "drop 11 bc"] by simp
    qed
    with assms(3) show ?thesis by (auto simp: boxed_def list_all_iff)
  qed
  have sp: "separator_chars bs ! k \<noteq> []" if "k < 6" for k
    using assms(2,3) that by (auto simp: boxed_def list_all_length)
  have "take 4 (drop 7 bc) ! j = bc ! (7 + j)" if "j < 4" for j using that assms(1) by simp
  moreover have "list_all P (take 4 (drop 7 bc)) \<longleftrightarrow> (\<forall>j < 4. P (take 4 (drop 7 bc) ! j))" for P
    using assms(1) by (simp add: list_all_length)
  ultimately have "(\<forall>j < 4. bc ! (7 + j) = []) \<or> (\<forall>j < 4. bc ! (7 + j) \<noteq> [])"
    using assms(3) by (auto simp: boxed_def)
  then have inner: "bc ! 7 = [] \<and> bc ! 8 = [] \<and> bc ! 9 = [] \<and> bc ! 10 = []
      \<or> bc ! 7 \<noteq> [] \<and> bc ! 8 \<noteq> [] \<and> bc ! 9 \<noteq> [] \<and> bc ! 10 \<noteq> []"
    by (auto simp: numeral_eq_Suc All_less_Suc)
  have "line_aligned (\<lambda>s. if s = [] then 0 else 1) 1 1 1 (separator_line_chars bs bc has_sep upper lower pos)"
    for has_sep upper lower pos
    using inner el sp
    by (cases has_sep; cases pos) (auto simp: line_aligned_def separator_line_chars_def hidden_line_def not_printable_def Let_def)
  then show ?thesis using el by (simp add: chars_aligned_def)
qed

abbreviation open_styles :: "border_style list" where
  "open_styles \<equiv> [SIMPLE_STYLE, PLAIN_STYLE, EMPTY_STYLE]"

abbreviation boxed_styles :: "border_style list" where
  "boxed_styles \<equiv> [BASIC_STYLE, BASIC2_STYLE, DOT_STYLE, EMPTY2_STYLE, SOLID_STYLE, SOLID_ROUND_STYLE,
     NICE_STYLE, DOUBLE_STYLE, DOUBLE2_STYLE, BOLD_STYLE, BOLD2_STYLE, FRAME_STYLE]"

text \<open>One column for each element that is there, as for ASCII characters.\<close>

abbreviation element_columns :: "string \<Rightarrow> nat" where
  "element_columns \<equiv> (\<lambda>s. if s = [] then 0 else 1)"

lemma short_elements:
  assumes "style_ok bs" and "\<forall>s \<in> style_elements bs. length s \<le> 1"
  shows "style_aligned element_columns bs a b d = style_aligned length bs a b d"
proof (rule style_aligned_cong [OF assms(1)])
  show "element_columns s = length s" if "s \<in> style_elements bs" for s
    using assms(2) that by (cases s) fastforce+
qed

lemma built_in_styles_aligned:
  assumes "bs \<in> set built_in_styles"
  shows "\<exists>a b d. style_aligned element_columns bs a b d"
proof (cases "bs \<in> set open_styles")
  case True
  have "list_all (\<lambda>bs. list_all (\<lambda>s. length s \<le> 1) (border_chars bs) \<and> list_all (\<lambda>s. length s \<le> 1) (header_border_chars bs)
      \<and> list_all (\<lambda>s. length s \<le> 1) (separator_chars bs)) open_styles"
    by (simp add: style_defs)
  with True have "\<forall>s \<in> style_elements bs. length s \<le> 1" by (auto simp: list_all_iff style_elements_def)
  from short_elements [OF built_in_style_ok [OF assms] this] show ?thesis using True open_styles_aligned by auto
next
  case False
  then have "bs \<in> set boxed_styles" using assms by (auto simp: built_in_styles_def)
  moreover have "list_all (\<lambda>bs. boxed bs (border_chars bs) \<and> boxed bs (header_border_chars bs)) boxed_styles"
    by (simp add: boxed_def style_defs u8_def)
  ultimately have "boxed bs (border_chars bs)" "boxed bs (header_border_chars bs)" by (auto simp: list_all_iff)
  then have "style_aligned element_columns bs 1 1 1"
    using boxed_aligned built_in_style_ok [OF assms]
    by (simp add: style_aligned_def style_ok_def BORDER_ITEM_POS_SIZE_def SEPARATOR_ITEM_POS_SIZE_def)
  then show ?thesis by blast
qed

end
