(* ===== verification/Fort_Wide.thy ===== *)
theory Fort_Wide
  imports Fort_Typed
begin

text \<open>
  The conversion of a table to text of any of the three types (\<open>ft_to_string_impl\<close> with its callers
  \<open>ft_to_wstring\<close>, \<open>ft_to_u8string\<close> and \<open>ft_to_string\<close>, and \<open>buffer_print_range\<close>, in
  \<open>src/src/libfort/fort.c\<close>), for tables with cells of all types.

  The printing itself is that of the theories Fort\_Cell, Fort\_Row and Fort\_Table with other
  devices.
\<close>

section \<open>Ranges of memory\<close>

text \<open>
  \<open>buffer_print_range\<close> chooses by the type of the output, whatever the buffer holds: the bytes of
  the line are taken for characters of that type.  A wide character has four bytes, the lowest first;
  wide output of a number of bytes that is not a multiple of four is a fault.
\<close>

definition wchar_bytes :: "int \<Rightarrow> byte list" where
  "wchar_bytes c = map (\<lambda>i. word_of_int (drop_bit (8 * i) c)) [0..<4]"

fun wchars_of_bytes :: "byte list \<Rightarrow> int list option" where
  "wchars_of_bytes [] = Some []"
| "wchars_of_bytes (a # b # c # d # s) = map_option
     (Cons (sint (word_of_int (uint a + 2 ^ 8 * uint b + 2 ^ 16 * uint c + 2 ^ 24 * uint d) :: 32 word)))
     (wchars_of_bytes s)"
| "wchars_of_bytes _ = None"

text \<open>The bytes between the two pointers.\<close>

fun line_bytes :: "f_string_view \<Rightarrow> byte list" where
  "line_bytes (View_char s) = map of_char s"
| "line_bytes (View_wide s) = concat (map wchar_bytes s)"
| "line_bytes (View_u8 s) = butlast s"

definition print_range_char :: "byte list \<Rightarrow> printer" where
  "print_range_char bs = ft_nprint (map (\<lambda>b. char_of (unat b)) bs)"

definition print_range_wide :: "byte list \<Rightarrow> int printer_of" where
  "print_range_wide bs cntx = do { ws \<leftarrow> wchars_of_bytes bs; ft_nwprint ws cntx }"

definition print_range_u8 :: "byte list \<Rightarrow> byte printer_of" where
  "print_range_u8 bs = ft_nu8print bs"

section \<open>Devices\<close>

definition typed_line ::
  "u8strwid \<Rightarrow> (byte list \<Rightarrow> 'c printer_of) \<Rightarrow> typed_buffer \<Rightarrow> nat \<Rightarrow> ('c printer_of \<times> int) option option" where
  "typed_line custom print_range buffer buffer_row = do {
     l \<leftarrow> typed_substring custom buffer buffer_row;
     Some (map_option (\<lambda>(v, w). (print_range (line_bytes v), w)) l)
   }"

definition typed_char_device :: "u8strwid \<Rightarrow> (typed_buffer, char) text_device" where
  "typed_char_device custom = \<lparr>dev_height = typed_visible_height, dev_width = typed_visible_width custom,
     dev_line = typed_line custom print_range_char, dev_strings = print_n_strings\<rparr>"

definition wide_device :: "(byte list \<Rightarrow> int list option) \<Rightarrow> u8strwid \<Rightarrow> (typed_buffer, int) text_device" where
  "wide_device mbsrtowcs custom = \<lparr>dev_height = typed_visible_height, dev_width = typed_visible_width custom,
     dev_line = typed_line custom print_range_wide,
     dev_strings = (\<lambda>n s. print_n_wstrings mbsrtowcs n (map of_char s))\<rparr>"

definition u8_device :: "u8strwid \<Rightarrow> (typed_buffer, byte) text_device" where
  "u8_device custom = \<lparr>dev_height = typed_visible_height, dev_width = typed_visible_width custom,
     dev_line = typed_line custom print_range_u8, dev_strings = (\<lambda>n s. print_n_u8strings n (string_bytes s))\<rparr>"

section \<open>The conversion\<close>

text \<open>The loop that doubles the block; a block of size 0 is doubled for ever.\<close>

function grow_typed :: "nat \<Rightarrow> typed_buffer \<Rightarrow> typed_buffer option" where
  "grow_typed n_codepoints buffer =
     (if typed_width_capacity buffer \<ge> n_codepoints then Some buffer
      else if tb_sz buffer = 0 then None
      else grow_typed n_codepoints (realloc_typed_without_copy buffer))"
  by pat_completeness auto

termination
proof (relation "measure (\<lambda>(n, b). (n + 1) * 4 - tb_sz b)")
  fix n b
  assume c: "\<not> n \<le> typed_width_capacity b" "tb_sz b \<noteq> 0"
  then have "tb_sz b < (n + 1) * 4" using width_capacity_ge [of b] by simp
  with c show "((n, realloc_typed_without_copy b), (n, b)) \<in> measure (\<lambda>(n, b). (n + 1) * 4 - tb_sz b)"
    by (simp add: realloc_typed_without_copy_def)
qed simp

declare grow_typed.simps [simp del]

text \<open>\<open>address\<close> is where the memory functions put the block.\<close>

definition buffer_check_align :: "nat \<Rightarrow> typed_buffer \<Rightarrow> bool" where
  "buffer_check_align address buffer \<longleftrightarrow> tb_type buffer = W_CHAR_BUF \<longrightarrow> address mod 4 = 0"

text \<open>
  The buffer keeps the type of the first conversion.  The result is NULL when a print fails; when
  nothing was printed it is what the block held before, a fault if that is new memory.  \<open>view\<close> is the
  text as one of the output type.
\<close>

definition ft_to_string_impl ::
  "(typed_buffer, 'c) text_device \<Rightarrow> f_string_type \<Rightarrow> ('c list \<Rightarrow> f_string_view) \<Rightarrow> nat \<Rightarrow> typed_table
   \<Rightarrow> (f_string_view option \<times> typed_table) option" where
  "ft_to_string_impl dev b_type view address table = do {
     (cod_height, cod_width) \<leftarrow> table_geometry dev table;
     let n_codepoints = cod_height * cod_width + 1;
     let buffer = (case conv_buffer table of None \<Rightarrow> create_typed_buffer n_codepoints b_type | Some b \<Rightarrow> b);
     buffer \<leftarrow> grow_typed n_codepoints buffer;
     let table = table\<lparr>conv_buffer := Some buffer\<rparr>;
     if \<not> buffer_check_align address buffer then Some (None, table)
     else do {
       (ws, hs) \<leftarrow> table_rows_and_cols_geometry dev table VISIBLE_GEOMETRY;
       if length hs = 0 then Some (Some (empty_text b_type), table)
       else do {
         rs \<leftarrow> those (rows table);
         let cntx = \<lparr>conv_out = [], raw_avail = tb_sz buffer\<rparr>;
         (st, cntx) \<leftarrow> print_table dev (properties table) rs (separators table) ws hs cod_width cntx;
         let buffer = (if conv_out cntx = [] then buffer else buffer\<lparr>tb_str := Some (view (conv_out cntx))\<rparr>);
         let table = table\<lparr>conv_buffer := Some buffer\<rparr>;
         if st < 0 then Some (None, table)
         else do { s \<leftarrow> tb_str buffer; Some (Some s, table) }
       }
     }
   }"

definition ft_to_wstring ::
  "(byte list \<Rightarrow> int list option) \<Rightarrow> u8strwid \<Rightarrow> nat \<Rightarrow> typed_table \<Rightarrow> (f_string_view option \<times> typed_table) option" where
  "ft_to_wstring mbsrtowcs custom = ft_to_string_impl (wide_device mbsrtowcs custom) W_CHAR_BUF View_wide"

definition ft_to_u8string :: "u8strwid \<Rightarrow> nat \<Rightarrow> typed_table \<Rightarrow> (f_string_view option \<times> typed_table) option" where
  "ft_to_u8string custom = ft_to_string_impl (u8_device custom) UTF8_BUF (\<lambda>bs. View_u8 (bs @ [0]))"

definition ft_to_char_string :: "u8strwid \<Rightarrow> nat \<Rightarrow> typed_table \<Rightarrow> (f_string_view option \<times> typed_table) option" where
  "ft_to_char_string custom = ft_to_string_impl (typed_char_device custom) CHAR_BUF View_char"

end
