(* ===== verification/Fort_Wide_Spec.thy ===== *)
theory Fort_Wide_Spec
  imports Fort_Columns Fort_Wide
begin

text \<open>
  The devices for UTF-8 and wide output keep the contract \<open>text_output\<close>, so the text of a table is
  the page of the theory Fort\_Page; the block allocated for it is large enough.
\<close>

section \<open>Wide characters and their bytes\<close>

lemma sum_of_bytes: "c mod 256 + 256 * (c div 256 mod 256) + 65536 * (c div 65536 mod 256)
    + 16777216 * (c div 16777216 mod 256) = (c :: int) mod 4294967296"
proof -
  let ?d = "c div 256" and ?e = "c div 65536"
  have m: "c mod (256 * 16777216) = 256 * (?d mod 16777216) + c mod 256"
    by (rule zmod_zmult2_eq) simp
  have d: "?d mod (256 * 65536) = 256 * (?d div 256 mod 65536) + ?d mod 256"
    by (rule zmod_zmult2_eq) simp
  have e: "?e mod (256 * 256) = 256 * (?e div 256 mod 256) + ?e mod 256"
    by (rule zmod_zmult2_eq) simp
  have q: "?d div 256 = ?e" "?e div 256 = c div 16777216" by (simp_all add: zdiv_zmult2_eq [symmetric])
  have n: "(256 :: int) * 16777216 = 4294967296" "(256 :: int) * 65536 = 16777216" "(256 :: int) * 256 = 65536" by simp_all
  note m [unfolded n] d [unfolded n q] e [unfolded n q]
  then show ?thesis by linarith
qed

lemma wchar_of_bytes:
  assumes "- (2 ^ 31) \<le> c" and "c < 2 ^ 31"
  shows "wchars_of_bytes (wchar_bytes c @ s) = map_option (Cons c) (wchars_of_bytes s)"
proof -
  have b: "wchar_bytes c = [word_of_int c, word_of_int (c div 256), word_of_int (c div 65536), word_of_int (c div 16777216)]"
    by (simp add: wchar_bytes_def upt_rec drop_bit_eq_div)
  have u: "uint (word_of_int x :: byte) = x mod 256" for x
    by (simp add: uint_word_of_int)
  have p: "(2 :: int) ^ 8 = 256" "(2 :: int) ^ 16 = 65536" "(2 :: int) ^ 24 = 16777216" by simp_all
  have "sint (word_of_int (c mod 4294967296) :: 32 word) = c"
  proof -
    have "(word_of_int (c mod 4294967296) :: 32 word) = word_of_int c"
      by (simp add: word_of_int_eq_iff take_bit_eq_mod)
    moreover have "signed_take_bit 31 c = c" using assms by (intro signed_take_bit_int_eq_self) simp_all
    ultimately show ?thesis by (simp add: sint_sbintrunc')
  qed
  then show ?thesis
    by (simp only: b append.simps wchars_of_bytes.simps u p sum_of_bytes)
qed

lemma wchars_of_text: "\<forall>c \<in> set s. - (2 ^ 31) \<le> c \<and> c < 2 ^ 31 \<Longrightarrow>
    wchars_of_bytes (concat (map wchar_bytes s)) = Some s"
  by (induction s) (simp_all add: wchar_of_bytes)

section \<open>UTF-8 output\<close>

text \<open>Strings whose bytes are valid text, and the lines of a text by its code points.\<close>

definition u8_plain :: "string \<Rightarrow> bool" where
  "u8_plain s \<longleftrightarrow> (\<exists>cps. text_ok cps \<and> map of_char s = utf8_text cps)"

definition u8_lines :: "int list \<Rightarrow> byte text_lines" where
  "u8_lines cps = (if cps = [] then [] else map (\<lambda>l. (utf8_text l, text_columns l)) (split_on wnewline cps))"

definition byte_lines :: "string \<Rightarrow> byte text_lines" where
  "byte_lines s = (if s = [] then [] else map (\<lambda>l. (map of_char l, length l)) (split_on newline s))"

definition u8_shows :: "typed_buffer \<Rightarrow> byte text_lines \<Rightarrow> bool" where
  "u8_shows b ls \<longleftrightarrow>
     (\<exists>cps. text_ok cps \<and> tb_str b = Some (View_u8 (utf8_text cps @ [0])) \<and> ls = u8_lines cps)
     \<or> (\<exists>s. tb_str b = Some (View_char s) \<and> ls = byte_lines s)"

lemma u8_lines_simps: "length (u8_lines cps) = (if cps = [] then 0 else length (split_on wnewline cps))"
    "lines_width (u8_lines cps) = fold max (map text_columns (split_on wnewline cps)) 0"
  by (simp_all add: u8_lines_def lines_width_def comp_def) (simp add: text_columns_def)

lemma byte_lines_simps: "length (byte_lines s) = (if s = [] then 0 else length (split_on newline s))"
    "lines_width (byte_lines s) = text_width s"
  by (simp_all add: byte_lines_def lines_width_def text_width_def comp_def)

lemma bytes_le_columns: "text_ok l \<Longrightarrow> length (utf8_text l) \<le> 4 * text_columns l"
proof (induction l)
  case (Cons c l)
  then have "length (utf8bytes c) \<le> 4" by (simp add: utf8bytes_def)
  moreover have "1 \<le> nat (utf8cwidth c)" using cwidth_pos [of c] Cons.prems by (auto simp: code_ok_def)
  ultimately show ?case using Cons by (simp add: text_columns_def)
qed (simp add: text_columns_def)

lemma codes_le_bytes: "text_ok l \<Longrightarrow> length l \<le> length (utf8_text l)"
proof (induction l)
  case (Cons c l)
  then have "code_ok c" by simp
  then obtain b r where "utf8bytes c = b # r" by (rule bytes_shape)
  with Cons show ?case by simp
qed simp

lemma size_minus_small: "b \<le> a \<Longrightarrow> int a \<le> INT_MAX \<Longrightarrow> size_minus a b = a - b"
proof -
  assume a: "b \<le> a" "int a \<le> INT_MAX"
  then have "b < 2 ^ 31" "a - b < 2 ^ 31" by (simp_all add: INT_MAX_def)
  then have "b mod 2 ^ 64 = b" "(a - b) mod 2 ^ 64 = a - b" by simp_all
  moreover have "a + 2 ^ 64 - b = a - b + 2 ^ 64" using a(1) by linarith
  ultimately show ?thesis unfolding size_minus_def by (simp only: mod_add_self2)
qed

lemma writes_u8_strings:
  assumes "u8_plain s"
  shows "writes 1 (print_n_u8strings n (string_bytes s)) (concat (replicate n (map of_char s)))"
proof (rule writesI)
  fix c :: "byte f_conv_context_of"
  obtain cps where cps: "text_ok cps" "map of_char s = utf8_text cps" using assms by (auto simp: u8_plain_def)
  let ?bs = "utf8_text cps"
  assume room: "has_room 1 (concat (replicate n (map of_char s))) c"
  then have avail: "n * length ?bs + 1 \<le> raw_avail c" "int (raw_avail c) \<le> INT_MAX"
    using cps(2) by (simp_all add: has_room_def length_concat_replicate)
  have sz: "utf8size (string_bytes s) = Some (length ?bs + 1)"
    using to_end_nonzero [OF text_nonzero [OF cps(1)], of "[]"] by (simp add: utf8size_def string_bytes_def cps(2))
  have len: "utf8len (string_bytes s) = Some (length cps)"
    using len_text [OF cps(1), of "[]"] by (simp add: string_bytes_def cps(2))
  have le: "length cps * n \<le> n * length ?bs" using codes_le_bytes [OF cps(1)] by simp
  have ls: "length s = length ?bs" using arg_cong [OF cps(2), of length] by simp
  have int: "int (n * length ?bs) \<le> INT_MAX" using avail by linarith
  have out: "u8nprint_n_strings (raw_avail c) n (string_bytes s) =
      Some (int (n * length ?bs), concat (replicate n ?bs))"
    using avail(1) int unfolding u8nprint_n_strings_def sz bind.simps Let_def
    by (cases "n = 0"; cases "?bs = []") (simp_all add: string_bytes_def cps(2))
  have "int (length cps * n) \<le> INT_MAX" using le int by linarith
  then have r: "to_int32 (int (length cps * n)) = int (length cps * n)" by (intro to_int32_small) simp_all
  have m: "size_minus (raw_avail c) (n * length ?bs) = raw_avail c - n * length ?bs"
    using avail by (intro size_minus_small) linarith+
  have neg: "\<not> int (n * length ?bs) < 0" by (simp del: of_nat_mult)
  have "print_n_u8strings n (string_bytes s) c =
      Some (int (length cps * n), advance 1 (concat (replicate n (map of_char s))) c)"
    by (simp only: print_n_u8strings_def out len r m neg if_False nat_int bind.simps prod.case cps(2) advance_def
      length_concat_replicate) simp
  then show "\<exists>r. 0 \<le> r \<and> r \<le> int (length (concat (replicate n (map of_char s)))) \<and>
      print_n_u8strings n (string_bytes s) c = Some (r, advance 1 (concat (replicate n (map of_char s))) c)"
    using le ls by (simp add: length_concat_replicate del: of_nat_mult)
qed

lemma writes_range_u8: "writes 1 (print_range_u8 bs) bs"
proof (rule writesI)
  fix c
  assume "has_room 1 bs c"
  then have a: "length bs + 1 \<le> raw_avail c" "int (raw_avail c) \<le> INT_MAX" by (simp_all add: has_room_def)
  then have "to_int32 (int (length bs)) = int (length bs)" "size_minus (raw_avail c) (length bs) = raw_avail c - length bs"
    by (auto intro!: to_int32_small size_minus_small)
  with a show "\<exists>r. 0 \<le> r \<and> r \<le> int (length bs) \<and> print_range_u8 bs c = Some (r, advance 1 bs c)"
    by (simp add: print_range_u8_def ft_nu8print_def advance_def Let_def)
qed

interpretation u8: text_output 1 4 "u8_device None" "map of_char" u8_plain u8_shows
proof unfold_locales
  fix b ls i
  assume sh: "u8_shows b ls"
  have "dev_height (u8_device None) b = Some (length ls) \<and> dev_width (u8_device None) b = Some (lines_width ls)
    \<and> (\<forall>i < length ls. \<exists>p. dev_line (u8_device None) b i = Some (Some (p, int (snd (ls ! i)))) \<and> writes 1 p (fst (ls ! i)))
    \<and> (\<forall>l \<in> set ls. length (fst l) \<le> 4 * snd l)"
    using sh unfolding u8_shows_def
  proof (elim disjE exE conjE)
    fix cps
    let ?ls = "split_on wnewline cps"
    assume cps: "text_ok cps" "tb_str b = Some (View_u8 (utf8_text cps @ [0]))" "ls = u8_lines cps"
    have s: "utf8_text cps @ [0] = block_of [] cps" by (simp add: block_of_def)
    have nl: "code_ok wnewline" by (simp add: wnewline_def code_ok_def)
    have "typed_visible_height b = Some (length ls)"
      using cps(2,3) len_text [OF cps(1), of "[]"] count_block [OF nl cps(1), of "[]"] strchr_count_split [of cps wnewline]
      by (simp add: typed_visible_height_def buf_str_len_def s [symmetric] u8_lines_simps)
    moreover have "typed_visible_width None b = Some (lines_width ls)"
      using cps(2,3) u8width_loop_block [OF cps(1), of 0 "[]" 0] by (simp add: typed_visible_width_def s u8_lines_simps)
    moreover have "typed_line None print_range_u8 b i =
        Some (Some (print_range_u8 (fst (ls ! i)), int (snd (ls ! i))))" if i: "i < length ls" for i
    proof -
      have n: "i < length ?ls" "ls ! i = (utf8_text (?ls ! i), text_columns (?ls ! i))"
        using i cps(3) by (auto simp: u8_lines_def split: if_splits)
      have "utf8_width None (utf8_text (?ls ! i)) = Some (text_columns (?ls ! i))"
        using width_text [OF split_on_ok [OF cps(1) nth_mem [OF n(1)]], of "[]"] by (simp add: utf8_width_def text_columns_def)
      with line_block [OF nl cps(1), of "[]" i] n cps(2) show ?thesis
        by (simp add: typed_line_def typed_substring_def s butlast_append)
    qed
    moreover have "length (fst l) \<le> 4 * snd l" if "l \<in> set ls" for l
      using that cps(3) bytes_le_columns [OF split_on_ok [OF cps(1)]] by (auto simp: u8_lines_def split: if_splits)
    ultimately show ?thesis by (simp add: u8_device_def writes_range_u8 del: One_nat_def)
  next
    fix s
    assume s: "tb_str b = Some (View_char s)" "ls = byte_lines s"
    have "typed_visible_height b = Some (length ls)" "typed_visible_width None b = Some (lines_width ls)"
      using s strchr_count_split [of s newline]
      by (simp_all add: typed_visible_height_def typed_visible_width_def buf_str_len_def text_width_loop byte_lines_simps)
    moreover have "typed_line None print_range_u8 b i =
        Some (Some (print_range_u8 (fst (ls ! i)), int (snd (ls ! i))))" if "i < length ls" for i
      using that s by (auto simp: typed_line_def typed_substring_def substring_split byte_lines_def split: if_splits)
    moreover have "length (fst l) \<le> 4 * snd l" if "l \<in> set ls" for l
      using that s(2) by (auto simp: byte_lines_def split: if_splits)
    ultimately show ?thesis by (simp add: u8_device_def writes_range_u8 del: One_nat_def)
  qed
  then show "dev_height (u8_device None) b = Some (length ls)" "dev_width (u8_device None) b = Some (lines_width ls)"
    "i < length ls \<Longrightarrow> \<exists>p. dev_line (u8_device None) b i = Some (Some (p, int (snd (ls ! i)))) \<and> writes 1 p (fst (ls ! i))"
    "l \<in> set ls \<Longrightarrow> length (fst l) \<le> 4 * snd l" for l
    by blast+
next
  have "text_ok [of_char c]" if "c = CHR '' '' \<or> c = newline" for c
    using that by (auto simp: code_ok_def newline_def)
  moreover have "map of_char [c] = utf8_text [of_char c]" if "c = CHR '' '' \<or> c = newline" for c
    using that by (auto simp: newline_def utf8bytes_def)
  ultimately show "u8_plain '' ''" "u8_plain [newline]" unfolding u8_plain_def by blast+
qed (simp_all add: writes_u8_strings u8_device_def del: One_nat_def)


text \<open>The columns of text are those of its code points.\<close>

definition u8_spans :: "byte list \<Rightarrow> nat \<Rightarrow> bool" where
  "u8_spans bs n \<longleftrightarrow> (\<exists>cps. text_ok cps \<and> bs = utf8_text cps \<and> text_columns cps = n)"

definition str_columns :: "string \<Rightarrow> nat" where
  "str_columns s = (case utf8width (string_bytes s) of Some n \<Rightarrow> n | None \<Rightarrow> 0)"

lemma str_columns_text: "text_ok cps \<Longrightarrow> map of_char s = utf8_text cps \<Longrightarrow> str_columns s = text_columns cps"
  using width_text [of cps "[]"] by (simp add: str_columns_def string_bytes_def text_columns_def)

interpretation u8_columns: column_measure "map of_char" u8_plain str_columns u8_spans
proof unfold_locales
  show "u8_spans [] 0" by (auto simp: u8_spans_def text_columns_def intro: exI [of _ "[]"])
  show "u8_spans (x @ y) (m + n)" if "u8_spans x m" "u8_spans y n" for x y m n
  proof -
    from that obtain c d where "text_ok c" "x = utf8_text c" "text_columns c = m" "text_ok d" "y = utf8_text d" "text_columns d = n"
      by (auto simp: u8_spans_def)
    then have "text_ok (c @ d) \<and> x @ y = utf8_text (c @ d) \<and> text_columns (c @ d) = m + n" by (simp add: text_columns_def)
    then show ?thesis unfolding u8_spans_def by blast
  qed
  show "u8_spans (map of_char s) (str_columns s)" if "u8_plain s" for s
    using that str_columns_text by (auto simp: u8_spans_def u8_plain_def)
  show "u8_plain '' ''" by (rule u8.blank_plain)
  show "str_columns '' '' = 1"
    using str_columns_text [of "[32]" "'' ''"] by (simp add: code_ok_def utf8bytes_def text_columns_def utf8cwidth_def)
qed

section \<open>Wide output\<close>

text \<open>
  ASCII strings, and wide texts whose characters take at least a column: printing these the code does
  not overrun its block.
\<close>

definition wide_plain :: "string \<Rightarrow> bool" where
  "wide_plain s \<longleftrightarrow> list_all (\<lambda>c. of_char c < (128 :: nat)) s"

definition wide_ok :: "int list \<Rightarrow> bool" where
  "wide_ok s \<longleftrightarrow> list_all (\<lambda>c. c = wnewline \<or> 1 \<le> wcwidth_of c \<and> c < 2 ^ 31) s"

definition wide_columns :: "int list \<Rightarrow> nat" where
  "wide_columns l = nat (sum_list (map wcwidth_of l))"

definition wide_lines :: "int list \<Rightarrow> int text_lines" where
  "wide_lines s = (if s = [] then [] else map (\<lambda>l. (l, wide_columns l)) (split_on wnewline s))"

definition wide_shows :: "typed_buffer \<Rightarrow> int text_lines \<Rightarrow> bool" where
  "wide_shows b ls \<longleftrightarrow> (\<exists>s. wide_ok s \<and> tb_str b = Some (View_wide s) \<and> ls = wide_lines s)"

lemma wide_lines_simps: "length (wide_lines s) = (if s = [] then 0 else length (split_on wnewline s))"
    "lines_width (wide_lines s) = fold max (map wide_columns (split_on wnewline s)) 0"
  by (simp_all add: wide_lines_def lines_width_def comp_def) (simp add: wide_columns_def)

lemma split_on_subset: "l \<in> set (split_on c xs) \<Longrightarrow> set l \<subseteq> set xs \<and> c \<notin> set l"
  by (induction xs arbitrary: l) (fastforce split: list.splits if_splits)+

lemma wcwidth_pos_range: "1 \<le> wcwidth_of c \<Longrightarrow> 32 \<le> c"
  by (rule ccontr) (simp add: wcwidth_of_def wcwidth_cases split: if_splits)

lemma wide_line_ok:
  assumes "wide_ok s" and "l \<in> set (split_on wnewline s)"
  shows "\<forall>c \<in> set l. 1 \<le> wcwidth_of c \<and> 32 \<le> c \<and> c < 2 ^ 31"
proof
  fix c
  assume "c \<in> set l"
  then have "c \<in> set s" "c \<noteq> wnewline" using split_on_subset [OF assms(2)] by auto
  then have "1 \<le> wcwidth_of c" "c < 2 ^ 31" using assms(1) by (auto simp: wide_ok_def list_all_iff)
  then show "1 \<le> wcwidth_of c \<and> 32 \<le> c \<and> c < 2 ^ 31" using wcwidth_pos_range by blast
qed

lemma columns_ge_length: "\<forall>c \<in> set l. 1 \<le> wcwidth_of c \<Longrightarrow> int (length l) \<le> sum_list (map wcwidth_of l)"
  by (induction l) auto

lemma wide_line_width:
  assumes "\<forall>c \<in> set l. 1 \<le> wcwidth_of c \<and> 32 \<le> c \<and> c < 2 ^ 31"
  shows "wcs_iter_width l = Some (int (wide_columns l))" and "length l \<le> wide_columns l"
proof -
  have n: "0 \<notin> set l" "\<not> (\<exists>c \<in> set l. wcwidth_of c < 0)" using assms by fastforce+
  have w: "int (length l) \<le> sum_list (map wcwidth_of l)" using assms by (intro columns_ge_length) simp
  then show "wcs_iter_width l = Some (int (wide_columns l))"
    using wcswidth_loop_text [OF n(1), of "[]" "length l" 0] n(2)
    by (simp add: wcs_iter_width_def mk_wcswidth_def wide_columns_def)
  show "length l \<le> wide_columns l" using w by (simp add: wide_columns_def)
qed

lemma ascii_sint: "of_char c < (128 :: nat) \<Longrightarrow> sint (of_char c :: byte) = of_char c \<and> \<not> (of_char c :: byte) > 127"
proof -
  assume c: "of_char c < (128 :: nat)"
  have e: "(of_char c :: byte) = of_nat (of_char c)" by (simp only: of_nat_of_char)
  have u: "unat (of_char c :: byte) = of_char c"
    unfolding e unat_of_nat using c by simp
  have i: "uint (of_char c :: byte) = int (of_char c)" unfolding u [symmetric] by (rule uint_nat)
  have "sint (of_char c :: byte) = signed_take_bit 7 (uint (of_char c :: byte))" by (simp only: sint_uint) simp
  also have "\<dots> = int (of_char c)" unfolding i using c by (intro signed_take_bit_int_eq_self) simp_all
  finally have "sint (of_char c :: byte) = int (of_char c)" .
  moreover have "unat (127 :: byte) = 127" by simp
  then have "\<not> (of_char c :: byte) > 127" unfolding word_less_nat_alt u using c by linarith
  ultimately show ?thesis by (simp only: of_nat_of_char simp_thms)
qed

lemma room_units:
  assumes "4 * (m + 1) \<le> a" and "int a \<le> INT_MAX"
  shows "int m \<le> INT_MAX \<and> 4 * m \<le> a"
proof -
  have "4 * m + 4 \<le> a" using assms(1) by simp
  then have "int m \<le> int a" "4 * m \<le> a" by linarith+
  with assms(2) show ?thesis by simp
qed

lemma writes_wide_strings:
  assumes "wide_plain s"
  shows "writes 4 (print_n_wstrings mbsrtowcs n (map of_char s)) (concat (replicate n (map of_char s)))"
proof (rule writesI)
  fix c :: "int f_conv_context_of"
  let ?n = "n * length s"
  assume room: "has_room 4 (concat (replicate n (map of_char s))) c"
  then have avail: "4 * (?n + 1) \<le> raw_avail c" "int (raw_avail c) \<le> INT_MAX"
    by (simp_all add: has_room_def length_concat_replicate)
  have ascii: "\<not> (\<exists>p \<in> set (map of_char s :: byte list). p > 127)"
    "map sint (map of_char s :: byte list) = map of_char s"
    using assms ascii_sint by (auto simp: wide_plain_def list_all_iff)
  have int: "int ?n \<le> INT_MAX" "4 * ?n \<le> raw_avail c" using room_units [OF avail] by simp_all
  have out: "wsnprint_n_string mbsrtowcs (raw_avail c) n (map of_char s) =
      Some (int ?n, concat (replicate n (map of_char s)))"
    using avail(1) int(1) unfolding wsnprint_n_string_def Let_def ascii(2)
    by (cases "n = 0"; cases "s = []") (use ascii(1) in simp_all)
  have m: "size_minus (raw_avail c) (4 * ?n) = raw_avail c - 4 * ?n" by (rule size_minus_small [OF int(2) avail(2)])
  have neg: "\<not> int ?n < 0" by (simp del: of_nat_mult)
  have "print_n_wstrings mbsrtowcs n (map of_char s) c =
      Some (int ?n, advance 4 (concat (replicate n (map of_char s))) c)"
    by (simp only: print_n_wstrings_def out m neg if_False nat_int bind.simps prod.case advance_def
      length_concat_replicate length_map)
  then show "\<exists>r. 0 \<le> r \<and> r \<le> int (length (concat (replicate n (map of_char s)))) \<and>
      print_n_wstrings mbsrtowcs n (map of_char s) c = Some (r, advance 4 (concat (replicate n (map of_char s))) c)"
    by (simp add: length_concat_replicate del: of_nat_mult)
qed

lemma writes_range_wide:
  assumes "\<forall>c \<in> set l. 32 \<le> c \<and> c < 2 ^ 31"
  shows "writes 4 (print_range_wide (concat (map wchar_bytes l))) l"
proof (rule writesI)
  fix c
  assume "has_room 4 l c"
  then have a: "4 * (length l + 1) \<le> raw_avail c" "int (raw_avail c) \<le> INT_MAX" by (simp_all add: has_room_def)
  have "to_int32 (int (length l)) = int (length l)" using room_units [OF a] by (intro to_int32_small) simp_all
  moreover have "size_minus (raw_avail c) (4 * length l) = raw_avail c - 4 * length l"
    using room_units [OF a] a(2) by (intro size_minus_small) simp_all
  moreover have "wchars_of_bytes (concat (map wchar_bytes l)) = Some l" using assms by (intro wchars_of_text) fastforce
  ultimately show "\<exists>r. 0 \<le> r \<and> r \<le> int (length l) \<and> print_range_wide (concat (map wchar_bytes l)) c = Some (r, advance 4 l c)"
    using a by (simp add: print_range_wide_def ft_nwprint_def advance_def)
qed

interpretation wide: text_output 4 1 "wide_device mbsrtowcs None" "map of_char" wide_plain wide_shows
  for mbsrtowcs :: "byte list \<Rightarrow> int list option"
proof unfold_locales
  let ?dev = "wide_device mbsrtowcs None"
  fix b ls i
  assume "wide_shows b ls"
  then obtain s where s: "wide_ok s" "tb_str b = Some (View_wide s)" "ls = wide_lines s" by (auto simp: wide_shows_def)
  let ?ls = "split_on wnewline s"
  have w: "(if \<exists>c \<in> set l. wcwidth_of c < 0 then 0 else nat (sum_list (map wcwidth_of l))) = wide_columns l"
    if "l \<in> set ?ls" for l using wide_line_ok [OF s(1) that] by (force simp: wide_columns_def)
  have nz: "0 \<notin> set s"
  proof
    assume "0 \<in> set s"
    with s(1) have "1 \<le> wcwidth_of 0" by (auto simp: wide_ok_def list_all_iff wnewline_def)
    then show False using wcwidth_pos_range [of 0] by simp
  qed
  show "dev_height ?dev b = Some (length ls)"
    using s strchr_count_split [of s wnewline]
    by (simp add: wide_device_def typed_visible_height_def buf_str_len_def wstrchr_count_def wide_lines_simps)
  have "map (\<lambda>l. if \<exists>c \<in> set l. wcwidth_of c < 0 then 0 else nat (sum_list (map wcwidth_of l))) ?ls = map wide_columns ?ls"
    using w by (intro map_cong) simp_all
  with wide_width_loop_lines [of 0 s 0] nz s show "dev_width ?dev b = Some (lines_width ls)"
    by (simp add: wide_device_def typed_visible_width_def wide_lines_simps)
  show "\<exists>p. dev_line ?dev b i = Some (Some (p, int (snd (ls ! i)))) \<and> writes 4 p (fst (ls ! i))" if "i < length ls"
  proof -
    have n: "i < length ?ls" "ls ! i = (?ls ! i, wide_columns (?ls ! i))"
      using that s(3) by (auto simp: wide_lines_def split: if_splits)
    note ok = wide_line_ok [OF s(1) nth_mem [OF n(1)]]
    have "dev_line ?dev b i = Some (Some (print_range_wide (concat (map wchar_bytes (?ls ! i))), int (wide_columns (?ls ! i))))"
      using n(1) s(2) wide_line_width(1) [OF ok]
      by (simp add: wide_device_def typed_line_def typed_substring_def wstr_n_substring_def substring_split)
    moreover have "writes 4 (print_range_wide (concat (map wchar_bytes (?ls ! i)))) (?ls ! i)"
      using ok by (intro writes_range_wide) simp
    ultimately show ?thesis using n(2) by simp
  qed
  show "length (fst l) \<le> 1 * snd l" if "l \<in> set ls" for l
    using that s wide_line_width(2) [OF wide_line_ok [OF s(1)]] by (auto simp: wide_lines_def split: if_splits)
qed (simp_all add: writes_wide_strings wide_device_def wide_plain_def newline_def)


section \<open>The conversion\<close>

lemma grow_typed_Some:
  "0 < tb_sz b \<Longrightarrow> \<exists>b'. grow_typed n b = Some b' \<and> n \<le> typed_width_capacity b' \<and> tb_type b' = tb_type b
     \<and> (b' = b \<or> tb_sz b' < 2 * (n * char_sz (tb_type b)) \<and> tb_str b' = None)"
proof (induction n b rule: grow_typed.induct)
  case (1 n b)
  show ?case
  proof (cases "n \<le> typed_width_capacity b")
    case True
    then show ?thesis by (simp add: grow_typed.simps [of n b])
  next
    case False
    let ?b = "realloc_typed_without_copy b"
    have step: "grow_typed n b = grow_typed n ?b" using False "1.prems" by (simp add: grow_typed.simps [of n b])
    have b: "0 < tb_sz ?b" "tb_type ?b = tb_type b" "tb_str ?b = None" "tb_sz ?b = 2 * tb_sz b"
      using "1.prems" by (simp_all add: realloc_typed_without_copy_def)
    have "tb_sz b < n * char_sz (tb_type b)"
      using False by (cases "tb_type b") (simp_all add: typed_width_capacity_def not_le div_less_iff_less_mult)
    with "1.IH" False "1.prems" step b show ?thesis by auto
  qed
qed

text \<open>The block a table already owns, of the type of the output, or none yet.\<close>

definition typed_block_ok :: "f_string_type \<Rightarrow> typed_table \<Rightarrow> nat \<Rightarrow> bool" where
  "typed_block_ok ty t n \<longleftrightarrow> (case conv_buffer t of
      None \<Rightarrow> int (n * char_sz ty) \<le> INT_MAX
    | Some b \<Rightarrow> tb_type b = ty \<and> 0 < tb_sz b \<and> int (tb_sz b) \<le> INT_MAX \<and> 2 * int (n * char_sz ty) \<le> INT_MAX)"

lemma typed_block_grows:
  assumes "typed_block_ok ty t n" and "0 < n"
  shows "\<exists>b. grow_typed n (case conv_buffer t of None \<Rightarrow> create_typed_buffer n ty | Some b \<Rightarrow> b) = Some b
     \<and> n * char_sz ty \<le> tb_sz b \<and> int (tb_sz b) \<le> INT_MAX \<and> tb_type b = ty"
proof (cases "conv_buffer t")
  case None
  have "0 < char_sz ty" by (cases ty) simp_all
  then have "typed_width_capacity (create_typed_buffer n ty) = n"
    by (simp add: typed_width_capacity_def create_typed_buffer_def Let_def)
  then have "grow_typed n (create_typed_buffer n ty) = Some (create_typed_buffer n ty)"
    by (simp add: grow_typed.simps)
  with None assms show ?thesis by (simp add: typed_block_ok_def create_typed_buffer_def Let_def)
next
  case (Some b)
  then have b: "tb_type b = ty" "0 < tb_sz b" "int (tb_sz b) \<le> INT_MAX" "2 * int (n * char_sz ty) \<le> INT_MAX"
    using assms(1) by (simp_all add: typed_block_ok_def)
  obtain b' where b': "grow_typed n b = Some b'" "n \<le> typed_width_capacity b'" "tb_type b' = ty"
      "b' = b \<or> tb_sz b' < 2 * (n * char_sz ty)"
    using grow_typed_Some [OF b(2), of n] b(1) by blast
  have "n * char_sz ty \<le> tb_sz b'"
    using b'(2,3) by (cases ty) (simp_all add: typed_width_capacity_def less_eq_div_iff_mult_less_eq)
  moreover have "int (tb_sz b') \<le> INT_MAX"
    using b'(4)
  proof (elim disjE)
    assume "tb_sz b' < 2 * (n * char_sz ty)"
    then have "int (tb_sz b') < 2 * int (n * char_sz ty)" by linarith
    with b(4) show ?thesis by linarith
  qed (use b(3) in simp)
  ultimately show ?thesis using b'(1,3) Some by auto
qed

text \<open>An output for typed tables: a code point of its type has room for what a column takes.\<close>

locale text_block = text_output sz k dev enc plain shows_lines
  for sz :: nat and k :: nat and dev :: "(typed_buffer, 'c) text_device" and enc :: "string \<Rightarrow> 'c list"
    and plain :: "string \<Rightarrow> bool" and shows_lines :: "typed_buffer \<Rightarrow> 'c text_lines \<Rightarrow> bool" +
  fixes b_type :: f_string_type
  assumes block: "sz * k \<le> char_sz b_type"
begin

lemma to_string_page:
  fixes t :: typed_table
  defines "p \<equiv> properties t" and "ss \<equiv> separators t"
  assumes t: "rows t = map Some (slot_rows rws)" and sh: "cells_show shows_lines rws cells"
    and g: "geoms_ok p cells" and st: "style_ok (bstyle p)" and plain: "page_plain plain p cells"
    and n: "0 < length cells" and ss: "list_all (\<lambda>s. s \<noteq> None) ss"
    and "page_text enc p ss cells \<noteq> []" and al: "b_type = W_CHAR_BUF \<longrightarrow> address mod 4 = 0"
    and "typed_block_ok b_type t (page_max_height p cells * page_max_width p cells + 1)"
  shows "\<exists>b. ft_to_string_impl dev b_type view address t =
       Some (Some (view (page_text enc p ss cells)), t\<lparr>conv_buffer := Some b\<rparr>)
     \<and> tb_str b = Some (view (page_text enc p ss cells)) \<and> sz * (length (page_text enc p ss cells) + 1) \<le> tb_sz b"
proof -
  let ?n = "page_max_height p cells * page_max_width p cells + 1" and ?text = "page_text enc p ss cells"
  let ?ws = "map (page_width p cells) [0..<n_cols cells]" and ?hs = "map (page_height p cells) [0..<length cells]"
  obtain b where b: "grow_typed ?n (case conv_buffer t of None \<Rightarrow> create_typed_buffer ?n b_type | Some b \<Rightarrow> b) = Some b"
      "?n * char_sz b_type \<le> tb_sz b" "int (tb_sz b) \<le> INT_MAX" "tb_type b = b_type"
    using typed_block_grows [OF assms(12)] by auto
  let ?c = "\<lparr>conv_out = [], raw_avail = tb_sz b\<rparr>"
  have geo: "table_geometry dev t = Some (page_max_height p cells, page_max_width p cells)"
    using max_geometry [OF t sh] g by (simp add: p_def)
  have vis: "table_rows_and_cols_geometry dev (t\<lparr>conv_buffer := Some b\<rparr>) VISIBLE_GEOMETRY = Some (?ws, ?hs)"
    using geometry [of "t\<lparr>conv_buffer := Some b\<rparr>" _ cells VISIBLE_GEOMETRY, OF _ sh] t g by (simp add: p_def)
  have th: "those (rows t) = Some (slot_rows rws)" by (rule table_sizes(2) [OF t sh])
  have fits: "sz * (length ?text + 1) \<le> tb_sz b"
  proof -
    have "length ?text + 1 \<le> k * ?n"
      using page_text_bound [OF st sh, of ss] k_pos by (simp add: algebra_simps)
    then have "sz * (length ?text + 1) \<le> sz * (k * ?n)" by (rule mult_le_mono2)
    also have "\<dots> \<le> ?n * char_sz b_type" using mult_le_mono1 [OF block, of ?n] by (simp only: mult_ac)
    finally show ?thesis using b(2) by (rule le_trans)
  qed
  then have room: "has_room sz ?text ?c" using b(3) by (simp add: has_room_def)
  obtain r where run: "0 \<le> r" "print_table dev p (slot_rows rws) ss ?ws ?hs (page_max_width p cells) ?c =
      Some (r, advance sz ?text ?c)"
    using writesE [OF writes_table [OF sh g st plain n ss] room] by metis
  let ?b = "b\<lparr>tb_str := Some (view ?text)\<rparr>"
  have "ft_to_string_impl dev b_type view address t = Some (Some (view ?text), t\<lparr>conv_buffer := Some ?b\<rparr>)"
    using n assms(10) al b(4) run unfolding ft_to_string_impl_def geo bind.simps prod.case Let_def b(1) vis
    by (simp add: th advance_def buffer_check_align_def p_def ss_def del: bind_Some_iff)
  then show ?thesis using fits by (intro exI [of _ ?b]) simp
qed

end

interpretation u8_block: text_block 1 4 "u8_device None" "map of_char" u8_plain u8_shows UTF8_BUF
  by unfold_locales simp

interpretation wide_block: text_block 4 1 "wide_device mbsrtowcs None" "map of_char" wide_plain wide_shows W_CHAR_BUF
  for mbsrtowcs :: "byte list \<Rightarrow> int list option"
  by unfold_locales simp

end
