(* ===== verification/Wide_Correct.thy ===== *)
theory Wide_Correct
  imports Fort_Build Fort_Wide_Spec
begin

text \<open>
  The properties of tables as text: what the conversion to UTF-8 gives, and that the columns of what
  is printed stand below each other.
\<close>

section \<open>Elements of the border styles as text\<close>

lemma byte_of_char: "k < 256 \<Longrightarrow> (of_char (char_of k) :: byte) = of_nat k"
proof -
  assume "k < 256"
  then have "(of_char (char_of k) :: nat) = k" by simp
  then show ?thesis by (metis of_nat_of_char)
qed

lemma or_byte:
  fixes y a :: int
  assumes "0 \<le> y" and "y < 2 ^ n"
  shows "(word_of_int (push_bit n a) OR word_of_int y :: byte) = word_of_int (a * 2 ^ n + y)"
  unfolding or_shifted [OF assms, symmetric] by (simp add: byte_eq_iff bit_simps)

lemma u8_text:
  assumes "0x800 \<le> n" and "n < 0x10000"
  shows "text_ok [int n] \<and> map of_char (u8 n) = utf8_text [int n]"
proof -
  let ?x = "n div 4096" and ?y = "n div 64 mod 64" and ?z = "n mod 64"
  have b: "?x < 16" "?y < 64" "?z < 64" using assms(2) by (simp_all add: div_less_iff_less_mult)
  have d: "drop_bit 12 (int n) = int ?x" "drop_bit 6 (int n) AND 0x3F = int ?y" "int n AND 0x3F = int ?z"
    using take_bit_eq_mask [of 6 "int n"] take_bit_eq_mask [of 6 "drop_bit 6 (int n)"]
    by (simp_all add: drop_bit_eq_div mask_eq_exp_minus_1 take_bit_eq_mod zdiv_int zmod_int)
  have t: "(0x80 OR word_of_int (int y) :: byte) = of_nat (0x80 + y)" if "y < 64" for y
    using or_byte [of "int y" 6 2] that by simp
  have h: "(0xE0 OR word_of_int (int ?x) :: byte) = of_nat (0xE0 + ?x)"
    using or_byte [of "int ?x" 4 14] b(1) by simp
  have "utf8bytes (int n) = [of_nat (0xE0 + ?x), of_nat (0x80 + ?y), of_nat (0x80 + ?z)]"
    using assms h t [OF b(2)] t [OF b(3)] by (simp add: bytes_3 d)
  moreover have "map of_char (u8 n) = [of_nat (0xE0 + ?x), of_nat (0x80 + ?y), of_nat (0x80 + ?z) :: byte]"
    using b by (simp add: u8_def byte_of_char)
  ultimately show ?thesis using assms by (simp add: code_ok_def)
qed

text \<open>The elements of the built-in styles: none, an ASCII character, a box or a block.\<close>

definition style_elem :: "string \<Rightarrow> bool" where
  "style_elem s \<longleftrightarrow> s = [] \<or> (\<exists>c. s = [c] \<and> 32 \<le> (of_char c :: nat) \<and> (of_char c :: nat) < 127)
     \<or> (\<exists>n. s = u8 n \<and> 0x2500 \<le> n \<and> n < 0x2600)"

lemma ascii_text: "0 < (of_char c :: nat) \<Longrightarrow> of_char c < (128 :: nat) \<Longrightarrow>
    text_ok [of_char c] \<and> map of_char [c] = utf8_text [of_char c]"
proof -
  assume c: "0 < (of_char c :: nat)" "of_char c < (128 :: nat)"
  then have i: "0 < (of_char c :: int)" "(of_char c :: int) < 0x80"
    using of_nat_of_char [of c, where 'a = int] by linarith+
  have "(word_of_int (int k) :: byte) = of_nat k" for k by simp
  from this [of "of_char c"] have "(word_of_int (of_char c) :: byte) = of_char c" by (simp only: of_nat_of_char)
  with i show ?thesis by (simp add: code_ok_def bytes_1)
qed

lemma style_elem_text:
  assumes "style_elem s"
  shows "u8_plain s" and "str_columns s = (if s = [] then 0 else 1)"
proof -
  have "\<exists>cps. text_ok cps \<and> map of_char s = utf8_text cps \<and> text_columns cps = (if s = [] then 0 else 1)"
    using assms unfolding style_elem_def
  proof (elim disjE exE conjE)
    assume "s = []"
    then show ?thesis by (intro exI [of _ "[]"]) (simp add: text_columns_def)
  next
    fix c
    assume c: "s = [c]" "32 \<le> (of_char c :: nat)" "(of_char c :: nat) < 127"
    then have "0 < (of_char c :: int)" "(of_char c :: int) < 0x80"
      using of_nat_of_char [of c, where 'a = int] by linarith+
    with c ascii_text [of c] show ?thesis
      by (intro exI [of _ "[of_char c]"]) (simp add: text_columns_def utf8cwidth_def)
  next
    fix n
    assume n: "s = u8 n" "0x2500 \<le> n" "n < 0x2600"
    then have "utf8cwidth (int n) = 1"
      by (simp add: utf8cwidth_def in_ranges_def fullwidth_ranges_def wide_ranges_def)
    moreover have "s \<noteq> []" using n(1) by (simp add: u8_def)
    ultimately show ?thesis using u8_text [of n] n by (intro exI [of _ "[int n]"]) (simp add: text_columns_def)
  qed
  then show "u8_plain s" "str_columns s = (if s = [] then 0 else 1)"
    using str_columns_text by (auto simp: u8_plain_def)
qed

lemma style_elems [simp]: "style_elem []" "32 \<le> (of_char c :: nat) \<Longrightarrow> (of_char c :: nat) < 127 \<Longrightarrow> style_elem [c]"
    "0x2500 \<le> n \<Longrightarrow> n < 0x2600 \<Longrightarrow> style_elem (u8 n)"
  by (auto simp: style_elem_def)

lemma built_in_elems:
  assumes "bs \<in> set built_in_styles"
  shows "\<forall>s \<in> style_elements bs. style_elem s"
proof -
  have "list_all (\<lambda>bs. list_all style_elem (border_chars bs) \<and> list_all style_elem (header_border_chars bs)
    \<and> list_all style_elem (separator_chars bs)) built_in_styles"
    by (simp add: built_in_styles_def style_defs)
  with assms show ?thesis by (auto simp: list_all_iff style_elements_def)
qed

lemma built_in_plain: "bs \<in> set built_in_styles \<Longrightarrow> list_all u8_plain (border_chars bs)
    \<and> list_all u8_plain (header_border_chars bs) \<and> list_all u8_plain (separator_chars bs)"
  using built_in_elems style_elem_text(1) by (auto simp: list_all_iff style_elements_def)

lemma built_in_aligned:
  assumes "bs \<in> set built_in_styles"
  shows "\<exists>a b d. style_aligned str_columns bs a b d"
proof -
  have "str_columns s = element_columns s" if "s \<in> style_elements bs" for s
    using built_in_elems [OF assms] style_elem_text(2) that by blast
  then have "style_aligned str_columns bs a b d = style_aligned element_columns bs a b d" for a b d
    by (rule style_aligned_cong [OF built_in_style_ok [OF assms]])
  then show ?thesis using built_in_styles_aligned [OF assms] by simp
qed

section \<open>Tables as UTF-8 text\<close>

text \<open>C11: The text a table of cells with char and UTF-8 text is converted to is its page: margins,
  separator lines and the cells padded to the columns their code points take.  The block allocated
  for it is large enough for the bytes of it and the terminator, and the call does not fault.\<close>

theorem fort_u8_text:
  assumes "rows t = map Some (slot_rows rws)" and "cells_show u8_shows rws cells"
    and "geoms_ok (properties t) cells" and "style_ok (bstyle (properties t))"
    and "page_plain u8_plain (properties t) cells"
    and "0 < length cells" and "list_all (\<lambda>s. s \<noteq> None) (separators t)"
    and "page_text (map of_char) (properties t) (separators t) cells \<noteq> []"
    and "typed_block_ok UTF8_BUF t (page_max_height (properties t) cells * page_max_width (properties t) cells + 1)"
  shows "\<exists>b. ft_to_u8string None address t =
       Some (Some (View_u8 (page_text (map of_char) (properties t) (separators t) cells @ [0])), t\<lparr>conv_buffer := Some b\<rparr>)
     \<and> length (page_text (map of_char) (properties t) (separators t) cells) + 1 \<le> tb_sz b"
  using u8_block.to_string_page [OF assms(1-8) _ assms(9), of address "\<lambda>bs. View_u8 (bs @ [0])"]
  by (auto simp: ft_to_u8string_def)

text \<open>One row with a Hangul syllable, which takes two columns and three bytes, and a \<open>char\<close> cell,
  with borders of box characters.\<close>

definition U8_ROW :: "typed_cell list list" where
  "U8_ROW = [[create_typed_cell\<lparr>str_buffer := \<lparr>tb_type = UTF8_BUF, tb_str = Some (View_u8 [0xEA, 0xB0, 0x80, 0]), tb_sz = 1024\<rparr>\<rparr>,
     typed_text_cell ''1'']]"

definition BOX_PROPS :: f_table_properties where
  "BOX_PROPS = (properties PLAIN_TABLE)\<lparr>bstyle := SOLID_STYLE\<rparr>"

definition U8_TABLE :: typed_table where
  "U8_TABLE = ft_create_table\<lparr>rows := map Some (slot_rows U8_ROW), properties := BOX_PROPS\<rparr>"

definition U8_CELLS :: "byte text_lines list list" where
  "U8_CELLS = [[u8_lines [0xAC00], byte_lines ''1'']]"

lemma u8_cells_show: "cells_show u8_shows U8_ROW U8_CELLS"
proof -
  have "utf8_text [0xAC00] = [0xEA, 0xB0, 0x80]" by code_simp
  then have "utf8_text [0xAC00] @ [0] = [0xEA, 0xB0, 0x80, 0]" by simp
  moreover have "text_ok [0xAC00]" by (simp add: code_ok_def)
  ultimately have "u8_shows \<lparr>tb_type = UTF8_BUF, tb_str = Some (View_u8 [0xEA, 0xB0, 0x80, 0]), tb_sz = 1024\<rparr> (u8_lines [0xAC00])"
    unfolding u8_shows_def by (metis typed_buffer.select_convs(2))
  moreover have "u8_shows (str_buffer (typed_text_cell ''1'')) (byte_lines ''1'')"
    by (auto simp: u8_shows_def typed_text_cell_def fill_typed_cell_from_string_def fill_typed_from_string_def)
  ultimately show ?thesis
    by (simp add: cells_show_def U8_ROW_def U8_CELLS_def create_typed_cell_def typed_text_cell_def
      fill_typed_cell_from_string_def fill_typed_from_string_def)
qed

lemma u8_cells_eq: "U8_CELLS = [[[([0xEA, 0xB0, 0x80], 2)], [([0x31], 1)]]]"
  unfolding U8_CELLS_def by code_simp

lemma plain_geom_at: "geom_at (properties PLAIN_TABLE) r c = default_geom 1"
  by (simp add: geom_at_def plain_geom)

lemma box_lookup: "get_cell_property_hierarchically BOX_PROPS = get_cell_property_hierarchically (properties PLAIN_TABLE)"
  by (intro ext) (simp add: get_cell_property_hierarchically_def BOX_PROPS_def)

lemma box_geom: "cell_geom_of BOX_PROPS r c = Some (default_geom 1)"
proof -
  have "cell_geom_of BOX_PROPS r c = cell_geom_of (properties PLAIN_TABLE) r c"
    by (simp add: cell_geom_of_def size_prop_def word_prop_def get_style_tag_for_cell_def
      get_reset_style_tag_for_cell_def get_style_tag_for_content_def get_reset_style_tag_for_content_def box_lookup)
  then show ?thesis by (simp add: plain_geom)
qed

lemma box_geom_at: "geom_at BOX_PROPS r c = default_geom 1"
  by (simp add: geom_at_def box_geom)

lemma box_style: "bstyle BOX_PROPS = SOLID_STYLE" "tprops BOX_PROPS = g_entire_table_properties"
    "SOLID_STYLE \<in> set built_in_styles"
  using plain_margins(1) by (simp_all add: BOX_PROPS_def built_in_styles_def)

lemma box_no_header: "\<not> header_row BOX_PROPS r"
proof -
  have "matching [] q rc = None" for q rc by (cases rc) (simp add: matching_def)
  then have "row_type_of BOX_PROPS r = cell_prop_field g_default_cell_properties FT_CPROP_ROW_TYPE"
    by (simp add: row_type_of_def box_lookup lookup_first lookup_order_def map_filter_simps
      get_prop_value_if_exists_otherwise_default_def PLAIN_TABLE_def create_table_properties_def create_cell_prop_container_def)
  then show ?thesis
    by (simp add: header_row_def cell_prop_field_def cprop_defs g_default_cell_properties_def FT_ROW_HEADER_def FT_ROW_COMMON_def)
qed

lemma u8_sizes:
  "n_cols U8_CELLS = 2" "length U8_CELLS = 1"
  "page_width BOX_PROPS U8_CELLS 0 = 4" "page_width BOX_PROPS U8_CELLS 1 = 3"
  "page_height BOX_PROPS U8_CELLS 0 = 1" "page_invis BOX_PROPS U8_CELLS c = 0"
  by (simp_all add: u8_cells_eq n_cols_def page_width_def page_height_def page_invis_def maxf_def box_geom_at default_geom_def
    box_width_def box_height_def geom_invis_def lines_width_def Let_def numeral_2_eq_2)

lemma box_border: "max_border_elem_strlen BOX_PROPS = 3"
proof -
  have ok: "style_ok SOLID_STYLE" by (rule built_in_style_ok [OF box_style(3)])
  have "max_border_elem_strlen BOX_PROPS = fold max (map length (separator_chars SOLID_STYLE))
      (fold max (map length (header_border_chars SOLID_STYLE)) (fold max (map length (border_chars SOLID_STYLE)) 1))"
    using ok by (simp add: max_border_elem_strlen_def box_style style_ok_def Let_def flip: fold_max_nth)
  then show ?thesis by (simp add: SOLID_STYLE_def u8_def)
qed

lemma box_page:
  "page_max_height BOX_PROPS U8_CELLS = 3" "page_max_width BOX_PROPS U8_CELLS = 33"
  "page_text (map of_char) BOX_PROPS [] U8_CELLS = utf8_text
     [0x250C, 0x2500, 0x2500, 0x2500, 0x2500, 0x252C, 0x2500, 0x2500, 0x2500, 0x2510, 0x0A,
      0x2502, 0x20, 0xAC00, 0x20, 0x2502, 0x20, 0x31, 0x20, 0x2502, 0x0A,
      0x2514, 0x2500, 0x2500, 0x2500, 0x2500, 0x2534, 0x2500, 0x2500, 0x2500, 0x2518, 0x0A]"
proof -
  show "page_max_height BOX_PROPS U8_CELLS = 3"
    by (simp add: page_max_height_def u8_sizes box_style g_entire_table_properties_def)
  show "page_max_width BOX_PROPS U8_CELLS = 33"
    by (simp add: page_max_width_def u8_sizes u8_sizes(4) [unfolded One_nat_def] box_style g_entire_table_properties_def box_border numeral_2_eq_2)
  let ?e = "map of_char :: string \<Rightarrow> byte list"
  have e: "?e (u8 n) = utf8bytes (int n)" if "0x2500 \<le> n" "n < 0x2600" for n
    using u8_text [of n] that by simp
  have lines: "line_elems BOX_PROPS [] 1 0 = \<lparr>lc_L = u8 0x250C, lc_I = u8 0x2500, lc_IV = u8 0x252C, lc_R = u8 0x2510,
      lc_IT = u8 0x252C, lc_IB = u8 0x252C, lc_II = u8 0x2500\<rparr>"
    "line_elems BOX_PROPS [] 1 1 = \<lparr>lc_L = u8 0x2514, lc_I = u8 0x2500, lc_IV = u8 0x2534, lc_R = u8 0x2518,
      lc_IT = u8 0x2534, lc_IB = u8 0x2534, lc_II = u8 0x2500\<rparr>"
    by (simp_all add: line_elems_def box_no_header separator_line_chars_def sep_on_def line_pos_def box_style Let_def SOLID_STYLE_def)
  have row: "row_chars BOX_PROPS 0 ! k = u8 0x2502" if "k = LL_bip \<or> k = IV_bip \<or> k = RR_bip" for k
    using that by (auto simp: row_chars_def box_no_header box_style SOLID_STYLE_def)
  have a: "utf8bytes 0x20 = [0x20]" "utf8bytes 0x0A = [0x0A]" "utf8bytes 0x31 = [0x31]" "utf8bytes 0xAC00 = [0xEA, 0xB0, 0x80]"
    by code_simp+
  have u: "length (u8 m) = 3" "u8 m \<noteq> []" for m by (simp_all add: u8_def)
  have rep: "concat (replicate 4 x) = x @ x @ x @ x" for x :: "byte list" by (simp add: numeral_eq_Suc)
  have line: "page_line ?e BOX_PROPS [] U8_CELLS 0 = utf8_text
     [0x250C, 0x2500, 0x2500, 0x2500, 0x2500, 0x252C, 0x2500, 0x2500, 0x2500, 0x2510, 0x0A]"
    "page_line ?e BOX_PROPS [] U8_CELLS 1 = utf8_text
     [0x2514, 0x2500, 0x2500, 0x2500, 0x2500, 0x2534, 0x2500, 0x2500, 0x2500, 0x2518, 0x0A]"
    by (simp_all add: page_line_def lines [unfolded One_nat_def] hidden_line_def not_printable_def u8_sizes [unfolded One_nat_def]
      page_left_def page_right_def box_style g_entire_table_properties_def pad_def plain_cross_def e newline_str_def newline_def
      numeral_2_eq_2 upt_rec a Let_def numeral_3_eq_3 u rep)
  have cell: "page_cell ?e BOX_PROPS U8_CELLS 0 0 0 = [0x20, 0xEA, 0xB0, 0x80, 0x20]"
    "page_cell ?e BOX_PROPS U8_CELLS 0 0 1 = [0x20, 0x31, 0x20]"
    using u8_sizes(3,4)
    by (simp_all add: page_cell_def u8_cells_eq box_line_def text_line_def box_geom_at default_geom_def lines_width_def
      pad_def align_left_def Let_def)
  have "page_row_line ?e BOX_PROPS U8_CELLS 0 0 = utf8_text [0x2502, 0x20, 0xAC00, 0x20, 0x2502, 0x20, 0x31, 0x20, 0x2502, 0x0A]"
    using cell
    by (simp add: page_row_line_def page_cells_def u8_sizes row e page_left_def page_right_def box_style
      g_entire_table_properties_def pad_def newline_str_def newline_def numeral_2_eq_2 a)
  then show "page_text ?e BOX_PROPS [] U8_CELLS = utf8_text
     [0x250C, 0x2500, 0x2500, 0x2500, 0x2500, 0x252C, 0x2500, 0x2500, 0x2500, 0x2510, 0x0A,
      0x2502, 0x20, 0xAC00, 0x20, 0x2502, 0x20, 0x31, 0x20, 0x2502, 0x0A,
      0x2514, 0x2500, 0x2500, 0x2500, 0x2500, 0x2534, 0x2500, 0x2500, 0x2500, 0x2518, 0x0A]"
    using line
    by (simp add: page_text_def page_lines_def page_margin_def page_rows_def box_style g_entire_table_properties_def
      u8_sizes)
qed

lemma u8_table: "rows U8_TABLE = map Some (slot_rows U8_ROW)" "properties U8_TABLE = BOX_PROPS" "separators U8_TABLE = []"
    "conv_buffer U8_TABLE = None"
  by (simp_all add: U8_TABLE_def ft_create_table_def)

lemma box_ok: "geoms_ok BOX_PROPS U8_CELLS" "style_ok (bstyle BOX_PROPS)" "page_plain u8_plain BOX_PROPS U8_CELLS"
    "no_tags BOX_PROPS U8_CELLS"
proof -
  have "u8_plain []" using style_elem_text(1) [of "[]"] by simp
  then show "page_plain u8_plain BOX_PROPS U8_CELLS"
    using built_in_plain [OF box_style(3)]
    by (simp add: page_plain_def plain_tags_def box_geom_at default_geom_def box_style)
qed (simp_all add: geoms_ok_def box_geom no_tags_def box_geom_at default_geom_def Let_def box_style
  built_in_style_ok [OF box_style(3)])

lemma box_text: "page_text (map of_char :: string \<Rightarrow> byte list) BOX_PROPS [] U8_CELLS \<noteq> []"
proof -
  have "utf8bytes 0x0A = [0x0A]" by code_simp
  then show ?thesis by (simp add: box_page)
qed

lemma box_block: "typed_block_ok UTF8_BUF U8_TABLE (page_max_height BOX_PROPS U8_CELLS * page_max_width BOX_PROPS U8_CELLS + 1)"
  by (simp add: typed_block_ok_def u8_table box_page INT_MAX_def)

theorem fort_u8_text_witness:
  "\<exists>b. ft_to_u8string None 0 U8_TABLE = Some (Some (View_u8 (utf8_text
     [0x250C, 0x2500, 0x2500, 0x2500, 0x2500, 0x252C, 0x2500, 0x2500, 0x2500, 0x2510, 0x0A,
      0x2502, 0x20, 0xAC00, 0x20, 0x2502, 0x20, 0x31, 0x20, 0x2502, 0x0A,
      0x2514, 0x2500, 0x2500, 0x2500, 0x2500, 0x2534, 0x2500, 0x2500, 0x2500, 0x2518, 0x0A] @ [0])),
     U8_TABLE\<lparr>conv_buffer := Some b\<rparr>)"
proof -
  have n: "0 < length U8_CELLS" using u8_sizes(2) by simp
  have "\<exists>b. ft_to_u8string None 0 U8_TABLE = Some (Some (View_u8 (page_text (map of_char) BOX_PROPS [] U8_CELLS @ [0])),
      U8_TABLE\<lparr>conv_buffer := Some b\<rparr>)"
    using fort_u8_text [of U8_TABLE U8_ROW U8_CELLS 0, unfolded u8_table(2,3), OF u8_table(1) u8_cells_show box_ok(1-3) n _ box_text box_block]
    by auto
  then show ?thesis by (simp only: box_page(3))
qed

section \<open>Tables as wide text\<close>

text \<open>With cells of wide text whose characters take a column or two and an ASCII border, the wide text
  is the page, too, in an aligned block.\<close>

theorem fort_wide_text:
  assumes "rows t = map Some (slot_rows rws)" and "cells_show wide_shows rws cells"
    and "geoms_ok (properties t) cells" and "style_ok (bstyle (properties t))"
    and "page_plain wide_plain (properties t) cells"
    and "0 < length cells" and "list_all (\<lambda>s. s \<noteq> None) (separators t)"
    and "page_text (map of_char) (properties t) (separators t) cells \<noteq> []" and "address mod 4 = 0"
    and "typed_block_ok W_CHAR_BUF t (page_max_height (properties t) cells * page_max_width (properties t) cells + 1)"
  shows "\<exists>b. ft_to_wstring mbsrtowcs None address t =
       Some (Some (View_wide (page_text (map of_char) (properties t) (separators t) cells)), t\<lparr>conv_buffer := Some b\<rparr>)
     \<and> 4 * (length (page_text (map of_char :: string \<Rightarrow> int list) (properties t) (separators t) cells) + 1) \<le> tb_sz b"
  using wide_block.to_string_page [OF assms(1-8) _ assms(10), where address = address and view = View_wide] assms(9)
  by (auto simp: ft_to_wstring_def)

text \<open>A \<open>char\<close> cell in wide output is read four bytes at a time: \<open>name\<close> becomes one character, and for
  \<open>a\<close> there is no whole one.\<close>

theorem fort_wide_char_cells:
  "wchars_of_bytes (line_bytes (View_char ''name'')) = Some [0x656D616E]
   \<and> print_range_wide (line_bytes (View_char ''a'')) c = None"
  by (simp add: print_range_wide_def)

section \<open>Columns below each other\<close>

text \<open>A margin line: blanks up to the width the block was computed for.\<close>

definition margin_line :: "nat \<Rightarrow> 'c list \<Rightarrow> nat \<Rightarrow> 'c list list" where
  "margin_line n blank w = replicate n (concat (replicate (w - 1) blank))"

text \<open>C12: The UTF-8 text of a table with one of the built-in border styles and cells without style tags
  (no colours, no text styles): between the blank lines of the top and bottom margin, all lines take the
  same number of columns of the screen, counted by the width of their code points, whatever mixture of
  narrow and wide characters the cells hold.\<close>

theorem fort_u8_aligned:
  assumes "rows t = map Some (slot_rows rws)" and "cells_show u8_shows rws cells"
    and "geoms_ok (properties t) cells" and "bstyle (properties t) \<in> set built_in_styles"
    and "no_tags (properties t) cells" and "lines_span u8_spans cells" and "0 < n_cols cells"
    and "list_all (\<lambda>s. s \<noteq> None) (separators t)"
    and "page_text (map of_char :: string \<Rightarrow> byte list) (properties t) (separators t) cells \<noteq> []"
    and "typed_block_ok UTF8_BUF t (page_max_height (properties t) cells * page_max_width (properties t) cells + 1)"
  shows "\<exists>ls w t'. ft_to_u8string None address t =
       Some (Some (View_u8 (concat (map (\<lambda>l. utf8_text l @ [0x0A])
         (margin_line (unat (top_margin (tprops (properties t)))) [0x20] (page_max_width (properties t) cells) @ ls
          @ margin_line (unat (bottom_margin (tprops (properties t)))) [0x20] (page_max_width (properties t) cells))) @ [0])), t')
     \<and> list_all (\<lambda>l. text_ok l \<and> text_columns l = w) ls"
proof -
  let ?p = "properties t" and ?e = "map of_char :: string \<Rightarrow> byte list"
  let ?text = "page_text ?e ?p (separators t) cells"
  obtain a b d where al: "style_aligned str_columns (bstyle ?p) a b d" using built_in_aligned [OF assms(4)] by blast
  note ok = built_in_style_ok [OF assms(4)]
  have "u8_plain []" "str_columns [] = 0" using style_elem_text [of "[]"] by simp_all
  then have plain: "page_plain u8_plain ?p cells" and hid: "tags_hidden str_columns ?p cells"
    using assms(5) built_in_plain [OF assms(4)] no_tags_hidden
    by (simp_all add: page_plain_def plain_tags_def no_tags_def Let_def)
  have n: "0 < length cells" using assms(7) by (cases cells) (simp_all add: n_cols_def)
  let ?w = "page_columns ?p cells a b d"
  let ?m = "\<lambda>n. replicate n (pad ?e (page_max_width ?p cells - 1))"
  let ?top = "unat (top_margin (tprops ?p))" and ?bottom = "unat (bottom_margin (tprops ?p))"
  obtain us where us: "?text = concat (map (\<lambda>l. l @ ?e newline_str) (?m ?top @ us @ ?m ?bottom))" "list_all (\<lambda>l. u8_spans l ?w) us"
    using u8_columns.text_aligned [OF ok plain hid assms(6) al assms(7)] by blast
  from us(2) have "\<exists>ls. us = map utf8_text ls \<and> list_all (\<lambda>l. text_ok l \<and> text_columns l = ?w) ls"
  proof (induction us)
    case (Cons u us)
    then obtain ls c where "us = map utf8_text ls" "list_all (\<lambda>l. text_ok l \<and> text_columns l = ?w) ls"
      "u = utf8_text c" "text_ok c \<and> text_columns c = ?w" by (auto simp: u8_spans_def)
    then show ?case by (intro exI [of _ "c # ls"]) simp
  qed simp
  then obtain ls where ls: "us = map utf8_text ls" "list_all (\<lambda>l. text_ok l \<and> text_columns l = ?w) ls" by blast
  have blank: "utf8bytes 0x20 = [0x20]" by code_simp
  then have "utf8_text (concat (replicate k [0x20])) = pad ?e k" for k by (induction k) (simp_all add: pad_def)
  then have "?m k = map utf8_text (margin_line k [0x20] (page_max_width ?p cells))" for k
    by (simp add: margin_line_def)
  then have "?text = concat (map (\<lambda>l. utf8_text l @ [0x0A]) (margin_line ?top [0x20] (page_max_width ?p cells) @ ls
      @ margin_line ?bottom [0x20] (page_max_width ?p cells)))"
    by (simp add: us(1) ls(1) newline_str_def newline_def comp_def)
  with u8_block.to_string_page [OF assms(1-3) ok plain n assms(8,9) _ assms(10), of address "\<lambda>bs. View_u8 (bs @ [0])"] ls(2)
  show ?thesis by (auto simp: ft_to_u8string_def)
qed

theorem fort_u8_aligned_witness:
  "\<exists>ls w t'. ft_to_u8string None 0 U8_TABLE = Some (Some (View_u8 (concat (map (\<lambda>l. utf8_text l @ [0x0A]) ls) @ [0])), t')
     \<and> list_all (\<lambda>l. text_ok l \<and> text_columns l = w) ls"
proof -
  have "u8_spans [0xEA, 0xB0, 0x80] 2" "u8_spans [0x31] 1"
  proof -
    have "utf8_text [0xAC00] = [0xEA, 0xB0, 0x80]" "text_columns [0xAC00] = 2" "utf8_text [0x31] = [0x31]"
      "text_columns [0x31] = 1" by code_simp+
    moreover have "text_ok [0xAC00]" "text_ok [0x31]" by (simp_all add: code_ok_def)
    ultimately show "u8_spans [0xEA, 0xB0, 0x80] 2" "u8_spans [0x31] 1" unfolding u8_spans_def by metis+
  qed
  then have sp: "lines_span u8_spans U8_CELLS" by (simp add: lines_span_def u8_cells_eq)
  have st: "bstyle BOX_PROPS \<in> set built_in_styles" "0 < n_cols U8_CELLS" "list_all (\<lambda>s. s \<noteq> None) []"
    using box_style by (simp_all add: u8_sizes)
  note t = fort_u8_aligned [of U8_TABLE U8_ROW U8_CELLS, unfolded u8_table(2,3), OF u8_table(1) u8_cells_show box_ok(1)
    st(1) box_ok(4) sp st(2,3) box_text box_block, of 0]
  have "margin_line (unat (top_margin (tprops BOX_PROPS))) x w = []" "margin_line (unat (bottom_margin (tprops BOX_PROPS))) x w = []"
    for x :: "byte list" and w
    by (simp_all add: margin_line_def box_style g_entire_table_properties_def)
  then have "margin_line (unat (top_margin (tprops BOX_PROPS))) [0x20] (page_max_width BOX_PROPS U8_CELLS) = ([] :: int list list)"
     "margin_line (unat (bottom_margin (tprops BOX_PROPS))) [0x20] (page_max_width BOX_PROPS U8_CELLS) = ([] :: int list list)"
    by (simp_all add: margin_line_def)
  with t show ?thesis by simp
qed

text \<open>C7: The text of a table of plain cells without style tags (no colours, no text styles), with a border
  style whose elements fit together in their numbers of characters: between the blank lines of the top and bottom
  margin, all lines have the same number of characters, which is the sum of the widths of the columns,
  of the boundaries and of the left and right margin.\<close>

theorem fort_table_aligned:
  assumes "shows_texts t txts" and "geoms_ok (properties t) txts" and "no_tags (properties t) txts"
    and "style_aligned length (bstyle (properties t)) a b d" and "0 < n_cols txts"
    and "lay_text (properties t) (separators t) txts \<noteq> []"
    and "block_ok t (lay_max_height (properties t) txts * lay_max_width (properties t) txts + 1)"
  shows "\<exists>ls t'. ft_to_string t = Some (Some (concat (map (\<lambda>l. l @ [newline])
       (margin_line (unat (top_margin (tprops (properties t)))) '' '' (lay_max_width (properties t) txts) @ ls
        @ margin_line (unat (bottom_margin (tprops (properties t)))) '' '' (lay_max_width (properties t) txts)))), t')
     \<and> list_all (\<lambda>l. length l = unat (left_margin (tprops (properties t))) + a
         + sum_list (map (lay_width (properties t) txts) [0..<n_cols txts]) + (n_cols txts - 1) * b + d
         + unat (right_margin (tprops (properties t)))) ls"
proof -
  let ?p = "properties t" and ?cells = "lined txts"
  have ok: "style_ok (bstyle ?p)" using assms(1) by (simp add: shows_texts_def)
  have n: "0 < length txts" using assms(5) by (cases txts) (simp_all add: n_cols_def)
  have plain: "page_plain (\<lambda>_. True) ?p ?cells" by (simp add: page_plain_def plain_tags_def list_all_length)
  have hid: "tags_hidden length ?p ?cells"
    using assms(3) by (intro no_tags_hidden) (simp_all add: no_tags_def lined_simps)
  have "list_all (\<lambda>(units, columns). length units = columns) (char_lines s)" for s
    by (simp add: char_lines_def list_all_length)
  then have span: "lines_span (\<lambda>s n. length s = n) ?cells" by (simp add: lines_span_def lined_def list_all_length)
  have k: "0 < n_cols ?cells" using assms(5) by (simp add: lined_simps)
  have w: "page_columns ?p ?cells a b d = unat (left_margin (tprops ?p)) + a
         + sum_list (map (lay_width ?p txts) [0..<n_cols txts]) + (n_cols txts - 1) * b + d
         + unat (right_margin (tprops ?p))"
    by (simp add: page_columns_def lined_simps lay_width_def [abs_def])
  let ?m = "\<lambda>n. replicate n (pad id (page_max_width ?p ?cells - 1))"
  obtain ls where "lay_text ?p (separators t) txts = concat (map (\<lambda>l. l @ id newline_str)
        (?m (unat (top_margin (tprops ?p))) @ ls @ ?m (unat (bottom_margin (tprops ?p)))))"
      and ls2: "list_all (\<lambda>l. length l = page_columns ?p ?cells a b d) ls"
    using char_columns.text_aligned [OF ok plain hid span assms(4) k] unfolding lay_text_def by blast
  then have ls: "lay_text ?p (separators t) txts = concat (map (\<lambda>l. l @ id newline_str)
        (margin_line (unat (top_margin (tprops ?p))) '' '' (lay_max_width ?p txts) @ ls
         @ margin_line (unat (bottom_margin (tprops ?p))) '' '' (lay_max_width ?p txts)))"
    by (simp add: margin_line_def pad_def lay_max_width_def)
  obtain b where "ft_to_string t = Some (Some (lay_text ?p (separators t) txts), t\<lparr>conv_buffer := Some b\<rparr>)"
    using to_string_plain [OF assms(1,2) n assms(6,7)] by blast
  then show ?thesis using ls ls2 unfolding w by (auto simp: newline_str_def)
qed

theorem fort_table_aligned_witness:
  "\<exists>ls t'. ft_to_string (appended PLAIN_TABLE [''name'', ''1'']) = Some (Some (concat (map (\<lambda>l. l @ [newline]) ls)), t')
     \<and> list_all (\<lambda>l. length l = 10) ls"
proof -
  let ?t = "appended PLAIN_TABLE [''name'', ''1'']" and ?x = "[[''name'', ''1'']]" and ?p = "properties PLAIN_TABLE"
  have b: "building ?t ?x" using appended_building [OF plain_building] by simp
  then have t: "shows_texts ?t ?x" "conv_buffer ?t = None" by (simp_all add: building_def)
  have o: "one_line (properties ?t) (\<lambda>_. 1) ?x" using plain_one_line(1) [of ?x] by (simp add: newline_def)
  have m: "tprops (properties ?t) = g_entire_table_properties" using plain_margins(1) by simp
  have st: "style_aligned length (bstyle (properties ?t)) 0 1 0"
    using open_styles_aligned(2) by (simp add: PLAIN_TABLE_def)
  have k: "n_cols ?x = 2" by (simp add: n_cols_def)
  have "lay_max_height ?p ?x * lay_max_width ?p ?x + 1 \<le> (2 * length ?x + 2) * (2 + 2 * (4 + 3)) + 1"
    using one_line_area(1) [OF b o, of 2 4] m plain_border(1) by simp
  then have "lay_max_height ?p ?x * lay_max_width ?p ?x + 1 \<le> 65" by simp
  then have "int (lay_max_height ?p ?x * lay_max_width ?p ?x + 1) \<le> int 65" by (simp only: of_nat_le_iff)
  also have "int 65 \<le> INT_MAX" by (simp add: INT_MAX_def)
  finally have bl: "block_ok ?t (lay_max_height (properties ?t) ?x * lay_max_width (properties ?t) ?x + 1)"
    unfolding block_ok_def t(2) by simp
  have tx: "lay_text (properties ?t) (separators ?t) ?x \<noteq> []"
    using one_line_area(2) [OF b o, of 2 4] m plain_border(1) by simp
  have nt: "no_tags (properties ?t) ?x"
    by (simp add: no_tags_def plain_geom_at default_geom_def Let_def)
  have "geom_width (default_geom 1) ''name'' = 1 + 1 + length ''name''"
    by (rule default_geom_size(1)) (simp add: newline_def)
  moreover have "geom_width (default_geom 1) ''1'' = 1 + 1 + length ''1''"
    by (rule default_geom_size(1)) (simp add: newline_def)
  ultimately have g: "geom_width (default_geom 1) ''name'' = 6" "geom_width (default_geom 1) ''1'' = 3" by simp_all
  have w: "lay_width ?p ?x 0 = 6" "lay_width ?p ?x 1 = 3"
    by (simp_all add: lay_width_eq maxf_def plain_geom_at g [unfolded One_nat_def])
  have s: "sum_list (map (lay_width ?p ?x) [0..<n_cols ?x]) = 9"
    unfolding k using w by (simp add: numeral_2_eq_2)
  have z: "unat (left_margin g_entire_table_properties) = 0" "unat (right_margin g_entire_table_properties) = 0"
    "top_margin g_entire_table_properties = 0" "bottom_margin g_entire_table_properties = 0"
    by (simp_all add: g_entire_table_properties_def)
  show ?thesis
    using fort_table_aligned [OF t(1) one_line_geoms [OF o] nt st _ tx bl, unfolded m z] k s by (simp add: margin_line_def)
qed

end
