(* ===== verification/Fort_Global.thy ===== *)
theory Fort_Global
  imports Fort_Typed
begin

text \<open>
  The state libfort keeps for the whole process, inside \<open>src/src/libfort/fort.c\<close>: the memory
  functions, the defaults of properties, the separator of formats and the width function of the
  user; and the memory functions it builds from those of the user.

  The other theories read the defaults at their initial values (\<open>initial_globals\<close>): no program
  of this repository calls a function of this theory.
\<close>

section \<open>Memory\<close>

text \<open>Blocks by address; a byte is \<open>None\<close> until it is written.  Addresses are not reused.\<close>

record memory =
  blocks :: "nat \<rightharpoonup> byte option list"
  next_block :: nat

text \<open>\<open>malloc\<close> and \<open>free\<close> of the user; a call of \<open>free\<close> with no block is a fault.\<close>

type_synonym malloc_fn = "nat \<Rightarrow> memory \<Rightarrow> nat option \<times> memory"
type_synonym free_fn = "nat \<Rightarrow> memory \<Rightarrow> memory option"

definition store_block :: "nat \<Rightarrow> byte option list \<Rightarrow> memory \<Rightarrow> memory option" where
  "store_block p bs m = do {
     b \<leftarrow> blocks m p;
     if length bs \<le> length b then Some (m\<lparr>blocks := (blocks m)(p \<mapsto> bs @ drop (length bs) b)\<rparr>) else None
   }"

text \<open>The product is computed in \<open>size_t\<close>.\<close>

definition custom_fort_calloc :: "malloc_fn \<Rightarrow> nat \<Rightarrow> nat \<Rightarrow> memory \<Rightarrow> (nat option \<times> memory) option" where
  "custom_fort_calloc f_malloc nmemb n m =
     (let total_size = nmemb * n mod 2 ^ 64;
          (result, m1) = f_malloc total_size m
      in case result of
           None \<Rightarrow> Some (None, m1)
         | Some p \<Rightarrow> do { m2 \<leftarrow> store_block p (replicate total_size (Some 0)) m1; Some (Some p, m2) })"

text \<open>\<open>memcpy\<close> reads as many bytes from the old block as the new one has.\<close>

definition custom_fort_realloc ::
  "malloc_fn \<Rightarrow> free_fn \<Rightarrow> nat option \<Rightarrow> nat \<Rightarrow> memory \<Rightarrow> (nat option \<times> memory) option" where
  "custom_fort_realloc f_malloc f_free ptr n m =
     (case ptr of
        None \<Rightarrow> Some (f_malloc n m)
      | Some p \<Rightarrow>
          if n = 0 then do { m1 \<leftarrow> f_free p m; Some (None, m1) }
          else
            (let (new_chunk, m1) = f_malloc n m in
             case new_chunk of
               None \<Rightarrow> Some (None, m1)
             | Some q \<Rightarrow> do {
                 old \<leftarrow> blocks m1 p;
                 if length old < n then None
                 else do {
                   m2 \<leftarrow> store_block q (take n old) m1;
                   m3 \<leftarrow> f_free p m2;
                   Some (Some q, m3)
                 }
               }))"

text \<open>The functions the library calls: those of the C library or those made of the user's.\<close>

datatype fort_functions = Std_functions | Custom_functions malloc_fn free_fn

text \<open>The assertion fails when only one of the two is given.\<close>

definition set_memory_funcs :: "malloc_fn option \<Rightarrow> free_fn option \<Rightarrow> fort_functions option" where
  "set_memory_funcs f_malloc f_free =
     (case (f_malloc, f_free) of
        (None, None) \<Rightarrow> Some Std_functions
      | (Some a, Some f) \<Rightarrow> Some (Custom_functions a f)
      | _ \<Rightarrow> None)"

text \<open>A block as \<open>malloc\<close> gives it, and a string of bytes with its terminator copied into one.\<close>

definition fort_strdup :: "malloc_fn \<Rightarrow> byte list option \<Rightarrow> memory \<Rightarrow> (nat option \<times> memory) option" where
  "fort_strdup f_malloc str m =
     (case str of
        None \<Rightarrow> Some (None, m)
      | Some s \<Rightarrow> do {
          n \<leftarrow> utf8size s;
          let sz = n - 1;
          let (str_copy, m1) = f_malloc (sz + 1) m;
          (case str_copy of
             None \<Rightarrow> Some (None, m1)
           | Some p \<Rightarrow> do { m2 \<leftarrow> store_block p (map Some (take (sz + 1) s)) m1; Some (Some p, m2) })
        })"

section \<open>Defaults\<close>

record fort_globals =
  glob_separator :: char
  glob_cell_properties :: f_cell_props
  glob_table_properties :: f_table_properties
  glob_entire_properties :: entire_table_properties
  glob_u8strwid :: u8strwid
  glob_functions :: fort_functions

definition initial_globals :: fort_globals where
  "initial_globals = \<lparr>glob_separator = g_col_separator, glob_cell_properties = g_default_cell_properties,
     glob_table_properties = g_table_properties, glob_entire_properties = g_entire_table_properties,
     glob_u8strwid = None, glob_functions = Std_functions\<rparr>"

definition ft_set_default_printf_field_separator :: "fort_globals \<Rightarrow> char \<Rightarrow> fort_globals" where
  "ft_set_default_printf_field_separator g separator = g\<lparr>glob_separator := separator\<rparr>"

definition set_default_cell_property :: "fort_globals \<Rightarrow> 32 word \<Rightarrow> int \<Rightarrow> int \<times> fort_globals" where
  "set_default_cell_property g property v =
     (let (st, p) = set_cell_property_impl (glob_cell_properties g) property v in (st, g\<lparr>glob_cell_properties := p\<rparr>))"

definition set_default_entire_table_property :: "fort_globals \<Rightarrow> 32 word \<Rightarrow> int \<Rightarrow> int \<times> fort_globals" where
  "set_default_entire_table_property g property v =
     (let (st, p) = set_entire_table_property_internal (glob_entire_properties g) property v
      in (st, g\<lparr>glob_entire_properties := p\<rparr>))"

definition ft_set_default_cell_prop :: "fort_globals \<Rightarrow> 32 word \<Rightarrow> int \<Rightarrow> int \<times> fort_globals" where
  "ft_set_default_cell_prop g property v = set_default_cell_property g property v"

definition ft_set_default_tbl_prop :: "fort_globals \<Rightarrow> 32 word \<Rightarrow> int \<Rightarrow> int \<times> fort_globals" where
  "ft_set_default_tbl_prop g property v = set_default_entire_table_property g property v"

definition ft_set_default_border_style :: "fort_globals \<Rightarrow> ft_border_style \<Rightarrow> (int \<times> fort_globals) option" where
  "ft_set_default_border_style g style = do {
     p \<leftarrow> set_border_props_for_props (glob_table_properties g) style;
     Some (FT_SUCCESS, g\<lparr>glob_table_properties := p\<rparr>)
   }"

definition ft_set_u8strwid_func :: "fort_globals \<Rightarrow> u8strwid \<Rightarrow> fort_globals" where
  "ft_set_u8strwid_func g u8strwid = g\<lparr>glob_u8strwid := u8strwid\<rparr>"

definition ft_set_memory_funcs :: "fort_globals \<Rightarrow> malloc_fn option \<Rightarrow> free_fn option \<Rightarrow> fort_globals option" where
  "ft_set_memory_funcs g f_malloc f_free = do {
     fs \<leftarrow> set_memory_funcs f_malloc f_free;
     Some (g\<lparr>glob_functions := fs\<rparr>)
   }"

section \<open>What the user's functions are used for\<close>

text \<open>The contract of the user's functions: a new block of the size asked for, and its release.\<close>

definition user_memory :: "malloc_fn \<Rightarrow> free_fn \<Rightarrow> bool" where
  "user_memory f_malloc f_free \<longleftrightarrow>
     (\<forall>n m p m'. f_malloc n m = (Some p, m') \<longrightarrow> blocks m p = None \<and> blocks m' = (blocks m)(p \<mapsto> replicate n None))
     \<and> (\<forall>p m b. blocks m p = Some b \<longrightarrow> (\<exists>m'. f_free p m = Some m' \<and> blocks m' = (blocks m)(p := None)))"

lemma malloc_fresh: "user_memory f_malloc f_free \<Longrightarrow> f_malloc n m = (Some p, m') \<Longrightarrow>
    blocks m p = None \<and> blocks m' = (blocks m)(p \<mapsto> replicate n None)"
  and free_block: "user_memory f_malloc f_free \<Longrightarrow> blocks m p = Some b \<Longrightarrow>
    \<exists>m'. f_free p m = Some m' \<and> blocks m' = (blocks m)(p := None)"
  by (auto simp: user_memory_def)

text \<open>The block of \<open>calloc\<close> has the wrapped size.\<close>

lemma calloc_size:
  assumes "user_memory f_malloc f_free" and "custom_fort_calloc f_malloc nmemb n m = Some (Some p, m')"
  shows "blocks m' p = Some (replicate (nmemb * n mod 2 ^ 64) (Some 0))"
proof -
  let ?n = "nmemb * n mod 2 ^ 64"
  obtain q m1 where q: "f_malloc ?n m = (q, m1)" by (cases "f_malloc ?n m")
  with assms(2) have "q = Some p" by (auto simp: custom_fort_calloc_def Let_def split: option.splits)
  with malloc_fresh [OF assms(1), of ?n m p m1] q have "blocks m1 p = Some (replicate ?n None)" by simp
  with assms(2) q \<open>q = Some p\<close> show ?thesis
    by (auto simp: custom_fort_calloc_def Let_def store_block_def)
qed

text \<open>A block can be made smaller, but making it larger reads behind the old one.\<close>

lemma realloc_cases:
  assumes "user_memory f_malloc f_free" and "blocks m p = Some old" and "0 < n" and "f_malloc n m = (Some q, m1)"
  shows "if length old < n then custom_fort_realloc f_malloc f_free (Some p) n m = None
    else \<exists>m'. custom_fort_realloc f_malloc f_free (Some p) n m = Some (Some q, m')
      \<and> blocks m' q = Some (take n old) \<and> blocks m' p = None"
proof -
  have q: "blocks m q = None" "blocks m1 = (blocks m)(q \<mapsto> replicate n None)" using malloc_fresh [OF assms(1,4)] by auto
  then have old: "blocks m1 p = Some old" "p \<noteq> q" using assms(2) by auto
  show ?thesis
  proof (cases "length old < n")
    case True
    with old assms(3,4) show ?thesis by (simp add: custom_fort_realloc_def)
  next
    case False
    let ?m2 = "m1\<lparr>blocks := (blocks m1)(q \<mapsto> take n old)\<rparr>"
    have st: "store_block q (take n old) m1 = Some ?m2" using q False by (simp add: store_block_def)
    obtain m' where "f_free p ?m2 = Some m'" "blocks m' = (blocks ?m2)(p := None)"
      using free_block [OF assms(1), of ?m2 p old] old by auto
    with st False old assms(3,4) show ?thesis by (simp add: custom_fort_realloc_def)
  qed
qed

text \<open>The contract has a model.\<close>

definition bump_malloc :: malloc_fn where
  "bump_malloc n m =
     (if blocks m (next_block m) \<noteq> None then (None, m)
      else (Some (next_block m), m\<lparr>blocks := (blocks m)(next_block m \<mapsto> replicate n None), next_block := next_block m + 1\<rparr>))"

definition drop_free :: free_fn where
  "drop_free p m = (case blocks m p of None \<Rightarrow> None | Some b \<Rightarrow> Some (m\<lparr>blocks := (blocks m)(p := None)\<rparr>))"

lemma user_memory_model: "user_memory bump_malloc drop_free"
  by (auto simp: user_memory_def bump_malloc_def drop_free_def split: if_splits)

end
