(* ===== verification/Fort_Destroy.thy ===== *)
theory Fort_Destroy
  imports Fort_Build "HOL-Library.Multiset"
begin

text \<open>
  The blocks of a table (\<open>src/src/libfort/fort.c\<close>): which ones every call of the interface allocates,
  hands from one owner to another and releases, and that each is released once.

  A block has an address that is never used twice.  The heap counts the addresses given out and
  records the addresses given to \<open>free\<close> in order, so a block released twice is recorded twice.  A
  structure carries its own address and those of the blocks behind its pointers; rows exchange cells
  and vectors with the operations on slots that the tables of characters use.

  What a cell shows is left out.  The items of a vector and the conversion buffer keep their address
  when they grow, and the blocks that a function allocates and releases itself for its own use (the copies in
  \<open>vector_swap\<close> and of a text, the arrays of the geometry) do not occur.  Allocation never fails.
  The result \<open>None\<close> is a fault: a slot that was never written, or a row that is not there, is used as a pointer,
  a format lacks an argument, or the strategy is none of the two.
\<close>

section \<open>Blocks\<close>

record own_heap =
  next_block :: nat
  released :: "nat list"

definition empty_blocks :: own_heap where
  "empty_blocks = \<lparr>next_block = 0, released = []\<rparr>"

definition malloc :: "own_heap \<Rightarrow> nat \<times> own_heap" where
  "malloc h = (next_block h, h\<lparr>next_block := next_block h + 1\<rparr>)"

definition free_block :: "nat \<Rightarrow> own_heap \<Rightarrow> own_heap" where
  "free_block a h = h\<lparr>released := released h @ [a]\<rparr>"

record own_buffer =
  buffer_block :: nat
  text_block :: nat

record own_cell =
  cell_block :: nat
  cell_buffer :: own_buffer

record own_vector =
  vector_block :: nat
  data_block :: nat

record own_row =
  row_block :: nat
  row_vector :: own_vector
  row_cells :: "own_cell slots"

record own_table =
  table_block :: nat
  rows_vector :: own_vector
  own_rows :: "own_row slots"
  seps_vector :: own_vector
  own_seps :: "nat slots"
  props_block :: nat
  container_vector :: own_vector
  own_conv :: "own_buffer option"
  own_strategy :: "32 word"
  own_cur_row :: nat
  own_cur_col :: nat

section \<open>Creation\<close>

definition own_string_buffer :: "own_heap \<Rightarrow> own_buffer \<times> own_heap" where
  "own_string_buffer h =
     (let (b, h) = malloc h; (s, h) = malloc h in (\<lparr>buffer_block = b, text_block = s\<rparr>, h))"

definition own_create_cell :: "own_heap \<Rightarrow> own_cell \<times> own_heap" where
  "own_create_cell h =
     (let (c, h) = malloc h; (b, h) = own_string_buffer h in (\<lparr>cell_block = c, cell_buffer = b\<rparr>, h))"

text \<open>The text of a cell is put into a block of its own, and the block it had is released.\<close>

definition own_fill_cell :: "own_cell \<Rightarrow> own_heap \<Rightarrow> own_cell \<times> own_heap" where
  "own_fill_cell c h =
     (let (s, h) = malloc h;
          h = free_block (text_block (cell_buffer c)) h
      in (c\<lparr>cell_buffer := (cell_buffer c)\<lparr>text_block := s\<rparr>\<rparr>, h))"

definition own_create_vector :: "own_heap \<Rightarrow> own_vector \<times> own_heap" where
  "own_create_vector h =
     (let (v, h) = malloc h; (d, h) = malloc h in (\<lparr>vector_block = v, data_block = d\<rparr>, h))"

text \<open>\<open>create_row_impl\<close> with NULL and with the vector of a split row.\<close>

definition own_create_row :: "own_heap \<Rightarrow> own_row \<times> own_heap" where
  "own_create_row h =
     (let (r, h) = malloc h; (v, h) = own_create_vector h
      in (\<lparr>row_block = r, row_vector = v, row_cells = []\<rparr>, h))"

definition own_create_table :: "own_heap \<Rightarrow> own_table \<times> own_heap" where
  "own_create_table h =
     (let (t, h) = malloc h;
          (rv, h) = own_create_vector h;
          (sv, h) = own_create_vector h;
          (p, h) = malloc h;
          (cv, h) = own_create_vector h
      in (\<lparr>table_block = t, rows_vector = rv, own_rows = [], seps_vector = sv, own_seps = [],
            props_block = p, container_vector = cv, own_conv = None,
            own_strategy = FT_STRATEGY_REPLACE, own_cur_row = 0, own_cur_col = 0\<rparr>, h))"

section \<open>The destructors\<close>

definition destroy_string_buffer :: "own_buffer \<Rightarrow> own_heap \<Rightarrow> own_heap" where
  "destroy_string_buffer b h = free_block (buffer_block b) (free_block (text_block b) h)"

definition destroy_cell :: "own_cell \<Rightarrow> own_heap \<Rightarrow> own_heap" where
  "destroy_cell c h = free_block (cell_block c) (destroy_string_buffer (cell_buffer c) h)"

definition destroy_vector :: "own_vector \<Rightarrow> own_heap \<Rightarrow> own_heap" where
  "destroy_vector v h = free_block (vector_block v) (free_block (data_block v) h)"

fun destroy_each_cell :: "own_cell slots \<Rightarrow> own_heap \<Rightarrow> own_heap option" where
  "destroy_each_cell [] h = Some h"
| "destroy_each_cell (slot # cells) h = do {
     cell \<leftarrow> slot;
     destroy_each_cell cells (destroy_cell cell h)
   }"

definition destroy_row :: "own_row \<Rightarrow> own_heap \<Rightarrow> own_heap option" where
  "destroy_row row h = do {
     h \<leftarrow> destroy_each_cell (row_cells row) h;
     Some (free_block (row_block row) (destroy_vector (row_vector row) h))
   }"

definition destroy_separator :: "nat \<Rightarrow> own_heap \<Rightarrow> own_heap" where
  "destroy_separator sep h = free_block sep h"

definition destroy_table_properties :: "own_table \<Rightarrow> own_heap \<Rightarrow> own_heap" where
  "destroy_table_properties t h = free_block (props_block t) (destroy_vector (container_vector t) h)"

fun destroy_each_row :: "own_row slots \<Rightarrow> own_heap \<Rightarrow> own_heap option" where
  "destroy_each_row [] h = Some h"
| "destroy_each_row (slot # rs) h = do {
     row \<leftarrow> slot;
     h \<leftarrow> destroy_row row h;
     destroy_each_row rs h
   }"

fun destroy_each_separator :: "nat slots \<Rightarrow> own_heap \<Rightarrow> own_heap option" where
  "destroy_each_separator [] h = Some h"
| "destroy_each_separator (slot # ss) h = do {
     sep \<leftarrow> slot;
     destroy_each_separator ss (destroy_separator sep h)
   }"

text \<open>The argument is \<open>None\<close> for NULL.\<close>

definition ft_destroy_table :: "own_table option \<Rightarrow> own_heap \<Rightarrow> own_heap option" where
  "ft_destroy_table table h =
     (case table of
        None \<Rightarrow> Some h
      | Some t \<Rightarrow> do {
          h \<leftarrow> destroy_each_row (own_rows t) h;
          let h = destroy_vector (rows_vector t) h;
          h \<leftarrow> destroy_each_separator (own_seps t) h;
          let h = destroy_vector (seps_vector t) h;
          let h = destroy_table_properties t h;
          let h = (case own_conv t of None \<Rightarrow> h | Some b \<Rightarrow> destroy_string_buffer b h);
          Some (free_block (table_block t) h)
        })"

section \<open>Rows\<close>

function own_create_up_to :: "own_cell slots \<Rightarrow> nat \<Rightarrow> own_heap \<Rightarrow> own_cell slots \<times> own_heap" where
  "own_create_up_to cells n h =
     (if length cells < n then let (c, h) = own_create_cell h in own_create_up_to (seq_push cells c) n h
      else (cells, h))"
  by pat_completeness auto

termination
  by (relation "measure (\<lambda>(cells, n, _). n - length cells)") (auto simp: seq_push_def)

declare own_create_up_to.simps [simp del]

definition own_get_cell :: "own_cell slots \<Rightarrow> nat \<Rightarrow> own_heap \<Rightarrow> (own_cell slots \<times> own_heap) option" where
  "own_get_cell cells col h = do {
     let (cells, h) = own_create_up_to cells (col + 1) h;
     cell \<leftarrow> slot_at cells col;
     Some (cells, h)
   }"

definition own_create_cell_in_position :: "own_cell slots \<Rightarrow> nat \<Rightarrow> own_heap \<Rightarrow> own_cell slots \<times> own_heap" where
  "own_create_cell_in_position cells col h =
     (let (c, h) = own_create_cell h in (seq_insert cells c col, h))"

primrec own_text_cells :: "nat \<Rightarrow> own_cell slots \<Rightarrow> own_heap \<Rightarrow> own_cell slots \<times> own_heap" where
  "own_text_cells 0 cells h = (cells, h)"
| "own_text_cells (Suc n) cells h =
     (let (c, h) = own_create_cell h;
          (c, h) = own_fill_cell c h
      in own_text_cells n (seq_push cells c) h)"

text \<open>
  The row of a formatted text: its cells are counted by the function for tables of characters.  The
  buffer for the text is released whether there is a row or not.
\<close>

definition own_row_from_fmt ::
  "string \<Rightarrow> fmt_arg list \<Rightarrow> own_heap \<Rightarrow> (own_row option \<times> own_heap) option" where
  "own_row_from_fmt fmt va h = do {
     let (buffer, h) = own_string_buffer h;
     row \<leftarrow> create_row_from_fmt_string fmt va;
     (case row of
        None \<Rightarrow> Some (None, destroy_string_buffer buffer h)
      | Some cells \<Rightarrow>
          let (r, h) = own_create_row h;
              (cs, h) = own_text_cells (length cells) (row_cells r) h
          in Some (Some (r\<lparr>row_cells := cs\<rparr>), destroy_string_buffer buffer h))
   }"

text \<open>The first case exchanges the contents of the two structures, the vectors.\<close>

definition own_swap_row :: "own_row \<Rightarrow> own_row \<Rightarrow> nat \<Rightarrow> own_row \<times> own_row" where
  "own_swap_row cur ins pos =
     (if length (row_cells cur) = 0 \<and> pos = 0
      then (cur\<lparr>row_vector := row_vector ins, row_cells := row_cells ins\<rparr>,
            ins\<lparr>row_vector := row_vector cur, row_cells := row_cells cur\<rparr>)
      else let (a, b) = seq_swap (row_cells cur) (row_cells ins) pos
           in (cur\<lparr>row_cells := a\<rparr>, ins\<lparr>row_cells := b\<rparr>))"

text \<open>The inserted row is cleared, so that it will be safe to destroy it.\<close>

definition own_insert_row :: "own_row \<Rightarrow> own_row \<Rightarrow> nat \<Rightarrow> own_heap \<Rightarrow> (own_row \<times> own_row \<times> own_heap) option" where
  "own_insert_row cur ins pos h = do {
     let (filled, h) = own_create_up_to (row_cells cur) pos h;
     cells \<leftarrow> insert_cells filled (row_cells ins) pos;
     Some (cur\<lparr>row_cells := cells\<rparr>, ins\<lparr>row_cells := []\<rparr>, h)
   }"

definition own_split_row :: "own_row \<Rightarrow> nat \<Rightarrow> own_heap \<Rightarrow> own_row \<times> own_row \<times> own_heap" where
  "own_split_row row pos h =
     (let (tail, rest) = seq_split (row_cells row) pos;
          (v, h) = own_create_vector h;
          (r, h) = malloc h
      in (\<lparr>row_block = r, row_vector = v, row_cells = tail\<rparr>, row\<lparr>row_cells := rest\<rparr>, h))"

text \<open>A size is a \<open>size_t\<close>: there is no vector of more items.\<close>

definition own_erase_range :: "own_row \<Rightarrow> nat \<Rightarrow> nat \<Rightarrow> own_heap \<Rightarrow> (own_row \<times> own_heap) option" where
  "own_erase_range row left right h =
     (if length (row_cells row) \<ge> 2 ^ 64 then None
      else do {
        h \<leftarrow> destroy_each_cell (drop left (take (right + 1) (row_cells row))) h;
        Some (row\<lparr>row_cells := snd (ft_row_erase_range (row_cells row) left right)\<rparr>, h)
      })"

section \<open>Calls\<close>

function own_rows_up_to :: "own_row slots \<Rightarrow> nat \<Rightarrow> own_heap \<Rightarrow> own_row slots \<times> own_heap" where
  "own_rows_up_to rs n h =
     (if length rs < n then let (r, h) = own_create_row h in own_rows_up_to (seq_push rs r) n h
      else (rs, h))"
  by pat_completeness auto

termination
  by (relation "measure (\<lambda>(rs, n, _). n - length rs)") (auto simp: seq_push_def)

declare own_rows_up_to.simps [simp del]

definition own_get_row :: "own_table \<Rightarrow> nat \<Rightarrow> own_heap \<Rightarrow> (own_row \<times> own_table \<times> own_heap) option" where
  "own_get_row t row h = do {
     let (rs, h) = own_rows_up_to (own_rows t) (row + 1) h;
     r \<leftarrow> slot_at rs row;
     Some (r, t\<lparr>own_rows := rs\<rparr>, h)
   }"

definition own_set_row :: "own_table \<Rightarrow> nat \<Rightarrow> own_row \<Rightarrow> own_table" where
  "own_set_row t i r = t\<lparr>own_rows := (own_rows t)[i := Some r]\<rparr>"

definition own_write :: "own_table \<Rightarrow> own_heap \<Rightarrow> (own_table \<times> own_heap) option" where
  "own_write t h = do {
     (r, t, h) \<leftarrow> own_get_row t (own_cur_row t) h;
     (cells, h) \<leftarrow>
       (if own_strategy t = FT_STRATEGY_INSERT then Some (own_create_cell_in_position (row_cells r) (own_cur_col t) h)
        else if own_strategy t = FT_STRATEGY_REPLACE then own_get_cell (row_cells r) (own_cur_col t) h
        else None);
     cell \<leftarrow> slot_at cells (own_cur_col t);
     let (cell, h) = own_fill_cell cell h;
     let t = own_set_row t (own_cur_row t) (r\<lparr>row_cells := cells[own_cur_col t := Some cell]\<rparr>);
     Some (t\<lparr>own_cur_col := own_cur_col t + 1\<rparr>, h)
   }"

definition own_printf :: "own_table \<Rightarrow> string \<Rightarrow> fmt_arg list \<Rightarrow> own_heap \<Rightarrow> (own_table \<times> own_heap) option" where
  "own_printf t fmt va h = do {
     (new_row, h) \<leftarrow> own_row_from_fmt fmt va h;
     (case new_row of
        None \<Rightarrow> Some (t, h)
      | Some new_row \<Rightarrow> do {
          let new_cols = length (row_cells new_row);
          (r, t, h) \<leftarrow> own_get_row t (own_cur_row t) h;
          (r, new_row, h) \<leftarrow>
            (if own_strategy t = FT_STRATEGY_INSERT then own_insert_row r new_row (own_cur_col t) h
             else if own_strategy t = FT_STRATEGY_REPLACE
               then let (r, new_row) = own_swap_row r new_row (own_cur_col t) in Some (r, new_row, h)
             else None);
          let t = own_set_row t (own_cur_row t) r;
          h \<leftarrow> destroy_row new_row h;
          Some (t\<lparr>own_cur_col := own_cur_col t + new_cols\<rparr>, h)
        })
   }"

definition own_split_cur_row :: "own_table \<Rightarrow> own_heap \<Rightarrow> (own_row option \<times> own_table \<times> own_heap) option" where
  "own_split_cur_row t h =
     (if own_cur_row t \<ge> length (own_rows t) then Some (None, t, h)
      else do {
        row \<leftarrow> slot_at (own_rows t) (own_cur_row t);
        if own_cur_col t \<ge> length (row_cells row) then Some (None, t, h)
        else let (tail, rest, h) = own_split_row row (own_cur_col t) h
          in Some (Some tail, own_set_row t (own_cur_row t) rest, h)
      })"

definition own_ln :: "own_table \<Rightarrow> own_heap \<Rightarrow> (own_table \<times> own_heap) option" where
  "own_ln t h = do {
     (t, h) \<leftarrow>
       (if own_strategy t = FT_STRATEGY_INSERT then do {
          (new_row, t, h) \<leftarrow> own_split_cur_row t h;
          Some (case new_row of
                  None \<Rightarrow> (t, h)
                | Some r \<Rightarrow> (t\<lparr>own_rows := seq_insert (own_rows t) r (own_cur_row t + 1)\<rparr>, h))
        }
        else if own_strategy t = FT_STRATEGY_REPLACE then Some (t, h)
        else None);
     Some (t\<lparr>own_cur_col := 0, own_cur_row := own_cur_row t + 1\<rparr>, h)
   }"

function own_seps_up_to :: "nat slots \<Rightarrow> nat \<Rightarrow> own_heap \<Rightarrow> nat slots \<times> own_heap" where
  "own_seps_up_to ss row h =
     (if length ss \<le> row then let (s, h) = malloc h in own_seps_up_to (seq_push ss s) row h else (ss, h))"
  by pat_completeness auto

termination
  by (relation "measure (\<lambda>(ss, row, _). Suc row - length ss)") (auto simp: seq_push_def)

declare own_seps_up_to.simps [simp del]

text \<open>The code also creates a separator where the slot holds NULL, which no call stores.\<close>

definition own_add_separator :: "own_table \<Rightarrow> own_heap \<Rightarrow> (own_table \<times> own_heap) option" where
  "own_add_separator t h = do {
     let (ss, h) = own_seps_up_to (own_seps t) (own_cur_row t) h;
     sep \<leftarrow> slot_at ss (own_cur_row t);
     Some (t\<lparr>own_seps := ss\<rparr>, h)
   }"

fun own_erase_columns :: "own_row slots \<Rightarrow> nat \<Rightarrow> nat \<Rightarrow> nat list \<Rightarrow> own_heap \<Rightarrow> (own_row slots \<times> own_heap) option" where
  "own_erase_columns rs left right [] h = Some (rs, h)"
| "own_erase_columns rs left right (i # js) h = do {
     row \<leftarrow> slot_at rs i;
     (row, h) \<leftarrow> own_erase_range row left right h;
     own_erase_columns (rs[i := Some row]) left right js h
   }"

primrec own_erase_empty ::
  "nat \<Rightarrow> nat \<Rightarrow> own_row slots \<Rightarrow> nat slots \<Rightarrow> own_heap \<Rightarrow> (own_row slots \<times> nat slots \<times> own_heap) option" where
  "own_erase_empty 0 i rs ss h = Some (rs, ss, h)"
| "own_erase_empty (Suc n) i rs ss h = do {
     row \<leftarrow> slot_at rs i;
     if length (row_cells row) \<noteq> 0 then own_erase_empty n (i + 1) rs ss h
     else do {
       h \<leftarrow> destroy_row row h;
       let rs = snd (seq_erase rs i);
       if i < length ss then do {
         sep \<leftarrow> slot_at ss i;
         own_erase_empty n i rs (snd (seq_erase ss i)) (destroy_separator sep h)
       } else own_erase_empty n i rs ss h
     }
   }"

definition own_erase :: "own_table \<Rightarrow> nat \<Rightarrow> nat \<Rightarrow> nat \<Rightarrow> nat \<Rightarrow> own_heap \<Rightarrow> (own_table \<times> own_heap) option" where
  "own_erase t top_row left_col bottom_row right_col h =
     (let rows_n = length (own_rows t);
          top_row = (if top_row = FT_CUR_ROW then own_cur_row t else top_row);
          bottom_row = (if bottom_row = FT_CUR_ROW then own_cur_row t else bottom_row);
          left_col = (if left_col = FT_CUR_COLUMN then own_cur_row t else left_col);
          right_col = (if right_col = FT_CUR_COLUMN then own_cur_row t else right_col)
      in if top_row > bottom_row \<or> left_col > right_col then Some (t, h)
      else do {
        (rs, h) \<leftarrow> own_erase_columns (own_rows t) left_col right_col [top_row..<min rows_n (bottom_row + 1)] h;
        let n_iterations = (min ((rows_n + 2 ^ 64 - 1) mod 2 ^ 64) bottom_row + 2 ^ 64 - top_row + 1) mod 2 ^ 64;
        (rs, ss, h) \<leftarrow> own_erase_empty n_iterations top_row rs (own_seps t) h;
        Some (t\<lparr>own_rows := rs, own_seps := ss\<rparr>, h)
      })"

primrec own_span_slaves :: "own_cell slots \<Rightarrow> nat \<Rightarrow> nat \<Rightarrow> own_heap \<Rightarrow> (own_cell slots \<times> own_heap) option" where
  "own_span_slaves cells col 0 h = Some (cells, h)"
| "own_span_slaves cells col (Suc n) h = do {
     (cells, h) \<leftarrow> own_get_cell cells col h;
     own_span_slaves cells (col + 1) n h
   }"

definition own_set_span :: "own_table \<Rightarrow> nat \<Rightarrow> nat \<Rightarrow> nat \<Rightarrow> own_heap \<Rightarrow> (own_table \<times> own_heap) option" where
  "own_set_span t row col hor_span h =
     (if hor_span < 2 then Some (t, h)
      else do {
        let row = (if row = FT_CUR_ROW then own_cur_row t else row);
        let col = (if row = FT_CUR_COLUMN then own_cur_col t else col);
        (r, t, h) \<leftarrow> own_get_row t row h;
        (cells, h) \<leftarrow> own_get_cell (row_cells r) col h;
        (cells, h) \<leftarrow> own_span_slaves cells (col + 1) (hor_span - 1) h;
        Some (own_set_row t row (r\<lparr>row_cells := cells\<rparr>), h)
      })"

text \<open>Every slot of the vectors of a table was written.\<close>

fun row_written :: "own_row option \<Rightarrow> bool" where
  "row_written None = False"
| "row_written (Some r) = (None \<notin> set (row_cells r))"

definition gap_free :: "own_table \<Rightarrow> bool" where
  "gap_free t \<longleftrightarrow> None \<notin> set (own_seps t) \<and> list_all row_written (own_rows t)"

text \<open>A conversion to text reads every row and cell, and makes the buffer of the table.\<close>

definition own_to_string :: "own_table \<Rightarrow> own_heap \<Rightarrow> (own_table \<times> own_heap) option" where
  "own_to_string t h =
     (if \<not> gap_free t then None
      else case own_conv t of
        None \<Rightarrow> let (b, h) = own_string_buffer h in Some (t\<lparr>own_conv := Some b\<rparr>, h)
      | Some b \<Rightarrow> Some (t, h))"

datatype own_call = Set_cur nat nat | Write | Printf string "fmt_arg list" | Ln | Separator
  | Erase nat nat nat nat | Strategy "32 word" | Span nat nat nat | Text

fun own_step :: "own_call \<Rightarrow> own_table \<Rightarrow> own_heap \<Rightarrow> (own_table \<times> own_heap) option" where
  "own_step (Set_cur row col) t h = Some (t\<lparr>own_cur_row := row, own_cur_col := col\<rparr>, h)"
| "own_step Write t h = own_write t h"
| "own_step (Printf fmt va) t h = own_printf t fmt va h"
| "own_step Ln t h = own_ln t h"
| "own_step Separator t h = own_add_separator t h"
| "own_step (Erase r1 c1 r2 c2) t h = own_erase t r1 c1 r2 c2 h"
| "own_step (Strategy s) t h = Some (t\<lparr>own_strategy := s\<rparr>, h)"
| "own_step (Span row col n) t h = own_set_span t row col n h"
| "own_step Text t h = own_to_string t h"

fun own_run :: "own_call list \<Rightarrow> own_table \<Rightarrow> own_heap \<Rightarrow> (own_table \<times> own_heap) option" where
  "own_run [] t h = Some (t, h)"
| "own_run (c # cs) t h = do { (t, h) \<leftarrow> own_step c t h; own_run cs t h }"

section \<open>The blocks of a table\<close>

definition buffer_blocks :: "own_buffer \<Rightarrow> nat list" where
  "buffer_blocks b = [text_block b, buffer_block b]"

definition cell_blocks :: "own_cell \<Rightarrow> nat list" where
  "cell_blocks c = buffer_blocks (cell_buffer c) @ [cell_block c]"

definition vector_blocks :: "own_vector \<Rightarrow> nat list" where
  "vector_blocks v = [data_block v, vector_block v]"

text \<open>An unwritten slot owns nothing.\<close>

definition slot_blocks :: "('a \<Rightarrow> nat list) \<Rightarrow> 'a slots \<Rightarrow> nat list" where
  "slot_blocks f s = concat (map (case_option [] f) s)"

definition row_blocks :: "own_row \<Rightarrow> nat list" where
  "row_blocks r = slot_blocks cell_blocks (row_cells r) @ vector_blocks (row_vector r) @ [row_block r]"

definition table_blocks :: "own_table \<Rightarrow> nat list" where
  "table_blocks t =
     slot_blocks row_blocks (own_rows t) @ vector_blocks (rows_vector t)
     @ slot_blocks (\<lambda>s. [s]) (own_seps t) @ vector_blocks (seps_vector t)
     @ vector_blocks (container_vector t) @ [props_block t]
     @ (case own_conv t of None \<Rightarrow> [] | Some b \<Rightarrow> buffer_blocks b) @ [table_block t]"

lemma slot_blocks_simps [simp]:
  "slot_blocks f [] = []" "slot_blocks f (None # s) = slot_blocks f s"
  "slot_blocks f (Some x # s) = f x @ slot_blocks f s"
  "slot_blocks f (s @ s') = slot_blocks f s @ slot_blocks f s'"
  "slot_blocks f (replicate n None) = []"
  by (simp_all add: slot_blocks_def)

lemma slot_blocks_parts: "mset (slot_blocks f (take n s)) + mset (slot_blocks f (drop n s)) = mset (slot_blocks f s)"
  by (metis append_take_drop_id mset_append slot_blocks_simps(4))

lemma slot_blocks_padded: "slot_blocks f (take n (pad_slots s n)) = slot_blocks f (take n s)"
  by (simp add: pad_slots_def)

lemma slot_blocks_push [simp]: "slot_blocks f (seq_push s x) = slot_blocks f s @ f x"
  by (simp add: seq_push_def)

lemma slot_blocks_insert: "mset (slot_blocks f (seq_insert s x n)) = mset (f x) + mset (slot_blocks f s)"
  using slot_blocks_parts [of f n s] by (simp add: seq_insert_def slot_blocks_padded ac_simps)

lemma slot_atE:
  assumes "slot_at s i = Some x"
  obtains "i < length s" "s ! i = Some x" "s = take i s @ Some x # drop (Suc i) s"
  using assms by (metis id_take_nth_drop not_None_eq slot_at_def)

lemma slot_blocks_at:
  assumes "slot_at s i = Some x"
  shows "mset (slot_blocks f s) = mset (f x) + mset (slot_blocks f (take i s @ drop (Suc i) s))"
  by (rule slot_atE [OF assms], drule arg_cong [where f = "\<lambda>s. mset (slot_blocks f s)"]) simp

lemma slot_blocks_update:
  assumes "slot_at s i = Some x"
  shows "mset (slot_blocks f (s[i := Some y])) + mset (f x) = mset (slot_blocks f s) + mset (f y)"
  using slot_blocks_at [OF assms, of f]
  by (rule_tac slot_atE [OF assms]) (simp add: upd_conv_take_nth_drop)

lemma slot_blocks_erase:
  assumes "slot_at s i = Some x"
  shows "mset (slot_blocks f s) = mset (f x) + mset (slot_blocks f (snd (seq_erase s i)))"
  using slot_blocks_at [OF assms, of f] by (rule_tac slot_atE [OF assms]) (simp add: seq_erase_def)

lemma slot_blocks_swap:
  assumes "seq_swap s s' n = (a, b)"
  shows "mset (slot_blocks f a) + mset (slot_blocks f b) = mset (slot_blocks f s) + mset (slot_blocks f s')"
proof (cases "s' = []")
  case True
  with assms show ?thesis by (simp add: seq_swap_def)
next
  case False
  have "mset (slot_blocks f s) = mset (slot_blocks f (take n s)) + (mset (slot_blocks f (take (length s') (drop n s)))
      + mset (slot_blocks f (drop (length s' + n) s)))"
    using slot_blocks_parts [of f n s] slot_blocks_parts [of f "length s'" "drop n s"] by simp
  with False assms show ?thesis
    by (auto simp: seq_swap_def slot_blocks_padded ac_simps)
qed

lemma slot_blocks_insert_cells:
  "insert_cells s s' n = Some r \<Longrightarrow> mset (slot_blocks f r) = mset (slot_blocks f s) + mset (slot_blocks f s')"
  by (induction s s' n rule: insert_cells.induct) (auto simp: slot_blocks_insert)

lemma erase_range_slots:
  assumes "length s < 2 ^ 64"
  shows "snd (ft_row_erase_range s left right) = take left s @ drop (max left (right + 1)) s"
proof -
  have behind: "((\<lambda>r. snd (seq_erase r left)) ^^ n) s = s" if "length s \<le> left" for n
    using that by (induction n) (simp_all add: seq_erase_def)
  have inside: "((\<lambda>r. snd (seq_erase r left)) ^^ n) s = take left s @ drop (left + n) s" if "left + n \<le> length s" for n
    using that by (induction n) (simp_all add: seq_erase_def min_def drop_Suc_Cons Suc_diff_le flip: Cons_nth_drop_Suc)
  show ?thesis
  proof (cases "s = [] \<or> right < left")
    case True
    then have "s = take left s @ drop (max left (right + 1)) s" by (auto simp: max_def le_Suc_eq)
    with True show ?thesis by (auto simp: ft_row_erase_range_def columns_in_row_def)
  next
    case ok: False
    show ?thesis
    proof (cases "length s \<le> left")
      case True
      then show ?thesis using ok by (simp add: ft_row_erase_range_def columns_in_row_def behind)
    next
      case False
      let ?m = "min (length s - 1) right"
      have m: "left \<le> ?m" "?m < length s" using ok False by auto
      then obtain k where k: "?m = left + k" using le_Suc_ex by blast
      then have "left + k + 2 ^ 64 - left + 1 = k + 1 + 2 ^ 64" by simp
      moreover have "k + 1 < 2 ^ 64" using k m assms by linarith
      ultimately have "(?m + 2 ^ 64 - left + 1) mod 2 ^ 64 = k + 1" by (metis k mod_add_self2 mod_less)
      then have n: "n_destroy (length s) left right = ?m - left + 1" using k by (simp add: n_destroy_def)
      have "snd (ft_row_erase_range s left right) = ((\<lambda>r. snd (seq_erase r left)) ^^ n_destroy (length s) left right) s"
        using ok by (simp add: ft_row_erase_range_def columns_in_row_def)
      also have "\<dots> = take left s @ drop (left + (?m - left + 1)) s" unfolding n using m by (intro inside) linarith
      also have "drop (left + (?m - left + 1)) s = drop (max left (right + 1)) s"
        using m ok by (cases "right < length s") auto
      finally show ?thesis .
    qed
  qed
qed

section \<open>The ledger\<close>

text \<open>The blocks in use and the blocks released are together those given out, each once.\<close>

definition balanced :: "own_heap \<Rightarrow> nat multiset \<Rightarrow> bool" where
  "balanced h M \<longleftrightarrow> M + mset (released h) = mset [0..<next_block h]"

lemmas ledger_ac = ac_simps add_mset_commute

lemma balanced_distinct:
  assumes "balanced h (mset bs)"
  shows "distinct (bs @ released h)" "set (bs @ released h) = {..<next_block h}"
proof -
  have m: "mset (bs @ released h) = mset [0..<next_block h]" using assms by (simp add: balanced_def)
  show "distinct (bs @ released h)" by (simp only: mset_eq_imp_distinct_iff [OF m] distinct_upt)
  show "set (bs @ released h) = {..<next_block h}"
    by (simp only: mset_eq_setD [OF m] atLeast_upt [symmetric])
qed

lemma balanced_free [simp]: "balanced (free_block a h) M \<longleftrightarrow> balanced h (add_mset a M)"
  by (simp add: balanced_def free_block_def)

lemma given_out_Suc [simp]: "mset_set {0..<Suc n} = add_mset n (mset_set {0..<n})"
  by (simp add: atLeastLessThanSuc)

lemma balanced_malloc: "malloc h = (a, h') \<Longrightarrow> balanced h M \<Longrightarrow> balanced h' (add_mset a M)"
  by (auto simp: balanced_def malloc_def)

lemma balanced_string_buffer:
  "own_string_buffer h = (b, h') \<Longrightarrow> balanced h M \<Longrightarrow> balanced h' (mset (buffer_blocks b) + M)"
  by (auto simp: own_string_buffer_def buffer_blocks_def malloc_def balanced_def Let_def)

lemma balanced_cell: "own_create_cell h = (c, h') \<Longrightarrow> balanced h M \<Longrightarrow> balanced h' (mset (cell_blocks c) + M)"
  by (auto simp: own_create_cell_def own_string_buffer_def cell_blocks_def buffer_blocks_def malloc_def
      balanced_def Let_def)

lemma balanced_fill_cell:
  "own_fill_cell c h = (c', h') \<Longrightarrow> balanced h (mset (cell_blocks c) + M) \<Longrightarrow> balanced h' (mset (cell_blocks c') + M)"
  by (auto simp: own_fill_cell_def cell_blocks_def buffer_blocks_def malloc_def free_block_def balanced_def Let_def
      add_mset_commute)

lemma balanced_vector: "own_create_vector h = (v, h') \<Longrightarrow> balanced h M \<Longrightarrow> balanced h' (mset (vector_blocks v) + M)"
  by (auto simp: own_create_vector_def vector_blocks_def malloc_def balanced_def Let_def)

lemma balanced_row: "own_create_row h = (r, h') \<Longrightarrow> balanced h M \<Longrightarrow> balanced h' (mset (row_blocks r) + M)"
  by (auto simp: own_create_row_def own_create_vector_def row_blocks_def vector_blocks_def malloc_def balanced_def Let_def)

lemma balanced_table:
  "own_create_table h = (t, h') \<Longrightarrow> balanced h M \<Longrightarrow> balanced h' (mset (table_blocks t) + M)"
  by (auto simp: own_create_table_def own_create_vector_def table_blocks_def vector_blocks_def malloc_def balanced_def
      Let_def)

lemma destroy_buffer_balanced [simp]:
  "balanced (destroy_string_buffer b h) M \<longleftrightarrow> balanced h (mset (buffer_blocks b) + M)"
  by (simp add: destroy_string_buffer_def buffer_blocks_def add_mset_commute)

lemma destroy_cell_balanced [simp]: "balanced (destroy_cell c h) M \<longleftrightarrow> balanced h (mset (cell_blocks c) + M)"
  by (simp add: destroy_cell_def cell_blocks_def)

lemma destroy_vector_balanced [simp]: "balanced (destroy_vector v h) M \<longleftrightarrow> balanced h (mset (vector_blocks v) + M)"
  by (simp add: destroy_vector_def vector_blocks_def add_mset_commute)

lemma destroy_separator_balanced [simp]: "balanced (destroy_separator s h) M \<longleftrightarrow> balanced h (add_mset s M)"
  by (simp add: destroy_separator_def)

lemma destroy_each_cell_balanced:
  "destroy_each_cell s h = Some h' \<Longrightarrow>
   balanced h' M \<longleftrightarrow> balanced h (mset (slot_blocks cell_blocks s) + M)"
  by (induction s h arbitrary: h' rule: destroy_each_cell.induct) (auto simp: ac_simps)

lemma destroy_row_balanced:
  "destroy_row r h = Some h' \<Longrightarrow> balanced h' M \<longleftrightarrow> balanced h (mset (row_blocks r) + M)"
  by (auto simp: destroy_row_def destroy_each_cell_balanced row_blocks_def ac_simps)

lemma destroy_each_row_balanced:
  "destroy_each_row s h = Some h' \<Longrightarrow> balanced h' M \<longleftrightarrow> balanced h (mset (slot_blocks row_blocks s) + M)"
  by (induction s h arbitrary: h' rule: destroy_each_row.induct) (auto simp: destroy_row_balanced ac_simps)

lemma destroy_each_separator_balanced:
  "destroy_each_separator s h = Some h' \<Longrightarrow>
   balanced h' M \<longleftrightarrow> balanced h (mset (slot_blocks (\<lambda>s. [s]) s) + M)"
  by (induction s h arbitrary: h' rule: destroy_each_separator.induct) (auto simp: ac_simps)

lemma destroy_table_balanced:
  "ft_destroy_table (Some t) h = Some h' \<Longrightarrow> balanced h' M \<longleftrightarrow> balanced h (mset (table_blocks t) + M)"
  by (cases "own_conv t")
    (auto simp: ft_destroy_table_def Let_def destroy_each_row_balanced destroy_each_separator_balanced
      destroy_table_properties_def table_blocks_def ac_simps)

text \<open>They fault at the unwritten slots only.\<close>

lemma destroy_each_cell_faults: "destroy_each_cell s h = None \<longleftrightarrow> None \<in> set s"
  by (induction s h rule: destroy_each_cell.induct) (auto simp del: not_None_eq split: Option.bind_splits)

lemma destroy_row_faults: "destroy_row r h = None \<longleftrightarrow> None \<in> set (row_cells r)"
  using destroy_each_cell_faults [of "row_cells r" h]
  by (auto simp: destroy_row_def simp del: not_None_eq split: Option.bind_splits)

lemma destroy_each_row_faults: "destroy_each_row s h = None \<longleftrightarrow> \<not> list_all row_written s"
proof (induction s h rule: destroy_each_row.induct)
  case (2 slot rs h)
  show ?case
  proof (cases slot)
    case (Some row)
    then show ?thesis
      using "2.IH" destroy_row_faults [of row h] by (cases "destroy_row row h") (auto simp del: not_None_eq)
  qed simp
qed simp

lemma destroy_each_separator_faults: "destroy_each_separator s h = None \<longleftrightarrow> None \<in> set s"
  by (induction s h rule: destroy_each_separator.induct) (auto simp del: not_None_eq split: Option.bind_splits)

lemma destroy_table_faults: "ft_destroy_table (Some t) h = None \<longleftrightarrow> \<not> gap_free t"
  using destroy_each_row_faults [of "own_rows t" h]
  by (auto simp: ft_destroy_table_def gap_free_def Let_def destroy_each_separator_faults bind_eq_None_conv
      simp del: not_None_eq)

section \<open>Rows keep the ledger\<close>

lemma create_up_to_balanced:
  "own_create_up_to s n h = (s', h') \<Longrightarrow> balanced h (mset (slot_blocks cell_blocks s) + M) \<Longrightarrow>
   balanced h' (mset (slot_blocks cell_blocks s') + M)"
proof (induction s n h rule: own_create_up_to.induct)
  case (1 s n h)
  show ?case
  proof (cases "length s < n")
    case True
    obtain c h1 where c: "own_create_cell h = (c, h1)" by fastforce
    have "own_create_up_to (seq_push s c) n h1 = (s', h')"
      using "1.prems"(1) True c by (simp add: own_create_up_to.simps [of s])
    moreover have "balanced h1 (mset (slot_blocks cell_blocks (seq_push s c)) + M)"
      using balanced_cell [OF c "1.prems"(2)] by (simp add: ac_simps)
    ultimately show ?thesis using "1.IH" [OF True c [symmetric] refl] by simp
  next
    case False
    then show ?thesis using "1.prems" by (simp add: own_create_up_to.simps [of s])
  qed
qed

lemma get_cell_balanced:
  "own_get_cell s n h = Some (s', h') \<Longrightarrow> balanced h (mset (slot_blocks cell_blocks s) + M) \<Longrightarrow>
   balanced h' (mset (slot_blocks cell_blocks s') + M)"
  by (auto simp: own_get_cell_def Let_def split: prod.splits intro: create_up_to_balanced)

lemma create_cell_in_position_balanced:
  "own_create_cell_in_position s n h = (s', h') \<Longrightarrow> balanced h (mset (slot_blocks cell_blocks s) + M) \<Longrightarrow>
   balanced h' (mset (slot_blocks cell_blocks s') + M)"
  by (auto simp: own_create_cell_in_position_def slot_blocks_insert add.assoc split: prod.splits
      intro: balanced_cell)

lemma span_slaves_balanced:
  "own_span_slaves s c n h = Some (s', h') \<Longrightarrow> balanced h (mset (slot_blocks cell_blocks s) + M) \<Longrightarrow>
   balanced h' (mset (slot_blocks cell_blocks s') + M)"
  by (induction n arbitrary: s c h) (auto dest: get_cell_balanced)

lemma text_cells_balanced:
  "own_text_cells n s h = (s', h') \<Longrightarrow> balanced h (mset (slot_blocks cell_blocks s) + M) \<Longrightarrow>
   balanced h' (mset (slot_blocks cell_blocks s') + M)"
proof (induction n arbitrary: s h)
  case (Suc n)
  obtain c0 h0 c h1 where c: "own_create_cell h = (c0, h0)" "own_fill_cell c0 h0 = (c, h1)" by (metis surj_pair)
  have "balanced h1 (mset (slot_blocks cell_blocks (seq_push s c)) + M)"
    using balanced_fill_cell [OF c(2) balanced_cell [OF c(1) Suc.prems(2)]] by (simp add: ac_simps)
  moreover have "own_text_cells n (seq_push s c) h1 = (s', h')" using Suc.prems(1) c by simp
  ultimately show ?case using Suc.IH by simp
qed simp

lemma row_from_fmt_balanced:
  assumes "own_row_from_fmt fmt va h = Some (r, h')" and b: "balanced h M"
  shows "balanced h' (mset (case r of None \<Rightarrow> [] | Some r \<Rightarrow> row_blocks r) + M)"
proof -
  obtain buf h1 where buf: "own_string_buffer h = (buf, h1)" by fastforce
  note b1 = balanced_string_buffer [OF buf b]
  obtain r0 h2 where r0: "own_create_row h1 = (r0, h2)" by fastforce
  show ?thesis
  proof (cases r)
    case None
    then show ?thesis
      using assms(1) buf r0 b1 by (auto simp: own_row_from_fmt_def Let_def split: option.splits prod.splits)
  next
    case (Some r')
    obtain y :: f_row where y: "r' = r0\<lparr>row_cells := fst (own_text_cells (length y) (row_cells r0) h2)\<rparr>"
      "h' = destroy_string_buffer buf (snd (own_text_cells (length y) (row_cells r0) h2))"
      using assms(1) buf r0 Some
      by (auto simp: own_row_from_fmt_def Let_def split_beta split: option.splits)
    obtain cs h3 where cs: "own_text_cells (length y) (row_cells r0) h2 = (cs, h3)" by fastforce
    with y have r': "r' = r0\<lparr>row_cells := cs\<rparr>" "h' = destroy_string_buffer buf h3" by simp_all
    let ?rest = "mset (vector_blocks (row_vector r0)) + add_mset (row_block r0) (mset (buffer_blocks buf) + M)"
    have "balanced h2 (mset (slot_blocks cell_blocks (row_cells r0)) + ?rest)"
      using balanced_row [OF r0 b1] by (simp add: row_blocks_def ledger_ac)
    from text_cells_balanced [OF cs this] show ?thesis
      using Some r' by (simp add: row_blocks_def ledger_ac)
  qed
qed

lemma swap_row_blocks:
  "own_swap_row r n pos = (r', n') \<Longrightarrow>
   mset (row_blocks r') + mset (row_blocks n') = mset (row_blocks r) + mset (row_blocks n)"
  using slot_blocks_swap [of "row_cells r" "row_cells n" pos _ _ cell_blocks]
  by (auto simp: own_swap_row_def row_blocks_def ac_simps split: if_splits prod.splits)

lemma insert_row_balanced:
  assumes "own_insert_row r n pos h = Some (r', n', h')" and b: "balanced h (mset (row_blocks r) + (mset (row_blocks n) + M))"
  shows "balanced h' (mset (row_blocks r') + (mset (row_blocks n') + M))"
proof -
  obtain s h1 s' where s: "own_create_up_to (row_cells r) pos h = (s, h1)" "insert_cells s (row_cells n) pos = Some s'"
    "r' = r\<lparr>row_cells := s'\<rparr>" "n' = n\<lparr>row_cells := []\<rparr>" "h' = h1"
    using assms(1) by (auto simp: own_insert_row_def Let_def split: prod.splits)
  let ?rest = "mset (vector_blocks (row_vector r)) + add_mset (row_block r) (mset (row_blocks n) + M)"
  have "balanced h (mset (slot_blocks cell_blocks (row_cells r)) + ?rest)"
    using b by (simp add: row_blocks_def ledger_ac)
  from create_up_to_balanced [OF s(1) this] show ?thesis
    using s slot_blocks_insert_cells [OF s(2), of cell_blocks] by (simp add: row_blocks_def ledger_ac)
qed

lemma split_row_balanced:
  assumes "own_split_row r pos h = (tail, rest, h')" and "balanced h (mset (row_blocks r) + M)"
  shows "balanced h' (mset (row_blocks tail) + (mset (row_blocks rest) + M))"
  using assms slot_blocks_parts [of cell_blocks pos "row_cells r", symmetric]
  by (auto simp: own_split_row_def seq_split_def own_create_vector_def malloc_def row_blocks_def vector_blocks_def
      balanced_def Let_def ledger_ac)

lemma erase_range_balanced:
  assumes "own_erase_range r left right h = Some (r', h')"
  shows "balanced h' (mset (row_blocks r') + M) \<longleftrightarrow> balanced h (mset (row_blocks r) + M)"
proof -
  let ?s = "row_cells r" and ?e = "drop left (take (right + 1) (row_cells r))"
  have len: "length ?s < 2 ^ 64" and d: "destroy_each_cell ?e h = Some h'"
    and r': "r' = r\<lparr>row_cells := snd (ft_row_erase_range ?s left right)\<rparr>"
    using assms by (auto simp: own_erase_range_def split: if_splits)
  have "?s = take left ?s @ ?e @ drop (max left (right + 1)) ?s"
  proof (cases "left \<le> right + 1")
    case True
    then have "take left ?s = take left (take (right + 1) ?s)" by (simp add: min_def)
    with True show ?thesis by (metis append.assoc append_take_drop_id max_def)
  next
    case False
    then show ?thesis by (simp add: max_def)
  qed
  from arg_cong [OF this, of "\<lambda>s. mset (slot_blocks cell_blocks s)"]
  have "mset (slot_blocks cell_blocks ?s) = mset (slot_blocks cell_blocks ?e)
      + mset (slot_blocks cell_blocks (row_cells r'))"
    by (simp add: r' erase_range_slots [OF len] ac_simps)
  then show ?thesis using destroy_each_cell_balanced [OF d] r' by (simp add: row_blocks_def ledger_ac)
qed

section \<open>Calls keep the ledger\<close>

lemma rows_up_to_balanced:
  "own_rows_up_to rs n h = (rs', h') \<Longrightarrow> balanced h (mset (slot_blocks row_blocks rs) + M) \<Longrightarrow>
   balanced h' (mset (slot_blocks row_blocks rs') + M)"
proof (induction rs n h rule: own_rows_up_to.induct)
  case (1 rs n h)
  show ?case
  proof (cases "length rs < n")
    case True
    obtain r h1 where r: "own_create_row h = (r, h1)" by fastforce
    have "own_rows_up_to (seq_push rs r) n h1 = (rs', h')"
      using "1.prems"(1) True r by (simp add: own_rows_up_to.simps [of rs])
    moreover have "balanced h1 (mset (slot_blocks row_blocks (seq_push rs r)) + M)"
      using balanced_row [OF r "1.prems"(2)] by (simp add: ac_simps)
    ultimately show ?thesis using "1.IH" [OF True r [symmetric] refl] by simp
  next
    case False
    then show ?thesis using "1.prems" by (simp add: own_rows_up_to.simps [of rs])
  qed
qed

lemma seps_up_to_balanced:
  "own_seps_up_to ss n h = (ss', h') \<Longrightarrow> balanced h (mset (slot_blocks (\<lambda>s. [s]) ss) + M) \<Longrightarrow>
   balanced h' (mset (slot_blocks (\<lambda>s. [s]) ss') + M)"
proof (induction ss n h rule: own_seps_up_to.induct)
  case (1 ss n h)
  show ?case
  proof (cases "length ss \<le> n")
    case True
    obtain s h1 where s: "malloc h = (s, h1)" by fastforce
    have "own_seps_up_to (seq_push ss s) n h1 = (ss', h')"
      using "1.prems"(1) True s by (simp add: own_seps_up_to.simps [of ss])
    moreover have "balanced h1 (mset (slot_blocks (\<lambda>s. [s]) (seq_push ss s)) + M)"
      using balanced_malloc [OF s "1.prems"(2)] by (simp add: ac_simps)
    ultimately show ?thesis using "1.IH" [OF True s [symmetric] refl] by simp
  next
    case False
    then show ?thesis using "1.prems" by (simp add: own_seps_up_to.simps [of ss])
  qed
qed

text \<open>The blocks of a table without those of its rows and separators.\<close>

definition frame_blocks :: "own_table \<Rightarrow> nat list" where
  "frame_blocks t = table_blocks (t\<lparr>own_rows := [], own_seps := []\<rparr>)"

lemma table_blocks_parts:
  "mset (table_blocks t) = mset (slot_blocks row_blocks (own_rows t)) + (mset (slot_blocks (\<lambda>s. [s]) (own_seps t))
     + mset (frame_blocks t))"
  by (simp add: table_blocks_def frame_blocks_def ledger_ac)

lemma frame_blocks_same [simp]:
  "frame_blocks (t\<lparr>own_rows := rs\<rparr>) = frame_blocks t" "frame_blocks (t\<lparr>own_seps := ss\<rparr>) = frame_blocks t"
  "frame_blocks (t\<lparr>own_cur_row := i\<rparr>) = frame_blocks t" "frame_blocks (t\<lparr>own_cur_col := i\<rparr>) = frame_blocks t"
  "frame_blocks (t\<lparr>own_strategy := w\<rparr>) = frame_blocks t"
  by (simp_all add: frame_blocks_def table_blocks_def)

lemma table_blocks_same [simp]:
  "table_blocks (t\<lparr>own_cur_row := i\<rparr>) = table_blocks t" "table_blocks (t\<lparr>own_cur_col := i\<rparr>) = table_blocks t"
  "table_blocks (t\<lparr>own_strategy := w\<rparr>) = table_blocks t"
  by (simp_all add: table_blocks_def)

lemma get_row_balanced:
  assumes "own_get_row t i h = Some (r, t', h')" and b: "balanced h (mset (table_blocks t) + M)"
  shows "balanced h' (mset (table_blocks t') + M)"
proof -
  obtain rs where rs: "own_rows_up_to (own_rows t) (i + 1) h = (rs, h')" "t' = t\<lparr>own_rows := rs\<rparr>"
    using assms(1) by (auto simp: own_get_row_def Let_def split: prod.splits)
  then show ?thesis
    using rows_up_to_balanced [OF rs(1), of "mset (slot_blocks (\<lambda>s. [s]) (own_seps t)) + (mset (frame_blocks t) + M)"] b
    by (simp add: table_blocks_parts ac_simps)
qed

text \<open>Taking a row out of a table and putting one back.\<close>

lemma get_row_open:
  assumes "own_get_row t i h = Some (r, t', h')"
  obtains R where "mset (table_blocks t') = mset (row_blocks r) + R"
    and "\<And>r'. mset (table_blocks (own_set_row t' i r')) = mset (row_blocks r') + R"
proof -
  obtain rs where rs: "slot_at rs i = Some r" "t' = t\<lparr>own_rows := rs\<rparr>"
    using assms by (auto simp: own_get_row_def Let_def split: prod.splits)
  let ?R = "mset (slot_blocks row_blocks (take i rs @ drop (Suc i) rs)) + (mset (slot_blocks (\<lambda>s. [s]) (own_seps t))
     + mset (frame_blocks t))"
  have "mset (slot_blocks row_blocks (rs[i := Some r'])) = mset (row_blocks r') + mset (slot_blocks row_blocks (take i rs @ drop (Suc i) rs))" for r'
    by (rule slot_atE [OF rs(1)]) (simp add: upd_conv_take_nth_drop ac_simps)
  then have "mset (table_blocks (own_set_row t' i r')) = mset (row_blocks r') + ?R" for r'
    unfolding rs(2) own_set_row_def table_blocks_parts by (simp add: ac_simps)
  moreover have "mset (table_blocks t') = mset (row_blocks r) + ?R"
    using slot_blocks_at [OF rs(1), of row_blocks] by (simp add: rs(2) table_blocks_parts ac_simps)
  ultimately show thesis using that by blast
qed

lemma write_balanced:
  assumes "own_write t h = Some (t', h')" and b: "balanced h (mset (table_blocks t))"
  shows "balanced h' (mset (table_blocks t'))"
proof -
  obtain r t1 h1 cells h2 cell where get: "own_get_row t (own_cur_row t) h = Some (r, t1, h1)"
    and cells: "own_create_cell_in_position (row_cells r) (own_cur_col t1) h1 = (cells, h2)
      \<or> own_get_cell (row_cells r) (own_cur_col t1) h1 = Some (cells, h2)"
    and cell: "slot_at cells (own_cur_col t1) = Some cell" and h': "h' = snd (own_fill_cell cell h2)"
    and t': "table_blocks t' = table_blocks (own_set_row t1 (own_cur_row t1)
      (r\<lparr>row_cells := cells[own_cur_col t1 := Some (fst (own_fill_cell cell h2))]\<rparr>))"
    using assms(1) by (auto simp: own_write_def Let_def split_beta split: if_splits) blast+
  have same: "own_cur_row t1 = own_cur_row t"
    using get by (auto simp: own_get_row_def Let_def split: prod.splits)
  obtain R where R: "mset (table_blocks t1) = mset (row_blocks r) + R"
    "\<And>r'. mset (table_blocks (own_set_row t1 (own_cur_row t) r')) = mset (row_blocks r') + R"
    using get_row_open [OF get] by blast
  let ?rest = "mset (vector_blocks (row_vector r)) + add_mset (row_block r) R"
  have "balanced h1 (mset (slot_blocks cell_blocks (row_cells r)) + ?rest)"
    using get_row_balanced [OF get, of "{#}"] b R(1) by (simp add: row_blocks_def ledger_ac)
  then have b2: "balanced h2 (mset (slot_blocks cell_blocks cells) + ?rest)"
    using cells create_cell_in_position_balanced get_cell_balanced by blast
  obtain c' where c': "own_fill_cell cell h2 = (c', h')" using h' by (metis prod.collapse)
  let ?others = "mset (slot_blocks cell_blocks (take (own_cur_col t1) cells @ drop (Suc (own_cur_col t1)) cells))"
  have "balanced h2 (mset (cell_blocks cell) + (?others + ?rest))"
    using b2 slot_blocks_at [OF cell, of cell_blocks] by (simp only: ac_simps)
  from balanced_fill_cell [OF c' this]
  have "balanced h' (mset (slot_blocks cell_blocks (cells[own_cur_col t1 := Some c'])) + ?rest)"
    by (rule_tac slot_atE [OF cell]) (simp add: upd_conv_take_nth_drop ledger_ac)
  then show ?thesis using R(2) t' c' same by (simp add: row_blocks_def ledger_ac)
qed

lemma printf_balanced:
  assumes "own_printf t fmt va h = Some (t', h')" and b: "balanced h (mset (table_blocks t))"
  shows "balanced h' (mset (table_blocks t'))"
proof -
  obtain nr h1 where nr: "own_row_from_fmt fmt va h = Some (nr, h1)"
    using assms(1) by (auto simp: own_printf_def)
  note b1 = row_from_fmt_balanced [OF nr b]
  show ?thesis
  proof (cases nr)
    case None
    then show ?thesis using assms(1) nr b1 by (simp add: own_printf_def)
  next
    case (Some n)
    obtain r t1 h2 r' n' h3 where get: "own_get_row t (own_cur_row t) h1 = Some (r, t1, h2)"
      and put: "own_insert_row r n (own_cur_col t1) h2 = Some (r', n', h3)
        \<or> own_swap_row r n (own_cur_col t1) = (r', n') \<and> h3 = h2"
      and d: "destroy_row n' h3 = Some h'"
      and t': "table_blocks t' = table_blocks (own_set_row t1 (own_cur_row t1) r')"
      using assms(1) nr Some by (auto simp: own_printf_def Let_def split: if_splits prod.splits) blast+
    have same: "own_cur_row t1 = own_cur_row t"
      using get by (auto simp: own_get_row_def Let_def split: prod.splits)
    obtain R where R: "mset (table_blocks t1) = mset (row_blocks r) + R"
      "\<And>r'. mset (table_blocks (own_set_row t1 (own_cur_row t) r')) = mset (row_blocks r') + R"
      using get_row_open [OF get] by blast
    have b2: "balanced h2 (mset (row_blocks r) + (mset (row_blocks n) + R))"
      using get_row_balanced [OF get, of "mset (row_blocks n)"] b1 Some R(1) by (simp add: ac_simps)
    have "balanced h3 (mset (row_blocks r') + (mset (row_blocks n') + R))"
      using put
    proof
      assume "own_insert_row r n (own_cur_col t1) h2 = Some (r', n', h3)"
      then show ?thesis by (rule insert_row_balanced [OF _ b2])
    next
      assume "own_swap_row r n (own_cur_col t1) = (r', n') \<and> h3 = h2"
      then show ?thesis using b2 swap_row_blocks [of r n "own_cur_col t1" r' n'] by (simp flip: add.assoc)
    qed
    then have "balanced h' (mset (row_blocks r') + R)" using destroy_row_balanced [OF d] by (simp add: ac_simps)
    then show ?thesis using t' same R(2) by simp
  qed
qed

lemma ln_balanced:
  assumes "own_ln t h = Some (t', h')" and b: "balanced h (mset (table_blocks t))"
  shows "balanced h' (mset (table_blocks t'))"
proof (cases "own_strategy t = FT_STRATEGY_INSERT")
  case False
  then show ?thesis using assms by (auto simp: own_ln_def split: if_splits)
next
  case True
  obtain nr t1 where cur: "own_split_cur_row t h = Some (nr, t1, h')"
    using assms(1) True by (auto simp: own_ln_def split: option.splits)
  show ?thesis
  proof (cases nr)
    case None
    then show ?thesis
      using assms True cur by (auto simp: own_ln_def own_split_cur_row_def split: if_splits prod.splits)
  next
    case (Some tail)
    obtain row rest where row: "slot_at (own_rows t) (own_cur_row t) = Some row"
      and split: "own_split_row row (own_cur_col t) h = (tail, rest, h')"
      and t1: "t1 = own_set_row t (own_cur_row t) rest"
      using cur Some by (auto simp: own_split_cur_row_def split: if_splits prod.splits)
    let ?R = "mset (slot_blocks row_blocks (take (own_cur_row t) (own_rows t) @ drop (Suc (own_cur_row t)) (own_rows t)))
      + (mset (slot_blocks (\<lambda>s. [s]) (own_seps t)) + mset (frame_blocks t))"
    have "mset (table_blocks t) = mset (row_blocks row) + ?R"
      using slot_blocks_at [OF row, of row_blocks] by (simp add: table_blocks_parts ac_simps)
    then have bal: "balanced h' (mset (row_blocks tail) + (mset (row_blocks rest) + ?R))"
      using split_row_balanced [OF split, of ?R] b by simp
    have "table_blocks t' = table_blocks (t1\<lparr>own_rows := seq_insert (own_rows t1) tail (own_cur_row t1 + 1)\<rparr>)"
      using assms(1) True cur Some by (auto simp: own_ln_def table_blocks_def)
    then have "mset (table_blocks t') = mset (row_blocks tail) + mset (table_blocks t1)"
      by (simp add: table_blocks_parts slot_blocks_insert ac_simps)
    moreover have "mset (slot_blocks row_blocks (own_rows t1)) = mset (row_blocks rest)
        + mset (slot_blocks row_blocks (take (own_cur_row t) (own_rows t) @ drop (Suc (own_cur_row t)) (own_rows t)))"
      unfolding t1 own_set_row_def
      by (rule slot_atE [OF row]) (simp add: upd_conv_take_nth_drop ac_simps)
    ultimately have "mset (table_blocks t') = mset (row_blocks tail) + (mset (row_blocks rest) + ?R)"
      by (simp add: table_blocks_parts t1 own_set_row_def ac_simps)
    with bal show ?thesis by simp
  qed
qed

lemma add_separator_balanced:
  assumes "own_add_separator t h = Some (t', h')" and b: "balanced h (mset (table_blocks t))"
  shows "balanced h' (mset (table_blocks t'))"
proof -
  obtain ss where ss: "own_seps_up_to (own_seps t) (own_cur_row t) h = (ss, h')" "t' = t\<lparr>own_seps := ss\<rparr>"
    using assms(1) by (auto simp: own_add_separator_def Let_def split: prod.splits)
  then show ?thesis
    using seps_up_to_balanced [OF ss(1), of "mset (slot_blocks row_blocks (own_rows t)) + mset (frame_blocks t)"] b
    by (simp add: table_blocks_parts ac_simps)
qed

lemma erase_columns_balanced:
  "own_erase_columns rs left right js h = Some (rs', h') \<Longrightarrow>
   balanced h (mset (slot_blocks row_blocks rs) + M) \<Longrightarrow> balanced h' (mset (slot_blocks row_blocks rs') + M)"
proof (induction rs left right js h rule: own_erase_columns.induct)
  case (2 rs left right i js h)
  obtain row row' h1 where row: "slot_at rs i = Some row" and e: "own_erase_range row left right h = Some (row', h1)"
    and rest: "own_erase_columns (rs[i := Some row']) left right js h1 = Some (rs', h')"
    using "2.prems"(1) by auto
  let ?R = "mset (slot_blocks row_blocks (take i rs @ drop (Suc i) rs)) + M"
  have "balanced h1 (mset (row_blocks row') + ?R)"
    using "2.prems"(2) slot_blocks_at [OF row, of row_blocks] erase_range_balanced [OF e, of ?R] by (simp add: ac_simps)
  moreover have "mset (slot_blocks row_blocks (rs[i := Some row'])) + M = mset (row_blocks row') + ?R"
    by (rule slot_atE [OF row]) (simp add: upd_conv_take_nth_drop ac_simps)
  ultimately have "balanced h1 (mset (slot_blocks row_blocks (rs[i := Some row'])) + M)" by (simp only: ac_simps)
  with "2.IH" [OF row e refl rest] show ?case .
qed simp

lemma erase_empty_balanced:
  "own_erase_empty n i rs ss h = Some (rs', ss', h') \<Longrightarrow>
   balanced h (mset (slot_blocks row_blocks rs) + (mset (slot_blocks (\<lambda>s. [s]) ss) + M)) \<Longrightarrow>
   balanced h' (mset (slot_blocks row_blocks rs') + (mset (slot_blocks (\<lambda>s. [s]) ss') + M))"
proof (induction n arbitrary: i rs ss h)
  case (Suc n)
  obtain row where row: "slot_at rs i = Some row" using Suc.prems(1) by auto
  show ?case
  proof (cases "length (row_cells row) = 0")
    case False
    then show ?thesis using Suc row by (simp add: Suc.IH)
  next
    case True
    obtain h1 where d: "destroy_row row h = Some h1" using Suc.prems(1) row True by auto
    let ?rs = "snd (seq_erase rs i)"
    have b1: "balanced h1 (mset (slot_blocks row_blocks ?rs) + (mset (slot_blocks (\<lambda>s. [s]) ss) + M))"
      using Suc.prems(2) slot_blocks_erase [OF row, of row_blocks] destroy_row_balanced [OF d] by (simp add: ac_simps)
    show ?thesis
    proof (cases "i < length ss")
      case False
      then show ?thesis using Suc.prems(1) row True d Suc.IH [OF _ b1] by simp
    next
      case in_ss: True
      obtain sep where sep: "slot_at ss i = Some sep" using Suc.prems(1) row True d in_ss by auto
      have "balanced (destroy_separator sep h1)
          (mset (slot_blocks row_blocks ?rs) + (mset (slot_blocks (\<lambda>s. [s]) (snd (seq_erase ss i))) + M))"
        using b1 slot_blocks_erase [OF sep, of "\<lambda>s. [s]"] by (simp add: ac_simps)
      then show ?thesis using Suc.prems(1) row True d in_ss sep Suc.IH by simp
    qed
  qed
qed simp

lemma erase_balanced:
  assumes "own_erase t r1 c1 r2 c2 h = Some (t', h')" and b: "balanced h (mset (table_blocks t))"
  shows "balanced h' (mset (table_blocks t'))"
proof -
  obtain bad left right js n i where e: "own_erase t r1 c1 r2 c2 h =
      (if bad then Some (t, h)
       else do {
         (rs, h) \<leftarrow> own_erase_columns (own_rows t) left right js h;
         (rs, ss, h) \<leftarrow> own_erase_empty n i rs (own_seps t) h;
         Some (t\<lparr>own_rows := rs, own_seps := ss\<rparr>, h)
       })"
    by (rule that, unfold own_erase_def Let_def, rule refl)
  show ?thesis
  proof (cases bad)
    case True
    with assms e show ?thesis by simp
  next
    case False
    then obtain rs h1 rs' ss'
      where c: "own_erase_columns (own_rows t) left right js h = Some (rs, h1)"
        and d: "own_erase_empty n i rs (own_seps t) h1 = Some (rs', ss', h')"
        and t': "t' = t\<lparr>own_rows := rs', own_seps := ss'\<rparr>"
      using assms(1) unfolding e by (simp add: split_paired_Ex) blast
    have "balanced h1 (mset (slot_blocks row_blocks rs) + (mset (slot_blocks (\<lambda>s. [s]) (own_seps t)) + mset (frame_blocks t)))"
      by (rule erase_columns_balanced [OF c]) (use b in \<open>simp add: table_blocks_parts\<close>)
    from erase_empty_balanced [OF d this] show ?thesis using t' by (simp add: table_blocks_parts)
  qed
qed

lemma span_balanced:
  assumes "own_set_span t row col n h = Some (t', h')" and b: "balanced h (mset (table_blocks t))"
  shows "balanced h' (mset (table_blocks t'))"
proof -
  obtain i c where e: "own_set_span t row col n h =
      (if n < 2 then Some (t, h)
       else do {
         (r, t, h) \<leftarrow> own_get_row t i h;
         (cells, h) \<leftarrow> own_get_cell (row_cells r) c h;
         (cells, h) \<leftarrow> own_span_slaves cells (c + 1) (n - 1) h;
         Some (own_set_row t i (r\<lparr>row_cells := cells\<rparr>), h)
       })"
    by (rule that, unfold own_set_span_def Let_def, rule refl)
  show ?thesis
  proof (cases "n < 2")
    case True
    with assms e show ?thesis by simp
  next
    case False
    then obtain r t1 h1 cells h2 cells'
      where get: "own_get_row t i h = Some (r, t1, h1)" and cell: "own_get_cell (row_cells r) c h1 = Some (cells, h2)"
        and sl: "own_span_slaves cells (c + 1) (n - 1) h2 = Some (cells', h')"
        and t': "t' = own_set_row t1 i (r\<lparr>row_cells := cells'\<rparr>)"
      using assms(1) unfolding e by (simp add: split_paired_Ex) blast
    obtain R where R: "mset (table_blocks t1) = mset (row_blocks r) + R"
      "\<And>r'. mset (table_blocks (own_set_row t1 i r')) = mset (row_blocks r') + R"
      using get_row_open [OF get] by blast
    let ?rest = "mset (vector_blocks (row_vector r)) + add_mset (row_block r) R"
    have "balanced h1 (mset (slot_blocks cell_blocks (row_cells r)) + ?rest)"
      using get_row_balanced [OF get, of "{#}"] b R(1) by (simp add: row_blocks_def ledger_ac)
    from span_slaves_balanced [OF sl get_cell_balanced [OF cell this]] show ?thesis
      using R(2) t' by (simp add: row_blocks_def ledger_ac)
  qed
qed

lemma to_string_balanced:
  assumes "own_to_string t h = Some (t', h')" and b: "balanced h (mset (table_blocks t))"
  shows "balanced h' (mset (table_blocks t'))"
proof (cases "own_conv t")
  case None
  obtain buf where buf: "own_string_buffer h = (buf, h')" "t' = t\<lparr>own_conv := Some buf\<rparr>"
    using assms(1) None by (auto simp: own_to_string_def split: if_splits prod.splits)
  from balanced_string_buffer [OF buf(1) b] show ?thesis
    using None buf(2) by (simp add: table_blocks_def ledger_ac)
next
  case (Some buf)
  with assms show ?thesis by (auto simp: own_to_string_def split: if_splits)
qed

lemma step_balanced:
  assumes "own_step c t h = Some (t', h')" and "balanced h (mset (table_blocks t))"
  shows "balanced h' (mset (table_blocks t'))"
  using assms write_balanced printf_balanced ln_balanced add_separator_balanced erase_balanced span_balanced
    to_string_balanced
  by (cases c) auto

lemma run_balanced:
  "own_run cs t h = Some (t', h') \<Longrightarrow> balanced h (mset (table_blocks t)) \<Longrightarrow> balanced h' (mset (table_blocks t'))"
proof (induction cs t h rule: own_run.induct)
  case (2 c cs t h)
  obtain t1 h1 where s: "own_step c t h = Some (t1, h1)" and r: "own_run cs t1 h1 = Some (t', h')"
    using "2.prems"(1) by auto
  show ?case by (rule "2.IH" [OF s refl r step_balanced [OF s "2.prems"(2)]])
qed simp

lemma start_balanced:
  "own_create_table empty_blocks = (t, h) \<Longrightarrow> balanced h (mset (table_blocks t))"
  using balanced_table [of empty_blocks t h "{#}"] by (simp add: balanced_def empty_blocks_def)

section \<open>Calls that leave no gap\<close>

text \<open>
  A call writes behind the end of the current row when it inserts a cell, or prints over cells, at a
  column greater than the number of cells of the row.
\<close>

definition current_width :: "own_table \<Rightarrow> nat" where
  "current_width t =
     (case slot_at (own_rows t) (own_cur_row t) of None \<Rightarrow> 0 | Some r \<Rightarrow> length (row_cells r))"

fun behind_end :: "own_call \<Rightarrow> own_table \<Rightarrow> bool" where
  "behind_end Write t = (own_strategy t = FT_STRATEGY_INSERT \<and> own_cur_col t > current_width t)"
| "behind_end (Printf _ _) t = (own_strategy t = FT_STRATEGY_REPLACE \<and> own_cur_col t > current_width t)"
| "behind_end _ t = False"

text \<open>
  The calls that use no unwritten slot and no row that is not there: none behind the end of the
  current row, formats that have their arguments, one of the two strategies, and an erased range that starts at a row of the table.
\<close>

fun admissible :: "own_call \<Rightarrow> own_table \<Rightarrow> bool" where
  "admissible Write t = (\<not> behind_end Write t)"
| "admissible (Printf fmt va) t = (\<not> behind_end (Printf fmt va) t \<and> create_row_from_fmt_string fmt va \<noteq> None)"
| "admissible (Erase r1 c1 r2 c2) t =
     ((if r1 = FT_CUR_ROW then own_cur_row t else r1) < length (own_rows t) \<and> length (own_rows t) < 2 ^ 64
      \<and> list_all (\<lambda>slot. case slot of None \<Rightarrow> True | Some r \<Rightarrow> length (row_cells r) < 2 ^ 64) (own_rows t))"
| "admissible (Strategy s) t = (s = FT_STRATEGY_INSERT \<or> s = FT_STRATEGY_REPLACE)"
| "admissible _ t = True"

fun careful_run :: "own_call list \<Rightarrow> own_table \<Rightarrow> own_heap \<Rightarrow> bool" where
  "careful_run [] t h = True"
| "careful_run (c # cs) t h =
     (admissible c t \<and> (case own_step c t h of None \<Rightarrow> True | Some (t, h) \<Rightarrow> careful_run cs t h))"

lemma slots_pad_inside: "pos \<le> length s \<Longrightarrow> pad_slots s pos = s"
  by (simp add: pad_slots_def)

lemma written_insert: "pos \<le> length s \<Longrightarrow> None \<notin> set s \<Longrightarrow> None \<notin> set (seq_insert s x pos)"
  by (auto simp: seq_insert_def slots_pad_inside dest: in_set_takeD in_set_dropD)

lemma written_swap:
  "pos \<le> length s \<Longrightarrow> None \<notin> set s \<Longrightarrow> None \<notin> set s' \<Longrightarrow> seq_swap s s' pos = (a, b) \<Longrightarrow> None \<notin> set a"
  by (auto simp: seq_swap_def slots_pad_inside dest: in_set_takeD in_set_dropD split: if_splits)

lemma written_insert_cells:
  "insert_cells s s' pos = Some r \<Longrightarrow> pos \<le> length s \<Longrightarrow> None \<notin> set s \<Longrightarrow> None \<notin> set r"
proof (induction s s' pos rule: insert_cells.induct)
  case (2 s slot s' pos)
  obtain c where c: "slot = Some c" "insert_cells (seq_insert s c pos) s' (pos + 1) = Some r" using "2.prems"(1) by auto
  have "pos + 1 \<le> length (seq_insert s c pos)" using "2.prems"(2) by (simp add: seq_insert_def slots_pad_inside)
  with "2.IH" [OF c] written_insert [OF "2.prems"(2,3), of c] show ?case by simp
qed simp

lemma create_up_to_written:
  "own_create_up_to s n h = (s', h') \<Longrightarrow> None \<notin> set s \<Longrightarrow> None \<notin> set s' \<and> length s' = max n (length s)"
proof (induction s n h rule: own_create_up_to.induct)
  case (1 s n h)
  show ?case
  proof (cases "length s < n")
    case True
    obtain c h1 where c: "own_create_cell h = (c, h1)" by fastforce
    have "own_create_up_to (seq_push s c) n h1 = (s', h')" "None \<notin> set (seq_push s c)"
      using "1.prems" True c by (simp_all add: own_create_up_to.simps [of s] seq_push_def)
    from "1.IH" [OF True c [symmetric] refl this] True show ?thesis by (simp add: seq_push_def)
  next
    case False
    then show ?thesis using "1.prems" by (simp add: own_create_up_to.simps [of s])
  qed
qed

lemma get_cell_written: "own_get_cell s n h = Some (s', h') \<Longrightarrow> None \<notin> set s \<Longrightarrow> None \<notin> set s'"
  by (auto simp: own_get_cell_def Let_def split: prod.splits dest: create_up_to_written)

lemma span_slaves_written: "own_span_slaves s c n h = Some (s', h') \<Longrightarrow> None \<notin> set s \<Longrightarrow> None \<notin> set s'"
  by (induction n arbitrary: s c h) (auto dest: get_cell_written)

lemma text_cells_written: "own_text_cells n s h = (s', h') \<Longrightarrow> None \<notin> set s \<Longrightarrow> None \<notin> set s'"
  by (induction n arbitrary: s h) (auto simp: Let_def seq_push_def split: prod.splits)

lemma row_from_fmt_written: "own_row_from_fmt fmt va h = Some (Some r, h') \<Longrightarrow> None \<notin> set (row_cells r)"
proof -
  assume r: "own_row_from_fmt fmt va h = Some (Some r, h')"
  obtain buf h1 r0 h2 where new: "own_string_buffer h = (buf, h1)" "own_create_row h1 = (r0, h2)" by (metis surj_pair)
  then obtain n where n: "row_cells r = fst (own_text_cells n (row_cells r0) h2)"
    using r by (auto simp: own_row_from_fmt_def Let_def split_beta split: option.splits)
  have "row_cells r0 = []" using new(2) by (auto simp: own_create_row_def Let_def split: prod.splits)
  with n show ?thesis using text_cells_written [of n "[]" h2] by (cases "own_text_cells n [] h2") auto
qed

lemma erase_range_written:
  "own_erase_range r left right h = Some (r', h') \<Longrightarrow> None \<notin> set (row_cells r) \<Longrightarrow> None \<notin> set (row_cells r')"
  by (auto simp: own_erase_range_def erase_range_slots split: if_splits dest: in_set_takeD in_set_dropD)

lemma rows_up_to_new:
  "own_rows_up_to rs n h = (rs', h') \<Longrightarrow>
   \<exists>new. rs' = rs @ map Some new \<and> list_all (\<lambda>r. row_cells r = []) new \<and> length rs' = max n (length rs)"
proof (induction rs n h rule: own_rows_up_to.induct)
  case (1 rs n h)
  show ?case
  proof (cases "length rs < n")
    case True
    obtain r h1 where r: "own_create_row h = (r, h1)" by fastforce
    then have empty: "row_cells r = []" by (auto simp: own_create_row_def Let_def split: prod.splits)
    have "own_rows_up_to (seq_push rs r) n h1 = (rs', h')"
      using "1.prems" True r by (simp add: own_rows_up_to.simps [of rs])
    from "1.IH" [OF True r [symmetric] refl this] obtain new where new: "rs' = seq_push rs r @ map Some new"
      "list_all (\<lambda>r. row_cells r = []) new" "length rs' = max n (length (seq_push rs r))" by blast
    with empty True show ?thesis by (intro exI [of _ "r # new"]) (simp add: seq_push_def)
  next
    case False
    then show ?thesis using "1.prems" by (simp add: own_rows_up_to.simps [of rs])
  qed
qed

lemma seps_up_to_written:
  "own_seps_up_to ss n h = (ss', h') \<Longrightarrow> None \<notin> set ss \<Longrightarrow> None \<notin> set ss'"
proof (induction ss n h rule: own_seps_up_to.induct)
  case (1 ss n h)
  show ?case
  proof (cases "length ss \<le> n")
    case True
    obtain s h1 where s: "malloc h = (s, h1)" by fastforce
    have "own_seps_up_to (seq_push ss s) n h1 = (ss', h')" "None \<notin> set (seq_push ss s)"
      using "1.prems" True s by (simp_all add: own_seps_up_to.simps [of ss] seq_push_def)
    then show ?thesis using "1.IH" [OF True s [symmetric] refl] by simp
  next
    case False
    then show ?thesis using "1.prems" by (simp add: own_seps_up_to.simps [of ss])
  qed
qed

lemma get_row_gap_free:
  assumes "own_get_row t i h = Some (r, t', h')" and free: "gap_free t"
  shows "gap_free t'" "None \<notin> set (row_cells r)"
    "own_cur_row t' = own_cur_row t" "own_cur_col t' = own_cur_col t" "own_strategy t' = own_strategy t"
    "i = own_cur_row t \<longrightarrow> length (row_cells r) = current_width t"
proof -
  obtain rs where rs: "own_rows_up_to (own_rows t) (i + 1) h = (rs, h')" "slot_at rs i = Some r" "t' = t\<lparr>own_rows := rs\<rparr>"
    using assms(1) by (auto simp: own_get_row_def Let_def split: prod.splits)
  from rows_up_to_new [OF rs(1)] obtain new where new: "rs = own_rows t @ map Some new"
    "list_all (\<lambda>r. row_cells r = []) new" by blast
  have w: "list_all row_written (own_rows t)" "None \<notin> set (own_seps t)" using free by (simp_all add: gap_free_def)
  have "list_all row_written rs" using new w(1) by (auto simp: list_all_iff)
  then show "gap_free t'" using w(2) rs(3) by (simp add: gap_free_def)
  have r: "i < length rs" "rs ! i = Some r" using rs(2) by (auto elim: slot_atE)
  with \<open>list_all row_written rs\<close> have "row_written (Some r)" by (metis list_all_length)
  then show "None \<notin> set (row_cells r)" by simp
  show "own_cur_row t' = own_cur_row t" "own_cur_col t' = own_cur_col t" "own_strategy t' = own_strategy t"
    by (simp_all add: rs(3))
  show "i = own_cur_row t \<longrightarrow> length (row_cells r) = current_width t"
  proof
    assume i: "i = own_cur_row t"
    show "length (row_cells r) = current_width t"
    proof (cases "i < length (own_rows t)")
      case True
      then show ?thesis using r i new(1) by (simp add: current_width_def slot_at_def nth_append)
    next
      case False
      then have "r \<in> set new" using r new(1) by (auto simp: nth_append)
      then have "row_cells r = []" using new(2) by (simp add: list_all_iff)
      then show ?thesis using False i by (simp add: current_width_def slot_at_def)
    qed
  qed
qed

lemma set_row_gap_free: "gap_free t \<Longrightarrow> None \<notin> set (row_cells r) \<Longrightarrow> gap_free (own_set_row t i r)"
  by (auto simp: gap_free_def own_set_row_def list_all_iff dest!: subsetD [OF set_update_subset_insert])

lemma gap_free_same [simp]:
  "gap_free (t\<lparr>own_cur_row := i\<rparr>) = gap_free t" "gap_free (t\<lparr>own_cur_col := i\<rparr>) = gap_free t"
  "gap_free (t\<lparr>own_strategy := w\<rparr>) = gap_free t" "gap_free (t\<lparr>own_conv := b\<rparr>) = gap_free t"
  by (simp_all add: gap_free_def)

lemma write_gap_free:
  assumes "own_write t h = Some (t', h')" and free: "gap_free t" and "\<not> behind_end Write t"
  shows "gap_free t'"
proof -
  obtain r t1 h1 where get: "own_get_row t (own_cur_row t) h = Some (r, t1, h1)"
    using assms(1) by (auto simp: own_write_def)
  note g = get_row_gap_free [OF get free]
  have ins: "None \<notin> set (fst (own_create_cell_in_position (row_cells r) (own_cur_col t) h1))" if "own_strategy t = FT_STRATEGY_INSERT"
    using assms(3) that g(2,6) written_insert [of "own_cur_col t" "row_cells r"]
    by (auto simp: own_create_cell_in_position_def split: prod.splits)
  have upd: "gap_free (own_set_row t1 i (r\<lparr>row_cells := cells[n := Some c]\<rparr>))" if "None \<notin> set cells" for i cells n c
    using that set_update_subset_insert [of cells n "Some c"] by (intro set_row_gap_free [OF g(1)]) auto
  show ?thesis
    using assms(1) get g ins get_cell_written [OF _ g(2)]
    by (auto simp: own_write_def Let_def split_beta intro!: upd split: if_splits)
qed

lemma printf_gap_free:
  assumes "own_printf t fmt va h = Some (t', h')" and free: "gap_free t" and "\<not> behind_end (Printf fmt va) t"
  shows "gap_free t'"
proof -
  obtain nr h1 where nr: "own_row_from_fmt fmt va h = Some (nr, h1)"
    using assms(1) by (auto simp: own_printf_def)
  show ?thesis
  proof (cases nr)
    case None
    then show ?thesis using assms(1) nr free by (simp add: own_printf_def)
  next
    case (Some n)
    obtain r t1 h2 where get: "own_get_row t (own_cur_row t) h1 = Some (r, t1, h2)"
      using assms(1) nr Some by (auto simp: own_printf_def Let_def)
    note g = get_row_gap_free [OF get free]
    have n: "None \<notin> set (row_cells n)" using row_from_fmt_written nr Some by blast
    have ins: "None \<notin> set (row_cells r')" if i: "own_insert_row r n (own_cur_col t) h2 = Some (r', n', h3)" for r' n' h3
    proof -
      obtain s h4 s' where s: "own_create_up_to (row_cells r) (own_cur_col t) h2 = (s, h4)"
        "insert_cells s (row_cells n) (own_cur_col t) = Some s'" "r' = r\<lparr>row_cells := s'\<rparr>"
        using i by (auto simp: own_insert_row_def Let_def split: prod.splits)
      show ?thesis using create_up_to_written [OF s(1) g(2)] written_insert_cells [OF s(2)] s(3) by simp
    qed
    have swap: "None \<notin> set (row_cells (fst (own_swap_row r n (own_cur_col t))))" if "own_strategy t = FT_STRATEGY_REPLACE"
      using assms(3) that g(2,6) n written_swap [of "own_cur_col t" "row_cells r" "row_cells n"]
      by (auto simp: own_swap_row_def split: prod.splits)
    show ?thesis
      using assms(1) nr Some get g ins swap
      by (auto simp: own_printf_def Let_def split_beta intro!: set_row_gap_free split: if_splits)
  qed
qed

lemma ln_gap_free:
  assumes "own_ln t h = Some (t', h')" and free: "gap_free t"
  shows "gap_free t'"
proof (cases "own_strategy t = FT_STRATEGY_INSERT")
  case False
  then show ?thesis using assms by (auto simp: own_ln_def split: if_splits)
next
  case True
  show ?thesis
  proof (cases "own_cur_row t < length (own_rows t) \<and> (\<exists>row. slot_at (own_rows t) (own_cur_row t) = Some row
      \<and> own_cur_col t < length (row_cells row))")
    case False
    then show ?thesis
      using assms True by (auto simp: own_ln_def own_split_cur_row_def split: if_splits prod.splits)
  next
    case split: True
    then obtain row where row: "slot_at (own_rows t) (own_cur_row t) = Some row" by blast
    obtain tail rest h1 where sp: "own_split_row row (own_cur_col t) h = (tail, rest, h1)" by (metis surj_pair)
    let ?rs = "own_rows (own_set_row t (own_cur_row t) rest)"
    have w: "None \<notin> set (row_cells row)" using free row by (auto simp: gap_free_def list_all_length elim!: slot_atE)
    have cells: "row_cells tail = drop (own_cur_col t) (row_cells row)" "row_cells rest = take (own_cur_col t) (row_cells row)"
      using sp by (auto simp: own_split_row_def seq_split_def Let_def split: prod.splits)
    have tail: "row_written (Some tail)" "None \<notin> set (row_cells rest)" using w cells by (auto dest: in_set_takeD in_set_dropD)
    have rs: "list_all row_written ?rs"
      using set_row_gap_free [OF free tail(2)] by (simp add: gap_free_def)
    have "Suc (own_cur_row t) \<le> length ?rs" using split by (simp add: own_set_row_def Suc_le_eq)
    then have "list_all row_written (seq_insert ?rs tail (Suc (own_cur_row t)))"
      using rs tail(1) by (auto simp: seq_insert_def slots_pad_inside list_all_iff dest: in_set_takeD in_set_dropD)
    moreover have "own_rows t' = seq_insert ?rs tail (Suc (own_cur_row t))" "own_seps t' = own_seps t"
      using assms(1) True split row sp by (auto simp: own_ln_def own_split_cur_row_def own_set_row_def)
    ultimately show ?thesis using free by (simp add: gap_free_def)
  qed
qed

lemma add_separator_gap_free: "own_add_separator t h = Some (t', h') \<Longrightarrow> gap_free t \<Longrightarrow> gap_free t'"
  by (auto simp: own_add_separator_def Let_def gap_free_def split: prod.splits dest: seps_up_to_written)

lemma erase_columns_written:
  "own_erase_columns rs left right js h = Some (rs', h') \<Longrightarrow> list_all row_written rs \<Longrightarrow> list_all row_written rs'"
proof (induction rs left right js h rule: own_erase_columns.induct)
  case (2 rs left right i js h)
  obtain row row' h1 where row: "slot_at rs i = Some row" and e: "own_erase_range row left right h = Some (row', h1)"
    and rest: "own_erase_columns (rs[i := Some row']) left right js h1 = Some (rs', h')"
    using "2.prems"(1) by auto
  have "None \<notin> set (row_cells row)" using "2.prems"(2) row by (auto simp: list_all_length elim!: slot_atE)
  then have "row_written (Some row')" using erase_range_written [OF e] by simp
  then have "list_all row_written (rs[i := Some row'])"
    using "2.prems"(2) by (auto simp: list_all_iff dest!: subsetD [OF set_update_subset_insert])
  with "2.IH" [OF row e refl rest] show ?case .
qed simp

lemma set_seq_erase: "set (snd (seq_erase s i)) \<subseteq> set s"
  by (auto simp: seq_erase_def dest: in_set_takeD in_set_dropD)

lemma erase_empty_written:
  "own_erase_empty n i rs ss h = Some (rs', ss', h') \<Longrightarrow> set rs' \<subseteq> set rs \<and> set ss' \<subseteq> set ss"
proof (induction n arbitrary: i rs ss h)
  case (Suc n)
  then obtain i2 rs2 ss2 h2 where "own_erase_empty n i2 rs2 ss2 h2 = Some (rs', ss', h')"
    "set rs2 \<subseteq> set rs" "set ss2 \<subseteq> set ss"
    by (auto simp: Let_def split: if_splits
        intro: that [OF _ set_seq_erase set_seq_erase] that [OF _ set_seq_erase subset_refl]
          that [OF _ subset_refl subset_refl])
  with Suc.IH show ?case by blast
qed simp

lemma erase_gap_free:
  assumes "own_erase t r1 c1 r2 c2 h = Some (t', h')" and free: "gap_free t"
  shows "gap_free t'"
proof -
  obtain bad left right js n i where e: "own_erase t r1 c1 r2 c2 h =
      (if bad then Some (t, h)
       else do {
         (rs, h) \<leftarrow> own_erase_columns (own_rows t) left right js h;
         (rs, ss, h) \<leftarrow> own_erase_empty n i rs (own_seps t) h;
         Some (t\<lparr>own_rows := rs, own_seps := ss\<rparr>, h)
       })"
    by (rule that, unfold own_erase_def Let_def, rule refl)
  show ?thesis
  proof (cases bad)
    case True
    with assms e show ?thesis by simp
  next
    case False
    then obtain rs h1 rs' ss'
      where c: "own_erase_columns (own_rows t) left right js h = Some (rs, h1)"
        and d: "own_erase_empty n i rs (own_seps t) h1 = Some (rs', ss', h')"
        and t': "t' = t\<lparr>own_rows := rs', own_seps := ss'\<rparr>"
      using assms(1) unfolding e by (simp add: split_paired_Ex) blast
    have "list_all row_written rs" using erase_columns_written [OF c] free by (simp add: gap_free_def)
    with erase_empty_written [OF d] free show ?thesis by (auto simp: t' gap_free_def list_all_iff)
  qed
qed

lemma span_gap_free:
  assumes "own_set_span t row col n h = Some (t', h')" and free: "gap_free t"
  shows "gap_free t'"
proof -
  obtain i c where e: "own_set_span t row col n h =
      (if n < 2 then Some (t, h)
       else do {
         (r, t, h) \<leftarrow> own_get_row t i h;
         (cells, h) \<leftarrow> own_get_cell (row_cells r) c h;
         (cells, h) \<leftarrow> own_span_slaves cells (c + 1) (n - 1) h;
         Some (own_set_row t i (r\<lparr>row_cells := cells\<rparr>), h)
       })"
    by (rule that, unfold own_set_span_def Let_def, rule refl)
  show ?thesis
  proof (cases "n < 2")
    case True
    with assms e show ?thesis by simp
  next
    case False
    then obtain r t1 h1 cells h2 cells'
      where get: "own_get_row t i h = Some (r, t1, h1)" and cell: "own_get_cell (row_cells r) c h1 = Some (cells, h2)"
        and sl: "own_span_slaves cells (c + 1) (n - 1) h2 = Some (cells', h')"
        and t': "t' = own_set_row t1 i (r\<lparr>row_cells := cells'\<rparr>)"
      using assms(1) unfolding e by (simp add: split_paired_Ex) blast
    note g = get_row_gap_free [OF get free]
    show ?thesis using span_slaves_written [OF sl get_cell_written [OF cell g(2)]] g(1) t'
      by (simp add: set_row_gap_free)
  qed
qed

lemma to_string_gap_free: "own_to_string t h = Some (t', h') \<Longrightarrow> gap_free t \<Longrightarrow> gap_free t'"
  by (auto simp: own_to_string_def split: if_splits option.splits prod.splits)

lemma step_gap_free:
  assumes "own_step c t h = Some (t', h')" and "gap_free t" and "\<not> behind_end c t"
  shows "gap_free t'"
  using assms write_gap_free printf_gap_free ln_gap_free add_separator_gap_free erase_gap_free span_gap_free
    to_string_gap_free
  by (cases c) auto

section \<open>Admissible calls return\<close>

definition strategy_known :: "own_table \<Rightarrow> bool" where
  "strategy_known t \<longleftrightarrow> own_strategy t = FT_STRATEGY_INSERT \<or> own_strategy t = FT_STRATEGY_REPLACE"

lemma get_row_returns:
  assumes "gap_free t"
  shows "\<exists>r t' h'. own_get_row t i h = Some (r, t', h')"
proof -
  obtain rs h' where rs: "own_rows_up_to (own_rows t) (i + 1) h = (rs, h')" by fastforce
  obtain new where new: "rs = own_rows t @ map Some new" "length rs = max (i + 1) (length (own_rows t))"
    using rows_up_to_new [OF rs] by blast
  have "None \<notin> set rs" using assms new(1) by (auto simp: gap_free_def list_all_iff)
  then obtain r where "rs ! i = Some r" using new(2) by (metis less_add_one less_max_iff_disj nth_mem option.exhaust)
  then show ?thesis using rs new(2) by (auto simp: own_get_row_def slot_at_def)
qed

lemma get_cell_returns:
  assumes "None \<notin> set s"
  shows "\<exists>s' h'. own_get_cell s c h = Some (s', h')"
proof -
  obtain s' h' where s': "own_create_up_to s (c + 1) h = (s', h')" by fastforce
  have w: "None \<notin> set s'" "c < length s'" using create_up_to_written [OF s' assms] by simp_all
  then obtain x where "s' ! c = Some x" by (metis nth_mem option.exhaust)
  then show ?thesis using s' w(2) by (auto simp: own_get_cell_def slot_at_def)
qed

lemma span_slaves_returns: "None \<notin> set s \<Longrightarrow> \<exists>s' h'. own_span_slaves s c n h = Some (s', h')"
proof (induction n arbitrary: s c h)
  case (Suc n)
  obtain s1 h1 where s1: "own_get_cell s c h = Some (s1, h1)" using get_cell_returns [OF Suc.prems] by blast
  with Suc.IH [OF get_cell_written [OF s1 Suc.prems]] show ?case by simp
qed simp

lemma insert_cells_returns: "None \<notin> set s' \<Longrightarrow> \<exists>r. insert_cells s s' pos = Some r"
proof (induction s s' pos rule: insert_cells.induct)
  case (2 s slot s' pos)
  then obtain c where "slot = Some c" by (cases slot) auto
  with 2 show ?case by simp
qed simp

lemma row_from_fmt_returns:
  "create_row_from_fmt_string fmt va \<noteq> None \<Longrightarrow> \<exists>r h'. own_row_from_fmt fmt va h = Some (r, h')"
  by (auto simp: own_row_from_fmt_def split_beta Let_def simp del: bind_Some_iff split: option.splits)

lemma destroy_row_returns: "None \<notin> set (row_cells r) \<Longrightarrow> \<exists>h'. destroy_row r h = Some h'"
  using destroy_row_faults [of r h] by (cases "destroy_row r h") auto

lemma get_cell_slot: "own_get_cell s c h = Some (s', h') \<Longrightarrow> \<exists>x. slot_at s' c = Some x"
  by (auto simp: own_get_cell_def Let_def split: prod.splits)

lemma inserted_slot: "slot_at (seq_insert s x n) n = Some x"
proof -
  have "length (take n (pad_slots s n)) = n" by (auto simp: pad_slots_def min_def)
  then have "seq_insert s x n ! n = Some x" "n < length (seq_insert s x n)"
    unfolding seq_insert_def by (metis nth_append_length, simp)
  then show ?thesis by (simp add: slot_at_def)
qed

lemma write_returns:
  assumes "gap_free t" and "strategy_known t"
  shows "\<exists>t' h'. own_write t h = Some (t', h')"
proof -
  obtain r t1 h1 where get: "own_get_row t (own_cur_row t) h = Some (r, t1, h1)"
    using get_row_returns [OF assms(1)] by blast
  note g = get_row_gap_free [OF get assms(1)]
  obtain s h2 x where "own_get_cell (row_cells r) (own_cur_col t) h1 = Some (s, h2)" "slot_at s (own_cur_col t) = Some x"
    using get_cell_returns [OF g(2)] get_cell_slot by blast
  moreover have "slot_at (seq_insert (row_cells r) c (own_cur_col t)) (own_cur_col t) = Some c" for c
    using inserted_slot .
  ultimately show ?thesis
    using assms(2) get g(4,5)
    by (auto simp: own_write_def strategy_known_def own_create_cell_in_position_def Let_def split_beta simp del: bind_Some_iff)
qed

lemma printf_returns:
  assumes free: "gap_free t" and k: "strategy_known t" and "admissible (Printf fmt va) t"
  shows "\<exists>t' h'. own_printf t fmt va h = Some (t', h')"
proof -
  obtain nr h1 where nr: "own_row_from_fmt fmt va h = Some (nr, h1)"
    using row_from_fmt_returns assms(3) by (metis admissible.simps(2))
  show ?thesis
  proof (cases nr)
    case None
    then show ?thesis using nr by (simp add: own_printf_def)
  next
    case (Some n)
    obtain r t1 h2 where get: "own_get_row t (own_cur_row t) h1 = Some (r, t1, h2)"
      using get_row_returns [OF free] by blast
    note g = get_row_gap_free [OF get free]
    have n: "None \<notin> set (row_cells n)" using row_from_fmt_written nr Some by blast
    consider "own_strategy t = FT_STRATEGY_INSERT" | "own_strategy t = FT_STRATEGY_REPLACE"
      using k by (auto simp: strategy_known_def)
    then show ?thesis
    proof cases
      case 1
      obtain s h3 where s: "own_create_up_to (row_cells r) (own_cur_col t) h2 = (s, h3)" by fastforce
      obtain s' where s': "insert_cells s (row_cells n) (own_cur_col t) = Some s'" using insert_cells_returns [OF n] by blast
      obtain h4 where "destroy_row (n\<lparr>row_cells := []\<rparr>) h3 = Some h4"
        using destroy_row_returns [of "n\<lparr>row_cells := []\<rparr>"] by auto
      then show ?thesis using nr Some get g(4,5) 1 s s' by (simp add: own_printf_def own_insert_row_def Let_def)
    next
      case 2
      obtain r' n' where sw: "own_swap_row r n (own_cur_col t) = (r', n')" by fastforce
      then have "set (row_cells n') \<subseteq> set (row_cells r) \<union> set (row_cells n)"
        by (auto simp: own_swap_row_def seq_swap_def split: if_splits) (meson in_set_takeD in_set_dropD)+
      then obtain h4 where "destroy_row n' h2 = Some h4" using destroy_row_returns [of n'] n g(2) by blast
      then show ?thesis using nr Some get g(4,5) 2 sw by (simp add: own_printf_def Let_def)
    qed
  qed
qed

lemma ln_returns:
  assumes free: "gap_free t" and k: "strategy_known t"
  shows "\<exists>t' h'. own_ln t h = Some (t', h')"
proof -
  have "\<exists>row. slot_at (own_rows t) (own_cur_row t) = Some row" if "own_cur_row t < length (own_rows t)"
  proof -
    have "row_written (own_rows t ! own_cur_row t)" using free that by (simp add: gap_free_def list_all_length)
    then show ?thesis using that by (cases "own_rows t ! own_cur_row t") (simp_all add: slot_at_def)
  qed
  then have "\<exists>x t' h'. own_split_cur_row t h = Some (x, t', h')"
    by (auto simp: own_split_cur_row_def not_le split_beta simp del: bind_Some_iff)
  then show ?thesis
    using k by (auto simp: own_ln_def strategy_known_def simp del: bind_Some_iff split: option.splits)
qed

lemma seps_up_to_length: "own_seps_up_to ss n h = (ss', h') \<Longrightarrow> n < length ss'"
proof (induction ss n h rule: own_seps_up_to.induct)
  case (1 ss n h)
  then show ?case
    by (cases "length ss \<le> n"; cases "malloc h") (auto simp: own_seps_up_to.simps [of ss])
qed

lemma add_separator_returns:
  assumes "gap_free t"
  shows "\<exists>t' h'. own_add_separator t h = Some (t', h')"
proof -
  obtain ss h' where ss: "own_seps_up_to (own_seps t) (own_cur_row t) h = (ss, h')" by fastforce
  then have "None \<notin> set ss" "own_cur_row t < length ss"
    using assms seps_up_to_written seps_up_to_length by (auto simp: gap_free_def)
  then obtain x where "ss ! own_cur_row t = Some x" by (metis nth_mem option.exhaust)
  then show ?thesis using ss \<open>own_cur_row t < length ss\<close> by (simp add: own_add_separator_def slot_at_def)
qed

text \<open>Erasing keeps the number of rows and, in rows no longer than a \<open>size_t\<close> counts, finds every cell.\<close>

abbreviation short_rows :: "own_row slots \<Rightarrow> bool" where
  "short_rows rs \<equiv> list_all (\<lambda>slot. case slot of None \<Rightarrow> True | Some r \<Rightarrow> length (row_cells r) < 2 ^ 64) rs"

lemma erase_range_returns:
  assumes "None \<notin> set (row_cells r)" and "length (row_cells r) < 2 ^ 64"
  shows "\<exists>r' h'. own_erase_range r left right h = Some (r', h') \<and> length (row_cells r') < 2 ^ 64"
proof -
  have "None \<notin> set (drop left (take (right + 1) (row_cells r)))" using assms(1) by (meson in_set_takeD in_set_dropD)
  then obtain h' where "destroy_each_cell (drop left (take (right + 1) (row_cells r))) h = Some h'"
    using destroy_each_cell_faults by (metis option.exhaust)
  moreover have "length (take left (row_cells r) @ drop (max left (right + 1)) (row_cells r)) < 2 ^ 64"
    using assms(2) by simp
  ultimately show ?thesis using assms(2) by (simp add: own_erase_range_def erase_range_slots not_le)
qed

lemma erase_columns_returns:
  "\<forall>i\<in>set js. i < length rs \<Longrightarrow> list_all row_written rs \<Longrightarrow> short_rows rs \<Longrightarrow>
   \<exists>rs' h'. own_erase_columns rs left right js h = Some (rs', h') \<and> length rs' = length rs"
proof (induction rs left right js h rule: own_erase_columns.induct)
  case (2 rs left right i js h)
  have i: "i < length rs" using "2.prems"(1) by simp
  then have "row_written (rs ! i)" using "2.prems"(2) by (simp add: list_all_length)
  then obtain row where row: "slot_at rs i = Some row" "None \<notin> set (row_cells row)"
    using i by (cases "rs ! i") (simp_all add: slot_at_def)
  then have "length (row_cells row) < 2 ^ 64"
    using "2.prems"(3) i by (auto simp: list_all_length slot_at_def dest!: spec [of _ i])
  from erase_range_returns [OF row(2) this] obtain row' h1
    where e: "own_erase_range row left right h = Some (row', h1)" "length (row_cells row') < 2 ^ 64" by blast
  let ?rs = "rs[i := Some row']"
  have "row_written (Some row')" using erase_range_written [OF e(1) row(2)] by simp
  then have "list_all row_written ?rs" "short_rows ?rs" "\<forall>i\<in>set js. i < length ?rs"
    using "2.prems" e(2) by (auto simp: list_all_length nth_list_update)
  from "2.IH" [OF row(1) e(1) refl this(3) this(1,2)] show ?case using row(1) e(1) by auto
qed simp

lemma erase_empty_returns:
  "i + n \<le> length rs \<Longrightarrow> list_all row_written rs \<Longrightarrow> None \<notin> set ss \<Longrightarrow>
   \<exists>rs' ss' h'. own_erase_empty n i rs ss h = Some (rs', ss', h')"
proof (induction n arbitrary: i rs ss h)
  case (Suc n)
  have i: "i < length rs" using Suc.prems(1) by simp
  then have "row_written (rs ! i)" using Suc.prems(2) by (simp add: list_all_length)
  then obtain row where row: "slot_at rs i = Some row" "None \<notin> set (row_cells row)"
    using i by (cases "rs ! i") (simp_all add: slot_at_def)
  show ?case
  proof (cases "length (row_cells row) = 0")
    case False
    then show ?thesis using Suc.IH [of "i + 1" rs ss h] Suc.prems row by simp
  next
    case True
    obtain h1 where d: "destroy_row row h = Some h1" using destroy_row_returns [OF row(2)] by blast
    let ?rs = "snd (seq_erase rs i)"
    have rs: "i + n \<le> length ?rs" "list_all row_written ?rs"
      using Suc.prems(1,2) set_seq_erase [of rs i] i by (auto simp: seq_erase_def list_all_iff)
    show ?thesis
    proof (cases "i < length ss")
      case False
      then show ?thesis using Suc.IH [OF rs Suc.prems(3)] row d True by simp
    next
      case in_ss: True
      then obtain sep where "ss ! i = Some sep" using Suc.prems(3) by (metis nth_mem option.exhaust)
      moreover have "None \<notin> set (snd (seq_erase ss i))" using set_seq_erase [of ss i] Suc.prems(3) by blast
      ultimately show ?thesis using Suc.IH [OF rs] row d True in_ss by (simp add: slot_at_def)
    qed
  qed
qed simp

lemma erase_returns:
  assumes free: "gap_free t" and adm: "admissible (Erase r1 c1 r2 c2) t"
  shows "\<exists>t' h'. own_erase t r1 c1 r2 c2 h = Some (t', h')"
proof -
  let ?top = "if r1 = FT_CUR_ROW then own_cur_row t else r1" and ?bottom = "if r2 = FT_CUR_ROW then own_cur_row t else r2"
  let ?n = "length (own_rows t)"
  have top: "?top < ?n" "?n < 2 ^ 64" and short: "short_rows (own_rows t)"
    using adm unfolding admissible.simps by blast+
  have w: "list_all row_written (own_rows t)" "None \<notin> set (own_seps t)" using free by (simp_all add: gap_free_def)
  obtain left right where e: "own_erase t r1 c1 r2 c2 h =
      (if ?top > ?bottom \<or> left > right then Some (t, h)
       else do {
         (rs, h) \<leftarrow> own_erase_columns (own_rows t) left right [?top..<min ?n (?bottom + 1)] h;
         (rs, ss, h) \<leftarrow>
           own_erase_empty ((min ((?n + 2 ^ 64 - 1) mod 2 ^ 64) ?bottom + 2 ^ 64 - ?top + 1) mod 2 ^ 64) ?top rs (own_seps t) h;
         Some (t\<lparr>own_rows := rs, own_seps := ss\<rparr>, h)
       })"
    by (rule that, unfold own_erase_def Let_def, rule refl)
  show ?thesis
  proof (cases "?top > ?bottom \<or> left > right")
    case True
    with e show ?thesis by simp
  next
    case False
    have count: "(min ((?n + 2 ^ 64 - 1) mod 2 ^ 64) ?bottom + 2 ^ 64 - ?top + 1) mod 2 ^ 64 = min (?n - 1) ?bottom - ?top + 1"
    proof -
      have "(?n + 2 ^ 64 - 1) mod 2 ^ 64 = (?n - 1 + 2 ^ 64) mod 2 ^ 64" using top(1) by simp
      also have "\<dots> = ?n - 1" using top(2) by (simp only: mod_add_self2 mod_less)
      finally have m: "(?n + 2 ^ 64 - 1) mod 2 ^ 64 = ?n - 1" .
      have "?top \<le> min (?n - 1) ?bottom" using False top(1) by linarith
      then obtain k where k: "min (?n - 1) ?bottom = ?top + k" unfolding le_iff_add by blast
      then have "?top + k + 2 ^ 64 - ?top + 1 = k + 1 + 2 ^ 64" by simp
      moreover have "k + 1 < 2 ^ 64" using k top by linarith
      ultimately show ?thesis unfolding m k by (simp only: mod_add_self2 mod_less diff_add_inverse)
    qed
    have rows: "?top + (min (?n - 1) ?bottom - ?top + 1) \<le> ?n" using top(1) by linarith
    have "\<forall>i\<in>set [?top..<min ?n (?bottom + 1)]. i < ?n" by auto
    from erase_columns_returns [OF this w(1) short] obtain rs h1
      where c: "own_erase_columns (own_rows t) left right [?top..<min ?n (?bottom + 1)] h = Some (rs, h1)"
      and len: "length rs = ?n" by blast
    have "\<exists>rs' ss' h'. own_erase_empty (min (?n - 1) ?bottom - ?top + 1) ?top rs (own_seps t) h1 = Some (rs', ss', h')"
      by (rule erase_empty_returns) (use rows len erase_columns_written [OF c w(1)] w(2) in simp_all)
    then obtain rs' ss' h' where d:
      "own_erase_empty (min (?n - 1) ?bottom - ?top + 1) ?top rs (own_seps t) h1 = Some (rs', ss', h')" by blast
    show ?thesis unfolding e count using False by (simp only: c d if_False Option.bind.bind_lunit prod.case) blast
  qed
qed

lemma span_returns:
  assumes "gap_free t"
  shows "\<exists>t' h'. own_set_span t row col n h = Some (t', h')"
proof -
  obtain i c where e: "own_set_span t row col n h =
      (if n < 2 then Some (t, h)
       else do {
         (r, t, h) \<leftarrow> own_get_row t i h;
         (cells, h) \<leftarrow> own_get_cell (row_cells r) c h;
         (cells, h) \<leftarrow> own_span_slaves cells (c + 1) (n - 1) h;
         Some (own_set_row t i (r\<lparr>row_cells := cells\<rparr>), h)
       })"
    by (rule that, unfold own_set_span_def Let_def, rule refl)
  obtain r t1 h1 where get: "own_get_row t i h = Some (r, t1, h1)" using get_row_returns [OF assms] by blast
  note g = get_row_gap_free [OF get assms]
  obtain s h2 where s: "own_get_cell (row_cells r) c h1 = Some (s, h2)" using get_cell_returns [OF g(2)] by blast
  obtain s' h3 where "own_span_slaves s (c + 1) (n - 1) h2 = Some (s', h3)"
    using span_slaves_returns [OF get_cell_written [OF s g(2)]] by blast
  then show ?thesis unfolding e using get s by simp
qed

lemma step_returns:
  assumes "gap_free t" and "strategy_known t" and "admissible c t"
  shows "\<exists>t' h'. own_step c t h = Some (t', h')"
  using assms write_returns printf_returns ln_returns add_separator_returns erase_returns span_returns
  by (cases c) (auto simp: own_to_string_def split_beta split: option.splits)

text \<open>Only its own call changes the strategy.\<close>

lemma get_row_strategy: "own_get_row t i h = Some (r, t', h') \<Longrightarrow> own_strategy t' = own_strategy t"
  by (auto simp: own_get_row_def Let_def split: prod.splits)

lemma set_row_strategy [simp]: "own_strategy (own_set_row t i r) = own_strategy t"
  by (simp add: own_set_row_def)

lemma call_strategy:
  "own_write t h = Some (t', h') \<Longrightarrow> own_strategy t' = own_strategy t"
  "own_printf t fmt va h = Some (t', h') \<Longrightarrow> own_strategy t' = own_strategy t"
  "own_ln t h = Some (t', h') \<Longrightarrow> own_strategy t' = own_strategy t"
  "own_add_separator t h = Some (t', h') \<Longrightarrow> own_strategy t' = own_strategy t"
  "own_to_string t h = Some (t', h') \<Longrightarrow> own_strategy t' = own_strategy t"
  by (auto simp: own_write_def own_printf_def own_ln_def own_split_cur_row_def own_add_separator_def own_to_string_def
      Let_def split_beta dest: get_row_strategy split: if_splits option.splits) (metis get_row_strategy)+

lemma erase_strategy: "own_erase t r1 c1 r2 c2 h = Some (t', h') \<Longrightarrow> own_strategy t' = own_strategy t"
proof -
  assume r: "own_erase t r1 c1 r2 c2 h = Some (t', h')"
  obtain bad left right js n i where e: "own_erase t r1 c1 r2 c2 h =
      (if bad then Some (t, h)
       else do {
         (rs, h) \<leftarrow> own_erase_columns (own_rows t) left right js h;
         (rs, ss, h) \<leftarrow> own_erase_empty n i rs (own_seps t) h;
         Some (t\<lparr>own_rows := rs, own_seps := ss\<rparr>, h)
       })"
    by (rule that, unfold own_erase_def Let_def, rule refl)
  show ?thesis using r unfolding e by (cases bad) auto
qed

lemma span_strategy: "own_set_span t row col n h = Some (t', h') \<Longrightarrow> own_strategy t' = own_strategy t"
  by (cases "n < 2") (auto simp: own_set_span_def Let_def dest: get_row_strategy)

lemma step_strategy:
  assumes "own_step c t h = Some (t', h')" and "strategy_known t" and "admissible c t"
  shows "strategy_known t'"
  using assms call_strategy erase_strategy span_strategy by (cases c) (auto simp: strategy_known_def)

lemma start_gap_free: "own_create_table h = (t, h') \<Longrightarrow> gap_free t"
  by (auto simp: own_create_table_def gap_free_def Let_def split: prod.splits)

lemma careful_run_returns:
  "gap_free t \<Longrightarrow> strategy_known t \<Longrightarrow> careful_run cs t h \<Longrightarrow>
   \<exists>t' h'. own_run cs t h = Some (t', h') \<and> gap_free t'"
proof (induction cs arbitrary: t h)
  case (Cons c cs)
  have adm: "admissible c t" using Cons.prems(3) by simp
  obtain t1 h1 where s: "own_step c t h = Some (t1, h1)" using step_returns [OF Cons.prems(1,2) adm] by blast
  have "\<not> behind_end c t" using adm by (cases c) simp_all
  with s have "gap_free t1" using step_gap_free Cons.prems(1) by blast
  moreover have "strategy_known t1" using step_strategy [OF s Cons.prems(2) adm] .
  ultimately show ?case using Cons.IH [of t1 h1] Cons.prems(3) s by simp
qed simp

section \<open>Every block once\<close>

lemma run_destroyed:
  assumes "own_create_table empty_blocks = (t0, h0)" and "own_run calls t0 h0 = Some (t, h)"
    and "ft_destroy_table (Some t) h = Some h'"
  shows "distinct (released h') \<and> set (released h') = {..<next_block h'}"
proof -
  have "balanced h' {#}"
    using destroy_table_balanced [OF assms(3), of "{#}"] run_balanced [OF assms(2) start_balanced [OF assms(1)]] by simp
  then show ?thesis using balanced_distinct [of h' "[]"] by simp
qed

text \<open>C30: The blocks of a table are its own, and the destructor releases each of them once.
  After any sequence of calls on a new table (moving to a cell, writing a cell, printing a formatted row, ending a line,
  adding a separator, erasing a range, choosing the strategy, spanning columns, converting to text) that does not fault, the
  blocks the table owns and the blocks released so far are together all those given out, without
  repetition: no block has two owners, was released twice, is in use after its release or was lost.
  The destructor then faults exactly if a slot of a vector inside its size was never written, and otherwise every block was released once.
  Calls that start no cell behind the end of a row when inserting and print over no columns behind it, whose formats have their arguments, that choose one of the
  two strategies and erase from a row of the table on never fault and leave no such slot.\<close>

theorem fort_destroy:
  assumes create: "own_create_table empty_blocks = (t0, h0)"
  shows "(\<forall>t h. own_run calls t0 h0 = Some (t, h) \<longrightarrow>
      distinct (table_blocks t @ released h) \<and> set (table_blocks t @ released h) = {..<next_block h}
      \<and> (ft_destroy_table (Some t) h = None \<longleftrightarrow> \<not> gap_free t)
      \<and> (\<forall>h'. ft_destroy_table (Some t) h = Some h' \<longrightarrow>
           distinct (released h') \<and> set (released h') = {..<next_block h'}))
    \<and> (careful_run calls t0 h0 \<longrightarrow>
        (\<exists>t h h'. own_run calls t0 h0 = Some (t, h) \<and> ft_destroy_table (Some t) h = Some h'
          \<and> distinct (released h') \<and> set (released h') = {..<next_block h'}))"
proof -
  have strat: "strategy_known t0"
    using create by (auto simp: own_create_table_def strategy_known_def Let_def split: prod.splits)
  show ?thesis
  proof (intro conjI allI impI)
    fix t h
    assume r: "own_run calls t0 h0 = Some (t, h)"
    show "distinct (table_blocks t @ released h)" "set (table_blocks t @ released h) = {..<next_block h}"
      using balanced_distinct [OF run_balanced [OF r start_balanced [OF create]]] by blast+
    show "ft_destroy_table (Some t) h = None \<longleftrightarrow> \<not> gap_free t" by (rule destroy_table_faults)
    fix h'
    assume "ft_destroy_table (Some t) h = Some h'"
    then show "distinct (released h')" "set (released h') = {..<next_block h'}"
      using run_destroyed [OF create r] by blast+
  next
    assume "careful_run calls t0 h0"
    then obtain t h where r: "own_run calls t0 h0 = Some (t, h)" "gap_free t"
      using careful_run_returns [OF start_gap_free [OF create] strat] by blast
    then obtain h' where "ft_destroy_table (Some t) h = Some h'"
      using destroy_table_faults [of t h] by (cases "ft_destroy_table (Some t) h") auto
    then show "\<exists>t h h'. own_run calls t0 h0 = Some (t, h) \<and> ft_destroy_table (Some t) h = Some h'
        \<and> distinct (released h') \<and> set (released h') = {..<next_block h'}"
      using r(1) run_destroyed [OF create r(1)] by blast
  qed
qed

text \<open>At a table with a cell written, a row printed over it, another inserted behind the end, and a line ended inside the row.\<close>

definition new_table :: "own_table \<times> own_heap" where
  "new_table = own_create_table empty_blocks"

definition ex_calls :: "own_call list" where
  "ex_calls = [Write, Set_cur 0 0, Printf ''a|b'' [], Strategy FT_STRATEGY_INSERT, Set_cur 0 3,
     Printf ''c'' [], Set_cur 0 1, Ln, Separator, Text]"

lemma ex_calls_careful: "careful_run ex_calls (fst new_table) (snd new_table)"
  by code_simp

lemma fort_destroy_witness:
  "\<exists>t h h'. own_run ex_calls (fst new_table) (snd new_table) = Some (t, h) \<and> ft_destroy_table (Some t) h = Some h'
     \<and> distinct (released h') \<and> set (released h') = {..<next_block h'}"
  using fort_destroy [of "fst new_table" "snd new_table" ex_calls] ex_calls_careful by (simp add: new_table_def)

section \<open>Tables with gaps\<close>

text \<open>
  A cell inserted behind the end of its row, and a row printed over cells behind the end of its row, leave the
  slots before them unwritten, and the destructors read them.
\<close>

lemma gap_faults:
  "case own_run [Strategy FT_STRATEGY_INSERT, Set_cur 0 1, Write] (fst new_table) (snd new_table) of
     None \<Rightarrow> False | Some (t, h) \<Rightarrow> ft_destroy_table (Some t) h = None"
  "case own_run [Set_cur 0 1, Printf ''a'' []] (fst new_table) (snd new_table) of
     None \<Rightarrow> False | Some (t, h) \<Rightarrow> ft_destroy_table (Some t) h = None"
  by code_simp+

end
