(* ===== verification/Spec2Isabelle.thy ===== *)
theory Spec2Isabelle
  imports Topo_Correct K8smgr_Correct Dns_Correct Dns_Test Fort_Correct Text_Correct Wide_Correct
    Fort_Global Fort_Destroy
begin

text \<open>
  This development models the C programs under \<open>src/src/\<close> and proves what they guarantee.

  \<^bold>\<open>The programs and how they interact.\<close>  A cluster has one server process and clients of the topology
  program (\<open>topo/\<close>).  A client sends its registration to the server over UDP once a second
  (\<open>udp_client_proc\<close>); the server puts it into its node list (\<open>node_proc_pod_send_info\<close>) and
  answers with all nodes, one line each (\<open>assoc_info_reply_msg\<close>); the client merges the lines by
  mark and sweep (\<open>node_proc_omp_send_info\<close>, \<open>assoc_info_remove_uncheck_node\<close>).  Both write two
  tables of the nodes with the table library (\<open>libfort/\<close>) and send a notification when the list
  has changed; the server removes nodes that have been silent (\<open>main_tick\<close>).  The pod manager
  (\<open>k8smgr/\<close>) watches counters that the processes of its pod raise in shared memory (\<open>proc_a/\<close>,
  \<open>proc_b/\<close>), answers HTTP probes, asks the other pod of its pair for its state and writes a label to
  the API server.  \<open>dns_util/\<close> looks up a host name, \<open>libs/\<close> has the list all programs use and
  helpers for files and commands.

  \<^bold>\<open>Theories and sources.\<close>
  \<^item> Prelude: collections of hints, facts on lists and options, the access functions of C arrays.
    CString: strings of C, \<open>sscanf\<close>, \<open>strtok\<close>, \<open>sprintf\<close> as far as they are used; a fixed buffer
    is checked with \<open>fits\<close>.
  \<^item> Elem (\<open>libs/elem.c\<close>): the doubly linked list on a heap, with the locale of what its callers
    may rely on.  Util (\<open>libs/util.c\<close>): files, environment and shell as a record.
  \<^item> Node, Node\_Spec, Topo\_Print (\<open>topo/node.c\<close>), Udp, Udp\_Spec (\<open>topo/udp.c\<close>), Topo\_Init
    (\<open>topo/init.c\<close>, \<open>topo/main.c\<close>), Topo\_Correct.
  \<^item> K8smgr, K8smgr\_Spec, K8smgr\_Status (\<open>k8smgr/main.c\<close>), Proc (\<open>proc_a/\<close>, \<open>proc_b/\<close>),
    K8smgr\_Correct.
  \<^item> Dns\_Name, Dns\_Query (\<open>dns_util/dnsUtil.c\<close>), Dns\_Test (\<open>dns_util/dnsUtilTest.c\<close>),
    Dns\_Correct.
  \<^item> \<open>libfort/fort.c\<close> by the files it was put together from: Fort\_Vector (\<open>vector.c\<close>), Fort\_String
    and Fort\_Text (\<open>string_buffer.c\<close>), Fort\_Print (\<open>fort_utils.c\<close>), Fort\_Props and Fort\_Styles
    (\<open>properties.c\<close>), Fort\_Cell (\<open>cell.c\<close>), Fort\_Row (\<open>row.c\<close>), Fort\_Table (\<open>fort_impl.c\<close>,
    \<open>table.c\<close>), Fort\_Global (the state of the whole process), Utf8 (\<open>utf8.h\<close>), Wcwidth
    (\<open>wcwidth.c\<close>).  The first of these model the \<open>char\<close> interface, which the programs use;
    Fort\_Text, Fort\_Typed and Fort\_Wide model cells with text of any of the three types and tables
    as text of these types: what depends on the type is a device (Fort\_Cell), the geometry and the
    printing are the same functions for all devices.  Fort\_Page has the layout of a printed table
    for every device that keeps the contract \<open>text_output\<close>, Fort\_Render, Fort\_Build and Fort\_Rows
    are about \<open>char\<close> output, Fort\_Wide\_Spec about UTF-8 and wide output, Fort\_Columns about columns
    that stand below each other, Fort\_Destroy about the release of a table.  Utf8\_Spec and Fort\_Typed\_Spec hold further lemmas, Fort\_Correct,
    Text\_Correct and Wide\_Correct the theorems.

  A structure of C is a record with the same fields, an enumeration a datatype or its numbers, a
  function a definition of the same name whose result is the returned value and the new state.  The
  result \<open>None\<close> is a fault: an access outside of a block, a string behind the end of its buffer, a
  failed assertion, or a loop that never ends (\<open>partial_function\<close>).  Reports to the error stream
  without influence on the state are left out.

  \<^bold>\<open>What the lemmas show.\<close>
  \<^item> Topology: the list of nodes is a map from names to nodes (Node\_Spec); a message of the server
    is a sequence of updates of it (Udp\_Spec); every state that a program reaches keeps the strings
    within their fields (Topo\_Correct).
  \<^item> Pod manager: one list node and one slot of the counters for each configured process
    (K8smgr\_Spec); every state reached from \<open>mgr_main\<close> keeps that, so the timers run without a
    fault; the verdict on a process, the label and the answers of the end points.
  \<^item> DNS: the coding of names and its inverse, compressed names, what a reply of one address record
    gives, what is forgotten at the release, when the call waits for ever, and how the sockets, which
    are never closed, run out.
  \<^item> Tables: the text of a table of plain rows is its layout, and so is its UTF-8 or wide text; the
    block computed for it is large enough (Fort\_Page, by the locales \<open>text_output\<close> and \<open>text_block\<close>);
    without style tags, all its lines between the margins take the same number of columns (Fort\_Columns,
    Wide\_Correct); the lookup of properties; insertion and removal in vectors.
  \<^item> Ownership (Fort\_Destroy): through any calls that write, print, split, erase, span and convert, the
    blocks in use and the blocks released are those given out, each once; calls that stay within
    their rows return, and the destructor then releases everything.
  \<^item> Text: the UTF-8 functions are those on lists of code points (Utf8\_Spec, Text\_Correct); a buffer
    with UTF-8 text has the lines and columns of its code points; operations on tables of all types
    behave on \<open>char\<close> cells as the \<open>char\<close> tables do.

  \<^bold>\<open>Bounds and fuel.\<close>  No definition has fuel but \<open>proc_loop\<close>, which follows the endless loop of a sample
  process for a number of seconds.  Buffers have the sizes of the source: 10240 bytes for messages, fields of
  127 characters and a terminator, 75 slots of counters, 65536 bytes for DNS packets, 1024 characters
  for the first buffer of a formatted row.  Sizes are natural numbers where the source cannot reach
  the end of \<open>size_t\<close> and are reduced modulo 2 to the power of 64 or converted to \<open>int\<close> where it
  can.  The counters of the keepalive library and of the DNS client have no bound here,
  where the source has \<open>int\<close>.  Theorems on tables assume a block of at most 2 GiB, since printers count in \<open>int\<close>.

  \<^bold>\<open>Parameters.\<close>  The network (which sockets open, which datagrams are sent, what is answered and
  after how long), the bytes that can be read behind a block of the heap in the DNS client, the event library, the keepalive library, the configuration library and
  the operating system are arguments.  An event loop is a sequence of events: a step relation
  with reachability for the pod manager and the topology programs.  Allocation never fails, except in
  Fort\_Global, where the functions of the user allocate.

  \<^bold>\<open>Not modelled.\<close>
  \<^item> The objects of libevent and OpenSSL: what a request contains and when it is sent is modelled,
    not the connection that carries it.
  \<^item> Addresses of blocks, but in the heap of the lists (Elem) and in Fort\_Destroy, where the blocks of
    a table have addresses and its texts are left out; the copies made by \<open>ft_copy_table\<close> are not
    among its calls, and a block that grows keeps its address.
  \<^item> Code that is not compiled: the port allocator in \<open>topo/node.c\<close> under \<open>#if 0\<close>, the parts of
    \<open>fort.c\<close> under \<open>FT_TEST_BUILD\<close>.
  \<^item> \<open>libexternal/\<close>: declarations of libraries that come as binaries.  Of \<open>comm_msgtypes_small.h\<close>
    the header of a notification is modelled.
\<close>

end
